(* ===== verification/Prelude.thy ===== *)
theory Prelude
  imports Main "HOL-Library.Word" "HOL-Library.AList"
begin

section \<open>Shared types, errors and generic lemmas\<close>

text \<open>
  What every component of the development shares: the names of the machine types
  (unsigned integers are words, signed integers are \<open>int\<close> with their wrap-around
  written out by \<open>to_s16\<close> and \<open>to_s32\<close>), the exceptions of the code as a datatype,
  the sequencing operator on results, and generic lemmas on lists, options and words.
\<close>

subsection \<open>Machine integers\<close>

type_synonym u8 = "8 word"
type_synonym u16 = "16 word"
type_synonym u32 = "32 word"
type_synonym u64 = "64 word"

text \<open>Conversion of a mathematical integer to a signed width, as a C++ narrowing does.\<close>

definition to_s16 :: "int \<Rightarrow> int" where
  "to_s16 i = (i + 2 ^ 15) mod 2 ^ 16 - 2 ^ 15"

definition to_s32 :: "int \<Rightarrow> int" where
  "to_s32 i = (i + 2 ^ 31) mod 2 ^ 32 - 2 ^ 31"

named_theorems s_range \<open>ranges and identities of the signed conversions\<close>

lemma to_s16_range [s_range]: "- 32768 \<le> to_s16 i" "to_s16 i \<le> 32767"
  by (simp_all add: to_s16_def)

lemma to_s32_range [s_range]: "- 2147483648 \<le> to_s32 i" "to_s32 i \<le> 2147483647"
  by (simp_all add: to_s32_def)

lemma to_s16_id [s_range]: "- 32768 \<le> i \<Longrightarrow> i \<le> 32767 \<Longrightarrow> to_s16 i = i"
  by (simp add: to_s16_def)

lemma to_s32_id [s_range]: "- 2147483648 \<le> i \<Longrightarrow> i \<le> 2147483647 \<Longrightarrow> to_s32 i = i"
  by (simp add: to_s32_def)

text \<open>C++ integer division and remainder truncate towards zero.\<close>

definition c_div :: "int \<Rightarrow> int \<Rightarrow> int" where
  "c_div a b = sgn a * sgn b * (\<bar>a\<bar> div \<bar>b\<bar>)"

definition c_mod :: "int \<Rightarrow> int \<Rightarrow> int" where
  "c_mod a b = a - b * c_div a b"

lemma c_div_nonneg: "0 \<le> a \<Longrightarrow> 0 < b \<Longrightarrow> c_div a b = a div b"
  by (cases "a = 0") (simp_all add: c_div_def)

lemma c_mod_nonneg: "0 \<le> a \<Longrightarrow> 0 < b \<Longrightarrow> c_mod a b = a mod b"
  by (simp add: c_mod_def c_div_nonneg minus_mult_div_eq_mod)

lemma c_mod_small: "\<bar>a\<bar> < b \<Longrightarrow> c_mod a b = a"
  by (simp add: c_mod_def c_div_def)

subsection \<open>Exceptions and results\<close>

text \<open>
  The exception classes the modelled code throws. \<open>AssertFailed\<close> stands for a failed
  \<open>assert\<close>, \<open>sanity_check\<close> or \<open>FATAL_ERROR\<close>; \<open>OutOfBounds\<close> for an access to memory
  outside its container, undefined in C++; \<open>NullDereference\<close> for a call through a null
  pointer; \<open>UninitializedRead\<close> for the use of a variable that no statement has set.
\<close>

datatype error =
    SerializationError
  | VersionMismatchException
  | InvalidPositionException
  | BaseException
  | NotFoundException
  | IncomingDataCorruption
  | InvalidIncomingDataException
  | ProcessedSilentlyException
  | ProcessedQueued
  | PacketError
  | ClientNotFoundException
  | ClientStateError
  | AssertFailed
  | OutOfBounds
  | NullDereference
  | UninitializedRead

type_synonym 'a res = "error + 'a"

definition rbind :: "'a res \<Rightarrow> ('a \<Rightarrow> 'b res) \<Rightarrow> 'b res" where
  "rbind r f = (case r of Inl e \<Rightarrow> Inl e | Inr x \<Rightarrow> f x)"

lemma rbind_simps [simp]:
  "rbind (Inl e) f = Inl e"
  "rbind (Inr x) f = f x"
  by (simp_all add: rbind_def)

lemma rbind_eq_Inr: "rbind r f = Inr y \<longleftrightarrow> (\<exists>x. r = Inr x \<and> f x = Inr y)"
  by (cases r) auto

lemma rbind_eq_InrE [elim!]:
  assumes "rbind r f = Inr y"
  obtains x where "r = Inr x" and "f x = Inr y"
  using assms by (auto simp: rbind_eq_Inr)

lemma rbind_cong [fundef_cong]: "r = r' \<Longrightarrow> (\<And>x. r' = Inr x \<Longrightarrow> f x = f' x) \<Longrightarrow> rbind r f = rbind r' f'"
  by (cases r') simp_all

lemma rbind_assoc: "rbind (rbind r f) g = rbind r (\<lambda>x. rbind (f x) g)"
  by (cases r) simp_all

definition guard :: "error \<Rightarrow> bool \<Rightarrow> unit res" where
  "guard e b = (if b then Inr () else Inl e)"

lemma guard_simps [simp]:
  "guard e True = Inr ()"
  "guard e False = Inl e"
  "guard e b = Inr u \<longleftrightarrow> b"
  by (simp_all add: guard_def)

definition is_ok :: "'a res \<Rightarrow> bool" where
  "is_ok r = (case r of Inl _ \<Rightarrow> False | Inr _ \<Rightarrow> True)"

lemma is_ok_simps [simp]: "is_ok (Inl e) = False" "is_ok (Inr x) = True"
  by (simp_all add: is_ok_def)

text \<open>The rest of an operation on a state \<open>s\<close> after a step that may throw: the state stays as it is then.\<close>

definition attempt :: "'a res \<Rightarrow> 's \<Rightarrow> ('a \<Rightarrow> 'b res \<times> 's) \<Rightarrow> 'b res \<times> 's" where
  "attempt r s k = (case r of Inl e \<Rightarrow> (Inl e, s) | Inr x \<Rightarrow> k x)"

lemma attempt_simps [simp]: "attempt (Inl e) s k = (Inl e, s)" "attempt (Inr x) s k = k x"
  by (simp_all add: attempt_def)

text \<open>A loop over a list, in results.\<close>

fun rfold :: "('a \<Rightarrow> 's \<Rightarrow> 's res) \<Rightarrow> 'a list \<Rightarrow> 's \<Rightarrow> 's res" where
  "rfold f [] s = Inr s"
| "rfold f (x # xs) s = rbind (f x s) (rfold f xs)"

lemma rfold_append [simp]: "rfold f (xs @ ys) s = rbind (rfold f xs s) (rfold f ys)"
  by (induction xs arbitrary: s) (auto simp: rbind_def split: sum.splits)

lemma rfold_cong [fundef_cong]:
  "xs = ys \<Longrightarrow> s = t \<Longrightarrow> (\<And>x u. x \<in> set ys \<Longrightarrow> f x u = g x u) \<Longrightarrow> rfold f xs s = rfold g ys t"
proof (induction xs arbitrary: ys s t)
  case (Cons x xs)
  then show ?case by (cases "g x t") auto
qed simp

lemma rfold_idle: "(\<And>x. x \<in> set xs \<Longrightarrow> f x s = Inr s) \<Longrightarrow> rfold f xs s = Inr s"
  by (induction xs) simp_all

lemma rfold_pair:
  "rfold f xs a = Inr a' \<Longrightarrow> rfold g xs b = Inr b' \<Longrightarrow>
   rfold (\<lambda>x (a, b). rbind (f x a) (\<lambda>a1. rbind (g x b) (\<lambda>b1. Inr (a1, b1)))) xs (a, b) = Inr (a', b')"
  by (induction xs arbitrary: a b) auto

subsection \<open>Positions\<close>

text \<open>
  \<^verbatim>\<open>core::vector3d<T>\<close>: three signed components. The default build sets \<^verbatim>\<open>USE_POS32\<close> to 32
  (\<^verbatim>\<open>src/CMakeLists.txt\<close>), so \<^verbatim>\<open>v3pos_t\<close> holds \<open>s32\<close> values.
\<close>

record v3 =
  vX :: int
  vY :: int
  vZ :: int

abbreviation mk_v3 :: "int \<Rightarrow> int \<Rightarrow> int \<Rightarrow> v3" where
  "mk_v3 x y z \<equiv> \<lparr>vX = x, vY = y, vZ = z\<rparr>"

lemma v3_eq_iff: "(p :: v3) = q \<longleftrightarrow> vX p = vX q \<and> vY p = vY q \<and> vZ p = vZ q"
  by (cases p; cases q) auto

subsection \<open>Lists\<close>

text \<open>Sum of a measure over a list, one slot being replaced.\<close>

lemma sum_list_update_nat:
  fixes f :: "'a \<Rightarrow> nat"
  assumes "i < length xs"
  shows "sum_list (map f (xs[i := y])) + f (xs ! i) = sum_list (map f xs) + f y"
  using assms
proof (induction xs arbitrary: i)
  case Nil
  then show ?case by simp
next
  case (Cons x xs)
  then show ?case
    by (cases i) (auto simp: algebra_simps)
qed

lemma sum_list_member_le:
  fixes f :: "'a \<Rightarrow> nat"
  assumes "i < length xs"
  shows "f (xs ! i) \<le> sum_list (map f xs)"
  using assms by (simp add: member_le_sum_list)

lemma list_all_update:
  "list_all P xs \<Longrightarrow> P y \<Longrightarrow> list_all P (xs[i := y])"
  by (auto simp: list_all_iff dest!: subsetD [OF set_update_subset_insert])

lemma list_all_nth: "list_all P xs \<Longrightarrow> i < length xs \<Longrightarrow> P (xs ! i)"
  by (simp add: list_all_length)

lemma take_append_exact [simp]: "length xs = n \<Longrightarrow> take n (xs @ ys) = xs"
  by simp

lemma drop_append_exact [simp]: "length xs = n \<Longrightarrow> drop n (xs @ ys) = ys"
  by simp

lemma takeWhile_stop:
  "\<forall>x \<in> set xs. P x \<Longrightarrow> \<not> P y \<Longrightarrow> takeWhile P (xs @ y # ys) = xs"
  by (simp add: takeWhile_append)

lemma dropWhile_stop:
  "\<forall>x \<in> set xs. P x \<Longrightarrow> \<not> P y \<Longrightarrow> dropWhile P (xs @ y # ys) = y # ys"
  by (simp add: dropWhile_append)

subsection \<open>Words\<close>

lemma unat_u8_less: "unat (w :: u8) < 256"
  by (rule order_less_le_trans [OF unsigned_less]) simp

lemma unat_u16_less: "unat (w :: u16) < 65536"
  by (rule order_less_le_trans [OF unsigned_less]) simp

lemma unat_u32_less: "unat (w :: u32) < 4294967296"
  by (rule order_less_le_trans [OF unsigned_less]) simp

lemma unat_ucast_u32: "unat (ucast n :: u32) = unat (n :: u16)"
  using unat_u16_less [of n] by (simp add: unsigned_ucast_eq take_bit_nat_eq_self)

lemma unat_u64_less: "unat (w :: u64) < 18446744073709551616"
  by (rule order_less_le_trans [OF unsigned_less]) simp

lemma unat_of_nat_u16: "unat (of_nat n :: u16) = n mod 65536"
  by (simp add: unat_of_nat)

lemma unat_of_nat_u32: "unat (of_nat n :: u32) = n mod 4294967296"
  by (simp add: unat_of_nat)

lemma unat_ucast_16_32 [simp]: "unat (ucast (w :: u16) :: u32) = unat w"
  using unat_u16_less [of w] by (simp add: unsigned_ucast_eq take_bit_eq_mod)

lemma unat_ucast_32_16: "unat (ucast (w :: u32) :: u16) = unat w mod 65536"
  by (simp add: unsigned_ucast_eq take_bit_eq_mod)

lemma unat_u16_difference:
  assumes "unat (b :: u16) \<le> unat (a :: u16)"
  shows "unat (word_of_int (uint a - uint b) :: u32) = unat a - unat b"
proof -
  have "uint a - uint b = int (unat a - unat b)"
    using assms by (simp add: of_nat_diff)
  then have "unat (word_of_int (uint a - uint b) :: u32) = (unat a - unat b) mod 4294967296"
    by (simp only: of_int_of_nat_eq unat_of_nat_u32)
  also have "\<dots> = unat a - unat b"
    using unat_u16_less [of a] by (intro mod_less) linarith
  finally show ?thesis .
qed

lemmas unat_bounds = unat_u8_less unat_u16_less unat_u32_less unat_u64_less

subsection \<open>Association lists\<close>

lemma map_of_update: "map_of (AList.update k v al) = (map_of al)(k \<mapsto> v)"
  by (rule ext) (simp add: update_conv')

lemma map_of_delete: "map_of (AList.delete k al) = (map_of al)(k := None)"
  by (rule ext) (simp add: delete_conv')

lemma sum_list_alist_update:
  "map_of al k = Some v \<Longrightarrow>
    sum_list (map (\<lambda>(k, v). f v) (AList.update k v' al)) + f v = sum_list (map (\<lambda>(k, v). f v) al) + (f v' :: nat)"
  by (induction al) (auto split: if_splits)

end
