(* ===== verification/Serialize.thy ===== *)
theory Serialize
  imports Prelude
begin

section \<open>Binary and text serialisation\<close>

text \<open>
  The byte order routines and the length-prefixed and JSON-like strings of
  \<^verbatim>\<open>src/util/serialize.h\<close> and \<^verbatim>\<open>src/util/serialize.cpp\<close>, on which the map, inventory and
  network formats are built. A network buffer is a list of \<open>u8\<close>, a \<open>std::string\<close> a list
  of characters (bytes), an input stream the characters not yet read. Each decoder returns
  the value and the rest of the input, or the exception it throws.
\<close>

subsection \<open>Byte order\<close>

definition writeU16 :: "u16 \<Rightarrow> u8 list" where
  "writeU16 i = [ucast (drop_bit 8 i), ucast i]"

definition readU16 :: "u8 list \<Rightarrow> u16" where
  "readU16 data = or (push_bit 8 (ucast (data ! 0))) (ucast (data ! 1))"

definition writeU32 :: "u32 \<Rightarrow> u8 list" where
  "writeU32 i = [ucast (drop_bit 24 i), ucast (drop_bit 16 i), ucast (drop_bit 8 i), ucast i]"

definition readU32 :: "u8 list \<Rightarrow> u32" where
  "readU32 data =
     or (or (push_bit 24 (ucast (data ! 0))) (push_bit 16 (ucast (data ! 1))))
        (or (push_bit 8 (ucast (data ! 2))) (ucast (data ! 3)))"

definition writeU64 :: "u64 \<Rightarrow> u8 list" where
  "writeU64 i =
     [ucast (drop_bit 56 i), ucast (drop_bit 48 i), ucast (drop_bit 40 i), ucast (drop_bit 32 i),
      ucast (drop_bit 24 i), ucast (drop_bit 16 i), ucast (drop_bit 8 i), ucast i]"

definition readU64 :: "u8 list \<Rightarrow> u64" where
  "readU64 data =
     or (or (or (push_bit 56 (ucast (data ! 0))) (push_bit 48 (ucast (data ! 1))))
            (or (push_bit 40 (ucast (data ! 2))) (push_bit 32 (ucast (data ! 3)))))
        (or (or (push_bit 24 (ucast (data ! 4))) (push_bit 16 (ucast (data ! 5))))
            (or (push_bit 8 (ucast (data ! 6))) (ucast (data ! 7))))"

text \<open>
  Reading \<open>n\<close> bytes of a buffer from an offset on, or all from an offset on: a read that is not
  within the buffer is the error value.
\<close>

definition fetch :: "nat \<Rightarrow> nat \<Rightarrow> (u8 list \<Rightarrow> 'a) \<Rightarrow> u8 list \<Rightarrow> 'a res" where
  "fetch off n rd data = (if off + n \<le> length data then Inr (rd (drop off data)) else Inl OutOfBounds)"

definition fetch_rest :: "nat \<Rightarrow> u8 list \<Rightarrow> u8 list res" where
  "fetch_rest off data = (if off \<le> length data then Inr (drop off data) else Inl OutOfBounds)"

lemma fetch_Inr [simp]: "off + n \<le> length data \<Longrightarrow> fetch off n rd data = Inr (rd (drop off data))"
  by (simp add: fetch_def)

lemma fetch_byte [simp]:
  "data \<noteq> [] \<Longrightarrow> fetch 0 (Suc 0) hd data = Inr (data ! 0)"
  "Suc 0 < length data \<Longrightarrow> fetch (Suc 0) (Suc 0) hd data = Inr (data ! 1)"
  by (cases data; simp add: fetch_def) (simp add: fetch_def hd_drop_conv_nth Suc_le_eq)

lemma fetch_rest_Inr [simp]: "off \<le> length data \<Longrightarrow> fetch_rest off data = Inr (drop off data)"
  by (simp add: fetch_rest_def)

lemma length_writeU [simp]:
  "length (writeU16 w) = 2" "length (writeU32 v) = 4" "length (writeU64 x) = 8"
  by (simp_all add: writeU16_def writeU32_def writeU64_def)

lemma readU16_writeU16 [simp]: "readU16 (writeU16 w @ r) = w"
  by (rule bit_word_eqI)
    (auto simp: readU16_def writeU16_def bit_or_iff bit_push_bit_iff bit_ucast_iff bit_drop_bit_eq)

lemma readU32_writeU32 [simp]: "readU32 (writeU32 w @ r) = w"
proof (rule bit_word_eqI)
  fix n :: nat
  assume n: "n < LENGTH(32)"
  consider "n < 8" | "8 \<le> n" "n < 16" | "16 \<le> n" "n < 24" | "24 \<le> n" "n < 32"
    using n by force
  then show "bit (readU32 (writeU32 w @ r)) n = bit w n"
    by cases
      (simp_all add: readU32_def writeU32_def bit_or_iff bit_push_bit_iff bit_ucast_iff bit_drop_bit_eq
        less_diff_conv2)
qed

lemma readU64_writeU64 [simp]: "readU64 (writeU64 w @ r) = w"
proof (rule bit_word_eqI)
  fix n :: nat
  assume n: "n < LENGTH(64)"
  consider "n < 8" | "8 \<le> n" "n < 16" | "16 \<le> n" "n < 24" | "24 \<le> n" "n < 32"
    | "32 \<le> n" "n < 40" | "40 \<le> n" "n < 48" | "48 \<le> n" "n < 56" | "56 \<le> n" "n < 64"
    using n by force
  then show "bit (readU64 (writeU64 w @ r)) n = bit w n"
    by cases
      (simp_all add: readU64_def writeU64_def bit_or_iff bit_push_bit_iff bit_ucast_iff bit_drop_bit_eq
        less_diff_conv2)
qed

subsection \<open>Signed values and vectors\<close>

definition readS16 :: "u8 list \<Rightarrow> int" where
  "readS16 data = sint (readU16 data)"

definition readS32 :: "u8 list \<Rightarrow> int" where
  "readS32 data = sint (readU32 data)"

definition readS64 :: "u8 list \<Rightarrow> int" where
  "readS64 data = sint (readU64 data)"

definition writeS16 :: "int \<Rightarrow> u8 list" where
  "writeS16 i = writeU16 (word_of_int i)"

definition writeS32 :: "int \<Rightarrow> u8 list" where
  "writeS32 i = writeU32 (word_of_int i)"

definition writeS64 :: "int \<Rightarrow> u8 list" where
  "writeS64 i = writeU64 (word_of_int i)"

text \<open>
  A write into a caller's buffer at an offset: later writes overwrite earlier ones.
\<close>

definition poke :: "nat \<Rightarrow> u8 list \<Rightarrow> u8 list \<Rightarrow> u8 list" where
  "poke off bytes buf = take off buf @ bytes @ drop (off + length bytes) buf"

lemma length_poke [simp]: "off + length bytes \<le> length buf \<Longrightarrow> length (poke off bytes buf) = length buf"
  by (simp add: poke_def)

definition readV3S16 :: "u8 list \<Rightarrow> v3" where
  "readV3S16 data = mk_v3 (readS16 data) (readS16 (drop 2 data)) (readS16 (drop 4 data))"

definition writeV3S16 :: "v3 \<Rightarrow> u8 list \<Rightarrow> u8 list" where
  "writeV3S16 p buf = poke 4 (writeS16 (vZ p)) (poke 2 (writeS16 (vY p)) (poke 0 (writeS16 (vX p)) buf))"

definition readV3S32 :: "u8 list \<Rightarrow> v3" where
  "readV3S32 data = mk_v3 (readS32 data) (readS32 (drop 4 data)) (readS32 (drop 8 data))"

definition writeV3S32 :: "v3 \<Rightarrow> u8 list \<Rightarrow> u8 list" where
  "writeV3S32 p buf = poke 8 (writeS32 (vZ p)) (poke 4 (writeS32 (vY p)) (poke 0 (writeS32 (vX p)) buf))"

text \<open>
  The 64-bit pair keeps the 32-bit offsets 0, 4 and 8 although each component is 8 bytes wide.
\<close>

definition readV3S64 :: "u8 list \<Rightarrow> v3" where
  "readV3S64 data = mk_v3 (readS64 data) (readS64 (drop 4 data)) (readS64 (drop 8 data))"

definition writeV3S64 :: "v3 \<Rightarrow> u8 list \<Rightarrow> u8 list" where
  "writeV3S64 p buf = poke 8 (writeS64 (vZ p)) (poke 4 (writeS64 (vY p)) (poke 0 (writeS64 (vX p)) buf))"

lemma sint_word_of_int_s16: "- 32768 \<le> i \<Longrightarrow> i \<le> 32767 \<Longrightarrow> sint (word_of_int i :: u16) = i"
  by (simp add: sint_sbintrunc' signed_take_bit_int_eq_self)

lemma sint_word_of_int_s32:
  "- 2147483648 \<le> i \<Longrightarrow> i \<le> 2147483647 \<Longrightarrow> sint (word_of_int i :: u32) = i"
  by (simp add: sint_sbintrunc' signed_take_bit_int_eq_self)

lemma readS16_writeS16: "- 32768 \<le> i \<Longrightarrow> i \<le> 32767 \<Longrightarrow> readS16 (writeS16 i @ r) = i"
  by (simp add: readS16_def writeS16_def sint_word_of_int_s16)

lemma readS32_writeS32:
  "- 2147483648 \<le> i \<Longrightarrow> i \<le> 2147483647 \<Longrightarrow> readS32 (writeS32 i @ r) = i"
  by (simp add: readS32_def writeS32_def sint_word_of_int_s32)

lemma length_writeS [simp]:
  "length (writeS16 i) = 2" "length (writeS32 i) = 4" "length (writeS64 i) = 8"
  by (simp_all add: writeS16_def writeS32_def writeS64_def)

lemma writeV3S32_bytes:
  assumes "12 \<le> length buf"
  shows "writeV3S32 p buf = writeS32 (vX p) @ writeS32 (vY p) @ writeS32 (vZ p) @ drop 12 buf"
  using assms by (simp add: writeV3S32_def poke_def)

lemma writeV3S16_bytes:
  assumes "6 \<le> length buf"
  shows "writeV3S16 p buf = writeS16 (vX p) @ writeS16 (vY p) @ writeS16 (vZ p) @ drop 6 buf"
  using assms by (simp add: writeV3S16_def poke_def)

definition v3_in :: "int \<Rightarrow> int \<Rightarrow> v3 \<Rightarrow> bool" where
  "v3_in lo hi p \<longleftrightarrow> lo \<le> vX p \<and> vX p \<le> hi \<and> lo \<le> vY p \<and> vY p \<le> hi \<and> lo \<le> vZ p \<and> vZ p \<le> hi"

lemma readV3S32_writeV3S32:
  assumes "v3_in (- 2147483648) 2147483647 p" and "length buf = 12"
  shows "readV3S32 (writeV3S32 p buf) = p"
  using assms by (simp add: writeV3S32_bytes readV3S32_def v3_in_def readS32_writeS32
      readS32_writeS32 [where r = "[]", simplified])

lemma readV3S16_writeV3S16:
  assumes "v3_in (- 32768) 32767 p" and "length buf = 6"
  shows "readV3S16 (writeV3S16 p buf) = p"
  using assms by (simp add: writeV3S16_bytes readV3S16_def v3_in_def readS16_writeS16
      readS16_writeS16 [where r = "[]", simplified])

lemma writeV3S64_bytes:
  assumes "length buf = 24"
  shows "writeV3S64 p buf =
    take 4 (writeS64 (vX p)) @ take 4 (writeS64 (vY p)) @ writeS64 (vZ p) @ drop 16 buf"
  using assms by (simp add: writeV3S64_def poke_def)

lemma writeV3S64_fields:
  assumes "length buf = 24" and "word_of_int x div 2 ^ 32 = (word_of_int x' div 2 ^ 32 :: u64)"
  shows "writeV3S64 (mk_v3 x y z) buf = writeV3S64 (mk_v3 x' y z) buf"
proof -
  have "drop_bit 32 (word_of_int x) = (drop_bit 32 (word_of_int x') :: u64)"
    using assms(2) by (simp add: drop_bit_eq_div)
  then have "drop_bit (n + 32) (word_of_int x) = (drop_bit (n + 32) (word_of_int x') :: u64)" for n
    by (simp only: drop_bit_drop_bit [symmetric])
  from this [of 24] this [of 16] this [of 8] this [of 0]
  have "take 4 (writeS64 x) = take 4 (writeS64 x')"
    by (simp add: writeS64_def writeU64_def)
  then show ?thesis
    using assms(1) by (simp add: writeV3S64_bytes)
qed

subsection \<open>Codecs\<close>

text \<open>
  The contract between an encoder and its decoder: what was written is read back, and the
  rest of the input is left for the next decoder. Containers are encoded as a count and
  their elements one after another; their round trip is proved here once.
\<close>

fun dec_many :: "('b list \<Rightarrow> ('a \<times> 'b list) res) \<Rightarrow> nat \<Rightarrow> 'b list \<Rightarrow> ('a list \<times> 'b list) res" where
  "dec_many dec 0 s = Inr ([], s)"
| "dec_many dec (Suc n) s =
     rbind (dec s) (\<lambda>(x, s'). rbind (dec_many dec n s') (\<lambda>(xs, s''). Inr (x # xs, s'')))"

locale codec =
  fixes enc :: "'a \<Rightarrow> 'b list"
    and dec :: "'b list \<Rightarrow> ('a \<times> 'b list) res"
    and valid :: "'a \<Rightarrow> bool"
  assumes dec_enc: "valid x \<Longrightarrow> dec (enc x @ r) = Inr (x, r)"
begin

lemma dec_enc_end: "valid x \<Longrightarrow> dec (enc x) = Inr (x, [])"
  using dec_enc [of x "[]"] by simp

lemma dec_many_enc:
  "list_all valid xs \<Longrightarrow> dec_many dec (length xs) (concat (map enc xs) @ r) = Inr (xs, r)"
  by (induction xs) (simp_all add: dec_enc)

lemma enc_prefix_free: "valid x \<Longrightarrow> valid y \<Longrightarrow> enc x @ r = enc y @ t \<Longrightarrow> x = y \<and> r = t"
  using dec_enc [of x r] dec_enc [of y t] by (metis Inr_inject Pair_inject)

end

text \<open>A codec of fixed width, whose elements can be addressed by position.\<close>

locale fixed_codec = codec enc dec valid
  for enc :: "'a \<Rightarrow> 'b list"
    and dec :: "'b list \<Rightarrow> ('a \<times> 'b list) res"
    and valid :: "'a \<Rightarrow> bool" +
  fixes width :: nat
  assumes length_enc: "length (enc x) = width"
begin

lemma length_concat_enc: "length (concat (map enc xs)) = length xs * width"
  by (induction xs) (simp_all add: length_enc)

lemma drop_concat_enc:
  "i \<le> length xs \<Longrightarrow> drop (i * width) (concat (map enc xs) @ r) = concat (map enc (drop i xs)) @ r"
proof (induction xs arbitrary: i)
  case Nil
  then show ?case by simp
next
  case (Cons x xs)
  then show ?case
    by (cases i) (simp_all add: length_enc)
qed

lemma dec_nth:
  assumes "list_all valid xs" and "i < length xs"
  shows "dec (drop (i * width) (concat (map enc xs) @ r)) =
    Inr (xs ! i, drop (Suc i * width) (concat (map enc xs) @ r))"
proof -
  have "concat (map enc (drop i xs)) = enc (xs ! i) @ concat (map enc (drop (Suc i) xs))"
    using assms(2) by (simp add: Cons_nth_drop_Suc [symmetric])
  with assms show ?thesis
    using drop_concat_enc [of i xs r] drop_concat_enc [of "Suc i" xs r]
    by (simp add: list_all_nth dec_enc)
qed

end

subsection \<open>Streams of characters\<close>

definition chr8 :: "u8 \<Rightarrow> char" where
  "chr8 w = char_of (unat w)"

definition ord8 :: "char \<Rightarrow> u8" where
  "ord8 c = of_nat (of_char c)"

lemma ord8_chr8 [simp]: "ord8 (chr8 w) = w"
proof -
  have "unat w mod 256 = unat w"
    by (simp add: unat_u8_less)
  then show ?thesis
    by (simp add: ord8_def chr8_def)
qed

lemma unat_ord8: "unat (ord8 c) = of_char c"
  by (simp add: ord8_def unat_of_nat)

lemma chr8_ord8 [simp]: "chr8 (ord8 c) = c"
  by (simp add: chr8_def unat_ord8)

lemma map_ord8_chr8 [simp]: "map ord8 (map chr8 xs) = xs"
  by (simp add: comp_def)

lemma map_chr8_ord8 [simp]: "map chr8 (map ord8 xs) = xs"
  by (simp add: comp_def)

text \<open>The readers and writers that the two \<^verbatim>\<open>MAKE_STREAM\<close> macros define for each type.\<close>

definition stream_read :: "nat \<Rightarrow> (u8 list \<Rightarrow> 'a) \<Rightarrow> string \<Rightarrow> ('a \<times> string) res" where
  "stream_read S readN s =
     (if length s < S then Inl SerializationError
      else Inr (readN (map ord8 (take S s)), drop S s))"

definition stream_write :: "u8 list \<Rightarrow> string" where
  "stream_write buf = map chr8 buf"

definition readU8s :: "string \<Rightarrow> (u8 \<times> string) res" where
  "readU8s = stream_read 1 (\<lambda>d. d ! 0)"

definition readU16s :: "string \<Rightarrow> (u16 \<times> string) res" where
  "readU16s = stream_read 2 readU16"

definition readU32s :: "string \<Rightarrow> (u32 \<times> string) res" where
  "readU32s = stream_read 4 readU32"

lemma stream_read_write:
  assumes "length bs = S" and "readN bs = x"
  shows "stream_read S readN (stream_write bs @ r) = Inr (x, r)"
  using assms by (simp add: stream_read_def stream_write_def comp_def)

interpretation u8_codec: fixed_codec "\<lambda>w. stream_write [w]" readU8s "\<lambda>_. True" 1
  by unfold_locales (simp_all add: readU8s_def stream_read_write, simp add: stream_write_def)

interpretation u16_codec: fixed_codec "\<lambda>w. stream_write (writeU16 w)" readU16s "\<lambda>_. True" 2
  by unfold_locales
    (simp_all add: readU16s_def stream_read_write readU16_writeU16 [where r = "[]", simplified],
     simp add: stream_write_def)

interpretation u32_codec: fixed_codec "\<lambda>w. stream_write (writeU32 w)" readU32s "\<lambda>_. True" 4
  by unfold_locales
    (simp_all add: readU32s_def stream_read_write readU32_writeU32 [where r = "[]", simplified],
     simp add: stream_write_def)

end
