(* ===== verification/SerializedStrings.thy ===== *)
theory SerializedStrings
  imports Serialize
begin

section \<open>Length-prefixed and JSON-like strings\<close>

text \<open>
  \<^verbatim>\<open>src/util/serialize.cpp\<close>: strings with a 16-bit or 32-bit length, arrays of them, and
  the quoted strings of the inventory format, each with its decoder and its round trip.
\<close>

subsection \<open>Length-prefixed strings\<close>

definition STRING_MAX_LEN :: nat where
  "STRING_MAX_LEN = 0xFFFF"

definition LONG_STRING_MAX_LEN :: nat where
  "LONG_STRING_MAX_LEN = 64 * 1024 * 1024"

definition serializeString16 :: "string \<Rightarrow> string res" where
  "serializeString16 plain =
     (if length plain > STRING_MAX_LEN then Inl SerializationError
      else Inr (stream_write (writeU16 (of_nat (length plain))) @ plain))"

definition deSerializeString16 :: "string \<Rightarrow> (string \<times> string) res" where
  "deSerializeString16 is =
     (if length is < 2 then Inl SerializationError
      else
        let s_size = unat (readU16 (map ord8 (take 2 is)));
            is' = drop 2 is
        in if s_size = 0 then Inr ([], is')
           else if length is' < s_size then Inl SerializationError
           else Inr (take s_size is', drop s_size is'))"

definition serializeString32 :: "string \<Rightarrow> string res" where
  "serializeString32 plain =
     (if length plain > LONG_STRING_MAX_LEN then Inl SerializationError
      else Inr (stream_write (writeU32 (of_nat (length plain))) @ plain))"

definition deSerializeString32 :: "string \<Rightarrow> (string \<times> string) res" where
  "deSerializeString32 is =
     (if length is < 4 then Inl SerializationError
      else
        let s_size = unat (readU32 (map ord8 (take 4 is)));
            is' = drop 4 is
        in if s_size = 0 then Inr ([], is')
           else if s_size > LONG_STRING_MAX_LEN then Inl SerializationError
           else if length is' < s_size then Inl SerializationError
           else Inr (take s_size is', drop s_size is'))"

lemma take_stream_write16 [simp]: "take 2 (stream_write (writeU16 w) @ r) = stream_write (writeU16 w)"
  and drop_stream_write16 [simp]: "drop 2 (stream_write (writeU16 w) @ r) = r"
  and take_stream_write32 [simp]: "take 4 (stream_write (writeU32 v) @ r) = stream_write (writeU32 v)"
  and drop_stream_write32 [simp]: "drop 4 (stream_write (writeU32 v) @ r) = r"
  and length_stream_write [simp]: "length (stream_write bs) = length bs"
  and ord8_stream_write [simp]: "map ord8 (stream_write bs) = bs"
  by (simp_all add: stream_write_def comp_def)

lemma readU16_writeU16_end [simp]: "readU16 (writeU16 w) = w"
  using readU16_writeU16 [of w "[]"] by simp

lemma readU32_writeU32_end [simp]: "readU32 (writeU32 w) = w"
  using readU32_writeU32 [of w "[]"] by simp

lemma readU64_writeU64_end [simp]: "readU64 (writeU64 w) = w"
  using readU64_writeU64 [of w "[]"] by simp

lemma serializeString16_ok:
  "serializeString16 s = Inr t \<longleftrightarrow>
    length s \<le> STRING_MAX_LEN \<and> t = stream_write (writeU16 (of_nat (length s))) @ s"
  by (auto simp: serializeString16_def)

lemma serializeString32_ok:
  "serializeString32 s = Inr t \<longleftrightarrow>
    length s \<le> LONG_STRING_MAX_LEN \<and> t = stream_write (writeU32 (of_nat (length s))) @ s"
  by (auto simp: serializeString32_def)

lemma deSerializeString16_append:
  assumes "length s \<le> STRING_MAX_LEN"
  shows "deSerializeString16 (stream_write (writeU16 (of_nat (length s))) @ s @ r) = Inr (s, r)"
  using assms by (simp add: deSerializeString16_def STRING_MAX_LEN_def unat_of_nat_u16 Let_def)

lemma deSerializeString32_append:
  assumes "length s \<le> LONG_STRING_MAX_LEN"
  shows "deSerializeString32 (stream_write (writeU32 (of_nat (length s))) @ s @ r) = Inr (s, r)"
  using assms by (simp add: deSerializeString32_def LONG_STRING_MAX_LEN_def unat_of_nat_u32 Let_def)

text \<open>The encoders are total on the strings they accept; as such they are codecs.\<close>

definition string16_bytes :: "string \<Rightarrow> string" where
  "string16_bytes s = stream_write (writeU16 (of_nat (length s))) @ s"

definition string16_fits :: "string \<Rightarrow> bool" where
  "string16_fits s \<longleftrightarrow> length s \<le> STRING_MAX_LEN"

lemma serializeString16_bytes: "string16_fits s \<Longrightarrow> serializeString16 s = Inr (string16_bytes s)"
  by (simp add: string16_fits_def string16_bytes_def serializeString16_ok)

interpretation string16_codec: codec string16_bytes deSerializeString16 string16_fits
  by unfold_locales
    (simp add: string16_bytes_def string16_fits_def deSerializeString16_append)

subsection \<open>Arrays of strings\<close>

fun array_lengths :: "string list \<Rightarrow> string res" where
  "array_lengths [] = Inr []"
| "array_lengths (s # ss) =
     (if length s > STRING_MAX_LEN then Inl SerializationError
      else rbind (array_lengths ss)
        (\<lambda>t. Inr (stream_write (writeU16 (of_nat (length s))) @ t)))"

definition serializeString16Array :: "string list \<Rightarrow> string res" where
  "serializeString16Array array =
     (if length array > 0xFFFFFFFF then Inl SerializationError
      else rbind (array_lengths array)
        (\<lambda>lens. Inr (stream_write (writeU32 (of_nat (length array))) @ lens @ concat array)))"

fun read_contents :: "u16 list \<Rightarrow> string \<Rightarrow> (string list \<times> string) res" where
  "read_contents [] is = Inr ([], is)"
| "read_contents (n # ns) is =
     (if length is < unat n then Inl SerializationError
      else rbind (read_contents ns (drop (unat n) is))
        (\<lambda>(ss, r). Inr (take (unat n) is # ss, r)))"

definition deserializeString16Array :: "string \<Rightarrow> (string list \<times> string) res" where
  "deserializeString16Array is =
     rbind (readU32s is) (\<lambda>(count, is1).
     rbind (dec_many readU16s (unat count) is1) (\<lambda>(sizes, is2).
     read_contents sizes is2))"

lemma array_lengths_ok:
  "list_all string16_fits ss \<Longrightarrow>
    array_lengths ss = Inr (concat (map (\<lambda>s. stream_write (writeU16 (of_nat (length s)))) ss))"
  by (induction ss) (simp_all add: string16_fits_def not_less)

lemma array_lengths_fits: "array_lengths ss = Inr t \<Longrightarrow> list_all string16_fits ss"
  by (induction ss arbitrary: t) (auto simp: string16_fits_def split: if_splits)

lemma read_contents_concat:
  "list_all string16_fits ss \<Longrightarrow>
    read_contents (map (\<lambda>s. of_nat (length s)) ss) (concat ss @ r) = Inr (ss, r)"
  by (induction ss)
    (simp_all add: string16_fits_def STRING_MAX_LEN_def unat_of_nat_u16)

lemma deserialize_array_append:
  assumes "serializeString16Array ss = Inr t"
  shows "deserializeString16Array (t @ r) = Inr (ss, r)"
proof -
  from assms obtain ls where len: "length ss < 4294967296"
    and ls: "array_lengths ss = Inr ls"
    and t': "t = stream_write (writeU32 (of_nat (length ss))) @ ls @ concat ss"
    by (auto simp: serializeString16Array_def split: if_splits)
  from ls have fits: "list_all string16_fits ss"
    by (rule array_lengths_fits)
  with ls t' have t: "t = stream_write (writeU32 (of_nat (length ss))) @
      concat (map (\<lambda>s. stream_write (writeU16 (of_nat (length s)))) ss) @ concat ss"
    by (simp add: array_lengths_ok)
  let ?ls = "map (\<lambda>s. of_nat (length s) :: u16) ss"
  have "dec_many readU16s (length ?ls) (concat (map (\<lambda>w. stream_write (writeU16 w)) ?ls) @ concat ss @ r)
      = Inr (?ls, concat ss @ r)"
    by (rule u16_codec.dec_many_enc) (simp add: list_all_iff)
  then show ?thesis
    using len fits
    by (simp add: t deserializeString16Array_def u32_codec.dec_enc unat_of_nat_u32 comp_def
        read_contents_concat)
qed

subsection \<open>JSON-like strings\<close>

definition hex_chars :: string where
  "hex_chars = ''0123456789abcdef''"

definition hex_digit_decode :: "char \<Rightarrow> nat option" where
  "hex_digit_decode c =
     (let d = of_char c :: nat in
      if 48 \<le> d \<and> d \<le> 57 then Some (d - 48)
      else if 65 \<le> d \<and> d \<le> 70 then Some (d - 65 + 10)
      else if 97 \<le> d \<and> d \<le> 102 then Some (d - 97 + 10)
      else None)"

abbreviation backslash :: char where "backslash \<equiv> CHR 0x5C"
abbreviation dquote :: char where "dquote \<equiv> CHR 0x22"

text \<open>One turn of the loop of \<^verbatim>\<open>serializeJsonString\<close>: what is appended for a character.\<close>

definition json_escape :: "char \<Rightarrow> string" where
  "json_escape c =
     (if c = dquote then [backslash, dquote]
      else if c = backslash then [backslash, backslash]
      else if c = CHR 0x08 then [backslash, CHR ''b'']
      else if c = CHR 0x0C then [backslash, CHR ''f'']
      else if c = CHR 0x0A then [backslash, CHR ''n'']
      else if c = CHR 0x0D then [backslash, CHR ''r'']
      else if c = CHR 0x09 then [backslash, CHR ''t'']
      else
        let cnum = of_char c :: nat
        in if cnum < 32 \<or> cnum = 127
           then [backslash, CHR ''u'', CHR ''0'', CHR ''0'',
                 hex_chars ! (cnum div 16), hex_chars ! (cnum mod 16)]
           else [c])"

definition serializeJsonString :: "string \<Rightarrow> string" where
  "serializeJsonString plain = [dquote] @ concat (map json_escape plain) @ [dquote]"

text \<open>
  The unescaping pass over the text between the quotes. The code writes its output over the
  buffer it reads, never ahead of the read index, so the output is the list of characters
  written. A \<^verbatim>\<open>\u\<close> escape needs four more characters before the closing quote; a character
  that is not a hexadecimal digit leaves its initial value 0, and the value is truncated to a
  byte.
\<close>

fun json_unescape :: "string \<Rightarrow> string res" where
  "json_unescape [] = Inr []"
| "json_unescape (c # s) =
     (if c \<noteq> backslash then rbind (json_unescape s) (\<lambda>t. Inr (c # t))
      else case s of
        [] \<Rightarrow> Inl SerializationError
      | c2 # s' \<Rightarrow>
          if c2 = CHR ''b'' then rbind (json_unescape s') (\<lambda>t. Inr (CHR 0x08 # t))
          else if c2 = CHR ''f'' then rbind (json_unescape s') (\<lambda>t. Inr (CHR 0x0C # t))
          else if c2 = CHR ''n'' then rbind (json_unescape s') (\<lambda>t. Inr (CHR 0x0A # t))
          else if c2 = CHR ''r'' then rbind (json_unescape s') (\<lambda>t. Inr (CHR 0x0D # t))
          else if c2 = CHR ''t'' then rbind (json_unescape s') (\<lambda>t. Inr (CHR 0x09 # t))
          else if c2 = CHR ''u'' then
            (case s' of
              v0 # v1 # v2 # v3 # s'' \<Rightarrow>
                (let v = (\<lambda>h. case hex_digit_decode h of None \<Rightarrow> 0 | Some d \<Rightarrow> d);
                     hexnumber = v v0 * 4096 + v v1 * 256 + v v2 * 16 + v v3
                 in rbind (json_unescape s'') (\<lambda>t. Inr (char_of hexnumber # t)))
            | _ \<Rightarrow> Inl SerializationError)
          else rbind (json_unescape s') (\<lambda>t. Inr (c2 # t)))"

text \<open>The scan for the closing quote, with the backslash state; the text before it and the rest.\<close>

fun json_scan :: "bool \<Rightarrow> string \<Rightarrow> (string \<times> string) res" where
  "json_scan was_backslash [] = Inl SerializationError"
| "json_scan was_backslash (c # is) =
     (if was_backslash then rbind (json_scan False is) (\<lambda>(t, r). Inr (c # t, r))
      else if c = backslash then rbind (json_scan True is) (\<lambda>(t, r). Inr (c # t, r))
      else if c = dquote then Inr ([], is)
      else rbind (json_scan False is) (\<lambda>(t, r). Inr (c # t, r)))"

definition deSerializeJsonString :: "string \<Rightarrow> (string \<times> string) res" where
  "deSerializeJsonString is =
     (case is of
        [] \<Rightarrow> Inl SerializationError
      | c # is' \<Rightarrow>
          if c \<noteq> dquote then Inl SerializationError
          else rbind (json_scan False is') (\<lambda>(body, r).
               rbind (json_unescape body) (\<lambda>s. Inr (s, r))))"

lemma hex_chars_decode: "k < 16 \<Longrightarrow> hex_digit_decode (hex_chars ! k) = Some k"
proof -
  have "\<forall>k \<in> set [0..<16]. hex_digit_decode (hex_chars ! k) = Some k"
    by code_simp
  then show "k < 16 \<Longrightarrow> ?thesis" by simp
qed

lemma hex_chars_plain: "k < 16 \<Longrightarrow> hex_chars ! k \<noteq> backslash \<and> hex_chars ! k \<noteq> dquote"
proof -
  have "\<forall>k \<in> set [0..<16]. hex_chars ! k \<noteq> backslash \<and> hex_chars ! k \<noteq> dquote"
    by code_simp
  then show "k < 16 \<Longrightarrow> ?thesis" by simp
qed

text \<open>The three shapes of an escaped character: itself, a two-character escape, a \<^verbatim>\<open>\u\<close> escape.\<close>

lemma json_escape_shapes:
  obtains
    (plain) "json_escape c = [c]" "c \<noteq> backslash" "c \<noteq> dquote"
  | (short) e where "json_escape c = [backslash, e]"
      "\<And>s. json_unescape (backslash # e # s) = rbind (json_unescape s) (\<lambda>t. Inr (c # t))"
  | (hex) a b where "json_escape c = [backslash, CHR ''u'', CHR ''0'', CHR ''0'', hex_chars ! a, hex_chars ! b]"
      "a < 16" "b < 16" "c = char_of (a * 16 + b)"
proof (cases "c \<in> {dquote, backslash, CHR 0x08, CHR 0x0C, CHR 0x0A, CHR 0x0D, CHR 0x09}")
  case True
  then show ?thesis
    by (elim insertE emptyE) (rule short, force simp: json_escape_def, force)+
next
  case False
  let ?n = "of_char c :: nat"
  show ?thesis
  proof (cases "?n < 32 \<or> ?n = 127")
    case True
    with False have esc: "json_escape c =
        [backslash, CHR ''u'', CHR ''0'', CHR ''0'', hex_chars ! (?n div 16), hex_chars ! (?n mod 16)]"
      by (simp add: json_escape_def Let_def)
    have hi: "?n div 16 < 16" using True by auto
    have val: "c = char_of (?n div 16 * 16 + ?n mod 16)"
      by (simp only: div_mult_mod_eq char_of_char)
    show ?thesis
      by (rule hex [OF esc hi _ val]) simp
  next
    case nonctl: False
    with False show ?thesis
      by (intro plain) (auto simp: json_escape_def Let_def)
  qed
qed

lemma json_scan_escape:
  "json_scan False (json_escape c @ s) = rbind (json_scan False s) (\<lambda>(t, r). Inr (json_escape c @ t, r))"
proof (cases rule: json_escape_shapes [of c])
  case plain
  then show ?thesis by simp
next
  case (short e)
  then show ?thesis by (simp add: rbind_assoc case_prod_unfold)
next
  case (hex a b)
  then show ?thesis
    using hex_chars_plain [of a] hex_chars_plain [of b]
    by (simp add: rbind_assoc case_prod_unfold)
qed

lemma json_unescape_escape:
  "json_unescape (json_escape c @ s) = rbind (json_unescape s) (\<lambda>t. Inr (c # t))"
proof (cases rule: json_escape_shapes [of c])
  case plain
  then show ?thesis by simp
next
  case (short e)
  then show ?thesis by (simp del: json_unescape.simps)
next
  case (hex a b)
  have "hex_digit_decode CHR ''0'' = Some 0"
    by code_simp
  with hex show ?thesis
    by (simp add: hex_chars_decode Let_def)
qed

lemma json_scan_body:
  "json_scan False (concat (map json_escape s) @ dquote # r) = Inr (concat (map json_escape s), r)"
  by (induction s) (simp_all add: json_scan_escape)

lemma json_unescape_body: "json_unescape (concat (map json_escape s)) = Inr s"
  by (induction s) (simp_all add: json_unescape_escape)

lemma deSerializeJsonString_append: "deSerializeJsonString (serializeJsonString s @ r) = Inr (s, r)"
  by (simp add: deSerializeJsonString_def serializeJsonString_def json_scan_body json_unescape_body)

interpretation json_codec: codec serializeJsonString deSerializeJsonString "\<lambda>_. True"
  by unfold_locales (rule deSerializeJsonString_append)

subsection \<open>Properties\<close>

text \<open>
  An array of strings is written exactly when its length and the length of each string fit
  their fields, and what was written is read back, leaving what follows it in the stream.
\<close>

theorem string16_array_roundtrip:
  "(length ss \<le> 0xFFFFFFFF \<and> list_all string16_fits ss \<longleftrightarrow> is_ok (serializeString16Array ss)) \<and>
   rbind (serializeString16Array ss) (\<lambda>t. deserializeString16Array (t @ r)) =
     rbind (serializeString16Array ss) (\<lambda>_. Inr (ss, r))"
proof
  show "length ss \<le> 0xFFFFFFFF \<and> list_all string16_fits ss \<longleftrightarrow> is_ok (serializeString16Array ss)"
    using array_lengths_ok [of ss] array_lengths_fits [of ss]
    by (cases "array_lengths ss") (auto simp: serializeString16Array_def)
  show "rbind (serializeString16Array ss) (\<lambda>t. deserializeString16Array (t @ r)) =
      rbind (serializeString16Array ss) (\<lambda>_. Inr (ss, r))"
    using deserialize_array_append [of ss _ r] by (cases "serializeString16Array ss") simp_all
qed

text \<open>
  C19: every byte string, escapes, quotes and control characters included, comes back from its
  JSON form, the reader stops right after the closing quote, and no JSON form is a proper
  prefix of another.
\<close>

theorem json_string_roundtrip:
  "deSerializeJsonString (serializeJsonString s @ r) = Inr (s, r) \<and>
   (serializeJsonString s @ r = serializeJsonString s' @ r' \<longrightarrow> s = s' \<and> r = r')"
  using json_codec.dec_enc [of s r] json_codec.enc_prefix_free [of s r s' r'] by blast

theorem json_string_roundtrip_witness:
  "serializeJsonString (''a'' @ [dquote, CHR 0x0A]) @ ''x'' = serializeJsonString (''a'' @ [dquote, CHR 0x0A]) @ ''x'' \<and>
   deSerializeJsonString (serializeJsonString (''a'' @ [dquote, CHR 0x0A]) @ ''x'') = Inr (''a'' @ [dquote, CHR 0x0A], ''x'')"
  using json_string_roundtrip [of "''a'' @ [dquote, CHR 0x0A]" "''x''" "''a'' @ [dquote, CHR 0x0A]" "''x''"]
  by blast

end
