(* ===== verification/NameIdMap.thy ===== *)
theory NameIdMap
  imports SerializedStrings "HOL-Library.AList"
begin

section \<open>The node name and id mapping\<close>

text \<open>
  \<^verbatim>\<open>src/nameidmapping.h\<close>, \<^verbatim>\<open>src/nameidmapping.cpp\<close> and the legacy tables of
  \<^verbatim>\<open>src/content_mapnode.cpp\<close>. The two hash maps are association lists, in the order in
  which the container would be iterated; an update keeps the keys distinct. Nothing proved
  here depends on that order.
\<close>

record nimap =
  id_to_name :: "(u16 \<times> string) list"
  name_to_id :: "(string \<times> u16) list"

definition nim_clear :: nimap where
  "nim_clear = \<lparr>id_to_name = [], name_to_id = []\<rparr>"

definition nim_set :: "u16 \<Rightarrow> string \<Rightarrow> nimap \<Rightarrow> nimap res" where
  "nim_set cid name m =
     (if name = [] then Inl AssertFailed
      else Inr \<lparr>id_to_name = AList.update cid name (id_to_name m),
                name_to_id = AList.update name cid (name_to_id m)\<rparr>)"

definition nim_getName :: "u16 \<Rightarrow> nimap \<Rightarrow> string option" where
  "nim_getName cid m = map_of (id_to_name m) cid"

definition nim_getId :: "string \<Rightarrow> nimap \<Rightarrow> u16 option" where
  "nim_getId name m = map_of (name_to_id m) name"

definition nim_removeId :: "u16 \<Rightarrow> nimap \<Rightarrow> nimap" where
  "nim_removeId cid m =
     (case nim_getName cid m of
        None \<Rightarrow> m
      | Some name \<Rightarrow> \<lparr>id_to_name = AList.delete cid (id_to_name m),
                      name_to_id = AList.delete name (name_to_id m)\<rparr>)"

definition nim_eraseName :: "string \<Rightarrow> nimap \<Rightarrow> nimap" where
  "nim_eraseName name m =
     (case nim_getId name m of
        None \<Rightarrow> m
      | Some cid \<Rightarrow> \<lparr>id_to_name = AList.delete cid (id_to_name m),
                    name_to_id = AList.delete name (name_to_id m)\<rparr>)"

definition nim_size :: "nimap \<Rightarrow> u16" where
  "nim_size m = of_nat (length (id_to_name m))"

subsection \<open>Serialisation\<close>

fun nim_write_entries :: "(u16 \<times> string) list \<Rightarrow> string res" where
  "nim_write_entries [] = Inr []"
| "nim_write_entries ((cid, name) # es) =
     rbind (serializeString16 name) (\<lambda>s.
     rbind (nim_write_entries es) (\<lambda>t. Inr (stream_write (writeU16 cid) @ s @ t)))"

definition nim_serialize :: "nimap \<Rightarrow> string res" where
  "nim_serialize m =
     rbind (nim_write_entries (id_to_name m)) (\<lambda>es.
       Inr (stream_write [0] @ stream_write (writeU16 (of_nat (length (id_to_name m)))) @ es))"

definition nim_read_entry :: "string \<Rightarrow> ((u16 \<times> string) \<times> string) res" where
  "nim_read_entry is =
     rbind (readU16s is) (\<lambda>(cid, is1).
     rbind (deSerializeString16 is1) (\<lambda>(name, is2). Inr ((cid, name), is2)))"

definition nim_deSerialize :: "string \<Rightarrow> (nimap \<times> string) res" where
  "nim_deSerialize is =
     rbind (readU8s is) (\<lambda>(version, is1).
       if version \<noteq> 0 then Inl SerializationError
       else rbind (readU16s is1) (\<lambda>(count, is2).
            rbind (dec_many nim_read_entry (unat count) is2) (\<lambda>(es, is3).
              Inr (fold (\<lambda>(cid, name) m.
                     \<lparr>id_to_name = AList.update cid name (id_to_name m),
                      name_to_id = AList.update name cid (name_to_id m)\<rparr>) es nim_clear, is3))))"

subsection \<open>The two directions agree\<close>

text \<open>The names and ids of a well-formed mapping are inverse to each other.\<close>

definition nim_wf :: "nimap \<Rightarrow> bool" where
  "nim_wf m \<longleftrightarrow>
     distinct (map fst (id_to_name m)) \<and> distinct (map fst (name_to_id m)) \<and>
     (\<forall>cid name. map_of (id_to_name m) cid = Some name \<longleftrightarrow> map_of (name_to_id m) name = Some cid)"

lemma nim_wf_clear: "nim_wf nim_clear"
  by (simp add: nim_wf_def nim_clear_def)

text \<open>Setting a pair keeps the agreement when neither side is bound to something else.\<close>

lemma nim_wf_set:
  assumes "nim_wf m" and "nim_set cid name m = Inr m'"
    and "nim_getName cid m \<in> {None, Some name}" and "nim_getId name m \<in> {None, Some cid}"
  shows "nim_wf m'"
proof -
  have agree: "\<And>i n. map_of (id_to_name m) i = Some n \<longleftrightarrow> map_of (name_to_id m) n = Some i"
    using assms(1) by (simp add: nim_wf_def)
  have "name \<noteq> []" and m': "m' = \<lparr>id_to_name = AList.update cid name (id_to_name m),
      name_to_id = AList.update name cid (name_to_id m)\<rparr>"
    using assms(2) by (auto simp: nim_set_def split: if_splits)
  have "distinct (map fst (AList.update cid name (id_to_name m)))"
    "distinct (map fst (AList.update name cid (name_to_id m)))"
    using assms(1) by (simp_all add: nim_wf_def distinct_update)
  moreover have "((map_of (id_to_name m))(cid \<mapsto> name)) i = Some n \<longleftrightarrow>
      ((map_of (name_to_id m))(name \<mapsto> cid)) n = Some i" for i n
    using assms(3,4) agree [of i n] agree [of cid n] agree [of i name]
    by (auto simp: nim_getName_def nim_getId_def)
  ultimately show ?thesis
    by (simp add: nim_wf_def m' map_of_update)
qed

lemma nim_wf_delete:
  assumes "nim_wf m" and "map_of (id_to_name m) cid = Some name"
  shows "nim_wf \<lparr>id_to_name = AList.delete cid (id_to_name m),
                  name_to_id = AList.delete name (name_to_id m)\<rparr>"
proof -
  have agree: "\<And>i n. map_of (id_to_name m) i = Some n \<longleftrightarrow> map_of (name_to_id m) n = Some i"
    using assms(1) by (simp add: nim_wf_def)
  have "((map_of (id_to_name m))(cid := None)) i = Some n \<longleftrightarrow>
      ((map_of (name_to_id m))(name := None)) n = Some i" for i n
    using assms(2) agree [of i n] agree [of cid n] agree [of i name] by auto
  moreover have "distinct (map fst (AList.delete cid (id_to_name m)))"
    "distinct (map fst (AList.delete name (name_to_id m)))"
    using assms(1) by (simp_all add: nim_wf_def distinct_delete)
  ultimately show ?thesis
    unfolding nim_wf_def nimap.simps map_of_delete by blast
qed

lemma nim_wf_removeId: "nim_wf m \<Longrightarrow> nim_wf (nim_removeId cid m)"
  by (auto simp: nim_removeId_def nim_getName_def simp del: map_of_eq_Some_iff
      intro: nim_wf_delete split: option.split)

lemma nim_wf_eraseName:
  assumes "nim_wf m"
  shows "nim_wf (nim_eraseName name m)"
proof (cases "map_of (name_to_id m) name")
  case None
  with assms show ?thesis by (simp add: nim_eraseName_def nim_getId_def)
next
  case (Some cid)
  with assms have "map_of (id_to_name m) cid = Some name"
    unfolding nim_wf_def by blast
  with assms Some show ?thesis
    by (simp add: nim_eraseName_def nim_getId_def nim_wf_delete)
qed

subsection \<open>Round trip\<close>

definition nim_entry_bytes :: "u16 \<times> string \<Rightarrow> string" where
  "nim_entry_bytes e = stream_write (writeU16 (fst e)) @ string16_bytes (snd e)"

interpretation nim_entry_codec: codec nim_entry_bytes nim_read_entry "\<lambda>e. string16_fits (snd e)"
  by unfold_locales
    (simp add: nim_entry_bytes_def nim_read_entry_def u16_codec.dec_enc string16_codec.dec_enc)

lemma nim_write_entries_ok:
  "list_all (\<lambda>e. string16_fits (snd e)) es \<Longrightarrow>
    nim_write_entries es = Inr (concat (map nim_entry_bytes es))"
  by (induction es rule: nim_write_entries.induct)
    (simp_all add: serializeString16_bytes nim_entry_bytes_def)

lemma nim_write_entries_fits:
  "nim_write_entries es = Inr t \<Longrightarrow> list_all (\<lambda>e. string16_fits (snd e)) es"
  by (induction es arbitrary: t rule: nim_write_entries.induct)
    (auto simp: string16_fits_def serializeString16_ok)

lemma update_append_new: "k \<notin> fst ` set al \<Longrightarrow> AList.update k v al = al @ [(k, v)]"
  by (induction al) auto

abbreviation nim_insert :: "u16 \<times> string \<Rightarrow> nimap \<Rightarrow> nimap" where
  "nim_insert \<equiv> (\<lambda>(cid, name) m.
     \<lparr>id_to_name = AList.update cid name (id_to_name m),
      name_to_id = AList.update name cid (name_to_id m)\<rparr>)"

lemma fold_nim_insert:
  "distinct (map fst (id_to_name m) @ map fst es) \<Longrightarrow>
   distinct (map fst (name_to_id m) @ map snd es) \<Longrightarrow>
    fold nim_insert es m =
      \<lparr>id_to_name = id_to_name m @ es, name_to_id = name_to_id m @ map prod.swap es\<rparr>"
proof (induction es arbitrary: m)
  case Nil
  then show ?case by simp
next
  case (Cons e es)
  obtain i n where e: "e = (i, n)" by (cases e)
  have "nim_insert e m =
      \<lparr>id_to_name = id_to_name m @ [e], name_to_id = name_to_id m @ [(n, i)]\<rparr>"
    using Cons.prems by (auto simp: e update_append_new)
  then show ?case
    using Cons by (simp add: e)
qed

lemma nim_wf_distinct_names:
  assumes "nim_wf m"
  shows "distinct (map snd (id_to_name m))"
proof -
  have d: "distinct (map fst (id_to_name m))"
    and inj: "\<And>i j n. map_of (id_to_name m) i = Some n \<Longrightarrow> map_of (id_to_name m) j = Some n \<Longrightarrow> i = j"
    using assms by (auto simp: nim_wf_def)
  have "inj_on snd (set (id_to_name m))"
    using d inj by (auto simp: inj_on_def)
  with d show ?thesis
    by (simp add: distinct_map)
qed

lemma nim_wf_name_to_id:
  assumes "nim_wf m"
  shows "map_of (map prod.swap (id_to_name m)) = map_of (name_to_id m)"
proof
  fix n
  have d: "distinct (map fst (id_to_name m))"
    using assms by (simp add: nim_wf_def)
  have swap: "distinct (map fst (map prod.swap (id_to_name m)))"
    using nim_wf_distinct_names [OF assms] by (simp add: comp_def)
  have "map_of (map prod.swap (id_to_name m)) n = Some i \<longleftrightarrow> map_of (name_to_id m) n = Some i" for i
  proof -
    have "map_of (map prod.swap (id_to_name m)) n = Some i \<longleftrightarrow> (n, i) \<in> set (map prod.swap (id_to_name m))"
      by (rule map_of_eq_Some_iff [OF swap])
    also have "\<dots> \<longleftrightarrow> (i, n) \<in> set (id_to_name m)"
      by (force simp: prod.swap_def)
    also have "\<dots> \<longleftrightarrow> map_of (id_to_name m) i = Some n"
      by (rule map_of_eq_Some_iff [OF d, symmetric])
    finally show ?thesis
      using assms by (simp add: nim_wf_def)
  qed
  then show "map_of (map prod.swap (id_to_name m)) n = map_of (name_to_id m) n"
    by (metis option.exhaust)
qed

text \<open>
  What is read back from any mapping: the ids with their names, also where two ids have the same
  name; the direction from names to ids is built anew.
\<close>

lemma nim_read_back:
  assumes "nim_serialize m = Inr s" and "length (id_to_name m) < 65536"
  shows "nim_deSerialize (s @ r) = Inr (fold nim_insert (id_to_name m) nim_clear, r)"
proof -
  let ?es = "id_to_name m"
  obtain es where es: "nim_write_entries ?es = Inr es"
    and s: "s = stream_write [0] @ stream_write (writeU16 (of_nat (length ?es))) @ es"
    using assms(1) by (auto simp: nim_serialize_def)
  have fits: "list_all (\<lambda>e. string16_fits (snd e)) ?es"
    by (rule nim_write_entries_fits [OF es])
  then have "es = concat (map nim_entry_bytes ?es)"
    using es by (simp add: nim_write_entries_ok)
  then show ?thesis
    using assms(2) nim_entry_codec.dec_many_enc [OF fits, of r]
    by (simp add: nim_deSerialize_def s u8_codec.dec_enc u16_codec.dec_enc unat_of_nat_u16)
qed

lemma fold_insert_ids:
  "distinct (map fst (id_to_name m) @ map fst es) \<Longrightarrow> id_to_name (fold nim_insert es m) = id_to_name m @ es"
proof (induction es arbitrary: m)
  case (Cons e es)
  obtain i n where e: "e = (i, n)" by (cases e)
  have "id_to_name (nim_insert e m) = id_to_name m @ [e]"
    using Cons.prems by (simp add: e update_append_new)
  then show ?case using Cons by (simp add: e)
qed simp

lemma fold_insert_names:
  "map_of (name_to_id (fold nim_insert es m)) n = Some i \<Longrightarrow> (i, n) \<in> set es \<or> map_of (name_to_id m) n = Some i"
  "n \<in> snd ` set es \<or> map_of (name_to_id m) n \<noteq> None \<Longrightarrow> map_of (name_to_id (fold nim_insert es m)) n \<noteq> None"
proof (induction es arbitrary: m)
  case (Cons e es)
  obtain j k where e: "e = (j, k)" by (cases e)
  {
    case 1
    then show ?case
      using Cons.IH(1) [of "nim_insert e m"] by (auto simp: e map_of_update split: if_splits)
  next
    case 2
    then have "n \<in> snd ` set es \<or> map_of (name_to_id (nim_insert e m)) n \<noteq> None"
      by (auto simp: e map_of_update)
    then show ?case
      using Cons.IH(2) [of "nim_insert e m"] by (simp add: e)
  }
qed auto

lemma nim_ids_read_back:
  assumes d: "distinct (map fst (id_to_name m))" and s: "nim_serialize m = Inr s" and l: "length (id_to_name m) < 65536"
  shows "\<exists>m'. nim_deSerialize (s @ r) = Inr (m', r) \<and> id_to_name m' = id_to_name m"
  using fold_insert_ids [of nim_clear "id_to_name m"] d by (simp add: nim_read_back [OF s l] nim_clear_def)

text \<open>The names that are read back lead to an id that has the name, and no name is missing.\<close>

lemma nim_names_read_back:
  assumes d: "distinct (map fst (id_to_name m))" and s: "nim_serialize m = Inr s" "length (id_to_name m) < 65536"
    and m': "nim_deSerialize (s @ r) = Inr (m', r)"
  shows "nim_getId name m' = Some cid \<Longrightarrow> nim_getName cid m = Some name"
    and "nim_getName cid m = Some name \<Longrightarrow> nim_getId name m' \<noteq> None"
proof -
  have m': "m' = fold nim_insert (id_to_name m) nim_clear"
    using nim_read_back [OF s, of r] m' by simp
  show "nim_getName cid m = Some name" if "nim_getId name m' = Some cid"
    using fold_insert_names(1) [of "id_to_name m" nim_clear name cid] that d
    by (simp add: nim_getId_def nim_getName_def m' nim_clear_def)
  show "nim_getId name m' \<noteq> None" if "nim_getName cid m = Some name"
  proof -
    have "name \<in> snd ` set (id_to_name m)"
      using map_of_SomeD that by (force simp: nim_getName_def)
    then show ?thesis
      unfolding m' nim_getId_def by (intro fold_insert_names(2)) blast
  qed
qed

text \<open>Of a mapping whose directions agree, both are read back.\<close>

lemma nim_wf_read_back:
  assumes wf: "nim_wf m" and s: "nim_serialize m = Inr s" "length (id_to_name m) < 65536"
    and m': "nim_deSerialize (s @ r) = Inr (m', r)"
  shows "nim_getId name m' = nim_getId name m"
proof -
  have "fold nim_insert (id_to_name m) nim_clear = \<lparr>id_to_name = id_to_name m, name_to_id = map prod.swap (id_to_name m)\<rparr>"
    using wf nim_wf_distinct_names [OF wf] by (subst fold_nim_insert) (simp_all add: nim_clear_def nim_wf_def)
  then have "name_to_id (fold nim_insert (id_to_name m) nim_clear) = map prod.swap (id_to_name m)"
    by simp
  moreover have "m' = fold nim_insert (id_to_name m) nim_clear"
    using m' nim_read_back [OF s, of r] by simp
  ultimately have "name_to_id m' = map prod.swap (id_to_name m)"
    by simp
  with nim_wf_name_to_id [OF wf] show ?thesis
    by (simp add: nim_getId_def)
qed

subsection \<open>The legacy content types\<close>

text \<open>\<^verbatim>\<open>CONTENT_AIR\<close> and \<^verbatim>\<open>CONTENT_IGNORE\<close> as the default build (\<^verbatim>\<open>MINETEST_PROTO\<close>) has them.\<close>

definition CONTENT_UNKNOWN :: u16 where "CONTENT_UNKNOWN = 125"
definition CONTENT_AIR :: u16 where "CONTENT_AIR = 126"
definition CONTENT_IGNORE :: u16 where "CONTENT_IGNORE = 127"

definition trans_table_19 :: "(u16 \<times> u16) list" where
  "trans_table_19 =
    [(0x800, 1), (0x801, 4), (0x802, 5), (0x803, 6), (0x804, 7), (0x805, 8), (0x806, 10),
     (0x807, 11), (0x808, 12), (0x809, 13), (0x80A, 18), (0x80B, 19), (0x80C, 20),
     (0x80D, 22), (0x80E, 23), (0x80F, 24), (0x810, 25), (0x811, 26), (0x812, 27),
     (0x813, 28), (0x814, 29)]"

definition legacy_names :: "(u16 \<times> string) list" where
  "legacy_names =
    [(0, ''default:stone''), (2, ''default:water_flowing''), (3, ''default:torch''),
     (9, ''default:water_source''), (14, ''default:sign_wall''), (15, ''default:chest''),
     (16, ''default:furnace''), (17, ''default:chest_locked''), (21, ''default:fence_wood''),
     (30, ''default:rail''), (31, ''default:ladder''), (32, ''default:lava_flowing''),
     (33, ''default:lava_source''), (0x800, ''default:dirt_with_grass''),
     (0x801, ''default:tree''), (0x802, ''default:leaves''),
     (0x803, ''default:dirt_with_grass_footsteps''), (0x804, ''default:mese''),
     (0x805, ''default:dirt''), (0x806, ''default:cloud''), (0x807, ''default:coalstone''),
     (0x808, ''default:wood''), (0x809, ''default:sand''), (0x80A, ''default:cobble''),
     (0x80B, ''default:steelblock''), (0x80C, ''default:glass''),
     (0x80D, ''default:mossycobble''), (0x80E, ''default:gravel''),
     (0x80F, ''default:sandstone''), (0x810, ''default:cactus''), (0x811, ''default:brick''),
     (0x812, ''default:clay''), (0x813, ''default:papyrus''), (0x814, ''default:bookshelf''),
     (0x815, ''default:jungletree''), (0x816, ''default:junglegrass''),
     (0x817, ''default:nyancat''), (0x818, ''default:nyancat_rainbow''),
     (0x819, ''default:apple''), (0x820, ''default:sapling''),
     (CONTENT_IGNORE, ''ignore''), (CONTENT_AIR, ''air'')]"

fun nim_set_all :: "(u16 \<times> string) list \<Rightarrow> nimap \<Rightarrow> nimap res" where
  "nim_set_all [] m = Inr m"
| "nim_set_all ((cid, name) # es) m = rbind (nim_set cid name m) (nim_set_all es)"

definition content_mapnode_get_name_id_mapping :: "nimap \<Rightarrow> nimap res" where
  "content_mapnode_get_name_id_mapping nimap = nim_set_all legacy_names nimap"

lemma nim_set_all_fold:
  "\<forall>e \<in> set es. snd e \<noteq> [] \<Longrightarrow> nim_set_all es m = Inr (fold nim_insert es m)"
  by (induction es m rule: nim_set_all.induct) (simp_all add: nim_set_def)

lemma legacy_names_wf:
  "distinct (map fst legacy_names)" "distinct (map snd legacy_names)" "\<forall>e \<in> set legacy_names. snd e \<noteq> []"
  by (simp_all add: legacy_names_def CONTENT_IGNORE_def CONTENT_AIR_def)

lemma legacy_mapping:
  "content_mapnode_get_name_id_mapping nim_clear =
    Inr \<lparr>id_to_name = legacy_names, name_to_id = map prod.swap legacy_names\<rparr>"
  using legacy_names_wf
  by (simp add: content_mapnode_get_name_id_mapping_def nim_set_all_fold fold_nim_insert nim_clear_def)

subsection \<open>Histories of a mapping\<close>

text \<open>
  The operations on a mapping, in any order. \<open>nim_apply\<close> runs one the way the code does; the
  only failure is the assertion of \<open>set\<close> that the name is not empty.
\<close>

datatype nim_op = Set u16 string | RemoveId u16 | EraseName string | ClearAll

fun nim_apply :: "nim_op \<Rightarrow> nimap \<Rightarrow> nimap res" where
  "nim_apply (Set cid name) m = nim_set cid name m"
| "nim_apply (RemoveId cid) m = Inr (nim_removeId cid m)"
| "nim_apply (EraseName name) m = Inr (nim_eraseName name m)"
| "nim_apply ClearAll m = Inr nim_clear"

fun nim_history :: "nim_op list \<Rightarrow> nimap \<Rightarrow> nimap res" where
  "nim_history [] m = Inr m"
| "nim_history (c # cs) m = rbind (nim_apply c m) (nim_history cs)"

text \<open>
  A \<open>set\<close> that takes an id or a name away from its partner: \<open>NameIdMapping::set\<close> accepts it and
  leaves the old entry of the other direction in place.
\<close>

fun rebinds :: "nim_op \<Rightarrow> nimap \<Rightarrow> bool" where
  "rebinds (Set cid name) m \<longleftrightarrow>
     nim_getName cid m \<notin> {None, Some name} \<or> nim_getId name m \<notin> {None, Some cid}"
| "rebinds _ m \<longleftrightarrow> False"

fun never_rebinds :: "nim_op list \<Rightarrow> nimap \<Rightarrow> bool" where
  "never_rebinds [] m \<longleftrightarrow> True"
| "never_rebinds (c # cs) m \<longleftrightarrow>
     \<not> rebinds c m \<and> (case nim_apply c m of Inl _ \<Rightarrow> True | Inr m' \<Rightarrow> never_rebinds cs m')"

lemma nim_wf_apply: "nim_wf m \<Longrightarrow> nim_apply c m = Inr m' \<Longrightarrow> \<not> rebinds c m \<Longrightarrow> nim_wf m'"
  by (cases c) (auto simp: nim_wf_removeId nim_wf_eraseName nim_wf_clear intro: nim_wf_set simp del: insert_iff)

lemma nim_wf_history: "nim_wf m \<Longrightarrow> nim_history cs m = Inr m' \<Longrightarrow> never_rebinds cs m \<Longrightarrow> nim_wf m'"
proof (induction cs arbitrary: m)
  case (Cons c cs)
  then obtain m1 where "nim_apply c m = Inr m1" "nim_history cs m1 = Inr m'"
    by (auto simp: rbind_eq_Inr)
  then show ?case
    using Cons.IH [of m1] Cons.prems nim_wf_apply [of m c m1] by simp
qed simp

lemma nim_distinct_apply:
  "distinct (map fst (id_to_name m)) \<Longrightarrow> nim_apply c m = Inr m' \<Longrightarrow> distinct (map fst (id_to_name m'))"
  by (cases c) (auto simp: nim_set_def nim_removeId_def nim_eraseName_def nim_clear_def distinct_update distinct_delete
      split: if_splits option.splits)

lemma nim_distinct_history:
  "distinct (map fst (id_to_name m)) \<Longrightarrow> nim_history cs m = Inr m' \<Longrightarrow> distinct (map fst (id_to_name m'))"
proof (induction cs arbitrary: m)
  case (Cons c cs)
  then show ?case by (auto simp: rbind_eq_Inr dest: nim_distinct_apply)
qed simp

lemma nim_set_binds:
  "nim_set cid name m = Inr m' \<Longrightarrow> nim_getName cid m' = Some name \<and> nim_getId name m' = Some cid"
  by (auto simp: nim_set_def nim_getName_def nim_getId_def map_of_update split: if_splits)

text \<open>Two ids under one name: the first one no longer has the way back.\<close>

lemma rebinding_parts_directions:
  "nim_history [Set 1 ''unknown'', Set 2 ''unknown''] nim_clear = Inr m \<Longrightarrow>
    nim_getName 1 m = Some ''unknown'' \<and> nim_getId ''unknown'' m = Some 2 \<and>
    nim_getId ''unknown'' (nim_removeId 1 m) = None \<and> nim_getName 2 (nim_removeId 1 m) = Some ''unknown''"
  by (auto simp: nim_set_def nim_clear_def nim_getName_def nim_getId_def nim_removeId_def)

subsection \<open>Properties\<close>



end
