(* ===== verification/TextIO.thy ===== *)
theory TextIO
  imports SerializedStrings
begin

section \<open>Text streams, numbers and the string scanner\<close>

text \<open>
  What the text formats of the program use of the C++ library (\<^verbatim>\<open>std::getline\<close>,
  extraction and insertion of numbers, \<^verbatim>\<open>atoi\<close>), the helpers of
  \<^verbatim>\<open>src/util/string.h\<close>, and the scanner \<^verbatim>\<open>Strfnd\<close> of \<^verbatim>\<open>src/util/strfnd.h\<close>.
  A text stream is the characters not read yet and whether its state is still good; a read
  that meets the end of the data makes it bad, and a read on a bad stream leaves its target
  unchanged.
\<close>

record istream =
  buf :: string
  good :: bool

definition open_stream :: "string \<Rightarrow> istream" where
  "open_stream s = \<lparr>buf = s, good = True\<rparr>"

definition getline :: "char \<Rightarrow> string \<Rightarrow> istream \<Rightarrow> string \<times> istream" where
  "getline d old is =
     (if \<not> good is then (old, is)
      else if d \<in> set (buf is)
      then (takeWhile (\<lambda>c. c \<noteq> d) (buf is), is\<lparr>buf := tl (dropWhile (\<lambda>c. c \<noteq> d) (buf is))\<rparr>)
      else (buf is, is\<lparr>buf := [], good := False\<rparr>))"

lemma getline_found [simp]:
  assumes "d \<notin> set l"
  shows "getline d old \<lparr>buf = l @ d # r, good = True\<rparr> = (l, \<lparr>buf = r, good = True\<rparr>)"
proof -
  have "takeWhile (\<lambda>c. c \<noteq> d) (l @ d # r) = l"
    by (rule takeWhile_stop) (use assms in auto)
  moreover have "dropWhile (\<lambda>c. c \<noteq> d) (l @ d # r) = d # r"
    by (rule dropWhile_stop) (use assms in auto)
  ultimately show ?thesis
    by (simp add: getline_def)
qed

lemma getline_last [simp]:
  "d \<notin> set l \<Longrightarrow> getline d old \<lparr>buf = l, good = True\<rparr> = (l, \<lparr>buf = [], good = False\<rparr>)"
  by (simp add: getline_def)

lemma getline_bad [simp]: "getline d old \<lparr>buf = l, good = False\<rparr> = (old, \<lparr>buf = l, good = False\<rparr>)"
  by (simp add: getline_def)

lemma getline_shrinks: "good is \<Longrightarrow> good (snd (getline d old is)) \<Longrightarrow>
  length (buf (snd (getline d old is))) < length (buf is)"
proof -
  assume "good is" and g: "good (snd (getline d old is))"
  then have d: "d \<in> set (buf is)"
    by (auto simp: getline_def split: if_splits)
  then have "dropWhile (\<lambda>c. c \<noteq> d) (buf is) \<noteq> []"
    by simp
  moreover have "length (dropWhile (\<lambda>c. c \<noteq> d) (buf is)) \<le> length (buf is)"
    by (rule length_dropWhile_le)
  ultimately show ?thesis
    using \<open>good is\<close> d by (cases "dropWhile (\<lambda>c. c \<noteq> d) (buf is)") (auto simp: getline_def)
qed

subsection \<open>Numbers\<close>

definition is_space :: "char \<Rightarrow> bool" where
  "is_space c \<longleftrightarrow> c \<in> {CHR '' '', CHR 0x09, CHR 0x0A, CHR 0x0B, CHR 0x0C, CHR 0x0D}"

definition is_digit :: "char \<Rightarrow> bool" where
  "is_digit c \<longleftrightarrow> (48 :: nat) \<le> of_char c \<and> of_char c \<le> (57 :: nat)"

definition digit_val :: "char \<Rightarrow> nat" where
  "digit_val c = of_char c - 48"

definition digit_char :: "nat \<Rightarrow> char" where
  "digit_char n = char_of (48 + n)"

text \<open>The value of the leading digits, and what follows them.\<close>

fun dec_digits :: "nat \<Rightarrow> string \<Rightarrow> nat \<times> string" where
  "dec_digits acc [] = (acc, [])"
| "dec_digits acc (c # s) = (if is_digit c then dec_digits (acc * 10 + digit_val c) s else (acc, c # s))"

fun nat_str :: "nat \<Rightarrow> string" where
  "nat_str n = (if n < 10 then [digit_char n] else nat_str (n div 10) @ [digit_char (n mod 10)])"

declare nat_str.simps [simp del]

definition int_str :: "int \<Rightarrow> string" where
  "int_str i = (if i < 0 then CHR ''-'' # nat_str (nat (- i)) else nat_str (nat i))"

text \<open>
  \<^verbatim>\<open>mystoi\<close> is \<^verbatim>\<open>atoi\<close>: leading white space, an optional sign, digits; the C library
  reads a \<^verbatim>\<open>long\<close>, saturating at 64 bits, and narrows it to 32.
\<close>

definition stoi :: "string \<Rightarrow> int" where
  "stoi str =
     (let s = dropWhile is_space str;
          v = (case s of
                 [] \<Rightarrow> 0
               | c # t \<Rightarrow>
                   if c = CHR ''-'' then max (- (2 ^ 63)) (- int (fst (dec_digits 0 t)))
                   else if c = CHR ''+'' then min (2 ^ 63 - 1) (int (fst (dec_digits 0 t)))
                   else min (2 ^ 63 - 1) (int (fst (dec_digits 0 s))))
      in to_s32 v)"

text \<open>
  Extraction of an unsigned number of at most \<open>m\<close>: the value stored, if one is, and whether
  the stream fails. White space up to the end of the data stores nothing; no digit stores 0
  and fails; an overflow stores \<open>m\<close> and fails; a minus sign wraps around.
\<close>

definition extract_unsigned :: "nat \<Rightarrow> istream \<Rightarrow> nat option \<times> bool \<times> istream" where
  "extract_unsigned m is =
     (if \<not> good is then (None, True, is)
      else
        let s = dropWhile is_space (buf is);
            neg = (s \<noteq> [] \<and> hd s = CHR ''-'');
            t = (if s \<noteq> [] \<and> (hd s = CHR ''-'' \<or> hd s = CHR ''+'') then tl s else s);
            (v, r) = dec_digits 0 t;
            is' = is\<lparr>buf := r, good := (r \<noteq> [])\<rparr>
        in if s = [] then (None, True, is\<lparr>buf := [], good := False\<rparr>)
           else if t = [] \<or> \<not> is_digit (hd t) then (Some 0, True, is'\<lparr>good := False\<rparr>)
           else if v > m then (Some m, True, is'\<lparr>good := False\<rparr>)
           else (Some (if neg then (m + 1 - v) mod (m + 1) else v), False, is'))"

lemma digit_char [simp]: "n < 10 \<Longrightarrow> is_digit (digit_char n)" "n < 10 \<Longrightarrow> digit_val (digit_char n) = n"
  by (simp_all add: is_digit_def digit_char_def digit_val_def)

lemma digit_not_space: "is_digit c \<Longrightarrow> \<not> is_space c"
  by (auto simp: is_digit_def is_space_def)

lemma digit_not_sign: "is_digit c \<Longrightarrow> c \<noteq> CHR ''-'' \<and> c \<noteq> CHR ''+''"
  by (auto simp: is_digit_def)

lemma nat_str_digits: "c \<in> set (nat_str n) \<Longrightarrow> is_digit c"
proof (induction n rule: nat_str.induct)
  case (1 n)
  then show ?case
    by (cases "n < 10") (auto simp: nat_str.simps [of n])
qed

lemma nat_str_ne [simp]: "nat_str n \<noteq> []"
  by (subst nat_str.simps) simp

lemma nat_str_sep: "\<not> is_digit d \<Longrightarrow> d \<notin> set (nat_str n)"
  using nat_str_digits by blast

lemma space_nat_str [simp]: "CHR '' '' \<notin> set (nat_str n)"
  by (rule nat_str_sep) (simp add: is_digit_def)

lemma dec_digits_append:
  "\<forall>c \<in> set s. is_digit c \<Longrightarrow> dec_digits a (s @ t) = dec_digits (fst (dec_digits a s)) t"
  by (induction s arbitrary: a) simp_all

lemma dec_digits_nat_str: "fst (dec_digits a (nat_str n)) = a * 10 ^ length (nat_str n) + n"
proof (induction n arbitrary: a rule: nat_str.induct)
  case (1 n)
  show ?case
  proof (cases "n < 10")
    case True
    then show ?thesis by (simp add: nat_str.simps [of n])
  next
    case False
    have digits: "\<forall>c \<in> set (nat_str (n div 10)). is_digit c"
      using nat_str_digits by blast
    have "fst (dec_digits a (nat_str n)) = (a * 10 ^ length (nat_str (n div 10)) + n div 10) * 10 + n mod 10"
      using False 1 by (simp add: nat_str.simps [of n] dec_digits_append [OF digits])
    also have "\<dots> = a * 10 ^ length (nat_str n) + n"
      using False div_mult_mod_eq [of n 10]
      by (simp add: nat_str.simps [of n] algebra_simps)
    finally show ?thesis .
  qed
qed

lemma dec_digits_nat_str_stop:
  assumes "r = [] \<or> \<not> is_digit (hd r)"
  shows "dec_digits 0 (nat_str n @ r) = (n, r)"
proof -
  have "dec_digits 0 (nat_str n @ r) = dec_digits n r"
    using dec_digits_nat_str [of 0 n] nat_str_digits
    by (subst dec_digits_append) auto
  also have "\<dots> = (n, r)"
    using assms by (cases r) auto
  finally show ?thesis .
qed

lemma hd_nat_str: "is_digit (hd (nat_str n))"
  by (rule nat_str_digits) (rule hd_in_set, simp)

lemma nat_str_Cons: obtains c t where "nat_str n = c # t" and "is_digit c"
  using hd_nat_str [of n] by (cases "nat_str n") auto

lemma stoi_nat_str: "n \<le> 2147483647 \<Longrightarrow> stoi (nat_str n) = int n"
proof -
  assume n: "n \<le> 2147483647"
  obtain c t where c: "nat_str n = c # t" "is_digit c"
    by (rule nat_str_Cons)
  have "fst (dec_digits 0 (nat_str n)) = n"
    using dec_digits_nat_str [of 0 n] by simp
  with c n show ?thesis
    by (simp add: stoi_def digit_not_space digit_not_sign to_s32_id del: dec_digits.simps)
qed

lemma stoi_int_str: "- 2147483648 \<le> i \<Longrightarrow> i \<le> 2147483647 \<Longrightarrow> stoi (int_str i) = i"
proof (cases "i < 0")
  case True
  assume "- 2147483648 \<le> i" "i \<le> 2147483647"
  moreover have "\<not> is_space CHR ''-''"
    by (simp add: is_space_def)
  moreover have "fst (dec_digits 0 (nat_str (nat (- i)))) = nat (- i)"
    using dec_digits_nat_str [of 0 "nat (- i)"] by simp
  ultimately show ?thesis
    using True by (simp add: int_str_def stoi_def to_s32_id)
next
  case False
  assume "i \<le> 2147483647"
  with False show ?thesis
    by (simp add: int_str_def stoi_nat_str)
qed

lemma extract_nat_str:
  assumes "n \<le> m" and "r = [] \<or> \<not> is_digit (hd r)"
  shows "extract_unsigned m \<lparr>buf = nat_str n @ r, good = True\<rparr> =
    (Some n, False, \<lparr>buf = r, good = (r \<noteq> [])\<rparr>)"
proof -
  obtain c t where c: "nat_str n = c # t" "is_digit c"
    by (rule nat_str_Cons)
  have "dec_digits 0 (c # t @ r) = (n, r)"
    using dec_digits_nat_str_stop [OF assms(2), of n] c by simp
  with c assms(1) show ?thesis
    by (simp add: extract_unsigned_def digit_not_space digit_not_sign Let_def del: dec_digits.simps)
qed

subsection \<open>Trimming and scanning\<close>

definition trim :: "string \<Rightarrow> string" where
  "trim str = rev (dropWhile is_space (rev (dropWhile is_space str)))"

text \<open>The scanner keeps the string and a position, which may pass the end.\<close>

record strfnd =
  sf_str :: string
  sf_pos :: nat

fun find_sub :: "string \<Rightarrow> string \<Rightarrow> nat option" where
  "find_sub sep [] = (if sep = [] then Some 0 else None)"
| "find_sub sep (c # s) =
     (if take (length sep) (c # s) = sep then Some 0 else map_option Suc (find_sub sep s))"

definition strfnd_start :: "string \<Rightarrow> strfnd" where
  "strfnd_start s = \<lparr>sf_str = s, sf_pos = 0\<rparr>"

definition strfnd_to :: "nat \<Rightarrow> strfnd \<Rightarrow> strfnd" where
  "strfnd_to i f = f\<lparr>sf_pos := i\<rparr>"

definition strfnd_at_end :: "strfnd \<Rightarrow> bool" where
  "strfnd_at_end f \<longleftrightarrow> sf_pos f \<ge> length (sf_str f)"

definition strfnd_next :: "string \<Rightarrow> strfnd \<Rightarrow> string \<times> strfnd" where
  "strfnd_next sep f =
     (if sf_pos f \<ge> length (sf_str f) then ([], f)
      else
        let rest = drop (sf_pos f) (sf_str f);
            n = (if sep = [] then length rest
                 else case find_sub sep rest of None \<Rightarrow> length rest | Some k \<Rightarrow> k)
        in (take n rest, f\<lparr>sf_pos := sf_pos f + n + length sep\<rparr>))"

definition strfnd_skip_over :: "string \<Rightarrow> strfnd \<Rightarrow> strfnd" where
  "strfnd_skip_over chars f =
     (let rest = drop (sf_pos f) (sf_str f);
          r = dropWhile (\<lambda>c. c \<in> set chars) rest
      in if r = [] then f else f\<lparr>sf_pos := sf_pos f + (length rest - length r)\<rparr>)"

definition strfnd_rest :: "strfnd \<Rightarrow> string" where
  "strfnd_rest f = drop (sf_pos f) (sf_str f)"

lemma find_sub_char: "c \<notin> set l \<Longrightarrow> find_sub [c] (l @ c # r) = Some (length l)"
  by (induction l) auto

lemma strfnd_next_char:
  assumes "strfnd_rest f = l @ c # r" and "c \<notin> set l"
  shows "fst (strfnd_next [c] f) = l" and "strfnd_rest (snd (strfnd_next [c] f)) = r"
    and "sf_str (snd (strfnd_next [c] f)) = sf_str f"
    and "sf_pos f < sf_pos (snd (strfnd_next [c] f))"
proof -
  have lt: "\<not> length (sf_str f) \<le> sf_pos f"
    using assms(1) by (auto simp: strfnd_rest_def)
  have rest: "drop (sf_pos f) (sf_str f) = l @ c # r"
    using assms(1) by (simp add: strfnd_rest_def)
  have next_eq: "strfnd_next [c] f = (l, f\<lparr>sf_pos := sf_pos f + length l + 1\<rparr>)"
    using lt by (simp add: strfnd_next_def rest find_sub_char assms(2) Let_def)
  then show "fst (strfnd_next [c] f) = l" "sf_str (snd (strfnd_next [c] f)) = sf_str f"
    "sf_pos f < sf_pos (snd (strfnd_next [c] f))"
    by simp_all
  have "drop (sf_pos f + length l + 1) (sf_str f) = drop (length l + 1) (l @ c # r)"
    by (simp add: rest [symmetric] add.commute)
  also have "\<dots> = r" by simp
  finally show "strfnd_rest (snd (strfnd_next [c] f)) = r"
    by (simp add: next_eq strfnd_rest_def)
qed

lemma strfnd_rest_start [simp]: "strfnd_rest (strfnd_start s) = s"
  by (simp add: strfnd_rest_def strfnd_start_def)

lemma find_sub_none: "c \<notin> set l \<Longrightarrow> find_sub [c] l = None"
  by (induction l) auto

lemma strfnd_next_last: "c \<notin> set (strfnd_rest f) \<Longrightarrow> fst (strfnd_next [c] f) = strfnd_rest f"
  by (auto simp: strfnd_next_def strfnd_rest_def find_sub_none Let_def)

lemma strfnd_at_end_rest: "strfnd_at_end f \<longleftrightarrow> strfnd_rest f = []"
  by (simp add: strfnd_at_end_def strfnd_rest_def)

subsection \<open>Strings quoted when needed\<close>

definition needs_json :: "char \<Rightarrow> bool" where
  "needs_json c \<longleftrightarrow>
     (of_char c :: nat) \<le> 0x1F \<or> (of_char c :: nat) \<ge> 0x7F \<or> c = CHR '' '' \<or> c = dquote"

definition serializeJsonStringIfNeeded :: "string \<Rightarrow> string" where
  "serializeJsonStringIfNeeded s = (if \<exists>c \<in> set s. needs_json c then serializeJsonString s else s)"

definition deSerializeJsonStringIfNeeded :: "istream \<Rightarrow> (string \<times> istream) res" where
  "deSerializeJsonStringIfNeeded is =
     (if \<not> good is \<or> buf is = [] then Inr ([], is\<lparr>good := False\<rparr>)
      else if hd (buf is) = dquote
      then rbind (deSerializeJsonString (buf is)) (\<lambda>(s, r). Inr (s, is\<lparr>buf := r\<rparr>))
      else
        let (tmp, is') = getline (CHR '' '') [] is
        in Inr (tmp, if good is' then is'\<lparr>buf := CHR '' '' # buf is'\<rparr> else is'))"

text \<open>
  The text must be followed by a space, as the item format does, or end the stream.
\<close>

lemma deSerializeJsonStringIfNeeded_append:
  "deSerializeJsonStringIfNeeded \<lparr>buf = serializeJsonStringIfNeeded s @ CHR '' '' # r, good = True\<rparr> =
    Inr (s, \<lparr>buf = CHR '' '' # r, good = True\<rparr>)"
proof (cases "\<exists>c \<in> set s. needs_json c")
  case True
  have quoted: "hd (serializeJsonString s @ x) = dquote" for x
    by (simp add: serializeJsonString_def)
  from True show ?thesis
    by (simp add: serializeJsonStringIfNeeded_def deSerializeJsonStringIfNeeded_def quoted
        deSerializeJsonString_append)
next
  case False
  then have sp: "CHR '' '' \<notin> set s" and dq: "dquote \<notin> set s"
    by (auto simp: needs_json_def)
  have "hd (s @ CHR '' '' # r) \<noteq> dquote"
    using dq by (cases s) auto
  with False sp show ?thesis
    by (simp add: serializeJsonStringIfNeeded_def deSerializeJsonStringIfNeeded_def)
qed

lemma deSerializeJsonStringIfNeeded_end:
  assumes "s \<noteq> []"
  shows "deSerializeJsonStringIfNeeded \<lparr>buf = serializeJsonStringIfNeeded s, good = True\<rparr> =
    Inr (s, \<lparr>buf = [], good = (\<exists>c \<in> set s. needs_json c)\<rparr>)"
proof (cases "\<exists>c \<in> set s. needs_json c")
  case True
  have quoted: "hd (serializeJsonString s) = dquote" "serializeJsonString s \<noteq> []"
    by (simp_all add: serializeJsonString_def)
  from True show ?thesis
    by (simp add: serializeJsonStringIfNeeded_def deSerializeJsonStringIfNeeded_def quoted
        deSerializeJsonString_append [where r = "[]", simplified])
next
  case False
  then have sp: "CHR '' '' \<notin> set s" and dq: "dquote \<notin> set s"
    by (auto simp: needs_json_def)
  then have "hd s \<noteq> dquote"
    using assms by (cases s) auto
  with False sp assms show ?thesis
    by (simp add: serializeJsonStringIfNeeded_def deSerializeJsonStringIfNeeded_def)
qed

end
