(* ===== verification/Metadata.thy ===== *)
theory Metadata
  imports TextIO "HOL-Library.AList"
begin

section \<open>Key-value metadata of nodes and item stacks\<close>

text \<open>
  \<^verbatim>\<open>src/metadata.h\<close>, \<^verbatim>\<open>src/metadata.cpp\<close> and \<^verbatim>\<open>src/itemstackmetadata.cpp\<close>.
  A \<^verbatim>\<open>StringMap\<close> is an association list with distinct keys, in the order in which the
  hash map would be iterated. The tool capabilities and wear bar caches hold the JSON text
  that was last given to the parser, the bundled jsoncpp, instead of what it parsed; reading a
  cache parses that text. Text that is no JSON at all makes jsoncpp throw, which is left out.
\<close>

type_synonym stringmap = "(string \<times> string) list"

record metadata =
  stringvars :: stringmap
  modified :: bool
  toolcaps_override :: "string option"
  wear_bar_override :: "string option"

definition new_metadata :: metadata where
  "new_metadata = \<lparr>stringvars = [], modified = False, toolcaps_override = None, wear_bar_override = None\<rparr>"

definition TOOLCAP_KEY :: string where "TOOLCAP_KEY = ''tool_capabilities''"
definition WEAR_BAR_KEY :: string where "WEAR_BAR_KEY = ''wear_color''"

subsection \<open>SimpleMetadata and IMetadata\<close>

definition SimpleMetadata_clear :: "metadata \<Rightarrow> metadata" where
  "SimpleMetadata_clear m = m\<lparr>stringvars := [], modified := True\<rparr>"

definition SimpleMetadata_empty :: "metadata \<Rightarrow> bool" where
  "SimpleMetadata_empty m \<longleftrightarrow> stringvars m = []"

definition SimpleMetadata_size :: "metadata \<Rightarrow> nat" where
  "SimpleMetadata_size m = length (stringvars m)"

definition SimpleMetadata_contains :: "string \<Rightarrow> metadata \<Rightarrow> bool" where
  "SimpleMetadata_contains name m \<longleftrightarrow> map_of (stringvars m) name \<noteq> None"

definition SimpleMetadata_getKeys :: "metadata \<Rightarrow> string list" where
  "SimpleMetadata_getKeys m = map fst (stringvars m)"

definition getStringRaw :: "string \<Rightarrow> metadata \<Rightarrow> string option" where
  "getStringRaw name m = map_of (stringvars m) name"

definition SimpleMetadata_setString :: "string \<Rightarrow> string \<Rightarrow> metadata \<Rightarrow> bool \<times> metadata" where
  "SimpleMetadata_setString name var m =
     (if var = [] then
        (if map_of (stringvars m) name = None then (False, m)
         else (True, m\<lparr>stringvars := AList.delete name (stringvars m), modified := True\<rparr>))
      else if map_of (stringvars m) name = Some var then (False, m)
      else (True, m\<lparr>stringvars := AList.update name var (stringvars m), modified := True\<rparr>))"

text \<open>\<^verbatim>\<open>IMetadata::operator==\<close>: equal sizes, and every pair of the one found in the other.\<close>

definition metadata_eq :: "metadata \<Rightarrow> metadata \<Rightarrow> bool" where
  "metadata_eq m other \<longleftrightarrow>
     length (stringvars m) = length (stringvars other) \<and>
     list_all (\<lambda>(k, v). map_of (stringvars other) k = Some v) (stringvars m)"

text \<open>
  A value of the form \<open>${name}\<close> stands for another entry, resolved at most twice.
\<close>

definition recursive_value :: "string \<Rightarrow> bool" where
  "recursive_value str \<longleftrightarrow> take 2 str = ''${'' \<and> last str = CHR ''}''"

function getString :: "string \<Rightarrow> nat \<Rightarrow> metadata \<Rightarrow> string"
  and resolveString :: "string \<Rightarrow> nat \<Rightarrow> metadata \<Rightarrow> string" where
  "getString name recursion m =
     (case getStringRaw name m of
        None \<Rightarrow> []
      | Some raw \<Rightarrow> resolveString raw recursion m)"
| "resolveString str recursion m =
     (if recursion \<le> 1 \<and> recursive_value str
      then getString (take (length str - 3) (drop 2 str)) (recursion + 1) m
      else str)"
  by pat_completeness auto
termination
  by (relation "measure (\<lambda>x. case x of Inl (_, r, _) \<Rightarrow> 2 * (2 - r) + 1 | Inr (_, r, _) \<Rightarrow> 2 * (2 - r))")
    auto

declare getString.simps [simp del] resolveString.simps [simp del]

subsection \<open>ItemStackMetadata\<close>

abbreviation DESERIALIZE_START :: char where "DESERIALIZE_START \<equiv> CHR 0x01"
abbreviation DESERIALIZE_KV_DELIM :: char where "DESERIALIZE_KV_DELIM \<equiv> CHR 0x02"
abbreviation DESERIALIZE_PAIR_DELIM :: char where "DESERIALIZE_PAIR_DELIM \<equiv> CHR 0x03"

definition sanitize_string :: "string \<Rightarrow> string" where
  "sanitize_string str =
     filter (\<lambda>c. c \<noteq> DESERIALIZE_PAIR_DELIM)
       (filter (\<lambda>c. c \<noteq> DESERIALIZE_KV_DELIM) (filter (\<lambda>c. c \<noteq> DESERIALIZE_START) str))"

definition updateToolCapabilities :: "metadata \<Rightarrow> metadata" where
  "updateToolCapabilities m =
     (if SimpleMetadata_contains TOOLCAP_KEY m
      then m\<lparr>toolcaps_override := Some (getString TOOLCAP_KEY 0 m)\<rparr>
      else m\<lparr>toolcaps_override := None\<rparr>)"

definition updateWearBarParams :: "metadata \<Rightarrow> metadata" where
  "updateWearBarParams m =
     (if SimpleMetadata_contains WEAR_BAR_KEY m
      then m\<lparr>wear_bar_override := Some (getString WEAR_BAR_KEY 0 m)\<rparr>
      else m\<lparr>wear_bar_override := None\<rparr>)"

definition ItemStackMetadata_clear :: "metadata \<Rightarrow> metadata" where
  "ItemStackMetadata_clear m = updateWearBarParams (updateToolCapabilities (SimpleMetadata_clear m))"

definition ItemStackMetadata_setString :: "string \<Rightarrow> string \<Rightarrow> metadata \<Rightarrow> bool \<times> metadata" where
  "ItemStackMetadata_setString name var m =
     (let clean_name = sanitize_string name;
          clean_var = sanitize_string var;
          (result, m') = SimpleMetadata_setString clean_name clean_var m
      in (result,
          if clean_name = TOOLCAP_KEY then updateToolCapabilities m'
          else if clean_name = WEAR_BAR_KEY then updateWearBarParams m'
          else m'))"

definition clearToolCapabilities :: "metadata \<Rightarrow> metadata" where
  "clearToolCapabilities m = snd (ItemStackMetadata_setString TOOLCAP_KEY [] m)"

definition clearWearBarParams :: "metadata \<Rightarrow> metadata" where
  "clearWearBarParams m = snd (ItemStackMetadata_setString WEAR_BAR_KEY [] m)"

fun metadata_pairs :: "stringmap \<Rightarrow> string" where
  "metadata_pairs [] = []"
| "metadata_pairs ((k, v) # kvs) =
     (if k \<noteq> [] \<or> v \<noteq> []
      then k @ [DESERIALIZE_KV_DELIM] @ v @ [DESERIALIZE_PAIR_DELIM] @ metadata_pairs kvs
      else metadata_pairs kvs)"

definition ItemStackMetadata_serialize :: "metadata \<Rightarrow> string" where
  "ItemStackMetadata_serialize m =
     serializeJsonStringIfNeeded (DESERIALIZE_START # metadata_pairs (stringvars m))"

function parse_pairs :: "strfnd \<Rightarrow> stringmap \<Rightarrow> stringmap" where
  "parse_pairs fnd kvs =
     (if strfnd_at_end fnd then kvs
      else
        let (name, fnd1) = strfnd_next [DESERIALIZE_KV_DELIM] fnd;
            (var, fnd2) = strfnd_next [DESERIALIZE_PAIR_DELIM] fnd1
        in parse_pairs fnd2 (AList.update name var kvs))"
  by pat_completeness auto
termination
proof (relation "measure (\<lambda>(f, _). length (sf_str f) - sf_pos f)", goal_cases)
  case 1
  show ?case by simp
next
  case (2 fnd kvs x name fnd1 y var fnd2)
  have grow: "\<And>s f. sf_pos f \<le> sf_pos (snd (strfnd_next s f)) \<and> sf_str (snd (strfnd_next s f)) = sf_str f"
    by (simp add: strfnd_next_def Let_def)
  have "sf_pos fnd < length (sf_str fnd)"
    using 2(1) by (simp add: strfnd_at_end_def)
  moreover have "sf_pos fnd < sf_pos fnd1" "sf_str fnd1 = sf_str fnd"
    using 2(1) 2(2,3) [symmetric] by (auto simp: strfnd_at_end_def strfnd_next_def Let_def)
  moreover have "sf_pos fnd1 \<le> sf_pos fnd2" "sf_str fnd2 = sf_str fnd1"
    using grow [of fnd1 "[DESERIALIZE_PAIR_DELIM]"] 2(4,5) [symmetric] by simp_all
  ultimately show ?case
    by simp
qed

declare parse_pairs.simps [simp del]

definition ItemStackMetadata_deSerialize :: "istream \<Rightarrow> metadata \<Rightarrow> (metadata \<times> istream) res" where
  "ItemStackMetadata_deSerialize is m =
     rbind (deSerializeJsonStringIfNeeded is) (\<lambda>(in', is').
       let vars =
         (if in' \<noteq> [] then
            (if hd in' = DESERIALIZE_START
             then parse_pairs (strfnd_to 1 (strfnd_start in')) []
             else [([], in')])
          else [])
       in Inr (updateWearBarParams (updateToolCapabilities (m\<lparr>stringvars := vars\<rparr>)), is'))"

subsection \<open>Equality and updates\<close>

definition metadata_wf :: "metadata \<Rightarrow> bool" where
  "metadata_wf m \<longleftrightarrow> distinct (map fst (stringvars m))"

lemma map_of_AList_update: "map_of (AList.update k v al) = (map_of al)(k \<mapsto> v)"
  by (rule ext) (simp add: update_conv')

lemma map_of_AList_delete: "map_of (AList.delete k al) = (map_of al)(k := None)"
  by (rule ext) (simp add: delete_conv')

lemma map_le_card_eq:
  assumes "distinct (map fst xs)" and "distinct (map fst ys)" and "length xs = length ys"
    and "map_of xs \<subseteq>\<^sub>m map_of ys"
  shows "map_of xs = map_of ys"
proof -
  have "set xs \<subseteq> set ys"
    using assms(1,2,4) by (auto simp: map_le_def) (metis domI map_of_eq_Some_iff map_of_is_SomeI)
  moreover have "card (set xs) = card (set ys)"
    using assms(1-3) by (simp add: distinct_map distinct_card)
  ultimately have "set xs = set ys"
    by (simp add: card_subset_eq)
  then show ?thesis
    using assms(1,2) by (simp add: map_of_inject_set)
qed

lemma metadata_eq_iff_map:
  assumes "metadata_wf m" and "metadata_wf n"
  shows "metadata_eq m n \<longleftrightarrow> map_of (stringvars m) = map_of (stringvars n)"
proof
  assume eq: "metadata_eq m n"
  have "map_of (stringvars m) \<subseteq>\<^sub>m map_of (stringvars n)"
    using eq by (fastforce simp: metadata_eq_def list_all_iff map_le_def dest: map_of_SomeD)
  then show "map_of (stringvars m) = map_of (stringvars n)"
    using assms eq by (intro map_le_card_eq) (auto simp: metadata_wf_def metadata_eq_def)
next
  assume eq: "map_of (stringvars m) = map_of (stringvars n)"
  then have "set (stringvars m) = set (stringvars n)"
    using assms by (simp add: metadata_wf_def map_of_inject_set)
  then have "length (stringvars m) = length (stringvars n)"
    using assms by (metis distinct_card distinct_map metadata_wf_def)
  moreover have "map_of (stringvars n) k = Some v" if "(k, v) \<in> set (stringvars m)" for k v
    using that assms(1) eq by (metis map_of_is_SomeI metadata_wf_def)
  ultimately show "metadata_eq m n"
    by (auto simp: metadata_eq_def list_all_iff)
qed

lemma metadata_eq_refl [simp]: "metadata_wf m \<Longrightarrow> metadata_eq m m"
  by (simp add: metadata_eq_iff_map)

lemma metadata_wf_new [simp]: "metadata_wf new_metadata"
  by (simp add: metadata_wf_def new_metadata_def)

lemma update_caches_stringvars [simp]:
  "stringvars (updateToolCapabilities m) = stringvars m"
  "stringvars (updateWearBarParams m) = stringvars m"
  "toolcaps_override (updateWearBarParams m) = toolcaps_override m"
  "wear_bar_override (updateToolCapabilities m) = wear_bar_override m"
  by (simp_all add: updateToolCapabilities_def updateWearBarParams_def)

lemma ItemStackMetadata_clear_stringvars [simp]: "stringvars (ItemStackMetadata_clear m) = []"
  by (simp add: ItemStackMetadata_clear_def SimpleMetadata_clear_def)

lemma setString_map:
  "map_of (stringvars (snd (SimpleMetadata_setString name var m))) =
    (map_of (stringvars m))(name := if var = [] then None else Some var)"
  by (auto simp: SimpleMetadata_setString_def map_of_AList_update map_of_AList_delete)

lemma setString_changed:
  "fst (SimpleMetadata_setString name var m) \<longleftrightarrow>
    map_of (stringvars m) name \<noteq> (if var = [] then None else Some var)"
  by (auto simp: SimpleMetadata_setString_def)

lemma setString_wf: "metadata_wf m \<Longrightarrow> metadata_wf (snd (SimpleMetadata_setString name var m))"
  by (simp add: SimpleMetadata_setString_def metadata_wf_def distinct_update distinct_delete)

lemma stringvars_ItemStack_setString:
  "stringvars (snd (ItemStackMetadata_setString name var m)) =
    stringvars (snd (SimpleMetadata_setString (sanitize_string name) (sanitize_string var) m))"
  by (simp add: ItemStackMetadata_setString_def Let_def case_prod_unfold)

subsection \<open>What the setters keep true\<close>

text \<open>
  Every reachable item metadata has distinct keys, no separator characters, no empty value,
  and a cached override exactly when its key is present.
\<close>

definition clean :: "string \<Rightarrow> bool" where
  "clean s \<longleftrightarrow> DESERIALIZE_START \<notin> set s \<and> DESERIALIZE_KV_DELIM \<notin> set s \<and> DESERIALIZE_PAIR_DELIM \<notin> set s"

definition item_metadata_inv :: "metadata \<Rightarrow> bool" where
  "item_metadata_inv m \<longleftrightarrow>
     metadata_wf m \<and>
     (\<forall>(k, v) \<in> set (stringvars m). clean k \<and> clean v \<and> v \<noteq> []) \<and>
     (toolcaps_override m = None \<longleftrightarrow> \<not> SimpleMetadata_contains TOOLCAP_KEY m) \<and>
     (wear_bar_override m = None \<longleftrightarrow> \<not> SimpleMetadata_contains WEAR_BAR_KEY m)"

lemma clean_sanitize [simp]: "clean (sanitize_string s)"
  by (simp add: clean_def sanitize_string_def)

lemma sanitize_clean [simp]: "clean s \<Longrightarrow> sanitize_string s = s"
  by (auto simp: clean_def sanitize_string_def filter_id_conv)

lemma set_AList_delete_subset: "set (AList.delete k al) \<subseteq> set al"
  by (auto simp: AList.delete_eq)

lemma set_AList_update_subset: "set (AList.update k v al) \<subseteq> insert (k, v) (set al)"
  by (induction al) auto

lemma setString_pairs:
  "set (stringvars (snd (SimpleMetadata_setString k v m))) \<subseteq>
    (if v = [] then set (stringvars m) else insert (k, v) (set (stringvars m)))"
  by (auto simp: SimpleMetadata_setString_def
      dest: subsetD [OF set_AList_delete_subset] subsetD [OF set_AList_update_subset])

lemma toolcap_wear_keys [simp]: "TOOLCAP_KEY \<noteq> WEAR_BAR_KEY" "WEAR_BAR_KEY \<noteq> TOOLCAP_KEY"
  by (simp_all add: TOOLCAP_KEY_def WEAR_BAR_KEY_def)

lemma contains_update_caches [simp]:
  "SimpleMetadata_contains k (updateToolCapabilities m) = SimpleMetadata_contains k m"
  "SimpleMetadata_contains k (updateWearBarParams m) = SimpleMetadata_contains k m"
  by (simp_all add: SimpleMetadata_contains_def)

lemma contains_setString:
  "SimpleMetadata_contains k (snd (SimpleMetadata_setString name var m)) =
    (if k = name then var \<noteq> [] else SimpleMetadata_contains k m)"
  by (simp add: SimpleMetadata_contains_def setString_map)

lemma setString_caches [simp]:
  "toolcaps_override (snd (SimpleMetadata_setString k v m)) = toolcaps_override m"
  "wear_bar_override (snd (SimpleMetadata_setString k v m)) = wear_bar_override m"
  by (simp_all add: SimpleMetadata_setString_def)

lemma toolcaps_update: "toolcaps_override (updateToolCapabilities m) = None \<longleftrightarrow> \<not> SimpleMetadata_contains TOOLCAP_KEY m"
  by (simp add: updateToolCapabilities_def)

lemma wear_bar_update: "wear_bar_override (updateWearBarParams m) = None \<longleftrightarrow> \<not> SimpleMetadata_contains WEAR_BAR_KEY m"
  by (simp add: updateWearBarParams_def)

lemma item_metadata_setString:
  assumes "item_metadata_inv m"
  shows "item_metadata_inv (snd (ItemStackMetadata_setString name var m))"
proof -
  let ?k = "sanitize_string name" and ?v = "sanitize_string var"
  let ?s = "snd (SimpleMetadata_setString ?k ?v m)"
  have eq: "snd (ItemStackMetadata_setString name var m) =
      (if ?k = TOOLCAP_KEY then updateToolCapabilities ?s
       else if ?k = WEAR_BAR_KEY then updateWearBarParams ?s else ?s)"
    by (simp add: ItemStackMetadata_setString_def Let_def case_prod_unfold)
  have wf: "metadata_wf ?s"
    using assms by (simp add: item_metadata_inv_def setString_wf)
  have pairs: "\<forall>(k, v) \<in> set (stringvars ?s). clean k \<and> clean v \<and> v \<noteq> []"
    using assms setString_pairs [of ?k ?v m]
    by (auto simp: item_metadata_inv_def split: if_splits dest!: subsetD)
  show ?thesis
    using assms wf pairs
    by (auto simp: eq item_metadata_inv_def metadata_wf_def toolcaps_update wear_bar_update
        contains_setString)
qed

lemma item_metadata_clear: "item_metadata_inv (ItemStackMetadata_clear m)"
  by (simp add: item_metadata_inv_def metadata_wf_def ItemStackMetadata_clear_def
      toolcaps_update wear_bar_update SimpleMetadata_clear_def)

lemma item_metadata_new: "item_metadata_inv new_metadata"
  by (simp add: item_metadata_inv_def new_metadata_def metadata_wf_def SimpleMetadata_contains_def)

subsection \<open>Round trip of the item metadata\<close>

lemma AList_update_new: "k \<notin> fst ` set al \<Longrightarrow> AList.update k v al = al @ [(k, v)]"
  by (induction al) auto

lemma parse_pairs_append:
  assumes "strfnd_rest f = metadata_pairs ps"
    and "\<forall>(k, v) \<in> set ps. clean k \<and> clean v \<and> v \<noteq> []"
    and "distinct (map fst (kvs @ ps))"
  shows "parse_pairs f kvs = kvs @ ps"
  using assms
proof (induction ps arbitrary: f kvs)
  case Nil
  then show ?case
    by (simp add: parse_pairs.simps [of f] strfnd_at_end_rest)
next
  case (Cons p ps)
  obtain k v where p: "p = (k, v)" by (cases p)
  have k: "DESERIALIZE_KV_DELIM \<notin> set k" and v: "DESERIALIZE_PAIR_DELIM \<notin> set v" "v \<noteq> []"
    using Cons.prems(2) by (auto simp: p clean_def)
  have rest: "strfnd_rest f = k @ DESERIALIZE_KV_DELIM # (v @ DESERIALIZE_PAIR_DELIM # metadata_pairs ps)"
    using Cons.prems(1) v by (simp add: p)
  obtain f1 where n1: "strfnd_next [DESERIALIZE_KV_DELIM] f = (k, f1)"
    and r1: "strfnd_rest f1 = v @ DESERIALIZE_PAIR_DELIM # metadata_pairs ps"
    using strfnd_next_char [OF rest k] by (metis prod.collapse)
  obtain f2 where n2: "strfnd_next [DESERIALIZE_PAIR_DELIM] f1 = (v, f2)"
    and r2: "strfnd_rest f2 = metadata_pairs ps"
    using strfnd_next_char [OF r1 v(1)] by (metis prod.collapse)
  have "\<not> strfnd_at_end f"
    by (simp add: strfnd_at_end_rest rest)
  then have "parse_pairs f kvs = parse_pairs f2 (AList.update k v kvs)"
    by (simp only: parse_pairs.simps [of f] n1 n2 Let_def prod.case if_False)
  also have "AList.update k v kvs = kvs @ [(k, v)]"
    using Cons.prems(3) by (intro AList_update_new) (auto simp: p)
  also have "parse_pairs f2 (kvs @ [(k, v)]) = (kvs @ [(k, v)]) @ ps"
    by (rule Cons.IH [OF r2]) (use Cons.prems in \<open>auto simp: p\<close>)
  finally show ?case
    by (simp add: p)
qed

lemma parse_pairs_start:
  assumes "item_metadata_inv m"
  shows "parse_pairs (strfnd_to (Suc 0) (strfnd_start (DESERIALIZE_START # metadata_pairs (stringvars m)))) [] =
    stringvars m"
proof -
  let ?f = "strfnd_to (Suc 0) (strfnd_start (DESERIALIZE_START # metadata_pairs (stringvars m)))"
  have "strfnd_rest ?f = metadata_pairs (stringvars m)"
    by (simp add: strfnd_rest_def strfnd_to_def strfnd_start_def)
  from parse_pairs_append [OF this, of "[]"] show ?thesis
    using assms by (simp add: item_metadata_inv_def metadata_wf_def case_prod_beta)
qed

lemma ItemStackMetadata_roundtrip:
  assumes "item_metadata_inv m"
  shows "\<exists>m' is'. ItemStackMetadata_deSerialize
      \<lparr>buf = ItemStackMetadata_serialize m, good = True\<rparr> n = Inr (m', is') \<and>
    stringvars m' = stringvars m"
  using assms
  by (simp add: ItemStackMetadata_deSerialize_def ItemStackMetadata_serialize_def
      deSerializeJsonStringIfNeeded_end parse_pairs_start)

subsection \<open>Properties\<close>

text \<open>The metadata that a sequence of \<open>setString\<close> calls and clears leaves.\<close>

datatype meta_op = SetString string string | Clear

fun meta_apply :: "meta_op \<Rightarrow> metadata \<Rightarrow> metadata" where
  "meta_apply (SetString k v) m = snd (ItemStackMetadata_setString k v m)"
| "meta_apply Clear m = ItemStackMetadata_clear m"

abbreviation meta_history :: "meta_op list \<Rightarrow> metadata" where
  "meta_history ops \<equiv> fold meta_apply ops new_metadata"

lemma item_metadata_history:
  assumes "item_metadata_inv m" shows "item_metadata_inv (fold meta_apply ops m)"
  using assms
proof (induction ops arbitrary: m)
  case (Cons c ops)
  then show ?case
    by (cases c) (simp_all add: item_metadata_setString item_metadata_clear)
qed simp

text \<open>
  Whatever keys and values were set, the item metadata written by \<open>serialize\<close> is read by
  \<open>deSerialize\<close> into metadata that \<open>operator==\<close> finds equal, because the setters drop the
  separator characters; and the overrides are cached exactly when their keys are present.
\<close>

theorem item_metadata_roundtrip:
  "\<exists>m' is'. ItemStackMetadata_deSerialize
      \<lparr>buf = ItemStackMetadata_serialize (meta_history ops), good = True\<rparr> n = Inr (m', is') \<and>
    metadata_eq m' (meta_history ops) \<and>
    (toolcaps_override m' = None \<longleftrightarrow> toolcaps_override (meta_history ops) = None) \<and>
    (wear_bar_override m' = None \<longleftrightarrow> wear_bar_override (meta_history ops) = None)"
proof -
  let ?m = "meta_history ops"
  have i: "item_metadata_inv ?m"
    by (rule item_metadata_history [OF item_metadata_new])
  then have wf: "metadata_wf ?m"
    by (simp add: item_metadata_inv_def)
  let ?m' = "updateWearBarParams (updateToolCapabilities (n\<lparr>stringvars := stringvars ?m\<rparr>))"
  have "\<exists>is'. ItemStackMetadata_deSerialize
      \<lparr>buf = ItemStackMetadata_serialize ?m, good = True\<rparr> n = Inr (?m', is')"
    using i by (simp add: ItemStackMetadata_deSerialize_def ItemStackMetadata_serialize_def
        deSerializeJsonStringIfNeeded_end parse_pairs_start)
  moreover have "metadata_eq ?m' ?m"
    using wf by (subst metadata_eq_iff_map) (simp_all add: metadata_wf_def)
  ultimately show ?thesis
    using i by (auto simp: item_metadata_inv_def wear_bar_update toolcaps_update SimpleMetadata_contains_def)
qed

text \<open>
  \<open>setString\<close> with a value binds the cleaned key to the cleaned value and with an empty one
  removes it; no other key changes; and the result, which decides whether the change is saved
  and sent, is true exactly when the binding of that key changed.
\<close>

theorem item_metadata_setString_effect:
  "map_of (stringvars (snd (ItemStackMetadata_setString name var m))) =
     (map_of (stringvars m))(sanitize_string name :=
        if sanitize_string var = [] then None else Some (sanitize_string var)) \<and>
   (fst (ItemStackMetadata_setString name var m) \<longleftrightarrow>
     map_of (stringvars (snd (ItemStackMetadata_setString name var m))) \<noteq> map_of (stringvars m))"
proof -
  have f: "fst (ItemStackMetadata_setString name var m) =
      fst (SimpleMetadata_setString (sanitize_string name) (sanitize_string var) m)"
    by (simp add: ItemStackMetadata_setString_def Let_def case_prod_unfold)
  show ?thesis
    unfolding f stringvars_ItemStack_setString setString_map setString_changed
    by (auto simp: fun_upd_idem_iff dest: sym)
qed

end
