(* ===== verification/ItemDef.thy ===== *)
theory ItemDef
  imports Prelude "HOL-Library.AList"
begin

section \<open>The item definition manager\<close>

text \<open>
  \<^verbatim>\<open>src/itemdef.h\<close> and \<^verbatim>\<open>src/itemdef.cpp\<close>: the read interface \<^verbatim>\<open>IItemDefManager\<close> the inventories
  use, the manager \<^verbatim>\<open>CItemDefManager\<close> that implements it, and the contract between the two
  as the locale \<open>item_manager\<close>. Of an \<^verbatim>\<open>ItemDefinition\<close> the record keeps the fields that the
  inventory and crafting code reads; the tool capabilities and wear bar parameters are
  represented by their JSON text, as in the item metadata.
\<close>

datatype item_type = ITEM_NONE | ITEM_NODE | ITEM_CRAFT | ITEM_TOOL

record item_def =
  it_type :: item_type
  it_name :: string
  it_description :: string
  it_short_description :: string
  it_inventory_image :: string
  it_wield_image :: string
  it_stack_max :: u16
  it_usable :: bool
  it_liquids_pointable :: bool
  it_tool_capabilities :: "string option"
  it_wear_bar_params :: "string option"

definition ItemDefinition_reset :: item_def where
  "ItemDefinition_reset =
     \<lparr>it_type = ITEM_NONE, it_name = [], it_description = [], it_short_description = [],
      it_inventory_image = [], it_wield_image = [], it_stack_max = 99, it_usable = False,
      it_liquids_pointable = False, it_tool_capabilities = None, it_wear_bar_params = None\<rparr>"

text \<open>The virtual methods of the interface.\<close>

record IItemDefManager =
  im_get :: "string \<Rightarrow> item_def"
  im_getAlias :: "string \<Rightarrow> string"
  im_isKnown :: "string \<Rightarrow> bool"

subsection \<open>CItemDefManager\<close>

record item_mgr =
  m_item_definitions :: "(string \<times> item_def) list"
  m_aliases :: "(string \<times> string) list"

definition idm_getAlias :: "item_mgr \<Rightarrow> string \<Rightarrow> string" where
  "idm_getAlias m name = (case map_of (m_aliases m) name of Some a \<Rightarrow> a | None \<Rightarrow> name)"

definition idm_get :: "item_mgr \<Rightarrow> string \<Rightarrow> item_def res" where
  "idm_get m name0 =
     (let name = idm_getAlias m name0
      in case map_of (m_item_definitions m) name of
           Some d \<Rightarrow> Inr d
         | None \<Rightarrow>
             (case map_of (m_item_definitions m) ''unknown'' of
                Some d \<Rightarrow> Inr d
              | None \<Rightarrow> Inl AssertFailed))"

definition idm_getAll :: "item_mgr \<Rightarrow> string set" where
  "idm_getAll m = set (map fst (m_item_definitions m)) \<union> set (map fst (m_aliases m))"

definition idm_isKnown :: "item_mgr \<Rightarrow> string \<Rightarrow> bool" where
  "idm_isKnown m name0 \<longleftrightarrow> map_of (m_item_definitions m) (idm_getAlias m name0) \<noteq> None"

record texture_override =
  to_id :: string
  to_texture :: string
  to_inventory :: bool
  to_wield :: bool

fun idm_applyTextureOverrides :: "texture_override list \<Rightarrow> item_mgr \<Rightarrow> item_mgr" where
  "idm_applyTextureOverrides [] m = m"
| "idm_applyTextureOverrides (t # ts) m =
     (case map_of (m_item_definitions m) (to_id t) of
        None \<Rightarrow> idm_applyTextureOverrides ts m
      | Some d \<Rightarrow>
          let d1 = (if to_inventory t then d\<lparr>it_inventory_image := to_texture t\<rparr> else d);
              d2 = (if to_wield t then d1\<lparr>it_wield_image := to_texture t\<rparr> else d1)
          in idm_applyTextureOverrides ts
               (m\<lparr>m_item_definitions := AList.update (to_id t) d2 (m_item_definitions m)\<rparr>))"

text \<open>
  \<open>clear\<close> leaves the four built-in items. The hand gets default tool capabilities, written
  here as the empty JSON object.
\<close>

definition hand_def :: item_def where
  "hand_def = ItemDefinition_reset\<lparr>it_wield_image := ''wieldhand.png'', it_tool_capabilities := Some ''{}''\<rparr>"

definition builtin_node_def :: "string \<Rightarrow> item_def" where
  "builtin_node_def name = ItemDefinition_reset\<lparr>it_type := ITEM_NODE, it_name := name\<rparr>"

definition idm_clear :: item_mgr where
  "idm_clear =
     \<lparr>m_item_definitions =
        [('''', hand_def), (''unknown'', builtin_node_def ''unknown''),
         (''air'', builtin_node_def ''air''), (''ignore'', builtin_node_def ''ignore'')],
      m_aliases = []\<rparr>"

definition idm_registerItem :: "item_def \<Rightarrow> item_mgr \<Rightarrow> item_mgr res" where
  "idm_registerItem d m =
     (if it_name d = [] \<and> it_tool_capabilities d = None then Inl AssertFailed
      else Inr \<lparr>m_item_definitions = AList.update (it_name d) d (m_item_definitions m),
                m_aliases = AList.delete (it_name d) (m_aliases m)\<rparr>)"

definition idm_unregisterItem :: "string \<Rightarrow> item_mgr \<Rightarrow> item_mgr" where
  "idm_unregisterItem name m = m\<lparr>m_item_definitions := AList.delete name (m_item_definitions m)\<rparr>"

definition idm_registerAlias :: "string \<Rightarrow> string \<Rightarrow> item_mgr \<Rightarrow> item_mgr" where
  "idm_registerAlias name convert_to m =
     (if map_of (m_item_definitions m) name = None
      then m\<lparr>m_aliases := AList.update name convert_to (m_aliases m)\<rparr>
      else m)"

text \<open>
  The manager seen through its interface. The default of \<open>im_get\<close> is reached only when the
  assertion of \<open>get\<close> fails, which \<open>idm_wf\<close> below excludes.
\<close>

definition idm_view :: "item_mgr \<Rightarrow> IItemDefManager" where
  "idm_view m =
     \<lparr>im_get = (\<lambda>n. case idm_get m n of Inr d \<Rightarrow> d | Inl _ \<Rightarrow> ItemDefinition_reset),
      im_getAlias = idm_getAlias m, im_isKnown = idm_isKnown m\<rparr>"

subsection \<open>Invariant\<close>

text \<open>
  Every definition is stored under its own name, no defined name is an alias, \<open>unknown\<close> is
  defined, and the hand has tool capabilities.
\<close>

definition idm_wf :: "item_mgr \<Rightarrow> bool" where
  "idm_wf m \<longleftrightarrow>
     (\<forall>n d. map_of (m_item_definitions m) n = Some d \<longrightarrow>
        it_name d = n \<and> map_of (m_aliases m) n = None \<and> (n = [] \<longrightarrow> it_tool_capabilities d \<noteq> None)) \<and>
     map_of (m_item_definitions m) ''unknown'' \<noteq> None \<and>
     map_of (m_item_definitions m) [] \<noteq> None"

lemma map_of_alist_update [simp]: "map_of (AList.update k v al) = (map_of al)(k \<mapsto> v)"
  by (simp add: update_conv')

lemma map_of_alist_delete [simp]: "map_of (AList.delete k al) = (map_of al)(k := None)"
  by (simp add: delete_conv')

lemma idm_wf_clear: "idm_wf idm_clear"
  by (simp add: idm_wf_def idm_clear_def hand_def_def builtin_node_def_def ItemDefinition_reset_def)

lemma idm_wf_registerItem: "idm_wf m \<Longrightarrow> idm_registerItem d m = Inr m' \<Longrightarrow> idm_wf m'"
  by (auto simp: idm_wf_def idm_registerItem_def split: if_splits)

lemma idm_wf_unregisterItem:
  "idm_wf m \<Longrightarrow> name \<noteq> [] \<Longrightarrow> name \<noteq> ''unknown'' \<Longrightarrow> idm_wf (idm_unregisterItem name m)"
  by (auto simp: idm_wf_def idm_unregisterItem_def)

lemma idm_wf_registerAlias: "idm_wf m \<Longrightarrow> idm_wf (idm_registerAlias name c m)"
  by (auto simp: idm_wf_def idm_registerAlias_def)

lemma idm_wf_applyTextureOverrides: "idm_wf m \<Longrightarrow> idm_wf (idm_applyTextureOverrides ts m)"
proof (induction ts m rule: idm_applyTextureOverrides.induct)
  case (2 t ts m)
  show ?case
  proof (cases "map_of (m_item_definitions m) (to_id t)")
    case None
    with 2 show ?thesis by simp
  next
    case (Some d)
    let ?d1 = "if to_inventory t then d\<lparr>it_inventory_image := to_texture t\<rparr> else d"
    let ?d2 = "if to_wield t then ?d1\<lparr>it_wield_image := to_texture t\<rparr> else ?d1"
    have "idm_wf (m\<lparr>m_item_definitions := AList.update (to_id t) ?d2 (m_item_definitions m)\<rparr>)"
      using 2(3) Some by (auto simp: idm_wf_def)
    with 2(2) [OF Some refl refl] Some show ?thesis
      by (simp add: Let_def)
  qed
qed simp

subsection \<open>The contract of the interface\<close>

locale item_manager =
  fixes wf :: "'s \<Rightarrow> bool"
    and view :: "'s \<Rightarrow> IItemDefManager"
    and register :: "item_def \<Rightarrow> 's \<Rightarrow> 's res"
  assumes known_name: "wf s \<Longrightarrow> im_isKnown (view s) n \<Longrightarrow>
      it_name (im_get (view s) n) = im_getAlias (view s) n"
    and unknown_def: "wf s \<Longrightarrow> \<not> im_isKnown (view s) n \<Longrightarrow>
      im_get (view s) n = im_get (view s) ''unknown''"
    and hand_capabilities: "wf s \<Longrightarrow> it_tool_capabilities (im_get (view s) []) \<noteq> None"
    and alias_defined: "wf s \<Longrightarrow> it_name (im_get (view s) n) = n \<Longrightarrow> im_getAlias (view s) n = n"
    and register_wf: "wf s \<Longrightarrow> register d s = Inr s' \<Longrightarrow> wf s'"
    and register_get: "wf s \<Longrightarrow> register d s = Inr s' \<Longrightarrow> im_get (view s') (it_name d) = d"
begin

lemma registered_alias: "wf s \<Longrightarrow> register d s = Inr s' \<Longrightarrow> im_getAlias (view s') (it_name d) = it_name d"
  using alias_defined register_wf register_get by fastforce

end

lemma idm_get_ok: "idm_wf m \<Longrightarrow> \<exists>d. idm_get m n = Inr d"
  by (auto simp: idm_get_def idm_wf_def Let_def split: option.splits)

lemma idm_view_get: "idm_wf m \<Longrightarrow> idm_get m n = Inr (im_get (idm_view m) n)"
  using idm_get_ok [of m n] by (auto simp: idm_view_def)

interpretation idm: item_manager idm_wf idm_view idm_registerItem
proof (unfold_locales, goal_cases)
  case (1 s n)
  then show ?case
    by (auto simp: idm_wf_def idm_view_def idm_isKnown_def idm_get_def Let_def)
next
  case (2 s n)
  then show ?case
    by (auto simp: idm_wf_def idm_view_def idm_isKnown_def idm_get_def idm_getAlias_def Let_def
        split: option.splits)
next
  case (3 s)
  then show ?case
    by (auto simp: idm_wf_def idm_view_def idm_get_def idm_getAlias_def Let_def split: option.splits)
next
  case (4 s n)
  then have "map_of (m_item_definitions s) (idm_getAlias s n) = Some d \<Longrightarrow> it_name d = idm_getAlias s n" for d
    by (simp add: idm_wf_def)
  moreover obtain u where "map_of (m_item_definitions s) ''unknown'' = Some u" "it_name u = ''unknown''"
    "map_of (m_aliases s) ''unknown'' = None"
    using 4(1) by (auto simp: idm_wf_def)
  ultimately show ?case
    using 4(2) by (auto simp: idm_view_def idm_get_def idm_getAlias_def Let_def split: option.splits)
next
  case (5 s d s')
  then show ?case by (rule idm_wf_registerItem)
next
  case (6 s d s')
  then show ?case
    by (auto simp: idm_view_def idm_registerItem_def idm_get_def idm_getAlias_def split: if_splits)
qed

subsection \<open>Properties\<close>

text \<open>The operations on the manager.\<close>

datatype idm_op =
  Register item_def | Unregister string | Alias string string | Overrides "texture_override list"

fun idm_apply :: "idm_op \<Rightarrow> item_mgr \<Rightarrow> item_mgr" where
  "idm_apply (Register d) m = (case idm_registerItem d m of Inr m' \<Rightarrow> m' | Inl _ \<Rightarrow> m)"
| "idm_apply (Unregister n) m = (if n = [] \<or> n = ''unknown'' then m else idm_unregisterItem n m)"
| "idm_apply (Alias n c) m = idm_registerAlias n c m"
| "idm_apply (Overrides ts) m = idm_applyTextureOverrides ts m"

lemma idm_wf_apply: "idm_wf m \<Longrightarrow> idm_wf (idm_apply c m)"
  by (cases c) (auto simp: idm_wf_unregisterItem idm_wf_registerAlias idm_wf_applyTextureOverrides
      intro: idm_wf_registerItem split: sum.split)

lemma idm_wf_unknown: "idm_wf m \<Longrightarrow> it_name (im_get (idm_view m) ''unknown'') = ''unknown''"
  by (auto simp: idm_wf_def idm_view_def idm_get_def idm_getAlias_def Let_def)

lemma idm_wf_history: "idm_wf m \<Longrightarrow> idm_wf (fold idm_apply ops m)"
  by (induction ops arbitrary: m) (simp_all add: idm_wf_apply)

text \<open>
  C18: after any registrations, unregistrations (of items other than the hand and
  \<^verbatim>\<open>unknown\<close>), aliases and texture overrides, looking up any name gives a definition without
  failing the assertion of \<open>get\<close>, a known name the definition of the name it is an alias
  of, an unknown one that of \<^verbatim>\<open>unknown\<close>; and a registered item is found under its own name.
\<close>

theorem item_lookup:
  "\<exists>d. idm_get (fold idm_apply ops idm_clear) n = Inr d \<and>
     (if idm_isKnown (fold idm_apply ops idm_clear) n
      then it_name d = idm_getAlias (fold idm_apply ops idm_clear) n
      else it_name d = ''unknown'') \<and>
     (idm_registerItem d0 (fold idm_apply ops idm_clear) = Inr m' \<longrightarrow>
        idm_isKnown m' (it_name d0) \<and> idm_get m' (it_name d0) = Inr d0)"
proof -
  let ?m = "fold idm_apply ops idm_clear"
  have wf: "idm_wf ?m"
    by (rule idm_wf_history [OF idm_wf_clear])
  have known: "im_isKnown (idm_view m) = idm_isKnown m" "im_getAlias (idm_view m) = idm_getAlias m" for m
    by (simp_all add: idm_view_def)
  have unknown: "it_name (im_get (idm_view ?m) ''unknown'') = ''unknown''"
    by (rule idm_wf_unknown [OF wf])
  have reg: "idm_isKnown m' (it_name d0) \<and> idm_get m' (it_name d0) = Inr d0"
    if r: "idm_registerItem d0 ?m = Inr m'"
    using r idm.register_get [OF wf r] idm_view_get [OF idm_wf_registerItem [OF wf r], of "it_name d0"]
    by (auto simp: idm_isKnown_def idm_registerItem_def idm_getAlias_def split: if_splits)
  show ?thesis
    using idm.known_name [OF wf, of n] idm.unknown_def [OF wf, of n] unknown reg
    by (auto simp: idm_view_get [OF wf] known)
qed

theorem item_lookup_witness:
  "\<exists>d. idm_get (fold idm_apply [Register (builtin_node_def ''stone''), Alias ''rock'' ''stone''] idm_clear) ''rock'' = Inr d \<and>
    it_name d = ''stone''"
proof -
  let ?m = "fold idm_apply [Register (builtin_node_def ''stone''), Alias ''rock'' ''stone''] idm_clear"
  have "idm_isKnown ?m ''rock''" "idm_getAlias ?m ''rock'' = ''stone''"
    by (simp_all add: idm_isKnown_def idm_getAlias_def idm_registerItem_def idm_registerAlias_def
        idm_clear_def builtin_node_def_def hand_def_def ItemDefinition_reset_def)
  then show ?thesis
    using item_lookup [of "[Register (builtin_node_def ''stone''), Alias ''rock'' ''stone'']" "''rock''"
        hand_def ?m] by auto
qed

end
