(* ===== verification/ItemStack.thy ===== *)
theory ItemStack
  imports NameIdMap Metadata ItemDef
begin

section \<open>Item stacks\<close>

text \<open>
  \<^verbatim>\<open>struct ItemStack\<close> of \<^verbatim>\<open>src/inventory.h\<close> and \<^verbatim>\<open>src/inventory.cpp\<close>: adding to and taking from a
  stack, wear, and the item string format with its legacy forms. The item definition manager
  is the interface record of \<open>ItemDef\<close>; where the code accepts a null pointer it is an option.
  \<open>remove\<close> has an assertion; it and every operation that calls it return a result, and the
  lemmas show that the assertion never fails there.
\<close>

record item_stack =
  st_name :: string
  st_count :: u16
  st_wear :: u16
  st_meta :: metadata

definition empty_stack :: item_stack where
  "empty_stack = \<lparr>st_name = [], st_count = 0, st_wear = 0, st_meta = new_metadata\<rparr>"

definition ItemStack_empty :: "item_stack \<Rightarrow> bool" where
  "ItemStack_empty s \<longleftrightarrow> st_count s = 0"

definition ItemStack_clear :: "item_stack \<Rightarrow> item_stack" where
  "ItemStack_clear s =
     \<lparr>st_name = [], st_count = 0, st_wear = 0, st_meta = ItemStackMetadata_clear (st_meta s)\<rparr>"

definition ItemStack_add :: "u16 \<Rightarrow> item_stack \<Rightarrow> item_stack" where
  "ItemStack_add n s = s\<lparr>st_count := st_count s + n\<rparr>"

definition ItemStack_remove :: "u16 \<Rightarrow> item_stack \<Rightarrow> item_stack res" where
  "ItemStack_remove n s =
     (if st_count s < n then Inl AssertFailed
      else
        let s' = s\<lparr>st_count := st_count s - n\<rparr>
        in Inr (if st_count s' = 0 then ItemStack_clear s' else s'))"

definition ItemStack_new :: "string \<Rightarrow> u16 \<Rightarrow> u16 \<Rightarrow> IItemDefManager \<Rightarrow> item_stack" where
  "ItemStack_new name0 count0 wear0 idm =
     (let s = \<lparr>st_name = im_getAlias idm name0, st_count = count0, st_wear = wear0,
               st_meta = new_metadata\<rparr>
      in if st_name s = [] \<or> st_count s = 0 then ItemStack_clear s
         else if it_type (im_get idm (st_name s)) = ITEM_TOOL then s\<lparr>st_count := 1\<rparr>
         else s)"

definition ItemStack_eq :: "item_stack \<Rightarrow> item_stack \<Rightarrow> bool" where
  "ItemStack_eq a b \<longleftrightarrow>
     st_name a = st_name b \<and> st_count a = st_count b \<and> st_wear a = st_wear b \<and>
     metadata_eq (st_meta a) (st_meta b)"

definition ItemStack_stacksWith :: "item_stack \<Rightarrow> item_stack \<Rightarrow> bool" where
  "ItemStack_stacksWith a b \<longleftrightarrow>
     st_name a = st_name b \<and> st_wear a = st_wear b \<and> metadata_eq (st_meta a) (st_meta b)"

subsection \<open>Reading the definition\<close>

definition ItemStack_getStackMax :: "IItemDefManager \<Rightarrow> item_stack \<Rightarrow> u16" where
  "ItemStack_getStackMax idm s = it_stack_max (im_get idm (st_name s))"

definition ItemStack_freeSpace :: "IItemDefManager \<Rightarrow> item_stack \<Rightarrow> u16" where
  "ItemStack_freeSpace idm s =
     (let max = ItemStack_getStackMax idm s
      in if st_count s \<ge> max then 0 else max - st_count s)"

definition ItemStack_isKnown :: "IItemDefManager \<Rightarrow> item_stack \<Rightarrow> bool" where
  "ItemStack_isKnown idm s = im_isKnown idm (st_name s)"

definition ItemStack_getDefinition :: "IItemDefManager \<Rightarrow> item_stack \<Rightarrow> item_def" where
  "ItemStack_getDefinition idm s = im_get idm (st_name s)"

definition ItemStack_getDescription :: "IItemDefManager \<Rightarrow> item_stack \<Rightarrow> string" where
  "ItemStack_getDescription idm s =
     (let desc = getString ''description'' 0 (st_meta s);
          desc' = (if desc = [] then it_description (ItemStack_getDefinition idm s) else desc)
      in if desc' = [] then st_name s else desc')"

definition ItemStack_getShortDescription :: "IItemDefManager \<Rightarrow> item_stack \<Rightarrow> string" where
  "ItemStack_getShortDescription idm s =
     (let desc = getString ''short_description'' 0 (st_meta s);
          desc' = (if desc = [] then it_short_description (ItemStack_getDefinition idm s) else desc)
      in if desc' \<noteq> [] then desc'
         else fst (getline (CHR 0x0A) desc' (open_stream (ItemStack_getDescription idm s))))"

definition ItemStack_getInventoryImage :: "IItemDefManager \<Rightarrow> item_stack \<Rightarrow> string" where
  "ItemStack_getInventoryImage idm s =
     (let image = it_inventory_image (ItemStack_getDefinition idm s);
          meta_image = getString ''inventory_image'' 0 (st_meta s)
      in if meta_image \<noteq> [] then meta_image else image)"

definition ItemStack_getWieldImage :: "IItemDefManager \<Rightarrow> item_stack \<Rightarrow> string" where
  "ItemStack_getWieldImage idm s =
     (let image = it_wield_image (ItemStack_getDefinition idm s);
          meta_image = getString ''wield_image'' 0 (st_meta s)
      in if meta_image \<noteq> [] then meta_image else image)"

definition ItemStack_getToolCapabilities ::
    "IItemDefManager \<Rightarrow> item_stack option \<Rightarrow> item_stack \<Rightarrow> string res" where
  "ItemStack_getToolCapabilities idm hand s =
     (case toolcaps_override (st_meta s) of
        Some c \<Rightarrow> Inr c
      | None \<Rightarrow>
          (case it_tool_capabilities (im_get idm (st_name s)) of
             Some c \<Rightarrow> Inr c
           | None \<Rightarrow>
               let fallback =
                 (case it_tool_capabilities (im_get idm []) of
                    Some c \<Rightarrow> Inr c | None \<Rightarrow> Inl AssertFailed)
               in case hand of
                    None \<Rightarrow> fallback
                  | Some h \<Rightarrow>
                      (case toolcaps_override (st_meta h) of
                         Some c \<Rightarrow> Inr c
                       | None \<Rightarrow>
                           (case it_tool_capabilities (im_get idm (st_name h)) of
                              Some c \<Rightarrow> Inr c
                            | None \<Rightarrow> fallback))))"

text \<open>\<open>parse\<close> is \<^verbatim>\<open>WearBarParams::deserializeJson\<close> on the cached text; it may find no parameters there.\<close>

definition ItemStack_getWearBarParams ::
    "(string \<Rightarrow> 'p option) \<Rightarrow> IItemDefManager \<Rightarrow> item_stack \<Rightarrow> 'p option" where
  "ItemStack_getWearBarParams parse idm s =
     (let meta_override = Option.bind (wear_bar_override (st_meta s)) parse
      in if meta_override \<noteq> None then meta_override
         else Option.bind (it_wear_bar_params (im_get idm (st_name s))) parse)"

text \<open>
  \<open>wear += amount\<close> is computed in \<open>int\<close> and stored back into 16 bits.
\<close>

definition ItemStack_addWear :: "int \<Rightarrow> IItemDefManager \<Rightarrow> item_stack \<Rightarrow> bool \<times> item_stack" where
  "ItemStack_addWear amount idm s =
     (if it_type (ItemStack_getDefinition idm s) = ITEM_TOOL then
        (True,
         if amount > 65535 - uint (st_wear s) then ItemStack_clear s
         else if amount < - uint (st_wear s) then s\<lparr>st_wear := 0\<rparr>
         else s\<lparr>st_wear := word_of_int (uint (st_wear s) + amount)\<rparr>)
      else (False, s))"

subsection \<open>Adding and taking\<close>

text \<open>\<open>ItemStack_addItem idm newitem s\<close> is the pair of the leftover and the new stack.\<close>

definition ItemStack_addItem ::
    "IItemDefManager \<Rightarrow> item_stack \<Rightarrow> item_stack \<Rightarrow> (item_stack \<times> item_stack) res" where
  "ItemStack_addItem idm newitem s =
     (if ItemStack_empty newitem then Inr (newitem, s)
      else if ItemStack_empty s then Inr (ItemStack_clear newitem, newitem)
      else if st_name s \<noteq> st_name newitem \<or> \<not> metadata_eq (st_meta s) (st_meta newitem)
      then Inr (newitem, s)
      else if st_count newitem \<le> ItemStack_freeSpace idm s
      then Inr (ItemStack_clear newitem, ItemStack_add (st_count newitem) s)
      else
        let freespace = ItemStack_freeSpace idm s
        in rbind (ItemStack_remove freespace newitem) (\<lambda>rest.
             Inr (rest, ItemStack_add freespace s)))"

text \<open>The pair of the answer and the item that \<open>restitem\<close> receives.\<close>

definition ItemStack_itemFits ::
    "IItemDefManager \<Rightarrow> item_stack \<Rightarrow> item_stack \<Rightarrow> (bool \<times> item_stack) res" where
  "ItemStack_itemFits idm newitem s =
     rbind
       (if ItemStack_empty newitem then Inr newitem
        else if ItemStack_empty s then Inr (ItemStack_clear newitem)
        else if st_name s \<noteq> st_name newitem \<or> \<not> metadata_eq (st_meta s) (st_meta newitem)
        then Inr newitem
        else if st_count newitem \<le> ItemStack_freeSpace idm s then Inr (ItemStack_clear newitem)
        else ItemStack_remove (ItemStack_freeSpace idm s) newitem)
       (\<lambda>rest. Inr (ItemStack_empty rest, rest))"

definition ItemStack_takeItem :: "u32 \<Rightarrow> item_stack \<Rightarrow> (item_stack \<times> item_stack) res" where
  "ItemStack_takeItem takecount s =
     (if takecount = 0 \<or> st_count s = 0 then Inr (empty_stack, s)
      else if takecount \<ge> ucast (st_count s) then Inr (s, ItemStack_clear s)
      else rbind (ItemStack_remove (ucast takecount) s) (\<lambda>s'.
             Inr (s\<lparr>st_count := ucast takecount\<rparr>, s')))"

definition ItemStack_peekItem :: "u32 \<Rightarrow> item_stack \<Rightarrow> item_stack" where
  "ItemStack_peekItem peekcount s =
     (if peekcount = 0 \<or> st_count s = 0 then empty_stack
      else if peekcount < ucast (st_count s) then s\<lparr>st_count := ucast peekcount\<rparr>
      else s)"

subsection \<open>The item string\<close>

definition ItemStack_serialize :: "bool \<Rightarrow> item_stack \<Rightarrow> string" where
  "ItemStack_serialize serialize_meta s =
     (if ItemStack_empty s then []
      else
        let parts = (if \<not> SimpleMetadata_empty (st_meta s) then 4
                     else if st_wear s \<noteq> 0 then 3
                     else if st_count s \<noteq> 1 then 2 else (1 :: nat))
        in serializeJsonStringIfNeeded (st_name s) @
           (if parts \<ge> 2 then '' '' @ nat_str (unat (st_count s)) else []) @
           (if parts \<ge> 3 then '' '' @ nat_str (unat (st_wear s)) else []) @
           (if parts \<ge> 4 then
              '' '' @ (if serialize_meta then ItemStackMetadata_serialize (st_meta s)
                       else ''<metadata size='' @ nat_str (SimpleMetadata_size (st_meta s)) @ ''>'')
            else []))"

definition content_translate_from_19_to_internal :: "u16 \<Rightarrow> u16" where
  "content_translate_from_19_to_internal c_from =
     (case find (\<lambda>(_, t1). t1 = c_from) trans_table_19 of
        Some (t0, _) \<Rightarrow> t0
      | None \<Rightarrow> c_from)"

definition apply_alias :: "IItemDefManager option \<Rightarrow> string \<Rightarrow> string" where
  "apply_alias itemdef name = (case itemdef of Some idm \<Rightarrow> im_getAlias idm name | None \<Rightarrow> name)"

text \<open>
  \<^verbatim>\<open>MaterialItem\<close> (\<open>translate\<close>) and \<^verbatim>\<open>MaterialItem2\<close>: two numbers, the first a node id. \<open>getName\<close>
  leaves the name as it was when the id is unknown.
\<close>

definition read_material ::
    "bool \<Rightarrow> IItemDefManager option \<Rightarrow> istream \<Rightarrow> item_stack \<Rightarrow> (item_stack \<times> istream) res" where
  "read_material translate itemdef is s =
     (case extract_unsigned 65535 is of
        (None, _) \<Rightarrow> Inl UninitializedRead
      | (Some material0, _, is1) \<Rightarrow>
          (case extract_unsigned 65535 is1 of
             (materialcount, _, is2) \<Rightarrow>
               let material1 = (of_nat material0 :: u16);
                   material = (if translate \<and> material1 \<le> 0xff
                               then content_translate_from_19_to_internal material1 else material1)
               in if material > 0xfff then Inl SerializationError
                  else rbind (content_mapnode_get_name_id_mapping nim_clear) (\<lambda>legacy_nimap.
                    let name = (case nim_getName material legacy_nimap of
                                  Some n \<Rightarrow> n | None \<Rightarrow> st_name s);
                        name' = (if name = [] then ''unknown_block'' else name)
                    in (case materialcount of
                          None \<Rightarrow> Inl UninitializedRead
                        | Some c \<Rightarrow>
                            Inr (s\<lparr>st_name := apply_alias itemdef name', st_count := of_nat c\<rparr>, is2)))))"

text \<open>A quoted or a bare word, then the rest of the line.\<close>

definition read_quoted_name :: "string \<Rightarrow> string \<times> string" where
  "read_quoted_name all =
     (let fnd = snd (strfnd_next [dquote] (strfnd_start all));
          (name, fnd1) =
            (if \<not> strfnd_at_end fnd then strfnd_next [dquote] fnd
             else strfnd_next '' '' (strfnd_start all));
          fnd2 = strfnd_skip_over '' '' fnd1
      in (name, fst (strfnd_next [] fnd2)))"

definition read_node_item ::
    "IItemDefManager option \<Rightarrow> istream \<Rightarrow> item_stack \<Rightarrow> (item_stack \<times> istream) res" where
  "read_node_item itemdef is s =
     (let (all, is1) = getline (CHR 0x0A) [] is;
          (name, rest) = read_quoted_name all;
          count = (word_of_int (stoi (trim rest)) :: u16)
      in Inr (s\<lparr>st_name := apply_alias itemdef name, st_count := (if count = 0 then 1 else count)\<rparr>, is1))"

definition read_tool_item ::
    "IItemDefManager option \<Rightarrow> istream \<Rightarrow> item_stack \<Rightarrow> (item_stack \<times> istream) res" where
  "read_tool_item itemdef is s =
     (let (all, is1) = getline (CHR 0x0A) [] is;
          (name, rest) = read_quoted_name all
      in Inr (s\<lparr>st_name := apply_alias itemdef name, st_count := 1,
                st_wear := word_of_int (stoi (trim rest))\<rparr>, is1))"

definition read_current_item ::
    "IItemDefManager option \<Rightarrow> istream \<Rightarrow> item_stack \<Rightarrow> (item_stack \<times> istream) res" where
  "read_current_item itemdef is s =
     (let s1 = s\<lparr>st_name := apply_alias itemdef (st_name s)\<rparr>;
          (count_str, is1) = getline (CHR '' '') [] is
      in if count_str = [] then Inr (s1\<lparr>st_count := 1\<rparr>, is1)
         else
           let s2 = s1\<lparr>st_count := word_of_int (stoi count_str)\<rparr>;
               (wear_str, is2) = getline (CHR '' '') [] is1
           in if wear_str = [] then Inr (s2, is2)
              else rbind (ItemStackMetadata_deSerialize is2 (st_meta s2)) (\<lambda>(meta, is3).
                Inr (s2\<lparr>st_wear := word_of_int (stoi wear_str), st_meta := meta\<rparr>, is3)))"

definition ItemStack_deSerialize ::
    "IItemDefManager option \<Rightarrow> istream \<Rightarrow> item_stack \<Rightarrow> (item_stack \<times> istream) res" where
  "ItemStack_deSerialize itemdef is s0 =
     rbind (deSerializeJsonStringIfNeeded is) (\<lambda>(name, is1).
       let s = (ItemStack_clear s0)\<lparr>st_name := name\<rparr>;
           (tmp, is2) = getline (CHR '' '') [] is1
       in if tmp \<noteq> [] then Inl SerializationError
          else rbind
            (if name = ''MaterialItem'' then read_material True itemdef is2 s
             else if name = ''MaterialItem2'' then read_material False itemdef is2 s
             else if name \<in> {''node'', ''NodeItem'', ''MaterialItem3'', ''craft'', ''CraftItem''}
             then read_node_item itemdef is2 s
             else if name = ''MBOItem'' then Inl SerializationError
             else if name = ''tool'' \<or> name = ''ToolItem'' then read_tool_item itemdef is2 s
             else read_current_item itemdef is2 s)
            (\<lambda>(s', is').
              Inr (if st_name s' = [] \<or> st_count s' = 0 then ItemStack_clear s'
                   else (case itemdef of
                           Some idm \<Rightarrow> if it_type (im_get idm (st_name s')) = ITEM_TOOL
                                       then s'\<lparr>st_count := 1\<rparr> else s'
                         | None \<Rightarrow> s'), is')))"

definition ItemStack_deSerialize_string ::
    "IItemDefManager option \<Rightarrow> string \<Rightarrow> item_stack \<Rightarrow> item_stack res" where
  "ItemStack_deSerialize_string itemdef str s = rbind (ItemStack_deSerialize itemdef (open_stream str) s) (\<lambda>(s', _). Inr s')"

definition ItemStack_getItemString :: "bool \<Rightarrow> item_stack \<Rightarrow> string" where
  "ItemStack_getItemString include_meta s = ItemStack_serialize include_meta s"

subsection \<open>Arithmetic of the stack operations\<close>

lemma empty_clear [simp]: "ItemStack_empty (ItemStack_clear s)" "st_count (ItemStack_clear s) = 0"
    "st_name (ItemStack_clear s) = []" "st_wear (ItemStack_clear s) = 0"
  by (simp_all add: ItemStack_empty_def ItemStack_clear_def)

lemma empty_empty_stack [simp]: "ItemStack_empty empty_stack" "st_count empty_stack = 0"
    "st_name empty_stack = []"
  by (simp_all add: ItemStack_empty_def empty_stack_def)

lemma ItemStack_remove_ok:
  "n \<le> st_count s \<Longrightarrow> ItemStack_remove n s =
    Inr (if st_count s = n then ItemStack_clear (s\<lparr>st_count := 0\<rparr>) else s\<lparr>st_count := st_count s - n\<rparr>)"
  by (auto simp: ItemStack_remove_def Let_def)

text \<open>How many items a stack counts for a property of its name and metadata.\<close>

definition amount :: "(string \<Rightarrow> bool) \<Rightarrow> item_stack \<Rightarrow> nat" where
  "amount P s = (if P (st_name s) then unat (st_count s) else 0)"

lemma amount_empty [simp]: "ItemStack_empty s \<Longrightarrow> amount P s = 0"
  by (simp add: amount_def ItemStack_empty_def)

lemma amount_clear [simp]: "amount P (ItemStack_clear s) = 0" "amount P empty_stack = 0"
  by simp_all

lemma amount_count [simp]: "amount P (s\<lparr>st_count := n\<rparr>) = (if P (st_name s) then unat n else 0)"
  by (simp add: amount_def)

lemma freeSpace_le: "unat (st_count s) + unat (ItemStack_freeSpace idm s) =
    max (unat (st_count s)) (unat (ItemStack_getStackMax idm s))"
  by (auto simp: ItemStack_freeSpace_def Let_def word_le_nat_alt unat_sub max_def)

lemma unat_add_freeSpace:
  "n \<le> ItemStack_freeSpace idm s \<Longrightarrow> unat (st_count s + n) = unat (st_count s) + unat n"
  using freeSpace_le [of s idm] unat_u16_less [of "st_count s"] unat_u16_less [of "ItemStack_getStackMax idm s"]
  by (simp add: word_le_nat_alt unat_plus_if_size word_size)

text \<open>
  Adding never fails; the leftover and the new stack hold what was there, nothing is invented
  or lost; and a non-empty stack grows at most to the maximum of its kind.
\<close>

lemma ItemStack_addItem_ok:
  obtains rest s' where "ItemStack_addItem idm newitem s = Inr (rest, s')"
    and "\<And>P. amount P rest + amount P s' = amount P newitem + amount P s"
    and "\<not> ItemStack_empty s \<Longrightarrow> unat (st_count s') \<le>
           max (unat (st_count s)) (unat (ItemStack_getStackMax idm s))"
    and "ItemStack_empty rest \<or> st_name rest = st_name newitem"
    and "ItemStack_empty s \<Longrightarrow> ItemStack_empty rest"
    and "unat (st_count rest) \<le> unat (st_count newitem)"
    and "\<not> ItemStack_empty s \<Longrightarrow> \<not> ItemStack_empty s' \<and> st_name s' = st_name s"
proof -
  let ?f = "ItemStack_freeSpace idm s"
  consider (triv) "ItemStack_empty newitem"
    | (move) "\<not> ItemStack_empty newitem" "ItemStack_empty s"
    | (differ) "\<not> ItemStack_empty newitem" "\<not> ItemStack_empty s"
        "st_name s \<noteq> st_name newitem \<or> \<not> metadata_eq (st_meta s) (st_meta newitem)"
    | (all) "\<not> ItemStack_empty newitem" "\<not> ItemStack_empty s"
        "st_name s = st_name newitem" "metadata_eq (st_meta s) (st_meta newitem)"
        "st_count newitem \<le> ?f"
    | (part) "\<not> ItemStack_empty newitem" "\<not> ItemStack_empty s"
        "st_name s = st_name newitem" "metadata_eq (st_meta s) (st_meta newitem)"
        "?f < st_count newitem"
    by fastforce
  then show ?thesis
  proof cases
    case triv
    show ?thesis by (rule that [of newitem s]) (use triv in \<open>auto simp: ItemStack_addItem_def\<close>)
  next
    case move
    show ?thesis
      by (rule that [of "ItemStack_clear newitem" newitem]) (use move in \<open>auto simp: ItemStack_addItem_def\<close>)
  next
    case differ
    show ?thesis by (rule that [of newitem s]) (use differ in \<open>auto simp: ItemStack_addItem_def\<close>)
  next
    case all
    let ?n = "st_count newitem"
    have n: "unat (st_count s + ?n) = unat (st_count s) + unat ?n"
      by (rule unat_add_freeSpace) (rule all)
    have le: "unat ?n \<le> unat ?f"
      using all(5) by (simp add: word_le_nat_alt)
    have ne: "unat ?n \<noteq> 0"
      using all(1) by (simp add: ItemStack_empty_def unat_eq_0)
    show ?thesis
    proof (rule that [of "ItemStack_clear newitem" "ItemStack_add ?n s"])
      show "ItemStack_addItem idm newitem s = Inr (ItemStack_clear newitem, ItemStack_add ?n s)"
        using all by (simp add: ItemStack_addItem_def)
      show "amount P (ItemStack_clear newitem) + amount P (ItemStack_add ?n s) =
          amount P newitem + amount P s" for P
        using n all(3) by (simp add: ItemStack_add_def amount_def)
      show "unat (st_count (ItemStack_add ?n s)) \<le>
          max (unat (st_count s)) (unat (ItemStack_getStackMax idm s))"
        using n le freeSpace_le [of s idm] by (simp add: ItemStack_add_def)
      show "\<not> ItemStack_empty (ItemStack_add ?n s) \<and> st_name (ItemStack_add ?n s) = st_name s"
        using n ne by (auto simp: ItemStack_add_def ItemStack_empty_def unat_eq_0 [symmetric])
    qed simp_all
  next
    case part
    let ?rest = "newitem\<lparr>st_count := st_count newitem - ?f\<rparr>"
    have n: "unat (st_count s + ?f) = unat (st_count s) + unat ?f"
      by (rule unat_add_freeSpace [of _ idm]) simp
    have m: "unat (st_count newitem - ?f) = unat (st_count newitem) - unat ?f"
      "unat ?f < unat (st_count newitem)"
      using part(5) by (simp_all add: unat_sub order_less_imp_le word_less_nat_alt [symmetric])
    have s: "unat (st_count s) \<noteq> 0"
      using part(2) by (simp add: ItemStack_empty_def unat_eq_0)
    show ?thesis
    proof (rule that [of ?rest "ItemStack_add ?f s"])
      show "ItemStack_addItem idm newitem s = Inr (?rest, ItemStack_add ?f s)"
        using part by (auto simp: ItemStack_addItem_def ItemStack_remove_ok Let_def)
      show "amount P ?rest + amount P (ItemStack_add ?f s) = amount P newitem + amount P s" for P
        using n m part(3) by (simp add: ItemStack_add_def amount_def)
      show "unat (st_count (ItemStack_add ?f s)) \<le>
          max (unat (st_count s)) (unat (ItemStack_getStackMax idm s))"
        using n freeSpace_le [of s idm] by (simp add: ItemStack_add_def)
      show "unat (st_count ?rest) \<le> unat (st_count newitem)"
        using m by simp
      show "\<not> ItemStack_empty (ItemStack_add ?f s) \<and> st_name (ItemStack_add ?f s) = st_name s"
        using n s by (auto simp: ItemStack_add_def ItemStack_empty_def unat_eq_0 [symmetric])
    qed (use part in simp_all)
  qed
qed

lemma ItemStack_itemFits_addItem:
  "ItemStack_itemFits idm newitem s =
    rbind (ItemStack_addItem idm newitem s) (\<lambda>(rest, _). Inr (ItemStack_empty rest, rest))"
  by (simp add: ItemStack_itemFits_def ItemStack_addItem_def Let_def rbind_assoc)

text \<open>Taking splits a stack in two of the same kind.\<close>

lemma ItemStack_takeItem_ok:
  obtains taken s' where "ItemStack_takeItem n s = Inr (taken, s')"
    and "\<And>P. amount P taken + amount P s' = amount P s"
    and "unat (st_count taken) = min (unat n) (unat (st_count s))"
    and "ItemStack_empty taken \<or> (st_name taken = st_name s \<and> st_meta taken = st_meta s \<and> st_wear taken = st_wear s)"
    and "ItemStack_empty s' \<or> (st_name s' = st_name s \<and> st_meta s' = st_meta s \<and> st_wear s' = st_wear s)"
    and "ItemStack_empty taken \<Longrightarrow> taken = empty_stack \<and> s' = s"
    and "unat (st_count s') = unat (st_count s) - unat n"
proof -
  consider (none) "n = 0 \<or> st_count s = 0" | (all) "n \<noteq> 0" "st_count s \<noteq> 0" "ucast (st_count s) \<le> n"
    | (part) "n \<noteq> 0" "st_count s \<noteq> 0" "n < ucast (st_count s)"
    by fastforce
  then show ?thesis
  proof cases
    case none
    show ?thesis
      by (rule that [of empty_stack s]) (use none in \<open>auto simp: ItemStack_takeItem_def\<close>)
  next
    case all
    then have "unat (st_count s) \<le> unat n" by (simp add: word_le_nat_alt)
    show ?thesis
      by (rule that [of s "ItemStack_clear s"])
        (use all \<open>unat (st_count s) \<le> unat n\<close> in \<open>auto simp: ItemStack_takeItem_def ItemStack_empty_def\<close>)
  next
    case part
    let ?n = "ucast n :: u16"
    have lt: "unat n < unat (st_count s)"
      using part(3) by (simp add: word_less_nat_alt)
    then have un: "unat ?n = unat n"
      using unat_u16_less [of "st_count s"] by (simp add: unat_ucast_32_16)
    then have le: "?n \<le> st_count s" "st_count s \<noteq> ?n" "?n \<noteq> 0"
      using lt part(1) by (auto simp: word_le_nat_alt unat_eq_0 [symmetric])
    have sub: "unat (st_count s - ?n) = unat (st_count s) - unat n"
      using le un by (simp add: unat_sub)
    let ?s' = "s\<lparr>st_count := st_count s - ?n\<rparr>"
    show ?thesis
    proof (rule that [of "s\<lparr>st_count := ?n\<rparr>" ?s'])
      show "ItemStack_takeItem n s = Inr (s\<lparr>st_count := ?n\<rparr>, ?s')"
        using part le by (auto simp: ItemStack_takeItem_def ItemStack_remove_ok)
      show "amount P (s\<lparr>st_count := ?n\<rparr>) + amount P ?s' = amount P s" for P
        using sub un lt by (simp add: amount_def)
    qed (use sub un lt le in \<open>auto simp: ItemStack_empty_def\<close>)
  qed
qed

lemma ItemStack_peekItem_takeItem:
  "ItemStack_takeItem n s = Inr (taken, s') \<Longrightarrow> ItemStack_peekItem n s = taken"
  by (auto simp: ItemStack_takeItem_def ItemStack_peekItem_def split: if_splits)

lemma word_of_int_add_u16:
  "0 \<le> uint w + k \<Longrightarrow> uint w + k \<le> 65535 \<Longrightarrow> uint ((w :: u16) + word_of_int k) = uint w + k"
  by (simp add: uint_word_ariths uint_word_of_int mod_simps)

subsection \<open>The tool capabilities\<close>

text \<open>Against any implementation of the item definition interface the final assertion holds.\<close>

context item_manager
begin

lemma getToolCapabilities_total:
  "wf s \<Longrightarrow> is_ok (ItemStack_getToolCapabilities (view s) hand st)"
  using hand_capabilities [of s]
  by (auto simp: ItemStack_getToolCapabilities_def Let_def split: option.splits)

lemma new_stack_known:
  assumes "wf s" and "im_isKnown (view s) (im_getAlias (view s) n)"
    and "im_getAlias (view s) (im_getAlias (view s) n) = im_getAlias (view s) n"
    and "\<not> ItemStack_empty (ItemStack_new n c w (view s))"
  shows "it_name (ItemStack_getDefinition (view s) (ItemStack_new n c w (view s))) =
    st_name (ItemStack_new n c w (view s))"
  using assms known_name [of s "im_getAlias (view s) n"]
  by (auto simp: ItemStack_new_def ItemStack_getDefinition_def Let_def)

end

subsection \<open>Round trip of the item string\<close>

definition legacy_item_names :: "string set" where
  "legacy_item_names =
     {''MaterialItem'', ''MaterialItem2'', ''node'', ''NodeItem'', ''MaterialItem3'', ''craft'',
      ''CraftItem'', ''MBOItem'', ''tool'', ''ToolItem''}"

text \<open>What a stack must satisfy to be read back as it was written.\<close>

definition storable :: "IItemDefManager option \<Rightarrow> item_stack \<Rightarrow> bool" where
  "storable itemdef s \<longleftrightarrow>
     \<not> ItemStack_empty s \<and> st_name s \<noteq> [] \<and> st_name s \<notin> legacy_item_names \<and>
     apply_alias itemdef (st_name s) = st_name s \<and>
     (case itemdef of
        None \<Rightarrow> True
      | Some idm \<Rightarrow> it_type (im_get idm (st_name s)) = ITEM_TOOL \<longrightarrow> st_count s = 1) \<and>
     item_metadata_inv (st_meta s)"

lemma stoi_unat_u16 [simp]: "stoi (nat_str (unat (w :: u16))) = uint w"
  using unat_u16_less [of w] by (simp add: stoi_nat_str)

lemma read_current_item_1:
  "read_current_item itemdef \<lparr>buf = [], good = g\<rparr> s =
    Inr (s\<lparr>st_name := apply_alias itemdef (st_name s), st_count := 1\<rparr>, \<lparr>buf = [], good = False\<rparr>)"
  by (cases g) (simp_all add: read_current_item_def)

lemma read_current_item_2:
  "read_current_item itemdef \<lparr>buf = nat_str (unat (c :: u16)), good = True\<rparr> s =
    Inr (s\<lparr>st_name := apply_alias itemdef (st_name s), st_count := c\<rparr>, \<lparr>buf = [], good = False\<rparr>)"
  by (simp add: read_current_item_def)

lemma read_current_item_3:
  "\<exists>is'. read_current_item itemdef
      \<lparr>buf = nat_str (unat (c :: u16)) @ CHR '' '' # nat_str (unat (w :: u16)), good = True\<rparr> s =
    Inr (s\<lparr>st_name := apply_alias itemdef (st_name s), st_count := c, st_wear := w,
           st_meta := updateWearBarParams (updateToolCapabilities ((st_meta s)\<lparr>stringvars := []\<rparr>))\<rparr>, is')"
  by (simp add: read_current_item_def ItemStackMetadata_deSerialize_def deSerializeJsonStringIfNeeded_def)

lemma read_current_item_4:
  assumes "item_metadata_inv m"
  shows "\<exists>m' is'. read_current_item itemdef
      \<lparr>buf = nat_str (unat (c :: u16)) @ CHR '' '' # nat_str (unat (w :: u16)) @
         CHR '' '' # ItemStackMetadata_serialize m, good = True\<rparr> s =
    Inr (s\<lparr>st_name := apply_alias itemdef (st_name s), st_count := c, st_wear := w, st_meta := m'\<rparr>, is')
      \<and> stringvars m' = stringvars m"
  using ItemStackMetadata_roundtrip [OF assms, of "st_meta s"]
  by (auto simp: read_current_item_def)

lemma ItemStack_deSerialize_current:
  assumes name: "deSerializeJsonStringIfNeeded is = Inr (st_name s, is1)"
    and skip: "getline (CHR '' '') [] is1 = ([], is2)"
    and body: "read_current_item itemdef is2 ((ItemStack_clear s0)\<lparr>st_name := st_name s\<rparr>) = Inr (s', is')"
    and s': "st_name s' = st_name s" "st_count s' = st_count s"
    and s: "storable itemdef s"
  shows "ItemStack_deSerialize itemdef is s0 = Inr (s', is')"
proof -
  have "st_name s \<notin> legacy_item_names" "st_name s \<noteq> []" "st_count s \<noteq> 0"
    using s by (auto simp: storable_def ItemStack_empty_def)
  moreover have "s'\<lparr>st_count := 1\<rparr> = s'" if "st_count s = 1"
    using that s'(2) by simp
  ultimately show ?thesis
    using name skip body s s'
    by (auto simp: ItemStack_deSerialize_def legacy_item_names_def storable_def split: option.splits)
qed

lemma storable_simps:
  assumes "storable itemdef s"
  shows "\<not> ItemStack_empty s" "st_name s \<noteq> []" "apply_alias itemdef (st_name s) = st_name s"
    "item_metadata_inv (st_meta s)"
  using assms by (simp_all add: storable_def)

lemma item_stack_eq_iff:
  "(s :: item_stack) = t \<longleftrightarrow> st_name s = st_name t \<and> st_count s = st_count t \<and>
     st_wear s = st_wear t \<and> st_meta s = st_meta t"
  by (cases s; cases t) auto

lemma ItemStack_reads_back:
  assumes "storable itemdef s"
  shows "\<exists>s' is'. ItemStack_deSerialize itemdef (open_stream (ItemStack_serialize True s)) s0 = Inr (s', is')
    \<and> st_name s' = st_name s \<and> st_count s' = st_count s \<and> st_wear s' = st_wear s
    \<and> stringvars (st_meta s') = stringvars (st_meta s)"
proof -
  note [simp] = storable_simps [OF assms] open_stream_def
  let ?name = "serializeJsonStringIfNeeded (st_name s)"
  let ?c = "nat_str (unat (st_count s))" and ?w = "nat_str (unat (st_wear s))"
  let ?base = "(ItemStack_clear s0)\<lparr>st_name := st_name s\<rparr>"
  have tail: ?thesis
    if ser: "ItemStack_serialize True s = ?name @ CHR '' '' # body"
      and rd: "read_current_item itemdef \<lparr>buf = body, good = True\<rparr> ?base = Inr (s', is')"
      and s': "st_name s' = st_name s" "st_count s' = st_count s" "st_wear s' = st_wear s"
        "stringvars (st_meta s') = stringvars (st_meta s)" for body s' is'
    using ItemStack_deSerialize_current [OF deSerializeJsonStringIfNeeded_append
        getline_found [where l = "[]", simplified] rd s'(1,2) assms] ser s' by simp
  consider (p4) "stringvars (st_meta s) \<noteq> []"
    | (p3) "stringvars (st_meta s) = []" "st_wear s \<noteq> 0"
    | (p2) "stringvars (st_meta s) = []" "st_wear s = 0" "st_count s \<noteq> 1"
    | (p1) "stringvars (st_meta s) = []" "st_wear s = 0" "st_count s = 1"
    by blast
  then show ?thesis
  proof cases
    case p4
    obtain m' is' where rd: "read_current_item itemdef
        \<lparr>buf = ?c @ CHR '' '' # ?w @ CHR '' '' # ItemStackMetadata_serialize (st_meta s), good = True\<rparr> ?base =
        Inr (?base\<lparr>st_name := st_name s, st_count := st_count s, st_wear := st_wear s, st_meta := m'\<rparr>, is')"
      and m': "stringvars m' = stringvars (st_meta s)"
      using read_current_item_4 [of "st_meta s" itemdef "st_count s" "st_wear s" ?base] by auto
    show ?thesis
      by (rule tail [OF _ rd]) (use p4 m' in \<open>simp_all add: ItemStack_serialize_def SimpleMetadata_empty_def\<close>)
  next
    case p3
    obtain is' where rd: "read_current_item itemdef
        \<lparr>buf = ?c @ CHR '' '' # ?w, good = True\<rparr> ?base =
        Inr (?base\<lparr>st_name := st_name s, st_count := st_count s, st_wear := st_wear s,
           st_meta := updateWearBarParams (updateToolCapabilities ((st_meta ?base)\<lparr>stringvars := []\<rparr>))\<rparr>, is')"
      using read_current_item_3 [of itemdef "st_count s" "st_wear s" ?base] by auto
    show ?thesis
      by (rule tail [OF _ rd]) (use p3 in \<open>simp_all add: ItemStack_serialize_def SimpleMetadata_empty_def\<close>)
  next
    case p2
    show ?thesis
      by (rule tail [OF _ read_current_item_2])
        (use p2 in \<open>auto simp: ItemStack_serialize_def SimpleMetadata_empty_def ItemStack_clear_def\<close>)
  next
    case p1
    then have ser: "ItemStack_serialize True s = ?name"
      by (simp add: ItemStack_serialize_def SimpleMetadata_empty_def)
    have "getline (CHR '' '') [] \<lparr>buf = [], good = g\<rparr> = ([], \<lparr>buf = [], good = False\<rparr>)" for g
      by (cases g) simp_all
    from ItemStack_deSerialize_current [OF deSerializeJsonStringIfNeeded_end this read_current_item_1]
    show ?thesis
      using p1 assms by (simp add: ser ItemStack_clear_def)
  qed
qed

lemma ItemStack_reads_back_eq:
  assumes "storable itemdef s"
  obtains s' is' where "ItemStack_deSerialize itemdef (open_stream (ItemStack_serialize True s)) s0 = Inr (s', is')"
    and "ItemStack_eq s' s"
proof -
  obtain s' is' where r: "ItemStack_deSerialize itemdef (open_stream (ItemStack_serialize True s)) s0 = Inr (s', is')"
    and e: "st_name s' = st_name s" "st_count s' = st_count s" "st_wear s' = st_wear s"
      "stringvars (st_meta s') = stringvars (st_meta s)"
    using ItemStack_reads_back [OF assms, of s0] by blast
  have "metadata_wf (st_meta s)"
    using assms by (simp add: storable_def item_metadata_inv_def)
  then have "metadata_eq (st_meta s') (st_meta s)"
    using e(4) by (subst metadata_eq_iff_map) (auto simp: metadata_wf_def)
  with e show ?thesis
    by (intro that [OF r]) (simp add: ItemStack_eq_def)
qed

subsection \<open>Properties\<close>

text \<open>
  C15: a stack that is not empty, whose name is no legacy keyword and no alias, and which is a
  single item when it is a tool, is read back from its item string as an equal stack, with
  any count, wear and strings in its metadata. (The exception that the JSON parser throws for
  tool capabilities that are no JSON is left out of the model, see \<open>Metadata\<close>.)
\<close>

theorem item_string_roundtrip:
  assumes "storable itemdef s"
  shows "\<exists>s' is'. ItemStack_deSerialize itemdef (open_stream (ItemStack_getItemString True s)) s0 = Inr (s', is') \<and>
    ItemStack_eq s' s"
  by (rule ItemStack_reads_back_eq [OF assms, of s0]) (auto simp: ItemStack_getItemString_def)

theorem item_string_roundtrip_witness:
  "\<exists>s' is'. ItemStack_deSerialize None (open_stream (ItemStack_getItemString True
      \<lparr>st_name = ''default:pick'', st_count = 1, st_wear = 300, st_meta = new_metadata\<rparr>)) empty_stack = Inr (s', is') \<and>
    ItemStack_eq s' \<lparr>st_name = ''default:pick'', st_count = 1, st_wear = 300, st_meta = new_metadata\<rparr>"
  by (rule item_string_roundtrip)
    (simp add: storable_def ItemStack_empty_def legacy_item_names_def apply_alias_def item_metadata_new)

text \<open>
  C99: Adding a stack to another never fails and never loses or makes items: the leftover and
  the result hold together what the two stacks held, per name; the leftover is of the added
  kind and no larger; a stack that held something keeps its name and does not grow beyond its
  stack limit; and \<open>itemFits\<close> predicts whether there is a leftover.
\<close>

theorem stack_addItem:
  "\<exists>rest s'. ItemStack_addItem idm newitem s = Inr (rest, s') \<and>
    (\<forall>P. amount P rest + amount P s' = amount P newitem + amount P s) \<and>
    unat (st_count rest) \<le> unat (st_count newitem) \<and>
    (ItemStack_empty s \<or> (\<not> ItemStack_empty s' \<and> st_name s' = st_name s \<and>
      unat (st_count s') \<le> max (unat (st_count s)) (unat (ItemStack_getStackMax idm s)))) \<and>
    ItemStack_itemFits idm newitem s = Inr (ItemStack_empty rest, rest)"
  by (rule ItemStack_addItem_ok [of idm newitem s])
    (auto simp: ItemStack_itemFits_addItem)

text \<open>
  Taking items splits the stack: \<open>takeItem\<close> never fails its assertion, takes the asked
  count or all there is, keeps what remains of the same name, wear and metadata, and
  \<open>peekItem\<close> shows what \<open>takeItem\<close> would take.
\<close>

theorem stack_takeItem:
  "\<exists>taken s'. ItemStack_takeItem n s = Inr (taken, s') \<and> ItemStack_peekItem n s = taken \<and>
    unat (st_count taken) = min (unat n) (unat (st_count s)) \<and>
    unat (st_count s') = unat (st_count s) - unat n \<and>
    (\<forall>t \<in> {taken, s'}. ItemStack_empty t \<or>
       st_name t = st_name s \<and> st_meta t = st_meta s \<and> st_wear t = st_wear s)"
  by (rule ItemStack_takeItem_ok [of n s]) (auto dest: ItemStack_peekItem_takeItem)

theorem stack_takeItem_witness:
  "\<exists>taken s'. ItemStack_takeItem 4 (empty_stack\<lparr>st_name := ''s'', st_count := 10\<rparr>) = Inr (taken, s') \<and>
    unat (st_count taken) = 4 \<and> unat (st_count s') = 6"
  using stack_takeItem [of 4 "empty_stack\<lparr>st_name := ''s'', st_count := 10\<rparr>"] by auto

text \<open>
  \<open>addWear\<close> reports whether the item is a tool; a tool whose wear would exceed 65535 is
  destroyed, any other has exactly the sum as its wear, or 0 when the sum is negative, with
  no 16-bit wrap-around; nothing else of the stack changes, and no other item is touched.
\<close>

theorem stack_addWear:
  "let (worn, s') = ItemStack_addWear wear idm s; w = uint (st_wear s) + wear in
     (worn \<longleftrightarrow> it_type (im_get idm (st_name s)) = ITEM_TOOL) \<and>
     (if \<not> worn then s' = s
      else if w > 65535 then ItemStack_empty s'
      else uint (st_wear s') = max 0 w \<and> s'\<lparr>st_wear := st_wear s\<rparr> = s)"
  using word_of_int_add_u16 [of "st_wear s" wear]
  by (auto simp: ItemStack_addWear_def ItemStack_getDefinition_def)

end
