(* ===== verification/InventoryList.thy ===== *)
theory InventoryList
  imports ItemStack
begin

section \<open>Inventory lists\<close>

text \<open>
  \<^verbatim>\<open>class InventoryList\<close> of \<^verbatim>\<open>src/inventory.h\<close> and \<^verbatim>\<open>src/inventory.cpp\<close>. The item definition
  manager, a member pointer of the class, is a parameter of the operations. The operations
  that work on two lists, which may be the same object, take a store of lists and two
  references. An exception of \<open>deSerialize\<close> leaves a partly overwritten list behind in the
  code; the model returns the exception alone.
\<close>

record inv_list =
  il_items :: "item_stack list"
  il_name :: string
  il_size :: u32
  il_width :: u32
  il_dirty :: bool
  il_locks :: int

definition il_clearItems :: "inv_list \<Rightarrow> inv_list" where
  "il_clearItems l = l\<lparr>il_items := replicate (unat (il_size l)) empty_stack, il_dirty := True\<rparr>"

definition il_new :: "string \<Rightarrow> u32 \<Rightarrow> inv_list" where
  "il_new name sz =
     il_clearItems \<lparr>il_items = [], il_name = name, il_size = sz, il_width = 0, il_dirty = True, il_locks = 0\<rparr>"

definition il_checkResizeLock :: "inv_list \<Rightarrow> unit res" where
  "il_checkResizeLock l = guard BaseException (il_locks l = 0)"

definition il_resizeLock :: "inv_list \<Rightarrow> inv_list" where
  "il_resizeLock l = l\<lparr>il_locks := il_locks l + 1\<rparr>"

definition il_resizeUnlock :: "inv_list \<Rightarrow> inv_list" where
  "il_resizeUnlock l = l\<lparr>il_locks := il_locks l - 1\<rparr>"

definition il_getSize :: "inv_list \<Rightarrow> u32" where
  "il_getSize l = of_nat (length (il_items l))"

definition il_setSize :: "u32 \<Rightarrow> inv_list \<Rightarrow> inv_list res" where
  "il_setSize newsize l =
     (if unat newsize = length (il_items l) then Inr l
      else rbind (if unat newsize < length (il_items l) then il_checkResizeLock l else Inr ()) (\<lambda>_.
        Inr (l\<lparr>il_items := take (unat newsize) (il_items l) @
                           replicate (unat newsize - length (il_items l)) empty_stack,
               il_size := newsize, il_dirty := True\<rparr>)))"

definition il_setWidth :: "u32 \<Rightarrow> inv_list \<Rightarrow> inv_list" where
  "il_setWidth newwidth l = l\<lparr>il_width := newwidth, il_dirty := True\<rparr>"

definition il_setName :: "string \<Rightarrow> inv_list \<Rightarrow> inv_list" where
  "il_setName name l = l\<lparr>il_name := name, il_dirty := True\<rparr>"

subsection \<open>Text format\<close>

abbreviation newline :: char where "newline \<equiv> CHR 0x0A"

definition il_serialize_item :: "item_stack \<Rightarrow> string" where
  "il_serialize_item item =
     (if ItemStack_empty item then ''Empty'' else ''Item '' @ ItemStack_serialize True item) @ [newline]"

definition il_serialize :: "inv_list \<Rightarrow> string" where
  "il_serialize l =
     ''Width '' @ nat_str (unat (il_width l)) @ [newline] @
     concat (map il_serialize_item (il_items l)) @
     ''EndInventoryList'' @ [newline]"

definition clear_from :: "nat \<Rightarrow> item_stack list \<Rightarrow> item_stack list" where
  "clear_from i items = take i items @ map ItemStack_clear (drop i items)"

lemma getline_decreases:
  "good is \<Longrightarrow> (line, is') = getline d old is \<Longrightarrow>
    (good is' \<longrightarrow> length (buf is') < length (buf is)) \<and>
    (\<not> good is' \<longrightarrow> length (buf is') < Suc (length (buf is)))"
  using getline_shrinks [of "is" d old] by (auto simp: getline_def split: if_splits)

text \<open>
  The reading loop. \<open>getSize() - 1\<close> is 32-bit unsigned, so it is the largest number for an
  empty list: the bound test then passes and the write is outside the vector.
\<close>

function il_read :: "IItemDefManager option \<Rightarrow> istream \<Rightarrow> u32 \<Rightarrow> inv_list \<Rightarrow> (inv_list \<times> istream) res" where
  "il_read itemdef is item_i l =
     (if \<not> good is then Inl SerializationError
      else
        let (line, is1) = getline newline [] is;
            (name, iss) = getline (CHR '' '') [] (open_stream line)
        in
        if name = ''EndInventoryList'' \<or> name = ''end''
        then Inr (l\<lparr>il_items := clear_from (unat item_i) (il_items l)\<rparr>, is1)
        else if name = ''Width'' then
          (case extract_unsigned 4294967295 iss of
             (v, failed, _) \<Rightarrow>
               if failed then Inl SerializationError
               else il_read itemdef is1 item_i
                      (case v of None \<Rightarrow> l | Some n \<Rightarrow> l\<lparr>il_width := of_nat n\<rparr>))
        else if name = ''Item'' then
          (if item_i > il_getSize l - 1 then Inl SerializationError
           else case ItemStack_deSerialize itemdef iss empty_stack of
                  Inl e \<Rightarrow> Inl e
                | Inr (item, _) \<Rightarrow>
                    if unat item_i < length (il_items l)
                    then il_read itemdef is1 (item_i + 1)
                           (l\<lparr>il_items := (il_items l)[unat item_i := item]\<rparr>)
                    else Inl OutOfBounds)
        else if name = ''Empty'' then
          (if item_i > il_getSize l - 1 then Inl SerializationError
           else if unat item_i < length (il_items l)
           then il_read itemdef is1 (item_i + 1)
                  (l\<lparr>il_items := (il_items l)[unat item_i := ItemStack_clear (il_items l ! unat item_i)]\<rparr>)
           else Inl OutOfBounds)
        else if name = ''Keep'' then il_read itemdef is1 (item_i + 1) l
        else il_read itemdef is1 item_i l)"
  by pat_completeness auto
termination
  by (relation "measure (\<lambda>(_, is, _). length (buf is) + (if good is then 1 else 0))")
    (simp_all, (erule (1) getline_decreases)+)

declare il_read.simps [simp del]

definition il_deSerialize :: "IItemDefManager option \<Rightarrow> istream \<Rightarrow> inv_list \<Rightarrow> (inv_list \<times> istream) res" where
  "il_deSerialize itemdef is l = il_read itemdef is 0 (l\<lparr>il_dirty := True, il_width := 0\<rparr>)"

subsection \<open>Copying and comparing\<close>

definition il_assign :: "inv_list \<Rightarrow> inv_list \<Rightarrow> inv_list res" where
  "il_assign other l =
     rbind (il_checkResizeLock l) (\<lambda>_.
       Inr (l\<lparr>il_items := il_items other, il_size := il_size other, il_width := il_width other,
              il_name := il_name other\<rparr>))"

text \<open>The copy constructor assigns to a list with no locks, marked as modified.\<close>

definition il_copy :: "inv_list \<Rightarrow> inv_list" where
  "il_copy other = other\<lparr>il_dirty := True, il_locks := 0\<rparr>"

fun items_eq :: "item_stack list \<Rightarrow> item_stack list \<Rightarrow> bool res" where
  "items_eq [] _ = Inr True"
| "items_eq (x # xs) [] = Inl OutOfBounds"
| "items_eq (x # xs) (y # ys) = (if \<not> ItemStack_eq x y then Inr False else items_eq xs ys)"

definition il_eq :: "inv_list \<Rightarrow> inv_list \<Rightarrow> bool res" where
  "il_eq l other =
     (if il_size l \<noteq> il_size other then Inr False
      else if il_width l \<noteq> il_width other then Inr False
      else if il_name l \<noteq> il_name other then Inr False
      else items_eq (il_items l) (il_items other))"

definition il_getUsedSlots :: "inv_list \<Rightarrow> u32" where
  "il_getUsedSlots l = of_nat (length (filter (\<lambda>s. \<not> ItemStack_empty s) (il_items l)))"

subsection \<open>Slots\<close>

text \<open>
  The assertion of \<open>getItem\<close> is not in a release build; without it the access is out of bounds.
\<close>

definition il_getItem :: "nat \<Rightarrow> inv_list \<Rightarrow> item_stack res" where
  "il_getItem i l =
     (if i \<ge> unat (il_size l) then Inl OutOfBounds
      else if i < length (il_items l) then Inr (il_items l ! i)
      else Inl OutOfBounds)"

text \<open>The pair of the old item and the list.\<close>

definition il_changeItem :: "nat \<Rightarrow> item_stack \<Rightarrow> inv_list \<Rightarrow> item_stack \<times> inv_list" where
  "il_changeItem i newitem l =
     (if i \<ge> length (il_items l) then (newitem, l)
      else
        let olditem = il_items l ! i
        in (olditem,
            if \<not> ItemStack_eq olditem newitem
            then l\<lparr>il_items := (il_items l)[i := newitem], il_dirty := True\<rparr> else l))"

definition il_deleteItem :: "nat \<Rightarrow> inv_list \<Rightarrow> inv_list" where
  "il_deleteItem i l =
     (if i \<ge> length (il_items l) then l
      else l\<lparr>il_items := (il_items l)[i := ItemStack_clear (il_items l ! i)], il_dirty := True\<rparr>)"

text \<open>Adding to one slot; the pair of the leftover and the list.\<close>

definition il_addItem_at ::
    "IItemDefManager \<Rightarrow> nat \<Rightarrow> item_stack \<Rightarrow> inv_list \<Rightarrow> (item_stack \<times> inv_list) res" where
  "il_addItem_at idm i newitem l =
     (if i \<ge> length (il_items l) then Inr (newitem, l)
      else rbind (ItemStack_addItem idm newitem (il_items l ! i)) (\<lambda>(leftover, s').
        let l' = l\<lparr>il_items := (il_items l)[i := s']\<rparr>
        in Inr (leftover, if \<not> ItemStack_eq leftover newitem then l'\<lparr>il_dirty := True\<rparr> else l')))"

text \<open>
  The two passes of \<open>addItem\<close> over the slots \<open>i\<close>, \<open>i + 1\<close>, ...: \<open>fill_empty\<close> tells which
  slots the pass considers.
\<close>

function il_add_pass ::
    "IItemDefManager \<Rightarrow> bool \<Rightarrow> nat \<Rightarrow> item_stack \<Rightarrow> inv_list \<Rightarrow> (item_stack \<times> inv_list) res" where
  "il_add_pass idm fill_empty i newitem l =
     (if i \<ge> length (il_items l) then Inr (newitem, l)
      else if ItemStack_empty (il_items l ! i) \<noteq> fill_empty
      then il_add_pass idm fill_empty (i + 1) newitem l
      else case il_addItem_at idm i newitem l of
             Inl e \<Rightarrow> Inl e
           | Inr (newitem', l') \<Rightarrow>
               if ItemStack_empty newitem' then Inr (newitem', l')
               else il_add_pass idm fill_empty (i + 1) newitem' l')"
  by pat_completeness auto
termination
  by (relation "measure (\<lambda>(_, _, i, _, l). length (il_items l) - i)")
    (auto simp: il_addItem_at_def Let_def split: if_splits)

declare il_add_pass.simps [simp del]

definition il_addItem :: "IItemDefManager \<Rightarrow> item_stack \<Rightarrow> inv_list \<Rightarrow> (item_stack \<times> inv_list) res" where
  "il_addItem idm newitem l =
     (if ItemStack_empty newitem then Inr (newitem, l)
      else rbind (il_add_pass idm False 0 newitem l) (\<lambda>(newitem', l').
        if ItemStack_empty newitem' then Inr (newitem', l')
        else il_add_pass idm True 0 newitem' l'))"

definition il_itemFits ::
    "IItemDefManager \<Rightarrow> nat \<Rightarrow> item_stack \<Rightarrow> inv_list \<Rightarrow> (bool \<times> item_stack) res" where
  "il_itemFits idm i newitem l =
     (if i \<ge> length (il_items l) then Inr (False, newitem)
      else ItemStack_itemFits idm newitem (il_items l ! i))"

fun room_loop :: "IItemDefManager \<Rightarrow> item_stack \<Rightarrow> item_stack list \<Rightarrow> bool res" where
  "room_loop idm item [] = Inr False"
| "room_loop idm item (s # ss) =
     rbind (ItemStack_itemFits idm item s) (\<lambda>(fits, leftover).
       if fits then Inr True else room_loop idm leftover ss)"

definition il_roomForItem :: "IItemDefManager \<Rightarrow> item_stack \<Rightarrow> inv_list \<Rightarrow> bool res" where
  "il_roomForItem idm item l = room_loop idm item (il_items l)"

definition matches :: "bool \<Rightarrow> item_stack \<Rightarrow> item_stack \<Rightarrow> bool" where
  "matches match_meta item s \<longleftrightarrow>
     st_name s = st_name item \<and> (\<not> match_meta \<or> metadata_eq (st_meta s) (st_meta item))"

fun contains_loop :: "bool \<Rightarrow> item_stack \<Rightarrow> u32 \<Rightarrow> item_stack list \<Rightarrow> bool" where
  "contains_loop match_meta item count [] = False"
| "contains_loop match_meta item count (s # ss) =
     (if count = 0 then False
      else if matches match_meta item s then
        (if ucast (st_count s) \<ge> count then True
         else contains_loop match_meta item (count - ucast (st_count s)) ss)
      else contains_loop match_meta item count ss)"

definition il_containsItem :: "item_stack \<Rightarrow> bool \<Rightarrow> inv_list \<Rightarrow> bool" where
  "il_containsItem item match_meta l \<longleftrightarrow>
     st_count item = 0 \<or> contains_loop match_meta item (ucast (st_count item)) (rev (il_items l))"

text \<open>
  \<open>remove_loop\<close> walks the reversed list; the result is what was removed and the walked slots.
  The leftover of \<open>addItem\<close> is counted as removed too: the stack may be oversized.
\<close>

fun remove_loop ::
    "IItemDefManager \<Rightarrow> bool \<Rightarrow> item_stack \<Rightarrow> item_stack \<Rightarrow> item_stack list \<Rightarrow>
     (item_stack \<times> item_stack list) res" where
  "remove_loop idm match_meta item removed [] = Inr (removed, [])"
| "remove_loop idm match_meta item removed (s # ss) =
     (if matches match_meta item s then
        rbind (ItemStack_takeItem (word_of_int (uint (st_count item) - uint (st_count removed))) s) (\<lambda>(taken, s').
        rbind (ItemStack_addItem idm taken removed) (\<lambda>(leftover, removed1).
          let removed2 = removed1\<lparr>st_count := st_count removed1 + st_count leftover\<rparr>
          in if st_count removed2 = st_count item then Inr (removed2, s' # ss)
             else rbind (remove_loop idm match_meta item removed2 ss) (\<lambda>(r, ss').
                    Inr (r, s' # ss'))))
      else rbind (remove_loop idm match_meta item removed ss) (\<lambda>(r, ss'). Inr (r, s # ss')))"

definition il_removeItem ::
    "IItemDefManager \<Rightarrow> item_stack \<Rightarrow> bool \<Rightarrow> inv_list \<Rightarrow> (item_stack \<times> inv_list) res" where
  "il_removeItem idm item match_meta l =
     rbind (remove_loop idm match_meta item empty_stack (rev (il_items l))) (\<lambda>(removed, items').
       let l' = l\<lparr>il_items := rev items'\<rparr>
       in Inr (removed, if \<not> ItemStack_empty removed then l'\<lparr>il_dirty := True\<rparr> else l'))"

definition il_takeItem :: "nat \<Rightarrow> u32 \<Rightarrow> inv_list \<Rightarrow> (item_stack \<times> inv_list) res" where
  "il_takeItem i takecount l =
     (if i \<ge> length (il_items l) then Inr (empty_stack, l)
      else rbind (ItemStack_takeItem takecount (il_items l ! i)) (\<lambda>(taken, s').
        let l' = l\<lparr>il_items := (il_items l)[i := s']\<rparr>
        in Inr (taken, if \<not> ItemStack_empty taken then l'\<lparr>il_dirty := True\<rparr> else l')))"

subsection \<open>Moving between lists\<close>

type_synonym 'r list_store = "'r \<Rightarrow> inv_list"

definition take_or_change :: "nat \<Rightarrow> u32 \<Rightarrow> inv_list \<Rightarrow> (item_stack \<times> inv_list) res" where
  "take_or_change i count l =
     (if count = 0 then Inr (il_changeItem i empty_stack l) else il_takeItem i count l)"

definition il_moveItemSomewhere ::
    "IItemDefManager \<Rightarrow> 'r \<Rightarrow> nat \<Rightarrow> 'r \<Rightarrow> u32 \<Rightarrow> 'r list_store \<Rightarrow> 'r list_store res" where
  "il_moveItemSomewhere idm src i dest count h =
     rbind (take_or_change i count (h src)) (\<lambda>(item1, l1).
       let h1 = h(src := l1)
       in if ItemStack_empty item1 then Inr h1
          else rbind (il_addItem idm item1 (h1 dest)) (\<lambda>(leftover, l2).
            let h2 = h1(dest := l2)
            in if \<not> ItemStack_empty leftover
               then rbind (il_getItem i (h2 src)) (\<lambda>cur.
                      Inr (h2(src := snd (il_changeItem i (ItemStack_add (st_count cur) leftover) (h2 src)))))
               else Inr h2))"

text \<open>The result is the moved stack, whether the items were swapped, and the store.\<close>

definition il_moveItem ::
    "IItemDefManager \<Rightarrow> 'r \<Rightarrow> nat \<Rightarrow> 'r \<Rightarrow> nat \<Rightarrow> u32 \<Rightarrow> bool \<Rightarrow> 'r list_store \<Rightarrow>
     (item_stack \<times> bool \<times> 'r list_store) res" where
  "il_moveItem idm src i dest dest_i count swap_if_needed h =
     (if src = dest \<and> i = dest_i then Inr (empty_stack, False, h)
      else rbind (take_or_change i count (h src)) (\<lambda>(moved, l1).
        let h1 = h(src := l1)
        in rbind (il_addItem_at idm dest_i moved (h1 dest)) (\<lambda>(leftover, l2).
          let h2 = h1(dest := l2)
          in if \<not> ItemStack_empty leftover then
               rbind (ItemStack_remove (st_count leftover) moved) (\<lambda>moved1.
               rbind (il_getItem i (h2 src)) (\<lambda>cur.
                 let h3 = h2(src := snd (il_changeItem i (ItemStack_add (st_count cur) leftover) (h2 src)))
                 in if ItemStack_empty moved1 \<and> swap_if_needed then
                      let (moved2, l4) = il_changeItem i empty_stack (h3 src);
                          h4 = h3(src := l4);
                          (item2, l5) = il_changeItem dest_i moved2 (h4 dest);
                          h5 = h4(dest := l5);
                          h6 = h5(src := snd (il_changeItem i item2 (h5 src)))
                      in Inr (moved2, True, h6)
                    else Inr (moved1, False, h3)))
             else Inr (moved, False, h2))))"

subsection \<open>Counting the items of a list\<close>

definition il_total :: "(string \<Rightarrow> bool) \<Rightarrow> inv_list \<Rightarrow> nat" where
  "il_total P l = sum_list (map (amount P) (il_items l))"

text \<open>\<open>m_size\<close> is always the length of the vector.\<close>

definition il_wf :: "inv_list \<Rightarrow> bool" where
  "il_wf l \<longleftrightarrow> unat (il_size l) = length (il_items l)"

definition same_shape :: "inv_list \<Rightarrow> inv_list \<Rightarrow> bool" where
  "same_shape l l' \<longleftrightarrow>
     length (il_items l') = length (il_items l) \<and> il_size l' = il_size l \<and> il_name l' = il_name l \<and>
     il_width l' = il_width l \<and> il_locks l' = il_locks l"

lemma same_shape_refl [simp]: "same_shape l l"
  by (simp add: same_shape_def)

lemma same_shape_trans: "same_shape l l1 \<Longrightarrow> same_shape l1 l2 \<Longrightarrow> same_shape l l2"
  by (simp add: same_shape_def)

lemma same_shape_update [simp]:
  "same_shape l (l\<lparr>il_items := (il_items l)[i := s]\<rparr>)"
  "same_shape l (l\<lparr>il_items := (il_items l)[i := s], il_dirty := d\<rparr>)"
  by (simp_all add: same_shape_def)

lemma same_shape_length: "same_shape l l' \<Longrightarrow> length (il_items l') = length (il_items l)"
  by (simp add: same_shape_def)

lemma same_shape_wf: "same_shape l l' \<Longrightarrow> il_wf l' = il_wf l"
  by (simp add: same_shape_def il_wf_def)

lemma total_update:
  "i < length (il_items l) \<Longrightarrow>
    il_total P (l\<lparr>il_items := (il_items l)[i := s]\<rparr>) + amount P (il_items l ! i) = il_total P l + amount P s"
  unfolding il_total_def by (simp add: sum_list_update_nat del: map_update)

lemma total_dirty [simp]: "il_total P (l\<lparr>il_dirty := d\<rparr>) = il_total P l"
  by (simp add: il_total_def)

lemma total_update_dirty [simp]:
  "il_total P (l\<lparr>il_items := xs, il_dirty := d\<rparr>) = il_total P (l\<lparr>il_items := xs\<rparr>)"
  by (simp add: il_total_def)

lemma ItemStack_eq_amount: "ItemStack_eq a b \<Longrightarrow> amount P a = amount P b"
  by (simp add: ItemStack_eq_def amount_def)

lemma il_changeItem_ok:
  assumes "il_changeItem i newitem l = (old, l')"
  shows "amount P old + il_total P l' = amount P newitem + il_total P l"
    and "same_shape l l'"
    and "j \<noteq> i \<Longrightarrow> il_items l' ! j = il_items l ! j"
    and "i < length (il_items l) \<Longrightarrow> old = il_items l ! i \<and> amount P (il_items l' ! i) = amount P newitem"
  using assms total_update [of i l P newitem] ItemStack_eq_amount [of "il_items l ! i" newitem P]
  by (auto simp: il_changeItem_def Let_def split: if_splits)

lemma il_takeItem_ok:
  obtains taken l' where "il_takeItem i n l = Inr (taken, l')"
    and "\<And>P. amount P taken + il_total P l' = il_total P l"
    and "same_shape l l'"
    and "\<And>j. j \<noteq> i \<Longrightarrow> il_items l' ! j = il_items l ! j"
    and "i < length (il_items l) \<Longrightarrow>
          unat (st_count (il_items l' ! i)) + unat (st_count taken) = unat (st_count (il_items l ! i)) \<and>
          (ItemStack_empty taken \<or> ItemStack_empty (il_items l' ! i) \<or>
           st_name taken = st_name (il_items l' ! i))"
    and "\<not> ItemStack_empty taken \<Longrightarrow> i < length (il_items l) \<and> st_name taken = st_name (il_items l ! i)"
proof (cases "i < length (il_items l)")
  case False
  show ?thesis
    by (rule that [of empty_stack l]) (use False in \<open>auto simp: il_takeItem_def\<close>)
next
  case True
  obtain taken s' where t: "ItemStack_takeItem n (il_items l ! i) = Inr (taken, s')"
    and a: "\<And>P. amount P taken + amount P s' = amount P (il_items l ! i)"
    and names: "ItemStack_empty taken \<or> st_name taken = st_name (il_items l ! i)"
      "ItemStack_empty s' \<or> st_name s' = st_name (il_items l ! i)"
    by (rule ItemStack_takeItem_ok [of n "il_items l ! i"]) blast
  let ?l = "l\<lparr>il_items := (il_items l)[i := s']\<rparr>"
  let ?l' = "if \<not> ItemStack_empty taken then ?l\<lparr>il_dirty := True\<rparr> else ?l"
  show ?thesis
  proof (rule that [of taken ?l'])
    show "il_takeItem i n l = Inr (taken, ?l')"
      using True by (simp add: il_takeItem_def t)
    show "amount P taken + il_total P ?l' = il_total P l" for P
      using total_update [OF True, of P s'] a [of P] by auto
    show "unat (st_count (il_items ?l' ! i)) + unat (st_count taken) = unat (st_count (il_items l ! i)) \<and>
        (ItemStack_empty taken \<or> ItemStack_empty (il_items ?l' ! i) \<or> st_name taken = st_name (il_items ?l' ! i))"
      using True names a [of "\<lambda>_. True"] by (auto simp: amount_def)
  qed (use True names in auto)
qed

subsection \<open>Adding to a list\<close>

text \<open>What adding to a slot, a pass over the slots, or the list establishes.\<close>

definition added :: "item_stack \<Rightarrow> inv_list \<Rightarrow> item_stack \<Rightarrow> inv_list \<Rightarrow> bool" where
  "added newitem l rest l' \<longleftrightarrow>
     (\<forall>P. amount P rest + il_total P l' = amount P newitem + il_total P l) \<and>
     same_shape l l' \<and>
     (ItemStack_empty rest \<or> st_name rest = st_name newitem) \<and>
     unat (st_count rest) \<le> unat (st_count newitem) \<and>
     (\<forall>j < length (il_items l). \<not> ItemStack_empty (il_items l ! j) \<longrightarrow>
        \<not> ItemStack_empty (il_items l' ! j) \<and> st_name (il_items l' ! j) = st_name (il_items l ! j) \<and>
        unat (st_count (il_items l' ! j)) + unat (st_count rest) \<le>
        unat (st_count (il_items l ! j)) + unat (st_count newitem))"

lemma added_refl [simp]: "added newitem l newitem l"
  by (simp add: added_def)

lemma added_amount: "added newitem l rest l' \<Longrightarrow> amount P rest + il_total P l' = amount P newitem + il_total P l"
  and added_shape: "added newitem l rest l' \<Longrightarrow> same_shape l l'"
  by (simp_all add: added_def)

lemma added_trans:
  assumes "added n l r1 l1" and "added r1 l1 r2 l2"
  shows "added n l r2 l2"
proof -
  have len: "length (il_items l1) = length (il_items l)"
    using assms(1) by (simp add: added_def same_shape_length)
  have "\<not> ItemStack_empty (il_items l2 ! j) \<and> st_name (il_items l2 ! j) = st_name (il_items l ! j) \<and>
        unat (st_count (il_items l2 ! j)) + unat (st_count r2) \<le>
        unat (st_count (il_items l ! j)) + unat (st_count n)"
    if j: "j < length (il_items l)" "\<not> ItemStack_empty (il_items l ! j)" for j
  proof -
    have 1: "\<not> ItemStack_empty (il_items l1 ! j)" "st_name (il_items l1 ! j) = st_name (il_items l ! j)"
      "unat (st_count (il_items l1 ! j)) + unat (st_count r1) \<le>
        unat (st_count (il_items l ! j)) + unat (st_count n)"
      using assms(1) j by (simp_all add: added_def)
    moreover have "\<not> ItemStack_empty (il_items l2 ! j)" "st_name (il_items l2 ! j) = st_name (il_items l1 ! j)"
      "unat (st_count (il_items l2 ! j)) + unat (st_count r2) \<le>
        unat (st_count (il_items l1 ! j)) + unat (st_count r1)"
      using assms(2) j(1) 1(1) len by (simp_all add: added_def)
    ultimately show ?thesis by simp
  qed
  moreover have "ItemStack_empty r2 \<or> st_name r2 = st_name n"
  proof (cases "ItemStack_empty r1")
    case True
    then have "unat (st_count r2) = 0"
      using assms(2) by (simp add: added_def ItemStack_empty_def)
    then show ?thesis
      by (simp add: ItemStack_empty_def unat_eq_0)
  next
    case False
    then show ?thesis
      using assms by (auto simp: added_def)
  qed
  moreover have "amount P r2 + il_total P l2 = amount P n + il_total P l" for P
    using assms by (simp add: added_def)
  moreover have "same_shape l l2"
    using assms same_shape_trans by (auto simp: added_def)
  moreover have "unat (st_count r2) \<le> unat (st_count n)"
    using assms by (auto simp: added_def)
  ultimately show ?thesis
    by (simp add: added_def)
qed

lemma il_addItem_at_ok:
  obtains rest l' where "il_addItem_at idm i newitem l = Inr (rest, l')"
    and "added newitem l rest l'"
    and "\<And>j. j \<noteq> i \<Longrightarrow> il_items l' ! j = il_items l ! j"
    and "i < length (il_items l) \<Longrightarrow> ItemStack_empty (il_items l ! i) \<Longrightarrow> ItemStack_empty rest"
proof (cases "i < length (il_items l)")
  case False
  show ?thesis
    by (rule that [of newitem l]) (use False in \<open>simp_all add: il_addItem_at_def\<close>)
next
  case True
  let ?s = "il_items l ! i"
  obtain rest s' where a: "ItemStack_addItem idm newitem ?s = Inr (rest, s')"
    and sum: "\<And>P. amount P rest + amount P s' = amount P newitem + amount P ?s"
    and name: "ItemStack_empty rest \<or> st_name rest = st_name newitem"
    and emp: "ItemStack_empty ?s \<Longrightarrow> ItemStack_empty rest"
    and le: "unat (st_count rest) \<le> unat (st_count newitem)"
    and keep: "\<not> ItemStack_empty ?s \<Longrightarrow> \<not> ItemStack_empty s' \<and> st_name s' = st_name ?s"
    by (rule ItemStack_addItem_ok [of idm newitem ?s]) blast
  let ?l = "l\<lparr>il_items := (il_items l)[i := s']\<rparr>"
  let ?l' = "if \<not> ItemStack_eq rest newitem then ?l\<lparr>il_dirty := True\<rparr> else ?l"
  show ?thesis
  proof (rule that [of rest ?l'])
    show "il_addItem_at idm i newitem l = Inr (rest, ?l')"
      using True by (simp add: il_addItem_at_def a Let_def)
    have counts: "unat (st_count rest) + unat (st_count s') = unat (st_count newitem) + unat (st_count ?s)"
      using sum [of "\<lambda>_. True"] by (simp add: amount_def)
    have "amount P rest + il_total P ?l' = amount P newitem + il_total P l" for P
      using total_update [OF True, of P s'] sum [of P] by auto
    moreover have "\<not> ItemStack_empty (il_items ?l' ! j) \<and>
        st_name (il_items ?l' ! j) = st_name (il_items l ! j) \<and>
        unat (st_count (il_items ?l' ! j)) + unat (st_count rest) \<le>
        unat (st_count (il_items l ! j)) + unat (st_count newitem)"
      if "j < length (il_items l)" "\<not> ItemStack_empty (il_items l ! j)" for j
      using that True keep counts le by (cases "j = i") auto
    ultimately show "added newitem l rest ?l'"
      using name le by (auto simp: added_def)
  qed (use emp in auto)
qed

lemma il_add_pass_ok:
  "\<exists>rest l'. il_add_pass idm fill i newitem l = Inr (rest, l') \<and> added newitem l rest l' \<and>
    (fill \<longrightarrow> \<not> ItemStack_empty rest \<longrightarrow>
       l' = l \<and> (\<forall>j. i \<le> j \<longrightarrow> j < length (il_items l) \<longrightarrow> \<not> ItemStack_empty (il_items l ! j))) \<and>
    (\<not> fill \<longrightarrow> (\<forall>j. ItemStack_empty (il_items l ! j) \<longrightarrow> il_items l' ! j = il_items l ! j))"
proof (induction idm fill i newitem l rule: il_add_pass.induct)
  case (1 idm fill i newitem l)
  consider (fin) "length (il_items l) \<le> i"
    | (skip) "i < length (il_items l)" "ItemStack_empty (il_items l ! i) \<noteq> fill"
    | (add) "i < length (il_items l)" "ItemStack_empty (il_items l ! i) = fill"
    by linarith
  then show ?case
  proof cases
    case fin
    then show ?thesis by (subst il_add_pass.simps) auto
  next
    case skip
    with 1(1) obtain rest l' where r: "il_add_pass idm fill (i + 1) newitem l = Inr (rest, l')"
      "added newitem l rest l'"
      "fill \<longrightarrow> \<not> ItemStack_empty rest \<longrightarrow> l' = l \<and>
        (\<forall>j. i + 1 \<le> j \<longrightarrow> j < length (il_items l) \<longrightarrow> \<not> ItemStack_empty (il_items l ! j))"
      "\<not> fill \<longrightarrow> (\<forall>j. ItemStack_empty (il_items l ! j) \<longrightarrow> il_items l' ! j = il_items l ! j)"
      by (metis not_le)
    have "il_add_pass idm fill i newitem l = Inr (rest, l')"
      using skip r(1) by (subst il_add_pass.simps) simp
    moreover have "\<forall>j. i \<le> j \<longrightarrow> j < length (il_items l) \<longrightarrow> \<not> ItemStack_empty (il_items l ! j)"
      if "fill" "\<not> ItemStack_empty rest"
      using r(3) that skip(2) by (metis Suc_eq_plus1 Suc_leI le_neq_implies_less)
    ultimately show ?thesis
      using r by blast
  next
    case add
    obtain r1 l1 where a: "il_addItem_at idm i newitem l = Inr (r1, l1)" "added newitem l r1 l1"
      and e: "ItemStack_empty (il_items l ! i) \<Longrightarrow> ItemStack_empty r1"
      and o1: "\<And>j. j \<noteq> i \<Longrightarrow> il_items l1 ! j = il_items l ! j"
      using add(1) by (rule_tac il_addItem_at_ok [of idm i newitem l]) blast
    show ?thesis
    proof (cases "ItemStack_empty r1")
      case True
      then have "il_add_pass idm fill i newitem l = Inr (r1, l1)"
        using add a by (subst il_add_pass.simps) simp
      moreover have "\<not> fill \<longrightarrow> (\<forall>j. ItemStack_empty (il_items l ! j) \<longrightarrow> il_items l1 ! j = il_items l ! j)"
        using add(2) o1 by metis
      ultimately show ?thesis
        using a(2) True by blast
    next
      case False
      then obtain r2 l2 where r: "il_add_pass idm fill (i + 1) r1 l1 = Inr (r2, l2)" "added r1 l1 r2 l2"
        "\<not> fill \<longrightarrow> (\<forall>j. ItemStack_empty (il_items l1 ! j) \<longrightarrow> il_items l2 ! j = il_items l1 ! j)"
        using 1(2) [of "(r1, l1)" r1 l1] add a by auto
      have "il_add_pass idm fill i newitem l = Inr (r2, l2)"
        using add a r False by (subst il_add_pass.simps) simp
      moreover have nf: "\<not> fill"
        using False e add(2) by blast
      moreover have "il_items l2 ! j = il_items l ! j" if "ItemStack_empty (il_items l ! j)" for j
        using that r(3) nf o1 [of j] add(2) by (cases "j = i") auto
      ultimately show ?thesis
        using added_trans [OF a(2) r(2)] by blast
    qed
  qed
qed

lemma il_addItem_ok:
  obtains rest l' where "il_addItem idm newitem l = Inr (rest, l')"
    and "added newitem l rest l'"
    and "\<And>j. \<not> ItemStack_empty rest \<Longrightarrow> j < length (il_items l) \<Longrightarrow> \<not> ItemStack_empty (il_items l ! j)"
    and "\<And>r1 l1. \<not> ItemStack_empty newitem \<Longrightarrow> il_add_pass idm False 0 newitem l = Inr (r1, l1) \<Longrightarrow>
      \<forall>j < length (il_items l). \<not> ItemStack_empty (il_items l ! j) \<Longrightarrow> ItemStack_empty rest = ItemStack_empty r1"
proof (cases "ItemStack_empty newitem")
  case True
  show ?thesis
    by (rule that [of newitem l]) (use True in \<open>auto simp: il_addItem_def\<close>)
next
  case False
  obtain r1 l1 where pass1: "il_add_pass idm False 0 newitem l = Inr (r1, l1)"
    using il_add_pass_ok by metis
  then have p1: "il_add_pass idm False 0 newitem l = Inr (r1, l1)" "added newitem l r1 l1"
    and keep: "\<forall>j. ItemStack_empty (il_items l ! j) \<longrightarrow> il_items l1 ! j = il_items l ! j"
    using il_add_pass_ok [of idm False 0 newitem l] by simp_all
  obtain r2 l2 where p2: "il_add_pass idm True 0 r1 l1 = Inr (r2, l2)" "added r1 l1 r2 l2"
    "\<not> ItemStack_empty r2 \<Longrightarrow> l2 = l1 \<and> (\<forall>j < length (il_items l1). \<not> ItemStack_empty (il_items l1 ! j))"
    using il_add_pass_ok [of idm True 0 r1 l1] by auto
  have len: "length (il_items l1) = length (il_items l)"
    using p1(2) by (simp add: added_def same_shape_length)
  show ?thesis
  proof (cases "ItemStack_empty r1")
    case True
    show ?thesis
      by (rule that [of r1 l1]) (use False True p1(1,2) in \<open>simp_all add: il_addItem_def\<close>)
  next
    case ne: False
    show ?thesis
    proof (rule that [of r2 l2])
      show "il_addItem idm newitem l = Inr (r2, l2)"
        using False ne p1(1) p2(1) by (simp add: il_addItem_def)
      show "added newitem l r2 l2"
        by (rule added_trans [OF p1(2) p2(2)])
      show "\<not> ItemStack_empty (il_items l ! j)"
        if "\<not> ItemStack_empty r2" "j < length (il_items l)" for j
        using that p2(3) keep [rule_format, of j] len by auto
      show "ItemStack_empty r2 = ItemStack_empty r"
        if "il_add_pass idm False 0 newitem l = Inr (r, k)"
          "\<forall>j < length (il_items l). \<not> ItemStack_empty (il_items l ! j)" for r k
      proof -
        have all: "\<not> ItemStack_empty (il_items l1 ! j)" if "j < length (il_items l)" for j
          using that p1(2) \<open>\<forall>j < length (il_items l). _\<close> by (simp add: added_def)
        have "il_add_pass idm True i r1 l1 = Inr (r1, l1)" for i
        proof (induction "length (il_items l1) - i" arbitrary: i)
          case 0
          then show ?case by (subst il_add_pass.simps) simp
        next
          case (Suc n)
          then show ?case using all len by (subst il_add_pass.simps) simp
        qed
        then show ?thesis
          using that(1) p1(1) p2(1) by simp
      qed
    qed
  qed
qed

subsection \<open>Room, contents and removal\<close>

lemma room_loop_empty_slot:
  "\<exists>s \<in> set ss. ItemStack_empty s \<Longrightarrow> room_loop idm item ss = Inr True"
proof (induction ss arbitrary: item)
  case (Cons s ss)
  obtain rest s' where a: "ItemStack_addItem idm item s = Inr (rest, s')"
    "ItemStack_empty s \<Longrightarrow> ItemStack_empty rest"
    by (rule ItemStack_addItem_ok [of idm item s]) blast
  with Cons show ?case
    by (auto simp: ItemStack_itemFits_addItem)
qed simp

lemma room_loop_add_pass:
  assumes "\<not> fill" and "\<forall>j. i \<le> j \<longrightarrow> j < length (il_items l) \<longrightarrow> \<not> ItemStack_empty (il_items l ! j)"
    and "\<not> ItemStack_empty newitem" and "il_add_pass idm fill i newitem l = Inr (rest, l')"
  shows "room_loop idm newitem (drop i (il_items l)) = Inr (ItemStack_empty rest)"
  using assms
proof (induction idm fill i newitem l rule: il_add_pass.induct)
  case (1 idm fill i newitem l)
  show ?case
  proof (cases "i < length (il_items l)")
    case False
    with 1(3-) show ?thesis
      by (subst (asm) il_add_pass.simps) auto
  next
    case True
    obtain r1 l1 where a: "il_addItem_at idm i newitem l = Inr (r1, l1)" "added newitem l r1 l1"
      and o1: "\<And>j. j \<noteq> i \<Longrightarrow> il_items l1 ! j = il_items l ! j"
      by (rule il_addItem_at_ok [of idm i newitem l]) blast
    have fits: "ItemStack_itemFits idm newitem (il_items l ! i) = Inr (ItemStack_empty r1, r1)"
      using a(1) True
      by (auto simp: il_addItem_at_def ItemStack_itemFits_addItem Let_def)
    have len: "length (il_items l1) = length (il_items l)"
      using a(2) by (simp add: added_def same_shape_length)
    have drop: "drop (i + 1) (il_items l1) = drop (i + 1) (il_items l)"
      by (rule nth_equalityI) (use o1 len in auto)
    have slot: "\<not> ItemStack_empty (il_items l ! i)"
      using 1(4) True by simp
    show ?thesis
    proof (cases "ItemStack_empty r1")
      case True
      have "rest = r1"
        using 1(3,6) \<open>i < _\<close> slot a(1) True by (subst (asm) il_add_pass.simps) simp
      then show ?thesis
        using \<open>i < _\<close> fits True by (simp add: Cons_nth_drop_Suc [symmetric])
    next
      case False
      have rec: "il_add_pass idm fill (i + 1) r1 l1 = Inr (rest, l')"
        using 1(3,6) \<open>i < _\<close> slot a(1) False by (subst (asm) il_add_pass.simps) simp
      have "room_loop idm r1 (drop (i + 1) (il_items l1)) = Inr (ItemStack_empty rest)"
        by (rule 1(2) [of "(r1, l1)"]) (use 1(3,4) True slot a(1) False rec o1 len in auto)
      then show ?thesis
        using True fits False drop by (simp add: Cons_nth_drop_Suc [symmetric])
    qed
  qed
qed

lemma il_roomForItem_addItem:
  assumes "\<not> ItemStack_empty item" and "il_addItem idm item l = Inr (rest, l')"
  shows "il_roomForItem idm item l = Inr (ItemStack_empty rest)"
proof (cases "\<exists>s \<in> set (il_items l). ItemStack_empty s")
  case True
  moreover obtain i where "i < length (il_items l)" "ItemStack_empty (il_items l ! i)"
    using True by (auto simp: in_set_conv_nth)
  then have "ItemStack_empty rest"
    using assms by (rule_tac il_addItem_ok [of idm item l]) auto
  ultimately show ?thesis
    by (simp add: il_roomForItem_def room_loop_empty_slot)
next
  case False
  then have all: "\<forall>j < length (il_items l). \<not> ItemStack_empty (il_items l ! j)"
    by simp
  obtain r1 l1 where p: "il_add_pass idm False 0 item l = Inr (r1, l1)"
    using il_add_pass_ok by metis
  have "ItemStack_empty rest = ItemStack_empty r1"
    by (rule il_addItem_ok [of idm item l]) (use assms p all in auto)
  then show ?thesis
    using room_loop_add_pass [OF _ _ assms(1) p] all by (simp add: il_roomForItem_def)
qed

text \<open>The number of items in the slots that match.\<close>

definition matching :: "bool \<Rightarrow> item_stack \<Rightarrow> item_stack list \<Rightarrow> nat" where
  "matching match_meta item ss =
     sum_list (map (\<lambda>s. if matches match_meta item s then unat (st_count s) else 0) ss)"

lemma matching_simps [simp]:
  "matching mm item [] = 0"
  "matching mm item (s # ss) = (if matches mm item s then unat (st_count s) else 0) + matching mm item ss"
  by (simp_all add: matching_def)

lemma matching_rev [simp]: "matching mm item (rev ss) = matching mm item ss"
  by (simp add: matching_def flip: rev_map)

lemma contains_loop_iff:
  "c \<noteq> 0 \<Longrightarrow> contains_loop mm item c ss \<longleftrightarrow> unat c \<le> matching mm item ss"
proof (induction ss arbitrary: c)
  case Nil
  then show ?case by (simp add: unat_eq_0)
next
  case (Cons s ss)
  show ?case
  proof (cases "matches mm item s \<and> \<not> c \<le> ucast (st_count s)")
    case True
    then have lt: "ucast (st_count s) \<le> c" "unat (st_count s) < unat c"
      by (simp_all add: word_le_nat_alt)
    then have sub: "unat (c - ucast (st_count s)) = unat c - unat (st_count s)"
      by (simp add: unat_sub)
    then have "c - ucast (st_count s) \<noteq> 0"
      using lt(2) by (metis unat_eq_zero zero_less_diff neq0_conv)
    with Cons.IH [OF this] True Cons.prems sub lt(2) show ?thesis
      by auto
  qed (use Cons in \<open>auto simp: word_le_nat_alt\<close>)
qed

lemma il_containsItem_iff:
  "il_containsItem item mm l \<longleftrightarrow> unat (st_count item) \<le> matching mm item (il_items l)"
proof (cases "st_count item = 0")
  case False
  then have "(ucast (st_count item) :: u32) \<noteq> 0"
    by (metis unat_eq_zero unat_ucast_16_32)
  with False show ?thesis
    by (simp add: il_containsItem_def contains_loop_iff)
qed (simp add: il_containsItem_def)

lemma remove_loop_ok:
  assumes "unat (st_count removed) \<le> unat (st_count item)"
  shows "\<exists>r ss'. remove_loop idm mm item removed ss = Inr (r, ss') \<and>
    unat (st_count r) = min (unat (st_count item)) (unat (st_count removed) + matching mm item ss) \<and>
    length ss' = length ss \<and>
    matching mm item ss' + unat (st_count r) = matching mm item ss + unat (st_count removed) \<and>
    (\<forall>j < length ss. \<not> matches mm item (ss ! j) \<longrightarrow> ss' ! j = ss ! j)"
  using assms
proof (induction ss arbitrary: removed)
  case (Cons s ss)
  show ?case
  proof (cases "matches mm item s")
    case False
    obtain r ss' where "remove_loop idm mm item removed ss = Inr (r, ss')"
      "unat (st_count r) = min (unat (st_count item)) (unat (st_count removed) + matching mm item ss)"
      "length ss' = length ss"
      "matching mm item ss' + unat (st_count r) = matching mm item ss + unat (st_count removed)"
      "\<forall>j < length ss. \<not> matches mm item (ss ! j) \<longrightarrow> ss' ! j = ss ! j"
      using Cons.IH [OF Cons.prems] by blast
    with False show ?thesis
      by (auto simp: nth_Cons split: nat.splits)
  next
    case True
    let ?n = "word_of_int (uint (st_count item) - uint (st_count removed)) :: u32"
    have n: "unat ?n = unat (st_count item) - unat (st_count removed)"
      by (rule unat_u16_difference) (rule Cons.prems)
    obtain taken s' where t: "ItemStack_takeItem ?n s = Inr (taken, s')"
      "unat (st_count taken) = min (unat ?n) (unat (st_count s))"
      "unat (st_count s') = unat (st_count s) - unat ?n"
      "ItemStack_empty s' \<or> (st_name s' = st_name s \<and> st_meta s' = st_meta s)"
      by (rule ItemStack_takeItem_ok [of ?n s]) blast
    obtain left rem1 where a: "ItemStack_addItem idm taken removed = Inr (left, rem1)"
      "\<And>P. amount P left + amount P rem1 = amount P taken + amount P removed"
      by (rule ItemStack_addItem_ok [of idm taken removed]) blast
    have a2: "unat (st_count left) + unat (st_count rem1) = unat (st_count taken) + unat (st_count removed)"
      using a(2) [of "\<lambda>_. True"] by (simp add: amount_def)
    let ?rem2 = "rem1\<lparr>st_count := st_count rem1 + st_count left\<rparr>"
    have sum: "unat (st_count rem1) + unat (st_count left) \<le> unat (st_count item)"
      using a2 t(2) n Cons.prems by simp
    then have rem2: "unat (st_count ?rem2) = unat (st_count taken) + unat (st_count removed)"
      using a2 unat_u16_less [of "st_count item"] by (simp add: unat_plus_if_size word_size)
    have s': "matching mm item (s' # ss) = unat (st_count s') + matching mm item ss"
      using t(4) True by (auto simp: matches_def ItemStack_empty_def)
    show ?thesis
    proof (cases "st_count ?rem2 = st_count item")
      case eq: True
      then have "remove_loop idm mm item removed (s # ss) = Inr (?rem2, s' # ss)"
        using True t(1) a(1) by simp
      moreover have "matching mm item (s' # ss) + unat (st_count ?rem2) =
          matching mm item (s # ss) + unat (st_count removed)"
        using rem2 s' t(2,3) True by simp
      moreover have "unat (st_count ?rem2) =
          min (unat (st_count item)) (unat (st_count removed) + matching mm item (s # ss))"
        using eq rem2 t(2) True by simp
      moreover have "\<forall>j < length (s # ss). \<not> matches mm item ((s # ss) ! j) \<longrightarrow> (s' # ss) ! j = (s # ss) ! j"
        using True by (auto simp: nth_Cons split: nat.splits)
      ultimately show ?thesis by (metis length_Cons)
    next
      case ne: False
      have "unat (st_count ?rem2) \<le> unat (st_count item)"
        using rem2 sum a2 by simp
      from Cons.IH [OF this] obtain r ss' where r: "remove_loop idm mm item ?rem2 ss = Inr (r, ss')"
        "unat (st_count r) = min (unat (st_count item)) (unat (st_count ?rem2) + matching mm item ss)"
        "length ss' = length ss"
        "matching mm item ss' + unat (st_count r) = matching mm item ss + unat (st_count ?rem2)"
        "\<forall>j < length ss. \<not> matches mm item (ss ! j) \<longrightarrow> ss' ! j = ss ! j"
        by blast
      have "remove_loop idm mm item removed (s # ss) = Inr (r, s' # ss')"
        using True t(1) a(1) ne r(1) by simp
      moreover have small: "unat (st_count s) \<le> unat ?n"
      proof (rule ccontr)
        assume "\<not> ?thesis"
        then have "unat (st_count ?rem2) = unat (st_count item)"
          using rem2 t(2) n Cons.prems by simp
        with ne show False by (simp only: word_unat_eq_iff [symmetric])
      qed
      moreover have "matching mm item (s' # ss') = unat (st_count s') + matching mm item ss'"
        using t(4) True by (auto simp: matches_def ItemStack_empty_def)
      moreover have "\<forall>j < length (s # ss). \<not> matches mm item ((s # ss) ! j) \<longrightarrow> (s' # ss') ! j = (s # ss) ! j"
        using True r(5) by (auto simp: nth_Cons split: nat.splits)
      moreover have "unat (st_count r) =
          min (unat (st_count item)) (unat (st_count removed) + matching mm item (s # ss))"
        using r(2) rem2 t(2) small True by simp
      moreover have "matching mm item (s' # ss') + unat (st_count r) =
          matching mm item (s # ss) + unat (st_count removed)"
        using r(4) rem2 t(2,3) small True calculation(3) by simp
      ultimately show ?thesis
        using r(3) by (metis length_Cons)
    qed
  qed
qed simp

lemma il_removeItem_ok:
  obtains removed l' where "il_removeItem idm item mm l = Inr (removed, l')"
    and "unat (st_count removed) = min (unat (st_count item)) (matching mm item (il_items l))"
    and "matching mm item (il_items l') + unat (st_count removed) = matching mm item (il_items l)"
    and "same_shape l l'"
    and "\<And>j. j < length (il_items l) \<Longrightarrow> \<not> matches mm item (il_items l ! j) \<Longrightarrow> il_items l' ! j = il_items l ! j"
proof -
  obtain r ss' where r: "remove_loop idm mm item empty_stack (rev (il_items l)) = Inr (r, ss')"
    "unat (st_count r) = min (unat (st_count item)) (matching mm item (il_items l))"
    "length ss' = length (il_items l)"
    "matching mm item ss' + unat (st_count r) = matching mm item (il_items l)"
    "\<forall>j < length (il_items l). \<not> matches mm item (rev (il_items l) ! j) \<longrightarrow> ss' ! j = rev (il_items l) ! j"
    using remove_loop_ok [of empty_stack item idm mm "rev (il_items l)"] by auto
  show ?thesis
  proof (rule that)
    show "il_removeItem idm item mm l = Inr (r, let l' = l\<lparr>il_items := rev ss'\<rparr>
        in if \<not> ItemStack_empty r then l'\<lparr>il_dirty := True\<rparr> else l')"
      by (simp add: il_removeItem_def r(1) Let_def)
    fix j assume j: "j < length (il_items l)" "\<not> matches mm item (il_items l ! j)"
    have "rev (il_items l) ! (length (il_items l) - Suc j) = il_items l ! j"
      using j by (simp add: rev_nth)
    then have "ss' ! (length (il_items l) - Suc j) = il_items l ! j"
      using r(5) [rule_format, of "length (il_items l) - Suc j"] j by simp
    then show "il_items (let l' = l\<lparr>il_items := rev ss'\<rparr>
        in if \<not> ItemStack_empty r then l'\<lparr>il_dirty := True\<rparr> else l') ! j = il_items l ! j"
      using r(3) j by (simp add: Let_def rev_nth)
  qed (use r in \<open>auto simp: Let_def same_shape_def\<close>)
qed

subsection \<open>Moving keeps what the lists hold together\<close>

definition store_total :: "(string \<Rightarrow> bool) \<Rightarrow> 'r set \<Rightarrow> 'r list_store \<Rightarrow> nat" where
  "store_total P R h = (\<Sum>r \<in> R. il_total P (h r))"

lemma store_total_update:
  assumes "finite R" and "r \<in> R"
  shows "store_total P R (h(r := l)) + il_total P (h r) = store_total P R h + il_total P l"
proof -
  have "(\<Sum>x \<in> R - {r}. il_total P ((h(r := l)) x)) = (\<Sum>x \<in> R - {r}. il_total P (h x))"
    by (rule sum.cong) auto
  then show ?thesis
    using assms by (simp add: store_total_def sum.remove [of R r])
qed

definition store_shape :: "'r list_store \<Rightarrow> 'r list_store \<Rightarrow> bool" where
  "store_shape h h' \<longleftrightarrow> (\<forall>r. same_shape (h r) (h' r))"

lemma store_shape_refl [simp]: "store_shape h h"
  by (simp add: store_shape_def)

lemma store_shape_trans: "store_shape h h1 \<Longrightarrow> store_shape h1 h2 \<Longrightarrow> store_shape h h2"
  unfolding store_shape_def by (metis same_shape_trans)

lemma store_shape_update: "same_shape (h r) l \<Longrightarrow> store_shape h (h(r := l))"
  by (simp add: store_shape_def)

lemma amount_0_iff: "amount (\<lambda>_. True) s = 0 \<longleftrightarrow> ItemStack_empty s"
  by (simp add: amount_def ItemStack_empty_def unat_eq_0)

lemma take_or_change_ok:
  obtains moved l1 where "take_or_change i count l = Inr (moved, l1)"
    and "\<And>P. amount P moved + il_total P l1 = il_total P l"
    and "same_shape l l1"
    and "\<And>j. j \<noteq> i \<Longrightarrow> il_items l1 ! j = il_items l ! j"
    and "i < length (il_items l) \<Longrightarrow>
          unat (st_count (il_items l1 ! i)) + unat (st_count moved) = unat (st_count (il_items l ! i)) \<and>
          (ItemStack_empty moved \<or> ItemStack_empty (il_items l1 ! i) \<or>
           st_name moved = st_name (il_items l1 ! i))"
    and "\<not> ItemStack_empty moved \<Longrightarrow> i < length (il_items l) \<and> st_name moved = st_name (il_items l ! i)"
proof (cases "count = 0")
  case False
  show ?thesis
    by (rule il_takeItem_ok [of i count l]) (rule that, use False in \<open>auto simp: take_or_change_def\<close>)
next
  case True
  obtain moved l1 where c: "il_changeItem i empty_stack l = (moved, l1)"
    by fastforce
  note ok = il_changeItem_ok [OF c]
  have emp: "i < length (il_items l) \<Longrightarrow> ItemStack_empty (il_items l1 ! i)"
    using ok(4) [of "\<lambda>_. True"] by (simp add: amount_0_iff [symmetric])
  have oor: "\<not> i < length (il_items l) \<Longrightarrow> moved = empty_stack"
    using c by (simp add: il_changeItem_def)
  show ?thesis
  proof (rule that [of moved l1])
    show "take_or_change i count l = Inr (moved, l1)"
      using True c by (simp add: take_or_change_def)
    show "amount P moved + il_total P l1 = il_total P l" for P
      using ok(1) [of P] by simp
    show "same_shape l l1" by (rule ok(2))
    show "j \<noteq> i \<Longrightarrow> il_items l1 ! j = il_items l ! j" for j by (rule ok(3))
    show "unat (st_count (il_items l1 ! i)) + unat (st_count moved) = unat (st_count (il_items l ! i)) \<and>
        (ItemStack_empty moved \<or> ItemStack_empty (il_items l1 ! i) \<or> st_name moved = st_name (il_items l1 ! i))"
      if "i < length (il_items l)"
      using that emp ok(4) by (simp add: ItemStack_empty_def)
    show "i < length (il_items l) \<and> st_name moved = st_name (il_items l ! i)" if "\<not> ItemStack_empty moved"
      using that oor ok(4) by fastforce
  qed
qed

text \<open>Putting a leftover back on top of what the slot still holds.\<close>

lemma amount_put_back:
  assumes "unat (st_count left) + unat (st_count cur) < 65536"
    and "ItemStack_empty cur \<or> st_name cur = st_name left"
  shows "amount P (ItemStack_add (st_count cur) left) = amount P left + amount P cur"
  using assms by (auto simp: amount_def ItemStack_add_def ItemStack_empty_def unat_plus_if_size word_size)

lemma il_getItem_ok: "il_wf l \<Longrightarrow> i < length (il_items l) \<Longrightarrow> il_getItem i l = Inr (il_items l ! i)"
  by (simp add: il_getItem_def il_wf_def)

lemma put_back_total:
  assumes "i < length (il_items l)"
    and "unat (st_count left) + unat (st_count (il_items l ! i)) < 65536"
    and "ItemStack_empty (il_items l ! i) \<or> st_name (il_items l ! i) = st_name left"
  shows "il_total P (snd (il_changeItem i (ItemStack_add (st_count (il_items l ! i)) left) l)) =
      il_total P l + amount P left"
    and "same_shape l (snd (il_changeItem i (ItemStack_add (st_count (il_items l ! i)) left) l))"
proof -
  obtain old l' where c: "il_changeItem i (ItemStack_add (st_count (il_items l ! i)) left) l = (old, l')"
    by fastforce
  note ok = il_changeItem_ok [OF c]
  show "il_total P (snd (il_changeItem i (ItemStack_add (st_count (il_items l ! i)) left) l)) =
      il_total P l + amount P left"
    using ok(1) [of P] ok(4) [of P] assms amount_put_back [of left "il_items l ! i" P] by (simp add: c)
  show "same_shape l (snd (il_changeItem i (ItemStack_add (st_count (il_items l ! i)) left) l))"
    using ok(2) by (simp add: c)
qed

lemma swap_total:
  assumes fin: "finite R" "src \<in> R" "dest \<in> R"
    and ne: "src \<noteq> dest \<or> i \<noteq> dest_i"
    and i: "i < length (il_items (h src))"
    and c1: "il_changeItem i empty_stack (h src) = (moved, l4)"
    and c2: "il_changeItem dest_i moved ((h(src := l4)) dest) = (item2, l5)"
    and c3: "il_changeItem i item2 ((h(src := l4, dest := l5)) src) = (old, l6)"
  shows "store_total P R (h(src := l4, dest := l5, src := l6)) = store_total P R h"
    and "store_shape h (h(src := l4, dest := l5, src := l6))"
proof -
  let ?h4 = "h(src := l4)" and ?h5 = "h(src := l4, dest := l5)"
  note o1 = il_changeItem_ok [OF c1] and o2 = il_changeItem_ok [OF c2] and o3 = il_changeItem_ok [OF c3]
  have len: "length (il_items (?h5 src)) = length (il_items (h src))"
    using o1(2) o2(2) by (auto simp: same_shape_def)
  have "il_items (?h5 src) ! i = il_items (?h4 src) ! i"
    using ne o2(3) [of i] by auto
  then have old: "amount P old = 0"
    using o3(4) [of P] o1(4) [of P] i len by auto
  show "store_total P R (?h5(src := l6)) = store_total P R h"
    using store_total_update [OF fin(1,2), of P h l4] store_total_update [OF fin(1,3), of P ?h4 l5]
      store_total_update [OF fin(1,2), of P ?h5 l6] o1(1) [of P] o2(1) [of P] o3(1) [of P] old
    by simp
  show "store_shape h (?h5(src := l6))"
    using store_shape_update [of h src, OF o1(2)] store_shape_update [of ?h4 dest, OF o2(2)]
      store_shape_update [of ?h5 src, OF o3(2)] store_shape_trans by blast
qed

text \<open>
  A move between two slots, in one list or two: the assertions hold, nothing appears or
  disappears, and no list changes its shape.
\<close>

lemma il_moveItem_ok:
  assumes wf: "il_wf (h src)"
  obtains moved swapped h' where
    "il_moveItem idm src i dest dest_i count swap h = Inr (moved, swapped, h')"
    and "\<And>P. store_total P {src, dest} h' = store_total P {src, dest} h"
    and "store_shape h h'"
proof (cases "src = dest \<and> i = dest_i")
  case True
  show ?thesis
    by (rule that [of empty_stack False h]) (use True in \<open>simp_all add: il_moveItem_def\<close>)
next
  case False
  let ?R = "{src, dest}"
  have R: "finite ?R" "src \<in> ?R" "dest \<in> ?R" by simp_all
  obtain moved l1 where t: "take_or_change i count (h src) = Inr (moved, l1)"
    and t1: "\<And>P. amount P moved + il_total P l1 = il_total P (h src)"
    and t2: "same_shape (h src) l1"
    and t3: "i < length (il_items (h src)) \<Longrightarrow>
          unat (st_count (il_items l1 ! i)) + unat (st_count moved) = unat (st_count (il_items (h src) ! i)) \<and>
          (ItemStack_empty moved \<or> ItemStack_empty (il_items l1 ! i) \<or>
           st_name moved = st_name (il_items l1 ! i))"
    and t4: "\<not> ItemStack_empty moved \<Longrightarrow> i < length (il_items (h src))"
    by (rule take_or_change_ok [of i count "h src"]) blast
  let ?h1 = "h(src := l1)"
  obtain left l2 where a: "il_addItem_at idm dest_i moved (?h1 dest) = Inr (left, l2)"
    and a1: "added moved (?h1 dest) left l2"
    and a2: "\<And>j. j \<noteq> dest_i \<Longrightarrow> il_items l2 ! j = il_items (?h1 dest) ! j"
    by (rule il_addItem_at_ok [of idm dest_i moved "?h1 dest"]) blast
  let ?h2 = "?h1(dest := l2)"
  have shape2: "store_shape h ?h2"
    using store_shape_trans [OF store_shape_update [of h src, OF t2] store_shape_update [of ?h1 dest l2]] a1
    by (simp add: added_def)
  have T2: "amount P left + store_total P ?R ?h2 = store_total P ?R h" for P
    using store_total_update [OF R(1,2), of P h l1] store_total_update [OF R(1,3), of P ?h1 l2] t1 [of P]
      added_amount [OF a1, of P]
    by linarith
  show ?thesis
  proof (cases "ItemStack_empty left")
    case True
    show ?thesis
      by (rule that [of moved False ?h2]) (use False True t a T2 shape2 in \<open>auto simp: il_moveItem_def Let_def\<close>)
  next
    case left: False
    then have moved: "\<not> ItemStack_empty moved"
      using a1 by (auto simp: added_def ItemStack_empty_def unat_eq_0 [symmetric])
    then have i: "i < length (il_items (h src))" by (rule t4)
    let ?cur = "il_items (?h2 src) ! i"
    have cur: "?cur = il_items l1 ! i"
      using False a2 [of i] by auto
    have wf2: "il_wf (?h2 src)" "i < length (il_items (?h2 src))"
      using shape2 wf i same_shape_wf same_shape_length unfolding store_shape_def by metis+
    have le: "unat (st_count left) \<le> unat (st_count moved)" and name: "st_name left = st_name moved"
      using a1 left by (simp_all add: added_def)
    have small: "unat (st_count left) + unat (st_count ?cur) < 65536"
      using t3 [OF i] le cur unat_u16_less [of "st_count (il_items (h src) ! i)"] by simp
    have same: "ItemStack_empty ?cur \<or> st_name ?cur = st_name left"
      using t3 [OF i] moved name cur by auto
    let ?l3 = "snd (il_changeItem i (ItemStack_add (st_count ?cur) left) (?h2 src))"
    let ?h3 = "?h2(src := ?l3)"
    note put = put_back_total [OF wf2(2) small same]
    have T3: "store_total P ?R ?h3 = store_total P ?R h" for P
      using store_total_update [OF R(1,2), of P ?h2 ?l3] put(1) [of P] T2 [of P] by simp
    have shape3: "store_shape h ?h3"
      by (rule store_shape_trans [OF shape2 store_shape_update [of ?h2 src, OF put(2)]])
    obtain moved1 where rem: "ItemStack_remove (st_count left) moved = Inr moved1"
      using le by (simp add: ItemStack_remove_ok word_le_nat_alt)
    have base: "il_moveItem idm src i dest dest_i count swap h =
        (if ItemStack_empty moved1 \<and> swap then
           let (moved2, l4) = il_changeItem i empty_stack (?h3 src);
               h4 = ?h3(src := l4);
               (item2, l5) = il_changeItem dest_i moved2 (h4 dest);
               h5 = h4(dest := l5);
               h6 = h5(src := snd (il_changeItem i item2 (h5 src)))
           in Inr (moved2, True, h6)
         else Inr (moved1, False, ?h3))"
      by (simp only: il_moveItem_def False if_False t rbind_simps prod.case Let_def a left if_True
          not_False_eq_True rem il_getItem_ok [OF wf2])
    show ?thesis
    proof (cases "ItemStack_empty moved1 \<and> swap")
      case no: False
      show ?thesis
      proof (rule that [of moved1 False ?h3])
        show "il_moveItem idm src i dest dest_i count swap h = Inr (moved1, False, ?h3)"
          unfolding base using no by (simp only: if_False)
        show "store_total P ?R ?h3 = store_total P ?R h" for P by (rule T3)
        show "store_shape h ?h3" by (rule shape3)
      qed
    next
      case yes: True
      obtain moved2 l4 where c1: "il_changeItem i empty_stack (?h3 src) = (moved2, l4)"
        by fastforce
      obtain item2 l5 where c2: "il_changeItem dest_i moved2 ((?h3(src := l4)) dest) = (item2, l5)"
        by fastforce
      obtain old l6 where c3: "il_changeItem i item2 ((?h3(src := l4, dest := l5)) src) = (old, l6)"
        by fastforce
      have i3: "i < length (il_items (?h3 src))"
        using shape3 i same_shape_length unfolding store_shape_def by metis
      have ne: "src \<noteq> dest \<or> i \<noteq> dest_i"
        using False by blast
      note sw = swap_total [OF R ne i3 c1 c2 c3]
      show ?thesis
      proof (rule that [of moved2 True "?h3(src := l4, dest := l5, src := l6)"])
        show "il_moveItem idm src i dest dest_i count swap h =
            Inr (moved2, True, ?h3(src := l4, dest := l5, src := l6))"
          unfolding base using yes by (simp only: if_True Let_def c1 c2 c3 prod.case snd_conv simp_thms)
        show "store_total P ?R (?h3(src := l4, dest := l5, src := l6)) = store_total P ?R h" for P
          using sw(1) [of P] T3 [of P] by simp
        show "store_shape h (?h3(src := l4, dest := l5, src := l6))"
          by (rule store_shape_trans [OF shape3 sw(2)])
      qed
    qed
  qed
qed

text \<open>
  The same for \<open>moveItemSomewhere\<close>. When the destination is the source list, the items may
  come back to the slot they were taken from; putting the rest on top never overflows.
\<close>

lemma il_moveItemSomewhere_ok:
  assumes wf: "il_wf (h src)"
  obtains h' where "il_moveItemSomewhere idm src i dest count h = Inr h'"
    and "\<And>P. store_total P {src, dest} h' = store_total P {src, dest} h"
    and "store_shape h h'"
proof -
  let ?R = "{src, dest}"
  have R: "finite ?R" "src \<in> ?R" "dest \<in> ?R" by simp_all
  obtain moved l1 where t: "take_or_change i count (h src) = Inr (moved, l1)"
    and t1: "\<And>P. amount P moved + il_total P l1 = il_total P (h src)"
    and t2: "same_shape (h src) l1"
    and t3: "i < length (il_items (h src)) \<Longrightarrow>
          unat (st_count (il_items l1 ! i)) + unat (st_count moved) = unat (st_count (il_items (h src) ! i)) \<and>
          (ItemStack_empty moved \<or> ItemStack_empty (il_items l1 ! i) \<or>
           st_name moved = st_name (il_items l1 ! i))"
    and t4: "\<not> ItemStack_empty moved \<Longrightarrow> i < length (il_items (h src))"
    by (rule take_or_change_ok [of i count "h src"]) blast
  let ?h1 = "h(src := l1)"
  have T1: "amount P moved + store_total P ?R ?h1 = store_total P ?R h" for P
    using store_total_update [OF R(1,2), of P h l1] t1 [of P] by simp
  have shape1: "store_shape h ?h1"
    by (rule store_shape_update) (rule t2)
  show ?thesis
  proof (cases "ItemStack_empty moved")
    case True
    show ?thesis
      by (rule that [of ?h1]) (use True t T1 shape1 in \<open>auto simp: il_moveItemSomewhere_def Let_def\<close>)
  next
    case moved: False
    then have i: "i < length (il_items (h src))" by (rule t4)
    obtain left l2 where a: "il_addItem idm moved (?h1 dest) = Inr (left, l2)"
      and a1: "added moved (?h1 dest) left l2"
      and a2: "\<And>j. \<not> ItemStack_empty left \<Longrightarrow> j < length (il_items (?h1 dest)) \<Longrightarrow>
        \<not> ItemStack_empty (il_items (?h1 dest) ! j)"
      by (rule il_addItem_ok [of idm moved "?h1 dest"]) blast
    let ?h2 = "?h1(dest := l2)"
    have shape2: "store_shape h ?h2"
      by (rule store_shape_trans [OF shape1 store_shape_update [of ?h1 dest, OF added_shape [OF a1]]])
    have T2: "amount P left + store_total P ?R ?h2 = store_total P ?R h" for P
      using store_total_update [OF R(1,3), of P ?h1 l2] T1 [of P] added_amount [OF a1, of P] by linarith
    show ?thesis
    proof (cases "ItemStack_empty left")
      case True
      show ?thesis
        by (rule that [of ?h2])
          (use True moved t a T2 shape2 in \<open>auto simp: il_moveItemSomewhere_def Let_def\<close>)
    next
      case left: False
      let ?cur = "il_items (?h2 src) ! i"
      have wf2: "il_wf (?h2 src)" "i < length (il_items (?h2 src))"
        using shape2 wf i same_shape_wf same_shape_length unfolding store_shape_def by metis+
      have name: "st_name left = st_name moved" and le: "unat (st_count left) \<le> unat (st_count moved)"
        using a1 left by (simp_all add: added_def)
      have slot: "unat (st_count ?cur) + unat (st_count left) \<le>
            unat (st_count (il_items l1 ! i)) + unat (st_count moved) \<and>
          (ItemStack_empty ?cur \<or> st_name ?cur = st_name (il_items l1 ! i)) \<and>
          (ItemStack_empty (il_items l1 ! i) \<longrightarrow> ItemStack_empty ?cur)"
      proof (cases "src = dest")
        case False
        with le show ?thesis by simp
      next
        case True
        have "i < length (il_items l1)"
          using i t2 by (simp add: same_shape_length)
        then show ?thesis
          using a1 a2 [of i] left True by (simp add: added_def)
      qed
      have small: "unat (st_count left) + unat (st_count ?cur) < 65536"
        using t3 [OF i] slot unat_u16_less [of "st_count (il_items (h src) ! i)"] by simp
      have same: "ItemStack_empty ?cur \<or> st_name ?cur = st_name left"
        using t3 [OF i] moved name slot by auto
      let ?l3 = "snd (il_changeItem i (ItemStack_add (st_count ?cur) left) (?h2 src))"
      note put = put_back_total [OF wf2(2) small same]
      show ?thesis
      proof (rule that [of "?h2(src := ?l3)"])
        show "il_moveItemSomewhere idm src i dest count h = Inr (?h2(src := ?l3))"
          by (simp only: il_moveItemSomewhere_def t rbind_simps prod.case Let_def moved if_False a left
              not_False_eq_True if_True il_getItem_ok [OF wf2])
        show "store_total P ?R (?h2(src := ?l3)) = store_total P ?R h" for P
          using store_total_update [OF R(1,2), of P ?h2 ?l3] put(1) [of P] T2 [of P] by simp
        show "store_shape h (?h2(src := ?l3))"
          by (rule store_shape_trans [OF shape2 store_shape_update [of ?h2 src, OF put(2)]])
      qed
    qed
  qed
qed

subsection \<open>Properties\<close>

text \<open>The example lists of the witnesses: 7 stones and an empty slot, 95 stones and 3 dirt.\<close>

definition stone :: "u16 \<Rightarrow> item_stack" where
  "stone n = \<lparr>st_name = ''default:stone'', st_count = n, st_wear = 0, st_meta = new_metadata\<rparr>"

definition dirt :: "u16 \<Rightarrow> item_stack" where
  "dirt n = \<lparr>st_name = ''default:dirt'', st_count = n, st_wear = 0, st_meta = new_metadata\<rparr>"

definition example_list :: "item_stack list \<Rightarrow> inv_list" where
  "example_list items =
     \<lparr>il_items = items, il_name = ''main'', il_size = of_nat (length items), il_width = 0,
      il_dirty = False, il_locks = 0\<rparr>"

definition example_store :: "nat list_store" where
  "example_store r = (if r = 0 then example_list [stone 7, empty_stack] else example_list [stone 95, dirt 3])"

text \<open>
  C7: \<open>InventoryList::moveItem\<close>, between two slots of one list or of two, never fails an
  assertion, keeps the number of items of every name over the lists together, and changes
  neither the size, the name nor the width of a list: no item is duplicated or lost,
  whichever branch (full move, partial move, swap, nothing) is taken.
\<close>

theorem moveItem_conserves:
  assumes "il_wf (h src)"
  shows "\<exists>moved swapped h'. il_moveItem idm src i dest dest_i count swap h = Inr (moved, swapped, h') \<and>
    (\<forall>P. store_total P {src, dest} h' = store_total P {src, dest} h) \<and> store_shape h h'"
  by (rule il_moveItem_ok [of h src idm i dest dest_i count swap, OF assms]) blast

theorem moveItem_conserves_witness:
  "il_wf (example_store 0) \<and>
   (\<exists>moved swapped h'. il_moveItem (idm_view idm_clear) 0 0 1 0 0 True example_store = Inr (moved, swapped, h') \<and>
    (\<forall>P. store_total P {0, 1} h' = store_total P {0, 1} example_store) \<and> store_shape example_store h')"
proof -
  have "il_wf (example_store 0)"
    by (simp add: il_wf_def example_store_def example_list_def)
  with moveItem_conserves [of example_store 0, OF this] show ?thesis by blast
qed

text \<open>
  C8: \<open>InventoryList::moveItemSomewhere\<close> keeps the number of items of every name over the
  source and destination lists, also when they are the same list and the items come back to
  the slot they were taken from; what does not fit is put back without 16-bit overflow.
\<close>

theorem moveItemSomewhere_conserves:
  assumes "il_wf (h src)"
  shows "\<exists>h'. il_moveItemSomewhere idm src i dest count h = Inr h' \<and>
    (\<forall>P. store_total P {src, dest} h' = store_total P {src, dest} h) \<and> store_shape h h'"
  by (rule il_moveItemSomewhere_ok [of h src idm i dest count, OF assms]) blast

theorem moveItemSomewhere_conserves_witness:
  "il_wf (example_store 1) \<and>
   (\<exists>h'. il_moveItemSomewhere (idm_view idm_clear) 1 0 0 90 example_store = Inr h' \<and>
    (\<forall>P. store_total P {1, 0} h' = store_total P {1, 0} example_store) \<and> store_shape example_store h')"
proof -
  have "il_wf (example_store 1)"
    by (simp add: il_wf_def example_store_def example_list_def)
  with moveItemSomewhere_conserves [of example_store 1, OF this] show ?thesis by blast
qed

text \<open>
  C12: \<open>InventoryList::addItem\<close> always succeeds; the leftover and the new list hold what the
  item and the old list held, a slot that held something keeps its kind, and
  \<open>roomForItem\<close>, which simulates the insertion in one pass over the slots, answers exactly
  whether \<open>addItem\<close>, which makes two passes, leaves nothing over.
\<close>

theorem addItem_and_roomForItem:
  assumes "\<not> ItemStack_empty item"
  shows "\<exists>rest l'. il_addItem idm item l = Inr (rest, l') \<and> added item l rest l' \<and>
    il_roomForItem idm item l = Inr (ItemStack_empty rest)"
  using il_roomForItem_addItem [OF assms] by (rule_tac il_addItem_ok [of idm item l]) blast

theorem addItem_and_roomForItem_witness:
  "\<exists>rest l'. il_addItem (idm_view idm_clear) (stone 120) (example_list [stone 95, empty_stack]) = Inr (rest, l') \<and>
    added (stone 120) (example_list [stone 95, empty_stack]) rest l' \<and>
    il_roomForItem (idm_view idm_clear) (stone 120) (example_list [stone 95, empty_stack]) = Inr (ItemStack_empty rest)"
  by (rule addItem_and_roomForItem) (simp add: ItemStack_empty_def stone_def)

text \<open>
  C13: \<open>InventoryList::containsItem\<close> answers whether the slots that match (by name, or by name
  and metadata) hold the wanted count, and \<open>removeItem\<close> removes exactly that count, or all
  there is when it is less, from matching slots only.
\<close>

theorem removeItem_and_containsItem:
  "\<exists>removed l'. il_removeItem idm item match_meta l = Inr (removed, l') \<and>
    unat (st_count removed) = min (unat (st_count item)) (matching match_meta item (il_items l)) \<and>
    matching match_meta item (il_items l') + unat (st_count removed) = matching match_meta item (il_items l) \<and>
    (il_containsItem item match_meta l \<longleftrightarrow> st_count removed = st_count item) \<and>
    (\<forall>j. j \<ge> length (il_items l) \<or> matches match_meta item (il_items l ! j) \<or>
       il_items l' ! j = il_items l ! j)"
proof -
  obtain removed l' where r: "il_removeItem idm item match_meta l = Inr (removed, l')"
    and c: "unat (st_count removed) = min (unat (st_count item)) (matching match_meta item (il_items l))"
    and rest: "matching match_meta item (il_items l') + unat (st_count removed) =
        matching match_meta item (il_items l)"
      "\<And>j. j < length (il_items l) \<Longrightarrow> \<not> matches match_meta item (il_items l ! j) \<Longrightarrow>
        il_items l' ! j = il_items l ! j"
    by (rule il_removeItem_ok [of idm item match_meta l]) blast
  have "il_containsItem item match_meta l \<longleftrightarrow> st_count removed = st_count item"
    using c by (auto simp: il_containsItem_iff word_unat_eq_iff)
  with r c rest show ?thesis
    by (meson linorder_not_le)
qed

end
