(* ===== verification/Inventory.thy ===== *)
theory Inventory
  imports InventoryList
begin

section \<open>Inventories\<close>

text \<open>
  \<^verbatim>\<open>class Inventory\<close> of \<^verbatim>\<open>src/inventory.h\<close> and \<^verbatim>\<open>src/inventory.cpp\<close>: a vector of lists with
  distinct names. A pointer to one of the lists is its index in the vector.
\<close>

record inventory =
  inv_lists :: "inv_list list"
  inv_dirty :: bool

definition inv_new :: inventory where
  "inv_new = \<lparr>inv_lists = [], inv_dirty = True\<rparr>"

definition inv_clear :: "inventory \<Rightarrow> inventory res" where
  "inv_clear iv =
     (if list_all (\<lambda>l. is_ok (il_checkResizeLock l)) (inv_lists iv)
      then Inr \<lparr>inv_lists = [], inv_dirty = True\<rparr> else Inl BaseException)"

text \<open>Assignment from another object; assigning an inventory to itself does nothing.\<close>

definition inv_assign :: "inventory \<Rightarrow> inventory \<Rightarrow> inventory res" where
  "inv_assign other iv =
     rbind (inv_clear iv) (\<lambda>_. Inr \<lparr>inv_lists = map il_copy (inv_lists other), inv_dirty = True\<rparr>)"

fun lists_eq :: "inv_list list \<Rightarrow> inv_list list \<Rightarrow> bool res" where
  "lists_eq (x # xs) (y # ys) = rbind (il_eq x y) (\<lambda>e. if \<not> e then Inr False else lists_eq xs ys)"
| "lists_eq _ _ = Inr True"

definition inv_eq :: "inventory \<Rightarrow> inventory \<Rightarrow> bool res" where
  "inv_eq iv other =
     (if length (inv_lists iv) \<noteq> length (inv_lists other) then Inr False
      else lists_eq (inv_lists iv) (inv_lists other))"

definition inv_checkModified :: "inventory \<Rightarrow> bool" where
  "inv_checkModified iv \<longleftrightarrow> inv_dirty iv \<or> list_ex il_dirty (inv_lists iv)"

definition inv_setModified :: "bool \<Rightarrow> inventory \<Rightarrow> inventory" where
  "inv_setModified dirty iv =
     (if \<not> dirty then \<lparr>inv_lists = map (\<lambda>l. l\<lparr>il_dirty := dirty\<rparr>) (inv_lists iv), inv_dirty = dirty\<rparr>
      else iv\<lparr>inv_dirty := dirty\<rparr>)"

fun list_index :: "string \<Rightarrow> inv_list list \<Rightarrow> nat option" where
  "list_index name [] = None"
| "list_index name (l # ls) = (if il_name l = name then Some 0 else map_option Suc (list_index name ls))"

definition inv_getListIndex :: "string \<Rightarrow> inventory \<Rightarrow> nat option" where
  "inv_getListIndex name iv = list_index name (inv_lists iv)"

definition inv_getList :: "string \<Rightarrow> inventory \<Rightarrow> inv_list option" where
  "inv_getList name iv = map_option (\<lambda>i. inv_lists iv ! i) (inv_getListIndex name iv)"

text \<open>The pair of the pointer to the list, if one is made, and the inventory.\<close>

definition inv_addList :: "string \<Rightarrow> u32 \<Rightarrow> inventory \<Rightarrow> (nat option \<times> inventory) res" where
  "inv_addList name sz iv =
     (let inv1 = iv\<lparr>inv_dirty := True\<rparr>
      in case inv_getListIndex name iv of
           Some i \<Rightarrow>
             rbind (il_setSize sz (inv_lists iv ! i)) (\<lambda>l.
               Inr (Some i, inv1\<lparr>inv_lists := (inv_lists iv)[i := il_clearItems l]\<rparr>))
         | None \<Rightarrow>
             if CHR '' '' \<in> set name then Inr (None, inv1)
             else Inr (Some (length (inv_lists iv)),
                       inv1\<lparr>inv_lists := inv_lists iv @ [il_new name sz]\<rparr>))"

definition inv_deleteList :: "string \<Rightarrow> inventory \<Rightarrow> (bool \<times> inventory) res" where
  "inv_deleteList name iv =
     (case inv_getListIndex name iv of
        None \<Rightarrow> Inr (False, iv)
      | Some i \<Rightarrow>
          rbind (il_checkResizeLock (inv_lists iv ! i)) (\<lambda>_.
            Inr (True, \<lparr>inv_lists = take i (inv_lists iv) @ drop (i + 1) (inv_lists iv), inv_dirty = True\<rparr>)))"

definition inv_addItem ::
    "IItemDefManager \<Rightarrow> string \<Rightarrow> item_stack \<Rightarrow> inventory \<Rightarrow> (item_stack \<times> inventory) res" where
  "inv_addItem idm listname newitem iv =
     (case inv_getListIndex listname iv of
        None \<Rightarrow> Inr (newitem, iv)
      | Some i \<Rightarrow>
          rbind (il_addItem idm newitem (inv_lists iv ! i)) (\<lambda>(rest, l).
            Inr (rest, iv\<lparr>inv_lists := (inv_lists iv)[i := l]\<rparr>)))"

subsection \<open>Text format\<close>

definition inv_serialize_list :: "bool \<Rightarrow> inv_list \<Rightarrow> string" where
  "inv_serialize_list incremental l =
     (if \<not> incremental \<or> il_dirty l
      then ''List '' @ il_name l @ '' '' @ nat_str (unat (il_getSize l)) @ [newline] @ il_serialize l
      else ''KeepList '' @ il_name l @ [newline])"

definition inv_serialize :: "bool \<Rightarrow> inventory \<Rightarrow> string" where
  "inv_serialize incremental iv =
     concat (map (inv_serialize_list incremental) (inv_lists iv)) @ ''EndInventory'' @ [newline]"

definition stream_size :: "istream \<Rightarrow> nat" where
  "stream_size is = length (buf is) + (if good is then 1 else 0)"

lemma getline_stream_size:
  "good is \<Longrightarrow> (line, is') = getline d old is \<Longrightarrow> stream_size is' < stream_size is"
  using getline_decreases [of "is" line is' d old] by (auto simp: stream_size_def)

lemma il_read_stream_size:
  "il_read itemdef is item_i l = Inr (l', is') \<Longrightarrow> stream_size is' \<le> stream_size is"
proof (induction "stream_size is" arbitrary: "is" item_i l rule: less_induct)
  case less
  show ?case
  proof (cases "good is")
    case False
    with less.prems show ?thesis by (simp add: il_read.simps [of itemdef "is"])
  next
    case True
    obtain line is1 where g: "getline newline [] is = (line, is1)" by fastforce
    obtain name iss where n: "getline (CHR '' '') [] (open_stream line) = (name, iss)" by fastforce
    have shrinks: "stream_size is1 < stream_size is"
      using getline_stream_size [OF True] g by metis
    have IH: "il_read itemdef is1 k l1 = Inr (l', is') \<Longrightarrow> stream_size is' \<le> stream_size is" for k l1
      using less.hyps [OF shrinks] shrinks by fastforce
    show ?thesis
      using less.prems True shrinks
      by (subst (asm) il_read.simps)
        (auto simp: g n intro: IH split: if_splits prod.splits sum.splits)
  qed
qed

lemma list_stream_size:
  "good is \<Longrightarrow> (line, is1) = getline d old is \<Longrightarrow> il_deSerialize itemdef is1 l0 = Inr (l, is2) \<Longrightarrow>
    stream_size is2 < stream_size is"
  using getline_stream_size [of "is" line is1 d old]
  by (auto simp: il_deSerialize_def dest: il_read_stream_size)

text \<open>
  The reading loop: the lists of the inventory, and the pointers \<open>new_lists\<close> of those that
  were sent. A list whose size cannot be read has whatever size its variable held.
\<close>

definition erase_unsent :: "nat list \<Rightarrow> inventory \<Rightarrow> inventory" where
  "erase_unsent new_lists iv =
     (let kept = map (\<lambda>i. inv_lists iv ! i)
                   (filter (\<lambda>i. i \<in> set new_lists) [0..<length (inv_lists iv)])
      in if length kept = length (inv_lists iv) then iv else \<lparr>inv_lists = kept, inv_dirty = True\<rparr>)"

function inv_read ::
    "IItemDefManager option \<Rightarrow> istream \<Rightarrow> nat list \<Rightarrow> inventory \<Rightarrow> (inventory \<times> istream) res" where
  "inv_read itemdef is new_lists iv =
     (if \<not> good is then Inl SerializationError
      else
        let (line, is1) = getline newline [] is;
            (name, iss) = getline (CHR '' '') [] (open_stream line)
        in
        if name = ''EndInventory'' \<or> name = ''end'' then Inr (erase_unsent new_lists iv, is1)
        else if name = ''List'' then
          (let (listname, iss1) = getline (CHR '' '') [] iss
           in case extract_unsigned 4294967295 iss1 of
                (None, _) \<Rightarrow> Inl UninitializedRead
              | (Some listsize, _) \<Rightarrow>
                  (case inv_getListIndex listname iv of
                     None \<Rightarrow>
                       (case il_deSerialize itemdef is1 (il_new listname (of_nat listsize)) of
                          Inl e \<Rightarrow> Inl e
                        | Inr (l, is2) \<Rightarrow>
                            inv_read itemdef is2 (new_lists @ [length (inv_lists iv)])
                              (iv\<lparr>inv_lists := inv_lists iv @ [l]\<rparr>))
                   | Some i \<Rightarrow>
                       (case il_setSize (of_nat listsize) (inv_lists iv ! i) of
                          Inl e \<Rightarrow> Inl e
                        | Inr l0 \<Rightarrow>
                            (case il_deSerialize itemdef is1 l0 of
                               Inl e \<Rightarrow> Inl e
                             | Inr (l, is2) \<Rightarrow>
                                 inv_read itemdef is2 (new_lists @ [i])
                                   (iv\<lparr>inv_lists := (inv_lists iv)[i := l]\<rparr>)))))
        else if name = ''KeepList'' then
          (let (listname, _) = getline (CHR '' '') [] iss
           in case inv_getListIndex listname iv of
                Some i \<Rightarrow> inv_read itemdef is1 (new_lists @ [i]) iv
              | None \<Rightarrow> inv_read itemdef is1 new_lists iv)
        else inv_read itemdef is1 new_lists iv)"
  by pat_completeness auto
termination
  by (relation "measure (\<lambda>(_, is, _). stream_size is)")
    (auto intro: list_stream_size getline_stream_size)

declare inv_read.simps [simp del]

definition inv_deSerialize :: "IItemDefManager option \<Rightarrow> istream \<Rightarrow> inventory \<Rightarrow> (inventory \<times> istream) res" where
  "inv_deSerialize itemdef is iv = inv_read itemdef is [] iv"

subsection \<open>Names are unique\<close>

definition inv_wf :: "inventory \<Rightarrow> bool" where
  "inv_wf iv \<longleftrightarrow> distinct (map il_name (inv_lists iv)) \<and> list_all il_wf (inv_lists iv)"

lemma list_index_None: "list_index name ls = None \<longleftrightarrow> name \<notin> il_name ` set ls"
  by (induction ls) auto

lemma list_index_Some:
  "list_index name ls = Some i \<Longrightarrow> i < length ls \<and> il_name (ls ! i) = name"
  by (induction ls arbitrary: i) (auto split: if_splits)

lemma list_index_distinct:
  "distinct (map il_name ls) \<Longrightarrow> i < length ls \<Longrightarrow> list_index (il_name (ls ! i)) ls = Some i"
proof (induction ls arbitrary: i)
  case (Cons l ls)
  then show ?case
    by (cases i) (auto simp: nth_Cons)
qed simp

lemma il_wf_clearItems [simp]: "il_wf (il_clearItems l)"
  by (simp add: il_wf_def il_clearItems_def)

lemma il_wf_new [simp]: "il_wf (il_new name sz)" "il_name (il_new name sz) = name"
    "length (il_items (il_new name sz)) = unat sz" "il_locks (il_new name sz) = 0"
  by (simp_all add: il_wf_def il_new_def il_clearItems_def)

lemma il_setSize_ok:
  "il_setSize sz l = Inr l' \<Longrightarrow> il_wf l \<Longrightarrow>
    il_wf l' \<and> il_name l' = il_name l \<and> il_locks l' = il_locks l \<and> length (il_items l') = unat sz"
  by (auto simp: il_setSize_def il_wf_def split: if_splits)

lemma il_setSize_free: "il_locks l = 0 \<Longrightarrow> \<exists>l'. il_setSize sz l = Inr l'"
  by (cases "unat sz < length (il_items l)"; cases "unat sz = length (il_items l)")
    (simp_all add: il_setSize_def il_checkResizeLock_def)

lemma il_setSize_locked:
  "il_locks l \<noteq> 0 \<Longrightarrow> unat sz < length (il_items l) \<Longrightarrow> il_setSize sz l = Inl BaseException"
  by (simp add: il_setSize_def il_checkResizeLock_def)

lemma il_name_clearItems [simp]: "il_name (il_clearItems l) = il_name l"
  by (simp add: il_clearItems_def)

lemma inv_wf_new: "inv_wf inv_new"
  by (simp add: inv_wf_def inv_new_def)

lemma distinct_update_same:
  "i < length ls \<Longrightarrow> f l = f (ls ! i) \<Longrightarrow> map f (ls[i := l]) = map f ls"
  by (metis list_update_id map_update nth_map)

lemma inv_wf_update:
  assumes "inv_wf iv" and "i < length (inv_lists iv)" and "il_name l = il_name (inv_lists iv ! i)" and "il_wf l"
  shows "inv_wf (iv\<lparr>inv_lists := (inv_lists iv)[i := l]\<rparr>)"
    and "inv_wf (iv\<lparr>inv_lists := (inv_lists iv)[i := l], inv_dirty := d\<rparr>)"
  using assms by (simp_all add: inv_wf_def distinct_update_same list_all_update)

lemma inv_wf_addList: "inv_wf iv \<Longrightarrow> inv_addList name sz iv = Inr (p, iv') \<Longrightarrow> inv_wf iv'"
proof -
  assume wf: "inv_wf iv" and a: "inv_addList name sz iv = Inr (p, iv')"
  show "inv_wf iv'"
  proof (cases "inv_getListIndex name iv")
    case None
    then have "name \<notin> il_name ` set (inv_lists iv)"
      by (simp add: inv_getListIndex_def list_index_None)
    moreover have "inv_lists iv' = inv_lists iv \<or> inv_lists iv' = inv_lists iv @ [il_new name sz]"
      using a None by (auto simp: inv_addList_def Let_def split: if_splits)
    ultimately show ?thesis
      using wf by (auto simp: inv_wf_def)
  next
    case (Some i)
    then have i: "i < length (inv_lists iv)"
      using list_index_Some by (simp add: inv_getListIndex_def)
    obtain l where l: "il_setSize sz (inv_lists iv ! i) = Inr l"
      and iv': "iv' = iv\<lparr>inv_dirty := True, inv_lists := (inv_lists iv)[i := il_clearItems l]\<rparr>"
      using a Some by (auto simp: inv_addList_def Let_def)
    have "il_wf (inv_lists iv ! i)"
      using wf i by (simp add: inv_wf_def list_all_length)
    then have "il_name l = il_name (inv_lists iv ! i)"
      using il_setSize_ok [OF l] by simp
    then show ?thesis
      using inv_wf_update(2) [OF wf i, of "il_clearItems l" True] by (simp add: iv' inv_wf_def)
  qed
qed

lemma distinct_cut: "distinct xs \<Longrightarrow> i \<le> j \<Longrightarrow> distinct (take i xs @ drop j xs)"
  by (simp add: set_take_disj_set_drop_if_distinct)

lemma inv_wf_deleteList:
  assumes "inv_wf iv" and "inv_deleteList name iv = Inr (b, iv')"
  shows "inv_wf iv'"
proof (cases "inv_getListIndex name iv")
  case None
  with assms show ?thesis by (simp add: inv_deleteList_def)
next
  case (Some i)
  then have "inv_lists iv' = take i (inv_lists iv) @ drop (i + 1) (inv_lists iv)"
    using assms(2) by (auto simp: inv_deleteList_def)
  moreover have "distinct (map il_name (take i (inv_lists iv) @ drop (i + 1) (inv_lists iv)))"
    using distinct_cut [of "map il_name (inv_lists iv)" i "i + 1"] assms(1)
    by (simp add: inv_wf_def take_map drop_map)
  ultimately show ?thesis
    using assms(1) by (auto simp: inv_wf_def list_all_iff dest: in_set_takeD in_set_dropD)
qed

lemma inv_getList_addList:
  assumes "inv_wf iv" and "CHR '' '' \<notin> set name" and "inv_addList name sz iv = Inr (p, iv')"
  shows "\<exists>l. inv_getList name iv' = Some l \<and> il_name l = name \<and>
    il_items l = replicate (unat sz) empty_stack"
proof (cases "inv_getListIndex name iv")
  case None
  then have n: "name \<notin> il_name ` set (inv_lists iv)"
    by (simp add: inv_getListIndex_def list_index_None)
  have "inv_lists iv' = inv_lists iv @ [il_new name sz]"
    using assms(2,3) None by (auto simp: inv_addList_def Let_def)
  moreover have "distinct (map il_name (inv_lists iv @ [il_new name sz]))"
    using assms(1) n by (simp add: inv_wf_def)
  then have "list_index name (inv_lists iv @ [il_new name sz]) = Some (length (inv_lists iv))"
    using list_index_distinct [of "inv_lists iv @ [il_new name sz]" "length (inv_lists iv)"] by simp
  ultimately show ?thesis
    by (auto simp: inv_getList_def inv_getListIndex_def il_new_def il_clearItems_def)
next
  case (Some i)
  then have i: "i < length (inv_lists iv)" "il_name (inv_lists iv ! i) = name"
    using list_index_Some by (simp_all add: inv_getListIndex_def)
  have wf': "inv_wf iv'"
    by (rule inv_wf_addList [OF assms(1,3)])
  obtain l where l: "il_setSize sz (inv_lists iv ! i) = Inr l"
    and iv': "inv_lists iv' = (inv_lists iv)[i := il_clearItems l]"
    using assms(3) Some by (auto simp: inv_addList_def Let_def)
  have "il_wf (inv_lists iv ! i)"
    using assms(1) i by (simp add: inv_wf_def list_all_length)
  then have l': "il_name l = name" "unat (il_size l) = unat sz"
    using il_setSize_ok [OF l] i by (simp_all add: il_wf_def)
  have "list_index name (inv_lists iv') = Some i"
    using list_index_distinct [of "inv_lists iv'" i] wf' i l' by (simp add: iv' inv_wf_def)
  then show ?thesis
    using i l' by (simp add: inv_getList_def inv_getListIndex_def iv' il_clearItems_def)
qed

subsection \<open>Round trip of the text format\<close>

lemma hex_chars_newline: "k < 16 \<Longrightarrow> hex_chars ! k \<noteq> newline"
proof -
  have "\<forall>k \<in> set [0..<16]. hex_chars ! k \<noteq> newline"
    by code_simp
  then show "k < 16 \<Longrightarrow> ?thesis" by simp
qed

lemma newline_json_escape [simp]: "newline \<notin> set (json_escape c)"
proof -
  have "of_char c div 16 < (16 :: nat)" if "of_char c < (32 :: nat) \<or> of_char c = (127 :: nat)"
    using that by auto
  then show ?thesis
    using hex_chars_newline [of "of_char c div 16"] hex_chars_newline [of "of_char c mod 16"]
    by (auto simp: json_escape_def Let_def)
qed

lemma newline_serializeJsonStringIfNeeded [simp]: "newline \<notin> set (serializeJsonStringIfNeeded s)"
proof -
  have "needs_json newline"
    by (simp add: needs_json_def)
  then show ?thesis
    by (auto simp: serializeJsonStringIfNeeded_def serializeJsonString_def)
qed

lemma newline_nat_str [simp]: "newline \<notin> set (nat_str n)"
  by (rule nat_str_sep) (simp add: is_digit_def)

lemma newline_ItemStack_serialize [simp]: "newline \<notin> set (ItemStack_serialize True s)"
  by (auto simp: ItemStack_serialize_def ItemStackMetadata_serialize_def Let_def)

text \<open>When a slot has been read back as it was written.\<close>

definition reads_as :: "item_stack \<Rightarrow> item_stack \<Rightarrow> bool" where
  "reads_as s s' \<longleftrightarrow>
     (if ItemStack_empty s then ItemStack_empty s'
      else st_name s' = st_name s \<and> st_count s' = st_count s \<and> st_wear s' = st_wear s \<and>
           stringvars (st_meta s') = stringvars (st_meta s))"

definition slot_ok :: "IItemDefManager option \<Rightarrow> item_stack \<Rightarrow> bool" where
  "slot_ok itemdef s \<longleftrightarrow> ItemStack_empty s \<or> storable itemdef s"

lemma getline_line:
  "newline \<notin> set line \<Longrightarrow>
    getline newline old \<lparr>buf = line @ newline # rest, good = True\<rparr> = (line, \<lparr>buf = rest, good = True\<rparr>)"
  by simp

lemma getline_word:
  "CHR '' '' \<notin> set w \<Longrightarrow> getline (CHR '' '') [] (open_stream (w @ CHR '' '' # r)) = (w, \<lparr>buf = r, good = True\<rparr>)"
  "CHR '' '' \<notin> set w \<Longrightarrow> getline (CHR '' '') [] (open_stream w) = (w, \<lparr>buf = [], good = False\<rparr>)"
  by (simp_all add: open_stream_def)

lemmas item_words =
  getline_word(1) [where w = "''Item''", simplified] getline_word(2) [where w = "''Empty''", simplified]
  getline_word(2) [where w = "''EndInventoryList''", simplified]
  getline_word(1) [where w = "''Width''", simplified] getline_word(1) [where w = "''List''", simplified]
  getline_word(2) [where w = "''EndInventory''", simplified]
  getline_word(1) [where w = "''KeepList''", simplified]

lemma il_read_end:
  assumes "k \<le> length (il_items l)" and "length (il_items l) < 4294967296"
  shows "il_read itemdef \<lparr>buf = ''EndInventoryList'' @ newline # rest, good = True\<rparr> (of_nat k) l =
    Inr (l\<lparr>il_items := clear_from k (il_items l)\<rparr>, \<lparr>buf = rest, good = True\<rparr>)"
  using assms getline_line [of "''EndInventoryList''" "[]" rest]
  by (subst il_read.simps) (simp add: item_words unat_of_nat_u32)

lemma il_index_ok:
  assumes "k < length (il_items l)" and "length (il_items l) < 4294967296"
  shows "\<not> (of_nat k :: u32) > il_getSize l - 1" and "unat (of_nat k :: u32) = k"
proof -
  show k: "unat (of_nat k :: u32) = k"
    using assms by (simp add: unat_of_nat_u32)
  have "unat (il_getSize l) = length (il_items l)"
    using assms by (simp add: il_getSize_def unat_of_nat_u32)
  then have "unat (il_getSize l - 1) = length (il_items l) - 1"
    using assms(1) by (subst unat_minus_one) auto
  then show "\<not> (of_nat k :: u32) > il_getSize l - 1"
    using k assms(1) by (simp add: word_less_nat_alt)
qed

lemma il_read_item:
  assumes "slot_ok itemdef s" and k: "k < length (il_items l)" "length (il_items l) < 4294967296"
  shows "\<exists>s'. reads_as s s' \<and>
    il_read itemdef \<lparr>buf = il_serialize_item s @ rest, good = True\<rparr> (of_nat k) l =
    il_read itemdef \<lparr>buf = rest, good = True\<rparr> (of_nat (k + 1)) (l\<lparr>il_items := (il_items l)[k := s']\<rparr>)"
proof (cases "ItemStack_empty s")
  case True
  note line = getline_line [of "''Empty''" "[]" rest, simplified]
  have "il_read itemdef \<lparr>buf = il_serialize_item s @ rest, good = True\<rparr> (of_nat k) l =
    il_read itemdef \<lparr>buf = rest, good = True\<rparr> (of_nat k + 1)
      (l\<lparr>il_items := (il_items l)[k := ItemStack_clear (il_items l ! k)]\<rparr>)"
    using True k il_index_ok [OF k]
    by (subst il_read.simps) (simp add: il_serialize_item_def line item_words)
  with True show ?thesis
    by (intro exI [of _ "ItemStack_clear (il_items l ! k)"]) (simp add: reads_as_def add.commute)
next
  case False
  then have st: "storable itemdef s"
    using assms(1) by (simp add: slot_ok_def)
  obtain s' is' where r: "ItemStack_deSerialize itemdef (open_stream (ItemStack_serialize True s)) empty_stack = Inr (s', is')"
    "reads_as s s'"
    using ItemStack_reads_back [OF st, of empty_stack] False by (auto simp: reads_as_def)
  note line = getline_line [of "''Item '' @ ItemStack_serialize True s" "[]" rest, simplified]
  have "il_read itemdef \<lparr>buf = il_serialize_item s @ rest, good = True\<rparr> (of_nat k) l =
    il_read itemdef \<lparr>buf = rest, good = True\<rparr> (of_nat k + 1) (l\<lparr>il_items := (il_items l)[k := s']\<rparr>)"
    using False k il_index_ok [OF k] r(1) [unfolded open_stream_def]
    by (subst il_read.simps) (simp add: il_serialize_item_def line item_words)
  with r(2) show ?thesis
    by (intro exI [of _ s']) (simp add: add.commute)
qed

lemma il_read_items:
  assumes "list_all (slot_ok itemdef) ss" and "k + length ss = length (il_items l)"
    and "length (il_items l) < 4294967296"
  shows "\<exists>ss'. list_all2 reads_as ss ss' \<and>
    il_read itemdef \<lparr>buf = concat (map il_serialize_item ss) @ ''EndInventoryList'' @ newline # rest, good = True\<rparr>
      (of_nat k) l =
    Inr (l\<lparr>il_items := take k (il_items l) @ ss'\<rparr>, \<lparr>buf = rest, good = True\<rparr>)"
  using assms
proof (induction ss arbitrary: k l)
  case Nil
  then show ?case
    using il_read_end [of k l itemdef rest] by (auto simp: clear_from_def)
next
  case (Cons s ss)
  let ?tail = "concat (map il_serialize_item ss) @ ''EndInventoryList'' @ newline # rest"
  obtain s' where s': "reads_as s s'"
    and step: "il_read itemdef \<lparr>buf = il_serialize_item s @ ?tail, good = True\<rparr> (of_nat k) l =
      il_read itemdef \<lparr>buf = ?tail, good = True\<rparr> (of_nat (k + 1)) (l\<lparr>il_items := (il_items l)[k := s']\<rparr>)"
    using il_read_item [of itemdef s k l ?tail] Cons.prems by auto
  obtain ss' where "list_all2 reads_as ss ss'"
    and rec: "il_read itemdef \<lparr>buf = ?tail, good = True\<rparr> (of_nat (k + 1)) (l\<lparr>il_items := (il_items l)[k := s']\<rparr>) =
      Inr (l\<lparr>il_items := take (k + 1) ((il_items l)[k := s']) @ ss'\<rparr>, \<lparr>buf = rest, good = True\<rparr>)"
    using Cons.IH [of "k + 1" "l\<lparr>il_items := (il_items l)[k := s']\<rparr>"] Cons.prems by auto
  moreover have "take (k + 1) ((il_items l)[k := s']) = take k (il_items l) @ [s']"
    using Cons.prems(2) by (simp add: take_Suc_conv_app_nth)
  ultimately show ?case
    using s' step by (intro exI [of _ "s' # ss'"]) simp
qed

text \<open>A list is read back into any list of its size.\<close>

lemma il_reads_back:
  assumes "list_all (slot_ok itemdef) (il_items l)" and "length (il_items l0) = length (il_items l)"
    and "length (il_items l) < 4294967296"
  shows "\<exists>ss'. list_all2 reads_as (il_items l) ss' \<and>
    il_deSerialize itemdef \<lparr>buf = il_serialize l @ rest, good = True\<rparr> l0 =
    Inr (l0\<lparr>il_items := ss', il_width := il_width l, il_dirty := True\<rparr>, \<lparr>buf = rest, good = True\<rparr>)"
proof -
  let ?tail = "concat (map il_serialize_item (il_items l)) @ ''EndInventoryList'' @ newline # rest"
  let ?l1 = "l0\<lparr>il_dirty := True, il_width := 0\<rparr>"
  note line = getline_line [of "''Width '' @ nat_str (unat (il_width l))" "[]" ?tail, simplified]
  have width: "extract_unsigned 4294967295 \<lparr>buf = nat_str (unat (il_width l)), good = True\<rparr> =
      (Some (unat (il_width l)), False, \<lparr>buf = [], good = False\<rparr>)"
    using extract_nat_str [of "unat (il_width l)" 4294967295 "[]"] unat_u32_less [of "il_width l"] by simp
  have "il_deSerialize itemdef \<lparr>buf = il_serialize l @ rest, good = True\<rparr> l0 =
      il_read itemdef \<lparr>buf = ?tail, good = True\<rparr> (of_nat 0) (?l1\<lparr>il_width := il_width l\<rparr>)"
    unfolding il_deSerialize_def
    by (subst il_read.simps) (simp add: il_serialize_def line item_words width)
  moreover obtain ss' where "list_all2 reads_as (il_items l) ss'"
    "il_read itemdef \<lparr>buf = ?tail, good = True\<rparr> (of_nat 0) (?l1\<lparr>il_width := il_width l\<rparr>) =
      Inr (?l1\<lparr>il_width := il_width l, il_items := take 0 (il_items l0) @ ss'\<rparr>, \<lparr>buf = rest, good = True\<rparr>)"
    using il_read_items [of itemdef "il_items l" 0 "?l1\<lparr>il_width := il_width l\<rparr>" rest] assms by auto
  ultimately show ?thesis
    by auto
qed

text \<open>When a list has been read back as it was written, and which lists can be.\<close>

definition list_reads_as :: "inv_list \<Rightarrow> inv_list \<Rightarrow> bool" where
  "list_reads_as l l' \<longleftrightarrow>
     il_name l' = il_name l \<and> il_width l' = il_width l \<and> list_all2 reads_as (il_items l) (il_items l')"

definition list_ok :: "IItemDefManager option \<Rightarrow> inv_list \<Rightarrow> bool" where
  "list_ok itemdef l \<longleftrightarrow>
     list_all (slot_ok itemdef) (il_items l) \<and> length (il_items l) < 4294967296 \<and>
     CHR '' '' \<notin> set (il_name l) \<and> newline \<notin> set (il_name l)"

abbreviation list_line :: "inv_list \<Rightarrow> string" where
  "list_line l \<equiv> ''List '' @ il_name l @ '' '' @ nat_str (unat (il_getSize l))"

lemma list_line_reads:
  assumes "list_ok itemdef l"
  shows "getline newline [] \<lparr>buf = list_line l @ newline # rest, good = True\<rparr> =
      (list_line l, \<lparr>buf = rest, good = True\<rparr>)"
    and "getline (CHR '' '') [] \<lparr>buf = il_name l @ '' '' @ nat_str (unat (il_getSize l)), good = True\<rparr> =
      (il_name l, \<lparr>buf = nat_str (unat (il_getSize l)), good = True\<rparr>)"
    and "extract_unsigned 4294967295 \<lparr>buf = nat_str (unat (il_getSize l)), good = True\<rparr> =
      (Some (length (il_items l)), False, \<lparr>buf = [], good = False\<rparr>)"
    and "unat (of_nat (length (il_items l)) :: u32) = length (il_items l)"
proof -
  show u: "unat (of_nat (length (il_items l)) :: u32) = length (il_items l)"
    using assms by (simp add: list_ok_def unat_of_nat_u32)
  show "getline newline [] \<lparr>buf = list_line l @ newline # rest, good = True\<rparr> =
      (list_line l, \<lparr>buf = rest, good = True\<rparr>)"
    by (rule getline_line) (use assms in \<open>simp add: list_ok_def\<close>)
  show "getline (CHR '' '') [] \<lparr>buf = il_name l @ '' '' @ nat_str (unat (il_getSize l)), good = True\<rparr> =
      (il_name l, \<lparr>buf = nat_str (unat (il_getSize l)), good = True\<rparr>)"
    using assms by (simp add: list_ok_def)
  have "unat (il_getSize l) = length (il_items l)"
    using u by (simp add: il_getSize_def)
  then show "extract_unsigned 4294967295 \<lparr>buf = nat_str (unat (il_getSize l)), good = True\<rparr> =
      (Some (length (il_items l)), False, \<lparr>buf = [], good = False\<rparr>)"
    using extract_nat_str [of "length (il_items l)" 4294967295 "[]"] assms by (simp add: list_ok_def)
qed

lemma inv_read_new_list:
  assumes ok: "list_ok itemdef l" and sent: "\<not> incremental \<or> il_dirty l"
    and new: "inv_getListIndex (il_name l) iv = None"
  shows "\<exists>l'. list_reads_as l l' \<and>
    inv_read itemdef \<lparr>buf = inv_serialize_list incremental l @ rest, good = True\<rparr> nl iv =
    inv_read itemdef \<lparr>buf = rest, good = True\<rparr> (nl @ [length (inv_lists iv)])
      (iv\<lparr>inv_lists := inv_lists iv @ [l']\<rparr>)"
proof -
  let ?l0 = "il_new (il_name l) (of_nat (length (il_items l)))"
  note line = list_line_reads [OF ok, simplified]
  obtain ss' where ss': "list_all2 reads_as (il_items l) ss'"
    and d: "il_deSerialize itemdef \<lparr>buf = il_serialize l @ rest, good = True\<rparr> ?l0 =
      Inr (?l0\<lparr>il_items := ss', il_width := il_width l, il_dirty := True\<rparr>, \<lparr>buf = rest, good = True\<rparr>)"
    using il_reads_back [of itemdef l ?l0 rest] ok line(4) by (auto simp: list_ok_def)
  let ?l' = "?l0\<lparr>il_items := ss', il_width := il_width l, il_dirty := True\<rparr>"
  have "inv_read itemdef \<lparr>buf = inv_serialize_list incremental l @ rest, good = True\<rparr> nl iv =
    inv_read itemdef \<lparr>buf = rest, good = True\<rparr> (nl @ [length (inv_lists iv)])
      (iv\<lparr>inv_lists := inv_lists iv @ [?l']\<rparr>)"
    using sent new d
    by (subst inv_read.simps) (auto simp: inv_serialize_list_def line item_words)
  with ss' show ?thesis
    by (intro exI [of _ ?l']) (simp add: list_reads_as_def)
qed

lemma inv_read_known_list:
  assumes ok: "list_ok itemdef l" and sent: "\<not> incremental \<or> il_dirty l"
    and known: "inv_getListIndex (il_name l) iv = Some i"
    and free: "il_locks (inv_lists iv ! i) = 0" and wf: "il_wf (inv_lists iv ! i)"
  shows "\<exists>l'. list_reads_as l l' \<and> il_locks l' = 0 \<and>
    inv_read itemdef \<lparr>buf = inv_serialize_list incremental l @ rest, good = True\<rparr> nl iv =
    inv_read itemdef \<lparr>buf = rest, good = True\<rparr> (nl @ [i]) (iv\<lparr>inv_lists := (inv_lists iv)[i := l']\<rparr>)"
proof -
  let ?n = "of_nat (length (il_items l)) :: u32"
  note line = list_line_reads [OF ok, simplified]
  obtain l0 where l0: "il_setSize ?n (inv_lists iv ! i) = Inr l0"
    using il_setSize_free [OF free] by blast
  have name: "il_name (inv_lists iv ! i) = il_name l"
    using known list_index_Some by (simp add: inv_getListIndex_def)
  have l0': "il_name l0 = il_name l" "il_locks l0 = 0" "length (il_items l0) = length (il_items l)"
    using il_setSize_ok [OF l0 wf] name free line(4) by simp_all
  obtain ss' where ss': "list_all2 reads_as (il_items l) ss'"
    and d: "il_deSerialize itemdef \<lparr>buf = il_serialize l @ rest, good = True\<rparr> l0 =
      Inr (l0\<lparr>il_items := ss', il_width := il_width l, il_dirty := True\<rparr>, \<lparr>buf = rest, good = True\<rparr>)"
    using il_reads_back [of itemdef l l0 rest] ok l0' by (auto simp: list_ok_def)
  let ?l' = "l0\<lparr>il_items := ss', il_width := il_width l, il_dirty := True\<rparr>"
  have "inv_read itemdef \<lparr>buf = inv_serialize_list incremental l @ rest, good = True\<rparr> nl iv =
    inv_read itemdef \<lparr>buf = rest, good = True\<rparr> (nl @ [i]) (iv\<lparr>inv_lists := (inv_lists iv)[i := ?l']\<rparr>)"
    using sent known l0 d
    by (subst inv_read.simps) (auto simp: inv_serialize_list_def line item_words)
  with ss' l0' show ?thesis
    by (intro exI [of _ ?l']) (simp add: list_reads_as_def)
qed

lemma inv_read_kept_list:
  assumes "list_ok itemdef l" and "incremental" and "\<not> il_dirty l"
    and "inv_getListIndex (il_name l) iv = Some i"
  shows "inv_read itemdef \<lparr>buf = inv_serialize_list incremental l @ rest, good = True\<rparr> nl iv =
    inv_read itemdef \<lparr>buf = rest, good = True\<rparr> (nl @ [i]) iv"
proof -
  have "newline \<notin> set (''KeepList '' @ il_name l)"
    using assms(1) by (simp add: list_ok_def)
  note line = getline_line [OF this, of "[]" rest, simplified]
  have "getline (CHR '' '') [] \<lparr>buf = il_name l, good = True\<rparr> = (il_name l, \<lparr>buf = [], good = False\<rparr>)"
    using assms(1) by (simp add: list_ok_def)
  with assms show ?thesis
    by (subst inv_read.simps) (auto simp: inv_serialize_list_def line item_words)
qed

lemma inv_read_end:
  "inv_read itemdef \<lparr>buf = ''EndInventory'' @ newline # rest, good = True\<rparr> nl iv =
    Inr (erase_unsent nl iv, \<lparr>buf = rest, good = True\<rparr>)"
  using getline_line [of "''EndInventory''" "[]" rest]
  by (subst inv_read.simps) (simp add: item_words)

lemma erase_unsent_all: "{0..<length (inv_lists iv)} \<subseteq> set nl \<Longrightarrow> erase_unsent nl iv = iv"
proof -
  assume "{0..<length (inv_lists iv)} \<subseteq> set nl"
  then have "filter (\<lambda>i. i \<in> set nl) [0..<length (inv_lists iv)] = [0..<length (inv_lists iv)]"
    by (auto simp: filter_id_conv)
  then show ?thesis
    by (simp add: erase_unsent_def)
qed

lemma inv_read_fresh:
  assumes "list_all (list_ok itemdef) ls" and "distinct (map il_name (inv_lists iv @ ls))"
    and "{0..<length (inv_lists iv)} \<subseteq> set nl"
  shows "\<exists>ls'. list_all2 list_reads_as ls ls' \<and>
    inv_read itemdef
      \<lparr>buf = concat (map (inv_serialize_list False) ls) @ ''EndInventory'' @ newline # rest, good = True\<rparr> nl iv =
    Inr (iv\<lparr>inv_lists := inv_lists iv @ ls'\<rparr>, \<lparr>buf = rest, good = True\<rparr>)"
  using assms
proof (induction ls arbitrary: iv nl)
  case Nil
  then show ?case by (simp add: inv_read_end [simplified] erase_unsent_all)
next
  case (Cons l ls)
  let ?tail = "concat (map (inv_serialize_list False) ls) @ ''EndInventory'' @ newline # rest"
  have "inv_getListIndex (il_name l) iv = None"
    using Cons.prems(2) by (auto simp: inv_getListIndex_def list_index_None)
  then obtain l' where l': "list_reads_as l l'"
    and step: "inv_read itemdef \<lparr>buf = inv_serialize_list False l @ ?tail, good = True\<rparr> nl iv =
      inv_read itemdef \<lparr>buf = ?tail, good = True\<rparr> (nl @ [length (inv_lists iv)])
        (iv\<lparr>inv_lists := inv_lists iv @ [l']\<rparr>)"
    using inv_read_new_list [of itemdef l False iv ?tail nl] Cons.prems(1) by auto
  let ?iv = "iv\<lparr>inv_lists := inv_lists iv @ [l']\<rparr>"
  have "\<exists>ls'. list_all2 list_reads_as ls ls' \<and>
    inv_read itemdef \<lparr>buf = ?tail, good = True\<rparr> (nl @ [length (inv_lists iv)]) ?iv =
    Inr (?iv\<lparr>inv_lists := inv_lists ?iv @ ls'\<rparr>, \<lparr>buf = rest, good = True\<rparr>)"
    using Cons.prems l' by (intro Cons.IH) (auto simp: list_reads_as_def less_Suc_eq)
  then obtain ls' where "list_all2 list_reads_as ls ls'"
    "inv_read itemdef \<lparr>buf = ?tail, good = True\<rparr> (nl @ [length (inv_lists iv)]) ?iv =
      Inr (iv\<lparr>inv_lists := inv_lists iv @ l' # ls'\<rparr>, \<lparr>buf = rest, good = True\<rparr>)"
    by auto
  then show ?case
    using l' step by (intro exI [of _ "l' # ls'"]) simp
qed

text \<open>
  An incremental message read into a copy that has the same lists, and the right contents in
  those that the message keeps.
\<close>

definition up_to_date :: "inv_list \<Rightarrow> inv_list \<Rightarrow> bool" where
  "up_to_date l c \<longleftrightarrow> il_name c = il_name l \<and> il_locks c = 0 \<and> il_wf c \<and> (\<not> il_dirty l \<longrightarrow> list_reads_as l c)"

lemma inv_read_incremental:
  assumes "list_all (list_ok itemdef) ls" and "list_all2 up_to_date ls cs"
    and "distinct (map il_name (pre @ cs))" and "{0..<length pre} \<subseteq> set nl"
  shows "\<exists>ls'. list_all2 list_reads_as ls ls' \<and>
    inv_read itemdef
      \<lparr>buf = concat (map (inv_serialize_list True) ls) @ ''EndInventory'' @ newline # rest, good = True\<rparr> nl
      (iv\<lparr>inv_lists := pre @ cs\<rparr>) =
    Inr (iv\<lparr>inv_lists := pre @ ls'\<rparr>, \<lparr>buf = rest, good = True\<rparr>)"
  using assms
proof (induction ls arbitrary: cs pre nl)
  case Nil
  then show ?case by (simp add: inv_read_end [simplified] erase_unsent_all)
next
  case (Cons l ls)
  then obtain c cs' where cs: "cs = c # cs'" and c: "up_to_date l c" and cs': "list_all2 up_to_date ls cs'"
    by (auto simp: list_all2_Cons1)
  let ?tail = "concat (map (inv_serialize_list True) ls) @ ''EndInventory'' @ newline # rest"
  let ?iv = "iv\<lparr>inv_lists := pre @ cs\<rparr>"
  have idx: "inv_getListIndex (il_name l) ?iv = Some (length pre)"
    using list_index_distinct [of "pre @ cs" "length pre"] Cons.prems(3) c
    by (simp add: inv_getListIndex_def cs up_to_date_def)
  have "\<exists>l'. list_reads_as l l' \<and>
    inv_read itemdef \<lparr>buf = inv_serialize_list True l @ ?tail, good = True\<rparr> nl ?iv =
      inv_read itemdef \<lparr>buf = ?tail, good = True\<rparr> (nl @ [length pre]) (iv\<lparr>inv_lists := pre @ l' # cs'\<rparr>)"
  proof (cases "il_dirty l")
    case True
    then show ?thesis
      using inv_read_known_list [of itemdef l True ?iv "length pre" ?tail nl] Cons.prems(1) idx c
      by (auto simp: cs up_to_date_def)
  next
    case False
    then show ?thesis
      using inv_read_kept_list [of itemdef l True ?iv "length pre" ?tail nl] Cons.prems(1) idx c
      by (intro exI [of _ c]) (simp add: cs up_to_date_def)
  qed
  then obtain l' where l': "list_reads_as l l'"
    and step: "inv_read itemdef \<lparr>buf = inv_serialize_list True l @ ?tail, good = True\<rparr> nl ?iv =
      inv_read itemdef \<lparr>buf = ?tail, good = True\<rparr> (nl @ [length pre]) (iv\<lparr>inv_lists := (pre @ [l']) @ cs'\<rparr>)"
    by auto
  have "distinct (map il_name ((pre @ [l']) @ cs'))"
    using Cons.prems(3) l' c by (simp add: cs list_reads_as_def up_to_date_def)
  moreover have "{0..<length (pre @ [l'])} \<subseteq> set (nl @ [length pre])"
    using Cons.prems(4) by (auto simp: less_Suc_eq)
  ultimately obtain ls' where "list_all2 list_reads_as ls ls'"
    "inv_read itemdef \<lparr>buf = ?tail, good = True\<rparr> (nl @ [length pre]) (iv\<lparr>inv_lists := (pre @ [l']) @ cs'\<rparr>) =
      Inr (iv\<lparr>inv_lists := (pre @ [l']) @ ls'\<rparr>, \<lparr>buf = rest, good = True\<rparr>)"
    using Cons.IH [OF _ cs', of "pre @ [l']" "nl @ [length pre]"] Cons.prems(1) by auto
  then show ?case
    using l' step by (intro exI [of _ "l' # ls'"]) simp
qed

subsection \<open>Properties\<close>

lemma inv_reads_back:
  assumes "list_all (list_ok itemdef) (inv_lists iv)" and "inv_wf iv"
  shows "\<exists>iv'. inv_deSerialize itemdef \<lparr>buf = inv_serialize False iv @ rest, good = True\<rparr> inv_new =
      Inr (iv', \<lparr>buf = rest, good = True\<rparr>) \<and>
    list_all2 list_reads_as (inv_lists iv) (inv_lists iv')"
  using inv_read_fresh [of itemdef "inv_lists iv" inv_new "[]" rest] assms
  by (auto simp: inv_deSerialize_def inv_serialize_def inv_new_def inv_wf_def)

text \<open>
  C9: an inventory written in full and read into an empty one has the same lists in the same
  order, each with its name, its width and, slot by slot, the name, count, wear and metadata
  of its stacks, and the reader stops right after the inventory.
\<close>

theorem inventory_roundtrip:
  assumes "list_all (list_ok itemdef) (inv_lists iv)" and "inv_wf iv"
  shows "\<exists>iv'. inv_deSerialize itemdef \<lparr>buf = inv_serialize False iv @ rest, good = True\<rparr> inv_new =
      Inr (iv', \<lparr>buf = rest, good = True\<rparr>) \<and>
    list_all2 list_reads_as (inv_lists iv) (inv_lists iv')"
  by (rule inv_reads_back [OF assms])

definition example_inventory :: inventory where
  "example_inventory = \<lparr>inv_lists = [example_list [stone 7, empty_stack]], inv_dirty = True\<rparr>"

lemma example_list_ok: "list_ok None (example_list [stone 7, empty_stack])"
proof -
  have "storable None (stone 7)"
    by (simp add: storable_def stone_def ItemStack_empty_def legacy_item_names_def apply_alias_def
        item_metadata_new)
  then show ?thesis
    by (simp add: list_ok_def example_list_def slot_ok_def)
qed

lemma example_inventory_ok:
  "list_all (list_ok None) (inv_lists example_inventory)" "inv_wf example_inventory"
  using example_list_ok
  by (simp_all add: example_inventory_def inv_wf_def il_wf_def) (simp add: example_list_def)

theorem inventory_roundtrip_witness:
  "\<exists>iv'. inv_deSerialize None \<lparr>buf = inv_serialize False example_inventory @ ''tail'', good = True\<rparr> inv_new =
      Inr (iv', \<lparr>buf = ''tail'', good = True\<rparr>) \<and>
    list_all2 list_reads_as (inv_lists example_inventory) (inv_lists iv')"
  by (rule inventory_roundtrip [OF example_inventory_ok])

text \<open>
  C10: the incremental update. A client whose copy has the same lists, with the right contents
  in the lists the server has not modified, has after reading the server's incremental message
  the server's contents in every list: the modified lists are replaced, the others kept.
\<close>

theorem incremental_update:
  assumes "list_all (list_ok itemdef) (inv_lists server)" and "inv_wf client"
    and "list_all2 up_to_date (inv_lists server) (inv_lists client)"
  shows "\<exists>client'. inv_deSerialize itemdef
      \<lparr>buf = inv_serialize True server @ rest, good = True\<rparr> client = Inr (client', \<lparr>buf = rest, good = True\<rparr>) \<and>
    list_all2 list_reads_as (inv_lists server) (inv_lists client')"
proof -
  obtain ls' where "list_all2 list_reads_as (inv_lists server) ls'"
    "inv_deSerialize itemdef \<lparr>buf = inv_serialize True server @ rest, good = True\<rparr> client =
      Inr (client\<lparr>inv_lists := ls'\<rparr>, \<lparr>buf = rest, good = True\<rparr>)"
    using inv_read_incremental [of itemdef "inv_lists server" "inv_lists client" "[]" "[]" rest client] assms
    by (auto simp: inv_deSerialize_def inv_serialize_def inv_wf_def)
  then show ?thesis by auto
qed

theorem incremental_update_witness:
  "\<exists>client'. inv_deSerialize None
      \<lparr>buf = inv_serialize True example_inventory @ [], good = True\<rparr> example_inventory =
      Inr (client', \<lparr>buf = [], good = True\<rparr>) \<and>
    list_all2 list_reads_as (inv_lists example_inventory) (inv_lists client')"
proof (rule incremental_update [OF example_inventory_ok])
  have "il_wf (example_list [stone 7, empty_stack])"
    by (simp add: il_wf_def example_list_def)
  then show "list_all2 up_to_date (inv_lists example_inventory) (inv_lists example_inventory)"
    by (simp add: example_inventory_def up_to_date_def list_reads_as_def reads_as_def)
      (simp add: example_list_def reads_as_def)
qed

text \<open>
  The operations of an inventory keep list names unique and every list's size equal to its
  number of slots, and after \<open>addList\<close> the list of that name is found, empty and of the size
  asked for, whether it existed or not.
\<close>

theorem inventory_lists_invariant:
  assumes "inv_wf iv"
  shows "(\<forall>p iv1. inv_addList name sz iv = Inr (p, iv1) \<longrightarrow> inv_wf iv1 \<and>
      (CHR '' '' \<in> set name \<or> (\<exists>l. inv_getList name iv1 = Some l \<and> il_name l = name \<and>
         il_items l = replicate (unat sz) empty_stack))) \<and>
    (\<forall>b iv2. inv_deleteList name iv = Inr (b, iv2) \<longrightarrow> inv_wf iv2)"
  using inv_wf_addList [OF assms] inv_getList_addList [OF assms] inv_wf_deleteList [OF assms] by blast

theorem inventory_lists_invariant_witness:
  "inv_wf (example_inventory\<lparr>inv_lists := inv_lists example_inventory @ [il_new ''craft'' 4]\<rparr>) \<and>
   inv_wf \<lparr>inv_lists = [], inv_dirty = True\<rparr>"
proof -
  have "inv_addList ''craft'' 4 example_inventory =
      Inr (Some 1, example_inventory\<lparr>inv_lists := inv_lists example_inventory @ [il_new ''craft'' 4]\<rparr>)"
    "inv_deleteList ''main'' example_inventory = Inr (True, \<lparr>inv_lists = [], inv_dirty = True\<rparr>)"
    by (simp_all add: inv_addList_def inv_deleteList_def inv_getListIndex_def example_inventory_def
        example_list_def il_checkResizeLock_def)
  then show ?thesis
    using inventory_lists_invariant [OF example_inventory_ok(2), of "''craft''" 4]
      inventory_lists_invariant [OF example_inventory_ok(2), of "''main''" 0] by blast
qed

end
