(* ===== verification/MtpPackets.thy ===== *)
theory MtpPackets
  imports Serialize
begin

section \<open>Packets of the transport protocol\<close>

text \<open>
  \<^verbatim>\<open>src/network/mtp/internal.h\<close> and the packet building functions of
  \<^verbatim>\<open>src/network/mtp/impl.cpp\<close>: the arithmetic of the circular sequence numbers, the base,
  original, split and reliable headers, and the buffers that put packets in order and split
  packets together again. An address is a number: the code only compares addresses. The
  timers of the buffers, which are floating point numbers, are left out.
\<close>

definition PROTOCOL_ID :: u32 where "PROTOCOL_ID = 0x4f457403"
definition MAX_UDP_PEERS :: u16 where "MAX_UDP_PEERS = 0x3fff"
definition BASE_HEADER_SIZE :: nat where "BASE_HEADER_SIZE = 7"
definition CHANNEL_COUNT :: nat where "CHANNEL_COUNT = 3"
definition ORIGINAL_HEADER_SIZE :: nat where "ORIGINAL_HEADER_SIZE = 1"
definition RELIABLE_HEADER_SIZE :: nat where "RELIABLE_HEADER_SIZE = 3"
definition SEQNUM_INITIAL :: u16 where "SEQNUM_INITIAL = 65500"
definition SEQNUM_MAX :: nat where "SEQNUM_MAX = 65535"
definition MAX_RELIABLE_WINDOW_SIZE :: u16 where "MAX_RELIABLE_WINDOW_SIZE = 0x8000"
definition MAX_RELIABLE_WINDOW_SIZE_SEND :: int where "MAX_RELIABLE_WINDOW_SIZE_SEND = 2048"
definition START_RELIABLE_WINDOW_SIZE :: int where "START_RELIABLE_WINDOW_SIZE = 64"
definition MIN_RELIABLE_WINDOW_SIZE :: int where "MIN_RELIABLE_WINDOW_SIZE = 32"

definition PACKET_TYPE_CONTROL :: u8 where "PACKET_TYPE_CONTROL = 0"
definition PACKET_TYPE_ORIGINAL :: u8 where "PACKET_TYPE_ORIGINAL = 1"
definition PACKET_TYPE_SPLIT :: u8 where "PACKET_TYPE_SPLIT = 2"
definition PACKET_TYPE_RELIABLE :: u8 where "PACKET_TYPE_RELIABLE = 3"
definition PACKET_TYPE_MAX :: u8 where "PACKET_TYPE_MAX = 4"

definition CONTROLTYPE_ACK :: u8 where "CONTROLTYPE_ACK = 0"
definition CONTROLTYPE_SET_PEER_ID :: u8 where "CONTROLTYPE_SET_PEER_ID = 1"
definition CONTROLTYPE_PING :: u8 where "CONTROLTYPE_PING = 2"
definition CONTROLTYPE_DISCO :: u8 where "CONTROLTYPE_DISCO = 3"

lemmas packet_types = PACKET_TYPE_CONTROL_def PACKET_TYPE_ORIGINAL_def PACKET_TYPE_SPLIT_def
  PACKET_TYPE_RELIABLE_def PACKET_TYPE_MAX_def

lemmas header_sizes = BASE_HEADER_SIZE_def ORIGINAL_HEADER_SIZE_def RELIABLE_HEADER_SIZE_def

subsection \<open>Sequence numbers\<close>

text \<open>The differences are computed in \<open>int\<close>.\<close>

definition seqnum_higher :: "u16 \<Rightarrow> u16 \<Rightarrow> bool" where
  "seqnum_higher totest base =
     (if totest > base then
        (if unat totest - unat base > SEQNUM_MAX div 2 then False else True)
      else if unat base - unat totest > SEQNUM_MAX div 2 then True
      else False)"

definition seqnum_in_window :: "u16 \<Rightarrow> u16 \<Rightarrow> u16 \<Rightarrow> bool" where
  "seqnum_in_window seqnum nxt window_size =
     (let window_start = nxt;
          window_end = (of_nat ((unat nxt + unat window_size) mod (SEQNUM_MAX + 1)) :: u16)
      in if window_start < window_end then seqnum \<ge> window_start \<and> seqnum < window_end
         else seqnum < window_end \<or> seqnum \<ge> window_start)"

text \<open>How far a sequence number is ahead of another on the circle.\<close>

definition ahead :: "u16 \<Rightarrow> u16 \<Rightarrow> nat" where
  "ahead nxt s = unat (s - nxt)"

lemma ahead_eq: "ahead nxt s = (if nxt \<le> s then unat s - unat nxt else 65536 + unat s - unat nxt)"
proof -
  have "unat nxt < 65536"
    by (rule unat_u16_less)
  then show ?thesis
    by (simp add: ahead_def unat_sub_if_size word_size word_le_nat_alt) linarith
qed

lemma ahead_less: "ahead nxt s < 65536"
  by (simp add: ahead_def unat_u16_less)

lemma ahead_self [simp]: "ahead nxt nxt = 0"
  by (simp add: ahead_def)

lemma ahead_inj: "ahead nxt s = ahead nxt t \<longleftrightarrow> s = t"
  by (simp add: ahead_def word_unat_eq_iff [symmetric])

lemma ahead_0_iff: "ahead nxt s = 0 \<longleftrightarrow> s = nxt"
  using ahead_inj [of nxt s nxt] by simp

lemma ahead_pos_iff: "0 < ahead nxt s \<longleftrightarrow> s \<noteq> nxt"
  using ahead_0_iff [of nxt s] by linarith

lemma seqnum_in_window_ahead:
  "0 < w \<Longrightarrow> seqnum_in_window s nxt w \<longleftrightarrow> ahead nxt s < unat w"
proof -
  assume "0 < w"
  then have w: "0 < unat w" "unat w < 65536"
    by (simp_all add: word_less_nat_alt unat_u16_less)
  have n: "unat nxt < 65536" "unat s < 65536" by (rule unat_u16_less)+
  define window_end where "window_end = (of_nat ((unat nxt + unat w) mod (SEQNUM_MAX + 1)) :: u16)"
  have e: "unat window_end =
      (if unat nxt + unat w < 65536 then unat nxt + unat w else unat nxt + unat w - 65536)"
    using w n by (simp add: window_end_def unat_of_nat_u16 SEQNUM_MAX_def mod_if)
  show ?thesis
    unfolding seqnum_in_window_def Let_def window_end_def [symmetric]
    using w n by (simp add: word_less_nat_alt word_le_nat_alt e ahead_eq) linarith
qed

lemma seqnum_higher_ahead: "seqnum_higher t b \<longleftrightarrow> t \<noteq> b \<and> (ahead b t < 32768 \<or> (ahead b t = 32768 \<and> t < b))"
  using unat_u16_less [of t] unat_u16_less [of b]
  by (auto simp: seqnum_higher_def SEQNUM_MAX_def ahead_eq word_less_nat_alt word_le_nat_alt
      word_unat_eq_iff)

subsection \<open>Packets\<close>

type_synonym address = nat
type_synonym session_t = u16

record packet =
  pk_address :: address
  pk_data :: "u8 list"
  pk_resend_count :: u32

definition getSeqnum :: "packet \<Rightarrow> u16" where
  "getSeqnum p =
     (if length (pk_data p) < BASE_HEADER_SIZE + 3 then 0
      else readU16 (drop (BASE_HEADER_SIZE + 1) (pk_data p)))"

definition setSenderPeerId :: "session_t \<Rightarrow> packet \<Rightarrow> packet res" where
  "setSenderPeerId pid p =
     (if length (pk_data p) < BASE_HEADER_SIZE then Inl AssertFailed
      else Inr (p\<lparr>pk_data := poke 4 (writeU16 pid) (pk_data p)\<rparr>))"

definition makePacket :: "address \<Rightarrow> u8 list \<Rightarrow> u32 \<Rightarrow> session_t \<Rightarrow> u8 \<Rightarrow> packet" where
  "makePacket addr data protocol_id sender_peer_id channel =
     \<lparr>pk_address = addr,
      pk_data = writeU32 protocol_id @ writeU16 sender_peer_id @ [channel] @ data,
      pk_resend_count = 0\<rparr>"

definition makeOriginalPacket :: "u8 list \<Rightarrow> u8 list" where
  "makeOriginalPacket data = [PACKET_TYPE_ORIGINAL] @ data"

definition makeReliablePacket :: "u8 list \<Rightarrow> u16 \<Rightarrow> u8 list" where
  "makeReliablePacket data seqnum = [PACKET_TYPE_RELIABLE] @ writeU16 seqnum @ data"

text \<open>
  The loop of \<open>makeSplitPacket\<close>: the payload of each chunk with its number. The sizes and
  offsets are \<open>u32\<close>: when the data is empty, or the end of a chunk wraps around to before its
  start, the copy reads outside the data.
\<close>

function split_loop :: "u8 list \<Rightarrow> u32 \<Rightarrow> nat \<Rightarrow> nat \<Rightarrow> (nat \<times> u8 list) list res" where
  "split_loop data maximum_data_size start chunk_num =
     (if data = [] \<or> start \<ge> length data then Inl OutOfBounds
      else
        let e = min (unat (of_nat start + maximum_data_size - 1 :: u32)) (length data - 1);
            payload = take (e - start + 1) (drop start data)
        in if e < start then Inl OutOfBounds
           else if chunk_num \<ge> 0xFFFF then Inl AssertFailed
           else if e \<noteq> length data - 1 then
             (case split_loop data maximum_data_size (e + 1) (chunk_num + 1) of
                Inl err \<Rightarrow> Inl err
              | Inr rest \<Rightarrow> Inr ((chunk_num, payload) # rest))
           else Inr [(chunk_num, payload)])"
  by pat_completeness auto
termination
  by (relation "measure (\<lambda>(data, _, start, _). length data - start)") auto

declare split_loop.simps [simp del]

lemma split_end:
  assumes "0 < m" and "start + unat (m :: u32) < 4294967296"
  shows "unat (of_nat start + m - 1 :: u32) = start + unat m - 1"
proof -
  have m: "0 < unat m"
    using assms(1) by (simp add: word_less_nat_alt)
  have "unat (of_nat start :: u32) = start"
    using assms(2) by (simp add: unat_of_nat_u32)
  then have s: "unat (of_nat start + m) = start + unat m"
    using assms(2) by (simp add: unat_plus_if_size word_size)
  then have "1 \<le> of_nat start + m"
    using m by (simp add: word_le_nat_alt)
  then show ?thesis
    using s by (simp add: unat_sub)
qed

definition split_chunk :: "u16 \<Rightarrow> nat \<Rightarrow> nat \<times> u8 list \<Rightarrow> u8 list" where
  "split_chunk seqnum chunk_count = (\<lambda>(chunk_num, payload).
     [PACKET_TYPE_SPLIT] @ writeU16 seqnum @ writeU16 (of_nat chunk_count) @
     writeU16 (of_nat chunk_num) @ payload)"

definition makeSplitPacket :: "u8 list \<Rightarrow> u32 \<Rightarrow> u16 \<Rightarrow> u8 list list res" where
  "makeSplitPacket data chunksize_max seqnum =
     rbind (split_loop data (chunksize_max - 7) 0 0) (\<lambda>chunks.
       Inr (map (split_chunk seqnum (length chunks)) chunks))"

text \<open>The packets, and the next split sequence number.\<close>

definition makeAutoSplitPacket :: "u8 list \<Rightarrow> u32 \<Rightarrow> u16 \<Rightarrow> (u8 list list \<times> u16) res" where
  "makeAutoSplitPacket data chunksize_max split_seqnum =
     (if length data + 1 > unat chunksize_max
      then rbind (makeSplitPacket data chunksize_max split_seqnum) (\<lambda>list. Inr (list, split_seqnum + 1))
      else Inr ([makeOriginalPacket data], split_seqnum))"

subsection \<open>Reading what was written\<close>

lemma length_makePacket [simp]: "length (pk_data (makePacket a d pr s c)) = 7 + length d"
  by (simp add: makePacket_def)

lemma getSeqnum_reliable [simp]: "getSeqnum (makePacket a (makeReliablePacket d q) pr s c) = q"
  by (simp add: getSeqnum_def makePacket_def makeReliablePacket_def header_sizes)

lemma makePacket_fields:
  "readU32 (pk_data (makePacket a d pr s c)) = pr"
  "readU16 (drop 4 (pk_data (makePacket a d pr s c))) = s"
  "pk_data (makePacket a d pr s c) ! 6 = c"
  "drop 7 (pk_data (makePacket a d pr s c)) = d"
  by (simp_all add: makePacket_def nth_append)

lemma split_loop_ok:
  assumes "start < length data" and m: "0 < m" "m = unat mw" and "num + (length data - start + m - 1) div m \<le> 0xFFFF"
    and fits: "length data + m < 4294967296"
  shows "\<exists>chunks. split_loop data mw start num = Inr chunks \<and>
    map fst chunks = [num..<num + length chunks] \<and> chunks \<noteq> [] \<and>
    concat (map snd chunks) = drop start data \<and>
    length chunks = (length data - start + m - 1) div m \<and>
    (\<forall>(k, p) \<in> set chunks. 0 < length p \<and> length p \<le> m)"
  using assms(1,4)
proof (induction "length data - start" arbitrary: start num rule: less_induct)
  case less
  let ?e = "min (start + m - 1) (length data - 1)"
  let ?p = "take (?e - start + 1) (drop start data)"
  have mw: "0 < mw"
    using m by (simp add: word_less_nat_alt)
  have ew: "min (unat (of_nat start + mw - 1 :: u32)) (length data - 1) = ?e"
    using split_end [OF mw, of start] fits less.prems(1) m by simp
  have es: "\<not> ?e < start"
    using less.prems(1) m(1) by linarith
  have pos: "0 < (length data - start + m - 1) div m"
    using less.prems(1) m(1) by (simp add: div_greater_zero_iff)
  then have num: "\<not> num \<ge> 0xFFFF"
    using less.prems(2) by linarith
  have step: "split_loop data mw start num =
      (if ?e \<noteq> length data - 1 then
         (case split_loop data mw (?e + 1) (num + 1) of
            Inl err \<Rightarrow> Inl err | Inr rest \<Rightarrow> Inr ((num, ?p) # rest))
       else Inr [(num, ?p)])"
    using less.prems(1) es num
    by (simp only: split_loop.simps [of data mw start num] Let_def ew if_False) auto
  show ?case
  proof (cases "?e = length data - 1")
    case True
    then have last: "length data - start \<le> m"
      using less.prems m(1) by linarith
    then have one: "(length data - start + m - 1) div m = 1"
      using less.prems m(1) by (intro div_nat_eqI) auto
    moreover have "?p = drop start data"
      using True less.prems(1) by simp
    ultimately show ?thesis
      using less.prems(1) m(1) True last by (simp only: step one) auto
  next
    case False
    then have e: "?e = start + m - 1" "start + m < length data"
      using less.prems m(1) by linarith+
    have count: "(length data - start + m - 1) div m = Suc ((length data - (start + m) + m - 1) div m)"
    proof -
      have "length data - start + m - 1 = (length data - start - 1) + m"
        and "length data - (start + m) + m - 1 = length data - start - 1"
        using e(2) by linarith+
      then show ?thesis
        using m(1) by (simp only: div_add_self2)
    qed
    have "length data - (start + m) < length data - start"
      using less.prems m(1) by linarith
    from less.hyps [OF this e(2), of "num + 1"] obtain chunks where
      c: "split_loop data mw (start + m) (num + 1) = Inr chunks"
      "map fst chunks = [num + 1..<num + 1 + length chunks]"
      "concat (map snd chunks) = drop (start + m) data"
      "length chunks = (length data - (start + m) + m - 1) div m"
      "\<forall>(k, p) \<in> set chunks. 0 < length p \<and> length p \<le> m"
      using count less.prems(2) by auto
    have p: "?p = take m (drop start data)" "length (take m (drop start data)) = m"
      using e m(1) by simp_all
    have "split_loop data mw start num = Inr ((num, ?p) # chunks)"
    proof -
      have "?e + 1 = start + m"
        using e m(1) by linarith
      then show ?thesis
        using False c(1) by (simp only: step if_True not_False_eq_True sum.case)
    qed
    moreover have "map fst ((num, ?p) # chunks) = [num..<num + length ((num, ?p) # chunks)]"
    proof -
      have "[num..<num + length ((num, ?p) # chunks)] = num # [num + 1..<num + 1 + length chunks]"
        by (simp add: upt_conv_Cons del: upt_Suc)
      then show ?thesis
        by (simp only: list.map fst_conv c(2))
    qed
    moreover have "concat (map snd ((num, ?p) # chunks)) = drop start data"
      using c(3) p(1) append_take_drop_id [of m "drop start data"] by (simp add: add.commute)
    moreover have "length ((num, ?p) # chunks) = (length data - start + m - 1) div m"
      using c(4) count by simp
    moreover have "\<forall>(k, p) \<in> set ((num, ?p) # chunks). 0 < length p \<and> length p \<le> m"
      using c(5) p m(1) by auto
    ultimately show ?thesis
      by blast
  qed
qed

subsection \<open>Properties\<close>

lemma ahead_add: "d < 65536 \<Longrightarrow> ahead a (a + of_nat d) = d"
  by (simp add: ahead_def unat_of_nat_u16)

text \<open>
  The comparison of wrapping sequence numbers is total and antisymmetric, also at the
  distance of half the range; a number less than half the range ahead is the higher one, across
  the wrap; and the window test accepts exactly the numbers less than the window size ahead.
\<close>

theorem seqnum_order:
  "(a \<noteq> b \<longrightarrow> seqnum_higher a b = (\<not> seqnum_higher b a)) \<and> \<not> seqnum_higher a a \<and>
   (0 < d \<and> d < 32768 \<longrightarrow> seqnum_higher (a + of_nat d) a) \<and>
   (0 < w \<and> d < 65536 \<longrightarrow> seqnum_in_window (a + of_nat d) a w = (d < unat w))"
proof (intro conjI impI)
  assume "a \<noteq> b"
  then show "seqnum_higher a b = (\<not> seqnum_higher b a)"
    using unat_u16_less [of a] unat_u16_less [of b]
    by (auto simp: seqnum_higher_def SEQNUM_MAX_def word_less_nat_alt word_unat_eq_iff)
next
  assume d: "0 < d \<and> d < 32768"
  then have "ahead a (a + of_nat d) = d"
    by (simp add: ahead_add)
  with d show "seqnum_higher (a + of_nat d) a"
    using ahead_0_iff [of a "a + of_nat d"] by (auto simp: seqnum_higher_ahead)
qed (simp_all add: seqnum_higher_def seqnum_in_window_ahead ahead_add)

theorem seqnum_order_witness:
  "seqnum_higher (65530 + of_nat 10) 65530 \<and> seqnum_in_window (65530 + of_nat 10) 65530 32 \<and>
   seqnum_higher 5 65530 = (\<not> seqnum_higher 65530 5)"
  using seqnum_order [of 5 65530 10 32] seqnum_order [of 65530 0 10 32] by simp

end
