(* ===== verification/MtpBuffers.thy ===== *)
theory MtpBuffers
  imports MtpPackets "HOL-Library.AList"
begin

section \<open>The buffers of a channel\<close>

text \<open>
  \<^verbatim>\<open>ReliablePacketBuffer\<close>, \<^verbatim>\<open>IncomingSplitPacket\<close> and \<^verbatim>\<open>IncomingSplitBuffer\<close> of
  \<^verbatim>\<open>src/network/mtp/impl.cpp\<close>. The locks of the buffers make each operation atomic, so an
  operation is a function on the state. The locale \<open>sequence_buffer\<close> states what the
  receiver relies on: a buffer that hands out its packets in the order of the circular
  sequence numbers.
\<close>

subsection \<open>ReliablePacketBuffer\<close>

record rpb =
  rp_list :: "packet list"
  m_oldest_non_answered_ack :: u16

definition rpb_new :: rpb where
  "rpb_new = \<lparr>rp_list = [], m_oldest_non_answered_ack = 0\<rparr>"

definition rpb_empty :: "rpb \<Rightarrow> bool" where
  "rpb_empty b \<longleftrightarrow> rp_list b = []"

definition rpb_size :: "rpb \<Rightarrow> nat" where
  "rpb_size b = length (rp_list b)"

definition rpb_getFirstSeqnum :: "rpb \<Rightarrow> u16 option" where
  "rpb_getFirstSeqnum b = (case rp_list b of [] \<Rightarrow> None | p # _ \<Rightarrow> Some (getSeqnum p))"

definition oldest_of :: "packet list \<Rightarrow> u16" where
  "oldest_of ps = (case ps of [] \<Rightarrow> 0 | p # _ \<Rightarrow> getSeqnum p)"

definition rpb_popFirst :: "rpb \<Rightarrow> (packet \<times> rpb) res" where
  "rpb_popFirst b =
     (case rp_list b of
        [] \<Rightarrow> Inl NotFoundException
      | p # ps \<Rightarrow> Inr (p, \<lparr>rp_list = ps, m_oldest_non_answered_ack = oldest_of ps\<rparr>))"

fun pop_seqnum :: "u16 \<Rightarrow> packet list \<Rightarrow> (packet \<times> packet list) option" where
  "pop_seqnum seqnum [] = None"
| "pop_seqnum seqnum (p # ps) =
     (if getSeqnum p = seqnum then Some (p, ps)
      else map_option (\<lambda>(q, qs). (q, p # qs)) (pop_seqnum seqnum ps))"

definition rpb_popSeqnum :: "u16 \<Rightarrow> rpb \<Rightarrow> (packet \<times> rpb) res" where
  "rpb_popSeqnum seqnum b =
     (case pop_seqnum seqnum (rp_list b) of
        None \<Rightarrow> Inl NotFoundException
      | Some (p, ps) \<Rightarrow> Inr (p, \<lparr>rp_list = ps, m_oldest_non_answered_ack = oldest_of ps\<rparr>))"

text \<open>
  The scan of \<open>insert\<close>: \<open>s\<close> is the sequence number at the iterator, and stays that of the last
  packet when the iterator reaches the end. The result is the packets passed, the packets
  from the iterator on, and \<open>s\<close>.
\<close>

fun rpb_scan :: "(u16 \<Rightarrow> bool) \<Rightarrow> u16 \<Rightarrow> packet list \<Rightarrow> packet list \<times> packet list \<times> u16" where
  "rpb_scan cond s [] = ([], [], s)"
| "rpb_scan cond s (p # ps) =
     (if cond s then
        (case rpb_scan cond (case ps of [] \<Rightarrow> s | q # _ \<Rightarrow> getSeqnum q) ps of
           (pre, post, s') \<Rightarrow> (p # pre, post, s'))
      else ([], p # ps, s))"

definition scan_condition :: "u16 \<Rightarrow> u16 \<Rightarrow> u16 \<Rightarrow> bool" where
  "scan_condition seqnum next_expected s =
     (if seqnum < next_expected then s < seqnum \<or> s \<ge> next_expected
      else s < seqnum \<and> s \<ge> next_expected)"

definition rpb_insert :: "packet \<Rightarrow> u16 \<Rightarrow> rpb \<Rightarrow> rpb res" where
  "rpb_insert p next_expected b =
     (if length (pk_data p) < BASE_HEADER_SIZE + 3 then Inr b
      else if pk_data p ! BASE_HEADER_SIZE \<noteq> PACKET_TYPE_RELIABLE then Inr b
      else
        let seqnum = getSeqnum p
        in if \<not> seqnum_in_window seqnum next_expected MAX_RELIABLE_WINDOW_SIZE then Inr b
           else if seqnum = next_expected then Inr b
           else if length (rp_list b) > SEQNUM_MAX then Inl AssertFailed
           else case rp_list b of
             [] \<Rightarrow> Inr \<lparr>rp_list = [p], m_oldest_non_answered_ack = seqnum\<rparr>
           | first # _ \<Rightarrow>
             (case rpb_scan (scan_condition seqnum next_expected) (getSeqnum first) (rp_list b) of
                (pre, post, s) \<Rightarrow>
                  rbind
                    (if s = seqnum then
                       (case post of
                          [] \<Rightarrow> Inl OutOfBounds
                        | i # _ \<Rightarrow>
                            if getSeqnum i \<noteq> seqnum \<or> length (pk_data i) \<noteq> length (pk_data p) \<or>
                               pk_address i \<noteq> pk_address p
                            then Inl IncomingDataCorruption else Inr (rp_list b))
                     else Inr (pre @ p # post))
                    (\<lambda>ps. Inr \<lparr>rp_list = ps, m_oldest_non_answered_ack = oldest_of ps\<rparr>)))"

definition rpb_fixPeerId :: "session_t \<Rightarrow> rpb \<Rightarrow> rpb res" where
  "rpb_fixPeerId new_id b =
     (if list_all (\<lambda>p. BASE_HEADER_SIZE \<le> length (pk_data p)) (rp_list b)
      then Inr (b\<lparr>rp_list := map (\<lambda>p. p\<lparr>pk_data := poke 4 (writeU16 new_id) (pk_data p)\<rparr>) (rp_list b)\<rparr>)
      else Inl AssertFailed)"

text \<open>
  \<open>getResend\<close>: the packets that are due, whose resend counters are increased, in the order of
  the buffer, until \<open>max_packets\<close> are taken. Whether a packet is due is a comparison of
  floating-point times, the parameter \<open>due\<close>.
\<close>

fun resend_loop :: "(packet \<Rightarrow> bool) \<Rightarrow> nat \<Rightarrow> nat \<Rightarrow> packet list \<Rightarrow> packet list \<times> packet list" where
  "resend_loop due max_packets taken [] = ([], [])"
| "resend_loop due max_packets taken (p # ps) =
     (if \<not> due p then
        (case resend_loop due max_packets taken ps of (timed_outs, l) \<Rightarrow> (timed_outs, p # l))
      else
        let p' = p\<lparr>pk_resend_count := pk_resend_count p + 1\<rparr>
        in if taken + 1 \<ge> max_packets then ([p'], p' # ps)
           else case resend_loop due max_packets (taken + 1) ps of
             (timed_outs, l) \<Rightarrow> (p' # timed_outs, p' # l))"

definition rpb_getResend :: "(packet \<Rightarrow> bool) \<Rightarrow> u32 \<Rightarrow> rpb \<Rightarrow> packet list \<times> rpb" where
  "rpb_getResend due max_packets b =
     (case resend_loop due (unat max_packets) 0 (rp_list b) of
        (timed_outs, l) \<Rightarrow> (timed_outs, b\<lparr>rp_list := l\<rparr>))"

subsection \<open>Split packets\<close>

record isp =
  is_chunk_count :: u32
  is_reliable :: bool
  is_chunks :: "(u16 \<times> u8 list) list"

definition isp_new :: "u32 \<Rightarrow> bool \<Rightarrow> isp" where
  "isp_new cc r = \<lparr>is_chunk_count = cc, is_reliable = r, is_chunks = []\<rparr>"

definition isp_allReceived :: "isp \<Rightarrow> bool" where
  "isp_allReceived sp \<longleftrightarrow> length (is_chunks sp) = unat (is_chunk_count sp)"

definition isp_insert :: "u32 \<Rightarrow> u8 list \<Rightarrow> isp \<Rightarrow> (bool \<times> isp) res" where
  "isp_insert chunk_num chunkdata sp =
     (if \<not> chunk_num < is_chunk_count sp then Inl AssertFailed
      else if map_of (is_chunks sp) (ucast chunk_num) \<noteq> None then Inr (False, sp)
      else Inr (True, sp\<lparr>is_chunks := is_chunks sp @ [(ucast chunk_num, chunkdata)]\<rparr>))"

text \<open>\<open>chunks[chunk_i]\<close> makes an empty chunk for a number that is not there.\<close>

definition isp_reassemble :: "isp \<Rightarrow> u8 list res" where
  "isp_reassemble sp =
     (if \<not> isp_allReceived sp then Inl AssertFailed
      else Inr (concat (map (\<lambda>chunk_i. case map_of (is_chunks sp) (of_nat chunk_i) of
                                         Some d \<Rightarrow> d | None \<Rightarrow> [])
                            [0..<unat (is_chunk_count sp)])))"

type_synonym isb = "(u16 \<times> isp) list"

text \<open>The result is the reassembled data, empty when there is none yet, and the buffer.\<close>

definition isb_insert :: "packet \<Rightarrow> bool \<Rightarrow> isb \<Rightarrow> (u8 list \<times> isb) res" where
  "isb_insert p reliable m_buf =
     (let headersize = BASE_HEADER_SIZE + 7;
          data = pk_data p
      in if length data < headersize then Inr ([], m_buf)
         else
           rbind (fetch BASE_HEADER_SIZE 1 hd data) (\<lambda>type.
           rbind (fetch (BASE_HEADER_SIZE + 1) 2 readU16 data) (\<lambda>seqnum.
           rbind (fetch (BASE_HEADER_SIZE + 3) 2 readU16 data) (\<lambda>chunk_count.
           rbind (fetch (BASE_HEADER_SIZE + 5) 2 readU16 data) (\<lambda>chunk_num.
              if type \<noteq> PACKET_TYPE_SPLIT then Inr ([], m_buf)
              else if chunk_num \<ge> chunk_count then Inr ([], m_buf)
              else
                let sp = (case map_of m_buf seqnum of
                            None \<Rightarrow> isp_new (ucast chunk_count) reliable
                          | Some sp \<Rightarrow> sp);
                    m_buf1 = AList.update seqnum sp m_buf
                in if ucast chunk_count \<noteq> is_chunk_count sp then Inr ([], m_buf1)
                   else rbind (isp_insert (ucast chunk_num) (drop headersize data) sp) (\<lambda>(new, sp').
                     let m_buf2 = AList.update seqnum sp' m_buf1
                     in if \<not> new then Inr ([], m_buf2)
                        else if \<not> isp_allReceived sp' then Inr ([], m_buf2)
                        else rbind (isp_reassemble sp') (\<lambda>fulldata.
                          Inr (fulldata, AList.delete seqnum m_buf2))))))))"

text \<open>Dropping unreliable split packets whose floating-point age has passed the limit.\<close>

definition isb_removeUnreliableTimedOuts :: "(u16 \<Rightarrow> bool) \<Rightarrow> isb \<Rightarrow> isb" where
  "isb_removeUnreliableTimedOuts expired m_buf =
     filter (\<lambda>(q, sp). is_reliable sp \<or> \<not> expired q) m_buf"

subsection \<open>The order of the reliable buffer\<close>

lemma scan_condition_ahead: "scan_condition q nxt s \<longleftrightarrow> ahead nxt s < ahead nxt q"
  using unat_u16_less [of s] unat_u16_less [of q] unat_u16_less [of nxt]
  by (auto simp: scan_condition_def ahead_eq word_less_nat_alt word_le_nat_alt)

lemma rpb_scan_split:
  assumes "s = getSeqnum (hd ps)" and "ps \<noteq> []"
    and "sorted_wrt (\<lambda>a b. ahead nxt (getSeqnum a) < ahead nxt (getSeqnum b)) ps"
    and "rpb_scan (scan_condition q nxt) s ps = (pre, post, s')"
  shows "ps = pre @ post \<and> (\<forall>p \<in> set pre. ahead nxt (getSeqnum p) < ahead nxt q) \<and>
    (\<forall>p \<in> set post. ahead nxt q \<le> ahead nxt (getSeqnum p)) \<and>
    (if post = [] then ahead nxt s' < ahead nxt q else s' = getSeqnum (hd post))"
  using assms
proof (induction "scan_condition q nxt" s ps arbitrary: pre post s' rule: rpb_scan.induct)
  case (2 s p ps)
  show ?case
  proof (cases "ps = [] \<or> \<not> scan_condition q nxt s")
    case True
    then show ?thesis
      using 2(2-) by (fastforce simp: scan_condition_ahead split: if_splits)
  next
    case False
    then obtain r rs where ps: "ps = r # rs" by (cases ps) auto
    obtain pre' post' s'' where scan: "rpb_scan (scan_condition q nxt) (getSeqnum r) ps = (pre', post', s'')"
      by (metis prod_cases3)
    have "ps = pre' @ post' \<and> (\<forall>p \<in> set pre'. ahead nxt (getSeqnum p) < ahead nxt q) \<and>
      (\<forall>p \<in> set post'. ahead nxt q \<le> ahead nxt (getSeqnum p)) \<and>
      (if post' = [] then ahead nxt s'' < ahead nxt q else s'' = getSeqnum (hd post'))"
      using False 2(1,4) scan by (simp add: ps)
    moreover have "pre = p # pre' \<and> post = post' \<and> s' = s''"
      using 2(5) False scan by (simp add: ps)
    moreover have "ahead nxt (getSeqnum p) < ahead nxt q"
      using 2(2) False by (simp add: scan_condition_ahead)
    ultimately show ?thesis by simp
  qed
qed simp

text \<open>
  The invariant relative to the next expected sequence number: the packets are reliable
  packets in strict circular order, all in the receive window.
\<close>

definition reliable_packet :: "packet \<Rightarrow> bool" where
  "reliable_packet p \<longleftrightarrow>
     BASE_HEADER_SIZE + 3 \<le> length (pk_data p) \<and> pk_data p ! BASE_HEADER_SIZE = PACKET_TYPE_RELIABLE"

definition rpb_inv :: "u16 \<Rightarrow> rpb \<Rightarrow> bool" where
  "rpb_inv nxt b \<longleftrightarrow>
     sorted_wrt (\<lambda>a b. ahead nxt (getSeqnum a) < ahead nxt (getSeqnum b)) (rp_list b) \<and>
     (\<forall>p \<in> set (rp_list b). reliable_packet p \<and> ahead nxt (getSeqnum p) < 32768)"

definition rpb_lookup :: "rpb \<Rightarrow> u16 \<Rightarrow> packet option" where
  "rpb_lookup b q = find (\<lambda>p. getSeqnum p = q) (rp_list b)"

lemma sorted_distinct_key:
  "sorted_wrt (\<lambda>a b. f a < (f b :: nat)) xs \<Longrightarrow> distinct (map f xs)"
  by (induction xs) auto

lemma rpb_inv_length: "rpb_inv nxt b \<Longrightarrow> length (rp_list b) \<le> SEQNUM_MAX"
proof -
  assume inv: "rpb_inv nxt b"
  let ?f = "\<lambda>p. ahead nxt (getSeqnum p)"
  have "distinct (map ?f (rp_list b))"
    using inv by (intro sorted_distinct_key) (simp add: rpb_inv_def)
  then have "length (rp_list b) = card (set (map ?f (rp_list b)))"
    by (metis distinct_card length_map)
  also have "\<dots> \<le> card {0..<32768 :: nat}"
    using inv by (intro card_mono) (auto simp: rpb_inv_def)
  finally show ?thesis by (simp add: SEQNUM_MAX_def)
qed

lemma find_append: "find P (xs @ ys) = (case find P xs of None \<Rightarrow> find P ys | Some x \<Rightarrow> Some x)"
  by (induction xs) auto

lemma find_None_ahead:
  "\<forall>p \<in> set ps. ahead nxt (getSeqnum p) \<noteq> ahead nxt q \<Longrightarrow> find (\<lambda>p. getSeqnum p = q) ps = None"
  by (auto simp: find_None_iff)

lemma rpb_insert_ok:
  assumes inv: "rpb_inv nxt b" and p: "reliable_packet p"
    and win: "ahead nxt (getSeqnum p) < 32768" "getSeqnum p \<noteq> nxt"
    and same: "\<And>i. rpb_lookup b (getSeqnum p) = Some i \<Longrightarrow>
      length (pk_data i) = length (pk_data p) \<and> pk_address i = pk_address p"
  shows "\<exists>b'. rpb_insert p nxt b = Inr b' \<and> rpb_inv nxt b' \<and>
    rpb_lookup b' = (rpb_lookup b)(getSeqnum p \<mapsto>
      (case rpb_lookup b (getSeqnum p) of Some i \<Rightarrow> i | None \<Rightarrow> p))"
proof -
  let ?q = "getSeqnum p"
  have pre: "\<not> length (pk_data p) < BASE_HEADER_SIZE + 3" "pk_data p ! BASE_HEADER_SIZE = PACKET_TYPE_RELIABLE"
    "seqnum_in_window ?q nxt MAX_RELIABLE_WINDOW_SIZE" "\<not> length (rp_list b) > SEQNUM_MAX"
    using p win rpb_inv_length [OF inv]
    by (simp_all add: reliable_packet_def seqnum_in_window_ahead MAX_RELIABLE_WINDOW_SIZE_def)
  show ?thesis
  proof (cases "rp_list b")
    case Nil
    then show ?thesis
      using pre win p by (auto simp: rpb_insert_def rpb_inv_def rpb_lookup_def Let_def)
  next
    case (Cons first more)
    obtain before after s where scan:
      "rpb_scan (scan_condition ?q nxt) (getSeqnum first) (rp_list b) = (before, after, s)"
      by (metis prod_cases3)
    have sp: "rp_list b = before @ after" "\<forall>x \<in> set before. ahead nxt (getSeqnum x) < ahead nxt ?q"
      "\<forall>x \<in> set after. ahead nxt ?q \<le> ahead nxt (getSeqnum x)"
      "if after = [] then ahead nxt s < ahead nxt ?q else s = getSeqnum (hd after)"
      using rpb_scan_split [OF _ _ _ scan] inv Cons by (auto simp: rpb_inv_def)
    have none_before: "find (\<lambda>x. getSeqnum x = ?q) before = None"
      using sp(2) by (intro find_None_ahead [of _ nxt]) auto
    show ?thesis
    proof (cases "s = ?q")
      case True
      with sp(4) obtain i rest where after: "after = i # rest" and i: "getSeqnum i = ?q"
        by (cases after) (auto split: if_splits)
      have look: "rpb_lookup b ?q = Some i"
        using none_before by (simp add: rpb_lookup_def sp(1) find_append after i)
      have "rpb_insert p nxt b = Inr (b\<lparr>m_oldest_non_answered_ack := oldest_of (rp_list b)\<rparr>)"
        using pre win(2) Cons scan True after i same [OF look] by (simp add: rpb_insert_def Let_def)
      then show ?thesis
        using inv look by (auto simp: rpb_inv_def rpb_lookup_def fun_upd_idem)
    next
      case False
      have strict: "\<forall>x \<in> set after. ahead nxt ?q < ahead nxt (getSeqnum x)"
      proof (cases after)
        case (Cons i rest)
        then have "ahead nxt ?q < ahead nxt (getSeqnum i)"
          using sp(3,4) False ahead_inj [of nxt ?q "getSeqnum i"] by auto
        moreover have "\<forall>x \<in> set rest. ahead nxt (getSeqnum i) < ahead nxt (getSeqnum x)"
          using inv sp(1) Cons by (simp add: rpb_inv_def sorted_wrt_append)
        ultimately show ?thesis
          using Cons by auto
      qed simp
      have none_after: "find (\<lambda>x. getSeqnum x = ?q) after = None"
        using strict by (intro find_None_ahead [of _ nxt]) auto
      let ?ps = "before @ p # after"
      have "rpb_insert p nxt b = Inr \<lparr>rp_list = ?ps, m_oldest_non_answered_ack = oldest_of ?ps\<rparr>"
        using pre win(2) Cons scan False by (simp add: rpb_insert_def Let_def)
      moreover have "rpb_inv nxt \<lparr>rp_list = ?ps, m_oldest_non_answered_ack = oldest_of ?ps\<rparr>"
        using inv sp(1,2) strict p win(1) by (auto simp: rpb_inv_def sorted_wrt_append)
      moreover have "rpb_lookup \<lparr>rp_list = ?ps, m_oldest_non_answered_ack = oldest_of ?ps\<rparr> =
          (rpb_lookup b)(?q \<mapsto> p)"
        using none_before by (auto simp: rpb_lookup_def sp(1) find_append fun_eq_iff split: option.splits)
      moreover have "rpb_lookup b ?q = None"
        using none_before none_after by (simp add: rpb_lookup_def sp(1) find_append)
      ultimately show ?thesis by simp
    qed
  qed
qed

lemma rpb_inv_shift:
  assumes "rpb_inv nxt b" and "\<forall>p \<in> set (rp_list b). getSeqnum p \<noteq> nxt"
  shows "rpb_inv (nxt + 1) b"
proof -
  have step: "ahead nxt q = Suc (ahead (nxt + 1) q)" if "q \<noteq> nxt" for q
  proof -
    have "q - nxt \<noteq> 0"
      using that by simp
    then have "unat (q - nxt - 1) = unat (q - nxt) - 1" and "unat (q - nxt) \<noteq> 0"
      by (simp_all add: unat_minus_one unat_eq_0)
    then show ?thesis
      by (simp add: ahead_def diff_diff_eq)
  qed
  have "sorted_wrt (\<lambda>a b. ahead (nxt + 1) (getSeqnum a) < ahead (nxt + 1) (getSeqnum b)) (rp_list b)"
  proof (rule sorted_wrt_mono_rel)
    show "sorted_wrt (\<lambda>a b. ahead nxt (getSeqnum a) < ahead nxt (getSeqnum b)) (rp_list b)"
      using assms(1) by (simp add: rpb_inv_def)
  qed (use assms(2) step in auto)
  with assms step show ?thesis
    by (fastforce simp: rpb_inv_def)
qed

lemma rpb_lookup_None: "rpb_lookup b q = None \<longleftrightarrow> (\<forall>p \<in> set (rp_list b). getSeqnum p \<noteq> q)"
  by (auto simp: rpb_lookup_def find_None_iff)

lemma rpb_first_next:
  assumes "rpb_inv nxt b"
  shows "rpb_getFirstSeqnum b = Some nxt \<longleftrightarrow> rpb_lookup b nxt \<noteq> None"
proof (cases "rp_list b")
  case Nil
  then show ?thesis by (simp add: rpb_getFirstSeqnum_def rpb_lookup_def)
next
  case (Cons p ps)
  then have "\<forall>x \<in> set ps. getSeqnum x \<noteq> nxt"
    using assms by (auto simp: rpb_inv_def ahead_0_iff [symmetric])
  with Cons show ?thesis
    by (auto simp: rpb_getFirstSeqnum_def rpb_lookup_None)
qed

lemma rpb_pop_next:
  assumes inv: "rpb_inv nxt b" and first: "rpb_getFirstSeqnum b = Some nxt"
  shows "\<exists>p b'. rpb_popFirst b = Inr (p, b') \<and> rpb_lookup b nxt = Some p \<and> rpb_inv (nxt + 1) b' \<and>
    rpb_lookup b' = (rpb_lookup b)(nxt := None)"
proof -
  obtain p ps where l: "rp_list b = p # ps" and q: "getSeqnum p = nxt"
    using first by (auto simp: rpb_getFirstSeqnum_def split: list.splits)
  let ?b' = "\<lparr>rp_list = ps, m_oldest_non_answered_ack = oldest_of ps\<rparr>"
  have others: "\<forall>x \<in> set ps. getSeqnum x \<noteq> nxt"
    using inv l q by (auto simp: rpb_inv_def ahead_0_iff [symmetric])
  have "rpb_inv nxt ?b'"
    using inv l by (simp add: rpb_inv_def)
  then have "rpb_inv (nxt + 1) ?b'"
    using others by (intro rpb_inv_shift) simp_all
  moreover have "rpb_lookup ?b' = (rpb_lookup b)(nxt := None)"
    using l q others by (auto simp: rpb_lookup_def fun_eq_iff find_None_iff)
  ultimately show ?thesis
    using l q by (simp add: rpb_popFirst_def rpb_lookup_def)
qed

subsection \<open>What the receiver needs of the buffer\<close>

text \<open>
  \<open>tracks\<close>: of the stream of packets \<open>S\<close>, numbered from \<open>base\<close>, the buffer holds exactly those
  with an index in \<open>A\<close>, all at or after the next index \<open>k\<close>.
\<close>

definition tracks :: "('b \<Rightarrow> u16 \<Rightarrow> 'p option) \<Rightarrow> (nat \<Rightarrow> 'p) \<Rightarrow> u16 \<Rightarrow> nat \<Rightarrow> nat set \<Rightarrow> 'b \<Rightarrow> bool" where
  "tracks lookup S base k A b \<longleftrightarrow>
     A \<subseteq> {k..<k + 32768} \<and>
     (\<forall>j \<in> {k..<k + 65536}. lookup b (base + of_nat j) = (if j \<in> A then Some (S j) else None))"

lemma index_ahead:
  assumes "k \<le> j" and "j < k + 65536"
  shows "ahead ((base :: u16) + of_nat k) (base + of_nat j) = j - k"
proof -
  have "(base + of_nat j) - (base + of_nat k) = (of_nat j - of_nat k :: u16)"
    by (rule add_diff_cancel_left)
  also have "\<dots> = of_nat (j - k)"
    using assms(1) by (simp only: of_nat_diff)
  finally have "ahead (base + of_nat k) (base + of_nat j) = unat (of_nat (j - k) :: u16)"
    by (simp only: ahead_def)
  then show ?thesis
    using assms by (simp only: unat_of_nat_u16) simp
qed

lemma index_inj:
  assumes "i \<in> {k..<k + 65536}" and "j \<in> {k..<k + 65536}"
  shows "(base :: u16) + of_nat i = base + of_nat j \<longleftrightarrow> i = j"
proof
  assume "base + of_nat i = base + of_nat j"
  then have "i - k = j - k"
    using index_ahead [of k i base] index_ahead [of k j base] assms by simp
  with assms show "i = j" by auto
qed simp

locale sequence_buffer =
  fixes inv :: "u16 \<Rightarrow> 'b \<Rightarrow> bool"
    and new :: 'b
    and lookup :: "'b \<Rightarrow> u16 \<Rightarrow> 'p option"
    and ins :: "'p \<Rightarrow> u16 \<Rightarrow> 'b \<Rightarrow> 'b res"
    and first :: "'b \<Rightarrow> u16 option"
    and pop :: "'b \<Rightarrow> ('p \<times> 'b) res"
    and seq :: "'p \<Rightarrow> u16"
    and valid :: "'p \<Rightarrow> bool"
    and alike :: "'p \<Rightarrow> 'p \<Rightarrow> bool"
  assumes inv_new: "inv n new" and lookup_new: "lookup new q = None"
    and ins_ok: "inv n b \<Longrightarrow> valid p \<Longrightarrow> ahead n (seq p) < 32768 \<Longrightarrow> seq p \<noteq> n \<Longrightarrow>
      (\<And>i. lookup b (seq p) = Some i \<Longrightarrow> alike i p) \<Longrightarrow>
      \<exists>b'. ins p n b = Inr b' \<and> inv n b' \<and>
        lookup b' = (lookup b)(seq p \<mapsto> (case lookup b (seq p) of Some i \<Rightarrow> i | None \<Rightarrow> p))"
    and first_next: "inv n b \<Longrightarrow> first b = Some n \<longleftrightarrow> lookup b n \<noteq> None"
    and pop_next: "inv n b \<Longrightarrow> first b = Some n \<Longrightarrow>
      \<exists>p b'. pop b = Inr (p, b') \<and> lookup b n = Some p \<and> inv (n + 1) b' \<and> lookup b' = (lookup b)(n := None)"
    and advance: "inv n b \<Longrightarrow> lookup b n = None \<Longrightarrow> inv (n + 1) b"
    and alike_refl: "alike p p"
begin

lemma tracks_new: "tracks lookup S base k {} new"
  by (simp add: tracks_def lookup_new)

lemma tracks_insert:
  assumes "inv (base + of_nat k) b" and "tracks lookup S base k A b"
    and "k < j" and "j < k + 32768" and "valid (S j)" and "seq (S j) = base + of_nat j"
  shows "\<exists>b'. ins (S j) (base + of_nat k) b = Inr b' \<and> inv (base + of_nat k) b' \<and>
    tracks lookup S base k (insert j A) b'"
proof -
  have j: "j \<in> {k..<k + 65536}" using assms(3,4) by simp
  have look: "lookup b (seq (S j)) = (if j \<in> A then Some (S j) else None)"
    using assms(2,6) j by (simp add: tracks_def)
  have "ahead (base + of_nat k) (seq (S j)) = j - k"
    using index_ahead [of k j base] assms(3,4,6) by simp
  then have a: "ahead (base + of_nat k) (seq (S j)) < 32768" "seq (S j) \<noteq> base + of_nat k"
    using assms(3,4) ahead_0_iff [of "base + of_nat k" "seq (S j)"] by auto
  obtain b' where b': "ins (S j) (base + of_nat k) b = Inr b'" "inv (base + of_nat k) b'"
    "lookup b' = (lookup b)(seq (S j) \<mapsto> S j)"
    using ins_ok [OF assms(1,5) a] look alike_refl by (fastforce split: if_splits)
  have "tracks lookup S base k (insert j A) b'"
    using assms(2,3,4,6) index_inj [OF _ j, of _ base] by (auto simp: tracks_def b'(3))
  with b' show ?thesis by blast
qed

lemma tracks_first:
  assumes "inv (base + of_nat k) b" and "tracks lookup S base k A b"
  shows "first b = Some (base + of_nat k) \<longleftrightarrow> k \<in> A"
  using first_next [OF assms(1)] assms(2) by (simp add: tracks_def)

lemma tracks_step:
  assumes "tracks lookup S base k A b" and "lookup b' = (lookup b)(base + of_nat k := None)"
  shows "tracks lookup S base (Suc k) (A - {k}) b'"
proof -
  have "lookup b' (base + of_nat j) = (if j \<in> A - {k} then Some (S j) else None)"
    if "j \<in> {Suc k..<Suc k + 65536}" for j
  proof (cases "j = k + 65536")
    case True
    then have "base + of_nat j = base + of_nat k"
    proof -
      have "(of_nat (k + 65536) :: u16) = of_nat k"
        by (simp only: word_unat_eq_iff unat_of_nat_u16) simp
      then show ?thesis by (simp only: True)
    qed
    moreover have "j \<notin> A"
      using assms(1) True by (auto simp: tracks_def)
    ultimately show ?thesis
      by (simp add: assms(2))
  next
    case False
    then have "j \<in> {k..<k + 65536}" "j \<noteq> k"
      using that by auto
    then show ?thesis
      using assms(1) index_inj [of j k k base] by (auto simp: assms(2) tracks_def)
  qed
  then show ?thesis
    using assms(1) by (auto simp: tracks_def)
qed

lemma tracks_pop:
  assumes "inv (base + of_nat k) b" and "tracks lookup S base k A b" and "k \<in> A"
  shows "\<exists>b'. pop b = Inr (S k, b') \<and> inv (base + of_nat (Suc k)) b' \<and>
    tracks lookup S base (Suc k) (A - {k}) b'"
proof -
  have "first b = Some (base + of_nat k)"
    using tracks_first [OF assms(1,2)] assms(3) by blast
  from pop_next [OF assms(1) this] obtain p b' where p: "pop b = Inr (p, b')"
    "lookup b (base + of_nat k) = Some p" "inv (base + of_nat k + 1) b'"
    "lookup b' = (lookup b)(base + of_nat k := None)"
    by blast
  have "p = S k"
    using p(2) assms(2,3) by (simp add: tracks_def)
  with p tracks_step [OF assms(2) p(4)] show ?thesis
    by (simp add: add_ac)
qed

lemma tracks_advance:
  assumes "inv (base + of_nat k) b" and "tracks lookup S base k A b" and "k \<notin> A"
  shows "inv (base + of_nat (Suc k)) b" and "tracks lookup S base (Suc k) A b"
proof -
  have none: "lookup b (base + of_nat k) = None"
    using assms(2,3) by (simp add: tracks_def)
  show "inv (base + of_nat (Suc k)) b"
    using advance [OF assms(1) none] by (simp add: add_ac)
  have "lookup b = (lookup b)(base + of_nat k := None)"
    using none by auto
  then show "tracks lookup S base (Suc k) A b"
    using tracks_step [OF assms(2)] assms(3) by simp
qed

end

abbreviation same_size_and_sender :: "packet \<Rightarrow> packet \<Rightarrow> bool" where
  "same_size_and_sender i p \<equiv> length (pk_data i) = length (pk_data p) \<and> pk_address i = pk_address p"

interpretation reliables: sequence_buffer rpb_inv rpb_new rpb_lookup rpb_insert rpb_getFirstSeqnum
    rpb_popFirst getSeqnum reliable_packet same_size_and_sender
proof (unfold_locales, goal_cases)
  case (1 n)
  show ?case by (simp add: rpb_inv_def rpb_new_def)
next
  case (2 q)
  show ?case by (simp add: rpb_lookup_def rpb_new_def)
next
  case (3 n b p)
  then show ?case by (intro rpb_insert_ok) auto
next
  case (4 n b)
  then show ?case by (rule rpb_first_next)
next
  case (5 n b)
  then show ?case by (rule rpb_pop_next)
next
  case (6 n b)
  then show ?case by (intro rpb_inv_shift) (simp_all add: rpb_lookup_None)
qed simp

subsection \<open>Reassembly\<close>

text \<open>
  Of the chunks \<open>ps\<close> sent with split sequence number \<open>q\<close>, the buffer holds those with a number
  in \<open>K\<close>.
\<close>

definition isb_tracks :: "u16 \<Rightarrow> u8 list list \<Rightarrow> nat set \<Rightarrow> isb \<Rightarrow> bool" where
  "isb_tracks q ps K m \<longleftrightarrow>
     K \<subseteq> {0..<length ps} \<and>
     (case map_of m q of
        None \<Rightarrow> K = {}
      | Some sp \<Rightarrow>
          is_chunk_count sp = of_nat (length ps) \<and> length (is_chunks sp) = card K \<and>
          (\<forall>k < 65536. map_of (is_chunks sp) (of_nat k) = (if k \<in> K then Some (ps ! k) else None)))"

definition chunk_packet :: "address \<Rightarrow> u32 \<Rightarrow> session_t \<Rightarrow> u8 \<Rightarrow> u16 \<Rightarrow> u8 list list \<Rightarrow> nat \<Rightarrow> packet" where
  "chunk_packet addr proto pid ch q ps k =
     makePacket addr (split_chunk q (length ps) (k, ps ! k)) proto pid ch"

lemma chunk_packet_fields:
  "length (pk_data (chunk_packet a pr s c q ps k)) = 14 + length (ps ! k)"
  "pk_data (chunk_packet a pr s c q ps k) ! 7 = PACKET_TYPE_SPLIT"
  "readU16 (drop 8 (pk_data (chunk_packet a pr s c q ps k))) = q"
  "readU16 (drop 10 (pk_data (chunk_packet a pr s c q ps k))) = of_nat (length ps)"
  "readU16 (drop 12 (pk_data (chunk_packet a pr s c q ps k))) = of_nat k"
  "drop 14 (pk_data (chunk_packet a pr s c q ps k)) = ps ! k"
  by (simp_all add: chunk_packet_def makePacket_def split_chunk_def nth_append)

lemma unat_u16_small: "n < 65536 \<Longrightarrow> unat (of_nat n :: u16) = n"
  by (simp add: unat_of_nat_u16)

lemma unat_u32_small: "n < 4294967296 \<Longrightarrow> unat (of_nat n :: u32) = n"
  by (simp add: unat_of_nat_u32)

lemma ucast_of_nat_16_32: "n < 65536 \<Longrightarrow> ucast (of_nat n :: u16) = (of_nat n :: u32)"
  by (simp add: word_unat_eq_iff unat_u16_small unat_u32_small)

lemma ucast_of_nat_32_16: "n < 65536 \<Longrightarrow> ucast (of_nat n :: u32) = (of_nat n :: u16)"
  by (simp add: word_unat_eq_iff unat_ucast_32_16 unat_u16_small unat_u32_small)

lemma of_nat_u16_inj: "i < 65536 \<Longrightarrow> j < 65536 \<Longrightarrow> (of_nat i :: u16) = of_nat j \<longleftrightarrow> i = j"
  by (metis unat_u16_small)

lemma map_of_isb_update [simp]: "map_of (AList.update q sp (m :: isb)) = (map_of m)(q \<mapsto> sp)"
  by (simp add: update_conv')

lemma map_of_isb_delete [simp]: "map_of (AList.delete q (m :: isb)) = (map_of m)(q := None)"
  by (simp add: delete_conv')

lemma isp_reassemble_all:
  assumes "length (is_chunks sp) = length ps" and "is_chunk_count sp = of_nat (length ps)"
    and "length ps < 65536"
    and "\<forall>k < 65536. map_of (is_chunks sp) (of_nat k) = (if k < length ps then Some (ps ! k) else None)"
  shows "isp_reassemble sp = Inr (concat ps)"
proof -
  have n: "unat (is_chunk_count sp) = length ps"
    using assms(2,3) by (simp add: unat_u32_small)
  have "map (\<lambda>i. case map_of (is_chunks sp) (of_nat i) of Some d \<Rightarrow> d | None \<Rightarrow> []) [0..<length ps] =
      map (\<lambda>i. ps ! i) [0..<length ps]"
    using assms(3,4) by (intro map_cong) auto
  then show ?thesis
    using assms(1) by (simp add: isp_reassemble_def isp_allReceived_def n map_nth)
qed

lemma isb_insert_chunk:
  assumes t: "isb_tracks q ps K m" and k: "k < length ps" and n: "length ps < 65536"
    and open_K: "K \<noteq> {0..<length ps}"
  shows "\<exists>m'. isb_insert (chunk_packet a pr s c q ps k) rel m =
      Inr (if insert k K = {0..<length ps} then concat ps else [], m') \<and>
    isb_tracks q ps (if insert k K = {0..<length ps} then {} else insert k K) m' \<and>
    (insert k K = {0..<length ps} \<longrightarrow> map_of m' q = None) \<and>
    (\<forall>x. x \<noteq> q \<longrightarrow> map_of m' x = map_of m x)"
proof -
  let ?p = "chunk_packet a pr s c q ps k"
  define sp where "sp = (case map_of m q of None \<Rightarrow> isp_new (ucast (of_nat (length ps) :: u16)) rel | Some sp \<Rightarrow> sp)"
  have K: "K \<subseteq> {0..<length ps}" "finite K"
    using t finite_subset by (auto simp: isb_tracks_def)
  have count: "is_chunk_count sp = of_nat (length ps)" and len: "length (is_chunks sp) = card K"
    and look: "\<And>i. i < 65536 \<Longrightarrow> map_of (is_chunks sp) (of_nat i) = (if i \<in> K then Some (ps ! i) else None)"
    using t n by (auto simp: sp_def isb_tracks_def isp_new_def ucast_of_nat_16_32 split: option.splits)
  have lt: "(of_nat k :: u16) < of_nat (length ps)" "(of_nat k :: u32) < of_nat (length ps)"
    using k n by (simp_all add: word_less_nat_alt unat_u16_small unat_u32_small)
  have nle: "\<not> (of_nat (length ps) :: u16) \<le> of_nat k"
    using lt(1) by simp
  have start: "isb_insert ?p rel m =
      rbind (isp_insert (of_nat k) (ps ! k) sp) (\<lambda>(new, sp').
        let m2 = AList.update q sp' (AList.update q sp m)
        in if \<not> new then Inr ([], m2)
           else if \<not> isp_allReceived sp' then Inr ([], m2)
           else rbind (isp_reassemble sp') (\<lambda>fulldata. Inr (fulldata, AList.delete q m2)))"
    using nle k n count
    by (simp add: isb_insert_def header_sizes chunk_packet_fields hd_drop_conv_nth Let_def sp_def [symmetric] ucast_of_nat_16_32)
  show ?thesis
  proof (cases "k \<in> K")
    case True
    have "isp_insert (of_nat k) (ps ! k) sp = Inr (False, sp)"
      using True lt count look [of k] k n by (simp add: isp_insert_def ucast_of_nat_32_16)
    moreover have "isb_tracks q ps K (AList.update q sp (AList.update q sp m))"
      using K count len look by (simp add: isb_tracks_def)
    ultimately show ?thesis
      using True open_K by (simp add: start insert_absorb)
  next
    case False
    let ?sp = "sp\<lparr>is_chunks := is_chunks sp @ [(of_nat k, ps ! k)]\<rparr>"
    have ins: "isp_insert (of_nat k) (ps ! k) sp = Inr (True, ?sp)"
      using False lt count look [of k] k n by (simp add: isp_insert_def ucast_of_nat_32_16)
    have len': "length (is_chunks ?sp) = card (insert k K)"
      using False K len by simp
    have look': "map_of (is_chunks ?sp) (of_nat i) = (if i \<in> insert k K then Some (ps ! i) else None)"
      if "i < 65536" for i
      using that look [OF that] look [of k] False k n of_nat_u16_inj [of i k]
      by (auto simp: map_add_def split: option.splits)
    have all: "isp_allReceived ?sp \<longleftrightarrow> insert k K = {0..<length ps}"
    proof -
      have "isp_allReceived ?sp \<longleftrightarrow> card (insert k K) = length ps"
        using len' count n by (simp add: isp_allReceived_def unat_u32_small)
      also have "\<dots> \<longleftrightarrow> insert k K = {0..<length ps}"
        using K k by (metis atLeastLessThan_iff card_atLeastLessThan card_subset_eq diff_zero
            finite_atLeastLessThan insert_subset zero_le)
      finally show ?thesis .
    qed
    show ?thesis
    proof (cases "insert k K = {0..<length ps}")
      case True
      have "isp_reassemble ?sp = Inr (concat ps)"
      proof (rule isp_reassemble_all)
        show "length (is_chunks ?sp) = length ps"
          using len' True by simp
        show "\<forall>i < 65536. map_of (is_chunks ?sp) (of_nat i) = (if i < length ps then Some (ps ! i) else None)"
          using look' True by auto
      qed (use count n in simp_all)
      then show ?thesis
        using True all ins by (simp add: start isb_tracks_def)
    next
      case False
      have "isb_tracks q ps (insert k K) (AList.update q ?sp (AList.update q sp m))"
        using K k count len' look' by (auto simp: isb_tracks_def)
      then show ?thesis
        using False all ins by (simp add: start)
    qed
  qed
qed

text \<open>Chunks arriving one after the other.\<close>

fun isb_run :: "packet list \<Rightarrow> bool \<Rightarrow> isb \<Rightarrow> (u8 list list \<times> isb) res" where
  "isb_run [] rel m = Inr ([], m)"
| "isb_run (p # ps) rel m =
     rbind (isb_insert p rel m) (\<lambda>(d, m1). rbind (isb_run ps rel m1) (\<lambda>(ds, m2). Inr (d # ds, m2)))"

lemma isb_run_partial:
  assumes "isb_tracks q ps K m" and "set ks \<subseteq> {0..<length ps}" and "length ps < 65536"
    and "K \<union> set ks \<noteq> {0..<length ps}"
  shows "\<exists>m'. isb_run (map (chunk_packet a pr s c q ps) ks) rel m = Inr (replicate (length ks) [], m') \<and>
    isb_tracks q ps (K \<union> set ks) m' \<and> (\<forall>x. x \<noteq> q \<longrightarrow> map_of m' x = map_of m x)"
  using assms
proof (induction ks arbitrary: K m)
  case (Cons k ks)
  have K: "K \<subseteq> {0..<length ps}"
    using Cons.prems(1) by (simp add: isb_tracks_def)
  have ne: "K \<noteq> {0..<length ps}" "insert k K \<noteq> {0..<length ps}"
    using Cons.prems(2,4) K by auto
  have kl: "k < length ps"
    using Cons.prems(2) by simp
  obtain m1 where m1: "isb_insert (chunk_packet a pr s c q ps k) rel m = Inr ([], m1)"
    "isb_tracks q ps (insert k K) m1" "\<forall>x. x \<noteq> q \<longrightarrow> map_of m1 x = map_of m x"
    using isb_insert_chunk [OF Cons.prems(1) kl Cons.prems(3) ne(1), of a pr s c rel] ne(2) by auto
  obtain m2 where "isb_run (map (chunk_packet a pr s c q ps) ks) rel m1 = Inr (replicate (length ks) [], m2)"
    "isb_tracks q ps (insert k K \<union> set ks) m2" "\<forall>x. x \<noteq> q \<longrightarrow> map_of m2 x = map_of m1 x"
    using Cons.IH [OF m1(2)] Cons.prems(2-4) by auto
  with m1 show ?case by simp
qed simp

lemma isb_run_append:
  "isb_run (ps @ qs) rel m =
    rbind (isb_run ps rel m) (\<lambda>(ds, m1). rbind (isb_run qs rel m1) (\<lambda>(es, m2). Inr (ds @ es, m2)))"
  by (induction ps arbitrary: m) (simp_all add: rbind_assoc case_prod_unfold, simp add: rbind_def split: sum.split)

subsection \<open>Properties\<close>

lemma makeSplitPacket_chunks:
  assumes "0 < length data" and "7 < chunksize"
    and "(length data + unat (chunksize - 7) - 1) div unat (chunksize - 7) \<le> 0xFFFF"
    and "length data + unat chunksize < 4294967296"
  shows "\<exists>ps. makeSplitPacket data chunksize q = Inr (map (\<lambda>k. split_chunk q (length ps) (k, ps ! k)) [0..<length ps]) \<and>
    concat ps = data \<and> 0 < length ps \<and> length ps < 65536 \<and> (\<forall>p \<in> set ps. length p + 7 \<le> unat chunksize)"
proof -
  define m where "m = unat (chunksize - 7)"
  have m7: "unat chunksize = m + 7"
    using assms(2) by (simp add: m_def unat_sub word_less_nat_alt word_le_nat_alt)
  have m: "0 < m" "0 + (length data - 0 + m - 1) div m \<le> 0xFFFF" "length data + m < 4294967296"
    using assms(2-4) m7 by (simp_all add: m_def word_less_nat_alt)
  from split_loop_ok [OF assms(1) m(1) m_def m(2,3)] obtain cs where cs: "split_loop data (chunksize - 7) 0 0 = Inr cs"
    "map fst cs = [0..<length cs]" "cs \<noteq> []" "concat (map snd cs) = data"
    "length cs = (length data + m - 1) div m" "\<forall>(k, p) \<in> set cs. 0 < length p \<and> length p \<le> m"
    by (simp only: add_0 minus_nat.diff_0 drop0) (elim exE conjE, rule that; assumption)
  let ?ps = "map snd cs"
  have nth: "cs ! k = (k, ?ps ! k)" if "k < length cs" for k
  proof (rule prod_eqI)
    have "map fst cs ! k = [0..<length cs] ! k"
      by (simp only: cs(2))
    then show "fst (cs ! k) = fst (k, ?ps ! k)"
      using that by simp
  qed (use that in simp)
  have "map (split_chunk q (length cs)) cs = map (\<lambda>k. split_chunk q (length ?ps) (k, ?ps ! k)) [0..<length ?ps]"
  proof (rule nth_equalityI)
    fix i
    assume "i < length (map (split_chunk q (length cs)) cs)"
    then have i: "i < length cs" by simp
    then have "split_chunk q (length cs) (cs ! i) = split_chunk q (length cs) (i, ?ps ! i)"
      by (intro arg_cong [OF nth])
    with i show "map (split_chunk q (length cs)) cs ! i =
        map (\<lambda>k. split_chunk q (length ?ps) (k, ?ps ! k)) [0..<length ?ps] ! i"
      by simp
  qed simp
  then have "makeSplitPacket data chunksize q = Inr (map (\<lambda>k. split_chunk q (length ?ps) (k, ?ps ! k)) [0..<length ?ps])"
    by (simp only: makeSplitPacket_def cs(1) rbind_simps)
  moreover have "length ?ps < 65536" "\<forall>p \<in> set ?ps. length p + 7 \<le> unat chunksize"
    using cs(5,6) m(2) m7 by auto
  ultimately show ?thesis
    using cs(3,4) by (intro exI [of _ ?ps]) simp
qed

text \<open>
  C11: data of any size that a split packet can carry is cut into chunks of at most the chunk
  size, and when these arrive in any order and any number of times, the receiver reassembles
  exactly the data, when the last missing chunk arrives and not before, drops the entry, and
  leaves the other split packets under way as they were.
\<close>

theorem split_reassembly:
  assumes "0 < length data" and "7 < chunksize"
    and "(length data + unat (chunksize - 7) - 1) div unat (chunksize - 7) \<le> 0xFFFF"
    and "length data + unat chunksize < 4294967296"
  shows "\<exists>chunks. makeSplitPacket data chunksize q = Inr chunks \<and> (\<forall>c \<in> set chunks. length c \<le> unat chunksize) \<and>
    (\<forall>m ks k. map_of m q = None \<and> insert k (set ks) = {0..<length chunks} \<and> k \<notin> set ks \<longrightarrow>
      (\<exists>m'. isb_run (map (\<lambda>i. makePacket addr (chunks ! i) proto pid ch) (ks @ [k])) rel m =
          Inr (replicate (length ks) [] @ [data], m') \<and>
        map_of m' q = None \<and> (\<forall>x. x \<noteq> q \<longrightarrow> map_of m' x = map_of m x)))"
proof -
  obtain ps where mk: "makeSplitPacket data chunksize q =
      Inr (map (\<lambda>k. split_chunk q (length ps) (k, ps ! k)) [0..<length ps])" (is "_ = Inr ?chunks")
    and data: "concat ps = data" and n: "0 < length ps" "length ps < 65536"
    and size: "\<forall>p \<in> set ps. length p + 7 \<le> unat chunksize"
    using makeSplitPacket_chunks [OF assms, of q] by blast
  have le: "\<forall>c \<in> set ?chunks. length c \<le> unat chunksize"
    using size by (auto simp: split_chunk_def dest!: bspec [OF _ nth_mem])
  have "\<exists>m'. isb_run (map (\<lambda>i. makePacket addr (?chunks ! i) proto pid ch) (ks @ [k])) rel m =
          Inr (replicate (length ks) [] @ [data], m') \<and>
        map_of m' q = None \<and> (\<forall>x. x \<noteq> q \<longrightarrow> map_of m' x = map_of m x)"
    if m: "map_of m q = None" and ks: "insert k (set ks) = {0..<length ps}" "k \<notin> set ks" for m ks k
  proof -
    have t0: "isb_tracks q ps {} m"
      using m by (simp add: isb_tracks_def)
    have k: "k < length ps" and sub: "set ks \<subseteq> {0..<length ps}" and ne: "set ks \<noteq> {0..<length ps}"
      using ks by auto
    have pk: "map (\<lambda>i. makePacket addr (?chunks ! i) proto pid ch) xs = map (chunk_packet addr proto pid ch q ps) xs"
      if "set xs \<subseteq> {0..<length ps}" for xs
      using that by (auto simp: chunk_packet_def)
    have run: "map (\<lambda>i. makePacket addr (?chunks ! i) proto pid ch) (ks @ [k]) =
        map (chunk_packet addr proto pid ch q ps) ks @ [chunk_packet addr proto pid ch q ps k]"
      using sub k by (subst pk) simp_all
    obtain m1 where m1: "isb_run (map (chunk_packet addr proto pid ch q ps) ks) rel m = Inr (replicate (length ks) [], m1)"
      "isb_tracks q ps (set ks) m1" "\<forall>x. x \<noteq> q \<longrightarrow> map_of m1 x = map_of m x"
      using isb_run_partial [OF t0 sub n(2), of addr proto pid ch rel] ne by auto
    obtain m2 where "isb_insert (chunk_packet addr proto pid ch q ps k) rel m1 = Inr (data, m2)"
      "map_of m2 q = None" "\<forall>x. x \<noteq> q \<longrightarrow> map_of m2 x = map_of m1 x"
      using isb_insert_chunk [OF m1(2) k n(2) ne, of addr proto pid ch rel] ks(1) data by auto
    then show ?thesis
      using m1 by (subst run) (simp add: isb_run_append)
  qed
  with mk le show ?thesis by auto
qed

theorem split_reassembly_witness:
  "\<exists>chunks m'. makeSplitPacket [1, 2, 3, 4, 5] 9 7 = Inr chunks \<and>
    isb_run (map (\<lambda>i. makePacket 0 (chunks ! i) PROTOCOL_ID 2 0) [2, 0, 2, 1]) True [] = Inr ([[], [], [], [1, 2, 3, 4, 5]], m')"
proof -
  have "(length [1, 2, 3, 4, 5 :: u8] + unat (9 - 7 :: u32) - 1) div unat (9 - 7 :: u32) \<le> 0xFFFF"
    "length [1, 2, 3, 4, 5 :: u8] + unat (9 :: u32) < 4294967296" by simp_all
  from split_reassembly [OF _ _ this, of 7 0 PROTOCOL_ID 2 0 True] obtain chunks where
    c: "makeSplitPacket [1, 2, 3, 4, 5] 9 7 = Inr chunks"
    "\<And>m ks k. map_of m 7 = None \<and> insert k (set ks) = {0..<length chunks} \<and> k \<notin> set ks \<Longrightarrow>
      \<exists>m'. isb_run (map (\<lambda>i. makePacket 0 (chunks ! i) PROTOCOL_ID 2 0) (ks @ [k])) True m =
          Inr (replicate (length ks) [] @ [[1, 2, 3, 4, 5]], m')"
    by auto blast
  have "length chunks = 3"
    using c(1) by (auto simp: makeSplitPacket_def split_loop.simps [of "[1,2,3,4,5]"] Let_def)
  then have "map_of [] (7 :: u16) = (None :: isp option) \<and> insert 1 (set [2, 0, 2]) = {0..<length chunks} \<and> (1::nat) \<notin> set [2, 0, 2]"
    by auto
  from c(2) [OF this] c(1) show ?thesis by simp
qed

text \<open>
  C14: the reliable buffer. A packet that is not reliable, is old, is the next expected one or
  lies outside the receive window changes nothing. Any other, unless a different packet holds
  its number, is there afterwards with all the packets there were, at most one per number,
  sorted by how far ahead of the next expected number they are, across the wrap.
\<close>

theorem reliable_insert:
  assumes "rpb_inv nxt b"
  shows "(\<not> (reliable_packet p \<and> 0 < ahead nxt (getSeqnum p) \<and> ahead nxt (getSeqnum p) < 32768) \<longrightarrow>
      rpb_insert p nxt b = Inr b) \<and>
    (reliable_packet p \<and> 0 < ahead nxt (getSeqnum p) \<and> ahead nxt (getSeqnum p) < 32768 \<and>
      (\<forall>i. rpb_lookup b (getSeqnum p) = Some i \<longrightarrow> length (pk_data i) = length (pk_data p) \<and> pk_address i = pk_address p) \<longrightarrow>
      (\<exists>b'. rpb_insert p nxt b = Inr b' \<and> rpb_inv nxt b' \<and>
        rpb_lookup b' = (rpb_lookup b)(getSeqnum p \<mapsto> (case rpb_lookup b (getSeqnum p) of Some i \<Rightarrow> i | None \<Rightarrow> p))))"
proof -
  have w: "seqnum_in_window q nxt MAX_RELIABLE_WINDOW_SIZE \<longleftrightarrow> ahead nxt q < 32768" for q
    by (simp add: seqnum_in_window_ahead MAX_RELIABLE_WINDOW_SIZE_def)
  have "rpb_insert p nxt b = Inr b"
    if "\<not> (reliable_packet p \<and> 0 < ahead nxt (getSeqnum p) \<and> ahead nxt (getSeqnum p) < 32768)"
    using that by (auto simp: rpb_insert_def reliable_packet_def w ahead_pos_iff Let_def not_less)
  moreover have "\<exists>b'. rpb_insert p nxt b = Inr b' \<and> rpb_inv nxt b' \<and>
      rpb_lookup b' = (rpb_lookup b)(getSeqnum p \<mapsto> (case rpb_lookup b (getSeqnum p) of Some i \<Rightarrow> i | None \<Rightarrow> p))"
    if "reliable_packet p" "0 < ahead nxt (getSeqnum p)" "ahead nxt (getSeqnum p) < 32768"
      "\<forall>i. rpb_lookup b (getSeqnum p) = Some i \<longrightarrow> length (pk_data i) = length (pk_data p) \<and> pk_address i = pk_address p"
    by (rule rpb_insert_ok [OF assms]) (use that in \<open>simp_all add: ahead_pos_iff\<close>)
  ultimately show ?thesis by blast
qed

lemma rpb_lookup_new: "rpb_lookup rpb_new q = None"
  by (simp add: rpb_lookup_def rpb_new_def)

theorem reliable_insert_witness:
  "\<exists>b'. rpb_insert (makePacket 0 (makeReliablePacket [7] 3) PROTOCOL_ID 1 0) 65530 rpb_new = Inr b' \<and>
    rpb_lookup b' 3 = Some (makePacket 0 (makeReliablePacket [7] 3) PROTOCOL_ID 1 0)"
proof -
  let ?p = "makePacket 0 (makeReliablePacket [7] 3) PROTOCOL_ID 1 0"
  have "rpb_inv 65530 rpb_new" "reliable_packet ?p" "ahead 65530 3 = 9"
    by (simp_all add: rpb_inv_def rpb_new_def reliable_packet_def makePacket_def makeReliablePacket_def
        header_sizes ahead_eq nth_append)
  then show ?thesis
    using reliable_insert [of 65530 rpb_new ?p] by (auto simp: rpb_lookup_new)
qed

end
