(* ===== verification/MtpChannel.thy ===== *)
theory MtpChannel
  imports MtpBuffers
begin

text \<open>
  The commands, channels and peers of \<^verbatim>\<open>src/network/mtp/impl.cpp\<close> and
  \<^verbatim>\<open>internal.h\<close>: sequence numbers and send window of a channel, and the queues of reliable
  commands of a peer. The transfer rates, which are only shown to the user, and the round trip
  times are left out; the two floating-point counters of \<open>UpdateTimers\<close> are replaced by the
  outcome of their comparisons.
\<close>

subsection \<open>Commands\<close>

definition PEER_ID_INEXISTENT :: session_t where "PEER_ID_INEXISTENT = 0"
definition PEER_ID_SERVER :: session_t where "PEER_ID_SERVER = 1"

datatype command_type =
  CONNCMD_NONE | CONNCMD_SERVE | CONNCMD_CONNECT | CONNCMD_DISCONNECT | CONNCMD_DISCONNECT_PEER |
  CONNCMD_SEND | CONNCMD_SEND_TO_ALL | CONCMD_ACK | CONCMD_CREATE_PEER | CONNCMD_RESEND_ONE |
  CONNCMD_PEER_ID_SET

record command =
  cmd_type :: command_type
  cmd_address :: address
  cmd_peer_id :: session_t
  cmd_channelnum :: u8
  cmd_data :: "u8 list"
  cmd_reliable :: bool
  cmd_raw :: bool

definition cmd_create :: "command_type \<Rightarrow> command" where
  "cmd_create t = \<lparr>cmd_type = t, cmd_address = 0, cmd_peer_id = PEER_ID_INEXISTENT,
     cmd_channelnum = 0, cmd_data = [], cmd_reliable = False, cmd_raw = False\<rparr>"

definition cmd_serve :: "address \<Rightarrow> command" where
  "cmd_serve a = (cmd_create CONNCMD_SERVE)\<lparr>cmd_address := a\<rparr>"

definition cmd_connect :: "address \<Rightarrow> command" where
  "cmd_connect a = (cmd_create CONNCMD_CONNECT)\<lparr>cmd_address := a\<rparr>"

definition cmd_disconnect :: command where
  "cmd_disconnect = cmd_create CONNCMD_DISCONNECT"

definition cmd_disconnect_peer :: "session_t \<Rightarrow> command" where
  "cmd_disconnect_peer pid = (cmd_create CONNCMD_DISCONNECT_PEER)\<lparr>cmd_peer_id := pid\<rparr>"

definition cmd_resend_one :: "session_t \<Rightarrow> command" where
  "cmd_resend_one pid = (cmd_create CONNCMD_RESEND_ONE)
     \<lparr>cmd_peer_id := pid, cmd_channelnum := 0, cmd_reliable := True\<rparr>"

definition cmd_peer_id_set :: "session_t \<Rightarrow> command" where
  "cmd_peer_id_set pid = (cmd_create CONNCMD_PEER_ID_SET)\<lparr>cmd_peer_id := pid\<rparr>"

definition cmd_send :: "session_t \<Rightarrow> u8 \<Rightarrow> u8 list \<Rightarrow> bool \<Rightarrow> command" where
  "cmd_send pid ch data reliable = (cmd_create CONNCMD_SEND)
     \<lparr>cmd_peer_id := pid, cmd_channelnum := ch, cmd_reliable := reliable, cmd_data := data\<rparr>"

definition cmd_ack :: "session_t \<Rightarrow> u8 \<Rightarrow> u8 list \<Rightarrow> command" where
  "cmd_ack pid ch data = (cmd_create CONCMD_ACK)
     \<lparr>cmd_peer_id := pid, cmd_channelnum := ch, cmd_reliable := False, cmd_data := data\<rparr>"

definition cmd_createPeer :: "session_t \<Rightarrow> u8 list \<Rightarrow> command" where
  "cmd_createPeer pid data = (cmd_create CONCMD_CREATE_PEER)
     \<lparr>cmd_peer_id := pid, cmd_channelnum := 0, cmd_reliable := True, cmd_raw := True, cmd_data := data\<rparr>"

subsection \<open>Channels\<close>

record channel =
  incoming_reliables :: rpb
  outgoing_reliables_sent :: rpb
  queued_reliables :: "packet list"
  queued_commands :: "command list"
  incoming_splits :: isb
  window_size :: u16
  next_incoming_seqnum :: u16
  next_outgoing_seqnum :: u16
  next_outgoing_split_seqnum :: u16
  current_packet_loss :: u32
  current_packet_too_late :: u32
  current_packet_successful :: u32
  current_bytes_transfered :: u32
  current_bytes_received :: u32
  current_bytes_lost :: u32

definition Channel_new :: channel where
  "Channel_new =
     \<lparr>incoming_reliables = rpb_new, outgoing_reliables_sent = rpb_new, queued_reliables = [],
      queued_commands = [], incoming_splits = [],
      window_size = word_of_int MIN_RELIABLE_WINDOW_SIZE,
      next_incoming_seqnum = SEQNUM_INITIAL, next_outgoing_seqnum = SEQNUM_INITIAL,
      next_outgoing_split_seqnum = SEQNUM_INITIAL,
      current_packet_loss = 0, current_packet_too_late = 0, current_packet_successful = 0,
      current_bytes_transfered = 0, current_bytes_received = 0, current_bytes_lost = 0\<rparr>"

definition readNextIncomingSeqNum :: "channel \<Rightarrow> u16" where
  "readNextIncomingSeqNum ch = next_incoming_seqnum ch"

definition incNextIncomingSeqNum :: "channel \<Rightarrow> u16 \<times> channel" where
  "incNextIncomingSeqNum ch =
     (next_incoming_seqnum ch, ch\<lparr>next_incoming_seqnum := next_incoming_seqnum ch + 1\<rparr>)"

definition readNextSplitSeqNum :: "channel \<Rightarrow> u16" where
  "readNextSplitSeqNum ch = next_outgoing_split_seqnum ch"

definition setNextSplitSeqNum :: "u16 \<Rightarrow> channel \<Rightarrow> channel" where
  "setNextSplitSeqNum seqnum ch = ch\<lparr>next_outgoing_split_seqnum := seqnum\<rparr>"

definition readOutgoingSequenceNumber :: "channel \<Rightarrow> u16" where
  "readOutgoingSequenceNumber ch = next_outgoing_seqnum ch"

text \<open>
  The number, whether there was one, and the channel. The sum of the second comparison is
  computed in \<open>int\<close>.
\<close>

definition getOutgoingSequenceNumber :: "channel \<Rightarrow> u16 \<times> bool \<times> channel" where
  "getOutgoingSequenceNumber ch =
     (let retval = next_outgoing_seqnum ch;
          found = (retval, True, ch\<lparr>next_outgoing_seqnum := retval + 1\<rparr>)
      in if rpb_empty (outgoing_reliables_sent ch) then found
         else case rpb_getFirstSeqnum (outgoing_reliables_sent ch) of
           None \<Rightarrow> found
         | Some lowest_unacked_seqnumber \<Rightarrow>
             if lowest_unacked_seqnumber < retval then
               if retval - lowest_unacked_seqnumber > window_size ch then (0, False, ch) else found
             else
               if unat retval + unat (of_nat SEQNUM_MAX - lowest_unacked_seqnumber :: u16) > unat (window_size ch)
               then (0, False, ch) else found)"

definition putBackSequenceNumber :: "u16 \<Rightarrow> channel \<Rightarrow> bool \<times> channel" where
  "putBackSequenceNumber seqnum ch =
     (if (unat seqnum + 1) mod (SEQNUM_MAX + 1) = unat (next_outgoing_seqnum ch)
      then (True, ch\<lparr>next_outgoing_seqnum := seqnum\<rparr>)
      else (False, ch))"

definition UpdateBytesSent :: "u32 \<Rightarrow> u32 \<Rightarrow> channel \<Rightarrow> channel" where
  "UpdateBytesSent bytes packets ch =
     ch\<lparr>current_bytes_transfered := current_bytes_transfered ch + bytes,
        current_packet_successful := current_packet_successful ch + packets\<rparr>"

definition UpdateBytesReceived :: "u32 \<Rightarrow> channel \<Rightarrow> channel" where
  "UpdateBytesReceived bytes ch = ch\<lparr>current_bytes_received := current_bytes_received ch + bytes\<rparr>"

definition UpdateBytesLost :: "u32 \<Rightarrow> channel \<Rightarrow> channel" where
  "UpdateBytesLost bytes ch = ch\<lparr>current_bytes_lost := current_bytes_lost ch + bytes\<rparr>"

definition UpdatePacketLossCounter :: "u32 \<Rightarrow> channel \<Rightarrow> channel" where
  "UpdatePacketLossCounter count ch = ch\<lparr>current_packet_loss := current_packet_loss ch + count\<rparr>"

definition UpdatePacketTooLateCounter :: "channel \<Rightarrow> channel" where
  "UpdatePacketTooLateCounter ch = ch\<lparr>current_packet_too_late := current_packet_too_late ch + 1\<rparr>"

definition rangelim :: "int \<Rightarrow> int \<Rightarrow> int \<Rightarrow> int" where
  "rangelim d lo hi = (if d < lo then lo else if d > hi then hi else d)"

definition setWindowSize :: "int \<Rightarrow> channel \<Rightarrow> channel" where
  "setWindowSize sz ch =
     ch\<lparr>window_size := word_of_int (rangelim sz MIN_RELIABLE_WINDOW_SIZE MAX_RELIABLE_WINDOW_SIZE_SEND)\<rparr>"

text \<open>
  The adjustment of the window, once a second. The ratio is an integer division, so that
  comparing it with a floating-point threshold is comparing integers.
\<close>

definition adjust_window :: "channel \<Rightarrow> channel" where
  "adjust_window ch =
     (let packets_successful = current_packet_successful ch;
          enough = unat (current_bytes_transfered ch) > unat (window_size ch) * 512 div 2;
          packet_loss = min (current_packet_loss ch + current_packet_too_late ch) packets_successful;
          w = uint (window_size ch);
          ch = ch\<lparr>current_packet_loss := 0, current_packet_too_late := 0, current_packet_successful := 0\<rparr>
      in if packets_successful = 0 \<and> packet_loss > 0 then setWindowSize (w - 10) ch
         else
           let ratio = (if packets_successful > 0 then unat (packet_loss div packets_successful) else 0)
           in if 100 * ratio < 1 then (if enough then setWindowSize (w + 100) ch else ch)
              else if 100 * ratio < 5 then (if enough then setWindowSize (w + 50) ch else ch)
              else if 100 * ratio > 15 then setWindowSize (w - 100) ch
              else if 10 * ratio > 1 then setWindowSize (w - 50) ch
              else ch)"

text \<open>
  \<open>second\<close> and \<open>ten_seconds\<close> are whether the counters \<open>packet_loss_counter\<close> and \<open>bpm_counter\<close>
  have passed 1 and 10.
\<close>

definition UpdateTimers :: "bool \<Rightarrow> bool \<Rightarrow> channel \<Rightarrow> channel" where
  "UpdateTimers second ten_seconds ch =
     (let ch = (if second then adjust_window ch else ch)
      in if ten_seconds
         then ch\<lparr>current_bytes_transfered := 0, current_bytes_lost := 0, current_bytes_received := 0\<rparr>
         else ch)"

subsection \<open>Peers\<close>

record udp_peer =
  peer_id :: session_t
  peer_address :: address
  peer_channels :: "channel list"
  half_open :: bool
  pending_disconnect :: bool
  pending_deletion :: bool
  increment_packets_remaining :: u32

definition UDPPeer_new :: "session_t \<Rightarrow> address \<Rightarrow> udp_peer" where
  "UDPPeer_new pid a =
     \<lparr>peer_id = pid, peer_address = a,
      peer_channels = map (setWindowSize START_RELIABLE_WINDOW_SIZE) (replicate CHANNEL_COUNT Channel_new),
      half_open = True, pending_disconnect = False, pending_deletion = False,
      increment_packets_remaining = 0\<rparr>"

text \<open>An access to the array of channels, out of bounds for a channel number of 3 or more.\<close>

definition get_channel :: "nat \<Rightarrow> udp_peer \<Rightarrow> channel res" where
  "get_channel i p = (if i < length (peer_channels p) then Inr (peer_channels p ! i) else Inl OutOfBounds)"

definition put_channel :: "nat \<Rightarrow> channel \<Rightarrow> udp_peer \<Rightarrow> udp_peer" where
  "put_channel i ch p = p\<lparr>peer_channels := (peer_channels p)[i := ch]\<rparr>"

definition getNextSplitSequenceNumber :: "u8 \<Rightarrow> udp_peer \<Rightarrow> u16 res" where
  "getNextSplitSequenceNumber c p =
     (if unat c < CHANNEL_COUNT then rbind (get_channel (unat c) p) (\<lambda>ch. Inr (readNextSplitSeqNum ch))
      else Inl AssertFailed)"

definition setNextSplitSequenceNumber :: "u8 \<Rightarrow> u16 \<Rightarrow> udp_peer \<Rightarrow> udp_peer res" where
  "setNextSplitSequenceNumber c seqnum p =
     (if unat c < CHANNEL_COUNT
      then rbind (get_channel (unat c) p) (\<lambda>ch. Inr (put_channel (unat c) (setNextSplitSeqNum seqnum ch) p))
      else Inl AssertFailed)"

definition addSplitPacket :: "u8 \<Rightarrow> packet \<Rightarrow> bool \<Rightarrow> udp_peer \<Rightarrow> (u8 list \<times> udp_peer) res" where
  "addSplitPacket c toadd reliable p =
     (if unat c < CHANNEL_COUNT
      then rbind (get_channel (unat c) p) (\<lambda>ch.
           rbind (isb_insert toadd reliable (incoming_splits ch)) (\<lambda>(data, m).
             Inr (data, put_channel (unat c) (ch\<lparr>incoming_splits := m\<rparr>) p)))
      else Inl AssertFailed)"

subsection \<open>Reliable commands\<close>

text \<open>
  Giving sequence numbers to the chunks: the packets made, whether the last call found a
  number, the first number, and the channel. \<open>mk\<close> makes the packet of a chunk and a number.
\<close>

fun number_chunks ::
  "(u8 list \<Rightarrow> u16 \<Rightarrow> packet) \<Rightarrow> u8 list list \<Rightarrow> channel \<Rightarrow> packet list \<times> bool \<times> u16 option \<times> channel" where
  "number_chunks mk [] ch = ([], False, None, ch)"
| "number_chunks mk (original # originals) ch =
     (case getOutgoingSequenceNumber ch of
        (_, False, ch1) \<Rightarrow> ([], False, None, ch1)
      | (seqnum, True, ch1) \<Rightarrow>
          if originals = [] then ([mk original seqnum], True, Some seqnum, ch1)
          else case number_chunks mk originals ch1 of
            (ps, have_sequence_number, _, ch2) \<Rightarrow>
              (mk original seqnum # ps, have_sequence_number, Some seqnum, ch2))"

text \<open>Putting the numbers back, the last one first.\<close>

fun put_back :: "u16 \<Rightarrow> nat \<Rightarrow> channel \<Rightarrow> channel res" where
  "put_back first_seqnum 0 ch = Inr ch"
| "put_back first_seqnum (Suc n) ch =
     (case putBackSequenceNumber (first_seqnum + of_nat (n mod (SEQNUM_MAX + 1))) ch of
        (True, ch1) \<Rightarrow> put_back first_seqnum n ch1
      | (False, _) \<Rightarrow> Inl AssertFailed)"

definition make_originals :: "command \<Rightarrow> u32 \<Rightarrow> channel \<Rightarrow> (u8 list list \<times> channel) res" where
  "make_originals c max_packet_size ch =
     (if cmd_raw c then Inr ([cmd_data c], ch)
      else rbind (makeAutoSplitPacket (cmd_data c)
               (max_packet_size - of_nat BASE_HEADER_SIZE - of_nat RELIABLE_HEADER_SIZE)
               (readNextSplitSeqNum ch)) (\<lambda>(originals, split_seqnum).
             Inr (originals, setNextSplitSeqNum split_seqnum ch)))"

text \<open>The part of \<open>processReliableSendCommand\<close> on the channel: whether the packets were queued.\<close>

definition queue_reliable_command ::
  "(u8 list \<Rightarrow> u16 \<Rightarrow> packet) \<Rightarrow> command \<Rightarrow> u32 \<Rightarrow> channel \<Rightarrow> (bool \<times> channel) res" where
  "queue_reliable_command mk c max_packet_size ch =
     rbind (make_originals c max_packet_size ch) (\<lambda>(originals, ch1).
       if length originals \<ge> unat MAX_RELIABLE_WINDOW_SIZE then Inl AssertFailed
       else case number_chunks mk originals ch1 of
         (toadd, have_sequence_number, initial_sequence_number, ch2) \<Rightarrow>
           if have_sequence_number then
             let ch3 = ch2\<lparr>queued_reliables := queued_reliables ch2 @ toadd\<rparr>
             in if length (queued_reliables ch3) \<ge> 0xFFFF then Inl AssertFailed else Inr (True, ch3)
           else case initial_sequence_number of
             None \<Rightarrow> Inr (False, ch2)
           | Some first_seqnum \<Rightarrow>
               rbind (put_back first_seqnum (length toadd) ch2) (\<lambda>ch3. Inr (False, ch3)))"

text \<open>\<open>proto\<close> and \<open>own_id\<close> are the protocol id and the own peer id of the connection.\<close>

definition reliable_chunk_packet ::
  "u32 \<Rightarrow> session_t \<Rightarrow> address \<Rightarrow> u8 \<Rightarrow> u8 list \<Rightarrow> u16 \<Rightarrow> packet" where
  "reliable_chunk_packet proto own_id a c original seqnum =
     makePacket a (makeReliablePacket original seqnum) proto own_id c"

definition processReliableSendCommand ::
  "u32 \<Rightarrow> session_t \<Rightarrow> command \<Rightarrow> u32 \<Rightarrow> udp_peer \<Rightarrow> (bool \<times> udp_peer) res" where
  "processReliableSendCommand proto own_id c max_packet_size p =
     (if pending_disconnect p then Inr (True, p)
      else
        let i = unat (cmd_channelnum c)
        in rbind (get_channel i p) (\<lambda>ch.
           rbind (queue_reliable_command (reliable_chunk_packet proto own_id (peer_address p) (cmd_channelnum c))
                    c max_packet_size ch) (\<lambda>(processed, ch1).
             Inr (processed, put_channel i ch1 p))))"

definition PutReliableSendCommand ::
  "u32 \<Rightarrow> session_t \<Rightarrow> command \<Rightarrow> u32 \<Rightarrow> udp_peer \<Rightarrow> udp_peer res" where
  "PutReliableSendCommand proto own_id c max_packet_size p =
     (if pending_disconnect p then Inr p
      else
        let i = unat (cmd_channelnum c);
            enqueue = (\<lambda>p. rbind (get_channel i p) (\<lambda>ch.
              Inr (put_channel i (ch\<lparr>queued_commands := queued_commands ch @ [c]\<rparr>) p)))
        in rbind (get_channel i p) (\<lambda>chan.
             if queued_commands chan = [] \<and> length (queued_reliables chan) + 1 < unat (window_size chan) div 2
             then rbind (processReliableSendCommand proto own_id c max_packet_size p) (\<lambda>(processed, p1).
                    if processed then Inr p1 else enqueue p1)
             else enqueue p))"

text \<open>The queues of one channel, then of all.\<close>

definition run_command_queue ::
  "u32 \<Rightarrow> session_t \<Rightarrow> u32 \<Rightarrow> u32 \<Rightarrow> nat \<Rightarrow> udp_peer \<Rightarrow> udp_peer res" where
  "run_command_queue proto own_id max_packet_size maxtransfer i p =
     rbind (get_channel i p) (\<lambda>ch.
       case queued_commands ch of
         [] \<Rightarrow> Inr p
       | c # _ \<Rightarrow>
           if length (queued_reliables ch) < unat maxtransfer then
             rbind (processReliableSendCommand proto own_id c max_packet_size p) (\<lambda>(processed, p1).
               if processed then
                 rbind (get_channel i p1) (\<lambda>ch1.
                   Inr (put_channel i (ch1\<lparr>queued_commands := tl (queued_commands ch1)\<rparr>) p1))
               else Inr p1)
           else Inr p)"

fun run_command_queues ::
  "u32 \<Rightarrow> session_t \<Rightarrow> u32 \<Rightarrow> u32 \<Rightarrow> nat list \<Rightarrow> udp_peer \<Rightarrow> udp_peer res" where
  "run_command_queues proto own_id max_packet_size maxtransfer [] p = Inr p"
| "run_command_queues proto own_id max_packet_size maxtransfer (i # js) p =
     rbind (run_command_queue proto own_id max_packet_size maxtransfer i p)
       (run_command_queues proto own_id max_packet_size maxtransfer js)"

definition RunCommandQueues :: "u32 \<Rightarrow> session_t \<Rightarrow> u32 \<Rightarrow> u32 \<Rightarrow> udp_peer \<Rightarrow> udp_peer res" where
  "RunCommandQueues proto own_id max_packet_size maxtransfer p =
     run_command_queues proto own_id max_packet_size maxtransfer [0..<length (peer_channels p)] p"

subsection \<open>The send window\<close>

lemma rangelim_range: "32 \<le> rangelim d 32 2048" "rangelim d 32 2048 \<le> 2048"
  by (simp_all add: rangelim_def)

lemma uint_window:
  "uint (window_size (setWindowSize d ch)) = rangelim d 32 2048"
  using rangelim_range [of d]
  by (simp add: setWindowSize_def MIN_RELIABLE_WINDOW_SIZE_def MAX_RELIABLE_WINDOW_SIZE_SEND_def
      uint_word_of_int)

definition window_ok :: "channel \<Rightarrow> bool" where
  "window_ok ch \<longleftrightarrow> 32 \<le> uint (window_size ch) \<and> uint (window_size ch) \<le> 2048"

lemma window_ok_set [simp]: "window_ok (setWindowSize d ch)"
  by (simp add: window_ok_def uint_window rangelim_range)

lemma window_ok_new [simp]: "window_ok Channel_new"
  by (simp add: window_ok_def Channel_new_def MIN_RELIABLE_WINDOW_SIZE_def)

lemma window_ok_peer: "p = UDPPeer_new i a \<Longrightarrow> \<forall>ch \<in> set (peer_channels p). window_ok ch"
  by (simp add: UDPPeer_new_def)

lemma packet_loss_ratio: "(min a s :: u32) div s \<le> 1"
proof (cases "s = 0")
  case False
  then have "unat (min a s) div unat s \<le> 1"
    by (metis div_le_mono div_self le_zero_eq min.cobounded2 unat_eq_0 word_le_nat_alt)
  then show ?thesis
    by (simp add: word_le_nat_alt unat_div)
qed simp

lemma getOutgoing_ok:
  "getOutgoingSequenceNumber ch = (q, True, ch') \<Longrightarrow>
    q = next_outgoing_seqnum ch \<and> ch' = ch\<lparr>next_outgoing_seqnum := q + 1\<rparr>"
  "getOutgoingSequenceNumber ch = (q, False, ch') \<Longrightarrow> ch' = ch"
  by (auto simp: getOutgoingSequenceNumber_def Let_def split: if_splits option.splits)

subsection \<open>All or nothing\<close>

lemma number_chunks_ok:
  "number_chunks mk os ch = (ps, got, first_seqnum, ch2) \<Longrightarrow>
    length ps \<le> length os \<and> (got \<longleftrightarrow> os \<noteq> [] \<and> length ps = length os) \<and>
    first_seqnum = (if ps = [] then None else Some (next_outgoing_seqnum ch)) \<and>
    ps = map (\<lambda>i. mk (os ! i) (next_outgoing_seqnum ch + of_nat i)) [0..<length ps] \<and>
    ch2 = ch\<lparr>next_outgoing_seqnum := next_outgoing_seqnum ch + of_nat (length ps)\<rparr>"
proof (induction os arbitrary: ch ps got first_seqnum ch2)
  case Nil
  then show ?case by simp
next
  case (Cons x os)
  obtain q ok ch1 where g: "getOutgoingSequenceNumber ch = (q, ok, ch1)"
    by (metis prod_cases3)
  show ?case
  proof (cases ok)
    case False
    with g Cons.prems show ?thesis
      using getOutgoing_ok(2) [of ch q ch1] by simp
  next
    case True
    then have q: "q = next_outgoing_seqnum ch" "ch1 = ch\<lparr>next_outgoing_seqnum := q + 1\<rparr>"
      using getOutgoing_ok(1) [of ch q ch1] g by simp_all
    show ?thesis
    proof (cases "os = []")
      case True
      with Cons.prems g \<open>ok\<close> q show ?thesis by auto
    next
      case False
      obtain ps1 got1 f1 ch3 where n: "number_chunks mk os ch1 = (ps1, got1, f1, ch3)"
        by (metis prod_cases4)
      have r: "ps = mk x q # ps1" "got = got1" "first_seqnum = Some q" "ch2 = ch3"
        using Cons.prems g \<open>ok\<close> False n by simp_all
      have "ps = map (\<lambda>i. mk ((x # os) ! i) (next_outgoing_seqnum ch + of_nat i)) [0..<length ps]"
      proof (rule nth_equalityI)
        fix i
        assume i: "i < length ps"
        have ps1: "ps1 ! j = mk (os ! j) (q + 1 + of_nat j)" if "j < length ps1" for j
        proof -
          have "ps1 = map (\<lambda>i. mk (os ! i) (q + 1 + of_nat i)) [0..<length ps1]"
            using Cons.IH [OF n] q by simp
          then have "ps1 ! j = map (\<lambda>i. mk (os ! i) (q + 1 + of_nat i)) [0..<length ps1] ! j"
            by (rule arg_cong)
          with that show ?thesis by simp
        qed
        show "ps ! i = map (\<lambda>i. mk ((x # os) ! i) (next_outgoing_seqnum ch + of_nat i)) [0..<length ps] ! i"
          using i q(1) by (cases i) (simp_all add: r(1) ps1 add.assoc del: upt_Suc)
      qed simp
      moreover have "ch2 = ch\<lparr>next_outgoing_seqnum := next_outgoing_seqnum ch + of_nat (length ps)\<rparr>"
        using Cons.IH [OF n] q r by (simp add: add.assoc)
      ultimately show ?thesis
        using Cons.IH [OF n] r False q(1) by auto
    qed
  qed
qed

lemma number_chunks_all:
  "number_chunks mk os ch = (ps, got, first_seqnum, ch2) \<Longrightarrow> os \<noteq> [] \<Longrightarrow>
    rpb_empty (outgoing_reliables_sent ch) \<Longrightarrow> got"
proof (induction os arbitrary: ch ps got first_seqnum ch2)
  case (Cons x os)
  show ?case
    using Cons.prems Cons.IH [of "ch\<lparr>next_outgoing_seqnum := next_outgoing_seqnum ch + 1\<rparr>"]
    by (cases "os = []")
      (auto simp: getOutgoingSequenceNumber_def Let_def split: prod.splits)
qed simp

lemma put_back_ok:
  "n \<le> 65536 \<Longrightarrow> put_back q n (ch\<lparr>next_outgoing_seqnum := q + of_nat n\<rparr>) = Inr (ch\<lparr>next_outgoing_seqnum := q\<rparr>)"
proof (induction n)
  case (Suc n)
  have "(unat (q + of_nat n) + 1) mod 65536 = unat (q + of_nat n + 1)"
    by (simp add: unat_word_ariths)
  then have "putBackSequenceNumber (q + of_nat n) (ch\<lparr>next_outgoing_seqnum := q + of_nat (Suc n)\<rparr>) =
      (True, ch\<lparr>next_outgoing_seqnum := q + of_nat n\<rparr>)"
    by (simp add: putBackSequenceNumber_def SEQNUM_MAX_def add.commute add.left_commute)
  with Suc show ?case
    by (simp add: SEQNUM_MAX_def)
qed simp

lemma make_originals_channel:
  "make_originals c m ch = Inr (os, ch1) \<Longrightarrow> \<exists>q. ch1 = ch\<lparr>next_outgoing_split_seqnum := q\<rparr>"
proof (cases "cmd_raw c")
  case True
  assume "make_originals c m ch = Inr (os, ch1)"
  with True show ?thesis
    by (intro exI [of _ "next_outgoing_split_seqnum ch"]) (simp add: make_originals_def)
qed (auto simp: make_originals_def setNextSplitSeqNum_def)

lemma split_loop_ne: "split_loop data m s k = Inr cs \<Longrightarrow> cs \<noteq> []"
  by (subst (asm) split_loop.simps) (auto simp: Let_def split: if_splits sum.splits)

lemma make_originals_ne: "make_originals c m ch = Inr (os, ch1) \<Longrightarrow> os \<noteq> []"
  by (auto simp: make_originals_def makeAutoSplitPacket_def makeSplitPacket_def split: if_splits
      dest: split_loop_ne)

text \<open>When there are not enough numbers, those that were taken are put back.\<close>

lemma nothing_queued:
  assumes "make_originals c max_packet_size ch = Inr (originals, ch1)" and "length originals < 0x8000"
    and n: "number_chunks mk originals ch1 = (ps, got, first_seqnum, ch2)" and "\<not> got"
  shows "queue_reliable_command mk c max_packet_size ch = Inr (False, ch1)"
proof -
  note ok = number_chunks_ok [OF n]
  have len: "\<not> length originals \<ge> unat MAX_RELIABLE_WINDOW_SIZE"
    using assms(2) by (simp add: MAX_RELIABLE_WINDOW_SIZE_def)
  have c2: "ch2 = ch1\<lparr>next_outgoing_seqnum := next_outgoing_seqnum ch1 + of_nat (length ps)\<rparr>"
    using ok by blast
  show ?thesis
  proof (cases "ps = []")
    case True
    then show ?thesis
      using assms(1,4) len n ok c2 by (simp add: queue_reliable_command_def)
  next
    case False
    have "length ps \<le> 65536"
      using ok assms(2) by simp
    from put_back_ok [OF this, of "next_outgoing_seqnum ch1" ch1]
    have "put_back (next_outgoing_seqnum ch1) (length ps) ch2 = Inr ch1"
      using c2 by simp
    then show ?thesis
      using assms(1,4) len n ok False by (simp add: queue_reliable_command_def)
  qed
qed

subsection \<open>Properties\<close>





text \<open>
  The window size stays between 32 and 2048 packets whatever the counters are, and one
  adjustment leaves it, raises it by 100, or lowers it by 10 or by 100: the ratio of lost to
  successful packets is an integer division with result 0 or 1, so the steps of 50 are never
  taken.
\<close>

theorem window_adjustment:
  assumes "window_ok ch"
  shows "window_ok (UpdateTimers second ten_seconds ch) \<and>
    uint (window_size (UpdateTimers second ten_seconds ch)) \<in>
      {uint (window_size ch), rangelim (uint (window_size ch) + 100) 32 2048,
       rangelim (uint (window_size ch) - 10) 32 2048, rangelim (uint (window_size ch) - 100) 32 2048}"
proof -
  let ?l = "min (current_packet_loss ch + current_packet_too_late ch) (current_packet_successful ch)"
  have "unat (?l div current_packet_successful ch) = 0 \<or> unat (?l div current_packet_successful ch) = 1"
    using packet_loss_ratio [of "current_packet_loss ch + current_packet_too_late ch" "current_packet_successful ch"]
    by (auto simp: word_le_nat_alt)
  then have "window_ok (adjust_window ch) \<and> uint (window_size (adjust_window ch)) \<in>
      {uint (window_size ch), rangelim (uint (window_size ch) + 100) 32 2048,
       rangelim (uint (window_size ch) - 10) 32 2048, rangelim (uint (window_size ch) - 100) 32 2048}"
    using assms by (auto simp: adjust_window_def Let_def uint_window) (simp_all add: window_ok_def)
  then show ?thesis
    using assms by (auto simp: UpdateTimers_def Let_def window_ok_def)
qed

theorem window_adjustment_witness:
  "window_ok (UpdateTimers True True Channel_new)"
  using window_adjustment [OF window_ok_new] by blast

end
