(* ===== verification/MtpConnection.thy ===== *)
theory MtpConnection
  imports MtpChannel
begin

text \<open>
  The connection of \<^verbatim>\<open>src/network/mtp/impl.cpp\<close>, its peers, events and commands, and the send
  thread of \<^verbatim>\<open>src/network/mtp/threads.cpp\<close>. What the send thread puts on the wire is the list
  \<open>cn_wire\<close>. Every operation is one step: the mutexes of the code make the accesses to the
  peers and to the queues atomic. The outcomes of comparing clocks, of binding the socket and
  of drawing random numbers are parameters.
\<close>

subsection \<open>Events and the state\<close>

datatype event_type =
  CONNEVENT_NONE | CONNEVENT_CONNECT_FAILED | CONNEVENT_DATA_RECEIVED | CONNEVENT_PEER_ADDED |
  CONNEVENT_PEER_REMOVED | CONNEVENT_BIND_FAILED

record event =
  ev_type :: event_type
  ev_peer_id :: session_t
  ev_data :: "u8 list"
  ev_timeout :: bool
  ev_address :: address

definition ev_create :: "event_type \<Rightarrow> event" where
  "ev_create t = \<lparr>ev_type = t, ev_peer_id = 0, ev_data = [], ev_timeout = False, ev_address = 0\<rparr>"

definition ev_dataReceived :: "session_t \<Rightarrow> u8 list \<Rightarrow> event" where
  "ev_dataReceived pid data = (ev_create CONNEVENT_DATA_RECEIVED)\<lparr>ev_peer_id := pid, ev_data := data\<rparr>"

definition ev_peerAdded :: "session_t \<Rightarrow> address \<Rightarrow> event" where
  "ev_peerAdded pid a = (ev_create CONNEVENT_PEER_ADDED)\<lparr>ev_peer_id := pid, ev_address := a\<rparr>"

definition ev_peerRemoved :: "session_t \<Rightarrow> bool \<Rightarrow> address \<Rightarrow> event" where
  "ev_peerRemoved pid is_timeout a =
     (ev_create CONNEVENT_PEER_REMOVED)\<lparr>ev_peer_id := pid, ev_timeout := is_timeout, ev_address := a\<rparr>"

definition ev_connectFailed :: event where "ev_connectFailed = ev_create CONNEVENT_CONNECT_FAILED"

definition ev_bindFailed :: event where "ev_bindFailed = ev_create CONNEVENT_BIND_FAILED"

record outgoing_packet =
  op_peer_id :: session_t
  op_channelnum :: u8
  op_data :: "u8 list"
  op_reliable :: bool
  op_ack :: bool

record connection =
  cn_peer_id :: session_t
  cn_protocol_id :: u32
  cn_peers :: "(session_t \<times> udp_peer) list"
  cn_peer_ids :: "session_t list"
  cn_events :: "event list"
  cn_commands :: "command list"
  cn_shutting_down :: bool
  cn_outgoing_queue :: "outgoing_packet list"
  cn_wire :: "packet list"
  cn_max_packet_size :: u32
  cn_iteration_packets :: u32
  cn_new_peers :: int

definition Connection_new :: "u32 \<Rightarrow> connection" where
  "Connection_new max_packet_size =
     \<lparr>cn_peer_id = 0, cn_protocol_id = PROTOCOL_ID, cn_peers = [], cn_peer_ids = [], cn_events = [],
      cn_commands = [], cn_shutting_down = False, cn_outgoing_queue = [], cn_wire = [],
      cn_max_packet_size = max_packet_size, cn_iteration_packets = 0, cn_new_peers = 0\<rparr>"

fun for_each :: "('a \<Rightarrow> 's \<Rightarrow> 's res) \<Rightarrow> 'a list \<Rightarrow> 's \<Rightarrow> 's res" where
  "for_each f [] s = Inr s"
| "for_each f (x # xs) s = rbind (f x s) (for_each f xs)"

definition put_peer :: "session_t \<Rightarrow> udp_peer \<Rightarrow> connection \<Rightarrow> connection" where
  "put_peer pid p c = c\<lparr>cn_peers := AList.update pid p (cn_peers c)\<rparr>"

subsection \<open>Peers\<close>

definition putEvent :: "event \<Rightarrow> connection \<Rightarrow> connection res" where
  "putEvent e c =
     (if ev_type e = CONNEVENT_NONE then Inl AssertFailed else Inr (c\<lparr>cn_events := cn_events c @ [e]\<rparr>))"

definition putCommand :: "command \<Rightarrow> connection \<Rightarrow> connection" where
  "putCommand cmd c = (if cn_shutting_down c then c else c\<lparr>cn_commands := cn_commands c @ [cmd]\<rparr>)"

text \<open>A peer that is pending deletion is as if it were not there.\<close>

definition getPeerNoEx :: "session_t \<Rightarrow> connection \<Rightarrow> udp_peer option res" where
  "getPeerNoEx pid c =
     (case map_of (cn_peers c) pid of
        None \<Rightarrow> Inr None
      | Some p \<Rightarrow>
          if peer_id p \<noteq> pid then Inl AssertFailed
          else Inr (if pending_deletion p then None else Some p))"

definition getPeerIDs :: "connection \<Rightarrow> session_t list" where
  "getPeerIDs c = cn_peer_ids c"

text \<open>The map of peers is traversed in the order of its keys.\<close>

definition peers_in_order :: "connection \<Rightarrow> udp_peer list" where
  "peers_in_order c = map snd (sort_key fst (cn_peers c))"

definition lookupPeer :: "address \<Rightarrow> connection \<Rightarrow> session_t" where
  "lookupPeer sender c =
     (case find (\<lambda>p. \<not> pending_deletion p \<and> peer_address p = sender) (peers_in_order c) of
        Some p \<Rightarrow> peer_id p
      | None \<Rightarrow> PEER_ID_INEXISTENT)"

definition getActiveCount :: "connection \<Rightarrow> u32" where
  "getActiveCount c =
     of_nat (length (filter (\<lambda>p. \<not> pending_deletion p \<and> \<not> half_open p) (peers_in_order c)))"

text \<open>Whether there was such a peer. The peer itself is freed when its last user lets it go.\<close>

definition deletePeer :: "session_t \<Rightarrow> bool \<Rightarrow> connection \<Rightarrow> (bool \<times> connection) res" where
  "deletePeer pid timed_out c =
     (case map_of (cn_peers c) pid of
        None \<Rightarrow> Inr (False, c)
      | Some p \<Rightarrow>
          if pid \<notin> set (cn_peer_ids c) then Inl OutOfBounds
          else rbind (putEvent (ev_peerRemoved pid timed_out (peer_address p))
                 (c\<lparr>cn_peers := AList.delete pid (cn_peers c), cn_peer_ids := remove1 pid (cn_peer_ids c)\<rparr>))
               (\<lambda>c1. Inr (True, c1)))"

definition Connected :: "connection \<Rightarrow> bool" where
  "Connected c \<longleftrightarrow>
     length (cn_peers c) = 1 \<and> map_of (cn_peers c) PEER_ID_SERVER \<noteq> None \<and>
     cn_peer_id c \<noteq> PEER_ID_INEXISTENT"

definition ConnectedToServer :: "connection \<Rightarrow> bool res" where
  "ConnectedToServer c = rbind (getPeerNoEx PEER_ID_SERVER c) (\<lambda>p. Inr (p \<noteq> None))"

definition GetPeerAddress :: "session_t \<Rightarrow> connection \<Rightarrow> address res" where
  "GetPeerAddress pid c =
     rbind (getPeerNoEx pid c) (\<lambda>p. case p of None \<Rightarrow> Inl BaseException | Some p \<Rightarrow> Inr (peer_address p))"

subsection \<open>The interface to the user\<close>

definition Serve :: "address \<Rightarrow> connection \<Rightarrow> connection" where
  "Serve a = putCommand (cmd_serve a)"

definition Connect :: "address \<Rightarrow> connection \<Rightarrow> connection" where
  "Connect a = putCommand (cmd_connect a)"

definition Disconnect :: "connection \<Rightarrow> connection" where
  "Disconnect = putCommand cmd_disconnect"

definition DisconnectPeer :: "session_t \<Rightarrow> connection \<Rightarrow> connection" where
  "DisconnectPeer pid = putCommand (cmd_disconnect_peer pid)"

text \<open>
  \<open>data\<close> is the packet as \<open>oldForgePacket\<close> writes it, \<open>sz\<close> the size \<open>getSize\<close> gives for it.
\<close>

definition Send :: "session_t \<Rightarrow> u8 \<Rightarrow> nat \<Rightarrow> u8 list \<Rightarrow> bool \<Rightarrow> connection \<Rightarrow> connection res" where
  "Send pid channelnum sz data reliable c =
     (if \<not> unat channelnum < CHANNEL_COUNT then Inl AssertFailed
      else if reliable \<and> sz > unat MAX_RELIABLE_WINDOW_SIZE * 512 then Inl AssertFailed
      else Inr (putCommand (cmd_send pid channelnum data reliable) c))"

definition waitEvent :: "connection \<Rightarrow> event \<times> connection" where
  "waitEvent c =
     (case cn_events c of
        [] \<Rightarrow> (ev_create CONNEVENT_NONE, c)
      | e # es \<Rightarrow> (e, c\<lparr>cn_events := es\<rparr>))"

datatype handler_call = PeerAdded session_t | DeletingPeer session_t bool

text \<open>
  \<open>ReceiveTimeoutMs\<close> on the events that are queued: the outcome (an exception, no packet, or a
  packet with its sender), the calls of the peer handler, and the events left.
\<close>

fun receive_events ::
  "event list \<Rightarrow> (session_t \<times> u8 list) option res \<times> handler_call list \<times> event list" where
  "receive_events [] = (Inr None, [], [])"
| "receive_events (e # es) =
     (case ev_type e of
        CONNEVENT_NONE \<Rightarrow> (Inr None, [], es)
      | CONNEVENT_DATA_RECEIVED \<Rightarrow>
          if length (ev_data e) < 2 then receive_events es
          else (Inr (Some (ev_peer_id e, ev_data e)), [], es)
      | CONNEVENT_PEER_ADDED \<Rightarrow>
          (case receive_events es of (r, calls, es') \<Rightarrow> (r, PeerAdded (ev_peer_id e) # calls, es'))
      | CONNEVENT_PEER_REMOVED \<Rightarrow>
          (case receive_events es of
             (r, calls, es') \<Rightarrow> (r, DeletingPeer (ev_peer_id e) (ev_timeout e) # calls, es'))
      | CONNEVENT_BIND_FAILED \<Rightarrow> (Inl BaseException, [], es)
      | CONNEVENT_CONNECT_FAILED \<Rightarrow> (Inl BaseException, [], es))"

definition ReceiveTimeoutMs ::
  "connection \<Rightarrow> (session_t \<times> u8 list) option res \<times> handler_call list \<times> connection" where
  "ReceiveTimeoutMs c =
     (case receive_events (cn_events c) of (r, calls, es) \<Rightarrow> (r, calls, c\<lparr>cn_events := es\<rparr>))"

subsection \<open>Internal operations\<close>

text \<open>
  \<open>draws\<close> are the numbers that \<^verbatim>\<open>myrand_range\<close> returns; the loop takes the first that is not in
  use, of at most 100.
\<close>

definition createPeer :: "session_t list \<Rightarrow> address \<Rightarrow> connection \<Rightarrow> (session_t \<times> connection) res" where
  "createPeer draws sender c =
     (case find (\<lambda>i. map_of (cn_peers c) i = None) (take 100 draws) of
        None \<Rightarrow> Inr (PEER_ID_INEXISTENT, c)
      | Some peer_id_new \<Rightarrow>
          let c1 = put_peer peer_id_new (UDPPeer_new peer_id_new sender) c;
              c2 = c1\<lparr>cn_peer_ids := cn_peer_ids c1 @ [peer_id_new]\<rparr>;
              reply = [PACKET_TYPE_CONTROL, CONTROLTYPE_SET_PEER_ID] @ writeU16 peer_id_new;
              c3 = putCommand (cmd_createPeer peer_id_new reply) c2
          in rbind (putEvent (ev_peerAdded peer_id_new sender) c3) (\<lambda>c4. Inr (peer_id_new, c4)))"

definition SetPeerID :: "session_t \<Rightarrow> connection \<Rightarrow> connection" where
  "SetPeerID pid c =
     (let c1 = c\<lparr>cn_peer_id := pid\<rparr>
      in if pid \<noteq> PEER_ID_INEXISTENT then putCommand (cmd_peer_id_set pid) c1 else c1)"

definition doResendOne :: "session_t \<Rightarrow> connection \<Rightarrow> connection res" where
  "doResendOne pid c =
     (if pid = PEER_ID_INEXISTENT then Inl AssertFailed else Inr (putCommand (cmd_resend_one pid) c))"

definition sendAck :: "session_t \<Rightarrow> u8 \<Rightarrow> u16 \<Rightarrow> connection \<Rightarrow> connection res" where
  "sendAck pid channelnum seqnum c =
     (if \<not> unat channelnum < CHANNEL_COUNT then Inl AssertFailed
      else Inr (putCommand (cmd_ack pid channelnum
             ([PACKET_TYPE_CONTROL, CONTROLTYPE_ACK] @ writeU16 seqnum)) c))"

definition createServerPeer :: "address \<Rightarrow> connection \<Rightarrow> (udp_peer \<times> connection) res" where
  "createServerPeer a c =
     rbind (ConnectedToServer c) (\<lambda>connected.
       if connected then Inl BaseException
       else
         let p = (UDPPeer_new PEER_ID_SERVER a)\<lparr>half_open := False\<rparr>;
             c1 = put_peer (peer_id p) p c
         in Inr (p, c1\<lparr>cn_peer_ids := cn_peer_ids c1 @ [peer_id p]\<rparr>))"

subsection \<open>The send thread: packets\<close>

definition readPeerId :: "u8 list \<Rightarrow> session_t" where
  "readPeerId packetdata = readU16 (drop 4 packetdata)"

definition readChannel :: "u8 list \<Rightarrow> u8" where
  "readChannel packetdata = packetdata ! 6"

definition sendAsPacket :: "session_t \<Rightarrow> u8 \<Rightarrow> u8 list \<Rightarrow> bool \<Rightarrow> connection \<Rightarrow> connection" where
  "sendAsPacket pid channelnum data ack c =
     c\<lparr>cn_outgoing_queue := cn_outgoing_queue c @
        [\<lparr>op_peer_id = pid, op_channelnum = channelnum, op_data = data, op_reliable = False, op_ack = ack\<rparr>]\<rparr>"

text \<open>A failure to send is only logged: to the receiver it is a lost packet.\<close>

definition rawSend :: "packet \<Rightarrow> connection \<Rightarrow> connection" where
  "rawSend p c = c\<lparr>cn_wire := cn_wire c @ [p]\<rparr>"

definition resendReliable :: "packet \<Rightarrow> channel \<Rightarrow> connection \<Rightarrow> channel \<times> connection" where
  "resendReliable k ch c = (UpdateBytesLost (of_nat (length (pk_data k))) ch, rawSend k c)"

text \<open>The oldest number the buffer accepts, half the range behind; computed in \<open>int\<close>.\<close>

definition send_next_expected :: "channel \<Rightarrow> u16" where
  "send_next_expected ch =
     word_of_int (c_mod (uint (readOutgoingSequenceNumber ch) - uint MAX_RELIABLE_WINDOW_SIZE)
       (uint MAX_RELIABLE_WINDOW_SIZE + 1))"

definition sendAsPacketReliable :: "packet \<Rightarrow> channel \<Rightarrow> connection \<Rightarrow> (channel \<times> connection) res" where
  "sendAsPacketReliable p ch c =
     rbind (rpb_insert p (send_next_expected ch) (outgoing_reliables_sent ch)) (\<lambda>b.
       Inr (ch\<lparr>outgoing_reliables_sent := b\<rparr>, rawSend p c))"

definition rawSendAsPacket ::
  "session_t \<Rightarrow> u8 \<Rightarrow> u8 list \<Rightarrow> bool \<Rightarrow> connection \<Rightarrow> (bool \<times> connection) res" where
  "rawSendAsPacket pid channelnum data reliable c =
     rbind (getPeerNoEx pid c) (\<lambda>peer. case peer of
         None \<Rightarrow> Inr (False, c)
       | Some p \<Rightarrow>
           let i = unat channelnum
           in rbind (get_channel i p) (\<lambda>ch.
                if reliable then
                  (case getOutgoingSequenceNumber ch of
                     (_, False, ch1) \<Rightarrow> Inr (False, put_peer pid (put_channel i ch1 p) c)
                   | (seqnum, True, ch1) \<Rightarrow>
                       let pk = makePacket (peer_address p) (makeReliablePacket data seqnum)
                                  (cn_protocol_id c) (cn_peer_id c) channelnum
                       in if rpb_size (outgoing_reliables_sent ch1) < unat (window_size ch1) then
                            rbind (sendAsPacketReliable pk ch1 c) (\<lambda>(ch2, c1).
                              Inr (True, put_peer pid (put_channel i ch2 p) c1))
                          else
                            Inr (False, put_peer pid
                              (put_channel i (ch1\<lparr>queued_reliables := queued_reliables ch1 @ [pk]\<rparr>) p) c))
                else
                  Inr (True, rawSend (makePacket (peer_address p) data (cn_protocol_id c) (cn_peer_id c) channelnum) c)))"

subsection \<open>The send thread: commands\<close>

definition st_send :: "session_t \<Rightarrow> u8 \<Rightarrow> u8 list \<Rightarrow> connection \<Rightarrow> connection res" where
  "st_send pid channelnum data c =
     (if \<not> unat channelnum < CHANNEL_COUNT then Inl AssertFailed
      else rbind (getPeerNoEx pid c) (\<lambda>peer. case peer of
          None \<Rightarrow> Inr c
        | Some p \<Rightarrow>
            rbind (getNextSplitSequenceNumber channelnum p) (\<lambda>split_sequence_number.
            rbind (makeAutoSplitPacket data (cn_max_packet_size c - of_nat BASE_HEADER_SIZE) split_sequence_number)
              (\<lambda>(originals, split_sequence_number).
            rbind (setNextSplitSequenceNumber channelnum split_sequence_number p) (\<lambda>p1.
              Inr (fold (\<lambda>original. sendAsPacket pid channelnum original False) originals (put_peer pid p1 c)))))))"

definition sendReliable :: "command \<Rightarrow> connection \<Rightarrow> connection res" where
  "sendReliable cmd c =
     rbind (getPeerNoEx (cmd_peer_id cmd) c) (\<lambda>peer. case peer of
         None \<Rightarrow> Inr c
       | Some p \<Rightarrow>
           rbind (PutReliableSendCommand (cn_protocol_id c) (cn_peer_id c) cmd (cn_max_packet_size c) p)
             (\<lambda>p1. Inr (put_peer (cmd_peer_id cmd) p1 c)))"

definition sendToAll :: "u8 \<Rightarrow> u8 list \<Rightarrow> connection \<Rightarrow> connection res" where
  "sendToAll channelnum data c = for_each (\<lambda>pid. st_send pid channelnum data) (getPeerIDs c) c"

definition sendToAllReliable :: "command \<Rightarrow> connection \<Rightarrow> connection res" where
  "sendToAllReliable cmd c =
     for_each (\<lambda>pid c. rbind (getPeerNoEx pid c) (\<lambda>peer. case peer of
           None \<Rightarrow> Inr c
         | Some p \<Rightarrow>
             rbind (PutReliableSendCommand (cn_protocol_id c) (cn_peer_id c) cmd (cn_max_packet_size c) p)
               (\<lambda>p1. Inr (put_peer pid p1 c)))) (getPeerIDs c) c"

definition st_serve :: "bool \<Rightarrow> connection \<Rightarrow> connection res" where
  "st_serve bind_ok c =
     (if bind_ok then Inr (SetPeerID PEER_ID_SERVER c) else putEvent ev_bindFailed c)"

definition st_connect :: "bool \<Rightarrow> address \<Rightarrow> connection \<Rightarrow> connection res" where
  "st_connect bind_ok a c =
     rbind (createServerPeer a c) (\<lambda>(p, c1).
     rbind (putEvent (ev_peerAdded (peer_id p) (peer_address p)) c1) (\<lambda>c2.
       if bind_ok then Send PEER_ID_SERVER 0 0 [] True (SetPeerID PEER_ID_INEXISTENT c2)
       else Inl BaseException))"

definition st_disconnect :: "connection \<Rightarrow> connection" where
  "st_disconnect c =
     fold (\<lambda>pid. sendAsPacket pid 0 [PACKET_TYPE_CONTROL, CONTROLTYPE_DISCO] False) (getPeerIDs c) c"

definition st_disconnect_peer :: "session_t \<Rightarrow> connection \<Rightarrow> connection res" where
  "st_disconnect_peer pid c =
     (let c1 = sendAsPacket pid 0 [PACKET_TYPE_CONTROL, CONTROLTYPE_DISCO] False c
      in rbind (getPeerNoEx pid c1) (\<lambda>peer. case peer of
             None \<Rightarrow> Inr c1
           | Some p \<Rightarrow> Inr (put_peer pid (p\<lparr>pending_disconnect := True\<rparr>) c1)))"

definition fix_channel :: "session_t \<Rightarrow> nat \<Rightarrow> udp_peer \<Rightarrow> udp_peer res" where
  "fix_channel own_peer_id i p =
     rbind (get_channel i p) (\<lambda>ch.
     rbind (rpb_fixPeerId own_peer_id (outgoing_reliables_sent ch)) (\<lambda>b.
       Inr (put_channel i (ch\<lparr>outgoing_reliables_sent := b\<rparr>) p)))"

definition fix_peer_id :: "session_t \<Rightarrow> connection \<Rightarrow> connection res" where
  "fix_peer_id own_peer_id c =
     for_each (\<lambda>pid c. rbind (getPeerNoEx pid c) (\<lambda>peer. case peer of
           None \<Rightarrow> Inr c
         | Some p \<Rightarrow>
             rbind (for_each (fix_channel own_peer_id) [0..<CHANNEL_COUNT] p) (\<lambda>p1.
               Inr (put_peer pid p1 c)))) (getPeerIDs c) c"

text \<open>The limit of resends during the initial phase is \<open>INIT_PHASE_MIN_TIMEOUT + 1\<close>.\<close>

definition st_resend_one :: "session_t \<Rightarrow> u8 \<Rightarrow> connection \<Rightarrow> connection res" where
  "st_resend_one pid channelnum c =
     rbind (getPeerNoEx pid c) (\<lambda>peer. case peer of
         None \<Rightarrow> Inr c
       | Some p \<Rightarrow>
           let i = unat channelnum
           in rbind (get_channel i p) (\<lambda>ch.
                case rpb_getResend (\<lambda>_. True) 1 (outgoing_reliables_sent ch) of
                  (timed_outs, b) \<Rightarrow>
                    let ch1 = ch\<lparr>outgoing_reliables_sent := b\<rparr>
                    in case timed_outs of
                         [] \<Rightarrow> Inr (put_peer pid (put_channel i ch1 p) c)
                       | k # _ \<Rightarrow>
                           if pk_resend_count k > 6 then Inr (put_peer pid (put_channel i ch1 p) c)
                           else case resendReliable k ch1 c of
                             (ch2, c1) \<Rightarrow> Inr (put_peer pid (put_channel i ch2 p) c1)))"

definition processReliableCommand :: "command \<Rightarrow> connection \<Rightarrow> connection res" where
  "processReliableCommand cmd c =
     (if \<not> cmd_reliable cmd then Inl AssertFailed
      else case cmd_type cmd of
        CONNCMD_NONE \<Rightarrow> Inr c
      | CONNCMD_SEND \<Rightarrow> sendReliable cmd c
      | CONNCMD_SEND_TO_ALL \<Rightarrow> sendToAllReliable cmd c
      | CONCMD_CREATE_PEER \<Rightarrow>
          rbind (rawSendAsPacket (cmd_peer_id cmd) (cmd_channelnum cmd) (cmd_data cmd) (cmd_reliable cmd) c)
            (\<lambda>(sent, c1). if sent then Inr c1 else sendReliable cmd c1)
      | CONNCMD_RESEND_ONE \<Rightarrow> st_resend_one (cmd_peer_id cmd) (cmd_channelnum cmd) c
      | CONNCMD_SERVE \<Rightarrow> Inl AssertFailed
      | CONNCMD_CONNECT \<Rightarrow> Inl AssertFailed
      | CONNCMD_DISCONNECT \<Rightarrow> Inl AssertFailed
      | CONCMD_ACK \<Rightarrow> Inl AssertFailed
      | CONNCMD_DISCONNECT_PEER \<Rightarrow> Inr c
      | CONNCMD_PEER_ID_SET \<Rightarrow> Inr c)"

definition processNonReliableCommand :: "bool \<Rightarrow> command \<Rightarrow> connection \<Rightarrow> connection res" where
  "processNonReliableCommand bind_ok cmd c =
     (if cmd_reliable cmd then Inl AssertFailed
      else case cmd_type cmd of
        CONNCMD_NONE \<Rightarrow> Inr c
      | CONNCMD_SERVE \<Rightarrow> st_serve bind_ok c
      | CONNCMD_CONNECT \<Rightarrow> st_connect bind_ok (cmd_address cmd) c
      | CONNCMD_DISCONNECT \<Rightarrow> Inr (st_disconnect c)
      | CONNCMD_DISCONNECT_PEER \<Rightarrow> st_disconnect_peer (cmd_peer_id cmd) c
      | CONNCMD_PEER_ID_SET \<Rightarrow> fix_peer_id (cmd_peer_id cmd) c
      | CONNCMD_SEND \<Rightarrow> st_send (cmd_peer_id cmd) (cmd_channelnum cmd) (cmd_data cmd) c
      | CONNCMD_SEND_TO_ALL \<Rightarrow> sendToAll (cmd_channelnum cmd) (cmd_data cmd) c
      | CONCMD_ACK \<Rightarrow> Inr (sendAsPacket (cmd_peer_id cmd) (cmd_channelnum cmd) (cmd_data cmd) True c)
      | CONCMD_CREATE_PEER \<Rightarrow>
          rbind (rawSendAsPacket (cmd_peer_id cmd) (cmd_channelnum cmd) (cmd_data cmd) (cmd_reliable cmd) c)
            (\<lambda>(sent, c1). if sent then Inr c1
              else st_send (cmd_peer_id cmd) (cmd_channelnum cmd) (cmd_data cmd) c1)
      | CONNCMD_RESEND_ONE \<Rightarrow> Inr c)"

text \<open>
  The loop of \<open>run\<close> over the command queue, one command at a time. Commands put by the
  processing of a command are processed after those that are there.
\<close>

definition process_next_command :: "bool \<Rightarrow> connection \<Rightarrow> connection res" where
  "process_next_command bind_ok c =
     (case cn_commands c of
        [] \<Rightarrow> Inr c
      | cmd # cmds \<Rightarrow>
          let c1 = c\<lparr>cn_commands := cmds\<rparr>
          in if cmd_type cmd = CONNCMD_NONE then Inr c1
             else if cmd_reliable cmd then processReliableCommand cmd c1
             else processNonReliableCommand bind_ok cmd c1)"

subsection \<open>The send thread: queues and timeouts\<close>

fun send_queued :: "packet list \<Rightarrow> channel \<Rightarrow> u32 \<Rightarrow> connection \<Rightarrow> (channel \<times> u32 \<times> connection) res" where
  "send_queued [] ch remaining c = Inr (ch\<lparr>queued_reliables := []\<rparr>, remaining, c)"
| "send_queued (p # ps) ch remaining c =
     (if rpb_size (outgoing_reliables_sent ch) < unat (window_size ch) \<and> remaining > 0 then
        rbind (sendAsPacketReliable p ch c) (\<lambda>(ch1, c1). send_queued ps ch1 (remaining - 1) c1)
      else Inr (ch\<lparr>queued_reliables := p # ps\<rparr>, remaining, c))"

definition send_channel :: "session_t \<Rightarrow> nat \<Rightarrow> connection \<Rightarrow> connection res" where
  "send_channel pid i c =
     rbind (getPeerNoEx pid c) (\<lambda>peer. case peer of
         None \<Rightarrow> Inr c
       | Some p \<Rightarrow>
           rbind (get_channel i p) (\<lambda>ch.
           rbind (send_queued (queued_reliables ch) ch (increment_packets_remaining p) c) (\<lambda>(ch1, remaining, c1).
             Inr (put_peer pid (put_channel i ch1 (p\<lparr>increment_packets_remaining := remaining\<rparr>)) c1))))"

text \<open>The peer, and whether it is to be deleted when its queues are empty.\<close>

definition send_peer :: "u32 \<Rightarrow> session_t \<Rightarrow> session_t list \<times> connection \<Rightarrow> (session_t list \<times> connection) res" where
  "send_peer quota pid = (\<lambda>(pending, c).
     rbind (getPeerNoEx pid c) (\<lambda>peer. case peer of
         None \<Rightarrow> Inr (pending, c)
       | Some p \<Rightarrow>
           rbind (for_each (send_channel pid) [0..<CHANNEL_COUNT]
                    (put_peer pid (p\<lparr>increment_packets_remaining := quota\<rparr>) c)) (\<lambda>c1.
             Inr (if pending_disconnect p then pending @ [pid] else pending, c1))))"

text \<open>
  The queue of unreliable packets: those not sent for lack of quota go back into it; the result
  also has the peers for which that happened.
\<close>

definition send_outgoing ::
  "bool \<Rightarrow> outgoing_packet \<Rightarrow> session_t set \<times> connection \<Rightarrow> (session_t set \<times> connection) res" where
  "send_outgoing stop_requested pk = (\<lambda>(pending_unreliable, c).
     if op_reliable pk then Inr (pending_unreliable, c)
     else rbind (getPeerNoEx (op_peer_id pk) c) (\<lambda>peer. case peer of
         None \<Rightarrow> Inr (pending_unreliable, c)
       | Some p \<Rightarrow>
           if op_ack pk \<or> increment_packets_remaining p > 0 \<or> stop_requested then
             rbind (rawSendAsPacket (op_peer_id pk) (op_channelnum pk) (op_data pk) (op_reliable pk) c) (\<lambda>(_, c1).
               Inr (pending_unreliable,
                 if increment_packets_remaining p > 0
                 then put_peer (op_peer_id pk)
                        (p\<lparr>increment_packets_remaining := increment_packets_remaining p - 1\<rparr>) c1
                 else c1))
           else
             Inr (insert (op_peer_id pk) pending_unreliable,
               c\<lparr>cn_outgoing_queue := cn_outgoing_queue c @ [pk]\<rparr>)))"

definition sendPackets :: "bool \<Rightarrow> u32 \<Rightarrow> connection \<Rightarrow> connection res" where
  "sendPackets stop_requested peer_packet_quota c =
     rbind (for_each (send_peer peer_packet_quota) (getPeerIDs c) ([], c)) (\<lambda>(pendingDisconnect, c1).
     rbind (for_each (send_outgoing stop_requested) (cn_outgoing_queue c1) ({}, c1\<lparr>cn_outgoing_queue := []\<rparr>))
       (\<lambda>(pending_unreliable, c2).
       for_each (\<lambda>pid c. if pid \<in> pending_unreliable then Inr c
           else rbind (deletePeer pid False c) (\<lambda>(_, c'). Inr c')) pendingDisconnect c2))"

text \<open>
  What the clocks say at one run of \<open>runTimeouts\<close>: the peers that have timed out, the packets
  due for a resend, the expired split packets, the counters of \<open>UpdateTimers\<close> and the peers
  that are due for a ping.
\<close>

record clock =
  ck_timed_out :: "session_t \<Rightarrow> bool"
  ck_due :: "session_t \<Rightarrow> nat \<Rightarrow> packet \<Rightarrow> bool"
  ck_expired :: "session_t \<Rightarrow> nat \<Rightarrow> u16 \<Rightarrow> bool"
  ck_second :: "session_t \<Rightarrow> nat \<Rightarrow> bool"
  ck_ten_seconds :: "session_t \<Rightarrow> nat \<Rightarrow> bool"
  ck_ping :: "session_t \<Rightarrow> bool"

definition use_iteration_packets :: "nat \<Rightarrow> connection \<Rightarrow> connection" where
  "use_iteration_packets n c =
     c\<lparr>cn_iteration_packets :=
       (if unat (cn_iteration_packets c) > n then cn_iteration_packets c - of_nat n else 0)\<rparr>"

definition timeouts_channel :: "clock \<Rightarrow> u32 \<Rightarrow> session_t \<Rightarrow> nat \<Rightarrow> connection \<Rightarrow> connection res" where
  "timeouts_channel ck peer_packet_quota pid i c =
     rbind (getPeerNoEx pid c) (\<lambda>peer. case peer of
         None \<Rightarrow> Inr c
       | Some p \<Rightarrow>
           rbind (get_channel i p) (\<lambda>ch.
             case rpb_getResend (ck_due ck pid i) peer_packet_quota (outgoing_reliables_sent ch) of
               (timed_outs, b) \<Rightarrow>
                 let ch1 = UpdatePacketLossCounter (of_nat (length timed_outs))
                       (ch\<lparr>incoming_splits := isb_removeUnreliableTimedOuts (ck_expired ck pid i) (incoming_splits ch),
                           outgoing_reliables_sent := b\<rparr>)
                 in if half_open p then Inr (put_peer pid (put_channel i ch1 p) c)
                    else case fold (\<lambda>k (ch, c). resendReliable k ch c) timed_outs
                           (ch1, use_iteration_packets (length timed_outs) c) of
                      (ch2, c1) \<Rightarrow>
                        Inr (put_peer pid
                          (put_channel i (UpdateTimers (ck_second ck pid i) (ck_ten_seconds ck pid i) ch2) p) c1)))"

definition M_MAX_PACKETS_REQUEUED :: u32 where "M_MAX_PACKETS_REQUEUED = 256"

definition timeouts_peer :: "clock \<Rightarrow> u32 \<Rightarrow> session_t \<Rightarrow> session_t list \<times> connection \<Rightarrow> (session_t list \<times> connection) res" where
  "timeouts_peer ck peer_packet_quota pid = (\<lambda>(timeouted_peers, c).
     rbind (getPeerNoEx pid c) (\<lambda>peer. case peer of
         None \<Rightarrow> Inr (timeouted_peers, c)
       | Some p \<Rightarrow>
           if ck_timed_out ck pid then Inr (timeouted_peers @ [peer_id p], c)
           else
             rbind (for_each (timeouts_channel ck peer_packet_quota pid) [0..<CHANNEL_COUNT] c) (\<lambda>c1.
             rbind (if \<not> half_open p \<and> ck_ping ck pid
                    then rbind (rawSendAsPacket pid 0 [PACKET_TYPE_CONTROL, CONTROLTYPE_PING] True c1) (\<lambda>(_, c'). Inr c')
                    else Inr c1) (\<lambda>c2.
             rbind (getPeerNoEx pid c2) (\<lambda>peer2. case peer2 of
                 None \<Rightarrow> Inr (timeouted_peers, c2)
               | Some p2 \<Rightarrow>
                   rbind (RunCommandQueues (cn_protocol_id c2) (cn_peer_id c2) (cn_max_packet_size c2)
                            M_MAX_PACKETS_REQUEUED p2) (\<lambda>p3.
                     Inr (timeouted_peers, put_peer pid p3 c2)))))))"

definition runTimeouts :: "clock \<Rightarrow> u32 \<Rightarrow> connection \<Rightarrow> connection res" where
  "runTimeouts ck peer_packet_quota c =
     rbind (for_each (timeouts_peer ck peer_packet_quota) (getPeerIDs c) ([], c)) (\<lambda>(timeouted_peers, c1).
       for_each (\<lambda>pid c. rbind (deletePeer pid True c) (\<lambda>(_, c'). Inr c')) timeouted_peers c1)"

definition packetsQueued :: "connection \<Rightarrow> bool res" where
  "packetsQueued c =
     (if cn_outgoing_queue c \<noteq> [] \<and> getPeerIDs c \<noteq> [] then Inr True
      else for_each (\<lambda>pid found. rbind (getPeerNoEx pid c) (\<lambda>peer. case peer of
            None \<Rightarrow> Inr found
          | Some p \<Rightarrow> Inr (found \<or> (\<exists>ch \<in> set (peer_channels p). queued_commands ch \<noteq> [])))) (getPeerIDs c) False)"

text \<open>The packets that one peer may send in the rest of this turn of the send thread.\<close>

definition calculate_quota :: "connection \<Rightarrow> u32" where
  "calculate_quota c =
     (let numpeers = getActiveCount c
      in if numpeers > 0 then max 1 (cn_iteration_packets c div numpeers) else cn_iteration_packets c)"

subsection \<open>Well-formed connections\<close>

text \<open>
  The map and the list of peer ids agree, every peer is stored under its id, none is pending
  deletion, and each has its three channels with a send window in range.
\<close>

definition peer_wf :: "session_t \<Rightarrow> udp_peer \<Rightarrow> bool" where
  "peer_wf pid p \<longleftrightarrow>
     peer_id p = pid \<and> \<not> pending_deletion p \<and> length (peer_channels p) = CHANNEL_COUNT \<and>
     list_all window_ok (peer_channels p)"

definition conn_wf :: "connection \<Rightarrow> bool" where
  "conn_wf c \<longleftrightarrow>
     distinct (map fst (cn_peers c)) \<and> distinct (cn_peer_ids c) \<and>
     set (cn_peer_ids c) = fst ` set (cn_peers c) \<and> list_all (\<lambda>(pid, p). peer_wf pid p) (cn_peers c)"

lemma conn_wf_same_peers:
  "cn_peers c' = cn_peers c \<Longrightarrow> cn_peer_ids c' = cn_peer_ids c \<Longrightarrow> conn_wf c' = conn_wf c"
  by (simp add: conn_wf_def)

lemma conn_wf_peer: "conn_wf c \<Longrightarrow> map_of (cn_peers c) pid = Some p \<Longrightarrow> peer_wf pid p"
  by (auto simp: conn_wf_def list_all_iff dest: map_of_SomeD)

lemma set_update_subset: "set (AList.update k v al) \<subseteq> insert (k, v) (set al)"
  by (induction al) auto

lemma conn_wf_put_peer:
  assumes "conn_wf c" and "map_of (cn_peers c) pid \<noteq> None" and "peer_wf pid p"
  shows "conn_wf (put_peer pid p c)"
proof -
  have "pid \<in> fst ` set (cn_peers c)"
    using assms(2) by (force dest: map_of_SomeD)
  moreover have "\<forall>(q, x) \<in> set (AList.update pid p (cn_peers c)). peer_wf q x"
    using assms(1,3) set_update_subset [of pid p "cn_peers c"]
    by (fastforce simp: conn_wf_def list_all_iff)
  ultimately show ?thesis
    using assms(1) by (simp add: conn_wf_def put_peer_def distinct_update dom_update list_all_iff insert_absorb)
qed

lemma getPeerNoEx_wf: "conn_wf c \<Longrightarrow> getPeerNoEx pid c = Inr (map_of (cn_peers c) pid)"
  using conn_wf_peer [of c pid]
  by (auto simp: getPeerNoEx_def peer_wf_def split: option.split)

lemma peer_wf_put_channel: "peer_wf pid p \<Longrightarrow> window_ok ch \<Longrightarrow> peer_wf pid (put_channel i ch p)"
  by (auto simp: peer_wf_def put_channel_def list_all_iff dest!: subsetD [OF set_update_subset_insert])

lemma peer_wf_new: "peer_wf pid (UDPPeer_new pid a)"
  by (simp add: peer_wf_def UDPPeer_new_def list_all_iff)

lemma peer_wf_channel: "peer_wf pid p \<Longrightarrow> get_channel i p = Inr ch \<Longrightarrow> window_ok ch"
  by (auto simp: peer_wf_def get_channel_def list_all_iff split: if_splits)

end
