(* ===== verification/MtpReceive.thy ===== *)
theory MtpReceive
  imports MtpConnection
begin

text \<open>
  The receive thread of \<^verbatim>\<open>src/network/mtp/threads.cpp\<close>. A packet handler returns data for the
  user or throws; in both cases the changes it has made to the connection stay, so that its
  result is the outcome together with the connection. A channel is referred to by the peer it
  belongs to and its number, as the \<open>Channel *\<close> of the code does.
\<close>

subsection \<open>Access to a channel\<close>

type_synonym channel_ref = "session_t \<times> nat"

definition get_ch :: "channel_ref \<Rightarrow> connection \<Rightarrow> channel res" where
  "get_ch r c =
     (case map_of (cn_peers c) (fst r) of
        None \<Rightarrow> Inl NullDereference
      | Some p \<Rightarrow> get_channel (snd r) p)"

definition put_ch :: "channel_ref \<Rightarrow> channel \<Rightarrow> connection \<Rightarrow> connection" where
  "put_ch r ch c =
     (case map_of (cn_peers c) (fst r) of
        None \<Rightarrow> c
      | Some p \<Rightarrow> put_peer (fst r) (put_channel (snd r) ch p) c)"

type_synonym handled = "u8 list res \<times> connection"

subsection \<open>The packet types\<close>

definition handle_ack :: "channel_ref \<Rightarrow> u8 list \<Rightarrow> connection \<Rightarrow> handled" where
  "handle_ack r packetdata c =
     (if length packetdata < 4 then (Inl InvalidIncomingDataException, c)
      else case rbind (fetch 2 2 readU16 packetdata) (\<lambda>seqnum. rbind (get_ch r c) (\<lambda>ch. Inr (seqnum, ch))) of
        Inl e \<Rightarrow> (Inl e, c)
      | Inr (seqnum, ch) \<Rightarrow>
          (case rpb_popSeqnum seqnum (outgoing_reliables_sent ch) of
             Inr (p, b) \<Rightarrow>
               (Inl ProcessedSilentlyException,
                put_ch r (UpdateBytesSent (of_nat (length (pk_data p))) 1 (ch\<lparr>outgoing_reliables_sent := b\<rparr>)) c)
           | Inl NotFoundException \<Rightarrow>
               (Inl ProcessedSilentlyException, put_ch r (UpdatePacketTooLateCounter ch) c)
           | Inl e \<Rightarrow> (Inl e, c)))"

definition handle_set_peer_id :: "u8 list \<Rightarrow> connection \<Rightarrow> handled" where
  "handle_set_peer_id packetdata c =
     (if length packetdata < 4 then (Inl InvalidIncomingDataException, c)
      else case fetch 2 2 readU16 packetdata of
        Inl e \<Rightarrow> (Inl e, c)
      | Inr peer_id_new \<Rightarrow>
          (Inl ProcessedSilentlyException,
           if cn_peer_id c \<noteq> PEER_ID_INEXISTENT then c else SetPeerID peer_id_new c))"

definition handle_disco :: "udp_peer \<Rightarrow> connection \<Rightarrow> handled" where
  "handle_disco peer c =
     (case deletePeer (peer_id peer) False c of
        Inl e \<Rightarrow> (Inl e, c)
      | Inr (_, c1) \<Rightarrow> (Inl ProcessedSilentlyException, c1))"

definition handlePacketType_Control ::
  "channel_ref \<Rightarrow> u8 list \<Rightarrow> udp_peer \<Rightarrow> u8 \<Rightarrow> bool \<Rightarrow> connection \<Rightarrow> handled" where
  "handlePacketType_Control r packetdata peer channelnum reliable c =
     (if length packetdata < 2 then (Inl InvalidIncomingDataException, c)
      else case fetch 1 1 hd packetdata of
        Inl e \<Rightarrow> (Inl e, c)
      | Inr controltype \<Rightarrow>
           if controltype = CONTROLTYPE_ACK then handle_ack r packetdata c
           else if controltype = CONTROLTYPE_SET_PEER_ID then handle_set_peer_id packetdata c
           else if controltype = CONTROLTYPE_PING then (Inl ProcessedSilentlyException, c)
           else if controltype = CONTROLTYPE_DISCO then handle_disco peer c
           else (Inl InvalidIncomingDataException, c))"

definition handlePacketType_Original ::
  "channel_ref \<Rightarrow> u8 list \<Rightarrow> udp_peer \<Rightarrow> u8 \<Rightarrow> bool \<Rightarrow> connection \<Rightarrow> handled" where
  "handlePacketType_Original r packetdata peer channelnum reliable c =
     (if length packetdata \<le> ORIGINAL_HEADER_SIZE then (Inl InvalidIncomingDataException, c)
      else (fetch_rest ORIGINAL_HEADER_SIZE packetdata, c))"

definition handlePacketType_Split ::
  "channel_ref \<Rightarrow> u8 list \<Rightarrow> udp_peer \<Rightarrow> u8 \<Rightarrow> bool \<Rightarrow> connection \<Rightarrow> handled" where
  "handlePacketType_Split r packetdata peer channelnum reliable c =
     (let packet = makePacket (peer_address peer) packetdata (cn_protocol_id c) (peer_id peer) channelnum
      in case map_of (cn_peers c) (peer_id peer) of
           None \<Rightarrow> (Inl NullDereference, c)
         | Some p \<Rightarrow>
             (case addSplitPacket channelnum packet reliable p of
                Inl e \<Rightarrow> (Inl e, c)
              | Inr (data, p1) \<Rightarrow>
                  (if data \<noteq> [] then Inr data else Inl ProcessedSilentlyException,
                   put_peer (peer_id peer) p1 c)))"

text \<open>
  \<open>processPacket\<close> with the handler of reliable packets as a parameter: within a reliable packet
  (\<open>reliable\<close> true) that handler only throws.
\<close>

type_synonym handler = "channel_ref \<Rightarrow> u8 list \<Rightarrow> udp_peer \<Rightarrow> u8 \<Rightarrow> bool \<Rightarrow> connection \<Rightarrow> handled"

definition process_with ::
  "handler \<Rightarrow> channel_ref \<Rightarrow> u8 list \<Rightarrow> session_t \<Rightarrow> u8 \<Rightarrow> bool \<Rightarrow> connection \<Rightarrow> handled" where
  "process_with handle_reliable r packetdata pid channelnum reliable c =
     (case getPeerNoEx pid c of
        Inl e \<Rightarrow> (Inl e, c)
      | Inr None \<Rightarrow> (Inl ProcessedSilentlyException, c)
      | Inr (Some peer) \<Rightarrow>
          if length packetdata < 1 then (Inl InvalidIncomingDataException, c)
          else case fetch 0 1 hd packetdata of
            Inl e \<Rightarrow> (Inl e, c)
          | Inr type \<Rightarrow>
               if pid \<ge> MAX_UDP_PEERS then (Inl InvalidIncomingDataException, c)
               else if type \<ge> PACKET_TYPE_MAX then (Inl InvalidIncomingDataException, c)
               else if type = PACKET_TYPE_CONTROL
                 then handlePacketType_Control r packetdata peer channelnum reliable c
               else if type = PACKET_TYPE_ORIGINAL
                 then handlePacketType_Original r packetdata peer channelnum reliable c
               else if type = PACKET_TYPE_SPLIT
                 then handlePacketType_Split r packetdata peer channelnum reliable c
               else handle_reliable r packetdata peer channelnum reliable c)"

definition nested_reliable :: handler where
  "nested_reliable r packetdata peer channelnum reliable c = (Inl InvalidIncomingDataException, c)"

definition processPacket_nested :: "channel_ref \<Rightarrow> u8 list \<Rightarrow> session_t \<Rightarrow> u8 \<Rightarrow> connection \<Rightarrow> handled" where
  "processPacket_nested r packetdata pid channelnum c =
     process_with nested_reliable r packetdata pid channelnum True c"

text \<open>The last part of the handler of reliable packets: this packet is the next one.\<close>

definition process_next_reliable ::
  "channel_ref \<Rightarrow> u8 list \<Rightarrow> udp_peer \<Rightarrow> u8 \<Rightarrow> u16 \<Rightarrow> connection \<Rightarrow> handled" where
  "process_next_reliable r packetdata peer channelnum seqnum c =
     (case get_ch r c of
        Inl e \<Rightarrow> (Inl e, c)
      | Inr ch \<Rightarrow>
          (case (if rpb_getFirstSeqnum (incoming_reliables ch) = Some seqnum
                 then rbind (rpb_popFirst (incoming_reliables ch)) (\<lambda>(_, b). Inr b)
                 else Inr (incoming_reliables ch)) of
             Inl e \<Rightarrow> (Inl e, c)
           | Inr b \<Rightarrow>
               let ch1 = snd (incNextIncomingSeqNum (ch\<lparr>incoming_reliables := b\<rparr>))
               in case fetch_rest RELIABLE_HEADER_SIZE packetdata of
                    Inl e \<Rightarrow> (Inl e, put_ch r ch1 c)
                  | Inr payload \<Rightarrow>
                      processPacket_nested r payload (peer_id peer) channelnum (put_ch r ch1 c)))"

definition handlePacketType_Reliable :: handler where
  "handlePacketType_Reliable r packetdata peer channelnum reliable c =
     (if reliable then (Inl InvalidIncomingDataException, c)
      else if length packetdata < RELIABLE_HEADER_SIZE then (Inl InvalidIncomingDataException, c)
      else case rbind (fetch 1 2 readU16 packetdata) (\<lambda>seqnum. rbind (get_ch r c) (\<lambda>ch. Inr (seqnum, ch))) of
        Inl e \<Rightarrow> (Inl e, c)
      | Inr (seqnum, ch) \<Rightarrow>
          let next = readNextIncomingSeqNum ch
          in if \<not> seqnum_in_window seqnum next MAX_RELIABLE_WINDOW_SIZE then
               if seqnum_higher seqnum next then (Inl ProcessedSilentlyException, c)
               else if seqnum_higher next seqnum then
                 (case sendAck (peer_id peer) channelnum seqnum c of
                    Inl e \<Rightarrow> (Inl e, c)
                  | Inr c1 \<Rightarrow> (Inl ProcessedSilentlyException, c1))
               else process_next_reliable r packetdata peer channelnum seqnum c
             else
               case sendAck (peer_id peer) channelnum seqnum c of
                 Inl e \<Rightarrow> (Inl e, c)
               | Inr c1 \<Rightarrow>
                   if seqnum \<noteq> next then
                     let packet = makePacket (peer_address peer) packetdata (cn_protocol_id c1) (peer_id peer) channelnum
                     in case rpb_insert packet next (incoming_reliables ch) of
                          Inr b \<Rightarrow> (Inl ProcessedQueued, put_ch r (ch\<lparr>incoming_reliables := b\<rparr>) c1)
                        | Inl IncomingDataCorruption \<Rightarrow>
                            process_next_reliable r packetdata peer channelnum seqnum
                              (putCommand (cmd_disconnect_peer (peer_id peer)) c1)
                        | Inl e \<Rightarrow> (Inl e, c1)
                   else process_next_reliable r packetdata peer channelnum seqnum c1)"

definition processPacket :: "channel_ref \<Rightarrow> u8 list \<Rightarrow> session_t \<Rightarrow> u8 \<Rightarrow> bool \<Rightarrow> connection \<Rightarrow> handled" where
  "processPacket r packetdata pid channelnum reliable c =
     (if reliable then processPacket_nested r packetdata pid channelnum c
      else process_with handlePacketType_Reliable r packetdata pid channelnum False c)"

subsection \<open>Buffered packets\<close>

text \<open>The result is \<open>None\<close> when the next packet is not there, else its sender and its data.\<close>

definition checkIncomingBuffers ::
  "channel_ref \<Rightarrow> connection \<Rightarrow> (session_t \<times> u8 list) option res \<times> connection" where
  "checkIncomingBuffers r c =
     (case get_ch r c of
        Inl e \<Rightarrow> (Inl e, c)
      | Inr ch \<Rightarrow>
          if rpb_getFirstSeqnum (incoming_reliables ch) \<noteq> Some (readNextIncomingSeqNum ch) then (Inr None, c)
          else case rpb_popFirst (incoming_reliables ch) of
            Inl e \<Rightarrow> (Inl e, c)
          | Inr (p, b) \<Rightarrow>
              let ch1 = snd (incNextIncomingSeqNum (ch\<lparr>incoming_reliables := b\<rparr>));
                  c1 = put_ch r ch1 c
              in case rbind (fetch 0 BASE_HEADER_SIZE readPeerId (pk_data p)) (\<lambda>pid.
                      rbind (fetch 0 BASE_HEADER_SIZE readChannel (pk_data p)) (\<lambda>channelnum.
                      rbind (fetch_rest (BASE_HEADER_SIZE + RELIABLE_HEADER_SIZE) (pk_data p)) (\<lambda>payload.
                        Inr (pid, channelnum, payload)))) of
                   Inl e \<Rightarrow> (Inl e, c1)
                 | Inr (pid, channelnum, payload) \<Rightarrow>
                     (case processPacket r payload pid channelnum True c1 of
                        (Inl e, c2) \<Rightarrow> (Inl e, c2)
                      | (Inr dst, c2) \<Rightarrow> (Inr (Some (pid, dst)), c2)))"

fun check_channels ::
  "channel_ref list \<Rightarrow> connection \<Rightarrow> (session_t \<times> u8 list) option res \<times> connection" where
  "check_channels [] c = (Inr None, c)"
| "check_channels (r # rs) c =
     (case checkIncomingBuffers r c of
        (Inr None, c1) \<Rightarrow> check_channels rs c1
      | result \<Rightarrow> result)"

text \<open>The channels of the peers that are there, in the order of the peer ids.\<close>

fun live_channels :: "session_t list \<Rightarrow> connection \<Rightarrow> channel_ref list res" where
  "live_channels [] c = Inr []"
| "live_channels (pid # pids) c =
     rbind (getPeerNoEx pid c) (\<lambda>peer.
     rbind (live_channels pids c) (\<lambda>rs.
       Inr (case peer of None \<Rightarrow> rs | Some p \<Rightarrow> map (Pair pid) [0..<length (peer_channels p)] @ rs)))"

definition getFromBuffers :: "connection \<Rightarrow> (session_t \<times> u8 list) option res \<times> connection" where
  "getFromBuffers c =
     (case live_channels (getPeerIDs c) c of
        Inl e \<Rightarrow> (Inl e, c)
      | Inr rs \<Rightarrow> check_channels rs c)"

subsection \<open>Reading from the buffers ends\<close>

text \<open>The number of reliable packets that wait in all channels; every packet read is one less.\<close>

definition buffered :: "udp_peer \<Rightarrow> nat" where
  "buffered p = sum_list (map (\<lambda>ch. length (rp_list (incoming_reliables ch))) (peer_channels p))"

definition total_buffered :: "connection \<Rightarrow> nat" where
  "total_buffered c = sum_list (map (\<lambda>(pid, p). buffered p) (cn_peers c))"

lemma sum_list_alist_delete:
  "sum_list (map (\<lambda>(k, v). f v) (AList.delete k al)) \<le> (sum_list (map (\<lambda>(k, v). f v) al) :: nat)"
proof (induction al)
  case (Cons a al)
  then show ?case by (cases a) (simp add: delete_simps)
qed simp

lemma total_put_peer:
  "map_of (cn_peers c) pid = Some p \<Longrightarrow>
    total_buffered (put_peer pid p' c) + buffered p = total_buffered c + buffered p'"
  by (simp add: total_buffered_def put_peer_def sum_list_alist_update)

lemma get_channel_ok: "get_channel i p = Inr ch \<longleftrightarrow> i < length (peer_channels p) \<and> ch = peer_channels p ! i"
  by (auto simp: get_channel_def)

lemma buffered_put_channel:
  "get_channel i p = Inr ch \<Longrightarrow>
    buffered (put_channel i ch' p) + length (rp_list (incoming_reliables ch)) =
    buffered p + length (rp_list (incoming_reliables ch'))"
proof -
  assume "get_channel i p = Inr ch"
  then have i: "i < length (peer_channels p)" "ch = peer_channels p ! i"
    by (simp_all add: get_channel_ok)
  let ?f = "\<lambda>ch. length (rp_list (incoming_reliables ch))"
  have "sum_list (map ?f ((peer_channels p)[i := ch'])) + ?f (peer_channels p ! i) =
      sum_list (map ?f (peer_channels p)) + ?f ch'"
    using i(1) member_le_sum_list [of "?f (peer_channels p ! i)" "map ?f (peer_channels p)"]
    by (simp add: map_update sum_list_update)
  then show ?thesis
    by (simp add: buffered_def put_channel_def i(2))
qed

lemma total_put_ch:
  assumes "get_ch r c = Inr ch"
  shows "total_buffered (put_ch r ch' c) + length (rp_list (incoming_reliables ch)) =
    total_buffered c + length (rp_list (incoming_reliables ch'))"
proof -
  obtain p where p: "map_of (cn_peers c) (fst r) = Some p" "get_channel (snd r) p = Inr ch"
    using assms by (auto simp: get_ch_def split: option.splits)
  show ?thesis
    using total_put_peer [OF p(1), of "put_channel (snd r) ch' p"] buffered_put_channel [OF p(2), of ch'] p(1)
    by (simp add: put_ch_def)
qed

lemma total_same:
  "cn_peers c' = cn_peers c \<Longrightarrow> total_buffered c' = total_buffered c"
  by (simp add: total_buffered_def)

lemma cn_peers_putCommand [simp]: "cn_peers (putCommand cmd c) = cn_peers c"
  by (simp add: putCommand_def)

lemma putEvent_Inr: "putEvent e c = Inr c' \<longleftrightarrow> ev_type e \<noteq> CONNEVENT_NONE \<and> c' = c\<lparr>cn_events := cn_events c @ [e]\<rparr>"
  by (auto simp: putEvent_def)

lemma total_deletePeer: "deletePeer pid t c = Inr (b, c1) \<Longrightarrow> total_buffered c1 \<le> total_buffered c"
  by (auto simp: deletePeer_def putEvent_Inr total_buffered_def sum_list_alist_delete
      split: option.splits if_splits)

lemma total_put_ch_same:
  "get_ch r c = Inr ch \<Longrightarrow> incoming_reliables ch' = incoming_reliables ch \<Longrightarrow>
    total_buffered (put_ch r ch' c) = total_buffered c"
  using total_put_ch [of r c ch ch'] by simp

lemma total_ack: "total_buffered (snd (handle_ack r d c)) = total_buffered c"
  by (auto simp: handle_ack_def UpdateBytesSent_def UpdatePacketTooLateCounter_def
      intro: total_put_ch_same split: sum.splits error.splits)

lemma total_set_peer_id: "total_buffered (snd (handle_set_peer_id d c)) = total_buffered c"
  by (auto simp: handle_set_peer_id_def SetPeerID_def Let_def intro!: total_same)

lemma total_disco: "total_buffered (snd (handle_disco peer c)) \<le> total_buffered c"
  by (auto simp: handle_disco_def intro: total_deletePeer split: sum.splits)

lemma total_control:
  "total_buffered (snd (handlePacketType_Control r d peer n rel c)) \<le> total_buffered c"
  by (simp add: handlePacketType_Control_def Let_def total_ack total_set_peer_id total_disco)

lemma buffered_put_channel_same:
  "get_channel i p = Inr ch \<Longrightarrow> incoming_reliables ch' = incoming_reliables ch \<Longrightarrow>
    buffered (put_channel i ch' p) = buffered p"
  using buffered_put_channel [of i p ch ch'] by simp

lemma addSplitPacket_buffered:
  "addSplitPacket n pk rel p = Inr (d, p1) \<Longrightarrow> buffered p1 = buffered p"
  by (auto simp: addSplitPacket_def intro: buffered_put_channel_same split: if_splits)

lemma total_put_peer_same:
  "map_of (cn_peers c) pid = Some p \<Longrightarrow> buffered p' = buffered p \<Longrightarrow>
    total_buffered (put_peer pid p' c) = total_buffered c"
  using total_put_peer [of c pid p p'] by simp

lemma total_split:
  "total_buffered (snd (handlePacketType_Split r d peer n rel c)) \<le> total_buffered c"
  by (auto simp: handlePacketType_Split_def Let_def total_put_peer_same
      dest!: addSplitPacket_buffered split: option.splits sum.splits prod.splits)

lemma total_nested: "total_buffered (snd (processPacket_nested r d pid n c)) \<le> total_buffered c"
  using total_control [of r d _ n True c] total_split [of r d _ n True c]
  by (auto simp: processPacket_nested_def process_with_def Let_def handlePacketType_Original_def
      nested_reliable_def split: sum.splits option.splits)

lemma checkIncoming_None: "checkIncomingBuffers r c = (Inr None, c1) \<Longrightarrow> c1 = c"
  by (auto simp: checkIncomingBuffers_def Let_def split: sum.splits prod.splits if_splits)

lemma rpb_popFirst_length: "rpb_popFirst b = Inr (p, b') \<Longrightarrow> length (rp_list b) = Suc (length (rp_list b'))"
  by (auto simp: rpb_popFirst_def split: list.splits)

lemma checkIncoming_total_le:
  assumes ch: "get_ch r c = Inr ch"
    and first: "rpb_getFirstSeqnum (incoming_reliables ch) = Some (readNextIncomingSeqNum ch)"
    and pop: "rpb_popFirst (incoming_reliables ch) = Inr (p, b)"
  shows "total_buffered (snd (checkIncomingBuffers r c)) \<le>
    total_buffered (put_ch r (snd (incNextIncomingSeqNum (ch\<lparr>incoming_reliables := b\<rparr>))) c)" (is "_ \<le> total_buffered ?c1")
proof (cases "rbind (fetch 0 BASE_HEADER_SIZE readPeerId (pk_data p)) (\<lambda>pid.
      rbind (fetch 0 BASE_HEADER_SIZE readChannel (pk_data p)) (\<lambda>channelnum.
      rbind (fetch_rest (BASE_HEADER_SIZE + RELIABLE_HEADER_SIZE) (pk_data p)) (\<lambda>payload.
        Inr (pid, channelnum, payload))))")
  case (Inl e)
  with ch pop first show ?thesis by (simp add: checkIncomingBuffers_def Let_def)
next
  case (Inr x)
  obtain pid n d where x: "x = (pid, n, d)" by (cases x)
  have "snd (checkIncomingBuffers r c) = snd (processPacket_nested r d pid n ?c1)"
    using ch pop first Inr x
    by (auto simp: checkIncomingBuffers_def Let_def processPacket_def split: prod.splits sum.splits)
  then show ?thesis using total_nested by simp
qed

lemma checkIncoming_total:
  assumes "checkIncomingBuffers r c = (res, c1)"
    and "res = Inl ProcessedSilentlyException \<or> res = Inr (Some x)"
  shows "total_buffered c1 < total_buffered c"
proof -
  have no_err: "get_ch r c \<noteq> Inl ProcessedSilentlyException"
    by (auto simp: get_ch_def get_channel_def split: option.splits)
  obtain ch where ch: "get_ch r c = Inr ch"
    using assms no_err by (auto simp: checkIncomingBuffers_def split: sum.splits)
  obtain p b where pop: "rpb_popFirst (incoming_reliables ch) = Inr (p, b)"
    and first: "rpb_getFirstSeqnum (incoming_reliables ch) = Some (readNextIncomingSeqNum ch)"
    using assms ch
    by (auto simp: checkIncomingBuffers_def rpb_popFirst_def split: if_splits sum.splits list.splits)
  let ?ch1 = "snd (incNextIncomingSeqNum (ch\<lparr>incoming_reliables := b\<rparr>))"
  have "total_buffered c1 \<le> total_buffered (put_ch r ?ch1 c)"
    using checkIncoming_total_le [OF ch first pop] assms(1) by simp
  moreover have "total_buffered (put_ch r ?ch1 c) < total_buffered c"
    using total_put_ch [OF ch, of ?ch1] rpb_popFirst_length [OF pop]
    by (simp add: incNextIncomingSeqNum_def)
  ultimately show ?thesis by simp
qed

lemma check_channels_total:
  "check_channels rs c = (res, c1) \<Longrightarrow> res = Inl ProcessedSilentlyException \<or> res = Inr (Some x) \<Longrightarrow>
    total_buffered c1 < total_buffered c"
proof (induction rs c rule: check_channels.induct)
  case (2 r rs c)
  obtain res1 c2 where k: "checkIncomingBuffers r c = (res1, c2)" by force
  show ?case
  proof (cases "res1 = Inr None")
    case True
    then have "c2 = c" using k checkIncoming_None by blast
    with 2 k True show ?thesis by simp
  next
    case False
    then have "res1 = res" "c2 = c1"
      using 2(2) k by (auto split: sum.splits option.splits)
    with checkIncoming_total [OF k, of x] 2(3) show ?thesis by simp
  qed
qed auto

lemma live_channels_err: "live_channels pids c \<noteq> Inl ProcessedSilentlyException"
  by (induction pids) (auto simp: getPeerNoEx_def rbind_def split: sum.splits option.splits if_splits)

lemma getFromBuffers_total:
  "getFromBuffers c = (res, c1) \<Longrightarrow> res = Inl ProcessedSilentlyException \<or> res = Inr (Some x) \<Longrightarrow>
    total_buffered c1 < total_buffered c"
  using live_channels_err [of "getPeerIDs c" c]
  by (auto simp: getFromBuffers_def split: sum.splits dest: check_channels_total)

lemma getFromBuffers_decreases:
  "(Inl ProcessedSilentlyException, c1) = getFromBuffers c \<Longrightarrow> total_buffered c1 < total_buffered c"
  "(Inr (Some x), c1) = getFromBuffers c \<Longrightarrow> total_buffered c1 < total_buffered c"
  using getFromBuffers_total [of c _ c1] by metis+

lemma total_buffered_events [simp]: "total_buffered (c\<lparr>cn_events := es\<rparr>) = total_buffered c"
  by (rule total_same) simp

subsection \<open>Receiving\<close>

text \<open>
  The loop at the start of \<open>receive\<close>. Every exception but \<open>ProcessedSilentlyException\<close> leaves
  it.
\<close>

function drain :: "connection \<Rightarrow> unit res \<times> connection" where
  "drain c =
     (case getFromBuffers c of
        (Inr None, c1) \<Rightarrow> (Inr (), c1)
      | (Inr (Some (pid, resultdata)), c1) \<Rightarrow>
          drain (c1\<lparr>cn_events := cn_events c1 @ [ev_dataReceived pid resultdata]\<rparr>)
      | (Inl e, c1) \<Rightarrow> if e = ProcessedSilentlyException then drain c1 else (Inl e, c1))"
  by pat_completeness auto
termination
  by (relation "measure total_buffered") (auto dest: getFromBuffers_decreases)

declare drain.simps [simp del]

definition MAX_NEW_PEERS_PER_SEC :: int where "MAX_NEW_PEERS_PER_SEC = 30"

text \<open>
  Finding or making the peer of a datagram: \<open>new_second\<close> is whether the second has changed
  since the last new peer, \<open>draws\<close> the random numbers for a new peer id.
\<close>

definition identify_peer ::
  "session_t list \<Rightarrow> bool \<Rightarrow> address \<Rightarrow> session_t \<Rightarrow> connection \<Rightarrow> (session_t \<times> connection) res" where
  "identify_peer draws new_second sender pid c =
     rbind (ConnectedToServer c) (\<lambda>connected.
       if connected \<or> pid \<noteq> PEER_ID_INEXISTENT then Inr (pid, c)
       else
         let pid1 = lookupPeer sender c
         in if pid1 \<noteq> PEER_ID_INEXISTENT then rbind (doResendOne pid1 c) (\<lambda>c1. Inr (pid1, c1))
            else
              let counter = (if new_second then 0 else cn_new_peers c) + 1;
                  c1 = c\<lparr>cn_new_peers := counter\<rparr>
              in if counter > MAX_NEW_PEERS_PER_SEC then Inr (PEER_ID_INEXISTENT, c1)
                 else createPeer draws sender c1)"

text \<open>
  What \<open>receive\<close> does with a datagram: the new value of \<open>packet_queued\<close>, which was false, the
  outcome, and the connection.
\<close>

definition receive_datagram ::
  "session_t list \<Rightarrow> bool \<Rightarrow> address \<Rightarrow> u8 list \<Rightarrow> connection \<Rightarrow> bool \<times> unit res \<times> connection" where
  "receive_datagram draws new_second sender packetdata c =
     (if length packetdata < BASE_HEADER_SIZE then (False, Inr (), c)
      else case rbind (fetch 0 4 readU32 packetdata) (\<lambda>protocol_id.
                rbind (fetch 0 BASE_HEADER_SIZE readPeerId packetdata) (\<lambda>sent_id.
                rbind (fetch 0 BASE_HEADER_SIZE readChannel packetdata) (\<lambda>channelnum.
                  Inr (protocol_id, sent_id, channelnum)))) of
        Inl e \<Rightarrow> (False, Inl e, c)
      | Inr (protocol_id, sent_id, channelnum) \<Rightarrow>
           if protocol_id \<noteq> cn_protocol_id c then (False, Inr (), c)
           else if unat channelnum \<ge> CHANNEL_COUNT then (False, Inr (), c)
           else case identify_peer draws new_second sender sent_id c of
             Inl e \<Rightarrow> (False, Inl e, c)
           | Inr (pid, c1) \<Rightarrow>
             (case getPeerNoEx pid c1 of
                Inl e \<Rightarrow> (False, Inl e, c1)
              | Inr None \<Rightarrow> (False, Inr (), c1)
              | Inr (Some peer) \<Rightarrow>
                  let knew_peer_id = sent_id \<noteq> PEER_ID_INEXISTENT
                  in if sender \<noteq> peer_address peer then (False, Inr (), c1)
                     else if \<not> knew_peer_id \<and> \<not> half_open peer then (False, Inr (), c1)
                     else
                       let peer1 = (if knew_peer_id then peer\<lparr>half_open := False\<rparr> else peer);
                           c2 = put_peer pid peer1 c1;
                           r = (pid, unat channelnum)
                       in case get_ch r c2 of
                            Inl e \<Rightarrow> (False, Inl e, c2)
                          | Inr ch \<Rightarrow>
                              let c3 = put_ch r (UpdateBytesReceived (of_nat (length packetdata)) ch) c2
                              in (case (case fetch_rest BASE_HEADER_SIZE packetdata of
                                     Inl e \<Rightarrow> (Inl e, c3)
                                   | Inr payload \<Rightarrow> processPacket r payload pid channelnum False c3) of
                                    (Inr resultdata, c4) \<Rightarrow>
                                      (True, Inr (), c4\<lparr>cn_events := cn_events c4 @ [ev_dataReceived pid resultdata]\<rparr>)
                                  | (Inl e, c4) \<Rightarrow>
                                      if e = ProcessedSilentlyException \<or> e = ProcessedQueued
                                      then (True, Inr (), c4)
                                      else (False, Inl e, c4))))"

text \<open>
  One run of \<open>receive\<close>, with the datagram that arrives, if one does before the timeout.
  Invalid data ends the run; any other exception leaves it.
\<close>

definition receive ::
  "session_t list \<Rightarrow> bool \<Rightarrow> (address \<times> u8 list) option \<Rightarrow> bool \<times> connection \<Rightarrow> (bool \<times> connection) res" where
  "receive draws new_second datagram = (\<lambda>(packet_queued, c).
     let catch = (\<lambda>(queued, outcome, c). case outcome of
           Inr () \<Rightarrow> Inr (queued, c)
         | Inl e \<Rightarrow> if e = InvalidIncomingDataException then Inr (queued, c) else Inl e)
     in case (if packet_queued then drain c else (Inr (), c)) of
          (Inl e, c1) \<Rightarrow> catch (True, Inl e, c1)
        | (Inr (), c1) \<Rightarrow>
            (case datagram of
               None \<Rightarrow> Inr (False, c1)
             | Some (sender, packetdata) \<Rightarrow> catch (receive_datagram draws new_second sender packetdata c1)))"

lemma receive_after:
  assumes "(if queued then drain c else (Inr (), c)) = (Inr (), c1)"
  shows "receive draws ns None (queued, c) = Inr (False, c1)"
    and "receive_datagram draws ns sender d c1 = (b, Inr (), c2) \<Longrightarrow>
      receive draws ns (Some (sender, d)) (queued, c) = Inr (b, c2)"
    and "receive_datagram draws ns sender d c1 = (b, Inl e, c2) \<Longrightarrow>
      receive draws ns (Some (sender, d)) (queued, c) =
        (if e = InvalidIncomingDataException then Inr (b, c2) else Inl e)"
  by (simp_all only: receive_def Let_def prod.case assms sum.case option.case old.unit.case)

lemma receive_drain_fails:
  assumes "(if queued then drain c else (Inr (), c)) = (Inl e, c1)"
  shows "receive draws ns datagram (queued, c) =
    (if e = InvalidIncomingDataException then Inr (True, c1) else Inl e)"
  by (simp only: receive_def Let_def prod.case assms sum.case)

text \<open>
  The loop of the receive thread, over what the clock, the random numbers and the socket give
  at each turn. An exception that \<open>receive\<close> does not catch ends the thread.
\<close>

fun receive_run ::
  "(session_t list \<times> bool \<times> (address \<times> u8 list) option) list \<Rightarrow> bool \<times> connection \<Rightarrow> (bool \<times> connection) res" where
  "receive_run [] s = Inr s"
| "receive_run ((draws, new_second, datagram) # turns) s =
     rbind (receive draws new_second datagram s) (receive_run turns)"

end
