(* ===== verification/MtpDelivery.thy ===== *)
theory MtpDelivery
  imports MtpReceive
begin

text \<open>
  Reliable delivery: datagrams of one reliable channel that arrive in any order, some more than
  once, come out of the receive thread as data events, each exactly once and in the order they
  were sent.
\<close>

subsection \<open>A channel that receives a stream\<close>

text \<open>
  The stream: packet \<open>j\<close> carries \<open>payload j\<close> as an original packet under the sequence number
  \<open>base + j\<close>.
\<close>

definition stream_data :: "u16 \<Rightarrow> (nat \<Rightarrow> u8 list) \<Rightarrow> nat \<Rightarrow> u8 list" where
  "stream_data base payload j = makeReliablePacket (makeOriginalPacket (payload j)) (base + of_nat j)"

definition stream_packet ::
  "address \<Rightarrow> u32 \<Rightarrow> session_t \<Rightarrow> u8 \<Rightarrow> u16 \<Rightarrow> (nat \<Rightarrow> u8 list) \<Rightarrow> nat \<Rightarrow> packet" where
  "stream_packet a proto pid n base payload j = makePacket a (stream_data base payload j) proto pid n"

definition quiet :: "channel_ref \<Rightarrow> connection \<Rightarrow> bool" where
  "quiet r c \<longleftrightarrow>
     (\<forall>r' ch. r' \<noteq> r \<and> get_ch r' c = Inr ch \<longrightarrow>
        rpb_getFirstSeqnum (incoming_reliables ch) \<noteq> Some (next_incoming_seqnum ch))"

text \<open>
  Packets before \<open>k\<close> have been read, those with an index in \<open>A\<close> wait in the buffer; no other
  channel has a packet to read.
\<close>

definition receiving ::
  "address \<Rightarrow> session_t \<Rightarrow> u8 \<Rightarrow> u16 \<Rightarrow> (nat \<Rightarrow> u8 list) \<Rightarrow> nat \<Rightarrow> nat set \<Rightarrow> connection \<Rightarrow> bool" where
  "receiving a pid n base payload k A c \<longleftrightarrow>
     conn_wf c \<and> quiet (pid, unat n) c \<and> unat n < CHANNEL_COUNT \<and>
     pid \<noteq> PEER_ID_INEXISTENT \<and> pid < MAX_UDP_PEERS \<and>
     (\<exists>p. map_of (cn_peers c) pid = Some p \<and> peer_address p = a) \<and>
     (\<exists>ch. get_ch (pid, unat n) c = Inr ch \<and> next_incoming_seqnum ch = base + of_nat k \<and>
        rpb_inv (base + of_nat k) (incoming_reliables ch) \<and>
        tracks rpb_lookup (stream_packet a (cn_protocol_id c) pid n base payload) base k A (incoming_reliables ch))"

lemma get_ch_cong: "cn_peers c' = cn_peers c \<Longrightarrow> get_ch r c' = get_ch r c"
  by (simp add: get_ch_def)

lemma receiving_same_peers:
  "cn_peers c' = cn_peers c \<Longrightarrow> cn_peer_ids c' = cn_peer_ids c \<Longrightarrow> cn_protocol_id c' = cn_protocol_id c \<Longrightarrow>
    receiving a pid n base payload k A c' = receiving a pid n base payload k A c"
  using conn_wf_same_peers [of c' c] get_ch_cong [of c' c] by (simp add: receiving_def quiet_def)

lemma put_peer_fields [simp]:
  "cn_peer_ids (put_peer q p c) = cn_peer_ids c" "cn_protocol_id (put_peer q p c) = cn_protocol_id c"
  "cn_events (put_peer q p c) = cn_events c"
  "map_of (cn_peers (put_peer q p c)) = (map_of (cn_peers c))(q \<mapsto> p)"
  by (simp_all add: put_peer_def update_conv')

lemma put_ch_fields [simp]:
  "cn_peer_ids (put_ch r ch c) = cn_peer_ids c" "cn_protocol_id (put_ch r ch c) = cn_protocol_id c"
  "cn_events (put_ch r ch c) = cn_events c"
  by (simp_all add: put_ch_def split: option.split)

lemma putCommand_fields [simp]:
  "cn_peer_ids (putCommand cmd c) = cn_peer_ids c" "cn_protocol_id (putCommand cmd c) = cn_protocol_id c"
  "cn_events (putCommand cmd c) = cn_events c"
  by (simp_all add: putCommand_def)

lemma put_channel_fields [simp]:
  "peer_id (put_channel i ch p) = peer_id p" "peer_address (put_channel i ch p) = peer_address p"
  "pending_deletion (put_channel i ch p) = pending_deletion p"
  "length (peer_channels (put_channel i ch p)) = length (peer_channels p)"
  by (simp_all add: put_channel_def)

lemma get_channel_put:
  "get_channel i p = Inr ch \<Longrightarrow>
    get_channel j (put_channel i ch' p) = (if j = i then Inr ch' else get_channel j p)"
  by (auto simp: get_channel_def put_channel_def split: if_splits)

lemma get_ch_put_ch:
  "get_ch r c = Inr ch \<Longrightarrow> get_ch r' (put_ch r ch' c) = (if r' = r then Inr ch' else get_ch r' c)"
  by (cases r; cases r')
    (auto simp: get_ch_def put_ch_def get_channel_put split: option.splits)

lemma conn_wf_put_ch:
  assumes "conn_wf c" and "get_ch r c = Inr ch" and "window_size ch' = window_size ch"
  shows "conn_wf (put_ch r ch' c)"
proof -
  obtain p where p: "map_of (cn_peers c) (fst r) = Some p" "get_channel (snd r) p = Inr ch"
    using assms(2) by (auto simp: get_ch_def split: option.splits)
  have w: "peer_wf (fst r) p"
    using conn_wf_peer [OF assms(1) p(1)] .
  then have "window_ok ch'"
    using peer_wf_channel [OF w p(2)] assms(3) by (simp add: window_ok_def)
  then show ?thesis
    using conn_wf_put_peer [OF assms(1), of "fst r"] peer_wf_put_channel [OF w] p(1)
    by (simp add: put_ch_def)
qed

lemma map_of_put_ch_address:
  "(\<exists>p. map_of (cn_peers c) q = Some p \<and> peer_address p = a) \<Longrightarrow>
    \<exists>p. map_of (cn_peers (put_ch r ch c)) q = Some p \<and> peer_address p = a"
  by (auto simp: put_ch_def split: option.split)

lemma receiving_put_ch:
  assumes "receiving a pid n base payload k A c" and "get_ch (pid, unat n) c = Inr ch"
    and "window_size ch' = window_size ch" and "next_incoming_seqnum ch' = base + of_nat k'"
    and "rpb_inv (base + of_nat k') (incoming_reliables ch')"
    and "tracks rpb_lookup (stream_packet a (cn_protocol_id c) pid n base payload) base k' A' (incoming_reliables ch')"
  shows "receiving a pid n base payload k' A' (put_ch (pid, unat n) ch' c)"
  using assms conn_wf_put_ch [of c "(pid, unat n)" ch ch'] map_of_put_ch_address [of c pid a "(pid, unat n)" ch']
  by (auto simp: receiving_def quiet_def get_ch_put_ch)

subsection \<open>The packets inside\<close>

lemma word8_less [simp]: "(1 :: u8) < 4" "\<not> (4 :: u8) \<le> 3" "\<not> (4 :: u8) \<le> 1"
  by (simp_all add: word_less_nat_alt word_le_nat_alt)

lemma nested_original:
  assumes "conn_wf c" and "map_of (cn_peers c) pid \<noteq> None" and "pid < MAX_UDP_PEERS" and "d \<noteq> []"
  shows "processPacket_nested r (makeOriginalPacket d) pid n c = (Inr d, c)"
  using assms
  by (auto simp: processPacket_nested_def process_with_def getPeerNoEx_wf makeOriginalPacket_def packet_types
      handlePacketType_Original_def header_sizes Let_def not_le)

lemma stream_data_bytes:
  "length (stream_data base payload j) = 4 + length (payload j)"
  "stream_data base payload j ! 0 = PACKET_TYPE_RELIABLE"
  "readU16 (drop 1 (stream_data base payload j)) = base + of_nat j"
  "drop 3 (stream_data base payload j) = makeOriginalPacket (payload j)"
  by (simp_all add: stream_data_def makeReliablePacket_def makeOriginalPacket_def)

lemma stream_packet_bytes:
  "reliable_packet (stream_packet a pr pid n base payload j)"
  "getSeqnum (stream_packet a pr pid n base payload j) = base + of_nat j"
  "readPeerId (pk_data (stream_packet a pr pid n base payload j)) = pid"
  "readChannel (pk_data (stream_packet a pr pid n base payload j)) = n"
  "drop 10 (pk_data (stream_packet a pr pid n base payload j)) = makeOriginalPacket (payload j)"
  "length (pk_data (stream_packet a pr pid n base payload j)) = 11 + length (payload j)"
  by (simp_all add: stream_packet_def reliable_packet_def makePacket_def header_sizes stream_data_def
      makeReliablePacket_def makeOriginalPacket_def readPeerId_def readChannel_def nth_append getSeqnum_def)

lemma in_window_ahead: "seqnum_in_window q nxt MAX_RELIABLE_WINDOW_SIZE \<longleftrightarrow> ahead nxt q < 32768"
  by (simp add: seqnum_in_window_ahead MAX_RELIABLE_WINDOW_SIZE_def)

lemma ahead_old:
  assumes "j < k" and "k \<le> j + 32768"
  shows "32768 \<le> ahead ((base :: u16) + of_nat k) (base + of_nat j)"
proof -
  have "(of_nat (j + 65536) :: u16) = of_nat j"
    by (simp only: word_unat_eq_iff unat_of_nat_u16) simp
  moreover have "ahead (base + of_nat k) (base + of_nat (j + 65536)) = j + 65536 - k"
    by (rule index_ahead) (use assms in linarith)+
  ultimately have "ahead (base + of_nat k) (base + of_nat j) = j + 65536 - k"
    by (simp only:)
  then show ?thesis
    using assms by linarith
qed

lemma handleReliable_old:
  assumes "receiving a pid n base payload k A c" and "j < k" and "k \<le> j + 32768"
    and "map_of (cn_peers c) pid = Some peer"
  shows "\<exists>c'. handlePacketType_Reliable (pid, unat n) (stream_data base payload j) peer n False c =
      (Inl ProcessedSilentlyException, c') \<and> receiving a pid n base payload k A c' \<and> cn_events c' = cn_events c"
proof -
  obtain ch where ch: "get_ch (pid, unat n) c = Inr ch" "next_incoming_seqnum ch = base + of_nat k"
    using assms(1) by (auto simp: receiving_def)
  let ?q = "base + of_nat j" and ?n = "base + of_nat k"
  have far: "\<not> ahead ?n ?q < 32768"
    using ahead_old [OF assms(2,3), of base] by simp
  then have ne: "?q \<noteq> ?n"
    using ahead_self [of ?n] by (metis zero_less_numeral)
  have total: "seqnum_higher ?q ?n \<or> seqnum_higher ?n ?q"
    using ne unat_u16_less [of ?q] unat_u16_less [of ?n]
    by (auto simp: seqnum_higher_def SEQNUM_MAX_def word_less_nat_alt word_unat_eq_iff)
  have n3: "unat n < CHANNEL_COUNT"
    using assms(1) by (simp add: receiving_def)
  show ?thesis
    using ch far total n3 assms(1)
      receiving_same_peers [of "putCommand (cmd_ack (peer_id peer) n ([PACKET_TYPE_CONTROL, CONTROLTYPE_ACK] @ writeU16 ?q)) c" c]
    by (auto simp: handlePacketType_Reliable_def stream_data_bytes [simplified] stream_data_bytes(3) [unfolded One_nat_def]
        header_sizes Let_def readNextIncomingSeqNum_def in_window_ahead sendAck_def)
qed

abbreviation acked :: "session_t \<Rightarrow> u8 \<Rightarrow> u16 \<Rightarrow> connection \<Rightarrow> connection" where
  "acked pid n q c \<equiv> putCommand (cmd_ack pid n ([PACKET_TYPE_CONTROL, CONTROLTYPE_ACK] @ writeU16 q)) c"

lemma receiving_acked [simp]:
  "receiving a pid n base payload k A (putCommand cmd c) = receiving a pid n base payload k A c"
  by (rule receiving_same_peers) simp_all

lemma get_ch_putCommand [simp]: "get_ch r (putCommand cmd c) = get_ch r c"
  by (simp add: get_ch_def)

lemma index_ne: "k < j \<Longrightarrow> j < k + 32768 \<Longrightarrow> (base :: u16) + of_nat j \<noteq> base + of_nat k"
  using index_inj [of j k k base] by auto

lemma handleReliable_future:
  assumes r: "receiving a pid n base payload k A c" and j: "k < j" "j < k + 32768"
    and peer: "map_of (cn_peers c) pid = Some peer"
  shows "\<exists>c'. handlePacketType_Reliable (pid, unat n) (stream_data base payload j) peer n False c =
      (Inl ProcessedQueued, c') \<and> receiving a pid n base payload k (insert j A) c' \<and> cn_events c' = cn_events c"
proof -
  let ?S = "stream_packet a (cn_protocol_id c) pid n base payload"
  obtain ch where ch: "get_ch (pid, unat n) c = Inr ch" "next_incoming_seqnum ch = base + of_nat k"
    "rpb_inv (base + of_nat k) (incoming_reliables ch)" "tracks rpb_lookup ?S base k A (incoming_reliables ch)"
    using r by (auto simp: receiving_def)
  have p: "peer_id peer = pid" "peer_address peer = a"
    using r peer conn_wf_peer [of c pid peer] by (auto simp: receiving_def peer_wf_def)
  have win: "ahead (base + of_nat k) (base + of_nat j) < 32768"
    using index_ahead [of k j base] j by simp
  obtain b where b: "rpb_insert (?S j) (base + of_nat k) (incoming_reliables ch) = Inr b"
    "rpb_inv (base + of_nat k) b" "tracks rpb_lookup ?S base k (insert j A) b"
    using reliables.tracks_insert [OF ch(3,4) j] by (auto simp: stream_packet_bytes)
  let ?c1 = "acked pid n (base + of_nat j) c"
  let ?c' = "put_ch (pid, unat n) (ch\<lparr>incoming_reliables := b\<rparr>) ?c1"
  have "handlePacketType_Reliable (pid, unat n) (stream_data base payload j) peer n False c = (Inl ProcessedQueued, ?c')"
    using r ch win index_ne [OF j, of base] p b(1)
    by (simp add: handlePacketType_Reliable_def stream_data_bytes stream_data_bytes(3) [unfolded One_nat_def]
        header_sizes Let_def readNextIncomingSeqNum_def in_window_ahead sendAck_def receiving_def
        stream_packet_def [symmetric])
  moreover have "receiving a pid n base payload k (insert j A) ?c'"
    by (rule receiving_put_ch [of a pid n base payload k A ?c1 ch]) (use r ch b in simp_all)
  ultimately show ?thesis
    by (intro exI [of _ ?c']) simp
qed

text \<open>The next packet, whether or not it waits in the buffer as well.\<close>

lemma process_next:
  assumes r: "receiving a pid n base payload k A c" and peer: "map_of (cn_peers c) pid = Some peer"
    and ne: "payload k \<noteq> []"
  shows "\<exists>c'. process_next_reliable (pid, unat n) (stream_data base payload k) peer n (base + of_nat k) c =
      (Inr (payload k), c') \<and> receiving a pid n base payload (Suc k) (A - {k}) c' \<and> cn_events c' = cn_events c"
proof -
  let ?S = "stream_packet a (cn_protocol_id c) pid n base payload"
  obtain ch where ch: "get_ch (pid, unat n) c = Inr ch" "next_incoming_seqnum ch = base + of_nat k"
    "rpb_inv (base + of_nat k) (incoming_reliables ch)" "tracks rpb_lookup ?S base k A (incoming_reliables ch)"
    using r by (auto simp: receiving_def)
  have p: "peer_id peer = pid"
    using r peer conn_wf_peer [of c pid peer] by (auto simp: receiving_def peer_wf_def)
  let ?b0 = "if rpb_getFirstSeqnum (incoming_reliables ch) = Some (base + of_nat k)
      then rbind (rpb_popFirst (incoming_reliables ch)) (\<lambda>(_, b). Inr b) else Inr (incoming_reliables ch)"
  obtain b where b: "?b0 = Inr b" "rpb_inv (base + of_nat (Suc k)) b" "tracks rpb_lookup ?S base (Suc k) (A - {k}) b"
  proof (cases "k \<in> A")
    case True
    then show ?thesis
      using reliables.tracks_pop [OF ch(3,4) True] reliables.tracks_first [OF ch(3,4)] that by auto
  next
    case False
    then show ?thesis
      using reliables.tracks_advance [OF ch(3,4) False] reliables.tracks_first [OF ch(3,4)] that by auto
  qed
  let ?ch = "snd (incNextIncomingSeqNum (ch\<lparr>incoming_reliables := b\<rparr>))"
  let ?c' = "put_ch (pid, unat n) ?ch c"
  have r': "receiving a pid n base payload (Suc k) (A - {k}) ?c'"
    by (rule receiving_put_ch [OF r ch(1)])
      (use ch b in \<open>simp_all add: incNextIncomingSeqNum_def add_ac\<close>)
  have "processPacket_nested (pid, unat n) (makeOriginalPacket (payload k)) pid n ?c' = (Inr (payload k), ?c')"
    by (rule nested_original) (use r' ne in \<open>auto simp: receiving_def\<close>)
  then have "process_next_reliable (pid, unat n) (stream_data base payload k) peer n (base + of_nat k) c = (Inr (payload k), ?c')"
    using ch b(1) p by (simp add: process_next_reliable_def header_sizes stream_data_bytes)
  with r' show ?thesis
    by (intro exI [of _ ?c']) simp
qed

lemma handleReliable_next:
  assumes r: "receiving a pid n base payload k A c" and peer: "map_of (cn_peers c) pid = Some peer"
    and ne: "payload k \<noteq> []"
  shows "\<exists>c'. handlePacketType_Reliable (pid, unat n) (stream_data base payload k) peer n False c =
      (Inr (payload k), c') \<and> receiving a pid n base payload (Suc k) (A - {k}) c' \<and> cn_events c' = cn_events c"
proof -
  obtain ch where ch: "get_ch (pid, unat n) c = Inr ch" "next_incoming_seqnum ch = base + of_nat k"
    using r by (auto simp: receiving_def)
  have p: "peer_id peer = pid"
    using r peer conn_wf_peer [of c pid peer] by (auto simp: receiving_def peer_wf_def)
  let ?c1 = "acked pid n (base + of_nat k) c"
  have "handlePacketType_Reliable (pid, unat n) (stream_data base payload k) peer n False c =
      process_next_reliable (pid, unat n) (stream_data base payload k) peer n (base + of_nat k) ?c1"
    using r ch p
    by (simp add: handlePacketType_Reliable_def stream_data_bytes stream_data_bytes(3) [unfolded One_nat_def]
        header_sizes Let_def readNextIncomingSeqNum_def in_window_ahead sendAck_def receiving_def)
  moreover have "\<exists>c'. process_next_reliable (pid, unat n) (stream_data base payload k) peer n (base + of_nat k) ?c1 =
      (Inr (payload k), c') \<and> receiving a pid n base payload (Suc k) (A - {k}) c' \<and> cn_events c' = cn_events ?c1"
    by (rule process_next) (use r peer ne in simp_all)
  ultimately show ?thesis by simp
qed

subsection \<open>Reading what is buffered\<close>

lemma checkIncoming_quiet:
  "get_ch r c = Inr ch \<Longrightarrow> rpb_getFirstSeqnum (incoming_reliables ch) \<noteq> Some (next_incoming_seqnum ch) \<Longrightarrow>
    checkIncomingBuffers r c = (Inr None, c)"
  by (simp add: checkIncomingBuffers_def readNextIncomingSeqNum_def)

lemma checkIncoming_next:
  assumes r: "receiving a pid n base payload k A c" and k: "k \<in> A" and ne: "payload k \<noteq> []"
  shows "\<exists>c'. checkIncomingBuffers (pid, unat n) c = (Inr (Some (pid, payload k)), c') \<and>
    receiving a pid n base payload (Suc k) (A - {k}) c' \<and> cn_events c' = cn_events c"
proof -
  let ?S = "stream_packet a (cn_protocol_id c) pid n base payload"
  obtain ch where ch: "get_ch (pid, unat n) c = Inr ch" "next_incoming_seqnum ch = base + of_nat k"
    "rpb_inv (base + of_nat k) (incoming_reliables ch)" "tracks rpb_lookup ?S base k A (incoming_reliables ch)"
    using r by (auto simp: receiving_def)
  have first: "rpb_getFirstSeqnum (incoming_reliables ch) = Some (base + of_nat k)"
    using reliables.tracks_first [OF ch(3,4)] k by blast
  obtain b where b: "rpb_popFirst (incoming_reliables ch) = Inr (?S k, b)"
    "rpb_inv (base + of_nat (Suc k)) b" "tracks rpb_lookup ?S base (Suc k) (A - {k}) b"
    using reliables.tracks_pop [OF ch(3,4) k] by blast
  let ?ch = "snd (incNextIncomingSeqNum (ch\<lparr>incoming_reliables := b\<rparr>))"
  let ?c' = "put_ch (pid, unat n) ?ch c"
  have r': "receiving a pid n base payload (Suc k) (A - {k}) ?c'"
    by (rule receiving_put_ch [OF r ch(1)])
      (use ch b in \<open>simp_all add: incNextIncomingSeqNum_def add_ac\<close>)
  have "processPacket_nested (pid, unat n) (makeOriginalPacket (payload k)) pid n ?c' = (Inr (payload k), ?c')"
    by (rule nested_original) (use r' ne in \<open>auto simp: receiving_def\<close>)
  then have "checkIncomingBuffers (pid, unat n) c = (Inr (Some (pid, payload k)), ?c')"
    using ch(1,2) first b(1)
    by (simp add: checkIncomingBuffers_def readNextIncomingSeqNum_def Let_def processPacket_def header_sizes
        stream_packet_bytes)
  with r' show ?thesis
    by (intro exI [of _ ?c']) simp
qed

lemma live_channels_wf:
  assumes "conn_wf c" and "set pids \<subseteq> set (cn_peer_ids c)"
  shows "live_channels pids c = Inr (concat (map (\<lambda>pid. map (Pair pid) [0..<CHANNEL_COUNT]) pids))"
  using assms(2)
proof (induction pids)
  case (Cons pid pids)
  then obtain p where p: "map_of (cn_peers c) pid = Some p"
    using assms(1) by (auto simp: conn_wf_def)
  then have "length (peer_channels p) = CHANNEL_COUNT"
    using conn_wf_peer [OF assms(1)] by (simp add: peer_wf_def)
  with Cons p show ?case
    by (simp add: getPeerNoEx_wf [OF assms(1)])
qed simp

lemma refs_iff:
  "(q, i) \<in> set (concat (map (\<lambda>pid. map (Pair pid) [0..<N]) pids)) \<longleftrightarrow> q \<in> set pids \<and> i < N"
  by (induction pids) auto

lemma get_ch_wf:
  assumes "conn_wf c" and "pid \<in> set (cn_peer_ids c)" and "i < CHANNEL_COUNT"
  shows "\<exists>ch. get_ch (pid, i) c = Inr ch"
proof -
  obtain p where p: "map_of (cn_peers c) pid = Some p"
    using assms(1,2) by (auto simp: conn_wf_def)
  then show ?thesis
    using conn_wf_peer [OF assms(1) p] assms(3) by (simp add: get_ch_def get_channel_def peer_wf_def)
qed

lemma get_ch_refs:
  assumes "conn_wf c"
    and "x \<in> set (concat (map (\<lambda>pid. map (Pair pid) [0..<CHANNEL_COUNT]) (cn_peer_ids c)))"
  shows "\<exists>ch. get_ch x c = Inr ch"
proof (cases x)
  case (Pair q i)
  then have "q \<in> set (cn_peer_ids c) \<and> i < CHANNEL_COUNT"
    using assms(2) by (simp only: refs_iff)
  with Pair get_ch_wf [OF assms(1)] show ?thesis by simp
qed

lemma check_channels_skip:
  "\<forall>r \<in> set rs. checkIncomingBuffers r c = (Inr None, c) \<Longrightarrow> check_channels (rs @ rs') c = check_channels rs' c"
  by (induction rs) simp_all

lemma receiving_peer_ids: "receiving a pid n base payload k A c \<Longrightarrow> pid \<in> set (cn_peer_ids c)"
  by (force simp: receiving_def conn_wf_def dest: map_of_SomeD)

lemma getFromBuffers_next:
  assumes r: "receiving a pid n base payload k A c" and k: "k \<in> A" and ne: "payload k \<noteq> []"
  shows "\<exists>c'. getFromBuffers c = (Inr (Some (pid, payload k)), c') \<and>
    receiving a pid n base payload (Suc k) (A - {k}) c' \<and> cn_events c' = cn_events c"
proof -
  let ?rs = "concat (map (\<lambda>pid. map (Pair pid) [0..<CHANNEL_COUNT]) (cn_peer_ids c))"
  have wf: "conn_wf c" and n: "unat n < CHANNEL_COUNT" and q: "quiet (pid, unat n) c"
    using r by (auto simp: receiving_def)
  have "(pid, unat n) \<in> set ?rs"
    using receiving_peer_ids [OF r] n by (simp only: refs_iff simp_thms)
  then obtain pre post where rs: "?rs = pre @ (pid, unat n) # post" "(pid, unat n) \<notin> set pre"
    by (meson split_list_first)
  have "checkIncomingBuffers x c = (Inr None, c)" if x: "x \<in> set pre" for x
  proof -
    have "x \<in> set ?rs" "x \<noteq> (pid, unat n)"
      using x rs by auto
    moreover from this obtain ch where "get_ch x c = Inr ch"
      using get_ch_refs [OF wf] by blast
    ultimately show ?thesis
      using q by (intro checkIncoming_quiet) (auto simp: quiet_def)
  qed
  then have "check_channels ?rs c = check_channels ((pid, unat n) # post) c"
    unfolding rs(1) by (intro check_channels_skip) blast
  moreover obtain c' where "checkIncomingBuffers (pid, unat n) c = (Inr (Some (pid, payload k)), c')"
    "receiving a pid n base payload (Suc k) (A - {k}) c'" "cn_events c' = cn_events c"
    using checkIncoming_next [OF assms] by blast
  ultimately show ?thesis
    by (simp add: getFromBuffers_def getPeerIDs_def live_channels_wf [OF wf])
qed

lemma getFromBuffers_none:
  assumes r: "receiving a pid n base payload k A c" and k: "k \<notin> A"
  shows "getFromBuffers c = (Inr None, c)"
proof -
  let ?rs = "concat (map (\<lambda>pid. map (Pair pid) [0..<CHANNEL_COUNT]) (cn_peer_ids c))"
  have wf: "conn_wf c" and q: "quiet (pid, unat n) c"
    using r by (auto simp: receiving_def)
  obtain ch where ch: "get_ch (pid, unat n) c = Inr ch" "next_incoming_seqnum ch = base + of_nat k"
    "rpb_getFirstSeqnum (incoming_reliables ch) \<noteq> Some (base + of_nat k)"
    using r k reliables.tracks_first by (fastforce simp: receiving_def)
  have "checkIncomingBuffers x c = (Inr None, c)" if x: "x \<in> set ?rs" for x
  proof -
    obtain chx where "get_ch x c = Inr chx"
      using get_ch_refs [OF wf x] by blast
    then show ?thesis
      using q ch by (intro checkIncoming_quiet) (cases x; cases "x = (pid, unat n)"; fastforce simp: quiet_def)+
  qed
  then have "check_channels (?rs @ []) c = check_channels [] c"
    by (intro check_channels_skip) blast
  then show ?thesis
    by (simp add: getFromBuffers_def getPeerIDs_def live_channels_wf [OF wf])
qed

abbreviation delivered :: "session_t \<Rightarrow> (nat \<Rightarrow> u8 list) \<Rightarrow> nat list \<Rightarrow> event list" where
  "delivered pid payload js \<equiv> map (\<lambda>j. ev_dataReceived pid (payload j)) js"

lemma receiving_events [simp]:
  "receiving a pid n base payload k A (c\<lparr>cn_events := es\<rparr>) = receiving a pid n base payload k A c"
  by (rule receiving_same_peers) simp_all

lemma drain_ok:
  assumes "receiving a pid n base payload k A c" and "{k..<m} \<subseteq> A" and "m \<notin> A" and "k \<le> m"
    and "\<forall>j. payload j \<noteq> []"
  shows "\<exists>c'. drain c = (Inr (), c') \<and> receiving a pid n base payload m (A - {k..<m}) c' \<and>
    cn_events c' = cn_events c @ delivered pid payload [k..<m]"
  using assms(1-4)
proof (induction "m - k" arbitrary: k A c)
  case 0
  then show ?case
    using getFromBuffers_none [of a pid n base payload k A c]
    by (intro exI [of _ c]) (subst drain.simps, auto)
next
  case (Suc d)
  then have k: "k \<in> A" "k < m" "d = m - Suc k"
    by auto
  obtain c1 where c1: "getFromBuffers c = (Inr (Some (pid, payload k)), c1)"
    "receiving a pid n base payload (Suc k) (A - {k}) c1" "cn_events c1 = cn_events c"
    using getFromBuffers_next [OF Suc.prems(1) k(1)] assms(5) by blast
  let ?c2 = "c1\<lparr>cn_events := cn_events c1 @ [ev_dataReceived pid (payload k)]\<rparr>"
  have "\<exists>c'. drain ?c2 = (Inr (), c') \<and> receiving a pid n base payload m ((A - {k}) - {Suc k..<m}) c' \<and>
      cn_events c' = cn_events ?c2 @ delivered pid payload [Suc k..<m]"
    by (rule Suc.hyps) (use Suc.prems k c1 in auto)
  moreover have "drain c = drain ?c2"
    by (subst drain.simps) (simp add: c1(1))
  moreover have "(A - {k}) - {Suc k..<m} = A - {k..<m}"
    using k(2) by auto
  ultimately show ?case
    using c1(3) k(2) by (auto simp: upt_conv_Cons)
qed

subsection \<open>A datagram\<close>

lemma sendAck_Inr: "sendAck pid n q c = Inr c1 \<Longrightarrow> cn_protocol_id c1 = cn_protocol_id c"
  by (auto simp: sendAck_def split: if_splits)

lemma deletePeer_protocol: "deletePeer pid t c = Inr (b, c1) \<Longrightarrow> cn_protocol_id c1 = cn_protocol_id c"
  by (auto simp: deletePeer_def putEvent_Inr split: option.splits if_splits)

lemma ack_protocol: "cn_protocol_id (snd (handle_ack r d c)) = cn_protocol_id c"
  by (simp add: handle_ack_def split: sum.splits error.splits)

lemma set_peer_id_protocol: "cn_protocol_id (snd (handle_set_peer_id d c)) = cn_protocol_id c"
  by (simp add: handle_set_peer_id_def SetPeerID_def Let_def)

lemma disco_protocol: "cn_protocol_id (snd (handle_disco peer c)) = cn_protocol_id c"
  by (auto simp: handle_disco_def deletePeer_protocol split: sum.splits)

lemma control_protocol: "cn_protocol_id (snd (handlePacketType_Control r d peer n rel c)) = cn_protocol_id c"
  by (simp add: handlePacketType_Control_def Let_def ack_protocol set_peer_id_protocol disco_protocol)

lemma split_protocol: "cn_protocol_id (snd (handlePacketType_Split r d peer n rel c)) = cn_protocol_id c"
  by (simp add: handlePacketType_Split_def Let_def split: option.splits sum.splits prod.splits)

lemma nested_protocol: "cn_protocol_id (snd (processPacket_nested r d pid n c)) = cn_protocol_id c"
  by (simp add: processPacket_nested_def process_with_def Let_def handlePacketType_Original_def
      nested_reliable_def control_protocol split_protocol split: sum.splits option.splits)

lemma process_next_protocol: "cn_protocol_id (snd (process_next_reliable r d peer n q c)) = cn_protocol_id c"
  by (auto simp: process_next_reliable_def Let_def nested_protocol split: sum.splits)

lemma handleReliable_protocol:
  "cn_protocol_id (snd (handlePacketType_Reliable r d peer n rel c)) = cn_protocol_id c"
  by (auto simp: handlePacketType_Reliable_def Let_def process_next_protocol
      dest: sendAck_Inr split: sum.splits error.splits)

lemma receiving_half_open:
  assumes "receiving a pid n base payload k A c" and p: "map_of (cn_peers c) pid = Some p"
  shows "receiving a pid n base payload k A (put_peer pid (p\<lparr>half_open := b\<rparr>) c)"
proof -
  have wf: "conn_wf c"
    using assms(1) by (simp add: receiving_def)
  then have "conn_wf (put_peer pid (p\<lparr>half_open := b\<rparr>) c)"
    using conn_wf_peer [OF wf p] p by (intro conn_wf_put_peer) (simp_all add: peer_wf_def)
  moreover have "get_ch r (put_peer pid (p\<lparr>half_open := b\<rparr>) c) = get_ch r c" for r
    using p by (auto simp: get_ch_def get_channel_def)
  ultimately show ?thesis
    using assms by (auto simp: receiving_def quiet_def)
qed

lemma identify_known:
  "conn_wf c \<Longrightarrow> pid \<noteq> PEER_ID_INEXISTENT \<Longrightarrow> identify_peer draws ns sender pid c = Inr (pid, c)"
  by (simp add: identify_peer_def ConnectedToServer_def getPeerNoEx_wf)

lemma process_reliable_packet:
  assumes "conn_wf c" and "map_of (cn_peers c) pid = Some peer" and "pid < MAX_UDP_PEERS"
  shows "processPacket r (stream_data base payload j) pid n False c =
    handlePacketType_Reliable r (stream_data base payload j) peer n False c"
proof -
  have "\<not> MAX_UDP_PEERS \<le> pid"
    using assms(3) by simp
  moreover have "0 < length (stream_data base payload j)"
    by (simp add: stream_data_bytes)
  ultimately show ?thesis
    using assms stream_data_bytes(2) [of base payload j]
    by (simp add: processPacket_def process_with_def getPeerNoEx_wf packet_types Let_def)
qed

definition arrives :: "address \<Rightarrow> session_t \<Rightarrow> u8 \<Rightarrow> u16 \<Rightarrow> (nat \<Rightarrow> u8 list) \<Rightarrow> nat \<Rightarrow> connection \<Rightarrow> u8 list" where
  "arrives a pid n base payload j c = pk_data (stream_packet a (cn_protocol_id c) pid n base payload j)"

lemma receive_datagram_ok:
  assumes r: "receiving a pid n base payload k A c" and j: "j < k + 32768" "k \<le> j + 32768"
    and ne: "\<forall>j. payload j \<noteq> []"
  shows "\<exists>c'. receive_datagram draws ns a (arrives a pid n base payload j c) c = (True, Inr (), c') \<and>
    cn_protocol_id c' = cn_protocol_id c \<and>
    (if j = k then receiving a pid n base payload (Suc k) (A - {k}) c' \<and>
         cn_events c' = cn_events c @ delivered pid payload [k]
     else receiving a pid n base payload k (if j < k then A else insert j A) c' \<and> cn_events c' = cn_events c)"
proof -
  obtain p where p: "map_of (cn_peers c) pid = Some p" "peer_address p = a"
    using r by (auto simp: receiving_def)
  have wf: "conn_wf c" and n: "unat n < CHANNEL_COUNT" and pid: "pid \<noteq> PEER_ID_INEXISTENT" "pid < MAX_UDP_PEERS"
    using r by (auto simp: receiving_def)
  let ?d = "arrives a pid n base payload j c" and ?r = "(pid, unat n)"
  have d: "readU32 ?d = cn_protocol_id c" "readPeerId ?d = pid" "readChannel ?d = n" "drop 7 ?d = stream_data base payload j"
    "\<not> length ?d < BASE_HEADER_SIZE"
    by (simp_all add: arrives_def stream_packet_bytes)
      (simp_all add: stream_packet_def makePacket_fields header_sizes)
  let ?c2 = "put_peer pid (p\<lparr>half_open := False\<rparr>) c"
  have r2: "receiving a pid n base payload k A ?c2"
    by (rule receiving_half_open [OF r p(1)])
  then obtain ch where ch: "get_ch ?r ?c2 = Inr ch" "next_incoming_seqnum ch = base + of_nat k"
    "rpb_inv (base + of_nat k) (incoming_reliables ch)"
    "tracks rpb_lookup (stream_packet a (cn_protocol_id ?c2) pid n base payload) base k A (incoming_reliables ch)"
    unfolding receiving_def by blast
  let ?c3 = "put_ch ?r (UpdateBytesReceived (of_nat (length ?d)) ch) ?c2"
  have r3: "receiving a pid n base payload k A ?c3"
    by (rule receiving_put_ch [OF r2 ch(1)]) (use ch in \<open>simp_all add: UpdateBytesReceived_def\<close>)
  then obtain peer where peer: "map_of (cn_peers ?c3) pid = Some peer"
    by (auto simp: receiving_def)
  have wf3: "conn_wf ?c3"
    using r3 by (simp add: receiving_def)
  note pr = process_reliable_packet [OF wf3 peer pid(2)]
  have body: "receive_datagram draws ns a ?d c =
      (case processPacket ?r (stream_data base payload j) pid n False ?c3 of
         (Inr resultdata, c4) \<Rightarrow> (True, Inr (), c4\<lparr>cn_events := cn_events c4 @ [ev_dataReceived pid resultdata]\<rparr>)
       | (Inl e, c4) \<Rightarrow>
           if e = ProcessedSilentlyException \<or> e = ProcessedQueued then (True, Inr (), c4) else (False, Inl e, c4))"
    using d n pid p wf ch(1)
    by (simp add: receive_datagram_def Let_def identify_known getPeerNoEx_wf BASE_HEADER_SIZE_def)
  have same: "cn_events ?c3 = cn_events c" "cn_protocol_id ?c3 = cn_protocol_id c"
    by simp_all
  consider (now) "j = k" | (old) "j < k" | (future) "k < j" by linarith
  then show ?thesis
  proof cases
    case now
    obtain c4 where "handlePacketType_Reliable ?r (stream_data base payload k) peer n False ?c3 = (Inr (payload k), c4)"
      "receiving a pid n base payload (Suc k) (A - {k}) c4" "cn_events c4 = cn_events ?c3"
      using handleReliable_next [OF r3 peer] ne by blast
    moreover from this have "cn_protocol_id c4 = cn_protocol_id c"
      using handleReliable_protocol [of ?r "stream_data base payload k" peer n False ?c3] same(2) by simp
    ultimately show ?thesis
      using body pr same(1) unfolding now by simp
  next
    case old
    obtain c4 where "handlePacketType_Reliable ?r (stream_data base payload j) peer n False ?c3 = (Inl ProcessedSilentlyException, c4)"
      "receiving a pid n base payload k A c4" "cn_events c4 = cn_events ?c3"
      using handleReliable_old [OF r3 old j(2) peer] by blast
    moreover from this have "cn_protocol_id c4 = cn_protocol_id c"
      using handleReliable_protocol [of ?r "stream_data base payload j" peer n False ?c3] same(2) by simp
    ultimately show ?thesis
      using old same(1) by (simp add: body pr)
  next
    case future
    obtain c4 where "handlePacketType_Reliable ?r (stream_data base payload j) peer n False ?c3 = (Inl ProcessedQueued, c4)"
      "receiving a pid n base payload k (insert j A) c4" "cn_events c4 = cn_events ?c3"
      using handleReliable_future [OF r3 future j(1) peer] by blast
    moreover from this have "cn_protocol_id c4 = cn_protocol_id c"
      using handleReliable_protocol [of ?r "stream_data base payload j" peer n False ?c3] same(2) by simp
    ultimately show ?thesis
      using future same(1) by (simp add: body pr)
  qed
qed

lemma nested_protocol_eq: "processPacket_nested r d pid n c = (x, c1) \<Longrightarrow> cn_protocol_id c1 = cn_protocol_id c"
  using nested_protocol [of r d pid n c] by simp

lemma checkIncoming_protocol: "cn_protocol_id (snd (checkIncomingBuffers r c)) = cn_protocol_id c"
  by (auto simp: checkIncomingBuffers_def Let_def processPacket_def dest!: nested_protocol_eq
      split: sum.splits option.splits prod.splits)

lemma check_channels_protocol: "cn_protocol_id (snd (check_channels rs c)) = cn_protocol_id c"
proof (induction rs c rule: check_channels.induct)
  case (2 r rs c)
  then show ?case
    using checkIncoming_protocol [of r c] by (auto split: sum.splits option.splits prod.splits)
qed simp

lemma getFromBuffers_protocol: "cn_protocol_id (snd (getFromBuffers c)) = cn_protocol_id c"
  by (simp add: getFromBuffers_def check_channels_protocol split: sum.splits)

lemma drain_protocol: "cn_protocol_id (snd (drain c)) = cn_protocol_id c"
proof (induction c rule: drain.induct)
  case (1 c)
  then show ?case
    using getFromBuffers_protocol [of c]
    by (subst drain.simps) (auto split: sum.splits option.splits prod.splits)
qed

subsection \<open>The receive thread\<close>

text \<open>
  The least index that has not arrived, and arrivals that stay within half the range of the
  sequence numbers from it.
\<close>

definition next_missing :: "nat list \<Rightarrow> nat" where
  "next_missing js = length (takeWhile (\<lambda>m. m \<in> set js) [0..<Suc (length js)])"

fun arrivals_ok :: "nat list \<Rightarrow> nat list \<Rightarrow> bool" where
  "arrivals_ok seen [] = True"
| "arrivals_ok seen (j # js) =
     (j < next_missing seen + 32768 \<and> next_missing seen \<le> j + 32768 \<and> arrivals_ok (j # seen) js)"

lemma takeWhile_upt: "takeWhile P [0..<n] = [0..<length (takeWhile P [0..<n])]"
  by (metis le_add1 length_takeWhile_le length_upt minus_nat.diff_0 plus_nat.add_0 takeWhile_eq_take take_upt)

lemma next_missing:
  shows "{0..<next_missing js} \<subseteq> set js" and "next_missing js \<notin> set js"
proof -
  let ?n = "Suc (length js)" and ?P = "\<lambda>m. m \<in> set js"
  have "set [0..<next_missing js] = set (takeWhile ?P [0..<?n])"
    unfolding next_missing_def by (subst (2) takeWhile_upt) simp
  then show sub: "{0..<next_missing js} \<subseteq> set js"
    by (auto dest: set_takeWhileD)
  show "next_missing js \<notin> set js"
  proof (cases "next_missing js < ?n")
    case True
    then show ?thesis
      using nth_length_takeWhile [of ?P "[0..<?n]"] by (simp add: next_missing_def del: upt_Suc)
  next
    case False
    then have "card {0..<?n} \<le> card (set js)"
      using sub by (intro card_mono) auto
    then show ?thesis
      using card_length [of js] by simp
  qed
qed

lemma next_missing_unique: "{0..<m} \<subseteq> set js \<Longrightarrow> m \<notin> set js \<Longrightarrow> m = next_missing js"
  using next_missing [of js] by (metis atLeastLessThan_iff le0 linorder_neqE_nat subset_eq)

lemma next_missing_set: "set js = set js' \<Longrightarrow> next_missing js = next_missing js'"
  using next_missing [of js] by (intro next_missing_unique) auto

text \<open>
  A state of the receive thread after the packets \<open>seen\<close>: what is left to read is in the buffer,
  and unless \<open>packet_queued\<close> is set nothing is ready.
\<close>

definition caught_up ::
  "address \<Rightarrow> session_t \<Rightarrow> u8 \<Rightarrow> u16 \<Rightarrow> (nat \<Rightarrow> u8 list) \<Rightarrow> event list \<Rightarrow> nat list \<Rightarrow> bool \<times> connection \<Rightarrow> bool" where
  "caught_up a pid n base payload es seen = (\<lambda>(queued, c).
     \<exists>k A. receiving a pid n base payload k A c \<and> set seen = {0..<k} \<union> A \<and> A \<inter> {0..<k} = {} \<and>
       (k \<in> A \<longrightarrow> queued) \<and> cn_events c = es @ delivered pid payload [0..<k])"

lemma drain_caught_up:
  assumes "caught_up a pid n base payload es seen (queued, c)" and ne: "\<forall>j. payload j \<noteq> []"
  defines "m \<equiv> next_missing seen"
  shows "\<exists>c1. (if queued then drain c else (Inr (), c)) = (Inr (), c1) \<and>
    receiving a pid n base payload m (set seen - {0..<m}) c1 \<and>
    cn_protocol_id c1 = cn_protocol_id c \<and> cn_events c1 = es @ delivered pid payload [0..<m]"
proof -
  obtain k A where k: "receiving a pid n base payload k A c" "set seen = {0..<k} \<union> A" "A \<inter> {0..<k} = {}"
    "k \<in> A \<longrightarrow> queued" "cn_events c = es @ delivered pid payload [0..<k]"
    using assms(1) by (auto simp: caught_up_def)
  have km: "k \<le> m" "{k..<m} \<subseteq> A" "m \<notin> A" "A - {k..<m} = set seen - {0..<m}"
  proof -
    show "k \<le> m"
      using next_missing(2) [of seen] k(2) by (fastforce simp: m_def not_le)
    then show "{k..<m} \<subseteq> A" "m \<notin> A" "A - {k..<m} = set seen - {0..<m}"
      using next_missing [of seen] k(2,3) by (auto simp: m_def subset_iff)
  qed
  show ?thesis
  proof (cases queued)
    case True
    obtain c1 where "drain c = (Inr (), c1)" "receiving a pid n base payload m (A - {k..<m}) c1"
      "cn_events c1 = cn_events c @ delivered pid payload [k..<m]"
      using drain_ok [OF k(1) km(2,3,1) ne] by blast
    moreover have "[0..<k] @ [k..<m] = [0..<m]"
      using km(1) upt_add_eq_append [of 0 k "m - k"] by simp
    ultimately show ?thesis
      using True km(4) k(5) drain_protocol [of c] by (simp flip: map_append)
  next
    case False
    then have "k = m"
      using k(4) km(1,2) by (metis atLeastLessThan_iff le_eq_less_or_eq subset_eq)
    with False k(1,5) km(4) show ?thesis by auto
  qed
qed

lemma receive_caught_up:
  assumes s: "caught_up a pid n base payload es seen (queued, c)" and ne: "\<forall>j. payload j \<noteq> []"
    and j: "j < next_missing seen + 32768" "next_missing seen \<le> j + 32768"
  shows "\<exists>c'. receive draws ns (Some (a, pk_data (stream_packet a (cn_protocol_id c) pid n base payload j)))
      (queued, c) = Inr (True, c') \<and>
    cn_protocol_id c' = cn_protocol_id c \<and> caught_up a pid n base payload es (j # seen) (True, c')"
proof -
  let ?m = "next_missing seen" and ?A = "set seen - {0..<next_missing seen}"
  let ?e = "es @ delivered pid payload [0..<next_missing seen]"
  obtain c1 where c1: "(if queued then drain c else (Inr (), c)) = (Inr (), c1)"
    "receiving a pid n base payload ?m ?A c1" "cn_protocol_id c1 = cn_protocol_id c" "cn_events c1 = ?e"
    using drain_caught_up [OF s ne] by blast
  obtain c' where c': "receive_datagram draws ns a (arrives a pid n base payload j c1) c1 = (True, Inr (), c')"
    "cn_protocol_id c' = cn_protocol_id c1"
    "if j = ?m then receiving a pid n base payload (Suc ?m) (?A - {?m}) c' \<and>
       cn_events c' = ?e @ delivered pid payload [?m]
     else receiving a pid n base payload ?m (if j < ?m then ?A else insert j ?A) c' \<and> cn_events c' = ?e"
    using receive_datagram_ok [OF c1(2) j ne] c1(4) by metis
  have seen: "{0..<?m} \<subseteq> set seen" "?m \<notin> set seen"
    by (fact next_missing)+
  have "caught_up a pid n base payload es (j # seen) (True, c')"
  proof (cases "j = ?m")
    case True
    with c'(3) have "receiving a pid n base payload (Suc ?m) (?A - {?m}) c'"
      "cn_events c' = es @ delivered pid payload [0..<Suc ?m]"
      by simp_all
    with seen True show ?thesis
      unfolding caught_up_def prod.case by (intro exI [of _ "Suc ?m"] exI [of _ "?A - {?m}"]) (auto simp: less_Suc_eq)
  next
    case False
    with c'(3) seen show ?thesis
      unfolding caught_up_def prod.case
      by (intro exI [of _ ?m] exI [of _ "if j < ?m then ?A else insert j ?A"]) auto
  qed
  moreover have "receive draws ns (Some (a, pk_data (stream_packet a (cn_protocol_id c) pid n base payload j)))
      (queued, c) = Inr (True, c')"
    using receive_after [OF c1(1)] c'(1) c1(3) by (simp add: arrives_def)
  ultimately show ?thesis
    using c1(3) c'(2) by (intro exI [of _ c']) simp
qed

text \<open>
  The turns of the receive thread at which the packets \<open>js\<close> of the stream arrive, with any random
  numbers and seconds, and a last one at which nothing does.
\<close>

definition stream_turns ::
  "address \<Rightarrow> u32 \<Rightarrow> session_t \<Rightarrow> u8 \<Rightarrow> u16 \<Rightarrow> (nat \<Rightarrow> u8 list) \<Rightarrow> (session_t list \<times> bool \<times> nat) list \<Rightarrow>
    (session_t list \<times> bool \<times> (address \<times> u8 list) option) list" where
  "stream_turns a proto pid n base payload turns =
     map (\<lambda>(draws, ns, j). (draws, ns, Some (a, pk_data (stream_packet a proto pid n base payload j)))) turns"

lemma receive_run_append: "receive_run (xs @ ys) s = rbind (receive_run xs s) (receive_run ys)"
  by (induction xs s rule: receive_run.induct) (simp_all add: rbind_def split: sum.splits)

lemma receive_run_caught_up:
  assumes "caught_up a pid n base payload es seen (queued, c)" and ne: "\<forall>j. payload j \<noteq> []"
    and "arrivals_ok seen (map (snd \<circ> snd) turns)"
  shows "\<exists>queued' c'. receive_run (stream_turns a (cn_protocol_id c) pid n base payload turns) (queued, c) =
      Inr (queued', c') \<and>
    caught_up a pid n base payload es (rev (map (snd \<circ> snd) turns) @ seen) (queued', c')"
  using assms(1,3)
proof (induction turns arbitrary: queued c seen)
  case Nil
  then show ?case by (simp add: stream_turns_def)
next
  case (Cons t turns)
  obtain draws ns j where t: "t = (draws, ns, j)" by (cases t)
  obtain c1 where c1: "receive draws ns (Some (a, pk_data (stream_packet a (cn_protocol_id c) pid n base payload j)))
      (queued, c) = Inr (True, c1)" "cn_protocol_id c1 = cn_protocol_id c"
    "caught_up a pid n base payload es (j # seen) (True, c1)"
    using receive_caught_up [OF Cons.prems(1) ne, of j draws ns] Cons.prems(2) t by auto
  have "\<exists>queued' c'. receive_run (stream_turns a (cn_protocol_id c1) pid n base payload turns) (True, c1) =
      Inr (queued', c') \<and>
    caught_up a pid n base payload es (rev (map (snd \<circ> snd) turns) @ (j # seen)) (queued', c')"
    using Cons.IH [OF c1(3)] Cons.prems(2) t by (simp add: comp_def)
  with c1 t show ?case
    by (simp add: stream_turns_def comp_def)
qed

lemma receive_nothing:
  assumes "caught_up a pid n base payload es seen (queued, c)" and "\<forall>j. payload j \<noteq> []"
  shows "\<exists>c'. receive draws ns None (queued, c) = Inr (False, c') \<and>
    cn_events c' = es @ delivered pid payload [0..<next_missing seen]"
proof -
  obtain c1 where "(if queued then drain c else (Inr (), c)) = (Inr (), c1)"
    "cn_events c1 = es @ delivered pid payload [0..<next_missing seen]"
    using drain_caught_up [OF assms] by blast
  then show ?thesis
    using receive_after(1) by blast
qed

text \<open>A connection with one new peer expects the stream from \<open>SEQNUM_INITIAL\<close> on each channel.\<close>

lemma new_peer_channel:
  "cn_peers c = [(pid, UDPPeer_new pid a)] \<Longrightarrow> get_ch r c = Inr ch \<Longrightarrow>
    incoming_reliables ch = rpb_new \<and> next_incoming_seqnum ch = SEQNUM_INITIAL"
  by (auto simp: get_ch_def get_channel_def UDPPeer_new_def setWindowSize_def Channel_new_def Let_def
      split: if_splits)

lemma receiving_new:
  assumes "cn_peers c = [(pid, UDPPeer_new pid a)]" and "cn_peer_ids c = [pid]"
    and "unat n < CHANNEL_COUNT" and "pid \<noteq> PEER_ID_INEXISTENT" and "pid < MAX_UDP_PEERS"
  shows "receiving a pid n SEQNUM_INITIAL payload 0 {} c"
proof -
  have wf: "conn_wf c"
    using assms(1,2) by (simp add: conn_wf_def peer_wf_new)
  obtain ch where ch: "get_ch (pid, unat n) c = Inr ch"
    using get_ch_wf [OF wf, of pid "unat n"] assms(2,3) by auto
  have "quiet (pid, unat n) c"
    using new_peer_channel [OF assms(1)] by (auto simp: quiet_def rpb_new_def rpb_getFirstSeqnum_def)
  moreover have "rpb_inv SEQNUM_INITIAL rpb_new"
    by (simp add: rpb_inv_def rpb_new_def oldest_of_def)
  ultimately show ?thesis
    using assms wf ch new_peer_channel [OF assms(1) ch] reliables.tracks_new
    by (simp add: receiving_def UDPPeer_new_def)
qed

text \<open>
  C1: Reliable packets of a peer are delivered exactly once and in order. Let the receive thread
  of a connection run while the packets \<open>js\<close> of a stream arrive, in any order, some lost, some more
  than once, none further than half the range of the sequence numbers from the first that is
  missing. Then the thread does not stop, and the events it makes are those of the packets before
  the first one that has not arrived, each once, in the order in which they were sent.
\<close>

theorem reliable_delivery:
  assumes "receiving a pid n base payload 0 {} c" and "\<forall>j. payload j \<noteq> []"
    and "arrivals_ok [] (map (snd \<circ> snd) turns)"
  shows "\<exists>c'. receive_run (stream_turns a (cn_protocol_id c) pid n base payload turns @ [(draws, ns, None)])
      (True, c) = Inr (False, c') \<and>
    cn_events c' =
      cn_events c @ map (\<lambda>j. ev_dataReceived pid (payload j)) [0..<next_missing (map (snd \<circ> snd) turns)]"
proof -
  have "caught_up a pid n base payload (cn_events c) [] (True, c)"
    using assms(1) by (auto simp: caught_up_def)
  then obtain queued c1 where run: "receive_run (stream_turns a (cn_protocol_id c) pid n base payload turns)
      (True, c) = Inr (queued, c1)"
    "caught_up a pid n base payload (cn_events c) (rev (map (snd \<circ> snd) turns) @ []) (queued, c1)"
    using receive_run_caught_up [of a pid n base payload "cn_events c" "[]" True c turns] assms(2,3) by blast
  moreover have "next_missing (rev (map (snd \<circ> snd) turns) @ []) = next_missing (map (snd \<circ> snd) turns)"
    by (intro next_missing_set) simp
  ultimately show ?thesis
    using receive_nothing [OF run(2) assms(2), of draws ns] by (auto simp: receive_run_append)
qed

lemma reliable_delivery_witness:
  "let c = (Connection_new 512)\<lparr>cn_peers := [(2, UDPPeer_new 2 9)], cn_peer_ids := [2]\<rparr>;
       payload = (\<lambda>j. [of_nat j, 7]);
       js = [2, 0, 1, 0, 5, 3, 3]
   in \<exists>c'. receive_run (stream_turns 9 PROTOCOL_ID 2 1 SEQNUM_INITIAL payload (map (\<lambda>j. ([], True, j)) js) @
         [([], False, None)]) (True, c) = Inr (False, c') \<and>
       cn_events c' = map (\<lambda>j. ev_dataReceived 2 (payload j)) [0, 1, 2, 3]"
proof -
  let ?c = "(Connection_new 512)\<lparr>cn_peers := [(2, UDPPeer_new 2 9)], cn_peer_ids := [2]\<rparr>"
  let ?turns = "map (\<lambda>j. ([] :: session_t list, True, j)) [2, 0, 1, 0, 5, 3, 3 :: nat]"
  have "receiving 9 2 1 SEQNUM_INITIAL (\<lambda>j. [of_nat j, 7]) 0 {} ?c"
    by (rule receiving_new) (simp_all add: CHANNEL_COUNT_def PEER_ID_INEXISTENT_def MAX_UDP_PEERS_def)
  moreover have "arrivals_ok [] (map (snd \<circ> snd) ?turns)" "next_missing (map (snd \<circ> snd) ?turns) = 4"
    by (simp_all add: next_missing_def upt_rec)
  ultimately show ?thesis
    using reliable_delivery [of "9" 2 1 SEQNUM_INITIAL "\<lambda>j. [of_nat j, 7]" ?c ?turns "[]" False]
    by (simp add: Connection_new_def upt_rec)
qed

end
