(* ===== verification/MtpThreads.thy ===== *)
theory MtpThreads
  imports MtpReceive
begin

text \<open>
  The loop of the send thread, and what every step of the user, of the send thread and of the
  receive thread keeps of a connection: it stays well-formed, and every buffered incoming
  packet stays filed under the peer and the channel it came from. From this follows that no
  datagram, however malformed, stops the receive thread.
\<close>

subsection \<open>Well-filed buffers\<close>

text \<open>
  The buffered packets of a channel came from its peer and for its number, and there are at
  most \<open>N\<close> of them.
\<close>

definition filed :: "nat \<Rightarrow> channel_ref \<Rightarrow> channel \<Rightarrow> bool" where
  "filed N r ch \<longleftrightarrow>
     length (rp_list (incoming_reliables ch)) \<le> N \<and>
     list_all (\<lambda>p. BASE_HEADER_SIZE + RELIABLE_HEADER_SIZE \<le> length (pk_data p) \<and>
         readPeerId (pk_data p) = fst r \<and> unat (readChannel (pk_data p)) = snd r)
       (rp_list (incoming_reliables ch))"

definition peer_ok :: "nat \<Rightarrow> session_t \<Rightarrow> udp_peer \<Rightarrow> bool" where
  "peer_ok N pid p \<longleftrightarrow>
     peer_wf pid p \<and> (\<forall>i < length (peer_channels p). filed N (pid, i) (peer_channels p ! i))"

definition conn_ok :: "nat \<Rightarrow> connection \<Rightarrow> bool" where
  "conn_ok N c \<longleftrightarrow>
     distinct (map fst (cn_peers c)) \<and> distinct (cn_peer_ids c) \<and>
     set (cn_peer_ids c) = fst ` set (cn_peers c) \<and> list_all (\<lambda>(pid, p). peer_ok N pid p) (cn_peers c)"

lemma conn_ok_wf: "conn_ok N c \<Longrightarrow> conn_wf c"
  by (auto simp: conn_ok_def conn_wf_def peer_ok_def list_all_iff)

lemma conn_ok_peer: "conn_ok N c \<Longrightarrow> map_of (cn_peers c) pid = Some p \<Longrightarrow> peer_ok N pid p"
  by (auto simp: conn_ok_def list_all_iff dest: map_of_SomeD)

lemma conn_ok_mono: "conn_ok N c \<Longrightarrow> N \<le> M \<Longrightarrow> conn_ok M c"
  by (fastforce simp: conn_ok_def peer_ok_def filed_def list_all_iff)

lemma getPeerNoEx_ok: "conn_ok N c \<Longrightarrow> getPeerNoEx pid c = Inr (map_of (cn_peers c) pid)"
  by (intro getPeerNoEx_wf conn_ok_wf)

lemma filed_new [simp]: "filed N r (setWindowSize w Channel_new)"
  by (simp add: filed_def setWindowSize_def Channel_new_def rpb_new_def)

lemma peer_ok_new: "peer_ok N pid (UDPPeer_new pid a)"
proof -
  have "filed N (pid, i) (peer_channels (UDPPeer_new pid a) ! i)" if "i < length (peer_channels (UDPPeer_new pid a))" for i
    using that by (simp add: UDPPeer_new_def)
  then show ?thesis
    by (simp add: peer_ok_def peer_wf_new)
qed

subsection \<open>Channel steps that leave the incoming buffer alone\<close>

text \<open>
  \<open>chan_step\<close> relates a channel to what an operation of the send thread or the handling of an
  acknowledgement makes of it.
\<close>

definition chan_step :: "channel \<Rightarrow> channel \<Rightarrow> bool" where
  "chan_step ch ch' \<longleftrightarrow>
     incoming_reliables ch' = incoming_reliables ch \<and> next_incoming_seqnum ch' = next_incoming_seqnum ch \<and>
     (window_ok ch \<longrightarrow> window_ok ch')"

named_theorems chan_steps \<open>the operations that are a step of a channel\<close>

lemma chan_step_refl [simp]: "chan_step ch ch"
  by (simp add: chan_step_def)

lemma chan_step_trans: "chan_step a b \<Longrightarrow> chan_step b c \<Longrightarrow> chan_step a c"
  by (simp add: chan_step_def)

lemma chan_step_fields [simp, intro]:
  "chan_step ch (ch\<lparr>outgoing_reliables_sent := b\<rparr>)"
  "chan_step ch (ch\<lparr>queued_reliables := ps\<rparr>)"
  "chan_step ch (ch\<lparr>queued_commands := cs\<rparr>)"
  "chan_step ch (ch\<lparr>incoming_splits := m\<rparr>)"
  "chan_step ch (ch\<lparr>next_outgoing_seqnum := q\<rparr>)"
  "chan_step ch (ch\<lparr>next_outgoing_split_seqnum := q\<rparr>)"
  by (simp_all add: chan_step_def window_ok_def)

lemma chan_step_counters [chan_steps]:
  "chan_step ch (UpdateBytesSent n k ch)"
  "chan_step ch (UpdateBytesReceived n ch)"
  "chan_step ch (UpdateBytesLost n ch)"
  "chan_step ch (UpdatePacketLossCounter n ch)"
  "chan_step ch (UpdatePacketTooLateCounter ch)"
  by (simp_all add: chan_step_def window_ok_def UpdateBytesSent_def UpdateBytesReceived_def UpdateBytesLost_def
      UpdatePacketLossCounter_def UpdatePacketTooLateCounter_def)

lemma chan_step_setWindowSize: "chan_step ch (setWindowSize d ch)"
  by (simp add: chan_step_def) (simp add: setWindowSize_def)

lemma chan_step_adjust: "chan_step ch (adjust_window ch)"
  by (simp add: chan_step_def adjust_window_def Let_def) (simp add: window_ok_def setWindowSize_def)

lemma chan_step_timers [chan_steps]: "chan_step ch (UpdateTimers s t ch)"
  using chan_step_adjust [of ch] by (simp add: UpdateTimers_def Let_def chan_step_def window_ok_def)

lemma chan_step_number: "number_chunks mk os ch = (ps, b, q, ch') \<Longrightarrow> chan_step ch ch'"
  using number_chunks_ok [of mk os ch ps b q ch'] by simp

lemma chan_step_putBack: "putBackSequenceNumber q ch = (b, ch') \<Longrightarrow> chan_step ch ch'"
  by (auto simp: putBackSequenceNumber_def split: if_splits)

lemma chan_step_put_back: "put_back q n ch = Inr ch' \<Longrightarrow> chan_step ch ch'"
  by (induction q n ch rule: put_back.induct)
    (auto split: prod.splits bool.splits intro: chan_step_trans chan_step_putBack)

lemma chan_step_originals: "make_originals c m ch = Inr (os, ch') \<Longrightarrow> chan_step ch ch'"
  using make_originals_channel [of c m ch os ch'] by auto

lemma chan_step_queue:
  "queue_reliable_command mk c m ch = Inr (b, ch') \<Longrightarrow> chan_step ch ch'"
proof -
  assume run: "queue_reliable_command mk c m ch = Inr (b, ch')"
  then obtain os ch1 where o: "make_originals c m ch = Inr (os, ch1)"
    by (auto simp: queue_reliable_command_def)
  obtain ps got q ch2 where n: "number_chunks mk os ch1 = (ps, got, q, ch2)"
    by (metis prod_cases4)
  have s: "chan_step ch ch2"
    using chan_step_originals [OF o] chan_step_number [OF n] by (rule chan_step_trans)
  moreover have "chan_step ch2 ch'"
    using run o n
    by (auto simp: queue_reliable_command_def Let_def split: if_splits option.splits intro: chan_step_put_back)
  ultimately show ?thesis
    by (rule chan_step_trans)
qed

subsection \<open>Peer steps\<close>

definition peer_step :: "udp_peer \<Rightarrow> udp_peer \<Rightarrow> bool" where
  "peer_step p p' \<longleftrightarrow>
     peer_id p' = peer_id p \<and> pending_deletion p' = pending_deletion p \<and>
     list_all2 chan_step (peer_channels p) (peer_channels p')"

lemma peer_step_refl [simp]: "peer_step p p"
  by (simp add: peer_step_def list_all2_refl)

lemma peer_step_trans: "peer_step a b \<Longrightarrow> peer_step b c \<Longrightarrow> peer_step a c"
  by (auto simp: peer_step_def intro: list_all2_trans [OF chan_step_trans])

lemma peer_step_fields [simp]:
  "peer_step p (p\<lparr>half_open := b\<rparr>)"
  "peer_step p (p\<lparr>pending_disconnect := b\<rparr>)"
  "peer_step p (p\<lparr>increment_packets_remaining := n\<rparr>)"
  by (simp_all add: peer_step_def list_all2_refl)

lemma peer_step_put_channel:
  "get_channel i p = Inr ch \<Longrightarrow> chan_step ch ch' \<Longrightarrow> peer_step p (put_channel i ch' p)"
  by (auto simp: peer_step_def put_channel_def get_channel_def list_all2_conv_all_nth nth_list_update split: if_splits)

lemma peer_step_then_put:
  "peer_step p b \<Longrightarrow> get_channel i b = Inr ch \<Longrightarrow> chan_step ch ch' \<Longrightarrow> peer_step p (put_channel i ch' b)"
  by (rule peer_step_trans [OF _ peer_step_put_channel])

lemma peer_ok_step:
  assumes "peer_ok N pid p" and "peer_step p p'"
  shows "peer_ok N pid p'"
proof -
  have "length (peer_channels p') = length (peer_channels p)"
    using assms(2) by (simp add: peer_step_def list_all2_conv_all_nth)
  moreover have "window_ok (peer_channels p' ! i) \<and> filed N (pid, i) (peer_channels p' ! i)"
    if "i < length (peer_channels p)" for i
    using assms that by (simp add: peer_step_def peer_ok_def peer_wf_def filed_def chan_step_def list_all2_conv_all_nth
        list_all_length)
  ultimately show ?thesis
    using assms by (simp add: peer_ok_def peer_wf_def peer_step_def list_all_length)
qed

lemma peer_step_split: "setNextSplitSequenceNumber i q p = Inr p' \<Longrightarrow> peer_step p p'"
  by (auto simp: setNextSplitSequenceNumber_def setNextSplitSeqNum_def intro: peer_step_put_channel split: if_splits)

lemma peer_step_addSplit: "addSplitPacket i pk rel p = Inr (d, p') \<Longrightarrow> peer_step p p'"
  by (auto simp: addSplitPacket_def intro: peer_step_put_channel split: if_splits)

lemma peer_step_process: "processReliableSendCommand pr own c m p = Inr (b, p') \<Longrightarrow> peer_step p p'"
  by (auto simp: processReliableSendCommand_def Let_def intro: peer_step_put_channel chan_step_queue split: if_splits)

lemma peer_step_Put: "PutReliableSendCommand pr own c m p = Inr p' \<Longrightarrow> peer_step p p'"
  by (auto simp: PutReliableSendCommand_def Let_def split: if_splits)
    (blast intro: peer_step_process peer_step_then_put [OF peer_step_process] peer_step_put_channel)+

lemma peer_step_queue: "run_command_queue pr own m t i p = Inr p' \<Longrightarrow> peer_step p p'"
  by (auto simp: run_command_queue_def split: list.splits if_splits)
    (blast intro: peer_step_process peer_step_then_put [OF peer_step_process] peer_step_put_channel)+

lemma peer_step_queues: "run_command_queues pr own m t js p = Inr p' \<Longrightarrow> peer_step p p'"
  by (induction js arbitrary: p) (auto intro: peer_step_trans peer_step_queue)

lemma peer_step_Run: "RunCommandQueues pr own m t p = Inr p' \<Longrightarrow> peer_step p p'"
  by (auto simp: RunCommandQueues_def intro: peer_step_queues)

lemma for_each_rel:
  assumes "\<And>x s s'. f x s = Inr s' \<Longrightarrow> R s s'" and "\<And>s. R s s" and "\<And>a b c. R a b \<Longrightarrow> R b c \<Longrightarrow> R a c"
  shows "for_each f xs s = Inr s' \<Longrightarrow> R s s'"
  by (induction xs arbitrary: s) (auto intro: assms)

lemma peer_step_fix: "fix_channel own i p = Inr p' \<Longrightarrow> peer_step p p'"
  by (auto simp: fix_channel_def intro: peer_step_put_channel)

subsection \<open>Connection steps of the send thread\<close>

text \<open>
  \<open>conn_step\<close>: the peers are the same but for steps of their channels, and no command, event or
  peer has come or gone.
\<close>

definition conn_step :: "connection \<Rightarrow> connection \<Rightarrow> bool" where
  "conn_step c c' \<longleftrightarrow>
     cn_peer_ids c' = cn_peer_ids c \<and> cn_commands c' = cn_commands c \<and> cn_events c' = cn_events c \<and>
     cn_peer_id c' = cn_peer_id c \<and>
     list_all2 (\<lambda>(q, p) (q', p'). q' = q \<and> peer_step p p') (cn_peers c) (cn_peers c')"

lemma peers_step_refl [simp]: "list_all2 (\<lambda>(q, p) (q', p'). q' = q \<and> peer_step p p') ps ps"
  by (auto intro: list_all2_refl)

lemma peers_step_trans:
  assumes "list_all2 (\<lambda>(q, p) (q', p'). q' = q \<and> peer_step p p') ps ps'"
    and "list_all2 (\<lambda>(q, p) (q', p'). q' = q \<and> peer_step p p') ps' ps''"
  shows "list_all2 (\<lambda>(q, p) (q', p'). q' = q \<and> peer_step p p') ps ps''"
  by (rule list_all2_trans [OF _ assms]) (auto intro: peer_step_trans)

lemma peers_step_ok:
  assumes "list_all2 (\<lambda>(q, p) (q', p'). q' = q \<and> peer_step p p') ps ps'"
  shows "map fst ps' = map fst ps"
    and "list_all (\<lambda>(pid, p). peer_ok N pid p) ps \<Longrightarrow> list_all (\<lambda>(pid, p). peer_ok N pid p) ps'"
  using assms by (induction rule: list_all2_induct) (auto intro: peer_ok_step)

lemma conn_step_refl [simp]: "conn_step c c"
  by (simp add: conn_step_def)

lemma conn_step_trans: "conn_step a b \<Longrightarrow> conn_step b c \<Longrightarrow> conn_step a c"
  using peers_step_trans [of "cn_peers a" "cn_peers b" "cn_peers c"] by (simp add: conn_step_def)

lemma conn_step_fields [simp]:
  "conn_step c (c\<lparr>cn_outgoing_queue := q\<rparr>)"
  "conn_step c (c\<lparr>cn_wire := w\<rparr>)"
  "conn_step c (c\<lparr>cn_iteration_packets := n\<rparr>)"
  by (simp_all add: conn_step_def)

lemma peers_step_update:
  "map_of ps pid = Some p \<Longrightarrow> peer_step p p' \<Longrightarrow>
    list_all2 (\<lambda>(q, p) (q', p'). q' = q \<and> peer_step p p') ps (AList.update pid p' ps)"
  by (induction ps) (auto split: if_splits)

lemma conn_step_put_peer:
  "map_of (cn_peers c) pid = Some p \<Longrightarrow> peer_step p p' \<Longrightarrow> conn_step c (put_peer pid p' c)"
  by (simp add: conn_step_def put_peer_def peers_step_update)

lemma conn_step_map_of:
  assumes "conn_step c c'"
  shows "rel_option peer_step (map_of (cn_peers c) pid) (map_of (cn_peers c') pid)"
proof -
  have "list_all2 (\<lambda>(q, p) (q', p'). q' = q \<and> peer_step p p') ps ps' \<Longrightarrow>
      rel_option peer_step (map_of ps pid) (map_of ps' pid)" for ps ps'
    by (induction rule: list_all2_induct) auto
  then show ?thesis
    using assms by (simp add: conn_step_def)
qed

lemma conn_ok_step:
  assumes "conn_ok N c" and "conn_step c c'"
  shows "conn_ok N c'"
proof -
  have "map fst (cn_peers c') = map fst (cn_peers c)" "list_all (\<lambda>(pid, p). peer_ok N pid p) (cn_peers c')"
    using assms by (auto simp: conn_step_def conn_ok_def intro: peers_step_ok)
  moreover have "fst ` set (cn_peers c') = fst ` set (cn_peers c)"
    using calculation(1) by (metis list.set_map)
  ultimately show ?thesis
    using assms by (simp add: conn_step_def conn_ok_def)
qed

lemma getPeerNoEx_Some: "getPeerNoEx pid c = Inr (Some p) \<Longrightarrow> map_of (cn_peers c) pid = Some p"
  by (auto simp: getPeerNoEx_def split: option.splits if_splits)

text \<open>An operation on one peer, and the loops.\<close>

lemma conn_step_peer:
  "getPeerNoEx pid c = Inr (Some p) \<Longrightarrow> peer_step p p' \<Longrightarrow> conn_step c (put_peer pid p' c)"
  by (rule conn_step_put_peer [OF getPeerNoEx_Some])

lemmas conn_step_for_each = for_each_rel [of _ conn_step, OF _ conn_step_refl conn_step_trans]

lemma conn_step_fold: "(\<And>x c. conn_step c (f x c)) \<Longrightarrow> conn_step c (fold f xs c)"
  by (induction xs arbitrary: c) (auto intro: conn_step_trans)

lemma conn_step_sendAsPacket [simp]: "conn_step c (sendAsPacket pid n d a c)"
  by (simp add: sendAsPacket_def)

lemma conn_step_rawSend [simp]: "conn_step c (rawSend p c)"
  by (simp add: rawSend_def)

lemma sendAsPacketReliable_steps:
  "sendAsPacketReliable p ch c = Inr (ch', c') \<Longrightarrow> chan_step ch ch' \<and> conn_step c c' \<and> cn_peers c' = cn_peers c"
  by (auto simp: sendAsPacketReliable_def rawSend_def)

lemma conn_step_peers: "conn_step c c' \<Longrightarrow> cn_peers d = cn_peers c' \<Longrightarrow> cn_peer_ids d = cn_peer_ids c' \<Longrightarrow>
    cn_commands d = cn_commands c' \<Longrightarrow> cn_events d = cn_events c' \<Longrightarrow> cn_peer_id d = cn_peer_id c' \<Longrightarrow> conn_step c d"
  by (simp add: conn_step_def)

lemma conn_step_rawSendAsPacket: "rawSendAsPacket pid n d rel c = Inr (b, c') \<Longrightarrow> conn_step c c'"
proof -
  assume run: "rawSendAsPacket pid n d rel c = Inr (b, c')"
  then obtain peer where peer: "getPeerNoEx pid c = Inr peer"
    by (auto simp: rawSendAsPacket_def)
  show ?thesis
  proof (cases peer)
    case None
    with run peer show ?thesis by (simp add: rawSendAsPacket_def)
  next
    case (Some p)
    then obtain ch where ch: "get_channel (unat n) p = Inr ch"
      using run peer by (auto simp: rawSendAsPacket_def Let_def)
    have put: "conn_step c (put_peer pid (put_channel (unat n) ch' p) c)" if "chan_step ch ch'" for ch'
      using conn_step_peer peer Some peer_step_put_channel [OF ch that] by blast
    show ?thesis
    proof (cases rel)
      case False
      with run peer Some ch show ?thesis by (auto simp: rawSendAsPacket_def)
    next
      case True
      obtain q ok ch1 where g: "getOutgoingSequenceNumber ch = (q, ok, ch1)"
        by (metis prod_cases3)
      have s1: "chan_step ch ch1"
        using g getOutgoing_ok [of ch q ch1] by (cases ok) auto
      let ?pk = "makePacket (peer_address p) (makeReliablePacket d q) (cn_protocol_id c) (cn_peer_id c) n"
      consider "c' = put_peer pid (put_channel (unat n) ch1 p) c"
        | "c' = put_peer pid (put_channel (unat n) (ch1\<lparr>queued_reliables := queued_reliables ch1 @ [?pk]\<rparr>) p) c"
        | ch2 c1 where "sendAsPacketReliable ?pk ch1 c = Inr (ch2, c1)" "c' = put_peer pid (put_channel (unat n) ch2 p) c1"
        using run peer Some ch True g
        by (cases ok) (auto simp: rawSendAsPacket_def Let_def split: if_splits)
      then show ?thesis
      proof cases
        case 3
        then have "chan_step ch1 ch2" "conn_step c c1" "cn_peers c1 = cn_peers c"
          using sendAsPacketReliable_steps by blast+
        with 3(2) show ?thesis
          using conn_step_put_peer [of c1 pid p] peer_step_put_channel [OF ch chan_step_trans [OF s1]] peer Some
          by (auto intro: conn_step_trans dest!: getPeerNoEx_Some)
      qed (use put s1 in \<open>auto intro: chan_step_trans\<close>)
    qed
  qed
qed

lemma conn_step_st_send: "st_send pid n d c = Inr c' \<Longrightarrow> conn_step c c'"
proof -
  have send: "conn_step c (fold (\<lambda>x. sendAsPacket pid n x False) os c)" for os c
    by (rule conn_step_fold) simp
  assume "st_send pid n d c = Inr c'"
  then show ?thesis
    by (auto simp: st_send_def split: if_splits option.splits
        intro!: conn_step_trans [OF conn_step_peer [OF _ peer_step_split] send])
qed

lemma conn_step_sendReliable: "sendReliable cmd c = Inr c' \<Longrightarrow> conn_step c c'"
  by (auto simp: sendReliable_def split: option.splits) (blast intro: conn_step_peer peer_step_Put)

lemma conn_step_sendToAll: "sendToAll n d c = Inr c' \<Longrightarrow> conn_step c c'"
  unfolding sendToAll_def by (rule conn_step_for_each [OF conn_step_st_send])

lemma conn_step_on_peer:
  assumes "\<And>p p'. f c p = Inr p' \<Longrightarrow> peer_step p p'"
    and "rbind (getPeerNoEx pid c) (\<lambda>peer. case peer of
      None \<Rightarrow> Inr c | Some p \<Rightarrow> rbind (f c p) (\<lambda>p1. Inr (put_peer pid p1 c))) = Inr c'"
  shows "conn_step c c'"
  using assms(2) by (auto split: option.splits) (blast intro: conn_step_peer assms(1))

lemma conn_step_sendToAllReliable: "sendToAllReliable cmd c = Inr c' \<Longrightarrow> conn_step c c'"
  unfolding sendToAllReliable_def by (rule conn_step_for_each [OF conn_step_on_peer [OF peer_step_Put]])

lemma conn_step_disconnect: "conn_step c (st_disconnect c)"
  unfolding st_disconnect_def by (rule conn_step_fold) simp

lemma conn_step_disconnect_peer: "st_disconnect_peer pid c = Inr c' \<Longrightarrow> conn_step c c'"
  by (auto simp: st_disconnect_peer_def Let_def split: option.splits
      intro!: conn_step_trans [OF conn_step_sendAsPacket conn_step_peer])

lemma peer_step_fix_channels: "for_each (fix_channel own) xs p = Inr p' \<Longrightarrow> peer_step p p'"
  by (rule for_each_rel [OF peer_step_fix peer_step_refl peer_step_trans])

lemma conn_step_fix_peer_id: "fix_peer_id own c = Inr c' \<Longrightarrow> conn_step c c'"
  unfolding fix_peer_id_def by (rule conn_step_for_each [OF conn_step_on_peer [OF peer_step_fix_channels]])

lemma resendReliable_steps:
  "resendReliable k ch c = (ch', c') \<Longrightarrow> chan_step ch ch' \<and> conn_step c c' \<and> cn_peers c' = cn_peers c"
  by (auto simp: resendReliable_def rawSend_def intro: chan_steps)

lemma conn_step_put_other:
  "getPeerNoEx pid c = Inr (Some p) \<Longrightarrow> conn_step c c1 \<Longrightarrow> cn_peers c1 = cn_peers c \<Longrightarrow> peer_step p p' \<Longrightarrow>
    conn_step c (put_peer pid p' c1)"
  using conn_step_put_peer [of c1 pid p p'] by (auto intro: conn_step_trans dest!: getPeerNoEx_Some)

lemma conn_step_put_channel:
  "getPeerNoEx pid c = Inr (Some p) \<Longrightarrow> get_channel i p = Inr ch \<Longrightarrow> chan_step ch ch' \<Longrightarrow> conn_step c c1 \<Longrightarrow>
    cn_peers c1 = cn_peers c \<Longrightarrow> conn_step c (put_peer pid (put_channel i ch' p) c1)"
  by (blast intro: conn_step_put_other peer_step_put_channel)

lemma conn_step_resend_one: "st_resend_one pid n c = Inr c' \<Longrightarrow> conn_step c c'"
proof -
  assume run: "st_resend_one pid n c = Inr c'"
  show ?thesis
  proof (cases "getPeerNoEx pid c = Inr None")
    case True
    with run show ?thesis by (simp add: st_resend_one_def)
  next
    case False
    then obtain p ch where p: "getPeerNoEx pid c = Inr (Some p)" "get_channel (unat n) p = Inr ch"
      using run by (auto simp: st_resend_one_def Let_def split: option.splits)
    obtain ks b where k: "rpb_getResend (\<lambda>_. True) 1 (outgoing_reliables_sent ch) = (ks, b)"
      by force
    obtain ch2 c1 where r: "resendReliable (hd ks) (ch\<lparr>outgoing_reliables_sent := b\<rparr>) c = (ch2, c1)"
      by force
    then have "chan_step ch ch2" "conn_step c c1" "cn_peers c1 = cn_peers c"
      using resendReliable_steps [OF r] chan_step_trans [OF chan_step_fields(1)] by blast+
    moreover have "c' = put_peer pid (put_channel (unat n) (ch\<lparr>outgoing_reliables_sent := b\<rparr>) p) c \<or>
        c' = put_peer pid (put_channel (unat n) ch2 p) c1"
      using run p k r by (auto simp: st_resend_one_def Let_def split: list.splits if_splits)
    ultimately show ?thesis
      using conn_step_put_channel [OF p] chan_step_fields(1) conn_step_refl by metis
  qed
qed

lemma conn_step_reliable: "processReliableCommand cmd c = Inr c' \<Longrightarrow> conn_step c c'"
  by (auto simp: processReliableCommand_def split: if_splits command_type.splits
      intro: conn_step_sendReliable conn_step_sendToAllReliable conn_step_resend_one conn_step_rawSendAsPacket
        conn_step_trans [OF conn_step_rawSendAsPacket conn_step_sendReliable])

subsection \<open>The queues of the send thread\<close>

lemma send_queued_steps:
  "send_queued ps ch n c = Inr (ch', n', c') \<Longrightarrow> chan_step ch ch' \<and> conn_step c c' \<and> cn_peers c' = cn_peers c"
proof (induction ps ch n c rule: send_queued.induct)
  case (2 p ps ch n c)
  show ?case
  proof (cases "rpb_size (outgoing_reliables_sent ch) < unat (window_size ch) \<and> n > 0")
    case True
    then obtain ch1 c1 where s: "sendAsPacketReliable p ch c = Inr (ch1, c1)" "send_queued ps ch1 (n - 1) c1 = Inr (ch', n', c')"
      using "2.prems" by auto
    then have "chan_step ch1 ch' \<and> conn_step c1 c' \<and> cn_peers c' = cn_peers c1"
      using "2.IH" [OF True] by simp
    then show ?thesis
      using sendAsPacketReliable_steps [OF s(1)] by (metis chan_step_trans conn_step_trans)
  next
    case False
    with "2.prems" show ?thesis by auto
  qed
qed auto

lemma conn_step_send_channel: "send_channel pid i c = Inr c' \<Longrightarrow> conn_step c c'"
proof -
  assume run: "send_channel pid i c = Inr c'"
  show ?thesis
  proof (cases "getPeerNoEx pid c = Inr None")
    case True
    with run show ?thesis by (simp add: send_channel_def)
  next
    case False
    then obtain p ch ch1 n c1 where p: "getPeerNoEx pid c = Inr (Some p)" "get_channel i p = Inr ch"
      "send_queued (queued_reliables ch) ch (increment_packets_remaining p) c = Inr (ch1, n, c1)"
      "c' = put_peer pid (put_channel i ch1 (p\<lparr>increment_packets_remaining := n\<rparr>)) c1"
      using run by (auto simp: send_channel_def split: option.splits)
    have "peer_step (p\<lparr>increment_packets_remaining := n\<rparr>) (put_channel i ch1 (p\<lparr>increment_packets_remaining := n\<rparr>))"
      using p(2) send_queued_steps [OF p(3)] by (intro peer_step_put_channel [of _ _ ch]) (simp_all add: get_channel_def split: if_splits)
    then have "peer_step p (put_channel i ch1 (p\<lparr>increment_packets_remaining := n\<rparr>))"
      using peer_step_fields(3) peer_step_trans by blast
    then show ?thesis
      using p(1,4) send_queued_steps [OF p(3)] conn_step_put_other by blast
  qed
qed

lemma conn_step_send_channels: "for_each (send_channel pid) xs c = Inr c' \<Longrightarrow> conn_step c c'"
  by (rule conn_step_for_each [OF conn_step_send_channel])

text \<open>The loops whose state is a pair.\<close>

lemma snd_step_for_each:
  assumes "\<And>x s s'. f x s = Inr s' \<Longrightarrow> conn_step (snd s) (snd s')"
  shows "for_each f xs s = Inr s' \<Longrightarrow> conn_step (snd s) (snd s')"
  by (rule for_each_rel [where R = "\<lambda>s s'. conn_step (snd s) (snd s')"]) (auto intro: assms conn_step_trans)

lemma conn_step_send_peer: "send_peer q pid s = Inr s' \<Longrightarrow> conn_step (snd s) (snd s')"
proof -
  assume run: "send_peer q pid s = Inr s'"
  obtain pending c where s: "s = (pending, c)" by (cases s)
  show ?thesis
  proof (cases "getPeerNoEx pid c = Inr None")
    case True
    with run s show ?thesis by (auto simp: send_peer_def)
  next
    case False
    then obtain p c1 where "getPeerNoEx pid c = Inr (Some p)" "snd s' = c1"
      "for_each (send_channel pid) [0..<CHANNEL_COUNT] (put_peer pid (p\<lparr>increment_packets_remaining := q\<rparr>) c) = Inr c1"
      using run s by (auto simp: send_peer_def split: option.splits)
    then show ?thesis
      using s conn_step_trans [OF conn_step_peer [OF _ peer_step_fields(3)] conn_step_send_channels] by simp
  qed
qed

lemma rawSendAsPacket_unreliable: "rawSendAsPacket pid n d False c = Inr (b, c') \<Longrightarrow> cn_peers c' = cn_peers c"
  by (auto simp: rawSendAsPacket_def Let_def rawSend_def split: option.splits)

lemma conn_step_send_outgoing: "send_outgoing stop pk s = Inr s' \<Longrightarrow> conn_step (snd s) (snd s')"
proof -
  assume run: "send_outgoing stop pk s = Inr s'"
  obtain pending c where s: "s = (pending, c)" by (cases s)
  show ?thesis
  proof (cases "op_reliable pk \<or> getPeerNoEx (op_peer_id pk) c = Inr None")
    case True
    with run s show ?thesis by (cases "op_reliable pk") (auto simp: send_outgoing_def)
  next
    case False
    then obtain p where p: "getPeerNoEx (op_peer_id pk) c = Inr (Some p)"
      using run s by (auto simp: send_outgoing_def split: option.splits if_splits)
    show ?thesis
    proof (cases "op_ack pk \<or> increment_packets_remaining p > 0 \<or> stop")
      case True
      then obtain b c1 where c1: "rawSendAsPacket (op_peer_id pk) (op_channelnum pk) (op_data pk) False c = Inr (b, c1)"
        "snd s' = (if increment_packets_remaining p > 0
           then put_peer (op_peer_id pk) (p\<lparr>increment_packets_remaining := increment_packets_remaining p - 1\<rparr>) c1
           else c1)"
        using run s p False unfolding send_outgoing_def prod.case by (simp del: split_paired_Ex) fastforce
      then show ?thesis
        using s conn_step_rawSendAsPacket [OF c1(1)]
          conn_step_put_other [OF p _ rawSendAsPacket_unreliable [OF c1(1)] peer_step_fields(3)]
        by simp
    next
      case unsent: False
      then have "snd s' = c\<lparr>cn_outgoing_queue := cn_outgoing_queue c @ [pk]\<rparr>"
        using run s p False unfolding send_outgoing_def prod.case by auto
      then show ?thesis by (simp add: s)
    qed
  qed
qed

lemma conn_step_send_outgoings: "for_each (send_outgoing stop) pks s = Inr s' \<Longrightarrow> conn_step (snd s) (snd s')"
  by (rule snd_step_for_each [where f = "send_outgoing stop"]) (rule conn_step_send_outgoing)

lemma timeouts_fold: "fold (\<lambda>k (ch, c). resendReliable k ch c) ks (ch, c) = (ch', c') \<Longrightarrow>
    chan_step ch ch' \<and> conn_step c c' \<and> cn_peers c' = cn_peers c"
proof (induction ks arbitrary: ch c)
  case (Cons k ks)
  obtain ch1 c1 where r: "resendReliable k ch c = (ch1, c1)" by force
  then have "chan_step ch1 ch' \<and> conn_step c1 c' \<and> cn_peers c' = cn_peers c1"
    using Cons by simp
  then show ?case
    using resendReliable_steps [OF r] by (metis chan_step_trans conn_step_trans)
qed simp

lemma conn_step_iteration [simp]: "conn_step c (use_iteration_packets n c)" "cn_peers (use_iteration_packets n c) = cn_peers c"
  by (simp_all add: use_iteration_packets_def)

lemma conn_step_timeouts_channel: "timeouts_channel ck q pid i c = Inr c' \<Longrightarrow> conn_step c c'"
proof -
  assume run: "timeouts_channel ck q pid i c = Inr c'"
  show ?thesis
  proof (cases "getPeerNoEx pid c = Inr None")
    case True
    with run show ?thesis by (simp add: timeouts_channel_def)
  next
    case False
    then obtain p ch where p: "getPeerNoEx pid c = Inr (Some p)" "get_channel i p = Inr ch"
      using run by (auto simp: timeouts_channel_def split: option.splits)
    obtain ks b where k: "rpb_getResend (ck_due ck pid i) q (outgoing_reliables_sent ch) = (ks, b)"
      by force
    define ch1 where "ch1 = UpdatePacketLossCounter (of_nat (length ks))
      (ch\<lparr>incoming_splits := isb_removeUnreliableTimedOuts (ck_expired ck pid i) (incoming_splits ch),
          outgoing_reliables_sent := b\<rparr>)"
    obtain ch2 c1 where r: "fold (\<lambda>k (ch, c). resendReliable k ch c) ks (ch1, use_iteration_packets (length ks) c) = (ch2, c1)"
      by force
    have s1: "chan_step ch ch1"
      by (simp add: ch1_def chan_step_def window_ok_def UpdatePacketLossCounter_def)
    then have s2: "chan_step ch (UpdateTimers s t ch2)" for s t
      using timeouts_fold [OF r] chan_step_timers chan_step_trans by blast
    have c1: "conn_step c c1" "cn_peers c1 = cn_peers c"
      using timeouts_fold [OF r] conn_step_trans [OF conn_step_iteration(1)] by auto
    have "c' = put_peer pid (put_channel i ch1 p) c \<or>
        c' = put_peer pid (put_channel i (UpdateTimers (ck_second ck pid i) (ck_ten_seconds ck pid i) ch2) p) c1"
      using run p k r unfolding timeouts_channel_def Let_def ch1_def [symmetric]
      by (auto simp flip: ch1_def split: if_splits)
    then show ?thesis
      using conn_step_put_channel [OF p s1 conn_step_refl] conn_step_put_channel [OF p s2 c1] by blast
  qed
qed

lemma conn_step_timeouts_channels: "for_each (timeouts_channel ck q pid) xs c = Inr c' \<Longrightarrow> conn_step c c'"
  by (rule conn_step_for_each [OF conn_step_timeouts_channel])

lemma conn_step_timeouts_peer: "timeouts_peer ck q pid s = Inr s' \<Longrightarrow> conn_step (snd s) (snd s')"
proof -
  assume run: "timeouts_peer ck q pid s = Inr s'"
  obtain timeouted c where s: "s = (timeouted, c)" by (cases s)
  show ?thesis
  proof (cases "getPeerNoEx pid c = Inr None")
    case True
    with run s show ?thesis by (auto simp: timeouts_peer_def)
  next
    case False
    then obtain p where p: "getPeerNoEx pid c = Inr (Some p)"
      using run s by (auto simp: timeouts_peer_def split: option.splits)
    show ?thesis
    proof (cases "ck_timed_out ck pid")
      case True
      with run s p show ?thesis by (auto simp: timeouts_peer_def)
    next
      case timely: False
      obtain c1 c2 where c1: "for_each (timeouts_channel ck q pid) [0..<CHANNEL_COUNT] c = Inr c1"
        and c2: "(if \<not> half_open p \<and> ck_ping ck pid
                    then rbind (rawSendAsPacket pid 0 [PACKET_TYPE_CONTROL, CONTROLTYPE_PING] True c1) (\<lambda>(_, c'). Inr c')
                    else Inr c1) = Inr c2"
        and rest: "rbind (getPeerNoEx pid c2) (\<lambda>peer2. case peer2 of
                 None \<Rightarrow> Inr (timeouted, c2)
               | Some p2 \<Rightarrow>
                   rbind (RunCommandQueues (cn_protocol_id c2) (cn_peer_id c2) (cn_max_packet_size c2)
                            M_MAX_PACKETS_REQUEUED p2) (\<lambda>p3.
                     Inr (timeouted, put_peer pid p3 c2))) = Inr s'"
        using run s p timely unfolding timeouts_peer_def by auto
      have "conn_step c1 c2"
        using c2 by (auto split: if_splits dest: conn_step_rawSendAsPacket)
      moreover have "conn_step c2 (snd s')"
        using rest by (auto split: option.splits) (blast intro: conn_step_peer peer_step_Run)
      ultimately show ?thesis
        using conn_step_timeouts_channels [OF c1] s conn_step_trans by (metis snd_conv)
    qed
  qed
qed

subsection \<open>Peers that come and go\<close>

lemma conn_ok_same_peers:
  "cn_peers c' = cn_peers c \<Longrightarrow> cn_peer_ids c' = cn_peer_ids c \<Longrightarrow> conn_ok N c' = conn_ok N c"
  by (simp add: conn_ok_def)

lemma conn_ok_fields [simp]:
  "conn_ok N (c\<lparr>cn_events := es\<rparr>) = conn_ok N c"
  "conn_ok N (c\<lparr>cn_commands := cs\<rparr>) = conn_ok N c"
  "conn_ok N (c\<lparr>cn_peer_id := i\<rparr>) = conn_ok N c"
  "conn_ok N (c\<lparr>cn_new_peers := n\<rparr>) = conn_ok N c"
  "conn_ok N (c\<lparr>cn_iteration_packets := q\<rparr>) = conn_ok N c"
  "conn_ok N (c\<lparr>cn_outgoing_queue := os\<rparr>) = conn_ok N c"
  "conn_ok N (c\<lparr>cn_shutting_down := b\<rparr>) = conn_ok N c"
  by (simp_all add: conn_ok_def)

lemma conn_ok_putCommand [simp]: "conn_ok N (putCommand cmd c) = conn_ok N c"
  by (simp add: putCommand_def)

lemma conn_ok_putEvent: "putEvent e c = Inr c' \<Longrightarrow> conn_ok N c' = conn_ok N c"
  by (auto simp: putEvent_Inr)

lemma conn_ok_delete:
  assumes "conn_ok N c"
  shows "conn_ok N (c\<lparr>cn_peers := AList.delete pid (cn_peers c), cn_peer_ids := remove1 pid (cn_peer_ids c)\<rparr>)"
proof -
  have keys: "distinct (map fst (AList.delete pid (cn_peers c)))"
    "fst ` set (AList.delete pid (cn_peers c)) = fst ` set (cn_peers c) - {pid}"
    using assms arg_cong [OF delete_keys [of pid "cn_peers c"], of set]
    by (simp_all add: conn_ok_def distinct_delete)
  moreover have "set (AList.delete pid (cn_peers c)) \<subseteq> set (cn_peers c)"
    by (auto simp: AList.delete_eq)
  then have "list_all (\<lambda>(pid, p). peer_ok N pid p) (AList.delete pid (cn_peers c))"
    using assms by (auto simp: conn_ok_def list_all_iff)
  ultimately show ?thesis
    using assms by (simp add: conn_ok_def)
qed

lemma deletePeer_ok:
  assumes "conn_ok N c"
  shows "\<exists>b c'. deletePeer pid t c = Inr (b, c') \<and> conn_ok N c' \<and> cn_commands c' = cn_commands c"
proof (cases "map_of (cn_peers c) pid")
  case None
  with assms show ?thesis by (intro exI [of _ False] exI [of _ c]) (simp add: deletePeer_def)
next
  case (Some p)
  then have "pid \<in> set (cn_peer_ids c)"
    using assms by (force simp: conn_ok_def dest: map_of_SomeD)
  with Some conn_ok_delete [OF assms, of pid] show ?thesis
    by (intro exI [of _ True]) (simp add: deletePeer_def putEvent_def ev_peerRemoved_def ev_create_def)
qed

lemma update_absent: "k \<notin> fst ` set al \<Longrightarrow> AList.update k v al = al @ [(k, v)]"
  by (induction al) auto

lemma conn_ok_add:
  assumes "conn_ok N c" and "map_of (cn_peers c) pid = None" and "peer_ok N pid p"
  shows "conn_ok N ((put_peer pid p c)\<lparr>cn_peer_ids := cn_peer_ids c @ [pid]\<rparr>)"
proof -
  have "pid \<notin> fst ` set (cn_peers c)"
    using assms(2) by (simp add: map_of_eq_None_iff)
  moreover from this have "AList.update pid p (cn_peers c) = cn_peers c @ [(pid, p)]"
    by (rule update_absent)
  ultimately show ?thesis
    using assms(1,3) by (auto simp: conn_ok_def put_peer_def)
qed

lemma createPeer_ok:
  assumes "conn_ok N c"
  shows "\<exists>pid c'. createPeer draws a c = Inr (pid, c') \<and> conn_ok N c' \<and> cn_protocol_id c' = cn_protocol_id c \<and>
    (pid = PEER_ID_INEXISTENT \<or> pid \<in> set draws)"
proof (cases "find (\<lambda>i. map_of (cn_peers c) i = None) (take 100 draws)")
  case None
  with assms show ?thesis
    by (intro exI [of _ PEER_ID_INEXISTENT] exI [of _ c]) (simp add: createPeer_def)
next
  case (Some pid)
  then have new: "map_of (cn_peers c) pid = None" "pid \<in> set draws"
    by (auto simp: find_Some_iff dest: in_set_takeD [OF nth_mem])
  let ?c2 = "(put_peer pid (UDPPeer_new pid a) c)\<lparr>cn_peer_ids := cn_peer_ids c @ [pid]\<rparr>"
  have "cn_peer_ids (put_peer pid (UDPPeer_new pid a) c) = cn_peer_ids c"
    "cn_protocol_id (put_peer pid (UDPPeer_new pid a) c) = cn_protocol_id c"
    by (simp_all add: put_peer_def)
  then show ?thesis
    using conn_ok_add [OF assms new(1) peer_ok_new [of N pid a]] Some new(2)
    by (simp add: createPeer_def Let_def putEvent_def ev_peerAdded_def ev_create_def putCommand_def)
qed

lemma createServerPeer_ok:
  assumes "conn_ok N c" and "createServerPeer a c = Inr (p, c')"
  shows "conn_ok N c' \<and> cn_commands c' = cn_commands c"
proof -
  let ?p = "(UDPPeer_new PEER_ID_SERVER a)\<lparr>half_open := False\<rparr>"
  have new: "map_of (cn_peers c) PEER_ID_SERVER = None"
    using assms by (auto simp: createServerPeer_def ConnectedToServer_def getPeerNoEx_ok split: if_splits)
  have "peer_ok N PEER_ID_SERVER ?p"
    by (rule peer_ok_step [OF peer_ok_new peer_step_fields(1)])
  moreover have "c' = (put_peer PEER_ID_SERVER ?p c)\<lparr>cn_peer_ids := cn_peer_ids c @ [PEER_ID_SERVER]\<rparr>"
    using assms by (auto simp: createServerPeer_def Let_def UDPPeer_new_def put_peer_def split: if_splits)
  ultimately show ?thesis
    using conn_ok_add [OF assms(1) new] by (simp add: put_peer_def)
qed

subsection \<open>The send thread\<close>

text \<open>Commands that lead to a further command count twice.\<close>

definition command_weight :: "command \<Rightarrow> nat" where
  "command_weight cmd = (if cmd_type cmd = CONNCMD_SERVE \<or> cmd_type cmd = CONNCMD_CONNECT then 2 else 1)"

abbreviation pending_weight :: "connection \<Rightarrow> nat" where
  "pending_weight c \<equiv> sum_list (map command_weight (cn_commands c))"

definition works_off :: "nat \<Rightarrow> connection \<Rightarrow> connection \<Rightarrow> bool" where
  "works_off N c c' \<longleftrightarrow> (conn_ok N c \<longrightarrow> conn_ok N c') \<and> pending_weight c' \<le> pending_weight c"

lemma works_off_step: "conn_step c c' \<Longrightarrow> works_off N c c'"
  using conn_ok_step [of N c c'] by (auto simp: works_off_def conn_step_def)

lemma serve_weight: "st_serve bind_ok c = Inr c' \<Longrightarrow> (conn_ok N c \<longrightarrow> conn_ok N c') \<and> pending_weight c' \<le> pending_weight c + 1"
  by (auto simp: st_serve_def SetPeerID_def PEER_ID_SERVER_def PEER_ID_INEXISTENT_def putEvent_Inr putCommand_def
      Let_def command_weight_def cmd_peer_id_set_def cmd_create_def split: if_splits)

lemma createServerPeer_commands: "createServerPeer a c = Inr (p, c') \<Longrightarrow> cn_commands c' = cn_commands c"
  by (auto simp: createServerPeer_def Let_def put_peer_def split: if_splits)

lemma connect_weight:
  assumes "st_connect bind_ok a c = Inr c'"
  shows "(conn_ok N c \<longrightarrow> conn_ok N c') \<and> pending_weight c' \<le> pending_weight c + 1"
proof -
  obtain p c1 c2 where c: "createServerPeer a c = Inr (p, c1)"
    "putEvent (ev_peerAdded (peer_id p) (peer_address p)) c1 = Inr c2"
    "Send PEER_ID_SERVER 0 0 [] True (SetPeerID PEER_ID_INEXISTENT c2) = Inr c'"
    using assms by (auto simp: st_connect_def split: if_splits)
  have "cn_commands c' = cn_commands c2 \<or> cn_commands c' = cn_commands c2 @ [cmd_send PEER_ID_SERVER 0 [] True]"
    "conn_ok N c' = conn_ok N c2"
    using c(3) by (auto simp: Send_def SetPeerID_def putCommand_def split: if_splits)
  then show ?thesis
    using c(1,2) createServerPeer_ok [OF _ c(1)] createServerPeer_commands [OF c(1)]
    by (auto simp: putEvent_Inr command_weight_def cmd_send_def cmd_create_def)
qed

lemma conn_step_nonreliable:
  "processNonReliableCommand bind_ok cmd c = Inr c' \<Longrightarrow> cmd_type cmd \<noteq> CONNCMD_SERVE \<Longrightarrow>
    cmd_type cmd \<noteq> CONNCMD_CONNECT \<Longrightarrow> conn_step c c'"
  by (auto simp: processNonReliableCommand_def split: if_splits command_type.splits
      intro: conn_step_disconnect conn_step_disconnect_peer conn_step_fix_peer_id conn_step_st_send
        conn_step_sendToAll conn_step_rawSendAsPacket conn_step_trans [OF conn_step_rawSendAsPacket conn_step_st_send])

lemma nonreliable_weight:
  assumes "processNonReliableCommand bind_ok cmd c = Inr c'"
  shows "(conn_ok N c \<longrightarrow> conn_ok N c') \<and> Suc (pending_weight c') \<le> pending_weight c + command_weight cmd"
proof (cases "cmd_type cmd = CONNCMD_SERVE \<or> cmd_type cmd = CONNCMD_CONNECT")
  case True
  then show ?thesis
    using assms serve_weight [of bind_ok c c' N] connect_weight [of bind_ok "cmd_address cmd" c c' N]
    by (auto simp: processNonReliableCommand_def command_weight_def split: if_splits)
next
  case False
  then have "conn_step c c'"
    using assms by (intro conn_step_nonreliable) auto
  with False show ?thesis
    using works_off_step [of c c' N] by (simp add: works_off_def command_weight_def)
qed

lemma process_next_command_ok:
  assumes "process_next_command bind_ok c = Inr c'"
  shows "conn_ok N c \<Longrightarrow> conn_ok N c'" and "cn_commands c \<noteq> [] \<Longrightarrow> pending_weight c' < pending_weight c"
proof -
  have "(conn_ok N c \<longrightarrow> conn_ok N c') \<and> (cn_commands c \<noteq> [] \<longrightarrow> pending_weight c' < pending_weight c)"
  proof (cases "cn_commands c")
    case Nil
    with assms show ?thesis by (simp add: process_next_command_def)
  next
    case (Cons cmd cmds)
    let ?c1 = "c\<lparr>cn_commands := cmds\<rparr>"
    have "Suc (pending_weight ?c1) \<le> pending_weight c"
      using Cons by (simp add: command_weight_def)
    then show ?thesis
      using assms Cons nonreliable_weight [of bind_ok cmd ?c1 c' N] works_off_step [OF conn_step_reliable, of cmd ?c1 c' N]
      by (auto simp: process_next_command_def works_off_def Let_def split: if_splits)
  qed
  then show "conn_ok N c \<Longrightarrow> conn_ok N c'" and "cn_commands c \<noteq> [] \<Longrightarrow> pending_weight c' < pending_weight c"
    by simp_all
qed

text \<open>
  The loop over the commands, which ends at an empty queue or at a command of type
  \<open>CONNCMD_NONE\<close>, and one turn of the send thread.
\<close>

function process_commands :: "bool \<Rightarrow> connection \<Rightarrow> connection res" where
  "process_commands bind_ok c =
     (case cn_commands c of
        [] \<Rightarrow> Inr c
      | cmd # _ \<Rightarrow>
          if cmd_type cmd = CONNCMD_NONE then process_next_command bind_ok c
          else rbind (process_next_command bind_ok c) (process_commands bind_ok))"
  by pat_completeness auto
termination
  by (relation "measure (\<lambda>(_, c). pending_weight c)") (auto dest: process_next_command_ok(2))

declare process_commands.simps [simp del]

definition send_turn :: "u32 \<Rightarrow> bool \<Rightarrow> bool \<Rightarrow> clock \<Rightarrow> connection \<Rightarrow> connection res" where
  "send_turn max_packets_per_iteration stop_requested bind_ok ck c =
     (let c1 = c\<lparr>cn_iteration_packets := max_packets_per_iteration\<rparr>
      in rbind (runTimeouts ck (calculate_quota c1) c1) (\<lambda>c2.
         rbind (process_commands bind_ok c2) (\<lambda>c3.
           sendPackets stop_requested (calculate_quota c3) c3)))"

lemma process_commands_ok: "process_commands bind_ok c = Inr c' \<Longrightarrow> conn_ok N c \<Longrightarrow> conn_ok N c'"
proof (induction bind_ok c rule: process_commands.induct)
  case (1 bind_ok c)
  show ?case
  proof (cases "cn_commands c")
    case Nil
    with "1.prems" show ?thesis by (simp add: process_commands.simps)
  next
    case (Cons cmd cmds)
    show ?thesis
    proof (cases "cmd_type cmd = CONNCMD_NONE")
      case True
      with "1.prems" Cons show ?thesis
        by (intro process_next_command_ok(1) [of bind_ok c c']) (simp_all add: process_commands.simps)
    next
      case False
      then obtain c1 where c1: "process_next_command bind_ok c = Inr c1" "process_commands bind_ok c1 = Inr c'"
        using "1.prems" Cons by (subst (asm) process_commands.simps) auto
      with "1.IH" [OF Cons False c1(1)] "1.prems"(2) show ?thesis
        using process_next_command_ok(1) by blast
    qed
  qed
qed

lemma for_each_deletePeer:
  assumes "conn_ok N c"
  shows "\<exists>c'. for_each (\<lambda>pid c. if skip pid then Inr c else rbind (deletePeer pid t c) (\<lambda>(_, c'). Inr c')) pids c = Inr c' \<and>
    conn_ok N c'"
  using assms
proof (induction pids arbitrary: c)
  case (Cons pid pids)
  then show ?case
    using deletePeer_ok [OF Cons.prems, of pid t] by (cases "skip pid") auto
qed simp

lemma sendPackets_ok: "sendPackets stop q c = Inr c' \<Longrightarrow> conn_ok N c \<Longrightarrow> conn_ok N c'"
proof -
  assume ok: "conn_ok N c" and run: "sendPackets stop q c = Inr c'"
  then obtain pending c1 unreliable c2 where
    c1: "for_each (send_peer q) (getPeerIDs c) ([], c) = Inr (pending, c1)" and
    c2: "for_each (send_outgoing stop) (cn_outgoing_queue c1) ({}, c1\<lparr>cn_outgoing_queue := []\<rparr>) = Inr (unreliable, c2)" and
    c': "for_each (\<lambda>pid c. if pid \<in> unreliable then Inr c else rbind (deletePeer pid False c) (\<lambda>(_, c'). Inr c')) pending c2 = Inr c'"
    by (auto simp: sendPackets_def)
  have "conn_ok N c1"
    using conn_ok_step [OF ok] snd_step_for_each [OF conn_step_send_peer c1] by simp
  then have "conn_ok N (c1\<lparr>cn_outgoing_queue := []\<rparr>)"
    by simp
  then have "conn_ok N c2"
    using conn_step_send_outgoings [OF c2] by (intro conn_ok_step [of N _ c2]) simp_all
  with for_each_deletePeer [of N c2 "\<lambda>pid. pid \<in> unreliable" False pending] c' show ?thesis
    by auto
qed

lemma runTimeouts_ok: "runTimeouts ck q c = Inr c' \<Longrightarrow> conn_ok N c \<Longrightarrow> conn_ok N c'"
proof -
  assume ok: "conn_ok N c" and run: "runTimeouts ck q c = Inr c'"
  then obtain timeouted c1 where
    c1: "for_each (timeouts_peer ck q) (getPeerIDs c) ([], c) = Inr (timeouted, c1)" and
    c': "for_each (\<lambda>pid c. rbind (deletePeer pid True c) (\<lambda>(_, c'). Inr c')) timeouted c1 = Inr c'"
    by (auto simp: runTimeouts_def)
  have "conn_ok N c1"
    using conn_ok_step [OF ok] snd_step_for_each [OF conn_step_timeouts_peer c1] by simp
  with for_each_deletePeer [of N c1 "\<lambda>pid. False" True timeouted] c' show ?thesis
    by auto
qed

lemma send_turn_ok: "send_turn m stop bind_ok ck c = Inr c' \<Longrightarrow> conn_ok N c \<Longrightarrow> conn_ok N c'"
  by (auto simp: send_turn_def Let_def dest!: runTimeouts_ok process_commands_ok sendPackets_ok)

subsection \<open>The receive thread\<close>

text \<open>
  A handler is \<open>safe\<close> if it keeps the connection well-formed and throws only
  \<open>ProcessedSilentlyException\<close>, \<open>InvalidIncomingDataException\<close> or an exception of \<open>es\<close>. The handler of
  reliable packets also throws \<open>ProcessedQueued\<close>, and the check of the size of its buffer can fail
  when more than \<open>SEQNUM_MAX\<close> packets may be in it.
\<close>

definition safe :: "nat \<Rightarrow> error set \<Rightarrow> 'a res \<times> connection \<Rightarrow> bool" where
  "safe N es r \<longleftrightarrow> conn_ok N (snd r) \<and>
     (\<forall>e. fst r = Inl e \<longrightarrow> e = ProcessedSilentlyException \<or> e = InvalidIncomingDataException \<or> e \<in> es)"

definition outer_errors :: "nat \<Rightarrow> error set" where
  "outer_errors N = {ProcessedQueued} \<union> (if SEQNUM_MAX < N then {AssertFailed} else {})"

lemma safe_simps [simp]:
  "safe N es (Inr x, c) = conn_ok N c"
  "safe N es (Inl e, c) =
     (conn_ok N c \<and> (e = ProcessedSilentlyException \<or> e = InvalidIncomingDataException \<or> e \<in> es))"
  by (auto simp: safe_def)

lemma get_ch_get: "get_ch r c = Inr ch \<longleftrightarrow>
    (\<exists>p. map_of (cn_peers c) (fst r) = Some p \<and> get_channel (snd r) p = Inr ch)"
  by (auto simp: get_ch_def split: option.splits)

lemma put_ch_step: "get_ch r c = Inr ch \<Longrightarrow> chan_step ch ch' \<Longrightarrow> conn_step c (put_ch r ch' c)"
  by (auto simp: get_ch_get put_ch_def) (blast intro: conn_step_put_peer peer_step_put_channel)

lemma put_ch_ok: "conn_ok N c \<Longrightarrow> get_ch r c = Inr ch \<Longrightarrow> chan_step ch ch' \<Longrightarrow> conn_ok N (put_ch r ch' c)"
  by (rule conn_ok_step [OF _ put_ch_step])

lemma peer_ok_filed: "peer_ok N pid p \<Longrightarrow> get_channel i p = Inr ch \<Longrightarrow> filed N (pid, i) ch \<and> window_ok ch"
  by (auto simp: peer_ok_def peer_wf_def get_channel_def list_all_length split: if_splits)

lemma put_ch_filed:
  assumes "conn_ok N c" and "get_ch r c = Inr ch" and "filed N r ch'" and "window_ok ch \<longrightarrow> window_ok ch'"
  shows "conn_ok N (put_ch r ch' c)"
proof -
  obtain p where p: "map_of (cn_peers c) (fst r) = Some p" "get_channel (snd r) p = Inr ch"
    using assms(2) by (auto simp: get_ch_get)
  then have ok: "peer_ok N (fst r) p"
    using conn_ok_peer [OF assms(1)] by blast
  have "peer_ok N (fst r) (put_channel (snd r) ch' p)"
    using ok assms(3,4) peer_ok_filed [OF ok p(2)] p(2)
    by (cases r) (auto simp: peer_ok_def peer_wf_def put_channel_def list_all_length nth_list_update get_channel_def
        split: if_splits)
  then have "list_all (\<lambda>(pid, p). peer_ok N pid p) (AList.update (fst r) (put_channel (snd r) ch' p) (cn_peers c))"
    using assms(1) set_update_subset [of "fst r" "put_channel (snd r) ch' p" "cn_peers c"]
    by (fastforce simp: conn_ok_def list_all_iff)
  moreover have "fst r \<in> fst ` set (cn_peers c)"
    using p(1) by (force dest: map_of_SomeD)
  ultimately show ?thesis
    using assms(1) p(1)
    by (simp add: put_ch_def put_peer_def conn_ok_def distinct_update dom_update insert_absorb)
qed

lemma popSeqnum_err: "rpb_popSeqnum q b = Inl e \<Longrightarrow> e = NotFoundException"
  by (auto simp: rpb_popSeqnum_def split: option.splits)

lemma safe_ack:
  assumes ok: "conn_ok N c" and ch: "get_ch r c = Inr ch"
  shows "safe N es (handle_ack r d c)"
proof (cases "rpb_popSeqnum (readU16 (drop 2 d)) (outgoing_reliables_sent ch)")
  case (Inl e)
  then have "e = NotFoundException"
    by (rule popSeqnum_err)
  with Inl show ?thesis
    using ok ch put_ch_ok [OF ok ch chan_step_counters(5)] by (simp add: handle_ack_def)
next
  case (Inr pb)
  obtain p b where pb: "pb = (p, b)" by (cases pb)
  have "chan_step ch (UpdateBytesSent n 1 (ch\<lparr>outgoing_reliables_sent := b\<rparr>))" for n
    by (rule chan_step_trans [OF chan_step_fields(1) chan_step_counters(1)])
  with Inr pb show ?thesis
    using ok ch put_ch_ok [OF ok ch] by (simp add: handle_ack_def)
qed

lemma safe_set_peer_id: "conn_ok N c \<Longrightarrow> safe N es (handle_set_peer_id d c)"
  by (simp add: handle_set_peer_id_def SetPeerID_def Let_def)

lemma safe_disco: "conn_ok N c \<Longrightarrow> safe N es (handle_disco p c)"
  using deletePeer_ok [of N c "peer_id p" False] by (auto simp: handle_disco_def)

lemma safe_control: "conn_ok N c \<Longrightarrow> get_ch r c = Inr ch \<Longrightarrow> safe N es (handlePacketType_Control r d p n rel c)"
  by (simp add: handlePacketType_Control_def Let_def safe_ack safe_set_peer_id safe_disco)

lemma isb_insert_total: "\<exists>d m'. isb_insert p rel m = Inr (d, m')"
proof -
  have "(ucast k :: u32) < ucast cc" if "k < cc" for k cc :: u16
    using that by (simp add: word_less_nat_alt)
  then have "isp_insert (ucast k) d sp \<noteq> Inl e" if "k < cc" "ucast (cc :: u16) = is_chunk_count sp" for k d sp e cc
    using that by (simp add: isp_insert_def flip: that(2))
  then show ?thesis
    by (auto simp: isb_insert_def Let_def isp_reassemble_def rbind_def not_le split: sum.splits option.splits)
qed

lemma safe_original: "conn_ok N c \<Longrightarrow> safe N es (handlePacketType_Original r d p n rel c)"
  by (simp add: handlePacketType_Original_def)

lemma safe_split:
  assumes ok: "conn_ok N c" and p: "map_of (cn_peers c) (peer_id peer) = Some p" and n: "unat n < CHANNEL_COUNT"
  shows "safe N es (handlePacketType_Split r d peer n rel c)"
proof -
  obtain ch where ch: "get_channel (unat n) p = Inr ch"
    using conn_ok_peer [OF ok p] n by (simp add: peer_ok_def peer_wf_def get_channel_def)
  let ?pk = "makePacket (peer_address peer) d (cn_protocol_id c) (peer_id peer) n"
  obtain data m' where "isb_insert ?pk rel (incoming_splits ch) = Inr (data, m')"
    using isb_insert_total by blast
  then have add: "addSplitPacket n ?pk rel p = Inr (data, put_channel (unat n) (ch\<lparr>incoming_splits := m'\<rparr>) p)"
    using n ch by (simp add: addSplitPacket_def)
  then have "conn_ok N (put_peer (peer_id peer) (put_channel (unat n) (ch\<lparr>incoming_splits := m'\<rparr>) p) c)"
    by (intro conn_ok_step [OF ok conn_step_put_peer [OF p peer_step_addSplit]])
  with p add show ?thesis
    by (simp add: handlePacketType_Split_def)
qed

text \<open>A packet of the peer \<open>fst r\<close> for its channel \<open>snd r\<close>, whatever it holds.\<close>

lemma safe_with:
  assumes ok: "conn_ok N c" and ch: "get_ch r c = Inr ch" and r: "pid = fst r" "unat n = snd r"
    and rel: "\<And>p. map_of (cn_peers c) pid = Some p \<Longrightarrow> safe N es (h r d p n b c)"
  shows "safe N es (process_with h r d pid n b c)"
proof -
  obtain p where p: "map_of (cn_peers c) pid = Some p" "get_channel (snd r) p = Inr ch"
    using ch r by (auto simp: get_ch_get)
  have "peer_id p = pid" "length (peer_channels p) = CHANNEL_COUNT"
    using conn_ok_peer [OF ok p(1)] by (simp_all add: peer_ok_def peer_wf_def)
  moreover from this have "unat n < CHANNEL_COUNT"
    using p(2) r(2) by (auto simp: get_channel_def split: if_splits)
  ultimately show ?thesis
    using ok p ch rel [OF p(1)]
    by (simp add: process_with_def getPeerNoEx_ok Let_def safe_control safe_original safe_split)
qed

lemma safe_nested:
  "conn_ok N c \<Longrightarrow> get_ch r c = Inr ch \<Longrightarrow> pid = fst r \<Longrightarrow> unat n = snd r \<Longrightarrow> safe N es (processPacket_nested r d pid n c)"
  unfolding processPacket_nested_def by (rule safe_with) (simp_all add: nested_reliable_def)

lemma popFirst_filed:
  "rpb_popFirst (incoming_reliables ch) = Inr (p, b) \<Longrightarrow> filed N r ch \<Longrightarrow>
    BASE_HEADER_SIZE + RELIABLE_HEADER_SIZE \<le> length (pk_data p) \<and>
    readPeerId (pk_data p) = fst r \<and> unat (readChannel (pk_data p)) = snd r \<and>
    filed N r (ch\<lparr>incoming_reliables := b, next_incoming_seqnum := q\<rparr>)"
  by (auto simp: rpb_popFirst_def filed_def split: list.splits)

lemma get_ch_put: "get_ch r c = Inr ch \<Longrightarrow> \<exists>ch1. get_ch r (put_ch r ch' c) = Inr ch1"
  by (cases r) (auto simp: get_ch_def put_ch_def get_channel_def put_channel_def put_peer_def update_conv'
      split: option.splits if_splits)

lemma safe_next_reliable:
  assumes ok: "conn_ok N c" and ch: "get_ch r c = Inr ch" and r: "peer_id peer = fst r" "unat n = snd r"
    and d: "RELIABLE_HEADER_SIZE \<le> length d"
  shows "safe N es (process_next_reliable r d peer n q c)"
proof -
  obtain p where "map_of (cn_peers c) (fst r) = Some p" "get_channel (snd r) p = Inr ch"
    using ch by (auto simp: get_ch_get)
  then have f: "filed N r ch" "window_ok ch"
    using peer_ok_filed conn_ok_peer [OF ok] by (metis prod.collapse)+
  have nested: "safe N es (processPacket_nested r d' (peer_id peer) n
      (put_ch r (snd (incNextIncomingSeqNum (ch\<lparr>incoming_reliables := b\<rparr>))) c))"
    if "filed N r (ch\<lparr>incoming_reliables := b, next_incoming_seqnum := next_incoming_seqnum ch + 1\<rparr>)" for b d'
  proof -
    let ?ch1 = "snd (incNextIncomingSeqNum (ch\<lparr>incoming_reliables := b\<rparr>))"
    have "?ch1 = ch\<lparr>incoming_reliables := b, next_incoming_seqnum := next_incoming_seqnum ch + 1\<rparr>"
      by (simp add: incNextIncomingSeqNum_def)
    then have "conn_ok N (put_ch r ?ch1 c)"
      using that f(2) by (intro put_ch_filed [OF ok ch]) (simp_all add: window_ok_def)
    moreover obtain ch2 where "get_ch r (put_ch r ?ch1 c) = Inr ch2"
      using get_ch_put [OF ch] by blast
    ultimately show ?thesis
      using r by (intro safe_nested)
  qed
  show ?thesis
  proof (cases "rpb_getFirstSeqnum (incoming_reliables ch) = Some q")
    case True
    then obtain p b where "rpb_popFirst (incoming_reliables ch) = Inr (p, b)"
      by (auto simp: rpb_getFirstSeqnum_def rpb_popFirst_def split: list.splits)
    with True ch nested popFirst_filed [OF _ f(1)] d show ?thesis
      by (simp add: process_next_reliable_def Let_def)
  next
    case False
    have "filed N r (ch\<lparr>incoming_reliables := incoming_reliables ch, next_incoming_seqnum := next_incoming_seqnum ch + 1\<rparr>)"
      using f(1) by (simp add: filed_def)
    with False ch nested [of "incoming_reliables ch"] d show ?thesis
      by (simp add: process_next_reliable_def Let_def)
  qed
qed

lemma rpb_scan_set: "rpb_scan cond q ps = (pre, post, q') \<Longrightarrow> ps = pre @ post \<and> (post = [] \<longrightarrow> ps = [] \<or> cond q')"
proof (induction cond q ps arbitrary: pre post q' rule: rpb_scan.induct)
  case (2 cond q p ps)
  show ?case
  proof (cases "cond q")
    case True
    obtain pre1 post1 q1 where r: "rpb_scan cond (case ps of [] \<Rightarrow> q | x # _ \<Rightarrow> getSeqnum x) ps = (pre1, post1, q1)"
      by (metis prod_cases3)
    then have "ps = pre1 @ post1 \<and> (post1 = [] \<longrightarrow> ps = [] \<or> cond q1)"
      by (rule "2.IH" [OF True])
    moreover have "ps = [] \<Longrightarrow> q1 = q"
      using r by simp
    ultimately show ?thesis
      using "2.prems" r True by auto
  qed (use "2.prems" in simp)
qed simp

lemma rpb_insert_cases:
  assumes "length (rp_list b) \<le> SEQNUM_MAX \<or> rpb_insert p nxt b \<noteq> Inl AssertFailed"
  shows "rpb_insert p nxt b = Inl IncomingDataCorruption \<or>
    (\<exists>b'. rpb_insert p nxt b = Inr b' \<and>
      set (rp_list b') \<subseteq> insert p (set (rp_list b)) \<and> length (rp_list b') \<le> max (length (rp_list b)) (Suc SEQNUM_MAX))"
proof (cases "rp_list b")
  case Nil
  then show ?thesis by (auto simp: rpb_insert_def Let_def)
next
  case (Cons first more)
  obtain pre post q where scan: "rpb_scan (scan_condition (getSeqnum p) nxt) (getSeqnum first) (rp_list b) = (pre, post, q)"
    by (metis prod_cases3)
  have sp: "rp_list b = pre @ post" "post = [] \<longrightarrow> scan_condition (getSeqnum p) nxt q"
    using rpb_scan_set [OF scan] Cons by auto
  define quiet where "quiet \<longleftrightarrow> length (pk_data p) < BASE_HEADER_SIZE + 3 \<or> pk_data p ! BASE_HEADER_SIZE \<noteq> PACKET_TYPE_RELIABLE \<or>
    \<not> seqnum_in_window (getSeqnum p) nxt MAX_RELIABLE_WINDOW_SIZE \<or> getSeqnum p = nxt"
  have run: "rpb_insert p nxt b =
      (if quiet then Inr b else if length (rp_list b) > SEQNUM_MAX then Inl AssertFailed
       else rbind
         (if q = getSeqnum p then
            (case post of [] \<Rightarrow> Inl OutOfBounds
             | i # _ \<Rightarrow> if getSeqnum i \<noteq> getSeqnum p \<or> length (pk_data i) \<noteq> length (pk_data p) \<or>
                         pk_address i \<noteq> pk_address p then Inl IncomingDataCorruption else Inr (rp_list b))
          else Inr (pre @ p # post))
         (\<lambda>ps. Inr \<lparr>rp_list = ps, m_oldest_non_answered_ack = oldest_of ps\<rparr>))"
    using Cons scan by (simp add: rpb_insert_def quiet_def Let_def)
  have len: "length (rp_list b) = length pre + length post" "set (rp_list b) = set pre \<union> set post"
    using sp(1) by simp_all
  show ?thesis
  proof (cases "quiet \<or> length (rp_list b) > SEQNUM_MAX")
    case True
    with run assms show ?thesis by (auto split: if_splits)
  next
    case False
    show ?thesis
    proof (cases "q = getSeqnum p")
      case True
      then have "post \<noteq> []"
        using sp(2) by (auto simp: scan_condition_def split: if_splits)
      with True False run show ?thesis
        by (cases post) auto
    next
      case new: False
      with False run len show ?thesis by auto
    qed
  qed
qed

lemma safe_reliable:
  assumes ok: "conn_ok N c" and ch: "get_ch r c = Inr ch" and r: "peer_id peer = fst r" "unat n = snd r"
    and n: "unat n < CHANNEL_COUNT" and N: "N \<le> Suc SEQNUM_MAX"
  shows "safe (Suc SEQNUM_MAX) (outer_errors N) (handlePacketType_Reliable r d peer n rel c)"
proof (cases "rel \<or> length d < RELIABLE_HEADER_SIZE")
  case True
  with ok N show ?thesis
    by (auto simp: handlePacketType_Reliable_def intro: conn_ok_mono)
next
  case False
  let ?q = "readU16 (drop 1 d)" and ?nxt = "readNextIncomingSeqNum ch"
  have d: "RELIABLE_HEADER_SIZE \<le> length d"
    using False by simp
  then have q: "fetch (Suc 0) 2 readU16 d = Inr ?q"
    by (simp add: header_sizes)
  have ack: "\<exists>c1. sendAck (peer_id peer) n ?q c = Inr c1 \<and> conn_ok N c1 \<and> get_ch r c1 = Inr ch"
    using ok n ch by (simp add: sendAck_def get_ch_def)
  have now: "safe (Suc SEQNUM_MAX) (outer_errors N) (process_next_reliable r d peer n ?q c1)"
    if "conn_ok N c1" "get_ch r c1 = Inr ch" for c1
    using that r N d by (intro safe_next_reliable) (auto intro: conn_ok_mono)
  show ?thesis
  proof (cases "seqnum_in_window ?q ?nxt MAX_RELIABLE_WINDOW_SIZE \<and> ?q \<noteq> ?nxt")
    case future: True
    obtain c1 where c1: "sendAck (peer_id peer) n ?q c = Inr c1" "conn_ok N c1" "get_ch r c1 = Inr ch"
      using ack by blast
    let ?pk = "makePacket (peer_address peer) d (cn_protocol_id c1) (peer_id peer) n"
    obtain p where p: "map_of (cn_peers c1) (fst r) = Some p" "get_channel (snd r) p = Inr ch"
      using c1(3) by (auto simp: get_ch_get)
    then have f: "filed N r ch" "window_ok ch"
      using peer_ok_filed [OF conn_ok_peer [OF c1(2)]] by (metis prod.collapse)+
    show ?thesis
    proof (cases "rpb_insert ?pk ?nxt (incoming_reliables ch) = Inl IncomingDataCorruption")
      case True
      have "safe (Suc SEQNUM_MAX) (outer_errors N) (process_next_reliable r d peer n ?q (putCommand (cmd_disconnect_peer (peer_id peer)) c1))"
        using c1 by (intro now) (simp_all add: get_ch_def)
      with False future ch c1 True q show ?thesis
        by (simp add: handlePacketType_Reliable_def Let_def outer_errors_def)
    next
      case notcorrupt: False
      show ?thesis
      proof (cases "SEQNUM_MAX < N \<and> rpb_insert ?pk ?nxt (incoming_reliables ch) = Inl AssertFailed")
        case True
        with False future ch c1 q conn_ok_mono [OF c1(2) N] show ?thesis
          by (simp add: handlePacketType_Reliable_def Let_def outer_errors_def)
      next
      case ok: False
      then obtain b where b: "rpb_insert ?pk ?nxt (incoming_reliables ch) = Inr b"
        "set (rp_list b) \<subseteq> insert ?pk (set (rp_list (incoming_reliables ch)))" "length (rp_list b) \<le> Suc SEQNUM_MAX"
        using rpb_insert_cases [of "incoming_reliables ch" ?pk ?nxt] f(1) N notcorrupt
        by (fastforce simp: filed_def)
      have "BASE_HEADER_SIZE + RELIABLE_HEADER_SIZE \<le> length (pk_data ?pk) \<and>
          readPeerId (pk_data ?pk) = fst r \<and> unat (readChannel (pk_data ?pk)) = snd r"
        using r d by (simp add: readPeerId_def readChannel_def makePacket_fields header_sizes)
      then have "filed (Suc SEQNUM_MAX) r (ch\<lparr>incoming_reliables := b\<rparr>)"
        using f(1) b(2,3) by (auto simp: filed_def list_all_iff)
      then have "conn_ok (Suc SEQNUM_MAX) (put_ch r (ch\<lparr>incoming_reliables := b\<rparr>) c1)"
        using conn_ok_mono [OF c1(2)] N f(2) c1(3) by (intro put_ch_filed) (simp_all add: window_ok_def)
      with False future ch c1 b(1) q show ?thesis
        by (simp add: handlePacketType_Reliable_def Let_def outer_errors_def)
      qed
    qed
  next
    case past: False
    have "conn_ok (Suc SEQNUM_MAX) c"
      using ok N by (auto intro: conn_ok_mono)
    moreover obtain c1 where "sendAck (peer_id peer) n ?q c = Inr c1" "conn_ok N c1" "get_ch r c1 = Inr ch"
      using ack by blast
    moreover have "conn_ok (Suc SEQNUM_MAX) c1"
      using \<open>conn_ok N c1\<close> N by (auto intro: conn_ok_mono)
    ultimately show ?thesis
      using False past ch q now [OF ok ch] now [of c1]
      by (auto simp: handlePacketType_Reliable_def Let_def outer_errors_def)
  qed
qed

text \<open>Reading from the buffers.\<close>

lemma safe_checkIncoming:
  assumes ok: "conn_ok N c" and ch: "get_ch r c = Inr ch"
  shows "safe N es (checkIncomingBuffers r c)"
proof (cases "rpb_getFirstSeqnum (incoming_reliables ch) = Some (readNextIncomingSeqNum ch)")
  case False
  with ok ch show ?thesis by (simp add: checkIncomingBuffers_def)
next
  case True
  then obtain p b where pb: "rpb_popFirst (incoming_reliables ch) = Inr (p, b)"
    by (auto simp: rpb_getFirstSeqnum_def rpb_popFirst_def split: list.splits)
  obtain peer where "map_of (cn_peers c) (fst r) = Some peer" "get_channel (snd r) peer = Inr ch"
    using ch by (auto simp: get_ch_get)
  then have f: "filed N r ch" "window_ok ch"
    using peer_ok_filed [OF conn_ok_peer [OF ok]] by (metis prod.collapse)+
  let ?ch1 = "snd (incNextIncomingSeqNum (ch\<lparr>incoming_reliables := b\<rparr>))"
  note filed = popFirst_filed [OF pb f(1)]
  have "filed N r ?ch1" "window_ok ch \<longrightarrow> window_ok ?ch1"
    using filed by (simp_all add: incNextIncomingSeqNum_def window_ok_def)
  then have "conn_ok N (put_ch r ?ch1 c)"
    by (rule put_ch_filed [OF ok ch])
  moreover obtain ch2 where "get_ch r (put_ch r ?ch1 c) = Inr ch2"
    using get_ch_put [OF ch] by blast
  ultimately have "safe N es (processPacket_nested r d (readPeerId (pk_data p)) (readChannel (pk_data p)) (put_ch r ?ch1 c))" for d
    using filed by (intro safe_nested) auto
  then have "safe N es (processPacket_nested r (drop (BASE_HEADER_SIZE + RELIABLE_HEADER_SIZE) (pk_data p))
      (readPeerId (pk_data p)) (readChannel (pk_data p)) (put_ch r ?ch1 c))" .
  moreover have "fetch 0 BASE_HEADER_SIZE readPeerId (pk_data p) = Inr (readPeerId (pk_data p))"
    "fetch 0 BASE_HEADER_SIZE readChannel (pk_data p) = Inr (readChannel (pk_data p))"
    using conjunct1 [OF filed [of 0]] by simp_all
  ultimately show ?thesis
    using True ch pb filed by (auto simp: checkIncomingBuffers_def processPacket_def Let_def split: prod.splits sum.splits)
qed

lemma safe_check_channels:
  assumes ok: "conn_ok N c" and rs: "\<forall>r \<in> set rs. \<exists>ch. get_ch r c = Inr ch"
  shows "safe N es (check_channels rs c)"
  using rs
proof (induction rs)
  case (Cons r rs)
  obtain res c1 where run: "checkIncomingBuffers r c = (res, c1)" by force
  have s: "safe N es (res, c1)"
    using safe_checkIncoming [OF ok] Cons.prems run by fastforce
  show ?case
  proof (cases "res = Inr None")
    case True
    then have "c1 = c"
      using run checkIncoming_None by blast
    with Cons run True show ?thesis by simp
  next
    case False
    with s run show ?thesis by (auto split: sum.splits option.splits)
  qed
qed (simp add: ok)

lemma live_channels_ok:
  assumes ok: "conn_ok N c"
  shows "set pids \<subseteq> set (cn_peer_ids c) \<Longrightarrow> \<exists>rs. live_channels pids c = Inr rs \<and> (\<forall>r \<in> set rs. \<exists>ch. get_ch r c = Inr ch)"
proof (induction pids)
  case (Cons pid pids)
  then obtain rs where rs: "live_channels pids c = Inr rs" "\<forall>r \<in> set rs. \<exists>ch. get_ch r c = Inr ch"
    by auto
  have "\<forall>i < length (peer_channels p). \<exists>ch. get_ch (pid, i) c = Inr ch" if "map_of (cn_peers c) pid = Some p" for p
    using that by (simp add: get_ch_def get_channel_def)
  with rs show ?case
    by (auto simp: getPeerNoEx_ok [OF ok] split: option.splits)
qed simp

lemma safe_getFromBuffers: "conn_ok N c \<Longrightarrow> safe N es (getFromBuffers c)"
  using live_channels_ok [of N c "cn_peer_ids c"] safe_check_channels
  by (auto simp: getFromBuffers_def getPeerIDs_def)

lemma drain_safe: "conn_ok N c \<Longrightarrow> safe N es (drain c)"
proof (induction c rule: drain.induct)
  case (1 c)
  have s: "safe N es (getFromBuffers c)"
    using safe_getFromBuffers [OF 1(3)] .
  show ?case
  proof (cases "getFromBuffers c")
    case (Pair res c1)
    show ?thesis
    proof (cases res)
      case (Inl e)
      moreover have "e = ProcessedSilentlyException \<Longrightarrow> conn_ok N c1 \<Longrightarrow> safe N es (drain c1)"
        using 1(1) [OF Pair [symmetric] Inl] by simp
      ultimately show ?thesis
        using s Pair by (subst drain.simps) auto
    next
      case (Inr got)
      show ?thesis
      proof (cases got)
        case None
        with Inr Pair s show ?thesis
          by (subst drain.simps) simp
      next
        case (Some x)
        obtain pid d where "x = (pid, d)" by (cases x)
        with 1(2) [OF Pair [symmetric] Inr] Some Inr Pair s show ?thesis
          by (subst drain.simps) auto
      qed
    qed
  qed
qed

lemma identify_ok:
  assumes "conn_ok N c"
  shows "\<exists>pid' c'. identify_peer draws ns a pid c = Inr (pid', c') \<and> conn_ok N c'"
proof -
  let ?c1 = "c\<lparr>cn_new_peers := (if ns then 0 else cn_new_peers c) + 1\<rparr>"
  obtain pid' c' where "createPeer draws a ?c1 = Inr (pid', c')" "conn_ok N c'"
    using createPeer_ok [of N ?c1 draws a] assms by auto
  with assms show ?thesis
    by (auto simp: identify_peer_def ConnectedToServer_def getPeerNoEx_ok Let_def doResendOne_def)
qed

lemma safe_processPacket:
  assumes "conn_ok N c" and "get_ch (pid, unat n) c = Inr ch" and "unat n < CHANNEL_COUNT" and "N \<le> Suc SEQNUM_MAX"
  shows "safe (Suc SEQNUM_MAX) (outer_errors N) (processPacket (pid, unat n) d pid n False c)"
  unfolding processPacket_def
proof (simp, rule safe_with)
  show "conn_ok (Suc SEQNUM_MAX) c"
    using assms(1,4) by (auto intro: conn_ok_mono)
  fix p
  assume "map_of (cn_peers c) pid = Some p"
  then have "peer_id p = pid"
    using conn_ok_peer [OF assms(1)] by (auto simp: peer_ok_def peer_wf_def)
  with assms show "safe (Suc SEQNUM_MAX) (outer_errors N) (handlePacketType_Reliable (pid, unat n) d p n False c)"
    by (intro safe_reliable) simp_all
qed (use assms(2) in simp_all)

lemma receive_datagram_safe:
  assumes ok: "conn_ok N c" and N: "N \<le> Suc SEQNUM_MAX"
  shows "\<exists>b res c'. receive_datagram draws ns a d c = (b, res, c') \<and> conn_ok (Suc SEQNUM_MAX) c' \<and>
    (res = Inr () \<or> res = Inl InvalidIncomingDataException \<or> SEQNUM_MAX < N \<and> res = Inl AssertFailed)"
proof (cases "length d < BASE_HEADER_SIZE \<or> readU32 d \<noteq> cn_protocol_id c \<or> unat (readChannel d) \<ge> CHANNEL_COUNT")
  case True
  have reads: "fetch 0 4 readU32 d = Inr (readU32 d) \<and> fetch 0 BASE_HEADER_SIZE readPeerId d = Inr (readPeerId d) \<and>
      fetch 0 BASE_HEADER_SIZE readChannel d = Inr (readChannel d)" if "\<not> length d < BASE_HEADER_SIZE"
    using that by (simp add: BASE_HEADER_SIZE_def)
  from True ok N show ?thesis
    by (auto simp: receive_datagram_def Let_def reads intro: conn_ok_mono)
next
  case False
  then have reads: "fetch 0 4 readU32 d = Inr (readU32 d)" "fetch 0 BASE_HEADER_SIZE readPeerId d = Inr (readPeerId d)"
      "fetch 0 BASE_HEADER_SIZE readChannel d = Inr (readChannel d)" "fetch_rest BASE_HEADER_SIZE d = Inr (drop BASE_HEADER_SIZE d)"
    by (simp_all add: BASE_HEADER_SIZE_def)
  obtain pid c1 where id: "identify_peer draws ns a (readPeerId d) c = Inr (pid, c1)" "conn_ok N c1"
    using identify_ok [OF ok] by blast
  note get = getPeerNoEx_ok [OF id(2)]
  have m: "conn_ok (Suc SEQNUM_MAX) c1"
    using id(2) N by (auto intro: conn_ok_mono)
  let ?knew = "readPeerId d \<noteq> PEER_ID_INEXISTENT"
  show ?thesis
  proof (cases "\<exists>p. map_of (cn_peers c1) pid = Some p \<and> a = peer_address p \<and> (?knew \<or> half_open p)")
    case False
    with \<open>\<not> (length d < BASE_HEADER_SIZE \<or> _ \<or> _)\<close> id(1) m get show ?thesis
      by (auto simp: receive_datagram_def Let_def reads split: option.splits)
  next
    case True
    then obtain p where p: "map_of (cn_peers c1) pid = Some p" "a = peer_address p" "?knew \<or> half_open p"
      by blast
    let ?p1 = "if ?knew then p\<lparr>half_open := False\<rparr> else p"
    let ?c2 = "put_peer pid ?p1 c1" and ?r = "(pid, unat (readChannel d))"
    have c2: "conn_ok N ?c2"
      by (rule conn_ok_step [OF id(2) conn_step_put_peer [OF p(1)]]) simp
    have "length (peer_channels ?p1) = CHANNEL_COUNT"
      using conn_ok_peer [OF id(2) p(1)] by (simp add: peer_ok_def peer_wf_def)
    then obtain ch where ch: "get_ch ?r ?c2 = Inr ch"
      using False by (auto simp: get_ch_def put_peer_def update_conv' get_channel_def)
    let ?c3 = "put_ch ?r (UpdateBytesReceived (of_nat (length d)) ch) ?c2"
    have c3: "conn_ok N ?c3"
      by (rule put_ch_ok [OF c2 ch chan_step_counters(2)])
    obtain ch3 where "get_ch ?r ?c3 = Inr ch3"
      using get_ch_put [OF ch] by blast
    then have "safe (Suc SEQNUM_MAX) (outer_errors N) (processPacket ?r (drop BASE_HEADER_SIZE d) pid (readChannel d) False ?c3)"
      using safe_processPacket [OF c3] False N by simp
    moreover have "receive_datagram draws ns a d c =
        (case processPacket ?r (drop BASE_HEADER_SIZE d) pid (readChannel d) False ?c3 of
           (Inr resultdata, c4) \<Rightarrow> (True, Inr (), c4\<lparr>cn_events := cn_events c4 @ [ev_dataReceived pid resultdata]\<rparr>)
         | (Inl e, c4) \<Rightarrow>
             if e = ProcessedSilentlyException \<or> e = ProcessedQueued then (True, Inr (), c4) else (False, Inl e, c4))"
      using False id(1) get p ch by (auto simp: receive_datagram_def Let_def reads)
    ultimately show ?thesis
      by (auto simp: outer_errors_def split: prod.splits sum.splits if_splits)
  qed
qed

lemma drain_errors: "drain c = (Inl e, c1) \<Longrightarrow> e \<noteq> ProcessedSilentlyException"
proof (induction c rule: drain.induct)
  case (1 c)
  then show ?case
    by (subst (asm) (3) drain.simps) (auto split: prod.splits sum.splits option.splits if_splits)
qed

lemma receive_cases:
  assumes ok: "conn_ok N c" and N: "N \<le> Suc SEQNUM_MAX"
  shows "(\<exists>q' c'. receive draws ns datagram (queued, c) = Inr (q', c') \<and> conn_ok (Suc SEQNUM_MAX) c') \<or>
    SEQNUM_MAX < N \<and> receive draws ns datagram (queued, c) = Inl AssertFailed"
proof -
  obtain res c1 where d: "(if queued then drain c else (Inr (), c)) = (res, c1)"
    by force
  have c1: "conn_ok N c1" "res = Inr () \<or> res = Inl InvalidIncomingDataException"
    using drain_safe [OF ok, of "{}"] drain_errors [of c] d ok by (auto split: if_splits) (cases res; auto)+
  show ?thesis
  proof (cases res)
    case (Inl e)
    with c1 d conn_ok_mono [OF c1(1) N] show ?thesis
      by (auto simp: receive_drain_fails)
  next
    case (Inr u)
    then have d': "(if queued then drain c else (Inr (), c)) = (Inr (), c1)"
      using d by simp
    show ?thesis
    proof (cases datagram)
      case None
      with conn_ok_mono [OF c1(1) N] show ?thesis
        by (auto simp: receive_after(1) [OF d'])
    next
      case (Some x)
      obtain a dat where x: "x = (a, dat)" by (cases x)
      obtain b res' c' where "receive_datagram draws ns a dat c1 = (b, res', c')" "conn_ok (Suc SEQNUM_MAX) c'"
        "res' = Inr () \<or> res' = Inl InvalidIncomingDataException \<or> SEQNUM_MAX < N \<and> res' = Inl AssertFailed"
        using receive_datagram_safe [OF c1(1) N] by blast
      with Some x show ?thesis
        using receive_after(2,3) [OF d', of draws ns a dat] by auto
    qed
  qed
qed

lemma conn_ok_new: "conn_ok N (Connection_new m)"
  by (simp add: conn_ok_def Connection_new_def)

lemma conn_ok_one_peer:
  "cn_peers c = [(pid, UDPPeer_new pid a)] \<Longrightarrow> cn_peer_ids c = [pid] \<Longrightarrow> conn_ok N c"
  by (simp add: conn_ok_def peer_ok_new)

subsection \<open>Reachable connections\<close>

text \<open>
  The steps of a connection in any interleaving: calls of the user, the parts of a turn of the
  send thread, runs of \<open>receive\<close>, and the start of the shutdown.
\<close>

inductive connection_step :: "connection \<Rightarrow> connection \<Rightarrow> bool" where
  serve: "connection_step c (Serve a c)"
| connect: "connection_step c (Connect a c)"
| disconnect: "connection_step c (Disconnect c)"
| disconnect_peer: "connection_step c (DisconnectPeer pid c)"
| send: "Send pid n sz d reliable c = Inr c' \<Longrightarrow> connection_step c c'"
| wait_event: "connection_step c (snd (waitEvent c))"
| user_receive: "ReceiveTimeoutMs c = (r, calls, c') \<Longrightarrow> connection_step c c'"
| shutdown: "connection_step c (c\<lparr>cn_shutting_down := True\<rparr>)"
| send_start: "connection_step c (c\<lparr>cn_iteration_packets := n\<rparr>)"
| send_timeouts: "runTimeouts ck quota c = Inr c' \<Longrightarrow> connection_step c c'"
| send_command: "process_next_command bind_ok c = Inr c' \<Longrightarrow> connection_step c c'"
| send_packets: "sendPackets stop_requested quota c = Inr c' \<Longrightarrow> connection_step c c'"
| thread_receive: "receive draws new_second datagram (queued, c) = Inr (queued', c') \<Longrightarrow> connection_step c c'"

inductive reachable :: "connection \<Rightarrow> bool" where
  start: "reachable (Connection_new max_packet_size)"
| step: "reachable c \<Longrightarrow> connection_step c c' \<Longrightarrow> reachable c'"

lemma user_steps_ok:
  "conn_ok N c \<Longrightarrow> conn_ok N (snd (waitEvent c))"
  "conn_ok N c \<Longrightarrow> ReceiveTimeoutMs c = (r, calls, c') \<Longrightarrow> conn_ok N c'"
  "conn_ok N c \<Longrightarrow> Send pid n sz d rel c = Inr c' \<Longrightarrow> conn_ok N c'"
  by (auto simp: waitEvent_def ReceiveTimeoutMs_def Send_def split: list.splits prod.splits if_splits)

lemma connection_step_ok: "connection_step c c' \<Longrightarrow> conn_ok (Suc SEQNUM_MAX) c \<Longrightarrow> conn_ok (Suc SEQNUM_MAX) c'"
proof (induction rule: connection_step.induct)
  case (send pid n sz d reliable c c')
  then show ?case by (blast intro: user_steps_ok(3))
next
  case (user_receive c r calls c')
  then show ?case by (blast intro: user_steps_ok(2))
next
  case (send_timeouts ck quota c c')
  then show ?case by (rule runTimeouts_ok)
next
  case (send_command bind_ok c c')
  then show ?case by (rule process_next_command_ok(1))
next
  case (send_packets stop_requested quota c c')
  then show ?case by (rule sendPackets_ok)
next
  case (thread_receive draws new_second datagram queued c queued' c')
  then show ?case
    using receive_cases [of "Suc SEQNUM_MAX" c draws new_second datagram queued] by auto
qed (simp_all add: Serve_def Connect_def Disconnect_def DisconnectPeer_def user_steps_ok(1))

lemma reachable_ok: "reachable c \<Longrightarrow> conn_ok (Suc SEQNUM_MAX) c"
  by (induction rule: reachable.induct) (auto intro: conn_ok_new connection_step_ok)

text \<open>
  A well-formed connection is ready for another packet unless one of its buffers of incoming
  packets holds 65536 packets, one for every sequence number.
\<close>

definition buffer_full :: "connection \<Rightarrow> bool" where
  "buffer_full c \<longleftrightarrow> (\<exists>pid p ch. map_of (cn_peers c) pid = Some p \<and> ch \<in> set (peer_channels p) \<and>
     SEQNUM_MAX < length (rp_list (incoming_reliables ch)))"

lemma not_full_ok:
  assumes ok: "conn_ok N c" and nf: "\<not> buffer_full c"
  shows "conn_ok SEQNUM_MAX c"
proof -
  have d: "distinct (map fst (cn_peers c))" and all: "list_all (\<lambda>(pid, p). peer_ok N pid p) (cn_peers c)"
    using ok by (simp_all add: conn_ok_def)
  have "peer_ok SEQNUM_MAX pid p" if "(pid, p) \<in> set (cn_peers c)" for pid p
  proof -
    have p: "peer_ok N pid p" "map_of (cn_peers c) pid = Some p"
      using that all d by (auto simp: list_all_iff)
    have "length (rp_list (incoming_reliables ch)) \<le> SEQNUM_MAX" if "ch \<in> set (peer_channels p)" for ch
      using nf p(2) that by (force simp: buffer_full_def not_less)
    with p(1) show ?thesis
      by (simp add: peer_ok_def filed_def)
  qed
  with ok show ?thesis
    by (auto simp: conn_ok_def list_all_iff)
qed



text \<open>
  C3: The invariant of a connection. In every state that the user, the send thread and the
  receive thread can reach together, in any order of their steps, the list of peer ids and the
  map of peers agree and have no duplicates; every peer is stored under its own id, is not
  marked as deleted and has three channels; every send window is between 32 and 2048 packets;
  and every buffered incoming packet is in a channel of the peer that sent it and under the
  number that it carries.
\<close>

theorem connection_invariant:
  assumes "reachable c"
  shows "distinct (cn_peer_ids c) \<and> distinct (map fst (cn_peers c)) \<and>
    set (cn_peer_ids c) = fst ` set (cn_peers c) \<and>
    (\<forall>pid p. map_of (cn_peers c) pid = Some p \<longrightarrow>
      peer_id p = pid \<and> \<not> pending_deletion p \<and> length (peer_channels p) = CHANNEL_COUNT \<and>
      (\<forall>i ch. get_channel i p = Inr ch \<longrightarrow>
        32 \<le> uint (window_size ch) \<and> uint (window_size ch) \<le> 2048 \<and>
        (\<forall>pk \<in> set (rp_list (incoming_reliables ch)).
          readPeerId (pk_data pk) = pid \<and> unat (readChannel (pk_data pk)) = i)))"
proof -
  have ok: "conn_ok (Suc SEQNUM_MAX) c"
    using assms by (rule reachable_ok)
  show ?thesis
  proof (intro conjI allI impI)
    show "distinct (cn_peer_ids c)" "distinct (map fst (cn_peers c))" "set (cn_peer_ids c) = fst ` set (cn_peers c)"
      using ok by (simp_all add: conn_ok_def)
    fix pid p
    assume "map_of (cn_peers c) pid = Some p"
    then have p: "peer_ok (Suc SEQNUM_MAX) pid p"
      by (rule conn_ok_peer [OF ok])
    then show "peer_id p = pid" "\<not> pending_deletion p" "length (peer_channels p) = CHANNEL_COUNT"
      by (simp_all add: peer_ok_def peer_wf_def)
    fix i ch
    assume "get_channel i p = Inr ch"
    then have ch: "filed (Suc SEQNUM_MAX) (pid, i) ch" "window_ok ch"
      using peer_ok_filed [OF p] by blast+
    then show "32 \<le> uint (window_size ch)" "uint (window_size ch) \<le> 2048"
      by (simp_all add: window_ok_def)
    show "\<forall>pk \<in> set (rp_list (incoming_reliables ch)). readPeerId (pk_data pk) = pid \<and> unat (readChannel (pk_data pk)) = i"
      using ch(1) by (simp add: filed_def list_all_iff)
  qed
qed

text \<open>A client that has processed the command to connect.\<close>

lemma connection_invariant_witness:
  "\<exists>c. reachable c \<and> map fst (cn_peers c) = [1] \<and> cn_peer_ids c = [1] \<and> distinct (cn_peer_ids c)"
proof -
  let ?c = "Connect 9 (Connection_new 512)"
  obtain c' where run: "process_next_command True ?c = Inr c'" "map fst (cn_peers c') = [1]" "cn_peer_ids c' = [1]"
    by (simp add: Connect_def putCommand_def Connection_new_def cmd_connect_def cmd_create_def process_next_command_def
        processNonReliableCommand_def st_connect_def createServerPeer_def ConnectedToServer_def getPeerNoEx_def
        put_peer_def UDPPeer_new_def PEER_ID_SERVER_def PEER_ID_INEXISTENT_def putEvent_def ev_peerAdded_def
        ev_create_def Send_def CHANNEL_COUNT_def SetPeerID_def Let_def)
  have "reachable ?c"
    by (rule reachable.step [OF reachable.start connection_step.connect])
  then have r: "reachable c'"
    by (rule reachable.step) (rule connection_step.send_command [OF run(1)])
  then show ?thesis
    using connection_invariant [OF r] run(2,3) by (intro exI [of _ c']) simp
qed

subsection \<open>The loops end\<close>

lemma checkIncoming_le: "total_buffered (snd (checkIncomingBuffers r c)) \<le> total_buffered c"
proof (cases "get_ch r c")
  case (Inr ch)
  show ?thesis
  proof (cases "rpb_getFirstSeqnum (incoming_reliables ch) = Some (readNextIncomingSeqNum ch)")
    case True
    then obtain p b where pop: "rpb_popFirst (incoming_reliables ch) = Inr (p, b)"
      by (auto simp: rpb_getFirstSeqnum_def rpb_popFirst_def split: list.splits)
    let ?c1 = "put_ch r (snd (incNextIncomingSeqNum (ch\<lparr>incoming_reliables := b\<rparr>))) c"
    have "total_buffered ?c1 \<le> total_buffered c"
      using total_put_ch [OF Inr, of "snd (incNextIncomingSeqNum (ch\<lparr>incoming_reliables := b\<rparr>))"] rpb_popFirst_length [OF pop]
      by (simp add: incNextIncomingSeqNum_def)
    then show ?thesis
      using checkIncoming_total_le [OF Inr True pop] by simp
  qed (use Inr in \<open>simp add: checkIncomingBuffers_def\<close>)
qed (simp add: checkIncomingBuffers_def)

lemma check_channels_le: "total_buffered (snd (check_channels rs c)) \<le> total_buffered c"
proof (induction rs c rule: check_channels.induct)
  case (2 r rs c)
  obtain res c1 where k: "checkIncomingBuffers r c = (res, c1)" by force
  have "total_buffered c1 \<le> total_buffered c"
    using checkIncoming_le [of r c] k by simp
  moreover have "total_buffered (snd (check_channels rs c1)) \<le> total_buffered c1" if "res = Inr None"
    using 2 [OF k [symmetric] that] by simp
  ultimately show ?case
    using k by (auto split: sum.splits option.splits)
qed simp

lemma check_channels_None: "check_channels rs c = (Inr None, c1) \<Longrightarrow> c1 = c"
proof (induction rs c rule: check_channels.induct)
  case (2 r rs c)
  then show ?case
    by (auto split: prod.splits sum.splits option.splits dest: checkIncoming_None)
qed simp

lemma getFromBuffers_None: "getFromBuffers c = (Inr None, c1) \<Longrightarrow> c1 = c"
  by (auto simp: getFromBuffers_def split: sum.splits dest: check_channels_None)

lemma getFromBuffers_le: "total_buffered (snd (getFromBuffers c)) \<le> total_buffered c"
  using check_channels_le by (auto simp: getFromBuffers_def split: sum.splits)

lemma drain_step:
  "getFromBuffers c = (Inr None, c1) \<Longrightarrow> drain c = (Inr (), c1)"
  "getFromBuffers c = (Inr (Some (pid, d)), c1) \<Longrightarrow>
    drain c = drain (c1\<lparr>cn_events := cn_events c1 @ [ev_dataReceived pid d]\<rparr>)"
  "getFromBuffers c = (Inl e, c1) \<Longrightarrow> drain c = (if e = ProcessedSilentlyException then drain c1 else (Inl e, c1))"
  by (subst drain.simps, simp)+

lemma drain_result:
  "total_buffered (snd (drain c)) \<le> total_buffered c \<and> (fst (drain c) = Inr () \<longrightarrow> getFromBuffers (snd (drain c)) = (Inr None, snd (drain c)))"
proof (induction "total_buffered c" arbitrary: c rule: less_induct)
  case less
  obtain res c1 where g: "getFromBuffers c = (res, c1)" by force
  have le: "total_buffered c1 \<le> total_buffered c"
    using getFromBuffers_le [of c] g by simp
  consider (none) "res = Inr None" | (some) pid d where "res = Inr (Some (pid, d))"
    | (again) "res = Inl ProcessedSilentlyException" | (err) e where "res = Inl e" "e \<noteq> ProcessedSilentlyException"
    by (metis not_None_eq sum.exhaust surj_pair)
  then show ?case
  proof cases
    case none
    with g show ?thesis
      using drain_step(1) [of c c1] getFromBuffers_None [of c c1] by simp
  next
    case some
    then show ?thesis
      using g drain_step(2) [of c pid d c1] getFromBuffers_decreases(2) [of "(pid, d)" c1 c]
        less [of "c1\<lparr>cn_events := cn_events c1 @ [ev_dataReceived pid d]\<rparr>"] by simp
  next
    case again
    then show ?thesis
      using g drain_step(3) [of c _ c1] getFromBuffers_decreases(1) [of c1 c] less [of c1] by simp
  next
    case err
    then show ?thesis
      using g drain_step(3) [of c e c1] le by simp
  qed
qed

lemma process_next_command_types:
  assumes "process_next_command bind_ok c = Inr c'" and "\<forall>cmd \<in> set (cn_commands c). cmd_type cmd \<noteq> CONNCMD_NONE"
  shows "\<forall>cmd \<in> set (cn_commands c'). cmd_type cmd \<noteq> CONNCMD_NONE"
proof (cases "cn_commands c")
  case Nil
  with assms show ?thesis by (simp add: process_next_command_def)
next
  case (Cons cmd cmds)
  let ?c1 = "c\<lparr>cn_commands := cmds\<rparr>"
  have serve: "st_serve bind_ok ?c1 = Inr c' \<Longrightarrow> set (cn_commands c') \<subseteq> insert (cmd_peer_id_set PEER_ID_SERVER) (set cmds)"
    by (auto simp: st_serve_def SetPeerID_def putCommand_def putEvent_Inr Let_def split: if_splits)
  have connect: "set (cn_commands c') \<subseteq> insert (cmd_send PEER_ID_SERVER 0 [] True) (set cmds)"
    if run: "st_connect bind_ok a ?c1 = Inr c'" for a
  proof -
    obtain p c2 where "createServerPeer a ?c1 = Inr (p, c2)"
      using run by (auto simp: st_connect_def)
    with run createServerPeer_commands [OF this] show ?thesis
      by (auto simp: st_connect_def putEvent_Inr Send_def SetPeerID_def putCommand_def split: if_splits)
  qed
  have step: "conn_step ?c1 c' \<Longrightarrow> cn_commands c' = cmds"
    by (simp add: conn_step_def)
  have "set (cn_commands c') \<subseteq>
      {cmd_peer_id_set PEER_ID_SERVER, cmd_send PEER_ID_SERVER 0 [] True} \<union> set cmds"
  proof (cases "cmd_type cmd = CONNCMD_NONE \<or> cmd_reliable cmd")
    case True
    with assms(1) Cons step conn_step_reliable [of cmd ?c1 c'] show ?thesis
      by (auto simp: process_next_command_def Let_def split: if_splits)
  next
    case False
    then have run: "processNonReliableCommand bind_ok cmd ?c1 = Inr c'"
      using assms(1) Cons by (simp add: process_next_command_def Let_def)
    show ?thesis
    proof (cases "cmd_type cmd = CONNCMD_SERVE \<or> cmd_type cmd = CONNCMD_CONNECT")
      case True
      with run False have "st_serve bind_ok ?c1 = Inr c' \<or> st_connect bind_ok (cmd_address cmd) ?c1 = Inr c'"
        by (auto simp: processNonReliableCommand_def)
      then show ?thesis
        using serve connect [of "cmd_address cmd"] by blast
    next
      case no: False
      with step conn_step_nonreliable [OF run] show ?thesis by auto
    qed
  qed
  moreover have "cmd_type (cmd_peer_id_set i) \<noteq> CONNCMD_NONE" "cmd_type (cmd_send i n d b) \<noteq> CONNCMD_NONE" for i n d b
    by (simp_all add: cmd_peer_id_set_def cmd_send_def cmd_create_def)
  ultimately show ?thesis
    using assms(2) Cons by auto
qed

text \<open>
  C22: Reading from the buffers always ends. On a well-formed connection the loop over
  \<open>getFromBuffers\<close> returns, each packet that it reads leaves fewer in the buffers, and it stops
  either with no packet left that could be read, or, before that, at one with invalid contents.
\<close>

theorem drain_ends:
  assumes "conn_ok N c"
  shows "\<exists>res c'. drain c = (res, c') \<and> conn_ok N c' \<and> total_buffered c' \<le> total_buffered c \<and>
    (res = Inr () \<and> getFromBuffers c' = (Inr None, c') \<or> res = Inl InvalidIncomingDataException)"
proof -
  obtain res c' where d: "drain c = (res, c')" by force
  then have "conn_ok N c'" "res = Inr () \<or> res = Inl InvalidIncomingDataException"
    using drain_safe [OF assms, of "{}"] drain_errors [of c] by (cases res; auto)+
  with d drain_result [of c] show ?thesis by auto
qed



lemma drain_ends_witness:
  "let c = (Connection_new 512)\<lparr>cn_peers := [(2, UDPPeer_new 2 9)], cn_peer_ids := [2]\<rparr>
   in \<exists>res c'. drain c = (res, c') \<and> total_buffered c' \<le> total_buffered c"
  unfolding Let_def
  using drain_ends [of 0 "(Connection_new 512)\<lparr>cn_peers := [(2, UDPPeer_new 2 9)], cn_peer_ids := [2]\<rparr>"]
    conn_ok_one_peer [of "(Connection_new 512)\<lparr>cn_peers := [(2, UDPPeer_new 2 9)], cn_peer_ids := [2]\<rparr>" 2 9 0]
  by auto

end
