(* ===== verification/InventoryAction.thy ===== *)
theory InventoryAction
  imports TextIO
begin

section \<open>Inventory locations and actions\<close>

text \<open>
  \<^verbatim>\<open>InventoryLocation\<close> and \<^verbatim>\<open>InventoryAction\<close> of \<^verbatim>\<open>src/inventorymanager.h\<close> and
  \<^verbatim>\<open>src/inventorymanager.cpp\<close>: which inventory is meant, and the move, drop and craft actions a
  client sends to the server as text.
\<close>

subsection \<open>Locations\<close>

datatype location_type = UNDEFINED | CURRENT_PLAYER | PLAYER | NODEMETA | DETACHED

record location =
  loc_type :: location_type
  loc_name :: string
  loc_p :: v3

definition location_new :: location where
  "location_new = \<lparr>loc_type = UNDEFINED, loc_name = [], loc_p = mk_v3 0 0 0\<rparr>"

definition setUndefined :: "location \<Rightarrow> location" where
  "setUndefined l = l\<lparr>loc_type := UNDEFINED\<rparr>"

definition setCurrentPlayer :: "location \<Rightarrow> location" where
  "setCurrentPlayer l = l\<lparr>loc_type := CURRENT_PLAYER\<rparr>"

definition setPlayer :: "string \<Rightarrow> location \<Rightarrow> location" where
  "setPlayer n l = l\<lparr>loc_type := PLAYER, loc_name := n\<rparr>"

definition setNodeMeta :: "v3 \<Rightarrow> location \<Rightarrow> location" where
  "setNodeMeta p l = l\<lparr>loc_type := NODEMETA, loc_p := p\<rparr>"

definition setDetached :: "string \<Rightarrow> location \<Rightarrow> location" where
  "setDetached n l = l\<lparr>loc_type := DETACHED, loc_name := n\<rparr>"

text \<open>\<open>operator==\<close>: two undefined locations are not equal.\<close>

definition location_eq :: "location \<Rightarrow> location \<Rightarrow> bool" where
  "location_eq l other \<longleftrightarrow>
     loc_type l = loc_type other \<and>
     (case loc_type l of
        UNDEFINED \<Rightarrow> False
      | CURRENT_PLAYER \<Rightarrow> True
      | PLAYER \<Rightarrow> loc_name l = loc_name other
      | NODEMETA \<Rightarrow> loc_p l = loc_p other
      | DETACHED \<Rightarrow> loc_name l = loc_name other)"

definition applyCurrentPlayer :: "string \<Rightarrow> location \<Rightarrow> location" where
  "applyCurrentPlayer n l = (if loc_type l = CURRENT_PLAYER then setPlayer n l else l)"

definition location_serialize :: "location \<Rightarrow> string" where
  "location_serialize l =
     (case loc_type l of
        UNDEFINED \<Rightarrow> ''undefined''
      | CURRENT_PLAYER \<Rightarrow> ''current_player''
      | PLAYER \<Rightarrow> ''player:'' @ loc_name l
      | NODEMETA \<Rightarrow> ''nodemeta:'' @ int_str (vX (loc_p l)) @ '','' @ int_str (vY (loc_p l)) @ '','' @ int_str (vZ (loc_p l))
      | DETACHED \<Rightarrow> ''detached:'' @ loc_name l)"

text \<open>An unknown type leaves the location as it was.\<close>

definition location_deSerialize :: "istream \<Rightarrow> location \<Rightarrow> location" where
  "location_deSerialize is l =
     (let (tname, is1) = getline (CHR '':'') [] is
      in if tname = ''undefined'' then setUndefined l
         else if tname = ''current_player'' then setCurrentPlayer l
         else if tname = ''player'' then
           setPlayer (fst (getline (CHR 0x0A) (loc_name l) is1)) l
         else if tname = ''nodemeta'' then
           let pos = fst (getline (CHR 0x0A) [] is1);
               (x, fn1) = strfnd_next '','' (strfnd_start pos);
               (y, fn2) = strfnd_next '','' fn1;
               (z, _) = strfnd_next '','' fn2
           in setNodeMeta (mk_v3 (stoi x) (stoi y) (stoi z)) l
         else if tname = ''detached'' then
           setDetached (fst (getline (CHR 0x0A) (loc_name l) is1)) l
         else l)"

definition location_deSerialize_string :: "string \<Rightarrow> location \<Rightarrow> location" where
  "location_deSerialize_string s = location_deSerialize (open_stream s)"

subsection \<open>Actions\<close>

record move_action =
  from_inv :: location
  from_list :: string
  from_i :: int
  to_inv :: location
  to_list :: string
  to_i :: int

definition move_action_new :: move_action where
  "move_action_new =
     \<lparr>from_inv = location_new, from_list = [], from_i = -1, to_inv = location_new, to_list = [], to_i = -1\<rparr>"

record imove_action =
  im_move :: move_action
  im_count :: u16
  move_somewhere :: bool
  caused_by_move_somewhere :: bool
  move_count :: u32

definition imove_action_new :: imove_action where
  "imove_action_new =
     \<lparr>im_move = move_action_new, im_count = 0, move_somewhere = False,
      caused_by_move_somewhere = False, move_count = 0\<rparr>"

record idrop_action =
  id_move :: move_action
  id_count :: u16

record icraft_action =
  ic_count :: u16
  craft_inv :: location

datatype inventory_action = Move imove_action | Drop idrop_action | Craft icraft_action

definition swapDirections :: "move_action \<Rightarrow> move_action" where
  "swapDirections a =
     \<lparr>from_inv = to_inv a, from_list = to_list a, from_i = to_i a,
      to_inv = from_inv a, to_list = from_list a, to_i = from_i a\<rparr>"

abbreviation space :: char where "space \<equiv> CHR '' ''"

definition IMoveAction_serialize :: "imove_action \<Rightarrow> string" where
  "IMoveAction_serialize a =
     (let m = im_move a
      in (if \<not> move_somewhere a then ''Move '' else ''MoveSomewhere '') @
         nat_str (unat (im_count a)) @ [space] @
         location_serialize (from_inv m) @ [space] @ from_list m @ [space] @ int_str (from_i m) @ [space] @
         location_serialize (to_inv m) @ [space] @ to_list m @
         (if \<not> move_somewhere a then [space] @ int_str (to_i m) else []))"

definition IDropAction_serialize :: "idrop_action \<Rightarrow> string" where
  "IDropAction_serialize a =
     (let m = id_move a
      in ''Drop '' @ nat_str (unat (id_count a)) @ [space] @ location_serialize (from_inv m) @ [space] @
         from_list m @ [space] @ int_str (from_i m))"

definition ICraftAction_serialize :: "icraft_action \<Rightarrow> string" where
  "ICraftAction_serialize a =
     ''Craft '' @ nat_str (unat (ic_count a)) @ [space] @ location_serialize (craft_inv a) @ [space]"

definition InventoryAction_serialize :: "inventory_action \<Rightarrow> string" where
  "InventoryAction_serialize a =
     (case a of Move m \<Rightarrow> IMoveAction_serialize m | Drop d \<Rightarrow> IDropAction_serialize d
      | Craft c \<Rightarrow> ICraftAction_serialize c)"

text \<open>
  The constructors from a stream. One string \<open>ts\<close> receives the fields one after the other, so a
  field that the stream no longer has is read as the one before it.
\<close>

definition IMoveAction_deSerialize :: "bool \<Rightarrow> istream \<Rightarrow> imove_action" where
  "IMoveAction_deSerialize somewhere is =
     (let (ts1, is1) = getline space [] is;
          (ts2, is2) = getline space ts1 is1;
          (flist, is3) = getline space [] is2;
          (ts4, is4) = getline space ts2 is3;
          (ts5, is5) = getline space ts4 is4;
          (tlist, is6) = getline space [] is5;
          ti = (if somewhere then -1 else to_s16 (stoi (fst (getline space ts5 is6))))
      in imove_action_new\<lparr>
           im_count := word_of_int (stoi ts1),
           move_somewhere := somewhere,
           im_move := \<lparr>from_inv = location_deSerialize_string ts2 location_new, from_list = flist,
                       from_i = to_s16 (stoi ts4),
                       to_inv = location_deSerialize_string ts5 location_new, to_list = tlist, to_i = ti\<rparr>\<rparr>)"

definition IDropAction_deSerialize :: "istream \<Rightarrow> idrop_action" where
  "IDropAction_deSerialize is =
     (let (ts1, is1) = getline space [] is;
          (ts2, is2) = getline space ts1 is1;
          (flist, is3) = getline space [] is2;
          (ts4, _) = getline space ts2 is3
      in \<lparr>id_move = move_action_new\<lparr>from_inv := location_deSerialize_string ts2 location_new,
             from_list := flist, from_i := to_s16 (stoi ts4)\<rparr>,
          id_count = word_of_int (stoi ts1)\<rparr>)"

definition ICraftAction_deSerialize :: "istream \<Rightarrow> icraft_action" where
  "ICraftAction_deSerialize is =
     (let (ts1, is1) = getline space [] is;
          (ts2, _) = getline space ts1 is1
      in \<lparr>ic_count = word_of_int (stoi ts1), craft_inv = location_deSerialize_string ts2 location_new\<rparr>)"

text \<open>An unknown type gives the null pointer.\<close>

definition InventoryAction_deSerialize :: "istream \<Rightarrow> inventory_action option" where
  "InventoryAction_deSerialize is =
     (let (type, is1) = getline space [] is
      in if type = ''Move'' then Some (Move (IMoveAction_deSerialize False is1))
         else if type = ''MoveSomewhere'' then Some (Move (IMoveAction_deSerialize True is1))
         else if type = ''Drop'' then Some (Drop (IDropAction_deSerialize is1))
         else if type = ''Craft'' then Some (Craft (ICraftAction_deSerialize is1))
         else None)"

subsection \<open>What is written is read back\<close>

text \<open>
  A location as the text holds it: the fields of another type are not written. The names of
  players and of detached inventories have no space and no end of line.
\<close>

definition s32_range :: "int \<Rightarrow> bool" where
  "s32_range i \<longleftrightarrow> - 2147483648 \<le> i \<and> i \<le> 2147483647"

definition location_plain :: "location \<Rightarrow> bool" where
  "location_plain l \<longleftrightarrow>
     (if loc_type l = PLAYER \<or> loc_type l = DETACHED then space \<notin> set (loc_name l) \<and> CHR 0x0A \<notin> set (loc_name l)
      else loc_name l = []) \<and>
     (if loc_type l = NODEMETA then s32_range (vX (loc_p l)) \<and> s32_range (vY (loc_p l)) \<and> s32_range (vZ (loc_p l))
      else loc_p l = mk_v3 0 0 0)"

lemma int_str_sep: "\<not> is_digit d \<Longrightarrow> d \<noteq> CHR ''-'' \<Longrightarrow> d \<notin> set (int_str i)"
  by (simp add: int_str_def nat_str_sep)

lemma location_eqI:
  "loc_type l = t \<Longrightarrow> loc_name l = n \<Longrightarrow> loc_p l = p \<Longrightarrow> l = \<lparr>loc_type = t, loc_name = n, loc_p = p\<rparr>"
  by simp

lemma getline_colon:
  "CHR '':'' \<notin> set t \<Longrightarrow> getline (CHR '':'') [] (open_stream (t @ CHR '':'' # s)) = (t, open_stream s)"
  by (simp add: open_stream_def)

lemma getline_all: "d \<notin> set s \<Longrightarrow> fst (getline d old (open_stream s)) = s"
  by (simp add: open_stream_def)

lemma stoi_s32 [simp]: "s32_range i \<Longrightarrow> stoi (int_str i) = i"
  by (simp add: s32_range_def stoi_int_str)

lemma strfnd_three:
  assumes "c \<notin> set x" "c \<notin> set y" "c \<notin> set z"
  shows "\<exists>f1 f2 f3. strfnd_next [c] (strfnd_start (x @ c # y @ c # z)) = (x, f1) \<and>
    strfnd_next [c] f1 = (y, f2) \<and> strfnd_next [c] f2 = (z, f3)"
proof -
  obtain f1 where 1: "strfnd_next [c] (strfnd_start (x @ c # y @ c # z)) = (x, f1)" "strfnd_rest f1 = y @ c # z"
    using strfnd_next_char [of "strfnd_start (x @ c # y @ c # z)" x c "y @ c # z"] assms
    by (metis eq_fst_iff snd_conv strfnd_rest_start)
  obtain f2 where 2: "strfnd_next [c] f1 = (y, f2)" "strfnd_rest f2 = z"
    using strfnd_next_char [OF 1(2) assms(2)] by (metis eq_fst_iff snd_conv)
  obtain f3 where 3: "strfnd_next [c] f2 = (z, f3)"
    using strfnd_next_last [of c f2] assms(3) 2(2) by (metis eq_fst_iff)
  show ?thesis using 1(1) 2(1) 3 by blast
qed

lemma strfnd_three_ints:
  assumes "i = int_str x" "j = int_str y" "k = int_str z"
  shows "\<exists>f1 f2 f3. strfnd_next '','' (strfnd_start (i @ CHR '','' # j @ CHR '','' # k)) = (i, f1) \<and>
    strfnd_next '','' f1 = (j, f2) \<and> strfnd_next '','' f2 = (k, f3)"
  unfolding assms by (intro strfnd_three int_str_sep) (simp_all add: is_digit_def)

lemma location_roundtrip:
  assumes "location_plain l"
  shows "location_deSerialize_string (location_serialize l) location_new = l"
proof (cases "loc_type l")
  case NODEMETA
  let ?x = "vX (loc_p l)" and ?y = "vY (loc_p l)" and ?z = "vZ (loc_p l)"
  have r: "s32_range ?x" "s32_range ?y" "s32_range ?z" "loc_name l = []"
    using assms NODEMETA by (auto simp: location_plain_def)
  have "CHR 0x0A \<notin> set (int_str i)" for i
    by (rule int_str_sep) (simp_all add: is_digit_def)
  then have line: "getline (CHR 0x0A) [] (open_stream (int_str ?x @ CHR '','' # int_str ?y @ CHR '','' # int_str ?z)) =
      (int_str ?x @ CHR '','' # int_str ?y @ CHR '','' # int_str ?z, \<lparr>buf = [], good = False\<rparr>)"
    by (simp add: open_stream_def)
  obtain f1 f2 f3 where f: "strfnd_next '','' (strfnd_start (int_str ?x @ CHR '','' # int_str ?y @ CHR '','' # int_str ?z)) = (int_str ?x, f1)"
    "strfnd_next '','' f1 = (int_str ?y, f2)" "strfnd_next '','' f2 = (int_str ?z, f3)"
    using strfnd_three_ints [OF refl refl refl] by blast
  have "getline (CHR '':'') [] (open_stream (location_serialize l)) =
      (''nodemeta'', open_stream (int_str ?x @ CHR '','' # int_str ?y @ CHR '','' # int_str ?z))"
    using getline_colon [of "''nodemeta''"] NODEMETA by (simp add: location_serialize_def)
  then have "location_deSerialize_string (location_serialize l) location_new = setNodeMeta (mk_v3 ?x ?y ?z) location_new"
    by (simp add: location_deSerialize_string_def location_deSerialize_def Let_def line f r)
  with NODEMETA r(4) show ?thesis
    by (simp add: setNodeMeta_def location_new_def)
next
  case PLAYER
  then have n: "CHR 0x0A \<notin> set (loc_name l)" "loc_p l = mk_v3 0 0 0"
    using assms by (auto simp: location_plain_def)
  have "getline (CHR '':'') [] (open_stream (location_serialize l)) = (''player'', open_stream (loc_name l))"
    using getline_colon [of "''player''"] PLAYER by (simp add: location_serialize_def)
  with n PLAYER show ?thesis
    by (simp add: location_deSerialize_string_def location_deSerialize_def getline_all setPlayer_def location_new_def)
next
  case DETACHED
  then have n: "CHR 0x0A \<notin> set (loc_name l)" "loc_p l = mk_v3 0 0 0"
    using assms by (auto simp: location_plain_def)
  have "getline (CHR '':'') [] (open_stream (location_serialize l)) = (''detached'', open_stream (loc_name l))"
    using getline_colon [of "''detached''"] DETACHED by (simp add: location_serialize_def)
  with n DETACHED show ?thesis
    by (simp add: location_deSerialize_string_def location_deSerialize_def getline_all setDetached_def location_new_def)
next
  case UNDEFINED
  with assms show ?thesis
    by (simp add: location_plain_def location_serialize_def location_deSerialize_string_def location_deSerialize_def
        open_stream_def setUndefined_def location_new_def Let_def)
next
  case CURRENT_PLAYER
  with assms show ?thesis
    by (simp add: location_plain_def location_serialize_def location_deSerialize_string_def location_deSerialize_def
        open_stream_def setCurrentPlayer_def location_new_def Let_def)
qed

lemma location_no_space: "location_plain l \<Longrightarrow> space \<notin> set (location_serialize l)"
  using int_str_sep [of space] by (auto simp: location_plain_def location_serialize_def is_digit_def split: location_type.splits if_splits)

definition s16_range :: "int \<Rightarrow> bool" where
  "s16_range i \<longleftrightarrow> - 32768 \<le> i \<and> i \<le> 32767"

lemma stoi_s16 [simp]: "s16_range i \<Longrightarrow> stoi (int_str i) = i" "s16_range i \<Longrightarrow> to_s16 i = i"
  by (simp_all add: s16_range_def s_range stoi_int_str)

lemma getline_space:
  "space \<notin> set t \<Longrightarrow> getline space old (open_stream (t @ space # s)) = (t, open_stream s)"
  by (simp add: open_stream_def)

lemma getline_space_end:
  "space \<notin> set t \<Longrightarrow> getline space old (open_stream t) = (t, \<lparr>buf = [], good = False\<rparr>)"
  by (simp add: open_stream_def)

lemma space_int_str: "space \<notin> set (int_str i)"
  by (rule int_str_sep) (simp_all add: is_digit_def)

lemma count_text: "word_of_int (stoi (nat_str (unat (c :: u16)))) = c"
  using unat_u16_less [of c] by (simp add: stoi_nat_str)

text \<open>What an action must be for its text to hold all of it.\<close>

definition source_plain :: "move_action \<Rightarrow> bool" where
  "source_plain m \<longleftrightarrow> location_plain (from_inv m) \<and> space \<notin> set (from_list m) \<and> s16_range (from_i m)"

definition dest_plain :: "move_action \<Rightarrow> bool" where
  "dest_plain m \<longleftrightarrow> location_plain (to_inv m) \<and> space \<notin> set (to_list m) \<and> s16_range (to_i m)"

definition action_plain :: "inventory_action \<Rightarrow> bool" where
  "action_plain a \<longleftrightarrow>
     (case a of
        Move m \<Rightarrow> source_plain (im_move m) \<and> dest_plain (im_move m) \<and>
          \<not> caused_by_move_somewhere m \<and> move_count m = 0 \<and> (move_somewhere m \<longrightarrow> to_i (im_move m) = -1)
      | Drop d \<Rightarrow> source_plain (id_move d) \<and>
          to_inv (id_move d) = location_new \<and> to_list (id_move d) = [] \<and> to_i (id_move d) = -1
      | Craft c \<Rightarrow> location_plain (craft_inv c))"

lemmas action_parts = location_roundtrip location_no_space getline_space getline_space_end space_int_str count_text

lemma IMoveAction_roundtrip:
  assumes "action_plain (Move m)"
  shows "InventoryAction_deSerialize (open_stream (IMoveAction_serialize m)) = Some (Move m)"
proof -
  have m: "source_plain (im_move m)" "dest_plain (im_move m)" "\<not> caused_by_move_somewhere m" "move_count m = 0"
    "move_somewhere m \<Longrightarrow> to_i (im_move m) = -1"
    using assms by (auto simp: action_plain_def)
  note p = m(1,2) [unfolded source_plain_def dest_plain_def]
  show ?thesis
  proof (cases "move_somewhere m")
    case True
    have "getline space [] (open_stream (IMoveAction_serialize m)) = (''MoveSomewhere'', open_stream
        (nat_str (unat (im_count m)) @ [space] @ location_serialize (from_inv (im_move m)) @ [space] @
         from_list (im_move m) @ [space] @ int_str (from_i (im_move m)) @ [space] @
         location_serialize (to_inv (im_move m)) @ [space] @ to_list (im_move m)))"
      using getline_space [of "''MoveSomewhere''"] True by (simp add: IMoveAction_serialize_def Let_def)
    then show ?thesis
      using p m(3,4) m(5) [OF True] True
      by (simp add: InventoryAction_deSerialize_def IMoveAction_deSerialize_def action_parts imove_action_new_def)
  next
    case False
    have "getline space [] (open_stream (IMoveAction_serialize m)) = (''Move'', open_stream
        (nat_str (unat (im_count m)) @ [space] @ location_serialize (from_inv (im_move m)) @ [space] @
         from_list (im_move m) @ [space] @ int_str (from_i (im_move m)) @ [space] @
         location_serialize (to_inv (im_move m)) @ [space] @ to_list (im_move m) @ [space] @ int_str (to_i (im_move m))))"
      using getline_space [of "''Move''"] False by (simp add: IMoveAction_serialize_def Let_def)
    then show ?thesis
      using p m(3,4) False
      by (simp add: InventoryAction_deSerialize_def IMoveAction_deSerialize_def action_parts imove_action_new_def Let_def)
  qed
qed

lemma IDropAction_roundtrip:
  assumes "action_plain (Drop d)"
  shows "InventoryAction_deSerialize (open_stream (IDropAction_serialize d)) = Some (Drop d)"
proof -
  have d: "source_plain (id_move d)" "to_inv (id_move d) = location_new" "to_list (id_move d) = []" "to_i (id_move d) = -1"
    using assms by (auto simp: action_plain_def)
  have "getline space [] (open_stream (IDropAction_serialize d)) = (''Drop'', open_stream
      (nat_str (unat (id_count d)) @ [space] @ location_serialize (from_inv (id_move d)) @ [space] @
       from_list (id_move d) @ [space] @ int_str (from_i (id_move d))))"
    using getline_space [of "''Drop''"] by (simp add: IDropAction_serialize_def Let_def)
  then show ?thesis
    using d(1) [unfolded source_plain_def] d(2-4)
    by (simp add: InventoryAction_deSerialize_def IDropAction_deSerialize_def action_parts move_action_new_def Let_def)
qed

lemma ICraftAction_roundtrip:
  assumes "action_plain (Craft c)"
  shows "InventoryAction_deSerialize (open_stream (ICraftAction_serialize c)) = Some (Craft c)"
proof -
  have c: "location_plain (craft_inv c)"
    using assms by (auto simp: action_plain_def)
  have "getline space [] (open_stream (ICraftAction_serialize c)) = (''Craft'', open_stream
      (nat_str (unat (ic_count c)) @ [space] @ location_serialize (craft_inv c) @ [space]))"
    using getline_space [of "''Craft''"] by (simp add: ICraftAction_serialize_def)
  with c show ?thesis
    by (simp add: InventoryAction_deSerialize_def ICraftAction_deSerialize_def action_parts Let_def)
qed

text \<open>
  C16: An inventory action that a client writes is read back by the server as it was: its kind,
  count, locations, list names and slots. The conditions are what the text can hold: no spaces
  in the names, and the fields that the kind of action does not use at their defaults.
\<close>

theorem inventory_action_roundtrip:
  assumes "action_plain a"
  shows "InventoryAction_deSerialize (open_stream (InventoryAction_serialize a)) = Some a"
  using assms
  by (cases a) (simp_all add: InventoryAction_serialize_def IMoveAction_roundtrip IDropAction_roundtrip ICraftAction_roundtrip)

theorem inventory_action_roundtrip_witness:
  "let a = Move (imove_action_new\<lparr>im_count := 7, im_move :=
       \<lparr>from_inv = setPlayer ''singleplayer'' location_new, from_list = ''main'', from_i = 3,
        to_inv = setNodeMeta (mk_v3 (-12) 5 300) location_new, to_list = ''dst'', to_i = 0\<rparr>\<rparr>)
   in InventoryAction_deSerialize (open_stream (InventoryAction_serialize a)) = Some a"
  unfolding Let_def
  by (rule inventory_action_roundtrip)
    (simp add: action_plain_def source_plain_def dest_plain_def location_plain_def imove_action_new_def setPlayer_def
      setNodeMeta_def location_new_def s32_range_def s16_range_def)

end
