(* ===== verification/InventoryManager.thy ===== *)
theory InventoryManager
  imports Inventory InventoryAction "HOL-Library.AList"
begin

section \<open>The inventories of a server\<close>

text \<open>
  \<^verbatim>\<open>ServerInventoryManager\<close> of \<^verbatim>\<open>src/server/serverinventorymgr.cpp\<close>: the detached inventories it
  owns, and the inventories of players and nodes it reaches through the environment. A pointer
  to an inventory is its key, a pointer to a list is the key with the name of the list. What the
  manager tells the environment and the clients is a log.
\<close>

datatype inv_key = KPlayer string | KNode v3 | KDetached string

type_synonym list_ref = "inv_key \<times> string"

text \<open>\<open>RollbackAction::setModifyInventoryStack\<close>, and the calls to the environment and the server.\<close>

record rollback_action =
  ra_location :: string
  ra_list :: string
  ra_index :: nat
  ra_add :: bool
  ra_stack :: item_stack

datatype notice =
    PlayerModified string
  | NodeMetaChanged v3
  | SendDetached "inventory option" string u16
  | Reported rollback_action

text \<open>
  \<open>w_env\<close> is whether the environment is set, \<open>w_active\<close> the players that have an active object,
  \<open>w_peers\<close> the peer ids of the players, \<open>w_owners\<close> the owners of detached inventories, \<open>w_script\<close>
  stands for the state of the scripts that the callbacks read and change.
\<close>

record world =
  w_env :: bool
  w_invs :: "(inv_key \<times> inventory) list"
  w_active :: "string list"
  w_peers :: "(string \<times> u16) list"
  w_owners :: "(string \<times> string) list"
  w_rollback :: bool
  w_log :: "notice list"
  w_script :: nat

definition notify :: "notice \<Rightarrow> world \<Rightarrow> world" where
  "notify n w = w\<lparr>w_log := w_log w @ [n]\<rparr>"

definition getInventory :: "location \<Rightarrow> world \<Rightarrow> inv_key option" where
  "getInventory loc w =
     (case loc_type loc of
        UNDEFINED \<Rightarrow> None
      | CURRENT_PLAYER \<Rightarrow> None
      | PLAYER \<Rightarrow>
          if w_env w \<and> map_of (w_invs w) (KPlayer (loc_name loc)) \<noteq> None \<and> loc_name loc \<in> set (w_active w)
          then Some (KPlayer (loc_name loc)) else None
      | NODEMETA \<Rightarrow>
          if w_env w \<and> map_of (w_invs w) (KNode (loc_p loc)) \<noteq> None then Some (KNode (loc_p loc)) else None
      | DETACHED \<Rightarrow>
          if map_of (w_invs w) (KDetached (loc_name loc)) \<noteq> None then Some (KDetached (loc_name loc)) else None)"

definition setInventoryModified :: "location \<Rightarrow> world \<Rightarrow> world res" where
  "setInventoryModified loc w =
     (case loc_type loc of
        UNDEFINED \<Rightarrow> Inr w
      | CURRENT_PLAYER \<Rightarrow> Inr w
      | PLAYER \<Rightarrow>
          if \<not> w_env w then Inl NullDereference
          else (case map_of (w_invs w) (KPlayer (loc_name loc)) of
              None \<Rightarrow> Inr w
            | Some iv \<Rightarrow>
                Inr (notify (PlayerModified (loc_name loc))
                  (w\<lparr>w_invs := AList.update (KPlayer (loc_name loc)) (inv_setModified True iv) (w_invs w)\<rparr>)))
      | NODEMETA \<Rightarrow> if \<not> w_env w then Inl NullDereference else Inr (notify (NodeMetaChanged (loc_p loc)) w)
      | DETACHED \<Rightarrow> Inr w)"

text \<open>
  Replacing an inventory runs the destructor of the old one, which ends the program when one of
  its lists is locked.
\<close>

definition getPeerId :: "string \<Rightarrow> world \<Rightarrow> u16" where
  "getPeerId player w = (case map_of (w_peers w) player of Some p \<Rightarrow> p | None \<Rightarrow> 0)"

definition createDetachedInventory :: "string \<Rightarrow> string \<Rightarrow> world \<Rightarrow> world res" where
  "createDetachedInventory name player w =
     rbind (case map_of (w_invs w) (KDetached name) of
              None \<Rightarrow> Inr ()
            | Some old \<Rightarrow> (case inv_clear old of Inl _ \<Rightarrow> Inl AssertFailed | Inr _ \<Rightarrow> Inr ())) (\<lambda>_.
       let w1 = w\<lparr>w_invs := AList.update (KDetached name) inv_new (w_invs w)\<rparr>
       in if player \<noteq> [] then
            let w2 = w1\<lparr>w_owners := AList.update name player (w_owners w1)\<rparr>
            in Inr (if w_env w2 \<and> map_of (w_invs w2) (KPlayer name) \<noteq> None
                    then notify (SendDetached (Some inv_new) name (getPeerId name w2)) w2 else w2)
          else Inr (if w_env w1 then notify (SendDetached (Some inv_new) name 0) w1 else w1))"

definition owner_of :: "string \<Rightarrow> world \<Rightarrow> string" where
  "owner_of name w = (case map_of (w_owners w) name of Some p \<Rightarrow> p | None \<Rightarrow> [])"

definition removeDetachedInventory :: "string \<Rightarrow> world \<Rightarrow> (bool \<times> world) res" where
  "removeDetachedInventory name w =
     (case map_of (w_invs w) (KDetached name) of
        None \<Rightarrow> Inr (False, w)
      | Some old \<Rightarrow>
          case inv_clear old of
            Inl _ \<Rightarrow> Inl AssertFailed
          | Inr _ \<Rightarrow>
              let w1 = (if owner_of name w \<noteq> [] then
                          if w_env w \<and> map_of (w_invs w) (KPlayer (owner_of name w)) \<noteq> None
                          then notify (SendDetached None name (getPeerId (owner_of name w) w)) w else w
                        else if w_env w then notify (SendDetached None name 0) w else w)
              in Inr (True, w1\<lparr>w_invs := AList.delete (KDetached name) (w_invs w1),
                              w_owners := AList.delete name (w_owners w1)\<rparr>))"

definition checkDetachedInventoryAccess :: "location \<Rightarrow> string \<Rightarrow> world \<Rightarrow> bool res" where
  "checkDetachedInventoryAccess loc player w =
     (if loc_type loc \<noteq> DETACHED then Inl AssertFailed
      else if map_of (w_invs w) (KDetached (loc_name loc)) = None then Inr False
      else Inr (owner_of (loc_name loc) w = [] \<or> owner_of (loc_name loc) w = player))"

text \<open>The names and inventories that the callback is applied to.\<close>

definition sendDetachedInventories :: "string \<Rightarrow> bool \<Rightarrow> world \<Rightarrow> (string \<times> inventory) list" where
  "sendDetachedInventories peer_name incremental w =
     concat (map (\<lambda>(k, iv). case k of
         KDetached name \<Rightarrow>
           if incremental \<and> \<not> inv_checkModified iv then []
           else if peer_name \<noteq> [] \<and> owner_of name w \<noteq> [] \<and> peer_name \<noteq> owner_of name w then []
           else [(name, iv)]
       | _ \<Rightarrow> []) (w_invs w))"

subsection \<open>Lists by reference\<close>

definition list_at :: "list_ref \<Rightarrow> world \<Rightarrow> inv_list option" where
  "list_at r w = Option.bind (map_of (w_invs w) (fst r)) (inv_getList (snd r))"

definition inv_putList :: "string \<Rightarrow> inv_list \<Rightarrow> inventory \<Rightarrow> inventory" where
  "inv_putList name l iv =
     (case inv_getListIndex name iv of
        None \<Rightarrow> iv
      | Some i \<Rightarrow> iv\<lparr>inv_lists := (inv_lists iv)[i := l]\<rparr>)"

definition put_list :: "list_ref \<Rightarrow> inv_list \<Rightarrow> world \<Rightarrow> world" where
  "put_list r l w =
     (case map_of (w_invs w) (fst r) of
        None \<Rightarrow> w
      | Some iv \<Rightarrow> w\<lparr>w_invs := AList.update (fst r) (inv_putList (snd r) l iv) (w_invs w)\<rparr>)"

text \<open>Dereferencing a pointer to a list that is no longer there is undefined.\<close>

definition deref :: "list_ref \<Rightarrow> world \<Rightarrow> inv_list res" where
  "deref r w = (case list_at r w of None \<Rightarrow> Inl NullDereference | Some l \<Rightarrow> Inr l)"

definition modify_list :: "list_ref \<Rightarrow> (inv_list \<Rightarrow> inv_list) \<Rightarrow> world \<Rightarrow> world res" where
  "modify_list r f w = rbind (deref r w) (\<lambda>l. Inr (put_list r (f l) w))"

text \<open>\<open>get_borrow_checked_invlist\<close>: a list with its resize lock, if it exists.\<close>

definition find_list :: "location \<Rightarrow> string \<Rightarrow> world \<Rightarrow> list_ref option" where
  "find_list loc listname w =
     Option.bind (getInventory loc w) (\<lambda>k.
       if list_at (k, listname) w = None then None else Some (k, listname))"

definition lock :: "list_ref \<Rightarrow> world \<Rightarrow> world res" where
  "lock r = modify_list r il_resizeLock"

definition unlock :: "list_ref \<Rightarrow> world \<Rightarrow> world res" where
  "unlock r = modify_list r il_resizeUnlock"

definition borrow :: "location \<Rightarrow> string \<Rightarrow> world \<Rightarrow> (list_ref option \<times> world) res" where
  "borrow loc listname w =
     (case find_list loc listname w of
        None \<Rightarrow> Inr (None, w)
      | Some r \<Rightarrow> rbind (lock r w) (\<lambda>w1. Inr (Some r, w1)))"

definition release :: "list_ref option \<Rightarrow> world \<Rightarrow> world res" where
  "release r w = (case r of None \<Rightarrow> Inr w | Some r \<Rightarrow> unlock r w)"

end
