(* ===== verification/MoveAction.thy ===== *)
theory MoveAction
  imports InventoryManager
begin

section \<open>Moving items between inventories\<close>

text \<open>
  \<^verbatim>\<open>IMoveAction\<close> and \<^verbatim>\<open>IDropAction\<close> of \<^verbatim>\<open>src/inventorymanager.cpp\<close>: what the server does when a player
  moves or drops items. The callbacks into the scripts are parameters; they may change every
  part of the world, the inventories included. While they run, the lists of the move are locked
  against being removed or made smaller.
\<close>

record callbacks =
  cb_AllowMove :: "location_type \<Rightarrow> move_action \<Rightarrow> int \<Rightarrow> world \<Rightarrow> int \<times> world"
  cb_AllowPut :: "location_type \<Rightarrow> move_action \<Rightarrow> item_stack \<Rightarrow> world \<Rightarrow> int \<times> world"
  cb_AllowTake :: "location_type \<Rightarrow> move_action \<Rightarrow> item_stack \<Rightarrow> world \<Rightarrow> int \<times> world"
  cb_OnMove :: "location_type \<Rightarrow> move_action \<Rightarrow> int \<Rightarrow> world \<Rightarrow> world"
  cb_OnPut :: "location_type \<Rightarrow> move_action \<Rightarrow> item_stack \<Rightarrow> world \<Rightarrow> world"
  cb_OnTake :: "location_type \<Rightarrow> move_action \<Rightarrow> item_stack \<Rightarrow> world \<Rightarrow> world"
  cb_OnDrop :: "item_stack \<Rightarrow> world \<Rightarrow> u16 \<times> world"

definition has_callbacks :: "location_type \<Rightarrow> bool" where
  "has_callbacks t \<longleftrightarrow> t = DETACHED \<or> t = NODEMETA \<or> t = PLAYER"

definition onTake :: "callbacks \<Rightarrow> move_action \<Rightarrow> item_stack \<Rightarrow> world \<Rightarrow> world res" where
  "onTake cb a src_item w =
     (let t = loc_type (from_inv a)
      in if has_callbacks t then Inr (cb_OnTake cb t a src_item w) else Inl AssertFailed)"

definition onPut :: "callbacks \<Rightarrow> move_action \<Rightarrow> item_stack \<Rightarrow> world \<Rightarrow> world res" where
  "onPut cb a src_item w =
     (let t = loc_type (to_inv a)
      in if has_callbacks t then Inr (cb_OnPut cb t a src_item w) else Inl AssertFailed)"

definition onMove :: "callbacks \<Rightarrow> move_action \<Rightarrow> int \<Rightarrow> world \<Rightarrow> world res" where
  "onMove cb a count w =
     (let t = loc_type (from_inv a)
      in if has_callbacks t then Inr (cb_OnMove cb t a count w) else Inl AssertFailed)"

definition allowPut :: "callbacks \<Rightarrow> move_action \<Rightarrow> item_stack \<Rightarrow> world \<Rightarrow> (int \<times> world) res" where
  "allowPut cb a dst_item w =
     (let t = loc_type (to_inv a)
      in if has_callbacks t then Inr (cb_AllowPut cb t a dst_item w) else Inl AssertFailed)"

definition allowTake :: "callbacks \<Rightarrow> move_action \<Rightarrow> item_stack \<Rightarrow> world \<Rightarrow> (int \<times> world) res" where
  "allowTake cb a src_item w =
     (let t = loc_type (from_inv a)
      in if has_callbacks t then Inr (cb_AllowTake cb t a src_item w) else Inl AssertFailed)"

definition allowMove :: "callbacks \<Rightarrow> move_action \<Rightarrow> int \<Rightarrow> world \<Rightarrow> (int \<times> world) res" where
  "allowMove cb a try_take_count w =
     (let t = loc_type (from_inv a)
      in if has_callbacks t then Inr (cb_AllowMove cb t a try_take_count w) else Inl AssertFailed)"

definition getItem_at :: "list_ref \<Rightarrow> int \<Rightarrow> world \<Rightarrow> item_stack res" where
  "getItem_at r i w = rbind (deref r w) (il_getItem (nat i))"

subsection \<open>IMoveAction::apply\<close>

text \<open>
  The checks of \<open>apply\<close> and the stack that is to be moved, with whether it is to be swapped with
  the stack at the destination. The result is \<open>None\<close> where the code returns.
\<close>

definition move_prepare ::
  "IItemDefManager \<Rightarrow> list_ref \<Rightarrow> list_ref \<Rightarrow> imove_action \<Rightarrow> world \<Rightarrow>
   (imove_action \<times> (item_stack \<times> bool) option) res" where
  "move_prepare idm f t a w =
     (let m = im_move a
      in rbind (deref f w) (\<lambda>lf. rbind (deref t w) (\<lambda>lt.
         if from_i m < 0 \<or> uint (il_getSize lf) \<le> from_i m then Inr (a, None)
         else if to_i m < 0 \<or> uint (il_getSize lt) \<le> to_i m then Inr (a, None)
         else if f = t \<and> from_i m = to_i m then Inr (a, None)
         else rbind (il_getItem (nat (from_i m)) lf) (\<lambda>s0.
           let s1 = (if im_count a > 0 \<and> im_count a < st_count s0 then s0\<lparr>st_count := im_count a\<rparr> else s0)
           in if ItemStack_empty s1 then Inr (a, None)
              else rbind (il_itemFits idm (nat (to_i m)) s1 lt) (\<lambda>(fits, restitem).
                let allow_swap = (\<not> fits \<and> st_count restitem = st_count s1 \<and> \<not> caused_by_move_somewhere a);
                    a1 = a\<lparr>move_count := ucast (st_count s1) - ucast (st_count restitem)\<rparr>
                in if caused_by_move_somewhere a \<and> move_count a1 = 0 then Inr (a1, None)
                   else if allow_swap then
                     Inr (a\<lparr>move_count := ucast (st_count s0)\<rparr>, Some (s0, True))
                   else Inr (a1, Some (s1\<lparr>st_count := ucast (move_count a1)\<rparr>, False)))))))"

text \<open>
  The \<open>allow\<close> callbacks: how many items may be taken and put (\<open>-1\<close> for an infinite stack), and
  whether the stacks may be swapped.
\<close>

abbreviation allows :: "int \<Rightarrow> item_stack \<Rightarrow> bool" where
  "allows can s \<equiv> can = -1 \<or> can \<ge> uint (st_count s)"

definition swap_within :: "callbacks \<Rightarrow> list_ref \<Rightarrow> move_action \<Rightarrow> world \<Rightarrow> (int \<times> bool \<times> world) res" where
  "swap_within cb t m w =
     rbind (getItem_at t (to_i m) w) (\<lambda>dst_item.
     rbind (allowMove cb (swapDirections m) (uint (st_count dst_item)) w) (\<lambda>(dst_can_put, w1).
       Inr (dst_can_put, allows dst_can_put dst_item, w1)))"

definition swap_between :: "callbacks \<Rightarrow> list_ref \<Rightarrow> move_action \<Rightarrow> world \<Rightarrow> (bool \<times> world) res" where
  "swap_between cb t m w =
     rbind (getItem_at t (to_i m) w) (\<lambda>dst_item.
     rbind (allowPut cb (swapDirections m) dst_item w) (\<lambda>(src_can_take, w1).
     rbind (allowTake cb (swapDirections m) dst_item w1) (\<lambda>(dst_can_put, w2).
       Inr (allows src_can_take dst_item \<and> allows dst_can_put dst_item, w2))))"

text \<open>When a swap was expected and is not allowed, nothing may be moved.\<close>

definition unless_refused :: "bool \<Rightarrow> int \<Rightarrow> int \<Rightarrow> bool \<Rightarrow> world \<Rightarrow> int \<times> int \<times> bool \<times> world" where
  "unless_refused swap_expected src_can_take dst_can_put allow_swap w =
     (if swap_expected \<noteq> allow_swap then (0, 0, allow_swap, w) else (src_can_take, dst_can_put, allow_swap, w))"

definition move_allow ::
  "callbacks \<Rightarrow> list_ref \<Rightarrow> item_stack \<Rightarrow> bool \<Rightarrow> imove_action \<Rightarrow> world \<Rightarrow> (int \<times> int \<times> bool \<times> world) res" where
  "move_allow cb t src_item swap_expected a w =
     (let m = im_move a
      in if location_eq (from_inv m) (to_inv m) then
           rbind (allowMove cb m (uint (st_count src_item)) w) (\<lambda>(src_can_take, w1).
           rbind (if swap_expected \<and> allows src_can_take src_item then swap_within cb t m w1
                  else Inr (src_can_take, False, w1)) (\<lambda>(dst_can_put, allow_swap, w2).
             Inr (unless_refused swap_expected src_can_take dst_can_put allow_swap w2)))
         else
           rbind (allowPut cb m src_item w) (\<lambda>(dst_can_put, w1).
           rbind (allowTake cb m src_item w1) (\<lambda>(src_can_take, w2).
           rbind (if swap_expected \<and> allows src_can_take src_item \<and> allows dst_can_put src_item
                  then swap_between cb t m w2 else Inr (False, w2)) (\<lambda>(allow_swap, w3).
             Inr (unless_refused swap_expected src_can_take dst_can_put allow_swap w3)))))"

text \<open>The number of items after the limits, with the conversions between \<open>u32\<close> and \<open>s32\<close>.\<close>

definition limit_by :: "int \<Rightarrow> u32 \<Rightarrow> u32" where
  "limit_by can n = (if can \<noteq> -1 then word_of_int (min can (to_s32 (uint n))) else n)"

definition move_limit :: "int \<Rightarrow> int \<Rightarrow> item_stack \<Rightarrow> u32 \<Rightarrow> u32" where
  "move_limit src_can_take dst_can_put s n =
     (let n1 = limit_by dst_can_put (limit_by src_can_take n)
      in if n1 > ucast (st_count s) then ucast (st_count s) else n1)"

definition record_rollback :: "move_action \<Rightarrow> int \<Rightarrow> int \<Rightarrow> item_stack \<Rightarrow> world \<Rightarrow> world" where
  "record_rollback m src_can_take dst_can_put src_item w =
     (if loc_type (from_inv m) = PLAYER \<and> location_eq (from_inv m) (to_inv m) \<or> \<not> w_rollback w then w
      else
        let w1 = (if src_can_take \<noteq> -1 then notify (Reported \<lparr>ra_location = location_serialize (from_inv m),
                    ra_list = from_list m, ra_index = nat (from_i m), ra_add = False, ra_stack = src_item\<rparr>) w else w)
        in if dst_can_put \<noteq> -1 then notify (Reported \<lparr>ra_location = location_serialize (to_inv m),
             ra_list = to_list m, ra_index = nat (to_i m), ra_add = True, ra_stack = src_item\<rparr>) w1 else w1)"

text \<open>The store of lists that \<^verbatim>\<open>InventoryList::moveItem\<close> works on.\<close>

definition world_store :: "world \<Rightarrow> list_ref list_store" where
  "world_store w r = (case list_at r w of Some l \<Rightarrow> l | None \<Rightarrow> il_new [] 0)"

definition put_first_empty :: "item_stack \<Rightarrow> inv_list \<Rightarrow> inv_list" where
  "put_first_empty item l =
     (case find (\<lambda>i. ItemStack_empty (il_items l ! i)) [0..<length (il_items l)] of
        None \<Rightarrow> l
      | Some i \<Rightarrow> snd (il_changeItem i item l))"

definition changeItem_at :: "list_ref \<Rightarrow> int \<Rightarrow> item_stack \<Rightarrow> world \<Rightarrow> world res" where
  "changeItem_at r i item = modify_list r (\<lambda>l. snd (il_changeItem (nat i) item l))"

definition takeItem_at :: "list_ref \<Rightarrow> int \<Rightarrow> u32 \<Rightarrow> world \<Rightarrow> (item_stack \<times> world) res" where
  "takeItem_at r i n w =
     rbind (deref r w) (\<lambda>l. rbind (il_takeItem (nat i) n l) (\<lambda>(taken, l'). Inr (taken, put_list r l' w)))"

definition setModified_if :: "bool \<Rightarrow> list_ref \<Rightarrow> world \<Rightarrow> world res" where
  "setModified_if b r w = (if b then modify_list r (\<lambda>l. l\<lparr>il_dirty := True\<rparr>) w else Inr w)"

text \<open>An infinite source gets its stack back, and the stack it pushed out another slot.\<close>

definition restore_source ::
  "int \<Rightarrow> list_ref \<Rightarrow> list_ref \<Rightarrow> item_stack \<Rightarrow> item_stack \<Rightarrow> bool \<Rightarrow> imove_action \<Rightarrow> world \<Rightarrow> world res" where
  "restore_source src_can_take f t from_was to_was did_swap a w =
     (if src_can_take = -1 then
        rbind (if \<not> caused_by_move_somewhere a \<and> st_name from_was \<noteq> st_name to_was
               then modify_list t (put_first_empty to_was) w else Inr w) (\<lambda>w1.
        if move_count a > 0 \<or> did_swap then changeItem_at f (from_i (im_move a)) from_was w1 else Inr w1)
      else Inr w)"

text \<open>An infinite destination keeps its stack.\<close>

definition restore_dest ::
  "int \<Rightarrow> list_ref \<Rightarrow> list_ref \<Rightarrow> item_stack \<Rightarrow> item_stack \<Rightarrow> bool \<Rightarrow> imove_action \<Rightarrow> world \<Rightarrow> world res" where
  "restore_dest dst_can_put f t from_was to_was did_swap a w =
     (if dst_can_put = -1 then
        rbind (changeItem_at t (to_i (im_move a)) to_was w) (\<lambda>w1.
        if did_swap then
          rbind (changeItem_at f (from_i (im_move a)) from_was w1) (\<lambda>w2.
          rbind (takeItem_at f (from_i (im_move a)) (move_count a) w2) (\<lambda>(_, w3). Inr w3))
        else Inr w1)
      else Inr w)"

definition after_move ::
  "list_ref \<Rightarrow> list_ref \<Rightarrow> int \<Rightarrow> int \<Rightarrow> item_stack \<Rightarrow> item_stack \<Rightarrow> item_stack \<Rightarrow> bool \<Rightarrow> imove_action \<Rightarrow> world \<Rightarrow>
   ((item_stack \<times> bool) option \<times> imove_action \<times> world) res" where
  "after_move f t src_can_take dst_can_put from_was to_was src_item did_swap a w =
     rbind (restore_source src_can_take f t from_was to_was did_swap a w) (\<lambda>w1.
     rbind (restore_dest dst_can_put f t from_was to_was did_swap a w1) (\<lambda>w2.
       if caused_by_move_somewhere a \<and> move_count a = 0 then Inr (None, a, w2)
       else Inr (Some (src_item, did_swap), a,
                 record_rollback (im_move a) src_can_take dst_can_put src_item w2)))"

definition move_now ::
  "IItemDefManager \<Rightarrow> list_ref \<Rightarrow> list_ref \<Rightarrow> int \<Rightarrow> int \<Rightarrow> bool \<Rightarrow> imove_action \<Rightarrow> world \<Rightarrow>
   ((item_stack \<times> bool) option \<times> imove_action \<times> world) res" where
  "move_now idm f t src_can_take dst_can_put allow_swap a w =
     (let m = im_move a
      in rbind (getItem_at f (from_i m) w) (\<lambda>from_was.
         rbind (getItem_at t (to_i m) w) (\<lambda>to_was.
         rbind (il_moveItem idm f (nat (from_i m)) t (nat (to_i m)) (move_count a) allow_swap (world_store w))
           (\<lambda>(src_item, did_swap, h).
             let w1 = put_list t (h t) (put_list f (h f) w);
                 a1 = a\<lparr>move_count := ucast (st_count src_item)\<rparr>
             in if allow_swap \<noteq> did_swap then Inl AssertFailed
                else after_move f t src_can_take dst_can_put from_was to_was src_item did_swap a1 w1))))"

definition move_perform ::
  "IItemDefManager \<Rightarrow> list_ref \<Rightarrow> list_ref \<Rightarrow> int \<Rightarrow> int \<Rightarrow> bool \<Rightarrow> imove_action \<Rightarrow> world \<Rightarrow>
   ((item_stack \<times> bool) option \<times> imove_action \<times> world) res" where
  "move_perform idm f t src_can_take dst_can_put allow_swap a w =
     (let m = im_move a
      in rbind (getItem_at f (from_i m) w) (\<lambda>cur.
         let a1 = a\<lparr>move_count := move_limit src_can_take dst_can_put cur (move_count a)\<rparr>
         in if move_count a1 = 0 then
              rbind (setModified_if (loc_type (from_inv m) = PLAYER) f w) (\<lambda>w1.
              rbind (setModified_if (loc_type (to_inv m) = PLAYER) t w1) (\<lambda>w2. Inr (None, a1, w2)))
            else move_now idm f t src_can_take dst_can_put allow_swap a1 w))"

definition move_locked ::
  "callbacks \<Rightarrow> IItemDefManager \<Rightarrow> list_ref \<Rightarrow> list_ref \<Rightarrow> imove_action \<Rightarrow> world \<Rightarrow>
   ((item_stack \<times> bool) option \<times> imove_action \<times> world) res" where
  "move_locked cb idm f t a w =
     rbind (move_prepare idm f t a w) (\<lambda>(a1, prepared). case prepared of
         None \<Rightarrow> Inr (None, a1, w)
       | Some (src_item, swap_expected) \<Rightarrow>
           rbind (move_allow cb t src_item swap_expected a1 w) (\<lambda>(src_can_take, dst_can_put, allow_swap, w1).
             move_perform idm f t src_can_take dst_can_put allow_swap a1 w1))"

text \<open>The callbacks after the move, with the locks released.\<close>

definition move_report ::
  "callbacks \<Rightarrow> item_stack \<Rightarrow> bool \<Rightarrow> imove_action \<Rightarrow> world \<Rightarrow> world res" where
  "move_report cb src_item did_swap a w =
     (let m = im_move a;
          to_there = (\<lambda>w. find_list (to_inv m) (to_list m) w \<noteq> None);
          swapped = (\<lambda>w. case (if did_swap then find_list (from_inv m) (from_list m) w else None) of
              None \<Rightarrow> Inr None
            | Some r \<Rightarrow> rbind (getItem_at r (from_i m) w) (\<lambda>s. Inr (Some s)))
      in if location_eq (from_inv m) (to_inv m) then
           rbind (onMove cb m (uint (move_count a)) w) (\<lambda>w1.
           rbind (swapped w1) (\<lambda>s.
           rbind (case s of None \<Rightarrow> Inr w1
                  | Some s \<Rightarrow> onMove cb (swapDirections m) (uint (st_count s)) w1) (\<lambda>w2.
           setInventoryModified (from_inv m) w2)))
         else
           rbind (swapped w) (\<lambda>s.
             let swap_item = (case s of None \<Rightarrow> empty_stack | Some s \<Rightarrow> s)
             in rbind (onTake cb m src_item w) (\<lambda>w1.
                rbind (if \<not> ItemStack_empty swap_item \<and> to_there w1
                       then onTake cb (swapDirections m) swap_item w1 else Inr w1) (\<lambda>w2.
                rbind (if to_there w2 then onPut cb m src_item w2 else Inr w2) (\<lambda>w3.
                rbind (if \<not> ItemStack_empty swap_item \<and> to_there w3
                       then onPut cb (swapDirections m) swap_item w3 else Inr w3) (\<lambda>w4.
                rbind (setInventoryModified (to_inv m) w4) (setInventoryModified (from_inv m))))))))"

text \<open>\<open>apply\<close> for a given destination slot.\<close>

definition move_one ::
  "callbacks \<Rightarrow> IItemDefManager \<Rightarrow> imove_action \<Rightarrow> world \<Rightarrow> (imove_action \<times> world) res" where
  "move_one cb idm a w =
     (let m = im_move a
      in rbind (borrow (from_inv m) (from_list m) w) (\<lambda>(lf, w1).
         rbind (borrow (to_inv m) (to_list m) w1) (\<lambda>(lt, w2).
           case (lf, lt) of
             (Some f, Some t) \<Rightarrow>
               rbind (move_locked cb idm f t a w2) (\<lambda>(moved, a1, w3).
               rbind (unlock t w3) (\<lambda>w4.
               rbind (unlock f w4) (\<lambda>w5.
                 case moved of
                   None \<Rightarrow> Inr (a1, w5)
                 | Some (src_item, did_swap) \<Rightarrow>
                     rbind (move_report cb src_item did_swap a1 w5) (\<lambda>w6. Inr (a1, w6)))))
           | _ \<Rightarrow> rbind (release lt w2) (\<lambda>w3. rbind (release lf w3) (\<lambda>w4. Inr (a, w4))))))"

subsection \<open>Moving somewhere\<close>

text \<open>
  One step of the loops of \<open>apply\<close> with \<open>move_somewhere\<close> (the lambda \<open>add_to\<close>): the size of the
  destination list, the list with its lock if it is still there, the action and the world.
\<close>

definition add_to ::
  "callbacks \<Rightarrow> IItemDefManager \<Rightarrow> list_ref \<Rightarrow> int \<Rightarrow> imove_action \<Rightarrow> world \<Rightarrow>
   (u32 \<times> list_ref option \<times> imove_action \<times> world) res" where
  "add_to cb idm t dest_i a w =
     rbind (unlock t w) (\<lambda>w1.
     rbind (move_one cb idm (a\<lparr>im_move := (im_move a)\<lparr>to_i := dest_i\<rparr>\<rparr>) w1) (\<lambda>(a1, w2).
       if \<not> move_count a1 \<le> ucast (im_count a1) then Inl AssertFailed
       else
         let a2 = a1\<lparr>im_count := im_count a1 - ucast (move_count a1)\<rparr>
         in rbind (borrow (to_inv (im_move a2)) (to_list (im_move a2)) w2) (\<lambda>(lt, w3).
              case lt of
                None \<Rightarrow> Inr (0, None, a2, w3)
              | Some t1 \<Rightarrow> rbind (deref t1 w3) (\<lambda>l. Inr (il_getSize l, Some t1, a2, w3)))))"

text \<open>A pass over the slots; \<open>dest_size\<close> is kept in an \<open>s16\<close>.\<close>

function somewhere_pass ::
  "callbacks \<Rightarrow> IItemDefManager \<Rightarrow> bool \<Rightarrow> int \<Rightarrow> u32 \<times> list_ref option \<times> imove_action \<times> world \<Rightarrow>
   (u32 \<times> list_ref option \<times> imove_action \<times> world) res" where
  "somewhere_pass cb idm want_empty dest_i (dest_size, lt, a, w) =
     (if \<not> (dest_i < to_s16 (uint dest_size) \<and> im_count a > 0) then Inr (dest_size, lt, a, w)
      else case lt of
        None \<Rightarrow> Inl NullDereference
      | Some t \<Rightarrow>
          rbind (getItem_at t dest_i w) (\<lambda>s.
            if ItemStack_empty s = want_empty
            then rbind (add_to cb idm t dest_i a w) (somewhere_pass cb idm want_empty (dest_i + 1))
            else somewhere_pass cb idm want_empty (dest_i + 1) (dest_size, lt, a, w)))"
  by pat_completeness auto
termination
proof (relation "measure (\<lambda>(_, _, _, i, _). nat (32768 - i))", goal_cases)
  case (2 cb idm want_empty dest_i dest_size lt a w t s x)
  then show ?case using to_s16_range(2) [of "uint dest_size"] by auto
next
  case (3 cb idm want_empty dest_i dest_size lt a w t s)
  then show ?case using to_s16_range(2) [of "uint dest_size"] by auto
qed simp

declare somewhere_pass.simps [simp del]

definition IMoveAction_apply ::
  "callbacks \<Rightarrow> IItemDefManager \<Rightarrow> imove_action \<Rightarrow> world \<Rightarrow> (imove_action \<times> world) res" where
  "IMoveAction_apply cb idm a w =
     (if \<not> move_somewhere a then move_one cb idm a w
      else
        let m = im_move a
        in rbind (borrow (from_inv m) (from_list m) w) (\<lambda>(lf, w1).
           rbind (borrow (to_inv m) (to_list m) w1) (\<lambda>(lt, w2).
             case (lf, lt) of
               (Some f, Some t) \<Rightarrow>
                 rbind (unlock f w2) (\<lambda>w3.
                 rbind (deref t w3) (\<lambda>l.
                   let a1 = a\<lparr>caused_by_move_somewhere := True, move_somewhere := False\<rparr>
                   in rbind (somewhere_pass cb idm False 0 (il_getSize l, Some t, a1, w3)) (\<lambda>st.
                      rbind (somewhere_pass cb idm True 0 st) (\<lambda>(_, lt1, a2, w4).
                      rbind (release lt1 w4) (\<lambda>w5.
                        Inr (a2\<lparr>im_move := (im_move a2)\<lparr>to_i := to_i m\<rparr>, im_count := im_count a,
                                caused_by_move_somewhere := False, move_somewhere := True\<rparr>, w5))))))
             | _ \<Rightarrow> rbind (release lt w2) (\<lambda>w3. rbind (release lf w3) (\<lambda>w4. Inr (a, w4))))))"

text \<open>
  \<open>clientApply\<close>, the prediction on the client, moves items within the player's inventory only;
  \<open>get\<close> is the client's \<open>getInventory\<close>.
\<close>

definition slot_number :: "int \<Rightarrow> nat" where
  "slot_number i = unat (word_of_int i :: u32)"

definition IMoveAction_clientApply ::
  "(location \<Rightarrow> world \<Rightarrow> inv_key option) \<Rightarrow> IItemDefManager \<Rightarrow> imove_action \<Rightarrow> world \<Rightarrow> world res" where
  "IMoveAction_clientApply get idm a w =
     (let m = im_move a
      in case (get (from_inv m) w, get (to_inv m) w) of
           (Some kf, Some kt) \<Rightarrow>
             let player = get (setCurrentPlayer location_new) w;
                 f = (kf, from_list m); t = (kt, to_list m)
             in if Some kf \<noteq> player \<or> Some kt \<noteq> player then Inr w
                else if list_at f w = None \<or> list_at t w = None then Inr w
                else if \<not> move_somewhere a then
                  rbind (il_moveItem idm f (slot_number (from_i m)) t (slot_number (to_i m)) (ucast (im_count a)) True
                           (world_store w)) (\<lambda>(_, _, h). Inr (put_list t (h t) (put_list f (h f) w)))
                else
                  rbind (il_moveItemSomewhere idm f (slot_number (from_i m)) t (ucast (im_count a)) (world_store w)) (\<lambda>h.
                    Inr (put_list t (h t) (put_list f (h f) w)))
         | _ \<Rightarrow> Inr w)"

subsection \<open>IDropAction\<close>

text \<open>The rollback entry of a drop, and the callback that a location has.\<close>

definition drop_allowed ::
  "callbacks \<Rightarrow> move_action \<Rightarrow> int \<Rightarrow> item_stack \<Rightarrow> world \<Rightarrow> int \<times> world" where
  "drop_allowed cb m take_count src_item w =
     (if has_callbacks (loc_type (from_inv m)) then cb_AllowTake cb (loc_type (from_inv m)) m src_item w
      else (take_count, w))"

definition drop_record :: "move_action \<Rightarrow> int \<Rightarrow> item_stack \<Rightarrow> world \<Rightarrow> world" where
  "drop_record m src_can_take_count src_item w =
     (if loc_type (from_inv m) \<noteq> PLAYER \<and> w_rollback w \<and> src_can_take_count \<noteq> -1
      then notify (Reported \<lparr>ra_location = location_serialize (from_inv m), ra_list = from_list m,
             ra_index = nat (from_i m), ra_add = False, ra_stack = src_item\<rparr>) w
      else w)"

text \<open>The part after the checks, with the list locked; \<open>None\<close> when nothing was dropped.\<close>

definition drop_locked ::
  "callbacks \<Rightarrow> list_ref \<Rightarrow> idrop_action \<Rightarrow> item_stack \<Rightarrow> world \<Rightarrow> ((int \<times> item_stack) option \<times> world) res" where
  "drop_locked cb f a src0 w =
     (let m = id_move a;
          n0 = uint (st_count src0);
          n = (if id_count a \<noteq> 0 \<and> uint (id_count a) < n0 then uint (id_count a) else n0)
      in case drop_allowed cb m n (src0\<lparr>st_count := word_of_int n\<rparr>) w of
        (src_can_take_count, w1) \<Rightarrow>
          rbind (getItem_at f (from_i m) w1) (\<lambda>src_item.
            let take_count = (if src_can_take_count \<noteq> -1 \<and> src_can_take_count < n then src_can_take_count else n)
            in if take_count = 0 then
                 rbind (setModified_if (loc_type (from_inv m) = PLAYER) f w1) (\<lambda>w2. Inr (None, w2))
               else
                 case cb_OnDrop cb (src_item\<lparr>st_count := word_of_int take_count\<rparr>) w1 of
                   (left, w2) \<Rightarrow>
                     let actually_dropped_count = max 0 (take_count - uint left)
                     in if actually_dropped_count = 0 then
                          rbind (setModified_if (loc_type (from_inv m) = PLAYER) f w2) (\<lambda>w3. Inr (None, w3))
                        else
                          rbind (if src_can_take_count \<noteq> -1
                                 then rbind (takeItem_at f (from_i m) (word_of_int actually_dropped_count) w2)
                                        (\<lambda>(_, w3). Inr w3)
                                 else Inr w2) (\<lambda>w3.
                          rbind (setInventoryModified (from_inv m) w3) (\<lambda>w4.
                            Inr (Some (src_can_take_count,
                                       src_item\<lparr>st_count := word_of_int actually_dropped_count\<rparr>), w4)))))"

definition IDropAction_apply ::
  "callbacks \<Rightarrow> idrop_action \<Rightarrow> world \<Rightarrow> world res" where
  "IDropAction_apply cb a w =
     (let m = id_move a
      in case find_list (from_inv m) (from_list m) w of
        None \<Rightarrow> Inr w
      | Some f \<Rightarrow>
          rbind (deref f w) (\<lambda>l.
            if from_i m < 0 \<or> uint (il_getSize l) \<le> from_i m then Inr w
            else rbind (il_getItem (nat (from_i m)) l) (\<lambda>src0.
              if ItemStack_empty src0 then Inr w
              else
                rbind (lock f w) (\<lambda>w1.
                rbind (drop_locked cb f a src0 w1) (\<lambda>(dropped, w2).
                rbind (unlock f w2) (\<lambda>w3.
                  case dropped of
                    None \<Rightarrow> Inr w3
                  | Some (src_can_take_count, src_item) \<Rightarrow>
                      let w4 = (if has_callbacks (loc_type (from_inv m))
                                then cb_OnTake cb (loc_type (from_inv m)) m src_item w3 else w3)
                      in Inr (drop_record m src_can_take_count src_item w4)))))))"

definition IDropAction_clientApply ::
  "(location \<Rightarrow> world \<Rightarrow> inv_key option) \<Rightarrow> idrop_action \<Rightarrow> world \<Rightarrow> world res" where
  "IDropAction_clientApply get a w =
     (let m = id_move a
      in case get (from_inv m) w of
        None \<Rightarrow> Inr w
      | Some k \<Rightarrow>
          if Some k \<noteq> get (setCurrentPlayer location_new) w then Inr w
          else if list_at (k, from_list m) w = None then Inr w
          else if id_count a = 0 then
            modify_list (k, from_list m) (\<lambda>l. snd (il_changeItem (slot_number (from_i m)) empty_stack l)) w
          else
            rbind (deref (k, from_list m) w) (\<lambda>l.
            rbind (il_takeItem (slot_number (from_i m)) (ucast (id_count a)) l) (\<lambda>(_, l').
              Inr (put_list (k, from_list m) l' w))))"

end
