(* ===== verification/MoveLocks.thy ===== *)
theory MoveLocks
  imports MoveAction
begin

section \<open>Moves under the locks of the lists\<close>

text \<open>
  Nothing that a script does within the limits of the locks leads a move to access a list that is
  no longer there. The lists of the world and the items in them are as well the base of
  \<^verbatim>\<open>MoveConservation\<close>.
\<close>

subsection \<open>Lists of the world\<close>

definition world_wf :: "world \<Rightarrow> bool" where
  "world_wf w \<longleftrightarrow> distinct (map fst (w_invs w)) \<and> list_all (\<lambda>(k, iv). inv_wf iv) (w_invs w)"

definition inv_total :: "(string \<Rightarrow> bool) \<Rightarrow> inventory \<Rightarrow> nat" where
  "inv_total P iv = sum_list (map (il_total P) (inv_lists iv))"

text \<open>How many items of the kinds \<open>P\<close> there are in all inventories together.\<close>

definition world_total :: "(string \<Rightarrow> bool) \<Rightarrow> world \<Rightarrow> nat" where
  "world_total P w = sum_list (map (\<lambda>(k, iv). inv_total P iv) (w_invs w))"

lemma world_wf_map:
  "world_wf w \<longleftrightarrow> distinct (map fst (w_invs w)) \<and> (\<forall>k iv. map_of (w_invs w) k = Some iv \<longrightarrow> inv_wf iv)"
  by (auto simp: world_wf_def list_all_iff dest: map_of_SomeD)

lemma world_wf_inv: "world_wf w \<Longrightarrow> map_of (w_invs w) k = Some iv \<Longrightarrow> inv_wf iv"
  by (auto simp: world_wf_def list_all_iff dest: map_of_SomeD)

lemma inv_getList_wf: "inv_wf iv \<Longrightarrow> inv_getList n iv = Some l \<Longrightarrow> il_wf l \<and> il_name l = n"
  by (auto simp: inv_getList_def inv_getListIndex_def inv_wf_def list_all_length dest: list_index_Some)

lemma list_at_wf: "world_wf w \<Longrightarrow> list_at r w = Some l \<Longrightarrow> il_wf l \<and> il_name l = snd r"
  by (auto simp: list_at_def bind_eq_Some_conv dest: world_wf_inv inv_getList_wf)

lemma list_index_update:
  "list_index n ls = Some i \<Longrightarrow> il_name l = n \<Longrightarrow> list_index m (ls[i := l]) = list_index m ls"
proof (induction ls arbitrary: i)
  case (Cons x xs)
  then show ?case by (cases i) (auto split: if_splits)
qed simp

lemma inv_getList_put:
  assumes "inv_getList n iv = Some l0" and "il_name l = n"
  shows "inv_getList m (inv_putList n l iv) = (if m = n then Some l else inv_getList m iv)"
proof -
  obtain i where i: "list_index n (inv_lists iv) = Some i"
    using assms(1) by (auto simp: inv_getList_def inv_getListIndex_def)
  have "j \<noteq> i" if "list_index m (inv_lists iv) = Some j" "m \<noteq> n" for j
    using list_index_Some [OF that(1)] list_index_Some [OF i] that(2) by auto
  with i list_index_update [OF i assms(2), of m] list_index_Some [OF i] show ?thesis
    by (cases "list_index m (inv_lists iv)") (auto simp: inv_getList_def inv_getListIndex_def inv_putList_def)
qed

lemma list_at_put:
  assumes "list_at r w = Some l0" and "il_name l = snd r"
  shows "list_at s (put_list r l w) = (if s = r then Some l else list_at s w)"
proof -
  obtain iv where iv: "map_of (w_invs w) (fst r) = Some iv" "inv_getList (snd r) iv = Some l0"
    using assms(1) by (auto simp: list_at_def bind_eq_Some_conv)
  show ?thesis
    using iv assms(2)
    by (cases r; cases s) (simp add: list_at_def put_list_def map_of_update inv_getList_put)
qed

lemma inv_putList_wf:
  assumes "inv_wf iv" and "il_name l = n" and "il_wf l"
  shows "inv_wf (inv_putList n l iv)"
proof (cases "list_index n (inv_lists iv)")
  case (Some i)
  with inv_wf_update(1) [of iv i l] assms list_index_Some [OF Some] show ?thesis
    by (simp add: inv_putList_def inv_getListIndex_def)
qed (use assms in \<open>simp add: inv_putList_def inv_getListIndex_def\<close>)

lemma world_wf_put:
  assumes "world_wf w" and "il_name l = snd r" and "il_wf l"
  shows "world_wf (put_list r l w)"
proof (cases "map_of (w_invs w) (fst r)")
  case (Some iv)
  have "inv_wf (inv_putList (snd r) l iv)"
    by (rule inv_putList_wf [OF world_wf_inv [OF assms(1) Some] assms(2,3)])
  then show ?thesis
    using assms(1) Some by (auto simp: world_wf_map put_list_def map_of_update distinct_update)
qed (use assms(1) in \<open>simp add: put_list_def\<close>)

lemma inv_total_put:
  assumes "inv_getList n iv = Some l0"
  shows "inv_total P (inv_putList n l iv) + il_total P l0 = inv_total P iv + il_total P l"
proof -
  obtain i where i: "list_index n (inv_lists iv) = Some i" "l0 = inv_lists iv ! i"
    using assms by (auto simp: inv_getList_def inv_getListIndex_def)
  have "i < length (inv_lists iv)"
    using list_index_Some [OF i(1)] by simp
  then have "sum_list (map (il_total P) ((inv_lists iv)[i := l])) + il_total P (inv_lists iv ! i) =
      sum_list (map (il_total P) (inv_lists iv)) + il_total P l"
    by (simp add: sum_list_update_nat del: map_update)
  with i show ?thesis
    by (simp add: inv_total_def inv_putList_def inv_getListIndex_def)
qed

lemma world_total_put:
  assumes "list_at r w = Some l0"
  shows "world_total P (put_list r l w) + il_total P l0 = world_total P w + il_total P l"
proof -
  obtain iv where iv: "map_of (w_invs w) (fst r) = Some iv" "inv_getList (snd r) iv = Some l0"
    using assms by (auto simp: list_at_def bind_eq_Some_conv)
  show ?thesis
    using sum_list_alist_update [OF iv(1), of "inv_total P" "inv_putList (snd r) l iv"] inv_total_put [OF iv(2), of P l] iv(1)
    by (simp add: world_total_def put_list_def)
qed

subsection \<open>What the locks protect\<close>

text \<open>
  A running server: the environment is set, the inventories are well-formed, and no lock was
  released more often than it was taken. \<open>within w w'\<close>: every
  list that is locked in \<open>w\<close> is still there in \<open>w'\<close>, as large as before, with the same locks. This is
  what the exceptions of \<open>checkResizeLock\<close> make sure of, and all that is assumed of a script.
\<close>

definition world_ok :: "world \<Rightarrow> bool" where
  "world_ok w \<longleftrightarrow> world_wf w \<and> w_env w \<and> (\<forall>r l. list_at r w = Some l \<longrightarrow> il_locks l \<ge> 0)"

definition within :: "world \<Rightarrow> world \<Rightarrow> bool" where
  "within w w' \<longleftrightarrow> world_ok w' \<and>
     (\<forall>r l. list_at r w = Some l \<longrightarrow> il_locks l > 0 \<longrightarrow>
       (\<exists>l'. list_at r w' = Some l' \<and> il_locks l' = il_locks l \<and> length (il_items l) \<le> length (il_items l')))"

definition scripts_respect_locks :: "callbacks \<Rightarrow> bool" where
  "scripts_respect_locks cb \<longleftrightarrow>
     (\<forall>w t m. world_ok w \<longrightarrow>
       (\<forall>n. within w (snd (cb_AllowMove cb t m n w)) \<and> within w (cb_OnMove cb t m n w)) \<and>
       (\<forall>s. within w (snd (cb_AllowPut cb t m s w)) \<and> within w (snd (cb_AllowTake cb t m s w)) \<and>
            within w (cb_OnPut cb t m s w) \<and> within w (cb_OnTake cb t m s w) \<and> within w (snd (cb_OnDrop cb s w))))"

definition held :: "list_ref \<Rightarrow> nat \<Rightarrow> world \<Rightarrow> bool" where
  "held r n w \<longleftrightarrow> (\<exists>l. list_at r w = Some l \<and> il_locks l > 0 \<and> n \<le> length (il_items l))"

lemma within_refl: "world_ok w \<Longrightarrow> within w w"
  by (simp add: within_def)

lemma withinD:
  assumes "within w w'" and "list_at r w = Some l" and "il_locks l > 0"
  obtains l' where "list_at r w' = Some l'" and "il_locks l' = il_locks l" and "length (il_items l) \<le> length (il_items l')"
  using assms unfolding within_def by blast

lemma within_trans:
  assumes "within w w1" and "within w1 w2"
  shows "within w w2"
  unfolding within_def
proof (intro conjI allI impI)
  show "world_ok w2" using assms(2) by (simp add: within_def)
  fix r l
  assume l: "list_at r w = Some l" "il_locks l > 0"
  obtain l1 where l1: "list_at r w1 = Some l1" "il_locks l1 = il_locks l" "length (il_items l) \<le> length (il_items l1)"
    by (rule withinD [OF assms(1) l])
  obtain l2 where "list_at r w2 = Some l2" "il_locks l2 = il_locks l1" "length (il_items l1) \<le> length (il_items l2)"
    by (rule withinD [OF assms(2) l1(1)]) (use l l1(2) in auto)
  with l1 show "\<exists>l'. list_at r w2 = Some l' \<and> il_locks l' = il_locks l \<and> length (il_items l) \<le> length (il_items l')"
    by auto
qed

lemma within_ok: "within w w' \<Longrightarrow> world_ok w'"
  by (simp add: within_def)

lemma within_self: "within w w' \<Longrightarrow> within w' w'"
  by (simp add: within_refl within_ok)

lemma within_held: "within w w' \<Longrightarrow> held r n w \<Longrightarrow> held r n w'"
  unfolding held_def by (elim exE conjE, erule (2) withinD, auto)

lemma held_deref: "held r n w \<Longrightarrow> \<exists>l. deref r w = Inr l \<and> list_at r w = Some l \<and> n \<le> length (il_items l)"
  by (auto simp: held_def deref_def)

lemma held_getItem:
  assumes "world_ok w" and "held r n w" and "0 \<le> i" and "nat i < n"
  shows "\<exists>s l. getItem_at r i w = Inr s \<and> list_at r w = Some l \<and> s = il_items l ! nat i \<and> nat i < length (il_items l)"
  using assms held_deref [OF assms(2)] list_at_wf [of w r] il_getItem_ok
  by (fastforce simp: getItem_at_def world_ok_def)

lemma put_list_env [simp]: "w_env (put_list r l w) = w_env w" "w_active (put_list r l w) = w_active w"
  "w_rollback (put_list r l w) = w_rollback w" "w_log (put_list r l w) = w_log w"
  by (simp_all add: put_list_def split: option.split)

lemma same_shape_name: "same_shape l l' \<Longrightarrow> il_name l' = il_name l"
  by (simp add: same_shape_def)

lemma put_list_within:
  assumes "world_ok w" and "list_at r w = Some l" and "same_shape l l'"
  shows "within w (put_list r l' w)"
proof -
  have l: "il_wf l" "il_name l = snd r"
    using list_at_wf [OF _ assms(2)] assms(1) by (simp_all add: world_ok_def)
  then have l': "il_wf l'" "il_name l' = snd r"
    using assms(3) by (simp_all add: same_shape_wf same_shape_name)
  show ?thesis
    using assms world_wf_put [OF _ l'(2,1)] list_at_put [OF assms(2) l'(2)]
    by (auto simp del: split_paired_All simp: within_def world_ok_def same_shape_def)
qed

lemma modify_within:
  assumes "world_ok w" and "held r n w" and "\<And>l. same_shape l (f l)"
  shows "\<exists>w'. modify_list r f w = Inr w' \<and> within w w'"
proof -
  obtain l where l: "deref r w = Inr l" "list_at r w = Some l"
    using held_deref [OF assms(2)] by blast
  then show ?thesis
    using put_list_within [OF assms(1) l(2) assms(3)] by (simp add: modify_list_def)
qed

lemma changeItem_shape: "same_shape l (snd (il_changeItem i s l))"
  by (metis il_changeItem_ok(2) prod.collapse)

lemma dirty_shape: "same_shape l (l\<lparr>il_dirty := d\<rparr>)"
  by (simp add: same_shape_def)

lemma put_first_empty_shape: "same_shape l (put_first_empty s l)"
  by (simp add: put_first_empty_def changeItem_shape split: option.split)

lemma changeItem_within: "world_ok w \<Longrightarrow> held r n w \<Longrightarrow> \<exists>w'. changeItem_at r i s w = Inr w' \<and> within w w'"
  unfolding changeItem_at_def by (rule modify_within) (auto simp: changeItem_shape)

lemma setModified_within:
  "world_ok w \<Longrightarrow> held r n w \<Longrightarrow> \<exists>w'. setModified_if b r w = Inr w' \<and> within w w'"
  using modify_within [of w r n "\<lambda>l. l\<lparr>il_dirty := True\<rparr>"] by (auto simp: setModified_if_def dirty_shape within_refl)

lemma takeItem_within:
  assumes "world_ok w" and "held r n w"
  shows "\<exists>s w'. takeItem_at r i k w = Inr (s, w') \<and> within w w'"
proof -
  obtain l where l: "deref r w = Inr l" "list_at r w = Some l"
    using held_deref [OF assms(2)] by blast
  obtain taken l' where "il_takeItem (nat i) k l = Inr (taken, l')" "same_shape l l'"
    by (rule il_takeItem_ok [of "nat i" k l]) blast
  then show ?thesis
    using l put_list_within [OF assms(1) l(2)] by (auto simp: takeItem_at_def)
qed

subsection \<open>Items of the lists\<close>

text \<open>Locks do not change the items.\<close>

definition items_at :: "list_ref \<Rightarrow> world \<Rightarrow> item_stack list option" where
  "items_at r w = map_option il_items (list_at r w)"

lemma modify_list_items:
  assumes "world_wf w" and "modify_list r f w = Inr w'"
    and "\<And>l. il_items (f l) = il_items l \<and> il_name (f l) = il_name l \<and> il_size (f l) = il_size l"
  shows "world_wf w'" and "items_at s w' = items_at s w"
proof -
  obtain l where l: "list_at r w = Some l" "w' = put_list r (f l) w"
    using assms(2) by (auto simp: modify_list_def deref_def split: option.splits)
  have f: "il_name (f l) = snd r" "il_wf (f l)"
    using list_at_wf [OF assms(1) l(1)] assms(3) [of l] by (simp_all add: il_wf_def)
  show "world_wf w'"
    unfolding l(2) by (rule world_wf_put [OF assms(1) f])
  show "items_at s w' = items_at s w"
    using list_at_put [OF l(1) f(1), of s] assms(3) [of l] l by (simp add: items_at_def)
qed

lemma lock_items:
  assumes "world_wf w"
  shows "lock r w = Inr w' \<Longrightarrow> world_wf w' \<and> items_at s w' = items_at s w"
    "unlock r w = Inr w' \<Longrightarrow> world_wf w' \<and> items_at s w' = items_at s w"
    "setModified_if b r w = Inr w' \<Longrightarrow> world_wf w' \<and> items_at s w' = items_at s w"
  using modify_list_items [OF assms, of r il_resizeLock] modify_list_items [OF assms, of r il_resizeUnlock]
    modify_list_items [OF assms, of r "\<lambda>l. l\<lparr>il_dirty := True\<rparr>"] assms
  by (auto simp: lock_def unlock_def setModified_if_def il_resizeLock_def il_resizeUnlock_def split: if_splits)

lemma borrow_items:
  assumes "world_wf w" and "borrow loc n w = Inr (r, w')"
  shows "world_wf w' \<and> items_at s w' = items_at s w"
proof (cases "find_list loc n w")
  case (Some f)
  with assms(2) have "lock f w = Inr w'" by (auto simp: borrow_def rbind_eq_Inr simp del: split_paired_All)
  from lock_items(1) [OF assms(1) this] show ?thesis .
qed (use assms in \<open>simp add: borrow_def\<close>)

lemma release_items:
  assumes "world_wf w" and "release r w = Inr w'"
  shows "world_wf w' \<and> items_at s w' = items_at s w"
  using assms lock_items(2) [OF assms(1)] by (cases r) (simp_all add: release_def del: split_paired_All)

subsection \<open>Results that end well\<close>

text \<open>
  \<open>ends fails accepted world_of r\<close>: the computation \<open>r\<close> fails only with an error of \<open>fails\<close>, and the
  world of a value that it gives is \<open>accepted\<close>. A relation between the worlds before and after a step
  that is transitive carries this over sequences of steps.
\<close>

definition ends :: "(error \<Rightarrow> bool) \<Rightarrow> (world \<Rightarrow> bool) \<Rightarrow> ('a \<Rightarrow> world) \<Rightarrow> 'a res \<Rightarrow> bool" where
  "ends fails accepted world_of r \<longleftrightarrow> (case r of Inl e \<Rightarrow> fails e | Inr x \<Rightarrow> accepted (world_of x))"

lemma ends_simps [simp]:
  "ends fails accepted g (Inl e) \<longleftrightarrow> fails e"
  "ends fails accepted g (Inr x) \<longleftrightarrow> accepted (g x)"
  by (simp_all add: ends_def)

locale steps =
  fixes fails :: "error \<Rightarrow> bool" and rel :: "world \<Rightarrow> world \<Rightarrow> bool"
  assumes rel_trans: "rel w w1 \<Longrightarrow> rel w1 w2 \<Longrightarrow> rel w w2"
begin

lemma ends_trans: "rel w w1 \<Longrightarrow> ends fails (rel w1) g r \<Longrightarrow> ends fails (rel w) g r"
  by (cases r) (auto intro: rel_trans)

lemma ends_rbind:
  assumes "ends fails (rel w) g r" and "\<And>x. r = Inr x \<Longrightarrow> rel w (g x) \<Longrightarrow> ends fails (rel (g x)) h (k x)"
  shows "ends fails (rel w) h (rbind r k)"
proof (cases r)
  case (Inl e)
  with assms(1) show ?thesis by simp
next
  case (Inr x)
  with assms have "rel w (g x)" "ends fails (rel (g x)) h (k x)" by simp_all
  with Inr ends_trans show ?thesis by simp
qed

lemma ends_rbind2:
  assumes "ends fails (rel w) snd r"
    and "\<And>x w1. r = Inr (x, w1) \<Longrightarrow> rel w w1 \<Longrightarrow> ends fails (rel w1) h (k x w1)"
  shows "ends fails (rel w) h (rbind r (\<lambda>(x, w1). k x w1))"
  using assms(2) by (intro ends_rbind [OF assms(1)]) (auto simp del: ends_simps split: prod.split)

lemma ends_rbind3:
  assumes "ends fails (rel w) (\<lambda>(_, _, w'). w') r"
    and "\<And>x y w1. r = Inr (x, y, w1) \<Longrightarrow> rel w w1 \<Longrightarrow> ends fails (rel w1) h (k x y w1)"
  shows "ends fails (rel w) h (rbind r (\<lambda>(x, y, w1). k x y w1))"
  using assms(2) by (intro ends_rbind [OF assms(1)]) (auto simp del: ends_simps split: prod.split)

lemma ends_rbind4:
  assumes "ends fails (rel w) (\<lambda>(_, _, _, w'). w') r"
    and "\<And>x y z w1. r = Inr (x, y, z, w1) \<Longrightarrow> rel w w1 \<Longrightarrow> ends fails (rel w1) h (k x y z w1)"
  shows "ends fails (rel w) h (rbind r (\<lambda>(x, y, z, w1). k x y z w1))"
  using assms(2) by (intro ends_rbind [OF assms(1)]) (auto simp del: ends_simps split: prod.split)

lemma ends_choice:
  assumes "rel w w" and "b \<Longrightarrow> ends fails (rel w) g r" and "g x = w"
  shows "ends fails (rel w) g (if b then r else Inr x)"
  using assms by simp

end

text \<open>
  A result that is a value with a world within the locks or, where \<open>b\<close> permits it, a failed
  assertion.
\<close>

interpretation locked: steps "\<lambda>e. b \<and> e = AssertFailed" within for b
  by unfold_locales (rule within_trans)

abbreviation sound :: "bool \<Rightarrow> world \<Rightarrow> ('a \<Rightarrow> world) \<Rightarrow> 'a res \<Rightarrow> bool" where
  "sound b w \<equiv> ends (\<lambda>e. b \<and> e = AssertFailed) (within w)"

lemmas sound_rbind = locked.ends_rbind
lemmas sound_rbind2 = locked.ends_rbind2
lemmas sound_rbind3 = locked.ends_rbind3
lemmas sound_rbind4 = locked.ends_rbind4
lemmas sound_trans = locked.ends_trans

lemma getSize_wf: "il_wf l \<Longrightarrow> uint (il_getSize l) = int (length (il_items l))"
proof -
  assume "il_wf l"
  then have "length (il_items l) < 4294967296"
    using unat_u32_less [of "il_size l"] by (simp add: il_wf_def)
  then show ?thesis
    by (simp add: il_getSize_def unsigned_of_nat take_bit_eq_mod)
qed

lemma itemFits_ok: "\<exists>fits restitem. il_itemFits idm i s l = Inr (fits, restitem)"
  by (rule ItemStack_addItem_ok [of idm s "il_items l ! i"])
    (cases "i < length (il_items l)"; simp add: il_itemFits_def ItemStack_itemFits_addItem; blast)

lemma move_prepare_ok:
  assumes ok: "world_ok w" and f: "held f 0 w" and t: "held t 0 w"
  shows "\<exists>a1 p. move_prepare idm f t a w = Inr (a1, p) \<and> im_move a1 = im_move a \<and>
    (p \<noteq> None \<longrightarrow> 0 \<le> from_i (im_move a) \<and> held f (Suc (nat (from_i (im_move a)))) w \<and>
      0 \<le> to_i (im_move a) \<and> held t (Suc (nat (to_i (im_move a)))) w)"
proof -
  obtain lf lt where l: "list_at f w = Some lf" "il_locks lf > 0" "list_at t w = Some lt" "il_locks lt > 0"
    using f t by (auto simp: held_def)
  have wf: "il_wf lf" "il_wf lt"
    using ok list_at_wf [OF _ l(1)] list_at_wf [OF _ l(3)] by (simp_all add: world_ok_def)
  let ?m = "im_move a"
  define outside where "outside \<longleftrightarrow> from_i ?m < 0 \<or> int (length (il_items lf)) \<le> from_i ?m \<or>
    to_i ?m < 0 \<or> int (length (il_items lt)) \<le> to_i ?m \<or> f = t \<and> from_i ?m = to_i ?m"
  show ?thesis
  proof (cases outside)
    case True
    with l wf show ?thesis
      by (auto simp: move_prepare_def deref_def getSize_wf outside_def Let_def)
  next
    case False
    then have i: "nat (from_i ?m) < length (il_items lf)" "nat (to_i ?m) < length (il_items lt)" "0 \<le> from_i ?m" "0 \<le> to_i ?m"
      by (auto simp: outside_def)
    let ?s0 = "il_items lf ! nat (from_i ?m)"
    define s1 where "s1 = (if im_count a > 0 \<and> im_count a < st_count ?s0 then ?s0\<lparr>st_count := im_count a\<rparr> else ?s0)"
    obtain fits restitem where r: "il_itemFits idm (nat (to_i ?m)) s1 lt = Inr (fits, restitem)"
      using itemFits_ok by blast
    have "\<exists>a1 p. move_prepare idm f t a w = Inr (a1, p) \<and> im_move a1 = ?m"
      using False l wf i r
      by (simp add: move_prepare_def deref_def getSize_wf outside_def Let_def il_getItem_ok flip: s1_def)
    moreover have "held f (Suc (nat (from_i ?m))) w" "held t (Suc (nat (to_i ?m))) w"
      using l i by (simp_all add: held_def)
    ultimately show ?thesis using i by blast
  qed
qed

subsection \<open>Whether the stacks are swapped\<close>

text \<open>A stack that takes no item of a kind refuses any number of them.\<close>

definition refuses :: "IItemDefManager \<Rightarrow> item_stack \<Rightarrow> item_stack \<Rightarrow> bool" where
  "refuses idm item s \<longleftrightarrow> \<not> ItemStack_empty s \<and>
     (\<forall>n. n \<noteq> 0 \<longrightarrow> (\<exists>s'. ItemStack_addItem idm (item\<lparr>st_count := n\<rparr>) s = Inr (item\<lparr>st_count := n\<rparr>, s')))"

lemma refuses_if_nothing_fits:
  assumes "ItemStack_itemFits idm (item\<lparr>st_count := c\<rparr>) s = Inr (fits, rest)" and "\<not> fits" and "st_count rest = c" and "c \<noteq> 0"
  shows "refuses idm item s"
proof -
  have s: "\<not> ItemStack_empty s"
    using assms by (auto simp: ItemStack_itemFits_def ItemStack_empty_def ItemStack_clear_def)
  let ?other = "st_name s \<noteq> st_name item \<or> \<not> metadata_eq (st_meta s) (st_meta item)"
  have full: "ItemStack_freeSpace idm s = 0" if "\<not> ?other"
  proof -
    have "rest = item\<lparr>st_count := c - ItemStack_freeSpace idm s\<rparr>"
      using assms s that
      by (auto simp: ItemStack_itemFits_def ItemStack_empty_def ItemStack_clear_def ItemStack_remove_def Let_def split: if_splits)
    then have "c - ItemStack_freeSpace idm s = c" using assms(3) by simp
    then show ?thesis by simp
  qed
  show ?thesis
  proof (cases ?other)
    case True
    with s show ?thesis by (simp add: refuses_def ItemStack_addItem_def ItemStack_empty_def)
  next
    case False
    with s full show ?thesis
      by (auto simp: refuses_def ItemStack_addItem_def ItemStack_empty_def ItemStack_remove_def)
  qed
qed

lemma take_portion:
  assumes "i < length (il_items l)" and "\<not> ItemStack_empty (il_items l ! i)" and "count \<noteq> 0"
  obtains n l1 where "take_or_change i count l = Inr ((il_items l ! i)\<lparr>st_count := n\<rparr>, l1)" and "n \<noteq> 0"
    and "length (il_items l1) = length (il_items l)" and "\<And>j. j \<noteq> i \<Longrightarrow> il_items l1 ! j = il_items l ! j"
proof -
  obtain taken l1 where t: "take_or_change i count l = Inr (taken, l1)" "same_shape l l1"
    "\<And>j. j \<noteq> i \<Longrightarrow> il_items l1 ! j = il_items l ! j"
    by (rule take_or_change_ok [of i count l]) blast
  have "taken = (il_items l ! i)\<lparr>st_count := st_count taken\<rparr> \<and> st_count taken \<noteq> 0"
  proof (cases "count \<ge> ucast (st_count (il_items l ! i))")
    case True
    with t(1) assms show ?thesis
      by (auto simp: take_or_change_def il_takeItem_def ItemStack_takeItem_def ItemStack_empty_def Let_def split: if_splits)
  next
    case False
    then have "unat count < unat (st_count (il_items l ! i))"
      by (simp add: word_le_nat_alt unsigned_ucast_eq)
    then have "unat (ucast count :: u16) = unat count"
      using unat_u16_less [of "st_count (il_items l ! i)"] by (simp add: unsigned_ucast_eq take_bit_nat_eq_self)
    then have "(ucast count :: u16) \<noteq> 0"
      using assms(3) by (auto simp: unat_eq_0)
    with t(1) assms False show ?thesis
      by (auto simp: take_or_change_def il_takeItem_def ItemStack_takeItem_def ItemStack_empty_def Let_def
          rbind_eq_Inr split: if_splits prod.splits)
  qed
  with t that [of "st_count taken" l1] show thesis
    by (simp add: same_shape_def)
qed

lemma moveItem_no_swap: "il_moveItem idm src i dest dest_i count False h = Inr (moved, did_swap, h') \<Longrightarrow> \<not> did_swap"
  by (auto simp: il_moveItem_def rbind_eq_Inr Let_def split: if_splits prod.splits)

lemma moveItem_swap:
  assumes ne: "src \<noteq> dest \<or> i \<noteq> dest_i" and i: "i < length (il_items (h src))" and j: "dest_i < length (il_items (h dest))"
    and item: "\<not> ItemStack_empty (il_items (h src) ! i)" and r: "refuses idm (il_items (h src) ! i) (il_items (h dest) ! dest_i)"
    and "count \<noteq> 0" and mv: "il_moveItem idm src i dest dest_i count True h = Inr (moved, did_swap, h')"
  shows "did_swap"
proof -
  let ?item = "il_items (h src) ! i"
  obtain n l1 where t: "take_or_change i count (h src) = Inr (?item\<lparr>st_count := n\<rparr>, l1)" "n \<noteq> 0"
    and l1: "length (il_items l1) = length (il_items (h src))" "\<And>k. k \<noteq> i \<Longrightarrow> il_items l1 ! k = il_items (h src) ! k"
    by (rule take_portion [OF i item \<open>count \<noteq> 0\<close>]) blast
  have "dest_i < length (il_items ((h(src := l1)) dest)) \<and> il_items ((h(src := l1)) dest) ! dest_i = il_items (h dest) ! dest_i"
    using ne j l1 by auto
  moreover obtain s' where "ItemStack_addItem idm (?item\<lparr>st_count := n\<rparr>) (il_items (h dest) ! dest_i) = Inr (?item\<lparr>st_count := n\<rparr>, s')"
    using r t(2) unfolding refuses_def by blast
  ultimately obtain l2 where "il_addItem_at idm dest_i (?item\<lparr>st_count := n\<rparr>) ((h(src := l1)) dest) = Inr (?item\<lparr>st_count := n\<rparr>, l2)"
    by (simp add: il_addItem_at_def Let_def)
  moreover have "ItemStack_remove n (?item\<lparr>st_count := n\<rparr>) = Inr (ItemStack_clear (?item\<lparr>st_count := 0\<rparr>))"
    by (simp add: ItemStack_remove_def)
  ultimately show ?thesis
    using mv t ne
    by (auto simp: il_moveItem_def rbind_eq_Inr Let_def ItemStack_empty_def ItemStack_clear_def case_prod_beta split: if_splits)
qed

lemma move_prepare_swap:
  assumes ok: "world_ok w" and p: "move_prepare idm f t a w = Inr (a1, Some (item, sw))"
    and l: "list_at f w = Some lf" "list_at t w = Some lt"
  shows "f \<noteq> t \<or> from_i (im_move a) \<noteq> to_i (im_move a)" "im_move a1 = im_move a"
    "0 \<le> from_i (im_move a)" "nat (from_i (im_move a)) < length (il_items lf)"
    "0 \<le> to_i (im_move a)" "nat (to_i (im_move a)) < length (il_items lt)"
    "sw \<Longrightarrow> item = il_items lf ! nat (from_i (im_move a)) \<and> \<not> ItemStack_empty item \<and>
       move_count a1 = ucast (st_count item) \<and> refuses idm item (il_items lt ! nat (to_i (im_move a)))"
proof -
  let ?m = "im_move a"
  have wf: "il_wf lf" "il_wf lt"
    using ok list_at_wf [OF _ l(1)] list_at_wf [OF _ l(2)] by (simp_all add: world_ok_def)
  have "\<not> (from_i ?m < 0 \<or> int (length (il_items lf)) \<le> from_i ?m \<or> to_i ?m < 0 \<or> int (length (il_items lt)) \<le> to_i ?m \<or>
      f = t \<and> from_i ?m = to_i ?m)"
    using p [unfolded move_prepare_def Let_def deref_def l option.case rbind_simps] wf
    by (simp add: getSize_wf split: if_splits)
  then show i: "f \<noteq> t \<or> from_i ?m \<noteq> to_i ?m" "0 \<le> from_i ?m" "nat (from_i ?m) < length (il_items lf)"
    "0 \<le> to_i ?m" "nat (to_i ?m) < length (il_items lt)"
    by auto
  let ?s0 = "il_items lf ! nat (from_i ?m)"
  define c where "c = (if im_count a > 0 \<and> im_count a < st_count ?s0 then im_count a else st_count ?s0)"
  have c: "(if im_count a > 0 \<and> im_count a < st_count ?s0 then ?s0\<lparr>st_count := im_count a\<rparr> else ?s0) = ?s0\<lparr>st_count := c\<rparr>"
    by (simp add: c_def)
  obtain fits rest where r: "il_itemFits idm (nat (to_i ?m)) (?s0\<lparr>st_count := c\<rparr>) lt = Inr (fits, rest)"
    using itemFits_ok by blast
  note eqs = p [unfolded move_prepare_def Let_def deref_def l option.case rbind_simps]
  have all: "c \<noteq> 0 \<and> im_move a1 = ?m \<and> (sw \<longrightarrow> \<not> fits \<and> st_count rest = c \<and> item = ?s0 \<and> move_count a1 = ucast (st_count ?s0))"
    using eqs i wf by (auto simp: getSize_wf il_getItem_ok c r ItemStack_empty_def split: if_splits)
  then show "im_move a1 = ?m" by blast
  assume sw
  have "ItemStack_itemFits idm (?s0\<lparr>st_count := c\<rparr>) (il_items lt ! nat (to_i ?m)) = Inr (fits, rest)"
    using r i(5) by (simp add: il_itemFits_def)
  then have "refuses idm ?s0 (il_items lt ! nat (to_i ?m))"
    using all \<open>sw\<close> by (intro refuses_if_nothing_fits) auto
  moreover have "\<not> ItemStack_empty ?s0"
    using all by (auto simp: c_def ItemStack_empty_def split: if_splits)
  ultimately show "item = ?s0 \<and> \<not> ItemStack_empty item \<and> move_count a1 = ucast (st_count item) \<and>
      refuses idm item (il_items lt ! nat (to_i ?m))"
    using all \<open>sw\<close> by simp
qed

subsection \<open>The allow callbacks\<close>

text \<open>Scripts whose \<open>allow\<close> callbacks leave the items alone, which they are asked to.\<close>

definition allow_keeps_items :: "callbacks \<Rightarrow> bool" where
  "allow_keeps_items cb \<longleftrightarrow>
     (\<forall>w t m r.
       (\<forall>n. items_at r (snd (cb_AllowMove cb t m n w)) = items_at r w) \<and>
       (\<forall>s. items_at r (snd (cb_AllowPut cb t m s w)) = items_at r w \<and>
            items_at r (snd (cb_AllowTake cb t m s w)) = items_at r w))"

lemma allow_items:
  assumes "allow_keeps_items cb"
  shows "allowMove cb m k w = Inr (n, w') \<Longrightarrow> items_at r w' = items_at r w"
    "allowPut cb m s w = Inr (n, w') \<Longrightarrow> items_at r w' = items_at r w"
    "allowTake cb m s w = Inr (n, w') \<Longrightarrow> items_at r w' = items_at r w"
  using assms
  by (auto simp: allow_keeps_items_def allowMove_def allowPut_def allowTake_def Let_def prod_eq_iff
      simp del: split_paired_All split: if_splits)

lemma move_allow_items:
  assumes "allow_keeps_items cb" and "move_allow cb t item sw a w = Inr (can_take, can_put, allowed, w')"
  shows "items_at r w' = items_at r w"
  using assms(2)
  by (auto simp: move_allow_def swap_within_def swap_between_def unless_refused_def Let_def rbind_eq_Inr
      allow_items [OF assms(1)] split: if_splits prod.splits)

lemma callbacks_sound:
  assumes "scripts_respect_locks cb" and "world_ok w"
  shows "has_callbacks (loc_type (from_inv m)) \<Longrightarrow> sound b w snd (allowMove cb m k w)"
    "has_callbacks (loc_type (to_inv m)) \<Longrightarrow> sound b w snd (allowPut cb m s w)"
    "has_callbacks (loc_type (from_inv m)) \<Longrightarrow> sound b w snd (allowTake cb m s w)"
    "has_callbacks (loc_type (from_inv m)) \<Longrightarrow> sound b w (\<lambda>w. w) (onMove cb m k w)"
    "has_callbacks (loc_type (to_inv m)) \<Longrightarrow> sound b w (\<lambda>w. w) (onPut cb m s w)"
    "has_callbacks (loc_type (from_inv m)) \<Longrightarrow> sound b w (\<lambda>w. w) (onTake cb m s w)"
  using assms by (simp_all add: scripts_respect_locks_def allowMove_def allowPut_def allowTake_def onMove_def
      onPut_def onTake_def Let_def)

text \<open>Both locations of a move have callbacks; so have they the other way round.\<close>

definition callable :: "move_action \<Rightarrow> bool" where
  "callable m \<longleftrightarrow> has_callbacks (loc_type (from_inv m)) \<and> has_callbacks (loc_type (to_inv m))"

lemma callable_swap [simp]: "callable (swapDirections m) = callable m"
  by (auto simp: callable_def swapDirections_def)

lemma callableD: "callable m \<Longrightarrow> has_callbacks (loc_type (from_inv m))" "callable m \<Longrightarrow> has_callbacks (loc_type (to_inv m))"
  by (simp_all add: callable_def)

lemma getItem_sound:
  "world_ok w \<Longrightarrow> held r (Suc (nat i)) w \<Longrightarrow> 0 \<le> i \<Longrightarrow> sound b w (\<lambda>_. w) (getItem_at r i w)"
  using held_getItem [of w r "Suc (nat i)" i] within_refl [of w] by auto

lemma swap_within_sound:
  assumes cb: "scripts_respect_locks cb" and ok: "world_ok w" and m: "callable m"
    and "0 \<le> to_i m" "held t (Suc (nat (to_i m))) w"
  shows "sound b w (\<lambda>(_, _, w'). w') (swap_within cb t m w)"
  unfolding swap_within_def
  by (rule sound_rbind [OF getItem_sound [OF ok assms(5,4)]], rule sound_rbind2 [OF callbacks_sound(1) [OF cb ok]])
    (simp_all add: within_self callableD m)

lemma swap_between_sound:
  assumes cb: "scripts_respect_locks cb" and ok: "world_ok w" and m: "callable m"
    and "0 \<le> to_i m" "held t (Suc (nat (to_i m))) w"
  shows "sound b w snd (swap_between cb t m w)"
  unfolding swap_between_def
  by (rule sound_rbind [OF getItem_sound [OF ok assms(5,4)]], rule sound_rbind2 [OF callbacks_sound(2) [OF cb ok]],
      simp add: callableD m, rule sound_rbind2 [OF callbacks_sound(3) [OF cb within_ok]])
    (simp_all add: within_self callableD m)

lemma sound_choice:
  assumes "world_ok w" and "e \<Longrightarrow> sound b w g r" and "g x = w"
  shows "sound b w g (if e then r else Inr x)"
  by (rule locked.ends_choice [OF within_refl [OF assms(1)] assms(2,3)])

lemma sound_refused: "world_ok w \<Longrightarrow> sound b w (\<lambda>(_, _, _, w'). w') (Inr (unless_refused e n d x w))"
  by (simp add: unless_refused_def within_refl)

lemma move_allow_sound:
  assumes cb: "scripts_respect_locks cb" and ok: "world_ok w" and m: "callable (im_move a)"
    and t: "0 \<le> to_i (im_move a)" "held t (Suc (nat (to_i (im_move a)))) w"
  shows "sound b w (\<lambda>(_, _, _, w'). w') (move_allow cb t s swap a w)"
proof -
  let ?m = "im_move a"
  note cbs = callbacks_sound [OF cb] and c = callableD [OF m]
  have 1: "sound b w1 (\<lambda>(_, _, w'). w') (if e then swap_within cb t ?m w1 else Inr (n, False, w1))" if "within w w1" for e n w1
    using within_ok [OF that] within_held [OF that t(2)] t(1) cb m by (intro sound_choice swap_within_sound) auto
  have 2: "sound b w1 snd (if e then swap_between cb t ?m w1 else Inr (False, w1))" if "within w w1" for e w1
    using within_ok [OF that] within_held [OF that t(2)] t(1) cb m by (intro sound_choice swap_between_sound) auto
  show ?thesis
  proof (cases "location_eq (from_inv ?m) (to_inv ?m)")
    case True
    show ?thesis
      unfolding move_allow_def Let_def if_P [OF True]
      by (rule sound_rbind2 [OF cbs(1) [OF ok c(1)]], rule sound_rbind3 [OF 1])
        (assumption | rule sound_refused within_ok)+
  next
    case False
    show ?thesis
      unfolding move_allow_def Let_def if_not_P [OF False]
      by (rule sound_rbind2 [OF cbs(2) [OF ok c(2)]], rule sound_rbind2 [OF cbs(3) [OF within_ok c(1)]], assumption,
          rule sound_rbind2 [OF 2 [OF within_trans]]) (assumption | rule sound_refused within_ok)+
  qed
qed

lemma store_shape_at: "store_shape (world_store w) h \<Longrightarrow> list_at r w = Some l \<Longrightarrow> same_shape l (h r)"
  by (auto simp: store_shape_def world_store_def simp del: split_paired_All dest!: spec [of _ r])

lemma put_two_within:
  assumes ok: "world_ok w" and f: "list_at f w = Some lf" and t: "list_at t w = Some lt" and h: "store_shape (world_store w) h"
  shows "within w (put_list t (h t) (put_list f (h f) w))"
proof -
  note sf = store_shape_at [OF h f] and st = store_shape_at [OF h t]
  have 1: "within w (put_list f (h f) w)"
    by (rule put_list_within [OF ok f sf])
  have "il_name (h f) = snd f"
    using same_shape_name [OF sf] list_at_wf [OF _ f] ok by (simp add: world_ok_def)
  then have "list_at t (put_list f (h f) w) = Some (if t = f then h f else lt)"
    using list_at_put [OF f] t by simp
  moreover have "same_shape (if t = f then h f else lt) (h t)"
    using st by simp
  ultimately show ?thesis
    using within_trans [OF 1 put_list_within [OF within_ok [OF 1]]] by blast
qed

lemma exists_sound: "(\<exists>w'. r = Inr w' \<and> within w w') \<Longrightarrow> sound b w (\<lambda>w. w) r"
  by auto

lemma changeItem_sound: "world_ok w \<Longrightarrow> held r n w \<Longrightarrow> sound b w (\<lambda>w. w) (changeItem_at r i s w)"
  using changeItem_within [of w r n i s] by auto

lemma restore_source_sound:
  assumes ok: "world_ok w" and f: "held f n w" and t: "held t k w"
  shows "sound b w (\<lambda>w. w) (restore_source can f t from_was to_was did_swap a w)"
proof -
  have 1: "sound b w (\<lambda>w. w) (if e then modify_list t (put_first_empty to_was) w else Inr w)" for e
    using modify_within [OF ok t, of "put_first_empty to_was"] put_first_empty_shape
    by (intro sound_choice ok exists_sound refl) blast
  have 2: "sound b w1 (\<lambda>w. w) (if e then changeItem_at f i from_was w1 else Inr w1)" if "within w w1" for e i w1
    by (rule sound_choice [OF within_ok [OF that] changeItem_sound [OF within_ok [OF that] within_held [OF that f]] refl])
  show ?thesis
    unfolding restore_source_def by (rule sound_choice [OF ok sound_rbind [OF 1 2] refl])
qed

lemma restore_dest_sound:
  assumes ok: "world_ok w" and f: "held f n w" and t: "held t k w"
  shows "sound b w (\<lambda>w. w) (restore_dest can f t from_was to_was did_swap a w)"
proof -
  let ?take = "\<lambda>w2. rbind (takeItem_at f (from_i (im_move a)) (move_count a) w2) (\<lambda>(_, w3). Inr w3)"
  have 1: "sound b w2 (\<lambda>w. w) (?take w2)" if "within w w2" for w2
    using takeItem_within [OF within_ok [OF that] within_held [OF that f], of "from_i (im_move a)" "move_count a"] by auto
  have 2: "sound b w1 (\<lambda>w. w) (rbind (changeItem_at f (from_i (im_move a)) from_was w1) ?take)" if "within w w1" for w1
    by (rule sound_rbind [OF changeItem_sound [OF within_ok [OF that] within_held [OF that f]] 1]) (rule within_trans [OF that])
  show ?thesis
    unfolding restore_dest_def
    by (rule sound_choice [OF ok], rule sound_rbind [OF changeItem_sound [OF ok t]], rule sound_choice)
      (assumption | rule within_ok 2 refl)+
qed

lemma record_rollback_within: "world_ok w \<Longrightarrow> within w (record_rollback m s d item w)"
  by (simp add: record_rollback_def within_def world_ok_def world_wf_def notify_def list_at_def Let_def)

lemma after_move_sound:
  assumes ok: "world_ok w" and f: "held f n w" and t: "held t k w"
  shows "sound b w (\<lambda>(_, _, w'). w') (after_move f t s d from_was to_was src_item did_swap a w)"
  unfolding after_move_def
proof (rule sound_rbind [OF restore_source_sound [OF ok f t]])
  fix w1 assume w1: "within w w1"
  show "sound b w1 (\<lambda>(_, _, w'). w') (rbind (restore_dest d f t from_was to_was did_swap a w1) (\<lambda>w2.
       if caused_by_move_somewhere a \<and> move_count a = 0 then Inr (None, a, w2)
       else Inr (Some (src_item, did_swap), a, record_rollback (im_move a) s d src_item w2)))"
    by (rule sound_rbind [OF restore_dest_sound [OF within_ok [OF w1] within_held [OF w1 f] within_held [OF w1 t]]])
      (auto intro: within_self record_rollback_within dest: within_ok)
qed

text \<open>
  The assertion after the move: stacks are swapped exactly when it was allowed, if the slots still
  have what they had before the callbacks.
\<close>

definition swap_ready :: "IItemDefManager \<Rightarrow> list_ref \<Rightarrow> list_ref \<Rightarrow> bool \<Rightarrow> imove_action \<Rightarrow> world \<Rightarrow> bool" where
  "swap_ready idm f t allowed a w \<longleftrightarrow>
     (let i = nat (from_i (im_move a)); j = nat (to_i (im_move a))
      in (f \<noteq> t \<or> i \<noteq> j) \<and>
         (allowed \<longrightarrow> (\<exists>xs ys. items_at f w = Some xs \<and> items_at t w = Some ys \<and>
            \<not> ItemStack_empty (xs ! i) \<and> refuses idm (xs ! i) (ys ! j))))"

lemma swap_as_allowed:
  assumes ready: "swap_ready idm f t allowed a w" and "move_count a \<noteq> 0"
    and l: "list_at f w = Some lf" "list_at t w = Some lt"
    and i: "nat (from_i (im_move a)) < length (il_items lf)" "nat (to_i (im_move a)) < length (il_items lt)"
    and mv: "il_moveItem idm f (nat (from_i (im_move a))) t (nat (to_i (im_move a))) (move_count a) allowed (world_store w) =
      Inr (moved, did_swap, h)"
  shows "did_swap = allowed"
proof (cases allowed)
  case True
  have st: "world_store w f = lf" "world_store w t = lt"
    using l by (simp_all add: world_store_def)
  have mv': "il_moveItem idm f (nat (from_i (im_move a))) t (nat (to_i (im_move a))) (move_count a) True (world_store w) =
      Inr (moved, did_swap, h)"
    using mv True by simp
  from True show ?thesis
    using moveItem_swap [OF _ _ _ _ _ assms(2) mv'] ready l i
    by (auto simp: swap_ready_def Let_def items_at_def st)
next
  case False
  with moveItem_no_swap mv show ?thesis
    by metis
qed

lemma move_now_sound:
  assumes ok: "world_ok w" and f: "0 \<le> from_i (im_move a)" "held f (Suc (nat (from_i (im_move a)))) w"
    and t: "0 \<le> to_i (im_move a)" "held t (Suc (nat (to_i (im_move a)))) w"
    and ready: "\<not> b \<Longrightarrow> swap_ready idm f t sw a w \<and> move_count a \<noteq> 0"
  shows "sound b w (\<lambda>(_, _, w'). w') (move_now idm f t s d sw a w)"
proof -
  let ?m = "im_move a"
  obtain lf lt where l: "list_at f w = Some lf" "list_at t w = Some lt"
    and i: "nat (from_i ?m) < length (il_items lf)" "nat (to_i ?m) < length (il_items lt)"
    using f(2) t(2) by (auto simp: held_def)
  have "il_wf (world_store w f)"
    using l(1) list_at_wf [OF _ l(1)] ok by (simp add: world_store_def world_ok_def)
  then obtain moved did_swap h where mv: "il_moveItem idm f (nat (from_i ?m)) t (nat (to_i ?m)) (move_count a) sw (world_store w) =
      Inr (moved, did_swap, h)" and h: "store_shape (world_store w) h"
    by (rule il_moveItem_ok [of "world_store w" f idm "nat (from_i ?m)" t "nat (to_i ?m)" "move_count a" sw])
  let ?w1 = "put_list t (h t) (put_list f (h f) w)"
  have w1: "within w ?w1"
    by (rule put_two_within [OF ok l h])
  have f1: "held f (Suc (nat (from_i ?m))) ?w1" and t1: "held t (Suc (nat (to_i ?m))) ?w1"
    using within_held [OF w1] f(2) t(2) by blast+
  have same: "b \<or> sw = did_swap"
    using ready swap_as_allowed [OF _ _ l i mv] by blast
  have "sound b ?w1 (\<lambda>(_, _, w'). w') (after_move f t s d fw tw moved did_swap a1 ?w1)" for fw tw a1
    by (rule after_move_sound [OF within_ok [OF w1] f1 t1])
  then have "sound b w (\<lambda>(_, _, w'). w')
      (if sw \<noteq> did_swap then Inl AssertFailed else after_move f t s d fw tw moved did_swap a1 ?w1)" for fw tw a1
    using sound_trans [OF w1] same by (simp only: ends_simps split: if_split) blast
  then show ?thesis
    unfolding move_now_def Let_def
    by (rule_tac sound_rbind [OF getItem_sound [OF ok f(2,1)]], rule_tac sound_rbind [OF getItem_sound [OF ok t(2,1)]])
      (simp only: mv rbind_simps prod.case)
qed

lemma move_perform_sound:
  assumes ok: "world_ok w" and f: "0 \<le> from_i (im_move a)" "held f (Suc (nat (from_i (im_move a)))) w"
    and t: "0 \<le> to_i (im_move a)" "held t (Suc (nat (to_i (im_move a)))) w"
    and ready: "\<not> b \<Longrightarrow> swap_ready idm f t sw a w"
  shows "sound b w (\<lambda>(_, _, w'). w') (move_perform idm f t s d sw a w)"
proof -
  let ?m = "im_move a"
  have mod: "sound b w1 (\<lambda>w. w) (setModified_if e r w1)" if "within w w1" "held r n w" for w1 e r n
    using setModified_within [OF within_ok [OF that(1)] within_held [OF that]] by (intro exists_sound) blast
  have none: "sound b w (\<lambda>(_, _, w'). w') (rbind (setModified_if e f w) (\<lambda>w1. rbind (setModified_if e' t w1) (\<lambda>w2. Inr (None, a1, w2))))"
    for e e' and a1 :: imove_action
    by (rule sound_rbind [OF mod [OF within_refl [OF ok] f(2)]], rule sound_rbind [OF mod [OF _ t(2)]]) (simp_all add: within_self)
  have now: "sound b w (\<lambda>(_, _, w'). w') (move_now idm f t s d sw (a\<lparr>move_count := n\<rparr>) w)" if "n \<noteq> 0" for n
    using assms that by (intro move_now_sound) (simp_all add: swap_ready_def)
  show ?thesis
    unfolding move_perform_def Let_def
    by (rule sound_rbind [OF getItem_sound [OF ok f(2,1)]]) (simp add: none now del: ends_simps)
qed

text \<open>What the checks found is still so after callbacks that leave the items alone.\<close>

lemma swap_ready_after_allow:
  assumes keep: "allow_keeps_items cb" and ok: "world_ok w" and held: "held f 0 w" "held t 0 w"
    and p: "move_prepare idm f t a w = Inr (a1, Some (item, sw))"
    and al: "move_allow cb t item sw a1 w = Inr (s, d, allowed, w1)"
  shows "swap_ready idm f t allowed a1 w1"
proof -
  obtain lf lt where l: "list_at f w = Some lf" "list_at t w = Some lt"
    using held by (auto simp: held_def)
  note m = move_prepare_swap [OF ok p l]
  have ne: "f \<noteq> t \<or> nat (from_i (im_move a)) \<noteq> nat (to_i (im_move a))"
    using m(1,3,5) by auto
  have items: "items_at f w = Some (il_items lf)" "items_at t w = Some (il_items lt)"
    using l by (simp_all add: items_at_def)
  show ?thesis
  proof (cases allowed)
    case True
    have sw
      using al True by (auto simp: move_allow_def unless_refused_def Let_def rbind_eq_Inr split: if_splits)
    from m(7) [OF this] True ne items m(2) move_allow_items [OF keep al] show ?thesis
      by (auto simp: swap_ready_def Let_def)
  qed (use ne m(2) in \<open>simp add: swap_ready_def Let_def\<close>)
qed

lemma move_locked_sound:
  assumes cb: "scripts_respect_locks cb" and ok: "world_ok w" and m: "callable (im_move a)"
    and f: "held f 0 w" and t: "held t 0 w" and keep: "\<not> b \<Longrightarrow> allow_keeps_items cb"
  shows "sound b w (\<lambda>(_, _, w'). w') (move_locked cb idm f t a w)"
proof -
  obtain a1 p where p: "move_prepare idm f t a w = Inr (a1, p)" "im_move a1 = im_move a"
    "p \<noteq> None \<Longrightarrow> 0 \<le> from_i (im_move a1) \<and> held f (Suc (nat (from_i (im_move a1)))) w \<and>
      0 \<le> to_i (im_move a1) \<and> held t (Suc (nat (to_i (im_move a1)))) w"
    using move_prepare_ok [OF ok f t, of idm a] by fastforce
  show ?thesis
  proof (cases p)
    case None
    with p(1) within_refl [OF ok] show ?thesis by (simp add: move_locked_def)
  next
    case (Some x)
    obtain item sw where x: "x = (item, sw)" by (cases x)
    have e: "0 \<le> from_i (im_move a1)" "held f (Suc (nat (from_i (im_move a1)))) w"
      "0 \<le> to_i (im_move a1)" "held t (Suc (nat (to_i (im_move a1)))) w"
      using p(3) Some by auto
    have m1: "callable (im_move a1)" using m p(2) by simp
    have "sound b w (\<lambda>(_, _, w'). w') (rbind (move_allow cb t item sw a1 w)
        (\<lambda>(s, d, sw1, w1). move_perform idm f t s d sw1 a1 w1))"
    proof (rule sound_rbind4 [OF move_allow_sound [OF cb ok m1 e(3,4)]])
      fix s d sw1 w1
      assume al: "move_allow cb t item sw a1 w = Inr (s, d, sw1, w1)" and w1: "within w w1"
      show "sound b w1 (\<lambda>(_, _, w'). w') (move_perform idm f t s d sw1 a1 w1)"
        using swap_ready_after_allow [OF keep ok f t _ al] p(1) Some x
        by (intro move_perform_sound [OF within_ok [OF w1] e(1) within_held [OF w1 e(2)] e(3) within_held [OF w1 e(4)]]) auto
    qed
    with p(1) Some x show ?thesis by (simp add: move_locked_def)
  qed
qed

lemma move_perform_keeps_move:
  "move_perform idm f t can_take can_put allowed a w = Inr (r, a', w') \<Longrightarrow> im_move a' = im_move a"
  by (auto simp: move_perform_def move_now_def after_move_def Let_def rbind_eq_Inr split: if_splits prod.splits)

lemma move_locked_moved:
  assumes ok: "world_ok w" and held: "held f 0 w" "held t 0 w" and l: "list_at f w = Some lf"
    and mv: "move_locked cb idm f t a w = Inr (Some moved, a', w')"
  shows "nat (from_i (im_move a)) < length (il_items lf)" and "im_move a' = im_move a"
proof -
  obtain lt where lt: "list_at t w = Some lt"
    using held(2) by (auto simp: held_def)
  obtain a1 p where p: "move_prepare idm f t a w = Inr (a1, p)" "im_move a1 = im_move a"
    using move_prepare_ok [OF ok held, of idm a] by blast
  with mv obtain item sw where x: "p = Some (item, sw)"
    by (cases p) (auto simp: move_locked_def)
  show "nat (from_i (im_move a)) < length (il_items lf)"
    using move_prepare_swap(4) [OF ok p(1) [unfolded x] l lt] .
  show "im_move a' = im_move a"
    using mv p x by (auto simp: move_locked_def rbind_eq_Inr dest: move_perform_keeps_move)
qed

subsection \<open>Taking and releasing the locks\<close>

lemma find_list_at: "find_list loc n w = Some r \<Longrightarrow> \<exists>l. list_at r w = Some l"
  by (auto simp: find_list_def bind_eq_Some_conv split: if_splits)

lemma find_list_callbacks: "find_list loc n w = Some r \<Longrightarrow> has_callbacks (loc_type loc)"
  by (auto simp: find_list_def bind_eq_Some_conv getInventory_def has_callbacks_def split: location_type.splits)

lemma locks_fields [simp]:
  "il_name (il_resizeLock l) = il_name l" "il_name (il_resizeUnlock l) = il_name l"
  "il_wf (il_resizeLock l) = il_wf l" "il_wf (il_resizeUnlock l) = il_wf l"
  "il_locks (il_resizeLock l) = il_locks l + 1" "il_locks (il_resizeUnlock l) = il_locks l - 1"
  "il_items (il_resizeLock l) = il_items l" "il_items (il_resizeUnlock l) = il_items l"
  by (simp_all add: il_resizeLock_def il_resizeUnlock_def il_wf_def)

lemma world_ok_put:
  assumes "world_ok w" and "list_at r w = Some l0" and "il_name l = il_name l0" "il_wf l" "il_locks l \<ge> 0"
  shows "world_ok (put_list r l w)" and "list_at s (put_list r l w) = (if s = r then Some l else list_at s w)"
proof -
  have n: "il_name l = snd r"
    using list_at_wf [OF _ assms(2)] assms(1,3) by (simp add: world_ok_def)
  show at: "list_at s (put_list r l w) = (if s = r then Some l else list_at s w)" for s
    by (rule list_at_put [OF assms(2) n])
  show "world_ok (put_list r l w)"
    using assms world_wf_put [OF _ n assms(4)] at by (simp add: world_ok_def)
qed

lemma lock_ok:
  assumes "world_ok w" and "list_at r w = Some l"
  obtains w' where "lock r w = Inr w'" and "world_ok w'"
    and "\<And>s. list_at s w' = (if s = r then Some (il_resizeLock l) else list_at s w)"
    and "w' = put_list r (il_resizeLock l) w"
proof (rule that [of "put_list r (il_resizeLock l) w"])
  have l: "il_wf l" "il_locks l \<ge> 0"
    using assms list_at_wf [OF _ assms(2)] by (auto simp: world_ok_def simp del: split_paired_All)
  show "lock r w = Inr (put_list r (il_resizeLock l) w)"
    using assms(2) by (simp add: lock_def modify_list_def deref_def)
  show "world_ok (put_list r (il_resizeLock l) w)"
    "list_at s (put_list r (il_resizeLock l) w) = (if s = r then Some (il_resizeLock l) else list_at s w)" for s
    using world_ok_put [OF assms, of "il_resizeLock l"] l by simp_all
qed simp

lemma unlock_ok:
  assumes "world_ok w" and "list_at r w = Some l" and "il_locks l > 0"
  obtains w' where "unlock r w = Inr w'" and "world_ok w'"
    and "\<And>s. list_at s w' = (if s = r then Some (il_resizeUnlock l) else list_at s w)"
    and "w' = put_list r (il_resizeUnlock l) w"
proof (rule that [of "put_list r (il_resizeUnlock l) w"])
  have l: "il_wf l"
    using assms(1) list_at_wf [OF _ assms(2)] by (simp add: world_ok_def)
  show "unlock r w = Inr (put_list r (il_resizeUnlock l) w)"
    using assms(2) by (simp add: unlock_def modify_list_def deref_def)
  show "world_ok (put_list r (il_resizeUnlock l) w)"
    "list_at s (put_list r (il_resizeUnlock l) w) = (if s = r then Some (il_resizeUnlock l) else list_at s w)" for s
    using world_ok_put [OF assms(1,2), of "il_resizeUnlock l"] l assms(3) by simp_all
qed simp

text \<open>What happens under a lock is within the locks from outside as well.\<close>

lemma within_under_lock:
  assumes ok: "world_ok w" and r: "list_at r w = Some l" and lk: "lock r w = Inr w1" and w2: "within w1 w2"
  obtains w3 where "unlock r w2 = Inr w3" and "within w w3"
proof -
  obtain w1' where w1': "lock r w = Inr w1'" "world_ok w1'"
    "\<And>s. list_at s w1' = (if s = r then Some (il_resizeLock l) else list_at s w)"
    by (rule lock_ok [OF ok r]) blast
  then have at1: "list_at s w1 = (if s = r then Some (il_resizeLock l) else list_at s w)" for s
    using lk by simp
  have pos: "il_locks l \<ge> 0"
    using ok r by (auto simp: world_ok_def simp del: split_paired_All)
  obtain l2 where l2: "list_at r w2 = Some l2" "il_locks l2 = il_locks l + 1" "length (il_items l) \<le> length (il_items l2)"
    by (rule withinD [OF w2, of r "il_resizeLock l"]) (use at1 pos in auto)
  obtain w3 where w3: "unlock r w2 = Inr w3" "world_ok w3"
    "\<And>s. list_at s w3 = (if s = r then Some (il_resizeUnlock l2) else list_at s w2)"
  proof (rule unlock_ok [OF within_ok [OF w2] l2(1)])
    show "0 < il_locks l2" using l2 pos by simp
  qed blast
  have "\<exists>k'. list_at s w3 = Some k' \<and> il_locks k' = il_locks k \<and> length (il_items k) \<le> length (il_items k')"
    if k: "list_at s w = Some k" "il_locks k > 0" for s k
  proof (cases "s = r")
    case True
    with k r l2 w3(3) show ?thesis by simp
  next
    case False
    then have "list_at s w1 = Some k" using at1 k by simp
    then obtain k2 where "list_at s w2 = Some k2" "il_locks k2 = il_locks k" "length (il_items k) \<le> length (il_items k2)"
      by (rule withinD [OF w2]) (use k in auto)
    with False w3(3) show ?thesis by simp
  qed
  then have "within w w3"
    using w3(2) by (simp add: within_def del: split_paired_All)
  with w3(1) show thesis by (rule that)
qed

lemma setInventoryModified_within:
  assumes "world_ok w"
  shows "\<exists>w'. setInventoryModified loc w = Inr w' \<and> within w w'"
proof -
  have log: "within w (notify n w)" for n
    using assms by (simp add: within_def world_ok_def world_wf_def notify_def list_at_def)
  have upd: "within w (notify n (w\<lparr>w_invs := AList.update k (inv_setModified True iv) (w_invs w)\<rparr>))"
    if "map_of (w_invs w) k = Some iv" for k iv n
  proof -
    let ?w = "notify n (w\<lparr>w_invs := AList.update k (inv_setModified True iv) (w_invs w)\<rparr>)"
    have at: "list_at r ?w = list_at r w" for r
      using that by (simp add: list_at_def notify_def map_of_update inv_setModified_def inv_getList_def inv_getListIndex_def)
    have "inv_wf (inv_setModified True iv)"
      using world_wf_inv that assms by (auto simp: world_ok_def inv_wf_def inv_setModified_def)
    then have "world_wf ?w"
      using assms by (auto simp: world_ok_def world_wf_map notify_def map_of_update distinct_update)
    with assms at show ?thesis
      by (simp add: within_def world_ok_def notify_def del: split_paired_All)
  qed
  show ?thesis
    using assms within_refl [OF assms] log upd
    by (auto simp: setInventoryModified_def world_ok_def simp del: split_paired_All split: location_type.split option.split)
qed

text \<open>
  After the move the callbacks run without locks. The slot of the source is read again, in the
  list that was found before; when source and destination are in one inventory, this is after
  the first \<open>on_move\<close>.
\<close>

definition on_move_keeps_sizes :: "callbacks \<Rightarrow> bool" where
  "on_move_keeps_sizes cb \<longleftrightarrow>
     (\<forall>w t m n r l l'. list_at r w = Some l \<longrightarrow> list_at r (cb_OnMove cb t m n w) = Some l' \<longrightarrow>
       length (il_items l) \<le> length (il_items l'))"

lemma on_move_keepsD:
  "on_move_keeps_sizes cb \<Longrightarrow> list_at r w = Some l \<Longrightarrow> list_at r (cb_OnMove cb t m n w) = Some l' \<Longrightarrow>
    length (il_items l) \<le> length (il_items l')"
  unfolding on_move_keeps_sizes_def by blast

abbreviation reread :: "bool \<Rightarrow> location \<Rightarrow> string \<Rightarrow> int \<Rightarrow> world \<Rightarrow> item_stack option res" where
  "reread did_swap loc n i w \<equiv>
     (case (if did_swap then find_list loc n w else None) of
        None \<Rightarrow> Inr None | Some r \<Rightarrow> rbind (getItem_at r i w) (\<lambda>s. Inr (Some s)))"

lemma reread_cases:
  assumes "world_ok w"
  shows "(\<exists>s. reread d loc n i w = Inr s) \<or>
    reread d loc n i w = Inl OutOfBounds \<and>
      (\<exists>r l. find_list loc n w = Some r \<and> list_at r w = Some l \<and> length (il_items l) \<le> nat i)"
proof (cases "if d then find_list loc n w else None")
  case (Some r)
  then have r: "find_list loc n w = Some r"
    by (simp split: if_splits)
  obtain l where l: "list_at r w = Some l"
    using find_list_at [OF r] by blast
  have "il_wf l"
    using list_at_wf [OF _ l] assms by (simp add: world_ok_def)
  with Some r l show ?thesis
    by (cases "nat i < length (il_items l)") (auto simp: getItem_at_def deref_def il_getItem_def il_wf_def)
qed (simp del: split_paired_Ex)

lemma find_list_fixed: "find_list loc n w = Some r \<Longrightarrow> find_list loc n w' = Some r' \<Longrightarrow> r' = r"
  by (auto simp: find_list_def getInventory_def bind_eq_Some_conv split: location_type.splits if_splits)

lemma setInventoryModified_sound: "world_ok w \<Longrightarrow> sound b w (\<lambda>w. w) (setInventoryModified loc w)"
  by (rule exists_sound [OF setInventoryModified_within])

lemma report_within_sound:
  assumes cb: "scripts_respect_locks cb" and ok: "world_ok w" and m: "callable (im_move a)"
    and eq: "location_eq (from_inv (im_move a)) (to_inv (im_move a))"
    and f: "find_list (from_inv (im_move a)) (from_list (im_move a)) w0 = Some f"
    and l: "list_at f w = Some l" "nat (from_i (im_move a)) < length (il_items l)"
  shows "sound b w (\<lambda>w. w) (move_report cb item sw a w) \<or>
    move_report cb item sw a w = Inl OutOfBounds \<and> \<not> on_move_keeps_sizes cb"
proof -
  let ?m = "im_move a"
  have m': "callable (swapDirections ?m)" using m by simp
  note on = callbacks_sound(4) [OF cb _ callableD(1)]
  obtain w1 where w1: "onMove cb ?m (uint (move_count a)) w = Inr w1" "within w w1"
    and w1': "w1 = cb_OnMove cb (loc_type (from_inv ?m)) ?m (uint (move_count a)) w"
    using on [OF ok m, of False "uint (move_count a)"] callableD(1) [OF m] by (simp add: onMove_def Let_def)
  note ok1 = within_ok [OF w1(2)]
  have opt: "sound b w1 (\<lambda>w. w) (case s of None \<Rightarrow> Inr w1 | Some s \<Rightarrow> onMove cb (swapDirections ?m) (uint (st_count s)) w1)" for s
    using on [OF ok1 m'] within_refl [OF ok1] by (simp split: option.split)
  from reread_cases [OF ok1, where d = sw and loc = "from_inv ?m" and n = "from_list ?m" and i = "from_i ?m"] show ?thesis
  proof (elim disjE exE conjE)
    fix s assume s: "reread sw (from_inv ?m) (from_list ?m) (from_i ?m) w1 = Inr s"
    have "sound b w1 (\<lambda>w. w) (rbind (case s of None \<Rightarrow> Inr w1 | Some s \<Rightarrow> onMove cb (swapDirections ?m) (uint (st_count s)) w1)
        (setInventoryModified (from_inv ?m)))"
      by (rule sound_rbind [OF opt]) (rule setInventoryModified_sound [OF within_ok])
    from sound_trans [OF w1(2) this] show ?thesis
      by (simp add: move_report_def Let_def eq w1(1) s del: ends_simps)
  next
    fix r l1
    assume bad: "reread sw (from_inv ?m) (from_list ?m) (from_i ?m) w1 = Inl OutOfBounds"
      and r: "find_list (from_inv ?m) (from_list ?m) w1 = Some r" "list_at r w1 = Some l1" "length (il_items l1) \<le> nat (from_i ?m)"
    have "list_at f w1 = Some l1"
      using find_list_fixed [OF f r(1)] r(2) by simp
    then have "\<not> on_move_keeps_sizes cb"
      using on_move_keepsD [OF _ l(1)] l(2) r(3) unfolding w1' by fastforce
    with bad show ?thesis
      by (simp add: move_report_def Let_def eq w1(1))
  qed
qed

lemma report_between_sound:
  assumes cb: "scripts_respect_locks cb" and ok: "world_ok w" and m: "callable (im_move a)"
    and ne: "\<not> location_eq (from_inv (im_move a)) (to_inv (im_move a))"
    and f: "find_list (from_inv (im_move a)) (from_list (im_move a)) w0 = Some f"
    and l: "list_at f w = Some l" "nat (from_i (im_move a)) < length (il_items l)"
  shows "sound b w (\<lambda>w. w) (move_report cb item sw a w)"
proof -
  let ?m = "im_move a"
  note cbs = callbacks_sound [OF cb] and c = callableD [OF m]
  have c': "callable (swapDirections ?m)" using m by simp
  note c' = callableD [OF c']
  obtain s where s: "reread sw (from_inv ?m) (from_list ?m) (from_i ?m) w = Inr s"
    using reread_cases [OF ok, where d = sw and loc = "from_inv ?m" and n = "from_list ?m" and i = "from_i ?m"] find_list_fixed [OF f] l by fastforce
  have choice: "sound b w1 (\<lambda>w. w) (if e then r else Inr w1)" if "within w0 w1" "sound b w1 (\<lambda>w. w) r" for w0 w1 e r
    using that within_self by (intro sound_choice within_ok [OF that(1)]) auto
  show ?thesis
    unfolding move_report_def Let_def if_not_P [OF ne] s rbind_simps
    by (rule sound_rbind [OF cbs(6) [OF ok c(1)]],
        rule sound_rbind [OF choice [OF _ cbs(6) [OF within_ok c'(1)]]], assumption, assumption,
        rule sound_rbind [OF choice [OF _ cbs(5) [OF within_ok c(2)]]], assumption, assumption,
        rule sound_rbind [OF choice [OF _ cbs(5) [OF within_ok c'(2)]]], assumption, assumption,
        rule sound_rbind [OF setInventoryModified_sound [OF within_ok]], assumption)
      (rule setInventoryModified_sound [OF within_ok])
qed

lemma borrow_cases:
  assumes "world_ok w"
  obtains (none) "find_list loc n w = None" "borrow loc n w = Inr (None, w)"
    | (list) r l w1 where "find_list loc n w = Some r" "list_at r w = Some l" "lock r w = Inr w1"
        "borrow loc n w = Inr (Some r, w1)" "world_ok w1"
        "\<And>s. list_at s w1 = (if s = r then Some (il_resizeLock l) else list_at s w)"
proof (cases "find_list loc n w")
  case None
  then show ?thesis by (intro none) (simp_all add: borrow_def)
next
  case (Some r)
  obtain l where l: "list_at r w = Some l"
    using find_list_at [OF Some] by blast
  show ?thesis
    by (rule lock_ok [OF assms l]) (rule list [OF Some l], auto simp: borrow_def Some)
qed

lemma borrow_ok:
  assumes "world_ok w"
  shows "\<exists>r w1. borrow loc n w = Inr (r, w1) \<and> world_ok w1"
proof (rule borrow_cases [OF assms])
  assume "borrow loc n w = Inr (None, w)"
  with assms show ?thesis by blast
next
  fix r w1
  assume "borrow loc n w = Inr (Some r, w1)" "world_ok w1"
  then show ?thesis by blast
qed

lemma borrow_some:
  assumes "world_ok w" and "borrow loc n w = Inr (Some r, w1)"
  obtains l where "list_at r w = Some l" and "\<And>s. list_at s w1 = (if s = r then Some (il_resizeLock l) else list_at s w)"
proof (rule borrow_cases [OF assms(1)])
  assume "borrow loc n w = Inr (None, w)"
  with assms(2) show thesis by simp
next
  fix r' l w1'
  assume l: "list_at r' w = Some l" and b: "borrow loc n w = Inr (Some r', w1')"
    and at: "\<And>s. list_at s w1' = (if s = r' then Some (il_resizeLock l) else list_at s w)"
  have "r' = r" "w1' = w1" using b assms(2) by simp_all
  with l at show thesis by (intro that [of l]) simp_all
qed

lemma borrow_held:
  assumes "world_ok w" and "borrow loc n w = Inr (Some r, w1)"
  shows "held r 0 w1" and "find_list loc n w = Some r"
    and "list_at s w1 = Some l' \<Longrightarrow> \<exists>l. list_at s w = Some l \<and> il_items l = il_items l'" and "held s k w \<Longrightarrow> held s k w1"
proof -
  obtain l where l: "list_at r w = Some l" "\<And>s. list_at s w1 = (if s = r then Some (il_resizeLock l) else list_at s w)"
    by (rule borrow_some [OF assms]) blast
  have "il_locks l \<ge> 0"
    using assms(1) l(1) unfolding world_ok_def by blast
  with l show "held r 0 w1" "list_at s w1 = Some l' \<Longrightarrow> \<exists>l. list_at s w = Some l \<and> il_items l = il_items l'"
    "held s k w \<Longrightarrow> held s k w1"
    by (auto simp: held_def split: if_splits)
  show "find_list loc n w = Some r"
    using assms(2) by (auto simp: borrow_def rbind_eq_Inr split: option.splits)
qed

lemma release_sound:
  assumes "world_ok w" and "borrow loc n w = Inr (r, w1)" and "within w1 w2"
  shows "\<exists>w3. release r w2 = Inr w3 \<and> within w w3"
  using assms(1)
proof (cases rule: borrow_cases [of w loc n])
  case none
  with assms show ?thesis by (simp add: release_def)
next
  case (list r' l w1')
  with assms(2) have "r = Some r'" "w1 = w1'" by simp_all
  moreover obtain w3 where "unlock r' w2 = Inr w3" "within w w3"
    using within_under_lock [OF assms(1) list(2,3)] assms(3) \<open>w1 = w1'\<close> by blast
  ultimately show ?thesis by (simp add: release_def)
qed

text \<open>The slot of the source is still there after the locks are given back.\<close>

lemma slot_after_release:
  assumes w23: "within w2 w3" and held: "held f 0 w2" "list_at f w2 = Some l2" and i: "i < length (il_items l2)"
    and rel: "release lt w3 = Inr w4" "release lf w4 = Inr w5"
  shows "\<exists>l. list_at f w5 = Some l \<and> i < length (il_items l)"
proof -
  obtain l3 where l3: "list_at f w3 = Some l3" "length (il_items l2) \<le> length (il_items l3)"
    by (rule withinD [OF w23 held(2)]) (use held in \<open>auto simp: held_def\<close>)
  have "world_wf w3"
    using within_ok [OF w23] by (simp add: world_ok_def)
  then have "items_at f w5 = items_at f w3"
    using release_items [OF _ rel(1), of f] release_items [OF _ rel(2), of f] by simp
  with l3 i show ?thesis
    by (auto simp: items_at_def)
qed

lemma move_one_sound:
  assumes cb: "scripts_respect_locks cb" and ok: "world_ok w" and keep: "\<not> b \<Longrightarrow> allow_keeps_items cb"
  shows "sound b w snd (move_one cb idm a w) \<or>
    move_one cb idm a w = Inl OutOfBounds \<and> location_eq (from_inv (im_move a)) (to_inv (im_move a)) \<and>
    \<not> on_move_keeps_sizes cb"
proof -
  let ?m = "im_move a"
  obtain lf w1 where b1: "borrow (from_inv ?m) (from_list ?m) w = Inr (lf, w1)" "world_ok w1"
    using borrow_ok [OF ok] by blast
  obtain lt w2 where b2: "borrow (to_inv ?m) (to_list ?m) w1 = Inr (lt, w2)" "world_ok w2"
    using borrow_ok [OF b1(2)] by blast
  have given_back: "\<exists>w4 w5. release lt w3 = Inr w4 \<and> release lf w4 = Inr w5 \<and> within w w5" if "within w2 w3" for w3
    using release_sound [OF b1(2) b2(1) that] release_sound [OF ok b1(1)] by blast
  show ?thesis
  proof (cases "lf = None \<or> lt = None")
    case True
    with given_back [OF within_refl [OF b2(2)]] b1(1) b2(1) show ?thesis
      by (auto simp: move_one_def split: option.split)
  next
    case False
    then obtain f t where r: "lf = Some f" "lt = Some t"
      by (cases lf; cases lt) (simp_all del: split_paired_All)
    note h1 = borrow_held [OF ok b1(1) [unfolded r]] and h2 = borrow_held [OF b1(2) b2(1) [unfolded r]]
    have held: "held f 0 w2" "held t 0 w2"
      using h1(1) h2(1,4) by blast+
    have m: "callable ?m"
      using find_list_callbacks [OF h1(2)] find_list_callbacks [OF h2(2)] by (simp add: callable_def)
    have locked: "sound b w2 (\<lambda>(_, _, w'). w') (move_locked cb idm f t a w2)"
      by (rule move_locked_sound [OF cb b2(2) m held keep])
    show ?thesis
    proof (cases "move_locked cb idm f t a w2")
      case (Inl e)
      with locked b1(1) b2(1) r show ?thesis by (simp add: move_one_def)
    next
      case (Inr x)
      obtain moved a1 w3 where x: "x = (moved, a1, w3)" by (cases x)
      have w3: "within w2 w3"
        using locked Inr x by simp
      obtain w4 w5 where rel: "release lt w3 = Inr w4" "release lf w4 = Inr w5" and w5: "within w w5"
        using given_back [OF w3] by blast
      have one: "move_one cb idm a w = (case moved of None \<Rightarrow> Inr (a1, w5)
          | Some (src_item, did_swap) \<Rightarrow> rbind (move_report cb src_item did_swap a1 w5) (\<lambda>w6. Inr (a1, w6)))"
        using b1(1) b2(1) r Inr x rel by (simp add: move_one_def release_def)
      show ?thesis
      proof (cases moved)
        case None
        with one w5 show ?thesis by simp
      next
        case (Some y)
        obtain it sw where y: "y = (it, sw)" by (cases y)
        obtain l2 where l2: "list_at f w2 = Some l2"
          using held(1) by (auto simp: held_def)
        note i = move_locked_moved [OF b2(2) held l2 Inr [unfolded x Some]]
        obtain l where l: "list_at f w5 = Some l" "nat (from_i ?m) < length (il_items l)"
          using slot_after_release [OF w3 held(1) l2 i(1) rel] by blast
        have "sound b w5 (\<lambda>w. w) (move_report cb it sw a1 w5) \<or>
            move_report cb it sw a1 w5 = Inl OutOfBounds \<and> location_eq (from_inv ?m) (to_inv ?m) \<and> \<not> on_move_keeps_sizes cb"
          using report_within_sound [OF cb within_ok [OF w5], of a1 w f l b it sw]
            report_between_sound [OF cb within_ok [OF w5], of a1 w f l b it sw] m h1(2) l i(2) by auto
        then show ?thesis
        proof
          assume "sound b w5 (\<lambda>w. w) (move_report cb it sw a1 w5)"
          from sound_trans [OF w5 this] show ?thesis
            by (cases "move_report cb it sw a1 w5") (simp_all add: one Some y)
        qed (simp add: one Some y)
      qed
    qed
  qed
qed

subsection \<open>Properties\<close>

text \<open>
  The world of the witnesses: a player with stones and a chest with dirt; the player moves five
  stones onto the dirt. The first scripts forbid nothing and change nothing.
\<close>

definition example_world :: world where
  "example_world =
     \<lparr>w_env = True,
      w_invs =
        [(KPlayer ''celeron'', inv_new\<lparr>inv_lists := [example_list [stone 7, empty_stack]]\<rparr>),
         (KDetached ''chest'', inv_new\<lparr>inv_lists := [example_list [stone 95, dirt 3]]\<rparr>)],
      w_active = [''celeron''], w_peers = [], w_owners = [], w_rollback = True, w_log = [], w_script = 0\<rparr>"

definition idle_scripts :: callbacks where
  "idle_scripts =
     \<lparr>cb_AllowMove = (\<lambda>_ _ _ w. (65535, w)),
      cb_AllowPut = (\<lambda>_ _ s w. (uint (st_count s), w)),
      cb_AllowTake = (\<lambda>_ _ s w. (uint (st_count s), w)),
      cb_OnMove = (\<lambda>_ _ _ w. w), cb_OnPut = (\<lambda>_ _ _ w. w), cb_OnTake = (\<lambda>_ _ _ w. w),
      cb_OnDrop = (\<lambda>_ w. (0, w))\<rparr>"

definition example_move :: imove_action where
  "example_move =
     \<lparr>im_move = \<lparr>from_inv = setPlayer ''celeron'' location_new, from_list = ''main'', from_i = 0,
                 to_inv = setDetached ''chest'' location_new, to_list = ''main'', to_i = 1\<rparr>,
      im_count = 5, move_somewhere = False, caused_by_move_somewhere = False, move_count = 0\<rparr>"

lemma example_world_ok: "world_ok example_world"
  by (auto simp: world_ok_def world_wf_def example_world_def inv_wf_def inv_new_def il_wf_def example_list_def
      list_at_def inv_getList_def inv_getListIndex_def split: if_splits)

lemma idle_scripts_respect_locks: "scripts_respect_locks idle_scripts"
  by (simp add: scripts_respect_locks_def idle_scripts_def within_refl)

lemma idle_scripts_keep: "allow_keeps_items idle_scripts \<and> on_move_keeps_sizes idle_scripts"
  by (simp add: allow_keeps_items_def on_move_keeps_sizes_def idle_scripts_def)



end
