(* ===== verification/MoveConservation.thy ===== *)
theory MoveConservation
  imports MoveLocks
begin

section \<open>What a move keeps\<close>

text \<open>
  Moves with scripts that answer and watch but leave the inventories alone: the number of items
  of every kind in the world stays the same, and a forbidden move changes nothing.
\<close>

subsection \<open>Worlds with the same items\<close>

definition untouched :: "world \<Rightarrow> world \<Rightarrow> bool" where
  "untouched w w' \<longleftrightarrow> w_invs w' = w_invs w \<and> w_env w' = w_env w \<and> w_active w' = w_active w"

text \<open>
  The answer \<open>-1\<close> stands for an infinite stack, which may make or swallow items.
\<close>

definition scripts_only_answer :: "callbacks \<Rightarrow> bool" where
  "scripts_only_answer cb \<longleftrightarrow>
     (\<forall>t m w.
       (\<forall>n. fst (cb_AllowMove cb t m n w) \<noteq> -1 \<and> untouched w (snd (cb_AllowMove cb t m n w)) \<and>
            untouched w (cb_OnMove cb t m n w)) \<and>
       (\<forall>s. fst (cb_AllowPut cb t m s w) \<noteq> -1 \<and> untouched w (snd (cb_AllowPut cb t m s w)) \<and>
            fst (cb_AllowTake cb t m s w) \<noteq> -1 \<and> untouched w (snd (cb_AllowTake cb t m s w)) \<and>
            untouched w (cb_OnPut cb t m s w) \<and> untouched w (cb_OnTake cb t m s w)))"

definition kept :: "world \<Rightarrow> world \<Rightarrow> bool" where
  "kept w w' \<longleftrightarrow> world_ok w' \<and> w_active w' = w_active w \<and> map fst (w_invs w') = map fst (w_invs w) \<and>
     (\<forall>P. world_total P w' = world_total P w) \<and> (\<forall>r. rel_option same_shape (list_at r w) (list_at r w'))"

lemma kept_refl: "world_ok w \<Longrightarrow> kept w w"
  by (simp add: kept_def option.rel_refl)

lemma kept_fields:
  assumes "kept w w'"
  shows "world_ok w'" "w_active w' = w_active w" "map fst (w_invs w') = map fst (w_invs w)"
    "world_total P w' = world_total P w"
  using assms unfolding kept_def by blast+

lemmas kept_ok = kept_fields(1)

lemma kept_at: "kept w w' \<Longrightarrow> rel_option same_shape (list_at r w) (list_at r w')"
  unfolding kept_def by (elim conjE) (erule allE)

lemma kept_trans:
  assumes "kept w w1" and "kept w1 w2"
  shows "kept w w2"
proof -
  have "rel_option same_shape (list_at r w) (list_at r w2)" for r
    using kept_at [OF assms(1), of r] kept_at [OF assms(2), of r]
    by (cases "list_at r w"; cases "list_at r w1"; cases "list_at r w2") (auto intro: same_shape_trans)
  with assms show ?thesis
    by (simp add: kept_def)
qed

text \<open>Steps that always give a value and keep the items of the world.\<close>

interpretation conserving: steps "\<lambda>_. False" kept
  by unfold_locales (rule kept_trans)

abbreviation conserves :: "world \<Rightarrow> ('a \<Rightarrow> world) \<Rightarrow> 'a res \<Rightarrow> bool" where
  "conserves w \<equiv> ends (\<lambda>_. False) (kept w)"

lemma list_at_kept:
  assumes "kept w w'" and "list_at r w = Some l"
  obtains l' where "list_at r w' = Some l'" and "same_shape l l'"
  using kept_at [OF assms(1), of r] assms(2) by (auto simp: option_rel_Some1)

lemma list_at_kept_None: "kept w w' \<Longrightarrow> list_at r w' = None \<longleftrightarrow> list_at r w = None"
  using kept_at [of w w' r] by (cases "list_at r w"; cases "list_at r w'") simp_all

lemma getInventory_kept:
  assumes "kept w w'" and "world_ok w"
  shows "getInventory loc w' = getInventory loc w"
proof -
  have "map_of (w_invs w') k = None \<longleftrightarrow> map_of (w_invs w) k = None" for k
    using arg_cong [OF kept_fields(3) [OF assms(1)], of set] by (simp add: map_of_eq_None_iff)
  moreover have "w_env w = w_env w'"
    using assms(2) kept_ok [OF assms(1)] by (simp add: world_ok_def)
  ultimately show ?thesis
    using kept_fields(2) [OF assms(1)] by (simp add: getInventory_def split: location_type.split)
qed

lemma find_list_kept:
  "kept w w' \<Longrightarrow> world_ok w \<Longrightarrow> find_list loc n w' = find_list loc n w"
  by (cases "getInventory loc w") (simp_all add: find_list_def getInventory_kept list_at_kept_None)

lemma untouched_list_at: "untouched w w' \<Longrightarrow> list_at r w' = list_at r w"
  by (simp add: untouched_def list_at_def)

lemma untouched_kept:
  assumes "untouched w w'" and "world_ok w"
  shows "kept w w'"
proof -
  have "world_ok w'"
    using assms by (simp add: untouched_def world_ok_def world_wf_def list_at_def del: split_paired_All)
  moreover have "world_total P w' = world_total P w" for P
    using assms(1) by (simp add: untouched_def world_total_def)
  ultimately show ?thesis
    unfolding kept_def using assms(1) untouched_list_at [OF assms(1)]
    by (simp add: untouched_def option.rel_refl del: split_paired_All)
qed

lemma put_list_keys: "map fst (w_invs (put_list r l w)) = map fst (w_invs w)"
  using map_of_eq_None_iff [of "w_invs w" "fst r"]
  by (auto simp: put_list_def update_keys split: option.split)

lemma put_list_kept:
  assumes "world_ok w" and "list_at r w = Some l" and "same_shape l l'" and "\<And>P. il_total P l' = il_total P l"
  shows "kept w (put_list r l' w)"
proof -
  have l: "il_wf l" "il_locks l \<ge> 0"
    using assms(1) list_at_wf [OF _ assms(2)] assms(2) unfolding world_ok_def by blast+
  have l': "il_name l' = il_name l" "il_wf l'" "il_locks l' \<ge> 0"
    using l assms(3) same_shape_wf [OF assms(3)] by (simp_all add: same_shape_def)
  note ok = world_ok_put [OF assms(1,2) l']
  have "world_total P (put_list r l' w) = world_total P w" for P
    using world_total_put [OF assms(2), of P l'] assms(4) [of P] by simp
  then show ?thesis
    using ok assms(2,3) unfolding kept_def by (simp add: put_list_keys option.rel_refl del: split_paired_All)
qed

text \<open>A lock that is taken and released again does not show.\<close>

lemma kept_under_lock:
  assumes ok: "world_ok w" and r: "list_at r w = Some l" and lk: "lock r w = Inr w1" and w2: "kept w1 w2"
  obtains w3 where "unlock r w2 = Inr w3" and "kept w w3"
proof -
  obtain w1' where w1': "lock r w = Inr w1'"
    "\<And>s. list_at s w1' = (if s = r then Some (il_resizeLock l) else list_at s w)"
    "w1' = put_list r (il_resizeLock l) w"
    by (rule lock_ok [OF ok r]) blast
  then have w1: "w1 = put_list r (il_resizeLock l) w"
    and at1: "\<And>s. list_at s w1 = (if s = r then Some (il_resizeLock l) else list_at s w)"
    using lk by simp_all
  obtain l2 where l2: "list_at r w2 = Some l2" "same_shape (il_resizeLock l) l2"
    by (rule list_at_kept [OF w2, of r "il_resizeLock l"]) (use at1 in auto)
  have pos: "il_locks l \<ge> 0"
    using ok r unfolding world_ok_def by blast
  obtain w3 where w3: "unlock r w2 = Inr w3" "world_ok w3"
    "\<And>s. list_at s w3 = (if s = r then Some (il_resizeUnlock l2) else list_at s w2)"
    "w3 = put_list r (il_resizeUnlock l2) w2"
    by (rule unlock_ok [OF kept_ok [OF w2] l2(1)]) (use l2(2) pos in \<open>auto simp: same_shape_def\<close>)
  have same: "il_total P (il_resizeLock k) = il_total P k" "il_total P (il_resizeUnlock k) = il_total P k" for P k
    by (simp_all add: il_total_def)
  have "world_total P w3 = world_total P w" for P
    using world_total_put [OF r, of P "il_resizeLock l"] world_total_put [OF l2(1), of P "il_resizeUnlock l2"]
      kept_fields(4) [OF w2, of P] by (simp add: same w1 w3(4))
  moreover have "rel_option same_shape (list_at s w) (list_at s w3)" for s
    using kept_at [OF w2, of s] r l2(2)
    by (cases "s = r") (simp_all add: at1 w3(3) same_shape_def il_resizeLock_def il_resizeUnlock_def)
  ultimately have "kept w w3"
    using w3(2) kept_fields(2,3) [OF w2] unfolding kept_def
    by (simp add: w1 w3(4) put_list_keys del: split_paired_All)
  with w3(1) show thesis by (rule that)
qed

subsection \<open>The phases of a move\<close>

lemma untouched_trans: "untouched w w1 \<Longrightarrow> untouched w1 w2 \<Longrightarrow> untouched w w2"
  by (simp add: untouched_def)

lemma getItem_at_untouched: "untouched w w' \<Longrightarrow> getItem_at r i w' = getItem_at r i w"
  by (simp add: getItem_at_def deref_def untouched_list_at)

lemma callbacks_answer:
  assumes "scripts_only_answer cb"
  shows "has_callbacks (loc_type (from_inv m)) \<Longrightarrow> \<exists>n w'. allowMove cb m k w = Inr (n, w') \<and> n \<noteq> -1 \<and> untouched w w'"
    "has_callbacks (loc_type (to_inv m)) \<Longrightarrow> \<exists>n w'. allowPut cb m s w = Inr (n, w') \<and> n \<noteq> -1 \<and> untouched w w'"
    "has_callbacks (loc_type (from_inv m)) \<Longrightarrow> \<exists>n w'. allowTake cb m s w = Inr (n, w') \<and> n \<noteq> -1 \<and> untouched w w'"
    "has_callbacks (loc_type (from_inv m)) \<Longrightarrow> \<exists>w'. onMove cb m k w = Inr w' \<and> untouched w w'"
    "has_callbacks (loc_type (to_inv m)) \<Longrightarrow> \<exists>w'. onPut cb m s w = Inr w' \<and> untouched w w'"
    "has_callbacks (loc_type (from_inv m)) \<Longrightarrow> \<exists>w'. onTake cb m s w = Inr w' \<and> untouched w w'"
  using assms by (simp_all add: scripts_only_answer_def allowMove_def allowPut_def allowTake_def
      onMove_def onPut_def onTake_def Let_def prod_eq_iff)

text \<open>
  The answers: not infinite, a swap is allowed only if one was expected, nothing may be moved if
  an expected swap is not allowed, and something if it is.
\<close>

lemma move_allow_answer:
  assumes cb: "scripts_only_answer cb" and loc: "has_callbacks (loc_type (from_inv (im_move a)))" "has_callbacks (loc_type (to_inv (im_move a)))"
    and t: "getItem_at t (to_i (im_move a)) w = Inr d" and item: "sw \<Longrightarrow> \<not> ItemStack_empty item \<and> \<not> ItemStack_empty d"
  shows "\<exists>can_take can_put allowed w1. move_allow cb t item sw a w = Inr (can_take, can_put, allowed, w1) \<and> untouched w w1 \<and>
    can_take \<noteq> -1 \<and> can_put \<noteq> -1 \<and> (allowed \<longrightarrow> sw \<and> can_take > 0 \<and> can_put > 0) \<and> (sw \<and> \<not> allowed \<longrightarrow> can_take = 0 \<and> can_put = 0)"
proof -
  let ?m = "im_move a"
  have locs: "has_callbacks (loc_type (from_inv (swapDirections ?m)))" "has_callbacks (loc_type (to_inv (swapDirections ?m)))"
    using loc by (simp_all add: swapDirections_def)
  have pos: "n > 0" if "uint (st_count s) \<le> n" "\<not> ItemStack_empty s" for n s
  proof -
    have "uint (st_count s) \<noteq> 0" using that(2) by (simp add: ItemStack_empty_def uint_0_iff)
    with that(1) uint_ge_0 [of "st_count s"] show ?thesis by linarith
  qed
  show ?thesis
  proof (cases "location_eq (from_inv ?m) (to_inv ?m)")
    case True
    obtain n1 w1 where 1: "allowMove cb ?m (uint (st_count item)) w = Inr (n1, w1)" "n1 \<noteq> -1" "untouched w w1"
      using callbacks_answer(1) [OF cb loc(1)] by blast
    obtain n2 w2 where 2: "allowMove cb (swapDirections ?m) (uint (st_count d)) w1 = Inr (n2, w2)" "n2 \<noteq> -1" "untouched w1 w2"
      using callbacks_answer(1) [OF cb locs(1)] by blast
    have "getItem_at t (to_i ?m) w1 = Inr d"
      using t getItem_at_untouched [OF 1(3)] by simp
    with 1 2 True item pos untouched_trans [OF 1(3) 2(3)] show ?thesis
      by (auto simp: move_allow_def swap_within_def unless_refused_def Let_def)
  next
    case False
    obtain n1 w1 where 1: "allowPut cb ?m item w = Inr (n1, w1)" "n1 \<noteq> -1" "untouched w w1"
      using callbacks_answer(2) [OF cb loc(2)] by blast
    obtain n2 w2 where 2: "allowTake cb ?m item w1 = Inr (n2, w2)" "n2 \<noteq> -1" "untouched w1 w2"
      using callbacks_answer(3) [OF cb loc(1)] by blast
    obtain n3 w3 where 3: "allowPut cb (swapDirections ?m) d w2 = Inr (n3, w3)" "untouched w2 w3"
      using callbacks_answer(2) [OF cb locs(2)] by blast
    obtain n4 w4 where 4: "allowTake cb (swapDirections ?m) d w3 = Inr (n4, w4)" "untouched w3 w4"
      using callbacks_answer(3) [OF cb locs(1)] by blast
    note u2 = untouched_trans [OF 1(3) 2(3)] and u4 = untouched_trans [OF 3(2) 4(2)]
    have "getItem_at t (to_i ?m) w2 = Inr d"
      using t getItem_at_untouched [OF u2] by simp
    with 1 2 3 4 False item pos u2 untouched_trans [OF u2 u4] show ?thesis
      by (auto simp: move_allow_def swap_between_def unless_refused_def Let_def)
  qed
qed

lemma limit_by_pos:
  assumes "can > 0" and "n \<noteq> 0" and "uint n < 65536"
  shows "limit_by can n \<noteq> 0" and "uint (limit_by can n) < 65536"
proof -
  have "uint n \<noteq> 0" using assms(2) by (simp add: uint_0_iff)
  then have n: "0 < uint n" using uint_ge_0 [of n] by linarith
  have s: "to_s32 (uint n) = uint n"
    using assms(3) n by (intro to_s32_id) linarith+
  have "uint (word_of_int (min can (uint n)) :: u32) = min can (uint n)"
    using assms n by (simp add: uint_word_of_int)
  with s n assms show "limit_by can n \<noteq> 0" "uint (limit_by can n) < 65536"
    by (auto simp: limit_by_def simp flip: uint_0_iff)
qed

lemma put_two_kept:
  assumes ok: "world_ok w" and f: "list_at f w = Some lf" and t: "list_at t w = Some lt"
    and h: "store_shape (world_store w) h" and total: "\<And>P. store_total P {f, t} h = store_total P {f, t} (world_store w)"
  shows "kept w (put_list t (h t) (put_list f (h f) w))"
proof -
  let ?w1 = "put_list f (h f) w"
  let ?w2 = "put_list t (h t) ?w1"
  have names: "il_name (h f) = snd f" "il_name (h t) = snd t"
    using same_shape_name [OF store_shape_at [OF h f]] same_shape_name [OF store_shape_at [OF h t]]
      list_at_wf [OF _ f] list_at_wf [OF _ t] ok by (simp_all add: world_ok_def)
  have at1: "list_at s ?w1 = (if s = f then Some (h f) else list_at s w)" for s
    by (rule list_at_put [OF f names(1)])
  then have t1: "list_at t ?w1 = Some (if t = f then h f else lt)"
    using t by simp
  have at2: "list_at s ?w2 = (if s = t then Some (h t) else list_at s ?w1)" for s
    by (rule list_at_put [OF t1 names(2)])
  have "rel_option same_shape (list_at s w) (list_at s ?w2)" for s
    using store_shape_at [OF h f] store_shape_at [OF h t] f t by (simp add: at2 at1 option.rel_refl)
  moreover have "world_total P ?w2 = world_total P w" for P
    using world_total_put [OF f, of P "h f"] world_total_put [OF t1, of P "h t"] total [of P] f t
    by (cases "f = t") (simp_all add: store_total_def world_store_def)
  ultimately show ?thesis
    using within_ok [OF put_two_within [OF ok f t h]] unfolding kept_def
    by (simp add: put_list_keys del: split_paired_All)
qed

lemma move_now_kept:
  assumes ok: "world_ok w" and l: "list_at f w = Some lf" "list_at t w = Some lt"
    and i: "nat (from_i (im_move a)) < length (il_items lf)" "nat (to_i (im_move a)) < length (il_items lt)"
    and ne: "f \<noteq> t \<or> nat (from_i (im_move a)) \<noteq> nat (to_i (im_move a))" and can: "can_take \<noteq> -1" "can_put \<noteq> -1"
    and swap: "allowed \<Longrightarrow> move_count a \<noteq> 0 \<and> \<not> ItemStack_empty (il_items lf ! nat (from_i (im_move a))) \<and>
      refuses idm (il_items lf ! nat (from_i (im_move a))) (il_items lt ! nat (to_i (im_move a)))"
  shows "conserves w (\<lambda>(_, _, w'). w') (move_now idm f t can_take can_put allowed a w)"
proof -
  let ?i = "nat (from_i (im_move a))" and ?j = "nat (to_i (im_move a))" and ?h = "world_store w"
  have wf: "il_wf lf" "il_wf lt"
    using ok list_at_wf [OF _ l(1)] list_at_wf [OF _ l(2)] by (simp_all add: world_ok_def)
  have st: "?h f = lf" "?h t = lt"
    using l by (simp_all add: world_store_def)
  have "il_wf (?h f)" using wf(1) st by simp
  then obtain moved did_swap h where mv: "il_moveItem idm f ?i t ?j (move_count a) allowed ?h = Inr (moved, did_swap, h)"
    and total: "\<And>P. store_total P {f, t} h = store_total P {f, t} ?h" and h: "store_shape ?h h"
    by (rule il_moveItem_ok [of ?h f idm ?i t ?j "move_count a" allowed]) blast
  have same: "did_swap = allowed"
    using moveItem_no_swap [of idm f ?i t ?j "move_count a" ?h moved did_swap h]
      moveItem_swap [of f t ?i ?j ?h idm "move_count a" moved did_swap h] mv ne i swap st by (cases allowed) auto
  let ?w1 = "put_list t (h t) (put_list f (h f) w)"
  have w1: "kept w ?w1"
    by (rule put_two_kept [OF ok l h total])
  have rec: "kept w (record_rollback m c d s ?w1)" for m c d s
    by (rule kept_trans [OF w1 untouched_kept [OF _ kept_ok [OF w1]]])
      (simp add: untouched_def record_rollback_def notify_def Let_def)
  show ?thesis
    using l i wf w1 rec can
    by (simp add: move_now_def getItem_at_def deref_def il_getItem_ok mv same after_move_def
        restore_source_def restore_dest_def Let_def)
qed

lemma setModified_kept:
  assumes "world_ok w" and "list_at r w = Some l"
  shows "conserves w (\<lambda>w. w) (setModified_if b r w)"
  using kept_refl [OF assms(1)] put_list_kept [OF assms, of "l\<lparr>il_dirty := True\<rparr>"] assms(2) dirty_shape
  by (simp add: setModified_if_def modify_list_def deref_def)

lemma move_perform_kept:
  assumes ok: "world_ok w" and l: "list_at f w = Some lf" "list_at t w = Some lt"
    and i: "nat (from_i (im_move a)) < length (il_items lf)" "nat (to_i (im_move a)) < length (il_items lt)"
    and ne: "f \<noteq> t \<or> nat (from_i (im_move a)) \<noteq> nat (to_i (im_move a))" and can: "can_take \<noteq> -1" "can_put \<noteq> -1"
    and swap: "allowed \<Longrightarrow> can_take > 0 \<and> can_put > 0 \<and> \<not> ItemStack_empty (il_items lf ! nat (from_i (im_move a))) \<and>
      move_count a = ucast (st_count (il_items lf ! nat (from_i (im_move a)))) \<and>
      refuses idm (il_items lf ! nat (from_i (im_move a))) (il_items lt ! nat (to_i (im_move a)))"
  shows "conserves w (\<lambda>(_, _, w'). w') (move_perform idm f t can_take can_put allowed a w)"
proof -
  let ?cur = "il_items lf ! nat (from_i (im_move a))"
  let ?n = "move_limit can_take can_put ?cur (move_count a)"
  have "il_wf lf"
    using ok list_at_wf [OF _ l(1)] by (simp add: world_ok_def)
  then have cur: "getItem_at f (from_i (im_move a)) w = Inr ?cur"
    using l(1) i(1) by (simp add: getItem_at_def deref_def il_getItem_ok)
  have none: "conserves w (\<lambda>(_, _, w'). w') (rbind (setModified_if b f w) (\<lambda>w1. rbind (setModified_if e t w1) (\<lambda>w2. Inr (None :: (item_stack \<times> bool) option, a1, w2))))"
    for b e and a1 :: imove_action
  proof (rule conserving.ends_rbind [OF setModified_kept [OF ok l(1)]])
    fix w1 assume w1: "kept w w1"
    obtain l1 where "list_at t w1 = Some l1"
      using list_at_kept [OF w1 l(2)] by blast
    then show "conserves w1 (\<lambda>(_, _, w'). w')
        (rbind (setModified_if e t w1) (\<lambda>w2. Inr (None :: (item_stack \<times> bool) option, a1, w2)))"
      by (rule conserving.ends_rbind [OF setModified_kept [OF kept_ok [OF w1]]]) (simp add: kept_refl kept_ok)
  qed
  have now: "conserves w (\<lambda>(_, _, w'). w') (move_now idm f t can_take can_put allowed (a\<lparr>move_count := ?n\<rparr>) w)" if "?n \<noteq> 0"
    using assms that by (intro move_now_kept [OF ok l]) auto
  show ?thesis
    unfolding move_perform_def Let_def cur rbind_simps by (simp add: none now del: ends_simps)
qed

lemma move_locked_kept:
  assumes cb: "scripts_only_answer cb" and ok: "world_ok w" and held: "held f 0 w" "held t 0 w"
    and loc: "has_callbacks (loc_type (from_inv (im_move a)))" "has_callbacks (loc_type (to_inv (im_move a)))"
  shows "conserves w (\<lambda>(_, _, w'). w') (move_locked cb idm f t a w)"
proof -
  obtain lf lt where l: "list_at f w = Some lf" "list_at t w = Some lt"
    using held by (auto simp: held_def)
  obtain a1 p where p: "move_prepare idm f t a w = Inr (a1, p)"
    using move_prepare_ok [OF ok held, of idm a] by blast
  show ?thesis
  proof (cases p)
    case None
    with p kept_refl [OF ok] show ?thesis by (simp add: move_locked_def)
  next
    case (Some x)
    obtain item sw where x: "x = (item, sw)" by (cases x)
    have p': "move_prepare idm f t a w = Inr (a1, Some (item, sw))"
      using p Some x by simp
    note m = move_prepare_swap [OF ok p' l]
    let ?i = "nat (from_i (im_move a))" and ?j = "nat (to_i (im_move a))"
    have ne: "f \<noteq> t \<or> ?i \<noteq> ?j"
      using m(1,3,5) by auto
    have "il_wf lt"
      using ok list_at_wf [OF _ l(2)] by (simp add: world_ok_def)
    then have d: "getItem_at t (to_i (im_move a1)) w = Inr (il_items lt ! ?j)"
      using l(2) m(2,6) by (simp add: getItem_at_def deref_def il_getItem_ok)
    have swap: "sw \<Longrightarrow> \<not> ItemStack_empty item \<and> \<not> ItemStack_empty (il_items lt ! ?j)"
      using m(7) by (auto simp: refuses_def)
    obtain can_take can_put allowed w1
      where al: "move_allow cb t item sw a1 w = Inr (can_take, can_put, allowed, w1)" "untouched w w1"
        "can_take \<noteq> -1" "can_put \<noteq> -1" "allowed \<longrightarrow> sw \<and> can_take > 0 \<and> can_put > 0"
      using move_allow_answer [OF cb _ _ d, where item = item and sw = sw] loc m(2) swap by fastforce
    have "conserves w1 (\<lambda>(_, _, w'). w') (move_perform idm f t can_take can_put allowed a1 w1)"
      using l m ne al(3,4,5) untouched_list_at [OF al(2)]
      by (intro move_perform_kept [OF kept_ok [OF untouched_kept [OF al(2) ok]], of f lf t lt]) auto
    then show ?thesis
      using conserving.ends_trans [OF untouched_kept [OF al(2) ok]] p' al(1) by (simp add: move_locked_def del: ends_simps)
  qed
qed

subsection \<open>The callbacks after the move\<close>

definition slot_in_range :: "location \<Rightarrow> string \<Rightarrow> int \<Rightarrow> world \<Rightarrow> bool" where
  "slot_in_range loc n i w \<longleftrightarrow>
     (\<forall>r l. find_list loc n w = Some r \<longrightarrow> list_at r w = Some l \<longrightarrow> nat i < length (il_items l))"

lemma slot_in_range_kept:
  assumes "slot_in_range loc n i w" and "kept w w'" and "world_ok w"
  shows "slot_in_range loc n i w'"
  unfolding slot_in_range_def
proof (intro allI impI)
  fix r l' assume r: "find_list loc n w' = Some r" and l': "list_at r w' = Some l'"
  then have r0: "find_list loc n w = Some r"
    using find_list_kept [OF assms(2,3)] by simp
  then obtain l where l: "list_at r w = Some l"
    using find_list_at [OF r0] by blast
  obtain l'' where "list_at r w' = Some l''" "same_shape l l''"
    by (rule list_at_kept [OF assms(2) l])
  moreover have "nat i < length (il_items l)"
    using assms(1) r0 l unfolding slot_in_range_def by blast
  ultimately show "nat i < length (il_items l')"
    using l' by (simp add: same_shape_def)
qed

lemma swapped_kept:
  assumes ok: "world_ok w" and "slot_in_range loc n i w"
  shows "conserves w (\<lambda>_. w) (case (if b then find_list loc n w else None) of
      None \<Rightarrow> Inr None | Some r \<Rightarrow> rbind (getItem_at r i w) (\<lambda>s. Inr (Some s)))"
proof (cases "if b then find_list loc n w else None")
  case (Some r)
  then have r: "find_list loc n w = Some r" by (simp split: if_splits)
  then obtain l where l: "list_at r w = Some l"
    using find_list_at [OF r] by blast
  have "nat i < length (il_items l)" "il_wf l"
    using assms(2) r l list_at_wf [OF _ l] ok unfolding slot_in_range_def world_ok_def by blast+
  then have "getItem_at r i w = Inr (il_items l ! nat i)"
    using l by (simp add: getItem_at_def deref_def il_getItem_ok)
  with Some kept_refl [OF ok] show ?thesis by simp
qed (use kept_refl [OF ok] in simp)

lemma setInventoryModified_kept:
  assumes "world_ok w"
  shows "conserves w (\<lambda>w. w) (setInventoryModified loc w)"
proof -
  have log: "kept w' (notify n w')" if "world_ok w'" for n w'
    using that by (intro untouched_kept) (simp_all add: untouched_def notify_def)
  have upd: "kept w (notify n (w\<lparr>w_invs := AList.update k (inv_setModified True iv) (w_invs w)\<rparr>))" (is "kept w ?w'")
    if iv: "map_of (w_invs w) k = Some iv" for k iv n
  proof -
    have "list_at r ?w' = list_at r w" for r
      using iv by (simp add: list_at_def notify_def map_of_update inv_setModified_def inv_getList_def inv_getListIndex_def)
    moreover have "inv_wf (inv_setModified True iv)"
      using world_wf_inv [OF _ iv] assms by (simp add: world_ok_def inv_wf_def inv_setModified_def)
    then have "world_wf ?w'"
      using assms by (auto simp: world_ok_def world_wf_map notify_def map_of_update distinct_update)
    moreover have "world_total P ?w' = world_total P w" for P
      using sum_list_alist_update [OF iv, of "inv_total P" "inv_setModified True iv"]
      by (simp add: world_total_def notify_def inv_total_def inv_setModified_def)
    moreover have "map fst (w_invs ?w') = map fst (w_invs w)"
      using map_of_eq_None_iff [of "w_invs w" k] iv by (simp add: notify_def update_keys)
    ultimately show ?thesis
      using assms unfolding kept_def world_ok_def
      by (simp add: option.rel_refl notify_def del: split_paired_All)
  qed
  show ?thesis
    using assms kept_refl [OF assms] log [OF assms] upd
    by (auto simp: setInventoryModified_def world_ok_def simp del: split_paired_All split: location_type.split option.split)
qed

lemma callbacks_kept:
  assumes "scripts_only_answer cb" and "world_ok w"
  shows "has_callbacks (loc_type (from_inv m)) \<Longrightarrow> conserves w (\<lambda>w. w) (onMove cb m k w)"
    "has_callbacks (loc_type (to_inv m)) \<Longrightarrow> conserves w (\<lambda>w. w) (onPut cb m s w)"
    "has_callbacks (loc_type (from_inv m)) \<Longrightarrow> conserves w (\<lambda>w. w) (onTake cb m s w)"
  using assms by (simp_all add: scripts_only_answer_def onMove_def onPut_def onTake_def Let_def untouched_kept)

lemma move_report_kept:
  assumes cb: "scripts_only_answer cb" and ok: "world_ok w"
    and range: "slot_in_range (from_inv (im_move a)) (from_list (im_move a)) (from_i (im_move a)) w"
    and loc: "has_callbacks (loc_type (from_inv (im_move a)))" "has_callbacks (loc_type (to_inv (im_move a)))"
  shows "conserves w (\<lambda>w. w) (move_report cb item sw a w)"
proof -
  let ?m = "im_move a"
  have locs: "has_callbacks (loc_type (from_inv (swapDirections ?m)))" "has_callbacks (loc_type (to_inv (swapDirections ?m)))"
    using loc by (simp_all add: swapDirections_def)
  note calls = callbacks_kept [OF cb]
  note seq = conserving.ends_rbind
  have choice: "conserves w1 (\<lambda>w. w) (if b then r else Inr w1)" if "kept w0 w1" "conserves w1 (\<lambda>w. w) r" for w0 w1 b r
    using that kept_refl [OF kept_ok] by (intro conserving.ends_choice) auto
  show ?thesis
  proof (cases "location_eq (from_inv ?m) (to_inv ?m)")
    case True
    have opt: "conserves w1 (\<lambda>w. w) (case s of None \<Rightarrow> Inr w1 | Some s \<Rightarrow> onMove cb (swapDirections ?m) (uint (st_count s)) w1)"
      if "world_ok w1" for s w1
      using calls(1) [OF that locs(1)] kept_refl [OF that] by (simp split: option.split)
    show ?thesis
      unfolding move_report_def Let_def if_P [OF True]
      by (rule seq [OF calls(1) [OF ok loc(1)]],
          rule seq [OF swapped_kept [OF kept_ok slot_in_range_kept [OF range _ ok]]], assumption, assumption,
          rule seq [OF opt [OF kept_ok]], assumption) (rule setInventoryModified_kept [OF kept_ok])
  next
    case False
    show ?thesis
      unfolding move_report_def Let_def if_not_P [OF False]
      by (rule seq [OF swapped_kept [OF ok range]], rule seq [OF calls(3) [OF ok loc(1)]],
          rule seq [OF choice [OF _ calls(3) [OF kept_ok locs(1)]]], assumption, assumption,
          rule seq [OF choice [OF _ calls(2) [OF kept_ok loc(2)]]], assumption, assumption,
          rule seq [OF choice [OF _ calls(2) [OF kept_ok locs(2)]]], assumption, assumption,
          rule seq [OF setInventoryModified_kept [OF kept_ok]], assumption) (rule setInventoryModified_kept [OF kept_ok])
  qed
qed

lemma release_kept:
  assumes "world_ok w" and "borrow loc n w = Inr (r, w1)" and "kept w1 w2"
  shows "conserves w (\<lambda>w. w) (release r w2)"
  using assms(1)
proof (cases rule: borrow_cases [of w loc n])
  case none
  with assms show ?thesis by (simp add: release_def)
next
  case (list r' l w1')
  with assms(2) have "r = Some r'" "w1 = w1'" by simp_all
  moreover obtain w3 where "unlock r' w2 = Inr w3" "kept w w3"
    using kept_under_lock [OF assms(1) list(2,3)] assms(3) \<open>w1 = w1'\<close> by blast
  ultimately show ?thesis by (simp add: release_def)
qed

lemma move_one_kept:
  assumes cb: "scripts_only_answer cb" and ok: "world_ok w"
  shows "conserves w snd (move_one cb idm a w)"
proof -
  let ?m = "im_move a"
  obtain lf w1 where b1: "borrow (from_inv ?m) (from_list ?m) w = Inr (lf, w1)" "world_ok w1"
    using borrow_ok [OF ok] by blast
  obtain lt w2 where b2: "borrow (to_inv ?m) (to_list ?m) w1 = Inr (lt, w2)" "world_ok w2"
    using borrow_ok [OF b1(2)] by blast
  have given_back: "conserves w (\<lambda>w. w) (rbind (release lt w3) (release lf))" if "kept w2 w3" for w3
    using release_kept [OF b1(2) b2(1) that] release_kept [OF ok b1(1)]
    by (cases "release lt w3") auto
  have self: "kept w' w'" if "kept w w'" for w'
    by (rule kept_refl [OF kept_ok [OF that]])
  show ?thesis
  proof (cases "lf = None \<or> lt = None")
    case True
    have "conserves w snd (rbind (rbind (release lt w2) (release lf)) (\<lambda>w4. Inr (a, w4)))"
      by (rule conserving.ends_rbind [OF given_back [OF kept_refl [OF b2(2)]]]) (simp add: self)
    with True b1(1) b2(1) show ?thesis
      by (auto simp: move_one_def rbind_assoc split: option.split)
  next
    case False
    then obtain f t where r: "lf = Some f" "lt = Some t"
      by (cases lf; cases lt) (simp_all del: split_paired_All)
    note h1 = borrow_held [OF ok b1(1) [unfolded r]] and h2 = borrow_held [OF b1(2) b2(1) [unfolded r]]
    have held: "held f 0 w2" "held t 0 w2"
      using h1(1) h2(1,4) by blast+
    have loc: "has_callbacks (loc_type (from_inv ?m))" "has_callbacks (loc_type (to_inv ?m))"
      using find_list_callbacks [OF h1(2)] find_list_callbacks [OF h2(2)] .
    obtain moved a1 w3 where x: "move_locked cb idm f t a w2 = Inr (moved, a1, w3)" and w3: "kept w2 w3"
      using move_locked_kept [OF cb b2(2) held loc, of idm] by (cases "move_locked cb idm f t a w2") auto
    have range: "moved \<noteq> None \<Longrightarrow> slot_in_range (from_inv ?m) (from_list ?m) (from_i ?m) w \<and> im_move a1 = ?m"
    proof (elim not_None_eq [THEN iffD1, elim_format] exE)
      fix y assume y: "moved = Some y"
      obtain l2 where l2: "list_at f w2 = Some l2"
        using held(1) by (auto simp: held_def)
      obtain l where l: "list_at f w = Some l" "il_items l = il_items l2"
        using h2(3) [OF l2] h1(3) by metis
      from move_locked_moved [OF b2(2) held l2 x [unfolded y]] l h1(2)
      show "slot_in_range (from_inv ?m) (from_list ?m) (from_i ?m) w \<and> im_move a1 = ?m"
        by (simp add: slot_in_range_def)
    qed
    have "conserves w snd (rbind (rbind (release lt w3) (release lf)) (\<lambda>w5. case moved of
        None \<Rightarrow> Inr (a1, w5)
      | Some (src_item, did_swap) \<Rightarrow> rbind (move_report cb src_item did_swap a1 w5) (\<lambda>w6. Inr (a1, w6))))"
    proof (rule conserving.ends_rbind [OF given_back [OF w3]])
      fix w5 assume w5: "kept w w5"
      have "conserves w5 snd (rbind (move_report cb it sw a1 w5) (\<lambda>w6. Inr (a1, w6)))" if "moved = Some (it, sw)" for it sw
        using range that slot_in_range_kept [OF _ w5 ok] loc
        by (intro conserving.ends_rbind [OF move_report_kept [OF cb kept_ok [OF w5]]])
          (auto simp: kept_refl kept_ok)
      then show "conserves w5 snd (case moved of None \<Rightarrow> Inr (a1, w5)
          | Some (src_item, did_swap) \<Rightarrow> rbind (move_report cb src_item did_swap a1 w5) (\<lambda>w6. Inr (a1, w6)))"
        using self [OF w5] by (simp split: option.split prod.split)
    qed
    with b1(1) b2(1) r x show ?thesis
      by (simp add: move_one_def rbind_assoc release_def)
  qed
qed

subsection \<open>Forbidden moves\<close>

text \<open>Scripts that answer 0 for moves within an inventory, and for taking or for putting.\<close>

definition scripts_forbid :: "callbacks \<Rightarrow> bool" where
  "scripts_forbid cb \<longleftrightarrow> scripts_only_answer cb \<and>
     (\<forall>t m n w. fst (cb_AllowMove cb t m n w) = 0) \<and>
     (\<forall>t m s w. 0 \<le> fst (cb_AllowTake cb t m s w)) \<and> (\<forall>t m s w. 0 \<le> fst (cb_AllowPut cb t m s w)) \<and>
     ((\<forall>t m s w. fst (cb_AllowTake cb t m s w) = 0) \<or> (\<forall>t m s w. fst (cb_AllowPut cb t m s w) = 0))"

lemma move_limit_0:
  assumes "can_take = 0 \<and> can_put \<ge> 0 \<or> can_take \<ge> 0 \<and> can_put = 0" and "uint n < 65536"
  shows "move_limit can_take can_put s n = 0"
proof -
  have small: "to_s32 (uint k) = uint k" if "uint k < 65536" for k :: u32
    using that uint_ge_0 [of k] by (intro to_s32_id) linarith+
  have none: "limit_by 0 k = 0" if "uint k < 65536" for k
    using small [OF that] uint_ge_0 [of k] by (simp add: limit_by_def min_def)
  have zero: "limit_by can 0 = 0" if "can \<ge> 0" for can
    using that by (simp add: limit_by_def to_s32_def)
  have less: "uint (limit_by can n) < 65536" if "can \<ge> 0" for can
    using limit_by_pos(2) [of can n] assms(2) that zero [of can] none [of n] by (cases "can = 0"; cases "n = 0") auto
  show ?thesis
    using assms(1) none [OF assms(2)] zero none [OF less] by (auto simp: move_limit_def)
qed

text \<open>
  A negative answer other than \<open>-1\<close> is not an infinite stack: it gets past an answer of 0 for the
  other side, and the whole stack is moved.
\<close>

lemma negative_answer_moves_everything:
  assumes can: "can < -1" "- 2147483648 \<le> can" and n: "uint n < 65536"
  shows "move_limit can 0 s n = ucast (st_count s)" and "move_limit 0 can s n = ucast (st_count s)"
proof -
  have small: "to_s32 (uint n) = uint n"
    using n uint_ge_0 [of n] by (intro to_s32_id) linarith+
  have le: "can \<le> uint n"
    using can(1) uint_ge_0 [of n] by linarith
  have "can mod 4294967296 = can + 4294967296"
    using mod_add_self2 [of can "4294967296 :: int"] mod_pos_pos_trivial [of "can + 4294967296" 4294967296] can by linarith
  then have m: "uint (word_of_int can :: u32) = can + 4294967296"
    by (simp add: uint_word_of_int)
  have again: "to_s32 (can + 4294967296) = can"
    using mod_add_self2 [of "can + 2147483648" "4294967296 :: int"] mod_pos_pos_trivial [of "can + 2147483648" 4294967296] can
    by (simp add: to_s32_def ac_simps)
  have "limit_by can n = word_of_int can" "limit_by 0 (word_of_int can) = word_of_int can"
    "limit_by 0 n = 0" "limit_by can 0 = word_of_int can"
    using can small m again by (simp_all add: limit_by_def le min.absorb1 min.absorb2 to_s32_id [of 0, simplified])
  moreover have "(ucast (st_count s) :: u32) < word_of_int can"
    using uint_lt2p [of "st_count s"] can m by (simp add: word_less_def unsigned_ucast_eq take_bit_eq_mod)
  ultimately show "move_limit can 0 s n = ucast (st_count s)" "move_limit 0 can s n = ucast (st_count s)"
    by (simp_all add: move_limit_def Let_def)
qed

lemma move_prepare_small:
  assumes "move_prepare idm f t a w = Inr (a1, Some x)"
  shows "uint (move_count a1) < 65536"
proof -
  have small: "uint (ucast n :: u32) < 65536" for n :: u16
    using uint_lt2p [of n] by (simp add: unsigned_ucast_eq take_bit_eq_mod)
  have fits: "uint (ucast (st_count s) - ucast (st_count rest) :: u32) < 65536"
    if "il_itemFits idm j s l = Inr (fits, rest)" for s rest :: item_stack and j l fits
  proof -
    obtain rest' s' where "ItemStack_addItem idm s (il_items l ! j) = Inr (rest', s')"
      "unat (st_count rest') \<le> unat (st_count s)"
      by (rule ItemStack_addItem_ok [of idm s "il_items l ! j"]) blast
    then have "unat (st_count rest) \<le> unat (st_count s)"
      using that by (auto simp: il_itemFits_def ItemStack_itemFits_addItem split: if_splits)
    then have "unat (ucast (st_count s) - ucast (st_count rest) :: u32) = unat (st_count s) - unat (st_count rest)"
      by (subst unat_sub) (simp_all add: word_le_nat_alt unat_ucast_u32)
    then show ?thesis
      using unat_u16_less [of "st_count s"] unfolding uint_nat by linarith
  qed
  show ?thesis
    using small assms by (auto simp: move_prepare_def rbind_eq_Inr Let_def split: if_splits prod.splits dest!: fits)
qed

lemma move_locked_forbidden:
  assumes cb: "scripts_forbid cb" and ok: "world_ok w" and held: "held f 0 w" "held t 0 w"
    and loc: "has_callbacks (loc_type (from_inv (im_move a)))" "has_callbacks (loc_type (to_inv (im_move a)))"
    and mv: "move_locked cb idm f t a w = Inr (r, a', w')"
  shows "r = None \<and> world_wf w' \<and> items_at s w' = items_at s w"
proof -
  have wf: "world_wf w" using ok by (simp add: world_ok_def)
  have answers: "scripts_only_answer cb" using cb by (simp add: scripts_forbid_def)
  obtain lt where lt: "list_at t w = Some lt"
    using held(2) by (auto simp: held_def)
  obtain lf where lf: "list_at f w = Some lf"
    using held(1) by (auto simp: held_def)
  obtain a1 p where p: "move_prepare idm f t a w = Inr (a1, p)"
    using move_prepare_ok [OF ok held, of idm a] by blast
  show ?thesis
  proof (cases p)
    case None
    with mv p wf show ?thesis by (simp add: move_locked_def)
  next
    case (Some x)
    obtain item sw where x: "x = (item, sw)" by (cases x)
    have p': "move_prepare idm f t a w = Inr (a1, Some (item, sw))"
      using p Some x by simp
    note m = move_prepare_swap [OF ok p' lf lt]
    have d: "getItem_at t (to_i (im_move a1)) w = Inr (il_items lt ! nat (to_i (im_move a)))"
      using lt m(2,6) list_at_wf [OF wf lt] by (simp add: getItem_at_def deref_def il_getItem_ok)
    have swap: "sw \<Longrightarrow> \<not> ItemStack_empty item \<and> \<not> ItemStack_empty (il_items lt ! nat (to_i (im_move a)))"
      using m(7) by (auto simp: refuses_def)
    obtain can_take can_put allowed w1
      where al: "move_allow cb t item sw a1 w = Inr (can_take, can_put, allowed, w1)" "untouched w w1"
        "allowed \<longrightarrow> sw \<and> can_take > 0 \<and> can_put > 0"
      using move_allow_answer [OF answers _ _ d, where item = item and sw = sw] loc m(2) swap by fastforce
    have can: "can_take = 0 \<and> can_put \<ge> 0 \<or> can_take \<ge> 0 \<and> can_put = 0"
      using cb al(1,3) swap
      by (auto simp: scripts_forbid_def move_allow_def allowMove_def allowTake_def allowPut_def swap_within_def unless_refused_def Let_def
          rbind_eq_Inr prod_eq_iff split: if_splits)
    have "move_perform idm f t can_take can_put allowed a1 w1 = Inr (r, a', w')"
      using mv p' al(1) by (simp add: move_locked_def)
    then have r: "r = None" and m2: "\<exists>w2 b c. setModified_if b f w1 = Inr w2 \<and> setModified_if c t w2 = Inr w'"
      using move_limit_0 [OF can move_prepare_small [OF p']]
      by (auto simp: move_perform_def rbind_eq_Inr Let_def)
    from m2 obtain w2 b c where m2: "setModified_if b f w1 = Inr w2" "setModified_if c t w2 = Inr w'" by blast
    have "world_wf w1"
      using al(2) wf by (simp add: untouched_def world_wf_def)
    from lock_items(3) [OF this m2(1)] lock_items(3) [OF _ m2(2)] untouched_list_at [OF al(2), of s] r
    show ?thesis by (simp add: items_at_def)
  qed
qed

lemma move_one_forbidden:
  assumes cb: "scripts_forbid cb" and ok: "world_ok w" and mv: "move_one cb idm a w = Inr (a', w')"
  shows "items_at s w' = items_at s w"
proof -
  let ?m = "im_move a"
  have wf: "world_wf w" using ok by (simp add: world_ok_def)
  obtain lf w1 where b1: "borrow (from_inv ?m) (from_list ?m) w = Inr (lf, w1)" "world_ok w1"
    using borrow_ok [OF ok] by blast
  obtain lt w2 where b2: "borrow (to_inv ?m) (to_list ?m) w1 = Inr (lt, w2)" "world_ok w2"
    using borrow_ok [OF b1(2)] by blast
  have wfs: "world_wf w1" "world_wf w2" and i2: "items_at s w2 = items_at s w"
    using borrow_items [OF wf b1(1), of s] borrow_items [OF _ b2(1), of s] by simp_all
  show ?thesis
  proof (cases "lf = None \<or> lt = None")
    case True
    then have "\<exists>w3. release lt w2 = Inr w3 \<and> release lf w3 = Inr w'"
      using mv b1(1) b2(1) by (auto simp: move_one_def rbind_eq_Inr split: option.splits)
    then show ?thesis
      using release_items [OF wfs(2), of lt _ s] release_items [of _ lf w' s] i2 by fastforce
  next
    case False
    then obtain f t where r: "lf = Some f" "lt = Some t"
      by (cases lf; cases lt) (simp_all del: split_paired_All)
    note h1 = borrow_held [OF ok b1(1) [unfolded r]] and h2 = borrow_held [OF b1(2) b2(1) [unfolded r]]
    have held: "held f 0 w2" "held t 0 w2"
      using h1(1) h2(1,4) by blast+
    have loc: "has_callbacks (loc_type (from_inv ?m))" "has_callbacks (loc_type (to_inv ?m))"
      using find_list_callbacks [OF h1(2)] find_list_callbacks [OF h2(2)] .
    obtain moved a1 w3 where x: "move_locked cb idm f t a w2 = Inr (moved, a1, w3)"
      using mv b1(1) b2(1) r by (auto simp: move_one_def rbind_eq_Inr)
    have none: "moved = None" "world_wf w3" "items_at s w3 = items_at s w2"
      using move_locked_forbidden [OF cb b2(2) held loc x, of s] by simp_all
    then have "\<exists>w4. unlock t w3 = Inr w4 \<and> unlock f w4 = Inr w'"
      using mv b1(1) b2(1) r x by (auto simp: move_one_def rbind_eq_Inr)
    then show ?thesis
      using lock_items(2) [OF none(2), of t _ s] lock_items(2) [of _ f w' s] none(3) i2 by fastforce
  qed
qed

subsection \<open>Properties\<close>

definition forbidding_scripts :: callbacks where
  "forbidding_scripts = idle_scripts\<lparr>cb_AllowMove := (\<lambda>_ _ _ w. (0, w)), cb_AllowTake := (\<lambda>_ _ _ w. (0, w))\<rparr>"

lemma example_scripts: "scripts_only_answer idle_scripts" "scripts_forbid forbidding_scripts"
  using uint_ge_0 [where 'a = 16]
  by (simp_all add: scripts_only_answer_def scripts_forbid_def idle_scripts_def forbidding_scripts_def untouched_def
      order_less_le_trans [of "-1 :: int" 0, THEN less_imp_neq, symmetric])

text \<open>
  C4: With scripts that only answer, and never with \<open>-1\<close>, every move action with any locations,
  list names, slots and count ends normally (the assertion that a swap happens exactly when it was
  allowed holds), the number of items of every kind in the world is the same as before, and every
  list has its size, name, width and locks as before.
\<close>

theorem move_conserves:
  assumes "scripts_only_answer cb" and "world_ok w"
  shows "\<exists>a' w'. move_one cb idm a w = Inr (a', w') \<and> (\<forall>P. world_total P w' = world_total P w) \<and>
    (\<forall>r. rel_option same_shape (list_at r w) (list_at r w'))"
proof -
  obtain a' w' where "move_one cb idm a w = Inr (a', w')" "kept w w'"
    using move_one_kept [OF assms, of idm a] by (cases "move_one cb idm a w") auto
  then show ?thesis
    unfolding kept_def by blast
qed

theorem move_conserves_witness:
  "scripts_only_answer idle_scripts \<and> world_ok example_world \<and>
   (\<exists>a' w'. move_one idle_scripts (idm_view idm_clear) example_move example_world = Inr (a', w') \<and>
     (\<forall>P. world_total P w' = world_total P example_world) \<and>
     (\<forall>r. rel_option same_shape (list_at r example_world) (list_at r w')))"
  using move_conserves [OF example_scripts(1) example_world_ok] example_scripts(1) example_world_ok by blast



end
