(* ===== verification/ModChannels.thy ===== *)
theory ModChannels
  imports Prelude
begin

section \<open>Mod channels\<close>

text \<open>
  \<^verbatim>\<open>ModChannel\<close> and \<^verbatim>\<open>ModChannelMgr\<close> of \<^verbatim>\<open>src/modchannels.h\<close> and \<^verbatim>\<open>modchannels.cpp\<close>: the named channels
  over which mods talk, each with the peers that joined it. Server and clients hold one manager
  each. The hash map is an association list with distinct keys.
\<close>

datatype modchannel_state =
    MODCHANNEL_STATE_INIT
  | MODCHANNEL_STATE_READ_WRITE
  | MODCHANNEL_STATE_READ_ONLY
  | MODCHANNEL_STATE_MAX

record mod_channel =
  mc_name :: string
  mc_state :: modchannel_state
  mc_consumers :: "u16 list"

type_synonym channel_mgr = "(string \<times> mod_channel) list"

definition channel_new :: "string \<Rightarrow> mod_channel" where
  "channel_new name = \<lparr>mc_name = name, mc_state = MODCHANNEL_STATE_INIT, mc_consumers = []\<rparr>"

definition registerConsumer :: "u16 \<Rightarrow> mod_channel \<Rightarrow> bool \<times> mod_channel" where
  "registerConsumer peer_id c =
     (if peer_id \<in> set (mc_consumers c) then (False, c)
      else (True, c\<lparr>mc_consumers := mc_consumers c @ [peer_id]\<rparr>))"

definition removeConsumer :: "u16 \<Rightarrow> mod_channel \<Rightarrow> bool \<times> mod_channel" where
  "removeConsumer peer_id c =
     (peer_id \<in> set (mc_consumers c), c\<lparr>mc_consumers := filter (\<lambda>p. p \<noteq> peer_id) (mc_consumers c)\<rparr>)"

definition canWrite :: "mod_channel \<Rightarrow> bool" where
  "canWrite c \<longleftrightarrow> mc_state c = MODCHANNEL_STATE_READ_WRITE"

definition setState :: "modchannel_state \<Rightarrow> mod_channel \<Rightarrow> mod_channel res" where
  "setState s c = (if s = MODCHANNEL_STATE_INIT then Inl AssertFailed else Inr (c\<lparr>mc_state := s\<rparr>))"

definition channelRegistered :: "string \<Rightarrow> channel_mgr \<Rightarrow> bool" where
  "channelRegistered channel m \<longleftrightarrow> map_of m channel \<noteq> None"

definition getModChannel :: "string \<Rightarrow> channel_mgr \<Rightarrow> mod_channel option" where
  "getModChannel channel m = (if \<not> channelRegistered channel m then None else map_of m channel)"

definition canWriteOnChannel :: "string \<Rightarrow> channel_mgr \<Rightarrow> bool" where
  "canWriteOnChannel channel m = (case map_of m channel of None \<Rightarrow> False | Some c \<Rightarrow> canWrite c)"

definition registerChannel :: "string \<Rightarrow> channel_mgr \<Rightarrow> channel_mgr" where
  "registerChannel channel m = AList.update channel (channel_new channel) m"

definition setChannelState :: "string \<Rightarrow> modchannel_state \<Rightarrow> channel_mgr \<Rightarrow> (bool \<times> channel_mgr) res" where
  "setChannelState channel s m =
     (case map_of m channel of
        None \<Rightarrow> Inr (False, m)
      | Some c \<Rightarrow> rbind (setState s c) (\<lambda>c'. Inr (True, AList.update channel c' m)))"

definition removeChannel :: "string \<Rightarrow> channel_mgr \<Rightarrow> bool \<times> channel_mgr" where
  "removeChannel channel m =
     (if \<not> channelRegistered channel m then (False, m) else (True, AList.delete channel m))"

definition joinChannel :: "string \<Rightarrow> u16 \<Rightarrow> channel_mgr \<Rightarrow> bool \<times> channel_mgr" where
  "joinChannel channel peer_id m =
     (let m1 = (if \<not> channelRegistered channel m then registerChannel channel m else m);
          (joined, c) = registerConsumer peer_id (the (map_of m1 channel))
      in (joined, AList.update channel c m1))"

definition leaveChannel :: "string \<Rightarrow> u16 \<Rightarrow> channel_mgr \<Rightarrow> bool \<times> channel_mgr" where
  "leaveChannel channel peer_id m =
     (case map_of m channel of
        None \<Rightarrow> (False, m)
      | Some c \<Rightarrow>
          let (consumerRemoved, c') = removeConsumer peer_id c;
              m1 = AList.update channel c' m;
              m2 = (if mc_consumers c' = [] then snd (removeChannel channel m1) else m1)
          in (consumerRemoved, m2))"

definition leaveAllChannels :: "u16 \<Rightarrow> channel_mgr \<Rightarrow> channel_mgr" where
  "leaveAllChannels peer_id m = map (\<lambda>(name, c). (name, snd (removeConsumer peer_id c))) m"

definition getChannelPeers :: "string \<Rightarrow> channel_mgr \<Rightarrow> u16 list" where
  "getChannelPeers channel m = (case map_of m channel of None \<Rightarrow> [] | Some c \<Rightarrow> mc_consumers c)"

subsection \<open>What the manager stands for\<close>

text \<open>
  The contract of a manager: for every channel that exists, its state and the set of its members.
  A channel comes into being with its first member and goes with the last one that leaves it; it
  stays, without members, when the last one disconnects.
\<close>

type_synonym channels = "string \<rightharpoonup> modchannel_state \<times> u16 set"

datatype channel_op =
    OpJoin string u16
  | OpLeave string u16
  | OpLeaveAll u16
  | OpSetState string modchannel_state

fun spec_op :: "channel_op \<Rightarrow> channels \<Rightarrow> bool \<times> channels" where
  "spec_op (OpJoin c p) S = (case S c of
       None \<Rightarrow> (True, S(c \<mapsto> (MODCHANNEL_STATE_INIT, {p})))
     | Some (s, P) \<Rightarrow> (p \<notin> P, S(c \<mapsto> (s, insert p P))))"
| "spec_op (OpLeave c p) S = (case S c of
       None \<Rightarrow> (False, S)
     | Some (s, P) \<Rightarrow> (p \<in> P, S(c := (if P - {p} = {} then None else Some (s, P - {p})))))"
| "spec_op (OpLeaveAll p) S = (True, \<lambda>c. map_option (\<lambda>(s, P). (s, P - {p})) (S c))"
| "spec_op (OpSetState c s) S = (case S c of
       None \<Rightarrow> (False, S)
     | Some (_, P) \<Rightarrow> (True, S(c \<mapsto> (s, P))))"

fun mgr_op :: "channel_op \<Rightarrow> channel_mgr \<Rightarrow> (bool \<times> channel_mgr) res" where
  "mgr_op (OpJoin c p) m = Inr (joinChannel c p m)"
| "mgr_op (OpLeave c p) m = Inr (leaveChannel c p m)"
| "mgr_op (OpLeaveAll p) m = Inr (True, leaveAllChannels p m)"
| "mgr_op (OpSetState c s) m = setChannelState c s m"

definition channels_of :: "channel_mgr \<Rightarrow> channels" where
  "channels_of m = (\<lambda>c. map_option (\<lambda>ch. (mc_state ch, set (mc_consumers ch))) (map_of m c))"

text \<open>The representation: one entry per name, under its own name, and no peer twice.\<close>

definition mgr_ok :: "channel_mgr \<Rightarrow> bool" where
  "mgr_ok m \<longleftrightarrow> distinct (map fst m) \<and> (\<forall>c ch. map_of m c = Some ch \<longrightarrow> mc_name ch = c \<and> distinct (mc_consumers ch))"

lemma mgr_ok_Nil [simp]: "mgr_ok []"
  by (simp add: mgr_ok_def)

lemma mgr_ok_update [intro]:
  "mgr_ok m \<Longrightarrow> mc_name ch = c \<Longrightarrow> distinct (mc_consumers ch) \<Longrightarrow> mgr_ok (AList.update c ch m)"
  by (simp add: mgr_ok_def distinct_update map_of_update)

lemma mgr_ok_delete [intro]: "mgr_ok m \<Longrightarrow> mgr_ok (AList.delete c m)"
  by (simp add: mgr_ok_def distinct_delete map_of_delete)

lemma mgr_okD: "mgr_ok m \<Longrightarrow> map_of m c = Some ch \<Longrightarrow> mc_name ch = c \<and> distinct (mc_consumers ch)"
  by (simp add: mgr_ok_def)

lemma map_of_leaveAll:
  "map_of (leaveAllChannels p m) c = map_option (\<lambda>ch. ch\<lparr>mc_consumers := filter (\<lambda>q. q \<noteq> p) (mc_consumers ch)\<rparr>) (map_of m c)"
  by (induction m) (auto simp: leaveAllChannels_def removeConsumer_def)

lemma keys_leaveAll [simp]: "map fst (leaveAllChannels p m) = map fst m"
  by (induction m) (auto simp: leaveAllChannels_def)

lemmas manager_defs = joinChannel_def leaveChannel_def registerChannel_def channelRegistered_def channel_new_def
  removeChannel_def registerConsumer_def removeConsumer_def map_of_update map_of_delete

text \<open>One operation: the diagram commutes, and the representation stays in order.\<close>

lemma set_filter_not: "set (filter (\<lambda>q. q \<noteq> p) ps) = set ps - {p}"
  by auto

lemma filter_not_Nil: "filter (\<lambda>q. q \<noteq> p) ps = [] \<longleftrightarrow> set ps - {p} = {}"
  by (auto simp: filter_empty_conv)

lemma joinChannel_refines:
  assumes "mgr_ok m"
  shows "mgr_ok (snd (joinChannel c p m))" "fst (joinChannel c p m) = fst (spec_op (OpJoin c p) (channels_of m))"
    "channels_of (snd (joinChannel c p m)) = snd (spec_op (OpJoin c p) (channels_of m))"
proof -
  show "mgr_ok (snd (joinChannel c p m))"
    using assms mgr_okD [OF assms, of c]
    by (cases "map_of m c") (auto simp: manager_defs Let_def intro!: mgr_ok_update)
  show "fst (joinChannel c p m) = fst (spec_op (OpJoin c p) (channels_of m))"
    by (cases "map_of m c") (auto simp: manager_defs channels_of_def Let_def)
  show "channels_of (snd (joinChannel c p m)) = snd (spec_op (OpJoin c p) (channels_of m))"
    by (rule ext, cases "map_of m c") (auto simp: manager_defs channels_of_def Let_def)
qed

lemma leaveChannel_refines:
  assumes "mgr_ok m"
  shows "mgr_ok (snd (leaveChannel c p m))" "fst (leaveChannel c p m) = fst (spec_op (OpLeave c p) (channels_of m))"
    "channels_of (snd (leaveChannel c p m)) = snd (spec_op (OpLeave c p) (channels_of m))"
proof -
  show "mgr_ok (snd (leaveChannel c p m))"
    using assms mgr_okD [OF assms, of c]
    by (cases "map_of m c") (auto simp: manager_defs Let_def intro!: mgr_ok_update mgr_ok_delete)
  show "fst (leaveChannel c p m) = fst (spec_op (OpLeave c p) (channels_of m))"
    by (cases "map_of m c") (auto simp: manager_defs channels_of_def Let_def)
  show "channels_of (snd (leaveChannel c p m)) = snd (spec_op (OpLeave c p) (channels_of m))"
    by (rule ext, cases "map_of m c") (auto simp: manager_defs channels_of_def Let_def set_filter_not filter_not_Nil)
qed

lemma leaveAll_refines:
  assumes "mgr_ok m"
  shows "mgr_ok (leaveAllChannels p m)" "channels_of (leaveAllChannels p m) = snd (spec_op (OpLeaveAll p) (channels_of m))"
proof -
  show "mgr_ok (leaveAllChannels p m)"
    using assms by (auto simp: mgr_ok_def map_of_leaveAll)
  show "channels_of (leaveAllChannels p m) = snd (spec_op (OpLeaveAll p) (channels_of m))"
    by (rule ext) (simp add: channels_of_def map_of_leaveAll set_filter_not option.map_comp comp_def del: set_filter)
qed

lemma setChannelState_refines:
  assumes "mgr_ok m" and "s \<noteq> MODCHANNEL_STATE_INIT"
  shows "\<exists>m'. setChannelState c s m = Inr (fst (spec_op (OpSetState c s) (channels_of m)), m') \<and> mgr_ok m' \<and>
    channels_of m' = snd (spec_op (OpSetState c s) (channels_of m))"
proof (cases "map_of m c")
  case None
  with assms show ?thesis by (simp add: setChannelState_def channels_of_def)
next
  case (Some ch)
  with assms mgr_okD [OF assms(1) Some] show ?thesis
    by (auto simp: setChannelState_def setState_def channels_of_def map_of_update intro!: ext)
qed

fun settable :: "channel_op \<Rightarrow> bool" where
  "settable (OpSetState _ s) \<longleftrightarrow> s \<noteq> MODCHANNEL_STATE_INIT"
| "settable _ \<longleftrightarrow> True"

lemma mgr_op_refines:
  assumes "mgr_ok m" and "settable a"
  obtains b m' where "mgr_op a m = Inr (b, m')" and "mgr_ok m'" and "spec_op a (channels_of m) = (b, channels_of m')"
proof (cases a)
  case (OpJoin c p)
  with joinChannel_refines [OF assms(1), of c p] show ?thesis
    by (intro that [of "fst (joinChannel c p m)" "snd (joinChannel c p m)"]) (simp_all add: prod_eq_iff del: spec_op.simps)
next
  case (OpLeave c p)
  with leaveChannel_refines [OF assms(1), of c p] show ?thesis
    by (intro that [of "fst (leaveChannel c p m)" "snd (leaveChannel c p m)"]) (simp_all add: prod_eq_iff del: spec_op.simps)
next
  case (OpLeaveAll p)
  with leaveAll_refines [OF assms(1), of p] that show ?thesis by simp
next
  case (OpSetState c s)
  with setChannelState_refines [OF assms(1), of s c] assms(2) obtain m'
    where "setChannelState c s m = Inr (fst (spec_op a (channels_of m)), m')" "mgr_ok m'"
      "channels_of m' = snd (spec_op a (channels_of m))" by (auto simp del: spec_op.simps)
  with OpSetState show ?thesis
    by (intro that [of "fst (spec_op a (channels_of m))" m']) (simp_all add: prod_eq_iff del: spec_op.simps)
qed

subsection \<open>Sequences of operations\<close>

fun run_mgr :: "channel_op list \<Rightarrow> channel_mgr \<Rightarrow> (bool list \<times> channel_mgr) res" where
  "run_mgr [] m = Inr ([], m)"
| "run_mgr (a # as) m = rbind (mgr_op a m) (\<lambda>(b, m1). rbind (run_mgr as m1) (\<lambda>(bs, m2). Inr (b # bs, m2)))"

fun run_spec :: "channel_op list \<Rightarrow> channels \<Rightarrow> bool list \<times> channels" where
  "run_spec [] S = ([], S)"
| "run_spec (a # as) S = (let (b, S1) = spec_op a S; (bs, S2) = run_spec as S1 in (b # bs, S2))"

lemma run_refines:
  "mgr_ok m \<Longrightarrow> list_all settable as \<Longrightarrow>
   \<exists>bs m'. run_mgr as m = Inr (bs, m') \<and> mgr_ok m' \<and> run_spec as (channels_of m) = (bs, channels_of m')"
proof (induction as arbitrary: m)
  case (Cons a as)
  from Cons.prems obtain b m1 where 1: "mgr_op a m = Inr (b, m1)" "mgr_ok m1" "spec_op a (channels_of m) = (b, channels_of m1)"
    by (auto elim: mgr_op_refines)
  with Cons.IH [of m1] Cons.prems show ?case by auto
qed simp

lemma peers_of_channels:
  "set (getChannelPeers c m) = (case channels_of m c of None \<Rightarrow> {} | Some (_, P) \<Rightarrow> P)"
  "mgr_ok m \<Longrightarrow> distinct (getChannelPeers c m)"
  "channelRegistered c m \<longleftrightarrow> channels_of m c \<noteq> None"
  "canWriteOnChannel c m \<longleftrightarrow> (\<exists>P. channels_of m c = Some (MODCHANNEL_STATE_READ_WRITE, P))"
  by (auto simp: getChannelPeers_def channels_of_def channelRegistered_def canWriteOnChannel_def canWrite_def mgr_ok_def
      split: option.splits)

text \<open>
  C26: The manager implements its contract: any sequence of joins, leaves, disconnections and
  changes of state, from the empty manager on, succeeds, gives the answers that the contract
  gives, and ends in a manager that stands for the same channels: the peers of a channel are its
  members without repetition, it is registered when it exists, and writing is allowed when its
  state says so.
\<close>

theorem channel_mgr_refines:
  assumes "list_all settable as"
  shows "\<exists>bs m. run_mgr as [] = Inr (bs, m) \<and> (\<exists>S. run_spec as Map.empty = (bs, S) \<and>
    (\<forall>c. set (getChannelPeers c m) = (case S c of None \<Rightarrow> {} | Some (_, P) \<Rightarrow> P) \<and> distinct (getChannelPeers c m) \<and>
      (channelRegistered c m \<longleftrightarrow> S c \<noteq> None) \<and> (canWriteOnChannel c m \<longleftrightarrow> (\<exists>P. S c = Some (MODCHANNEL_STATE_READ_WRITE, P)))))"
proof -
  have "channels_of [] = Map.empty"
    by (rule ext) (simp add: channels_of_def)
  with run_refines [OF mgr_ok_Nil assms] obtain bs m
    where run: "run_mgr as [] = Inr (bs, m)" "mgr_ok m" "run_spec as Map.empty = (bs, channels_of m)" by auto
  show ?thesis
    by (intro exI conjI allI, rule run, rule run) (use peers_of_channels run(2) in auto)
qed

definition example_ops :: "channel_op list" where
  "example_ops = [OpJoin ''chat'' 2, OpSetState ''chat'' MODCHANNEL_STATE_READ_WRITE, OpJoin ''chat'' 3, OpJoin ''chat'' 2,
     OpLeave ''chat'' 2, OpLeaveAll 3]"

theorem channel_mgr_refines_witness:
  "list_all settable example_ops \<and>
   (\<exists>bs m. run_mgr example_ops [] = Inr (bs, m) \<and> (\<exists>S. run_spec example_ops Map.empty = (bs, S) \<and>
    (\<forall>c. set (getChannelPeers c m) = (case S c of None \<Rightarrow> {} | Some (_, P) \<Rightarrow> P) \<and> distinct (getChannelPeers c m) \<and>
      (channelRegistered c m \<longleftrightarrow> S c \<noteq> None) \<and> (canWriteOnChannel c m \<longleftrightarrow> (\<exists>P. S c = Some (MODCHANNEL_STATE_READ_WRITE, P))))))"
  by (intro conjI channel_mgr_refines) (simp_all add: example_ops_def)

subsection \<open>Membership\<close>

text \<open>
  What server and client rely on: who is a member after a join, a leave or a disconnection, and
  what the answers say. A peer's requests are effective when none of them asks for what already
  is; a message is effective when it is for a channel that the peer is in.
\<close>

datatype request = Join string | Leave string | Say string

fun effective :: "request \<Rightarrow> (string \<Rightarrow> bool) \<Rightarrow> bool" where
  "effective (Join c) mem \<longleftrightarrow> \<not> mem c"
| "effective (Leave c) mem \<longleftrightarrow> mem c"
| "effective (Say c) mem \<longleftrightarrow> mem c"

fun after :: "request \<Rightarrow> (string \<Rightarrow> bool) \<Rightarrow> string \<Rightarrow> bool" where
  "after (Join c) mem = mem(c := True)"
| "after (Leave c) mem = mem(c := False)"
| "after (Say c) mem = mem"

fun effective_all :: "request list \<Rightarrow> (string \<Rightarrow> bool) \<Rightarrow> bool" where
  "effective_all [] mem \<longleftrightarrow> True"
| "effective_all (r # rs) mem \<longleftrightarrow> effective r mem \<and> effective_all rs (after r mem)"

definition after_all :: "request list \<Rightarrow> (string \<Rightarrow> bool) \<Rightarrow> string \<Rightarrow> bool" where
  "after_all = fold after"

lemma after_all_simps [simp]:
  "after_all [] mem = mem" "after_all (r # rs) mem = after_all rs (after r mem)"
  "after_all (rs @ [r]) mem = after r (after_all rs mem)"
  by (simp_all add: after_all_def)

lemma effective_all_snoc [simp]: "effective_all (rs @ [r]) mem \<longleftrightarrow> effective_all rs mem \<and> effective r (after_all rs mem)"
  by (induction rs arbitrary: mem) auto

text \<open>The requests on one channel, which the other channels have no part in.\<close>

fun channel_of :: "request \<Rightarrow> string" where
  "channel_of (Join c) = c"
| "channel_of (Leave c) = c"
| "channel_of (Say c) = c"

definition on_channel :: "string \<Rightarrow> request list \<Rightarrow> request list" where
  "on_channel d = filter (\<lambda>r. channel_of r = d)"

lemma on_channel_simps [simp]:
  "on_channel d [] = []" "on_channel d (r # rs) = (if channel_of r = d then r # on_channel d rs else on_channel d rs)"
  "on_channel d (rs @ rs') = on_channel d rs @ on_channel d rs'"
  by (simp_all add: on_channel_def)

lemma one_channel:
  "effective r mem \<longleftrightarrow> effective r mem'" if "mem (channel_of r) = mem' (channel_of r)"
  using that by (cases r) simp_all

lemma after_other [simp]: "channel_of r \<noteq> d \<Longrightarrow> after r mem d = mem d"
  by (cases r) auto

lemma after_cong: "mem d = mem' d \<Longrightarrow> after r mem d = after r mem' d"
  by (cases r) auto

lemma after_all_cong: "mem d = mem' d \<Longrightarrow> after_all rs mem d = after_all rs mem' d"
proof (induction rs arbitrary: mem mem')
  case (Cons r rs)
  from Cons.IH [of "after r mem" "after r mem'"] after_cong [of mem d mem' r] Cons.prems show ?case by simp
qed simp

lemma effective_on_cong:
  "mem d = mem' d \<Longrightarrow> effective_all (on_channel d rs) mem \<longleftrightarrow> effective_all (on_channel d rs) mem'"
proof (induction rs arbitrary: mem mem')
  case (Cons r rs)
  have "after r mem d = after r mem' d" using Cons.prems by (rule after_cong)
  from Cons.IH [of "after r mem" "after r mem'", OF this] Cons.IH [of mem mem', OF Cons.prems] Cons.prems
    one_channel [of mem r mem'] show ?case by simp
qed simp

lemma after_all_on_channel: "after_all (on_channel d rs) mem d = after_all rs mem d"
proof (induction rs arbitrary: mem)
  case (Cons r rs)
  show ?case
  proof (cases "channel_of r = d")
    case False
    then have "after_all rs mem d = after_all rs (after r mem) d" by (intro after_all_cong) simp
    with False Cons show ?thesis by simp
  qed (use Cons in simp)
qed simp

locale channel_registry =
  fixes join leave :: "string \<Rightarrow> u16 \<Rightarrow> 'm \<Rightarrow> bool \<times> 'm" and leave_all :: "u16 \<Rightarrow> 'm \<Rightarrow> 'm"
    and member :: "u16 \<Rightarrow> string \<Rightarrow> 'm \<Rightarrow> bool"
  assumes join_answer: "fst (join c p m) \<longleftrightarrow> \<not> member p c m"
    and join_member: "member q d (snd (join c p m)) \<longleftrightarrow> (q = p \<and> d = c) \<or> member q d m"
    and leave_answer: "fst (leave c p m) \<longleftrightarrow> member p c m"
    and leave_member: "member q d (snd (leave c p m)) \<longleftrightarrow> member q d m \<and> \<not> (q = p \<and> d = c)"
    and leave_all_member: "member q d (leave_all p m) \<longleftrightarrow> member q d m \<and> q \<noteq> p"
begin

definition perform :: "u16 \<Rightarrow> request \<Rightarrow> 'm \<Rightarrow> bool \<times> 'm" where
  "perform p r m = (case r of Join c \<Rightarrow> join c p m | Leave c \<Rightarrow> leave c p m | Say c \<Rightarrow> (member p c m, m))"

lemma perform_effective:
  "effective r (\<lambda>c. member p c m) \<Longrightarrow> fst (perform p r m)"
  "(\<lambda>c. member p c (snd (perform p r m))) = after r (\<lambda>c. member p c m)"
  by (cases r; simp add: perform_def join_answer leave_answer)
    (cases r; simp add: perform_def join_member leave_member fun_eq_iff; blast)

lemma perform_other: "q \<noteq> p \<Longrightarrow> member q c (snd (perform p r m)) \<longleftrightarrow> member q c m"
  by (cases r) (simp_all add: perform_def join_member leave_member)

text \<open>Effective requests all succeed, whatever the other peers do in between.\<close>

lemma effective_step:
  assumes "effective_all (r # rs) (\<lambda>c. member p c m)"
  shows "fst (perform p r m) \<and> effective_all rs (\<lambda>c. member p c (snd (perform p r m))) \<and>
    after_all rs (\<lambda>c. member p c (snd (perform p r m))) = after_all (r # rs) (\<lambda>c. member p c m)"
  using assms perform_effective [where r = r and p = p and m = m] by simp

lemma others_only:
  assumes "q \<noteq> p"
  shows "(\<lambda>c. member p c (snd (perform q r m))) = (\<lambda>c. member p c m)"
  using perform_other [where p = q and q = p] assms by auto

lemma others_gone: "q \<noteq> p \<Longrightarrow> (\<lambda>c. member p c (leave_all q m)) = (\<lambda>c. member p c m)"
  by (auto simp: leave_all_member)

end

definition joined :: "u16 \<Rightarrow> string \<Rightarrow> channel_mgr \<Rightarrow> bool" where
  "joined p c m \<longleftrightarrow> p \<in> set (getChannelPeers c m)"

interpretation registry: channel_registry joinChannel leaveChannel leaveAllChannels joined
proof unfold_locales
  fix c d :: string and p q :: u16 and m :: channel_mgr
  show "fst (joinChannel c p m) \<longleftrightarrow> \<not> joined p c m" "fst (leaveChannel c p m) \<longleftrightarrow> joined p c m"
    by (cases "map_of m c"; simp add: manager_defs joined_def getChannelPeers_def Let_def)+
  show "joined q d (snd (joinChannel c p m)) \<longleftrightarrow> (q = p \<and> d = c) \<or> joined q d m"
    by (cases "map_of m c") (auto simp: manager_defs joined_def getChannelPeers_def Let_def)
  show "joined q d (snd (leaveChannel c p m)) \<longleftrightarrow> joined q d m \<and> \<not> (q = p \<and> d = c)"
    by (cases "map_of m c") (auto simp: manager_defs joined_def getChannelPeers_def Let_def filter_empty_conv)
  show "joined q d (leaveAllChannels p m) \<longleftrightarrow> joined q d m \<and> q \<noteq> p"
    by (auto simp: joined_def getChannelPeers_def map_of_leaveAll split: option.splits)
qed

text \<open>The contract of the manager is a registry as well.\<close>

definition spec_member :: "u16 \<Rightarrow> string \<Rightarrow> channels \<Rightarrow> bool" where
  "spec_member p c S \<longleftrightarrow> (\<exists>s P. S c = Some (s, P) \<and> p \<in> P)"

interpretation spec_registry: channel_registry "\<lambda>c p. spec_op (OpJoin c p)" "\<lambda>c p. spec_op (OpLeave c p)"
  "\<lambda>p S. snd (spec_op (OpLeaveAll p) S)" spec_member
  by unfold_locales (auto simp: spec_member_def split: option.splits)

end
