(* ===== verification/FloatFormat.thy ===== *)
theory FloatFormat
  imports Serialize
begin

section \<open>Floating-point numbers\<close>

text \<open>
  The formats of \<^verbatim>\<open>src/util/serialize.h\<close> for floating-point numbers. A \<^verbatim>\<open>float\<close> or a \<^verbatim>\<open>double\<close> is its
  bit pattern; the arithmetic of the processor on them is a parameter, the record \<open>float_ops\<close>. Values
  are stored either as their bit pattern (the branch \<^verbatim>\<open>FLOATTYPE_SYSTEM\<close>) or as a number of
  thousandths in 32 bits.
\<close>

type_synonym f32 = u32
type_synonym f64 = u64

record float_ops =
  f32_less :: "f32 \<Rightarrow> f32 \<Rightarrow> bool"
  f32_le :: "f32 \<Rightarrow> f32 \<Rightarrow> bool"
  f32_add :: "f32 \<Rightarrow> f32 \<Rightarrow> f32"
  f32_sub :: "f32 \<Rightarrow> f32 \<Rightarrow> f32"
  f32_times_1000 :: "f32 \<Rightarrow> int"
  f32_thousandths :: "int \<Rightarrow> f32"
  f32_to_f64 :: "f32 \<Rightarrow> f64"
  f64_to_f32 :: "f64 \<Rightarrow> f32"
  f64_less :: "f64 \<Rightarrow> f64 \<Rightarrow> bool"
  f64_le :: "f64 \<Rightarrow> f64 \<Rightarrow> bool"
  f64_eq :: "f64 \<Rightarrow> f64 \<Rightarrow> bool"
  f64_add :: "f64 \<Rightarrow> f64 \<Rightarrow> f64"
  f64_sub :: "f64 \<Rightarrow> f64 \<Rightarrow> f64"

text \<open>
  The limits of the form in thousandths, \<open>- 2147483\<close> and \<open>2147483\<close>. A value beyond them is written as
  the limit itself, which the reader takes for thousandths.
\<close>

definition F1000_MIN :: f32 where "F1000_MIN = 0xCA03126C"
definition F1000_MAX :: f32 where "F1000_MAX = 0x4A03126C"

definition f1000_value :: "float_ops \<Rightarrow> f32 \<Rightarrow> int" where
  "f1000_value fl i =
     (if f32_less fl i F1000_MIN then - 2147483
      else if f32_less fl F1000_MAX i then 2147483
      else f32_times_1000 fl i)"

definition writeF1000 :: "float_ops \<Rightarrow> f32 \<Rightarrow> string" where
  "writeF1000 fl i = stream_write (writeS32 (f1000_value fl i))"

definition readF1000 :: "float_ops \<Rightarrow> string \<Rightarrow> (f32 \<times> string) res" where
  "readF1000 fl = stream_read 4 (\<lambda>d. f32_thousandths fl (readS32 d))"

definition writeF32 :: "f32 \<Rightarrow> u8 list" where "writeF32 i = writeU32 i"
definition readF32 :: "u8 list \<Rightarrow> f32" where "readF32 data = readU32 data"

definition writeF64 :: "f64 \<Rightarrow> u8 list" where "writeF64 i = writeU64 i"
definition readF64 :: "u8 list \<Rightarrow> f64" where "readF64 data = readU64 data"

text \<open>A \<^verbatim>\<open>long double\<close> is its 16 bytes in memory, as two numbers of 8 bytes.\<close>

type_synonym f128 = "u64 \<times> u64"

definition writeF128 :: "f128 \<Rightarrow> u8 list" where "writeF128 i = writeU64 (fst i) @ writeU64 (snd i)"
definition readF128 :: "u8 list \<Rightarrow> f128" where "readF128 data = (readU64 data, readU64 (drop 8 data))"

type_synonym v2f = "f32 \<times> f32"
type_synonym v3f128 = "f128 \<times> f128 \<times> f128"
type_synonym v3f = "f32 \<times> f32 \<times> f32"
type_synonym v3opos = "f64 \<times> f64 \<times> f64"

definition writeV3F32 :: "v3f \<Rightarrow> string" where
  "writeV3F32 p = (case p of (x, y, z) \<Rightarrow> stream_write (writeF32 x @ writeF32 y @ writeF32 z))"

definition readV3F32 :: "string \<Rightarrow> (v3f \<times> string) res" where
  "readV3F32 = stream_read 12 (\<lambda>d. (readF32 d, readF32 (drop 4 d), readF32 (drop 8 d)))"

text \<open>The same from a buffer.\<close>

definition dataV2F32 :: "u8 list \<Rightarrow> v2f" where
  "dataV2F32 data = (readF32 data, readF32 (drop 4 data))"

definition dataV3F32 :: "u8 list \<Rightarrow> v3f" where
  "dataV3F32 data = (readF32 data, readF32 (drop 4 data), readF32 (drop 8 data))"

definition readV3F64 :: "u8 list \<Rightarrow> v3opos" where
  "readV3F64 data = (readF64 data, readF64 (drop 8 data), readF64 (drop 16 data))"

definition readV3F128 :: "u8 list \<Rightarrow> v3f128" where
  "readV3F128 data = (readF128 data, readF128 (drop 16 data), readF128 (drop 32 data))"

definition readV3F1000 :: "float_ops \<Rightarrow> string \<Rightarrow> (v3f \<times> string) res" where
  "readV3F1000 fl =
     stream_read 12 (\<lambda>d. (f32_thousandths fl (readS32 d), f32_thousandths fl (readS32 (drop 4 d)),
       f32_thousandths fl (readS32 (drop 8 d))))"

definition v3fToOpos :: "float_ops \<Rightarrow> v3f \<Rightarrow> v3opos" where
  "v3fToOpos fl p = (case p of (x, y, z) \<Rightarrow> (f32_to_f64 fl x, f32_to_f64 fl y, f32_to_f64 fl z))"

definition oposToV3f :: "float_ops \<Rightarrow> v3opos \<Rightarrow> v3f" where
  "oposToV3f fl p = (case p of (x, y, z) \<Rightarrow> (f64_to_f32 fl x, f64_to_f32 fl y, f64_to_f32 fl z))"

text \<open>Positions of objects, without a protocol version: single precision.\<close>

definition writeV3O :: "float_ops \<Rightarrow> v3opos \<Rightarrow> string" where
  "writeV3O fl p = writeV3F32 (oposToV3f fl p)"

definition readV3O :: "float_ops \<Rightarrow> string \<Rightarrow> (v3opos \<times> string) res" where
  "readV3O fl s = rbind (readV3F32 s) (\<lambda>(p, r). Inr (v3fToOpos fl p, r))"

subsection \<open>Reading back\<close>

lemma length_floats [simp]: "length (writeF32 x) = 4" "length (writeF64 y) = 8" "length (writeF128 z) = 16"
  by (simp_all add: writeF32_def writeF64_def writeF128_def)

lemma readF1000_writeF1000:
  assumes "- (2 ^ 31) \<le> f1000_value fl i" and "f1000_value fl i < 2 ^ 31"
  shows "readF1000 fl (writeF1000 fl i @ r) = Inr (f32_thousandths fl (f1000_value fl i), r)"
  unfolding readF1000_def writeF1000_def
  using assms by (intro stream_read_write) (simp_all add: readS32_writeS32 [where r = "[]", simplified])

lemma length_writeF1000 [simp]: "length (writeF1000 fl i) = 4"
  by (simp add: writeF1000_def stream_write_def)

lemma readV3F32_writeV3F32: "readV3F32 (writeV3F32 p @ r) = Inr (p, r)"
  unfolding readV3F32_def writeV3F32_def
  by (cases p) (simp, rule stream_read_write, simp_all add: readF32_def writeF32_def readU32_writeU32 [where r = "[]", simplified])

lemma readV3O_writeV3O: "readV3O fl (writeV3O fl p @ r) = Inr (v3fToOpos fl (oposToV3f fl p), r)"
  by (simp add: readV3O_def writeV3O_def readV3F32_writeV3F32)

text \<open>A value beyond the limits comes back a thousand times smaller than the limit.\<close>

lemma beyond_F1000_MAX:
  assumes "f32_less fl F1000_MAX i" and "\<not> f32_less fl i F1000_MIN"
  shows "readF1000 fl (writeF1000 fl i @ r) = Inr (f32_thousandths fl 2147483, r)"
  using readF1000_writeF1000 [of fl i r] assms by (simp add: f1000_value_def)

text \<open>An arithmetic in which all patterns are numbers, ordered as unsigned integers, for examples.\<close>

definition plain_floats :: float_ops where
  "plain_floats = \<lparr>f32_less = (<), f32_le = (\<le>), f32_add = (+), f32_sub = (-), f32_times_1000 = uint,
     f32_thousandths = word_of_int, f32_to_f64 = ucast, f64_to_f32 = ucast, f64_less = (<), f64_le = (\<le>),
     f64_eq = (=), f64_add = (+), f64_sub = (-)\<rparr>"

end
