(* ===== verification/NetworkPacket.thy ===== *)
theory NetworkPacket
  imports SerializedStrings FloatFormat
begin

section \<open>The packets of the commands\<close>

text \<open>
  \<^verbatim>\<open>NetworkPacket\<close> of \<^verbatim>\<open>src/network/networkpacket.h\<close> and \<^verbatim>\<open>networkpacket.cpp\<close>: a command with a buffer
  that the handlers write fields to and read fields from. One offset serves for both. A read
  checks the size of the packet and throws \<open>PacketError\<close>; the access to the buffer itself is
  \<open>fetch\<close>, so a check that is too weak shows as \<open>OutOfBounds\<close>.
\<close>

record packet =
  np_data :: "u8 list"
  np_datasize :: u32
  np_offset :: u32
  np_command :: u16
  np_peer_id :: u16
  np_proto_ver :: u16

definition packet_new :: "u16 \<Rightarrow> u16 \<Rightarrow> u16 \<Rightarrow> packet" where
  "packet_new command peer_id proto_ver =
     \<lparr>np_data = [], np_datasize = 0, np_offset = 0, np_command = command, np_peer_id = peer_id,
      np_proto_ver = proto_ver\<rparr>"

definition PROTOCOL_VERSION_32BIT :: u16 where "PROTOCOL_VERSION_32BIT = 147"

definition setProtoVer :: "u16 \<Rightarrow> packet \<Rightarrow> packet" where
  "setProtoVer v p = p\<lparr>np_proto_ver := v\<rparr>"

definition getRemainingBytes :: "packet \<Rightarrow> u32" where
  "getRemainingBytes p = np_datasize p - np_offset p"

definition checkReadOffset :: "u32 \<Rightarrow> u32 \<Rightarrow> packet \<Rightarrow> unit res" where
  "checkReadOffset from_offset field_size p =
     (if from_offset + field_size > np_datasize p then Inl PacketError else Inr ())"

definition resize :: "nat \<Rightarrow> u8 list \<Rightarrow> u8 list" where
  "resize n xs = take n xs @ replicate (n - length xs) 0"

definition checkDataSize :: "u32 \<Rightarrow> packet \<Rightarrow> packet" where
  "checkDataSize field_size p =
     (if np_offset p + field_size > np_datasize p
      then p\<lparr>np_datasize := np_offset p + field_size, np_data := resize (unat (np_offset p + field_size)) (np_data p)\<rparr>
      else p)"

definition packet_clear :: "packet \<Rightarrow> packet" where
  "packet_clear p = p\<lparr>np_data := [], np_datasize := 0, np_offset := 0, np_command := 0, np_peer_id := 0\<rparr>"

text \<open>From and to the bytes of a datagram: the command comes first.\<close>

definition putRawPacket :: "u8 list \<Rightarrow> u16 \<Rightarrow> packet \<Rightarrow> packet res" where
  "putRawPacket data peer_id p =
     (if np_command p \<noteq> 0 \<or> length data < 2 then Inl AssertFailed
      else Inr (p\<lparr>np_datasize := of_nat (length data) - 2, np_peer_id := peer_id,
                  np_data := drop 2 data, np_command := readU16 data\<rparr>))"

definition oldForgePacket :: "packet \<Rightarrow> u8 list res" where
  "oldForgePacket p =
     (if np_command p = 0 then (if np_datasize p = 0 then Inr [] else Inl AssertFailed)
      else Inr (writeU16 (np_command p) @ np_data p))"

subsection \<open>Raw bytes\<close>

definition getString :: "u32 \<Rightarrow> packet \<Rightarrow> u8 list res" where
  "getString from_offset p =
     rbind (checkReadOffset from_offset 0 p) (\<lambda>_. fetch_rest (unat from_offset) (np_data p))"

definition skip_bytes :: "u32 \<Rightarrow> packet \<Rightarrow> packet res" where
  "skip_bytes count p =
     rbind (checkReadOffset (np_offset p) count p) (\<lambda>_. Inr (p\<lparr>np_offset := np_offset p + count\<rparr>))"

definition write_field :: "u8 list \<Rightarrow> packet \<Rightarrow> packet" where
  "write_field bytes p =
     (let n = of_nat (length bytes); p1 = checkDataSize n p
      in p1\<lparr>np_data := poke (unat (np_offset p1)) bytes (np_data p1), np_offset := np_offset p1 + n\<rparr>)"

definition putRawString :: "u8 list \<Rightarrow> packet \<Rightarrow> packet" where
  "putRawString src p = (if src = [] then checkDataSize 0 p else write_field src p)"

text \<open>
  A read checks \<open>n\<close> bytes, reads \<open>width\<close> bytes and goes ahead by \<open>n\<close>; the two numbers are the same
  for every type but one.
\<close>

definition read_field :: "u32 \<Rightarrow> nat \<Rightarrow> (u8 list \<Rightarrow> 'a) \<Rightarrow> packet \<Rightarrow> ('a \<times> packet) res" where
  "read_field n width rd p =
     rbind (checkReadOffset (np_offset p) n p) (\<lambda>_.
     rbind (fetch (unat (np_offset p)) width rd (np_data p)) (\<lambda>x. Inr (x, p\<lparr>np_offset := np_offset p + n\<rparr>)))"

definition readRawString :: "u32 \<Rightarrow> packet \<Rightarrow> (u8 list \<times> packet) res" where
  "readRawString len p =
     rbind (checkReadOffset (np_offset p) len p) (\<lambda>_.
       if len = 0 then Inr ([], p) else read_field len (unat len) (take (unat len)) p)"

subsection \<open>Numbers\<close>

definition get_bool :: "packet \<Rightarrow> (bool \<times> packet) res" where
  "get_bool = read_field 1 1 (\<lambda>d. hd d \<noteq> 0)"

definition get_u8 :: "packet \<Rightarrow> (u8 \<times> packet) res" where
  "get_u8 = read_field 1 1 hd"

definition get_u16 :: "packet \<Rightarrow> (u16 \<times> packet) res" where
  "get_u16 = read_field 2 2 readU16"

definition get_u32 :: "packet \<Rightarrow> (u32 \<times> packet) res" where
  "get_u32 = read_field 4 4 readU32"

definition get_u64 :: "packet \<Rightarrow> (u64 \<times> packet) res" where
  "get_u64 = read_field 8 8 readU64"

definition get_s16 :: "packet \<Rightarrow> (int \<times> packet) res" where
  "get_s16 = read_field 2 2 readS16"

definition get_s32 :: "packet \<Rightarrow> (int \<times> packet) res" where
  "get_s32 = read_field 4 4 readS32"

text \<open>The size that is checked is that of a 32-bit number.\<close>

definition get_s64 :: "packet \<Rightarrow> (int \<times> packet) res" where
  "get_s64 = read_field 4 8 readS64"

definition readV2S32 :: "u8 list \<Rightarrow> int \<times> int" where
  "readV2S32 data = (readS32 data, readS32 (drop 4 data))"

definition get_v2s32 :: "packet \<Rightarrow> ((int \<times> int) \<times> packet) res" where
  "get_v2s32 = read_field 8 8 readV2S32"

definition get_v3s16 :: "packet \<Rightarrow> (v3 \<times> packet) res" where
  "get_v3s16 = read_field 6 6 readV3S16"

definition get_v3s32 :: "packet \<Rightarrow> (v3 \<times> packet) res" where
  "get_v3s32 = read_field 12 12 readV3S32"

definition get_v3s64 :: "packet \<Rightarrow> (v3 \<times> packet) res" where
  "get_v3s64 = read_field 24 16 readV3S64"

text \<open>Colours are the 32 bits of their components.\<close>

definition get_color :: "packet \<Rightarrow> (u32 \<times> packet) res" where
  "get_color = read_field 4 4 readU32"

text \<open>Characters, and floating-point numbers as their bits.\<close>

definition get_char :: "packet \<Rightarrow> (char \<times> packet) res" where
  "get_char = read_field 1 1 (\<lambda>d. chr8 (hd d))"

definition get_float :: "packet \<Rightarrow> (f32 \<times> packet) res" where
  "get_float = read_field 4 4 readF32"

definition get_v2f :: "packet \<Rightarrow> (v2f \<times> packet) res" where
  "get_v2f = read_field 8 8 dataV2F32"

definition get_v3f :: "packet \<Rightarrow> (v3f \<times> packet) res" where
  "get_v3f = read_field 12 12 dataV3F32"

definition get_double :: "packet \<Rightarrow> (f64 \<times> packet) res" where
  "get_double = read_field 8 8 readF64"

definition get_long_double :: "packet \<Rightarrow> (f128 \<times> packet) res" where
  "get_long_double = read_field 16 16 readF128"

definition get_v3f128 :: "packet \<Rightarrow> (v3f128 \<times> packet) res" where
  "get_v3f128 = read_field 48 48 readV3F128"

text \<open>Positions take 16 bits per component for peers with an older protocol, those of objects 32.\<close>

definition get_v3opos :: "float_ops \<Rightarrow> packet \<Rightarrow> (v3opos \<times> packet) res" where
  "get_v3opos fl p =
     (if np_proto_ver p < PROTOCOL_VERSION_32BIT then rbind (get_v3f p) (\<lambda>(v, p1). Inr (v3fToOpos fl v, p1))
      else read_field 24 24 readV3F64 p)"

definition get_pos :: "packet \<Rightarrow> (int \<times> packet) res" where
  "get_pos p = (if np_proto_ver p < PROTOCOL_VERSION_32BIT then get_s16 p else get_s32 p)"

definition get_v3pos :: "packet \<Rightarrow> (v3 \<times> packet) res" where
  "get_v3pos p = (if np_proto_ver p < PROTOCOL_VERSION_32BIT then get_v3s16 p else get_v3s32 p)"

definition put_bool :: "bool \<Rightarrow> packet \<Rightarrow> packet" where
  "put_bool b = write_field [if b then 1 else 0]"

definition put_u8 :: "u8 \<Rightarrow> packet \<Rightarrow> packet" where
  "put_u8 w = write_field [w]"

definition put_u16 :: "u16 \<Rightarrow> packet \<Rightarrow> packet" where
  "put_u16 w = write_field (writeU16 w)"

definition put_u32 :: "u32 \<Rightarrow> packet \<Rightarrow> packet" where
  "put_u32 w = write_field (writeU32 w)"

definition put_u64 :: "u64 \<Rightarrow> packet \<Rightarrow> packet" where
  "put_u64 w = write_field (writeU64 w)"

definition put_s16 :: "int \<Rightarrow> packet \<Rightarrow> packet" where
  "put_s16 i = put_u16 (word_of_int i)"

definition put_s32 :: "int \<Rightarrow> packet \<Rightarrow> packet" where
  "put_s32 i = put_u32 (word_of_int i)"

definition put_s64 :: "int \<Rightarrow> packet \<Rightarrow> packet" where
  "put_s64 i = put_u64 (word_of_int i)"

definition put_v2s32 :: "int \<times> int \<Rightarrow> packet \<Rightarrow> packet" where
  "put_v2s32 v p = put_s32 (snd v) (put_s32 (fst v) p)"

definition put_v3s16 :: "v3 \<Rightarrow> packet \<Rightarrow> packet" where
  "put_v3s16 v p = put_s16 (vZ v) (put_s16 (vY v) (put_s16 (vX v) p))"

definition put_v3s32 :: "v3 \<Rightarrow> packet \<Rightarrow> packet" where
  "put_v3s32 v p = put_s32 (vZ v) (put_s32 (vY v) (put_s32 (vX v) p))"

definition put_v3s64 :: "v3 \<Rightarrow> packet \<Rightarrow> packet" where
  "put_v3s64 v p = put_s64 (vZ v) (put_s64 (vY v) (put_s64 (vX v) p))"

definition put_color :: "u32 \<Rightarrow> packet \<Rightarrow> packet" where
  "put_color c = write_field (writeU32 c)"

definition put_pos :: "int \<Rightarrow> packet \<Rightarrow> packet" where
  "put_pos i p = (if np_proto_ver p < PROTOCOL_VERSION_32BIT then put_u16 (word_of_int i) p else put_s32 i p)"

definition put_char :: "char \<Rightarrow> packet \<Rightarrow> packet" where
  "put_char c = write_field [ord8 c]"

definition put_float :: "f32 \<Rightarrow> packet \<Rightarrow> packet" where
  "put_float x = write_field (writeF32 x)"

definition put_v2f :: "v2f \<Rightarrow> packet \<Rightarrow> packet" where
  "put_v2f v p = put_float (snd v) (put_float (fst v) p)"

definition put_v3f :: "v3f \<Rightarrow> packet \<Rightarrow> packet" where
  "put_v3f v p = (case v of (x, y, z) \<Rightarrow> put_float z (put_float y (put_float x p)))"

definition put_double :: "f64 \<Rightarrow> packet \<Rightarrow> packet" where
  "put_double x = write_field (writeF64 x)"

definition put_long_double :: "f128 \<Rightarrow> packet \<Rightarrow> packet" where
  "put_long_double x = write_field (writeF128 x)"

definition put_v3f128 :: "v3f128 \<Rightarrow> packet \<Rightarrow> packet" where
  "put_v3f128 v p = (case v of (x, y, z) \<Rightarrow> put_long_double z (put_long_double y (put_long_double x p)))"

definition put_v3opos :: "float_ops \<Rightarrow> v3opos \<Rightarrow> packet \<Rightarrow> packet" where
  "put_v3opos fl v p =
     (if np_proto_ver p < PROTOCOL_VERSION_32BIT then put_v3f (oposToV3f fl v) p
      else case v of (x, y, z) \<Rightarrow> put_double z (put_double y (put_double x p)))"

definition posToS16 :: "v3 \<Rightarrow> v3" where
  "posToS16 v = mk_v3 (to_s16 (vX v)) (to_s16 (vY v)) (to_s16 (vZ v))"

definition put_v3pos :: "v3 \<Rightarrow> packet \<Rightarrow> packet" where
  "put_v3pos v p =
     (if np_proto_ver p < PROTOCOL_VERSION_32BIT then put_v3s16 (posToS16 v) p else put_v3s32 v p)"

subsection \<open>Strings\<close>

definition get_string :: "packet \<Rightarrow> (string \<times> packet) res" where
  "get_string p =
     rbind (get_u16 p) (\<lambda>(strLen, p1).
       if strLen = 0 then Inr ([], p1)
       else rbind (read_field (ucast strLen) (unat strLen) (take (unat strLen)) p1) (\<lambda>(s, p2). Inr (map chr8 s, p2)))"

definition put_string :: "string \<Rightarrow> packet \<Rightarrow> packet res" where
  "put_string src p =
     (if length src > STRING_MAX_LEN then Inl PacketError
      else Inr (putRawString (map ord8 src) (put_u16 (of_nat (length src)) p)))"

definition readLongString :: "packet \<Rightarrow> (string \<times> packet) res" where
  "readLongString p =
     rbind (get_u32 p) (\<lambda>(strLen, p1).
       if strLen = 0 then Inr ([], p1)
       else if unat strLen > LONG_STRING_MAX_LEN then Inl PacketError
       else rbind (read_field strLen (unat strLen) (take (unat strLen)) p1) (\<lambda>(s, p2). Inr (map chr8 s, p2)))"

definition putLongString :: "string \<Rightarrow> packet \<Rightarrow> packet res" where
  "putLongString src p =
     (if length src > LONG_STRING_MAX_LEN then Inl PacketError
      else Inr (putRawString (map ord8 src) (put_u32 (of_nat (length src)) p)))"

text \<open>
  Wide strings have 32-bit characters and are sent as UTF-16 with a length in units. The length is
  written after the units, over a dummy.
\<close>

definition WIDE_STRING_MAX_LEN :: nat where "WIDE_STRING_MAX_LEN = 0xFFFF"

fun read_units :: "nat \<Rightarrow> packet \<Rightarrow> (int list \<times> packet) res" where
  "read_units 0 p = Inr ([], p)"
| "read_units (Suc n) p =
     rbind (fetch (unat (np_offset p)) 2 readU16 (np_data p)) (\<lambda>c.
       let p1 = p\<lparr>np_offset := np_offset p + 2\<rparr>
       in if 0xD800 \<le> c \<and> c < 0xDC00 \<and> n > 0
          then rbind (fetch (unat (np_offset p1)) 2 readU16 (np_data p1)) (\<lambda>c2.
               rbind (read_units (n - 1) (p1\<lparr>np_offset := np_offset p1 + 2\<rparr>)) (\<lambda>(cs, p2).
                 Inr ((0x10000 + or (push_bit 10 (and (uint c) 0x3ff)) (and (uint c2) 0x3ff)) # cs, p2)))
          else rbind (read_units n p1) (\<lambda>(cs, p2). Inr (uint c # cs, p2)))"

definition get_wstring :: "packet \<Rightarrow> (int list \<times> packet) res" where
  "get_wstring p =
     rbind (get_u16 p) (\<lambda>(strLen, p1).
       if strLen = 0 then Inr ([], p1)
       else rbind (checkReadOffset (np_offset p1) (ucast strLen * 2) p1) (\<lambda>_. read_units (unat strLen) p1))"

fun write_units :: "int list \<Rightarrow> packet \<Rightarrow> nat \<times> packet" where
  "write_units [] p = (0, p)"
| "write_units (c # cs) p =
     (if c > 0xffff
      then let n = c - 0x10000;
               (written, p1) = write_units cs (put_u16 (word_of_int (or 0xDC00 (and n 0x3ff)))
                                 (put_u16 (word_of_int (or 0xD800 (drop_bit 10 n))) p))
           in (written + 2, p1)
      else let (written, p1) = write_units cs (put_u16 (word_of_int c) p) in (written + 1, p1))"

definition put_wstring :: "int list \<Rightarrow> packet \<Rightarrow> packet res" where
  "put_wstring src p =
     (if length src > WIDE_STRING_MAX_LEN then Inl PacketError
      else if src = [] then Inr (put_u16 0 p)
      else
        let len_offset = np_offset p;
            (written, p1) = write_units src (put_u16 0xfff0 p)
        in if written > WIDE_STRING_MAX_LEN then Inl PacketError
           else Inr (p1\<lparr>np_data := poke (unat len_offset) (writeU16 (of_nat written)) (np_data p1)\<rparr>))"

subsection \<open>Writing at the end and reading in the middle\<close>

text \<open>A packet that is being written has its offset at the end; fields are appended.\<close>

definition at_end :: "packet \<Rightarrow> bool" where
  "at_end p \<longleftrightarrow> unat (np_datasize p) = length (np_data p) \<and> np_offset p = np_datasize p"

definition appended :: "u8 list \<Rightarrow> packet \<Rightarrow> packet" where
  "appended bytes p =
     p\<lparr>np_data := np_data p @ bytes, np_datasize := np_datasize p + of_nat (length bytes),
       np_offset := np_offset p + of_nat (length bytes)\<rparr>"

definition fits :: "nat \<Rightarrow> packet \<Rightarrow> bool" where
  "fits n p \<longleftrightarrow> length (np_data p) + n < 4294967296"

text \<open>A packet that is being read: \<open>bytes\<close> are next.\<close>

definition upcoming :: "u8 list \<Rightarrow> packet \<Rightarrow> bool" where
  "upcoming bytes p \<longleftrightarrow> unat (np_datasize p) = length (np_data p) \<and> unat (np_offset p) + length bytes \<le> length (np_data p) \<and>
     (\<exists>rest. drop (unat (np_offset p)) (np_data p) = bytes @ rest)"

definition advance :: "nat \<Rightarrow> packet \<Rightarrow> packet" where
  "advance n p = p\<lparr>np_offset := np_offset p + of_nat n\<rparr>"

lemma unat_add_of_nat: "unat (w :: u32) + n < 4294967296 \<Longrightarrow> unat (w + of_nat n) = unat w + n"
  by (simp add: unat_word_ariths unsigned_of_nat take_bit_nat_eq_self)

lemma appended_simps [simp]:
  "appended [] p = p"
  "appended ys (appended xs p) = appended (xs @ ys) p"
  "np_proto_ver (appended xs p) = np_proto_ver p" "np_command (appended xs p) = np_command p"
  "np_data (appended xs p) = np_data p @ xs"
  by (simp_all add: appended_def)

lemma appended_at_end [simp]: "at_end p \<Longrightarrow> fits (length xs) p \<Longrightarrow> at_end (appended xs p)"
  by (simp add: at_end_def appended_def fits_def unat_add_of_nat)

lemma fits_appended [simp]: "fits n (appended xs p) \<longleftrightarrow> fits (length xs + n) p"
  by (simp add: fits_def add.assoc)

lemma fits_mono: "fits n p \<Longrightarrow> m \<le> n \<Longrightarrow> fits m p"
  by (simp add: fits_def)

lemma advance_simps [simp]:
  "advance 0 p = p" "advance m (advance n p) = advance (n + m) p" "np_proto_ver (advance n p) = np_proto_ver p"
  by (simp_all add: advance_def add.assoc)

lemma write_field_append:
  assumes "at_end p" and "fits (length bytes) p"
  shows "write_field bytes p = appended bytes p"
proof (cases "bytes = []")
  case True
  with assms show ?thesis by (simp add: write_field_def checkDataSize_def at_end_def appended_def poke_def)
next
  case False
  have n: "unat (np_datasize p + of_nat (length bytes)) = length (np_data p) + length bytes"
    using assms by (simp add: at_end_def fits_def unat_add_of_nat)
  then have "np_datasize p < np_datasize p + of_nat (length bytes)"
    using assms(1) False by (simp add: word_less_nat_alt at_end_def)
  with n assms show ?thesis
    by (simp add: write_field_def checkDataSize_def at_end_def appended_def poke_def resize_def Let_def)
qed

lemma upcoming_split:
  assumes "upcoming (xs @ ys) p"
  shows "upcoming xs p" and "upcoming ys (advance (length xs) p)"
proof -
  have u: "unat (np_datasize p) = length (np_data p)" "unat (np_offset p) + length xs + length ys \<le> length (np_data p)"
    using assms by (simp_all add: upcoming_def)
  have o: "unat (np_offset p + of_nat (length xs)) = unat (np_offset p) + length xs"
    using u unat_u32_less [of "np_datasize p"] by (intro unat_add_of_nat) simp
  obtain rest where r: "drop (unat (np_offset p)) (np_data p) = xs @ ys @ rest"
    using assms by (auto simp: upcoming_def)
  then have "drop (unat (np_offset p) + length xs) (np_data p) = ys @ rest"
    by (metis add.commute append_eq_conv_conj drop_drop)
  with u o r show "upcoming xs p" "upcoming ys (advance (length xs) p)"
    by (auto simp: upcoming_def advance_def)
qed

lemma upcoming_check:
  assumes "upcoming bytes p"
  shows "checkReadOffset (np_offset p) (of_nat (length bytes)) p = Inr ()"
proof -
  have "unat (np_offset p + of_nat (length bytes)) = unat (np_offset p) + length bytes"
    using assms unat_u32_less [of "np_datasize p"] by (intro unat_add_of_nat) (simp add: upcoming_def)
  with assms show ?thesis
    by (simp add: checkReadOffset_def upcoming_def word_less_nat_alt)
qed

lemma read_field_upcoming:
  assumes "upcoming bytes p" and "unat n = length bytes" and "width = length bytes"
    and "\<And>rest. rd (bytes @ rest) = x"
  shows "read_field n width rd p = Inr (x, advance width p)"
proof -
  have "n = of_nat (length bytes)"
    using assms(2) by (metis of_nat_unat ucast_id)
  with assms(1,3,4) upcoming_check [OF assms(1)] show ?thesis
    by (auto simp: read_field_def upcoming_def advance_def)
qed

subsection \<open>The contract of a field\<close>

text \<open>
  What a writer and a reader of a field promise each other: the writer appends the bytes \<open>wire\<close>, the
  reader takes exactly these. \<open>kind\<close> is what the reader knows of the field, and the first argument of
  \<open>wire\<close> and \<open>valid\<close> is the protocol version. Sequences of fields follow.
\<close>

fun put_all :: "('a \<Rightarrow> packet \<Rightarrow> packet res) \<Rightarrow> 'a list \<Rightarrow> packet \<Rightarrow> packet res" where
  "put_all put [] p = Inr p"
| "put_all put (x # xs) p = rbind (put x p) (put_all put xs)"

fun get_all :: "('k \<Rightarrow> packet \<Rightarrow> ('a \<times> packet) res) \<Rightarrow> 'k list \<Rightarrow> packet \<Rightarrow> ('a list \<times> packet) res" where
  "get_all get [] p = Inr ([], p)"
| "get_all get (k # ks) p = rbind (get k p) (\<lambda>(x, p1). rbind (get_all get ks p1) (\<lambda>(xs, p2). Inr (x # xs, p2)))"

locale packet_field =
  fixes put :: "'a \<Rightarrow> packet \<Rightarrow> packet res" and get :: "'k \<Rightarrow> packet \<Rightarrow> ('a \<times> packet) res"
    and kind :: "'a \<Rightarrow> 'k" and wire :: "u16 \<Rightarrow> 'a \<Rightarrow> u8 list" and valid :: "u16 \<Rightarrow> 'a \<Rightarrow> bool"
  assumes put_wire: "valid (np_proto_ver p) x \<Longrightarrow> at_end p \<Longrightarrow> fits (length (wire (np_proto_ver p) x)) p \<Longrightarrow>
      put x p = Inr (appended (wire (np_proto_ver p) x) p)"
    and get_wire: "valid (np_proto_ver p) x \<Longrightarrow> upcoming (wire (np_proto_ver p) x) p \<Longrightarrow>
      get (kind x) p = Inr (x, advance (length (wire (np_proto_ver p) x)) p)"
begin

lemma put_all_wire:
  assumes "list_all (valid (np_proto_ver p)) xs" and "at_end p"
    and "fits (length (concat (map (wire (np_proto_ver p)) xs))) p"
  shows "put_all put xs p = Inr (appended (concat (map (wire (np_proto_ver p)) xs)) p)"
  using assms
proof (induction xs arbitrary: p)
  case (Cons x xs)
  let ?w = "wire (np_proto_ver p) x"
  have f: "fits (length ?w) p"
    by (rule fits_mono [OF Cons.prems(3)]) simp
  then have "put x p = Inr (appended ?w p)"
    using Cons.prems by (intro put_wire) auto
  with f Cons.IH [of "appended ?w p"] Cons.prems show ?case by simp
qed simp

lemma get_all_wire:
  assumes "list_all (valid (np_proto_ver p)) xs" and "upcoming (concat (map (wire (np_proto_ver p)) xs)) p"
  shows "get_all get (map kind xs) p = Inr (xs, advance (length (concat (map (wire (np_proto_ver p)) xs))) p)"
  using assms
proof (induction xs arbitrary: p)
  case (Cons x xs)
  let ?w = "wire (np_proto_ver p) x"
  have "upcoming ?w p" "upcoming (concat (map (wire (np_proto_ver p)) xs)) (advance (length ?w) p)"
    using upcoming_split [of ?w "concat (map (wire (np_proto_ver p)) xs)" p] Cons.prems(2) by simp_all
  with Cons.IH [of "advance (length ?w) p"] Cons.prems get_wire [of p x] show ?case
    by (simp add: add.commute)
qed simp

text \<open>A packet goes through a datagram: the fields come out as they were put in, and nothing is left.\<close>

lemma forged_packet:
  assumes ok: "list_all (valid v) xs" and size: "length (concat (map (wire v) xs)) < 4294967294" and "c \<noteq> 0"
  shows "\<exists>p raw. put_all put xs (packet_new c peer v) = Inr p \<and> oldForgePacket p = Inr raw \<and>
    (\<exists>q. putRawPacket raw peer' (packet_new 0 0 v) = Inr q \<and> np_command q = c \<and> np_peer_id q = peer' \<and>
      (\<exists>q'. get_all get (map kind xs) q = Inr (xs, q') \<and> getRemainingBytes q' = 0))"
proof -
  let ?bytes = "concat (map (wire v) xs)" and ?p = "packet_new c peer v"
  let ?raw = "writeU16 c @ ?bytes"
  have p: "put_all put xs ?p = Inr (appended ?bytes ?p)"
    using put_all_wire [of ?p xs] ok size by (simp add: packet_new_def at_end_def fits_def)
  have raw: "oldForgePacket (appended ?bytes ?p) = Inr ?raw"
    using \<open>c \<noteq> 0\<close> by (simp add: oldForgePacket_def packet_new_def)
  let ?q = "(packet_new 0 0 v)\<lparr>np_datasize := of_nat (length ?bytes), np_peer_id := peer', np_data := ?bytes, np_command := c\<rparr>"
  have q: "putRawPacket ?raw peer' (packet_new 0 0 v) = Inr ?q"
    by (simp add: putRawPacket_def packet_new_def)
  have "upcoming ?bytes ?q"
    using size by (simp add: upcoming_def packet_new_def unsigned_of_nat take_bit_nat_eq_self)
  then have "get_all get (map kind xs) ?q = Inr (xs, advance (length ?bytes) ?q)"
    using get_all_wire [of ?q xs] ok by (simp add: packet_new_def)
  moreover have "getRemainingBytes (advance (length ?bytes) ?q) = 0"
    by (simp add: getRemainingBytes_def advance_def packet_new_def)
  moreover have "np_command ?q = c" "np_peer_id ?q = peer'"
    by simp_all
  ultimately show ?thesis
    using p raw q by blast
qed

end

text \<open>Fields of a fixed width that are written and read at once.\<close>

locale fixed_field =
  fixes enc :: "'a \<Rightarrow> u8 list" and rd :: "u8 list \<Rightarrow> 'a" and n :: u32 and valid :: "'a \<Rightarrow> bool"
  assumes length_enc: "length (enc x) = unat n"
    and rd_enc: "valid x \<Longrightarrow> rd (enc x @ r) = x"
begin

lemma get_enc: "valid x \<Longrightarrow> upcoming (enc x) p \<Longrightarrow> read_field n (unat n) rd p = Inr (x, advance (unat n) p)"
  by (rule read_field_upcoming [of "enc x"]) (simp_all add: length_enc rd_enc)

lemma drop_enc: "drop (unat n) (enc x @ r) = r" "drop (unat n + m) (enc x @ r) = drop m r"
  by (simp_all add: length_enc)

end

sublocale fixed_field \<subseteq> packet_field "\<lambda>x p. Inr (write_field (enc x) p)" "\<lambda>_. read_field n (unat n) rd" "\<lambda>_. ()" "\<lambda>_. enc" "\<lambda>_. valid"
  by unfold_locales (simp_all add: write_field_append get_enc length_enc)

text \<open>Vectors: the components are written one after the other, and read at once.\<close>

lemma write_fields_append:
  assumes "at_end p" and "fits (length a + length b) p"
  shows "write_field b (write_field a p) = appended (a @ b) p"
proof -
  have "fits (length a) p" by (rule fits_mono [OF assms(2)]) simp
  with assms show ?thesis by (simp add: write_field_append)
qed

lemma write_fields3_append:
  assumes "at_end p" and "fits (length a + length b + length c) p"
  shows "write_field c (write_field b (write_field a p)) = appended (a @ b @ c) p"
proof -
  have "fits (length a + length b) p" by (rule fits_mono [OF assms(2)]) simp
  with assms show ?thesis by (simp add: write_fields_append [of p a b] write_field_append add.assoc)
qed

locale pair_field = fixed_field enc rd n valid
  for enc :: "'a \<Rightarrow> u8 list" and rd :: "u8 list \<Rightarrow> 'a" and n :: u32 and valid :: "'a \<Rightarrow> bool" +
  fixes rd2 :: "u8 list \<Rightarrow> 'a \<times> 'a" and n2 :: u32
  assumes n2: "unat n2 = unat n + unat n"
    and rd2: "rd2 data = (rd data, rd (drop (unat n) data))"

sublocale pair_field \<subseteq> pair: packet_field
  "\<lambda>v p. Inr (write_field (enc (snd v)) (write_field (enc (fst v)) p))" "\<lambda>_. read_field n2 (unat n2) rd2" "\<lambda>_. ()"
  "\<lambda>_ v. enc (fst v) @ enc (snd v)" "\<lambda>_ v. valid (fst v) \<and> valid (snd v)"
proof unfold_locales
  fix p :: packet and v :: "'a \<times> 'a"
  assume v: "valid (fst v) \<and> valid (snd v)"
  show "Inr (write_field (enc (snd v)) (write_field (enc (fst v)) p)) = Inr (appended (enc (fst v) @ enc (snd v)) p)"
    if "at_end p" "fits (length (enc (fst v) @ enc (snd v))) p"
    using write_fields_append [OF that(1)] that(2) by simp
  assume up: "upcoming (enc (fst v) @ enc (snd v)) p"
  have "rd2 ((enc (fst v) @ enc (snd v)) @ r) = v" for r
    using v by (simp add: rd2 rd_enc drop_enc del: drop_append)
  then show "read_field n2 (unat n2) rd2 p = Inr (v, advance (length (enc (fst v) @ enc (snd v))) p)"
    using read_field_upcoming [OF up, of n2 "unat n2" rd2 v] by (simp add: n2 length_enc)
qed

locale triple_field = fixed_field enc rd n valid
  for enc :: "'a \<Rightarrow> u8 list" and rd :: "u8 list \<Rightarrow> 'a" and n :: u32 and valid :: "'a \<Rightarrow> bool" +
  fixes rd3 :: "u8 list \<Rightarrow> 'v" and n3 :: u32 and c1 c2 c3 :: "'v \<Rightarrow> 'a" and mk :: "'a \<Rightarrow> 'a \<Rightarrow> 'a \<Rightarrow> 'v"
  assumes n3: "unat n3 = unat n + unat n + unat n"
    and rd3: "rd3 data = mk (rd data) (rd (drop (unat n) data)) (rd (drop (unat n + unat n) data))"
    and mk: "mk (c1 v) (c2 v) (c3 v) = v"

sublocale triple_field \<subseteq> triple: packet_field
  "\<lambda>v p. Inr (write_field (enc (c3 v)) (write_field (enc (c2 v)) (write_field (enc (c1 v)) p)))"
  "\<lambda>_. read_field n3 (unat n3) rd3" "\<lambda>_. ()"
  "\<lambda>_ v. enc (c1 v) @ enc (c2 v) @ enc (c3 v)" "\<lambda>_ v. valid (c1 v) \<and> valid (c2 v) \<and> valid (c3 v)"
proof unfold_locales
  fix p :: packet and v :: 'v
  assume v: "valid (c1 v) \<and> valid (c2 v) \<and> valid (c3 v)"
  show "Inr (write_field (enc (c3 v)) (write_field (enc (c2 v)) (write_field (enc (c1 v)) p))) =
      Inr (appended (enc (c1 v) @ enc (c2 v) @ enc (c3 v)) p)"
    if "at_end p" "fits (length (enc (c1 v) @ enc (c2 v) @ enc (c3 v))) p"
    using write_fields3_append [OF that(1)] that(2) by (simp add: add.assoc)
  assume up: "upcoming (enc (c1 v) @ enc (c2 v) @ enc (c3 v)) p"
  have "rd3 ((enc (c1 v) @ enc (c2 v) @ enc (c3 v)) @ r) = v" for r
    using v mk by (simp add: rd3 rd_enc drop_enc del: drop_append)
  then show "read_field n3 (unat n3) rd3 p = Inr (v, advance (length (enc (c1 v) @ enc (c2 v) @ enc (c3 v))) p)"
    using read_field_upcoming [OF up, of n3 "unat n3" rd3 v] by (simp add: n3 length_enc add.assoc)
qed

end
