(* ===== verification/PacketFields.thy ===== *)
theory PacketFields
  imports NetworkPacket
begin

section \<open>The fields of a packet\<close>

text \<open>
  Every type of field that \<^verbatim>\<open>NetworkPacket\<close> writes and reads meets the contract of \<open>packet_field\<close>. A
  handler of a command is a sequence of such fields; the values \<open>field\<close> stand for its writes, their
  \<open>kind\<close>s for its reads.
\<close>

interpretation bool_field: fixed_field "\<lambda>b. [if b then 1 else 0]" "\<lambda>d. hd d \<noteq> 0" 1 "\<lambda>_. True"
  by unfold_locales (auto split: if_splits)

interpretation u8_field: fixed_field "\<lambda>w. [w]" hd 1 "\<lambda>_. True"
  by unfold_locales auto

interpretation u16_field: fixed_field writeU16 readU16 2 "\<lambda>_. True"
  by unfold_locales auto

interpretation u32_field: fixed_field writeU32 readU32 4 "\<lambda>_. True"
  by unfold_locales auto

interpretation u64_field: fixed_field writeU64 readU64 8 "\<lambda>_. True"
  by unfold_locales auto

definition s16_ok :: "int \<Rightarrow> bool" where
  "s16_ok i \<longleftrightarrow> - 32768 \<le> i \<and> i \<le> 32767"

definition s32_ok :: "int \<Rightarrow> bool" where
  "s32_ok i \<longleftrightarrow> - 2147483648 \<le> i \<and> i \<le> 2147483647"

interpretation s16_field: fixed_field writeS16 readS16 2 s16_ok
  by unfold_locales (auto simp: s16_ok_def readS16_writeS16)

interpretation s32_field: fixed_field writeS32 readS32 4 s32_ok
  by unfold_locales (auto simp: s32_ok_def readS32_writeS32)

lemma put_s_bytes:
  "put_s16 i = write_field (writeS16 i)" "put_s32 i = write_field (writeS32 i)"
  by (simp_all add: put_s16_def put_s32_def put_u16_def put_u32_def writeS16_def writeS32_def)

interpretation char_field: fixed_field "\<lambda>c. [ord8 c]" "\<lambda>d. chr8 (hd d)" 1 "\<lambda>_. True"
  by unfold_locales auto

interpretation float_field: fixed_field writeF32 readF32 4 "\<lambda>_. True"
  by unfold_locales (auto simp: writeF32_def readF32_def)

interpretation double_field: fixed_field writeF64 readF64 8 "\<lambda>_. True"
  by unfold_locales (auto simp: writeF64_def readF64_def)

interpretation long_double_field: fixed_field writeF128 readF128 16 "\<lambda>_. True"
  by unfold_locales (auto simp: writeF128_def readF128_def)

subsection \<open>Vectors\<close>

definition v3_bytes :: "(int \<Rightarrow> u8 list) \<Rightarrow> v3 \<Rightarrow> u8 list" where
  "v3_bytes enc v = enc (vX v) @ enc (vY v) @ enc (vZ v)"

interpretation v2s32_field: pair_field writeS32 readS32 4 s32_ok readV2S32 8
  by unfold_locales (simp_all add: readV2S32_def)

interpretation v2f_field: pair_field writeF32 readF32 4 "\<lambda>_. True" dataV2F32 8
  by unfold_locales (simp_all add: dataV2F32_def)

interpretation v3s16_field: triple_field writeS16 readS16 2 s16_ok readV3S16 6 vX vY vZ mk_v3
  by unfold_locales (simp_all add: readV3S16_def)

interpretation v3s32_field: triple_field writeS32 readS32 4 s32_ok readV3S32 12 vX vY vZ mk_v3
  by unfold_locales (simp_all add: readV3S32_def)

interpretation v3f_field: triple_field writeF32 readF32 4 "\<lambda>_. True" dataV3F32 12 fst "\<lambda>v. fst (snd v)" "\<lambda>v. snd (snd v)" "\<lambda>x y z. (x, y, z)"
  by unfold_locales (simp_all add: dataV3F32_def)

interpretation v3d_field: triple_field writeF64 readF64 8 "\<lambda>_. True" readV3F64 24 fst "\<lambda>v. fst (snd v)" "\<lambda>v. snd (snd v)" "\<lambda>x y z. (x, y, z)"
  by unfold_locales (simp_all add: readV3F64_def)

interpretation v3f128_field: triple_field writeF128 readF128 16 "\<lambda>_. True" readV3F128 48 fst "\<lambda>v. fst (snd v)" "\<lambda>v. snd (snd v)" "\<lambda>x y z. (x, y, z)"
  by unfold_locales (simp_all add: readV3F128_def)

lemmas vector_puts = put_v2s32_def put_v3s16_def put_v3s32_def put_v2f_def put_v3f_def put_v3f128_def put_s_bytes
  put_float_def put_double_def put_long_double_def v3_bytes_def case_prod_beta

lemmas vector_gets = get_v2s32_def get_v3s16_def get_v3s32_def get_v2f_def get_v3f_def get_v3f128_def

text \<open>Positions fit when the peer knows their width, or when they are small.\<close>

definition old_protocol :: "u16 \<Rightarrow> bool" where
  "old_protocol v \<longleftrightarrow> v < PROTOCOL_VERSION_32BIT"

definition pos_ok :: "u16 \<Rightarrow> int \<Rightarrow> bool" where
  "pos_ok v i \<longleftrightarrow> (if old_protocol v then s16_ok i else s32_ok i)"

definition pos_bytes :: "u16 \<Rightarrow> int \<Rightarrow> u8 list" where
  "pos_bytes v = (if old_protocol v then writeS16 else writeS32)"

interpretation pos_field: packet_field "\<lambda>i p. Inr (put_pos i p)" "\<lambda>_. get_pos" "\<lambda>_. ()" pos_bytes pos_ok
proof unfold_locales
  fix p :: packet and i :: int
  show "Inr (put_pos i p) = Inr (appended (pos_bytes (np_proto_ver p) i) p)"
    if "at_end p" "fits (length (pos_bytes (np_proto_ver p) i)) p"
    using that write_field_append [of p "writeS16 i"] write_field_append [of p "writeS32 i"]
    by (simp add: put_pos_def pos_bytes_def old_protocol_def put_s_bytes flip: put_s16_def split: if_splits)
  show "get_pos p = Inr (i, advance (length (pos_bytes (np_proto_ver p) i)) p)"
    if "pos_ok (np_proto_ver p) i" "upcoming (pos_bytes (np_proto_ver p) i) p"
    using that s16_field.get_enc [of i p] s32_field.get_enc [of i p]
    by (simp add: get_pos_def pos_bytes_def pos_ok_def old_protocol_def get_s16_def get_s32_def split: if_splits)
qed

interpretation v3pos_field: packet_field "\<lambda>v p. Inr (put_v3pos v p)" "\<lambda>_. get_v3pos" "\<lambda>_. ()"
    "\<lambda>v. v3_bytes (pos_bytes v)" "\<lambda>v x. pos_ok v (vX x) \<and> pos_ok v (vY x) \<and> pos_ok v (vZ x)"
proof unfold_locales
  fix p :: packet and x :: v3
  let ?v = "np_proto_ver p"
  assume ok: "pos_ok ?v (vX x) \<and> pos_ok ?v (vY x) \<and> pos_ok ?v (vZ x)"
  have same: "posToS16 x = x" if "old_protocol ?v"
    using ok that by (simp add: posToS16_def pos_ok_def s16_ok_def to_s16_id)
  show "Inr (put_v3pos x p) = Inr (appended (v3_bytes (pos_bytes ?v) x) p)"
    if "at_end p" "fits (length (v3_bytes (pos_bytes ?v) x)) p"
    using v3s16_field.triple.put_wire [where p = p and x = x] v3s32_field.triple.put_wire [where p = p and x = x] that ok same
    by (simp add: vector_puts put_v3pos_def pos_bytes_def pos_ok_def old_protocol_def split: if_splits)
  show "get_v3pos p = Inr (x, advance (length (v3_bytes (pos_bytes ?v) x)) p)"
    if "upcoming (v3_bytes (pos_bytes ?v) x) p"
    using v3s16_field.triple.get_wire [where p = p and x = x] v3s32_field.triple.get_wire [where p = p and x = x] that ok
    by (simp add: vector_gets v3_bytes_def get_v3pos_def pos_bytes_def pos_ok_def old_protocol_def split: if_splits)
qed

text \<open>
  Positions of objects are sent in single precision to a peer with the old protocol: they fit when
  the conversion and the one on the other side give the same number.
\<close>

definition opos_bytes :: "float_ops \<Rightarrow> u16 \<Rightarrow> v3opos \<Rightarrow> u8 list" where
  "opos_bytes fl v x =
     (if old_protocol v
      then case oposToV3f fl x of (a, b, c) \<Rightarrow> writeF32 a @ writeF32 b @ writeF32 c
      else case x of (a, b, c) \<Rightarrow> writeF64 a @ writeF64 b @ writeF64 c)"

definition opos_ok :: "float_ops \<Rightarrow> u16 \<Rightarrow> v3opos \<Rightarrow> bool" where
  "opos_ok fl v x \<longleftrightarrow> old_protocol v \<longrightarrow> v3fToOpos fl (oposToV3f fl x) = x"

interpretation opos_field: packet_field "\<lambda>x p. Inr (put_v3opos fl x p)" "\<lambda>_. get_v3opos fl" "\<lambda>_. ()" "opos_bytes fl" "opos_ok fl"
  for fl
proof unfold_locales
  fix p :: packet and x :: v3opos
  let ?v = "np_proto_ver p" and ?f = "oposToV3f fl x"
  show "Inr (put_v3opos fl x p) = Inr (appended (opos_bytes fl ?v x) p)"
    if "at_end p" "fits (length (opos_bytes fl ?v x)) p"
    using that v3f_field.triple.put_wire [where p = p and x = ?f] v3d_field.triple.put_wire [where p = p and x = x]
    by (cases "old_protocol ?v") (simp_all add: put_v3opos_def opos_bytes_def old_protocol_def vector_puts)
  assume ok: "opos_ok fl ?v x" and up: "upcoming (opos_bytes fl ?v x) p"
  show "get_v3opos fl p = Inr (x, advance (length (opos_bytes fl ?v x)) p)"
    using ok up v3f_field.triple.get_wire [where p = p and x = ?f] v3d_field.triple.get_wire [where p = p and x = x]
    by (cases "old_protocol ?v")
      (simp_all add: get_v3opos_def opos_bytes_def opos_ok_def old_protocol_def vector_gets case_prod_beta)
qed

lemma putRawString_append:
  assumes "at_end p" and "fits (length bytes) p"
  shows "putRawString bytes p = appended bytes p"
  using assms write_field_append [OF assms]
  by (auto simp: putRawString_def checkDataSize_def at_end_def)

text \<open>Raw bytes, of a number that the reader knows.\<close>

interpretation raw_field: packet_field "\<lambda>bs p. Inr (putRawString bs p)" "\<lambda>n. readRawString n" "\<lambda>bs. of_nat (length bs)"
    "\<lambda>_ bs. bs" "\<lambda>_ bs. length bs < 4294967296"
proof unfold_locales
  fix p :: packet and bs :: "u8 list"
  assume len: "length bs < 4294967296"
  show "Inr (putRawString bs p) = Inr (appended bs p)" if "at_end p" "fits (length bs) p"
    using putRawString_append [OF that] by simp
  show "readRawString (of_nat (length bs)) p = Inr (bs, advance (length bs) p)" if up: "upcoming bs p"
  proof -
    have n: "unat (of_nat (length bs) :: u32) = length bs"
      using len by (simp add: unsigned_of_nat take_bit_nat_eq_self)
    show ?thesis
      using upcoming_check [OF up] read_field_upcoming [OF up, of "of_nat (length bs)" "length bs" "take (length bs)" bs] n
      by (cases "bs = []") (auto simp: readRawString_def)
  qed
qed

subsection \<open>Strings\<close>

definition string_bytes :: "string \<Rightarrow> u8 list" where
  "string_bytes s = writeU16 (of_nat (length s)) @ map ord8 s"

definition long_string_bytes :: "string \<Rightarrow> u8 list" where
  "long_string_bytes s = writeU32 (of_nat (length s)) @ map ord8 s"

lemma put_then_raw:
  assumes "at_end p" and "fits (length a + length b) p"
  shows "putRawString b (write_field a p) = appended (a @ b) p"
proof -
  have "fits (length a) p" by (rule fits_mono [OF assms(2)]) simp
  with assms show ?thesis by (simp add: write_field_append putRawString_append)
qed

interpretation string_field: packet_field put_string "\<lambda>_. get_string" "\<lambda>_. ()" "\<lambda>_. string_bytes" "\<lambda>_ s. length s \<le> STRING_MAX_LEN"
proof unfold_locales
  fix p :: packet and s :: string
  assume len: "length s \<le> STRING_MAX_LEN"
  show "put_string s p = Inr (appended (string_bytes s) p)" if "at_end p" "fits (length (string_bytes s)) p"
    using put_then_raw [OF that(1), of "writeU16 (of_nat (length s))" "map ord8 s"] that(2) len
    by (simp add: put_string_def put_u16_def string_bytes_def)
  assume up: "upcoming (string_bytes s) p"
  let ?n = "of_nat (length s) :: u16"
  have n: "unat ?n = length s"
    using len by (simp add: STRING_MAX_LEN_def unsigned_of_nat take_bit_nat_eq_self)
  note parts = upcoming_split [OF up [unfolded string_bytes_def]]
  have 1: "get_u16 p = Inr (?n, advance 2 p)"
    using u16_field.get_enc [OF _ parts(1)] by (simp add: get_u16_def)
  have 2: "read_field (ucast ?n) (unat ?n) (take (unat ?n)) (advance 2 p) = Inr (map ord8 s, advance (length s) (advance 2 p))"
    using read_field_upcoming [of "map ord8 s" "advance 2 p" "ucast ?n" "unat ?n" "take (unat ?n)" "map ord8 s"] parts(2) n
    by (simp add: unat_ucast_u32)
  show "get_string p = Inr (s, advance (length (string_bytes s)) p)"
  proof (cases "s = []")
    case True
    with 1 show ?thesis by (simp add: get_string_def string_bytes_def)
  next
    case False
    then have "?n \<noteq> 0" using n by auto
    with 1 2 show ?thesis by (simp add: get_string_def string_bytes_def add.commute del: map_map)
  qed
qed

interpretation long_string_field: packet_field putLongString "\<lambda>_. readLongString" "\<lambda>_. ()" "\<lambda>_. long_string_bytes" "\<lambda>_ s. length s \<le> LONG_STRING_MAX_LEN"
proof unfold_locales
  fix p :: packet and s :: string
  assume len: "length s \<le> LONG_STRING_MAX_LEN"
  show "putLongString s p = Inr (appended (long_string_bytes s) p)" if "at_end p" "fits (length (long_string_bytes s)) p"
    using put_then_raw [OF that(1), of "writeU32 (of_nat (length s))" "map ord8 s"] that(2) len
    by (simp add: putLongString_def put_u32_def long_string_bytes_def)
  assume up: "upcoming (long_string_bytes s) p"
  let ?n = "of_nat (length s) :: u32"
  have n: "unat ?n = length s"
    using len by (simp add: LONG_STRING_MAX_LEN_def unsigned_of_nat take_bit_nat_eq_self)
  note parts = upcoming_split [OF up [unfolded long_string_bytes_def]]
  have 1: "get_u32 p = Inr (?n, advance 4 p)"
    using u32_field.get_enc [OF _ parts(1)] by (simp add: get_u32_def)
  have 2: "read_field ?n (unat ?n) (take (unat ?n)) (advance 4 p) = Inr (map ord8 s, advance (length s) (advance 4 p))"
    using read_field_upcoming [of "map ord8 s" "advance 4 p" ?n "unat ?n" "take (unat ?n)" "map ord8 s"] parts(2) n
    by simp
  show "readLongString p = Inr (s, advance (length (long_string_bytes s)) p)"
  proof (cases "s = []")
    case True
    with 1 show ?thesis by (simp add: readLongString_def long_string_bytes_def)
  next
    case False
    then have "?n \<noteq> 0" using n by auto
    with 1 2 n len show ?thesis by (simp add: readLongString_def long_string_bytes_def add.commute del: map_map)
  qed
qed

subsection \<open>Wide strings\<close>

text \<open>
  The units of a character, and the characters that survive: all code points but the high
  surrogates, which the reader joins with the unit behind them.
\<close>

definition utf16 :: "int \<Rightarrow> u16 list" where
  "utf16 c = (if c > 0xffff
     then [word_of_int (or 0xD800 (drop_bit 10 (c - 0x10000))), word_of_int (or 0xDC00 (and (c - 0x10000) 0x3ff))]
     else [word_of_int c])"

definition wide_ok :: "int \<Rightarrow> bool" where
  "wide_ok c \<longleftrightarrow> 0 \<le> c \<and> c \<le> 0x10FFFF \<and> \<not> (0xD800 \<le> c \<and> c < 0xDC00)"

definition unit_bytes :: "u16 list \<Rightarrow> u8 list" where
  "unit_bytes us = concat (map writeU16 us)"

definition utf16s :: "int list \<Rightarrow> u16 list" where
  "utf16s cs = concat (map utf16 cs)"

lemma or_high:
  fixes x :: int
  assumes "0 \<le> x" and "x < 1024"
  shows "or (a * 1024) x = a * 1024 + x" and "take_bit 10 (a * 1024 + x) = x"
proof -
  have x: "x = take_bit 10 x"
    using assms by (simp add: take_bit_int_eq_self)
  have "\<not> bit (a * 1024) n \<or> \<not> bit x n" for n
  proof (cases "n < 10")
    case True
    have "a * 1024 = push_bit 10 a" by (simp add: push_bit_eq_mult)
    with True show ?thesis by (simp add: bit_push_bit_iff)
  next
    case False
    then show ?thesis by (subst x) (simp add: bit_take_bit_iff)
  qed
  then have "and (a * 1024) x = 0"
    by (intro bit_eqI) (simp add: bit_and_iff)
  then show "or (a * 1024) x = a * 1024 + x"
    by (simp add: disjunctive_add_eq_or)
  show "take_bit 10 (a * 1024 + x) = x"
    using assms by (simp add: take_bit_eq_mod mod_add_eq [symmetric])
qed

lemma surrogates:
  assumes "0xffff < c" and "c \<le> 0x10FFFF"
  obtains hi lo where "utf16 c = [hi, lo]" and "0xD800 \<le> hi" and "hi < 0xDC00"
    and "0x10000 + or (push_bit 10 (and (uint hi) 0x3ff)) (and (uint lo) 0x3ff) = c"
proof -
  let ?n = "c - 0x10000"
  have n: "0 \<le> ?n" "?n < 1024 * 1024" using assms by simp_all
  have h: "drop_bit 10 ?n = ?n div 1024" and l: "and ?n 0x3ff = ?n mod 1024"
    using take_bit_eq_mask [of 10 ?n] by (simp_all add: drop_bit_eq_div take_bit_eq_mod mask_eq_exp_minus_1 and.commute)
  have b: "0 \<le> ?n div 1024" "?n div 1024 < 1024" "0 \<le> ?n mod 1024" "?n mod 1024 < 1024"
    using n by auto
  let ?hi = "word_of_int (or 0xD800 (drop_bit 10 ?n)) :: u16" and ?lo = "word_of_int (or 0xDC00 (and ?n 0x3ff)) :: u16"
  have small: "uint (word_of_int k :: u16) = k" if "0 \<le> k" "k < 65536" for k
    using that by (simp add: uint_word_of_int)
  have e: "or 0xD800 (drop_bit 10 ?n) = 54 * 1024 + ?n div 1024" "or 0xDC00 (and ?n 0x3ff) = 55 * 1024 + ?n mod 1024"
    using or_high(1) [OF b(1,2), of 54] or_high(1) [OF b(3,4), of 55] by (simp_all add: h l)
  have hi: "uint ?hi = 54 * 1024 + ?n div 1024" and lo: "uint ?lo = 55 * 1024 + ?n mod 1024"
    unfolding e by (rule small; use b in linarith)+
  have m: "and x 0x3ff = take_bit 10 x" for x :: int
    using take_bit_eq_mask [of 10 x] by (simp add: mask_eq_exp_minus_1)
  have "or (push_bit 10 (and (uint ?hi) 0x3ff)) (and (uint ?lo) 0x3ff) = ?n"
    unfolding hi lo using or_high(1) [OF b(3,4), of "?n div 1024"]
    by (simp only: m or_high(2) [OF b(1,2)] or_high(2) [OF b(3,4)]) (simp add: push_bit_eq_mult)
  then show thesis
    using assms(1) hi b by (intro that [of ?hi ?lo]) (simp_all add: utf16_def word_le_def word_less_def)
qed

lemma unit_bytes_simps [simp]:
  "unit_bytes [] = []" "unit_bytes (u # us) = writeU16 u @ unit_bytes us"
  "unit_bytes (us @ vs) = unit_bytes us @ unit_bytes vs" "length (unit_bytes us) = 2 * length us"
  by (simp_all add: unit_bytes_def, induction us) simp_all

lemma utf16s_simps [simp]: "utf16s [] = []" "utf16s (c # cs) = utf16 c @ utf16s cs"
  by (simp_all add: utf16s_def)

lemma write_units_append:
  "at_end p \<Longrightarrow> fits (2 * length (utf16s cs)) p \<Longrightarrow>
    write_units cs p = (length (utf16s cs), appended (unit_bytes (utf16s cs)) p)"
proof (induction cs arbitrary: p)
  case (Cons c cs)
  let ?u = "unit_bytes (utf16 c)"
  have f: "fits (length ?u) p"
    by (rule fits_mono [OF Cons.prems(2)]) simp
  then have IH: "write_units cs (appended ?u p) = (length (utf16s cs), appended (unit_bytes (utf16s cs)) (appended ?u p))"
    using Cons.prems by (intro Cons.IH) (simp_all add: algebra_simps)
  have one: "put_u16 w p = appended (writeU16 w) p" if "fits 2 p" for w
    using write_field_append [OF Cons.prems(1)] that by (simp add: put_u16_def)
  have two: "put_u16 v (put_u16 w p) = appended (writeU16 w @ writeU16 v) p" if "fits 4 p" for v w
    using write_fields_append [OF Cons.prems(1), of "writeU16 w" "writeU16 v"] that by (simp add: put_u16_def)
  show ?case
    using IH f one two by (simp add: utf16_def Let_def split: if_splits)
qed simp

lemma read_units_upcoming:
  assumes "list_all wide_ok cs" and "upcoming (unit_bytes (utf16s cs)) p"
  shows "read_units (length (utf16s cs)) p = Inr (cs, advance (2 * length (utf16s cs)) p)"
  using assms
proof (induction cs arbitrary: p)
  case (Cons c cs)
  have unit: "fetch (unat (np_offset q)) 2 readU16 (np_data q) = Inr w" if "upcoming (writeU16 w @ ys) q" for w q ys
    using that by (auto simp: upcoming_def fetch_def)
  have adv: "q\<lparr>np_offset := np_offset q + 2\<rparr> = advance 2 q" for q
    by (simp add: advance_def)
  show ?case
  proof (cases "c > 0xffff")
    case True
    then obtain hi lo where u: "utf16 c = [hi, lo]" "0xD800 \<le> hi" "hi < 0xDC00"
      "0x10000 + or (push_bit 10 (and (uint hi) 0x3ff)) (and (uint lo) 0x3ff) = c"
      using Cons.prems(1) by (auto simp: wide_ok_def intro: surrogates [of c])
    have up: "upcoming (writeU16 hi @ writeU16 lo @ unit_bytes (utf16s cs)) p"
      using Cons.prems(2) u(1) by simp
    note s1 = upcoming_split(2) [OF up]
    note s2 = upcoming_split(2) [OF s1]
    have "read_units (length (utf16s cs)) (advance 4 p) = Inr (cs, advance (2 * length (utf16s cs)) (advance 4 p))"
      using s2 Cons.prems(1) by (intro Cons.IH) simp_all
    moreover have "4 + 2 * k = Suc (Suc (Suc (Suc (2 * k))))" for k :: nat by simp
    ultimately show ?thesis
      using u unit [OF up] unit [OF s1] by (simp add: adv add.commute)
  next
    case False
    then have c: "utf16 c = [word_of_int c]" "uint (word_of_int c :: u16) = c" "\<not> (0xD800 \<le> c \<and> c < 0xDC00)"
      using Cons.prems(1) by (simp_all add: utf16_def wide_ok_def uint_word_of_int)
    have up: "upcoming (writeU16 (word_of_int c) @ unit_bytes (utf16s cs)) p"
      using Cons.prems(2) c(1) by simp
    note s = upcoming_split(2) [OF up]
    have "read_units (length (utf16s cs)) (advance 2 p) = Inr (cs, advance (2 * length (utf16s cs)) (advance 2 p))"
      using s Cons.prems(1) by (intro Cons.IH) simp_all
    moreover have "\<not> (0xD800 \<le> (word_of_int c :: u16) \<and> (word_of_int c :: u16) < 0xDC00)"
      using c(2,3) by (simp add: word_le_def word_less_def)
    ultimately show ?thesis
      using c unit [OF up] by (auto simp: adv Let_def)
  qed
qed simp

definition wstring_bytes :: "int list \<Rightarrow> u8 list" where
  "wstring_bytes cs = writeU16 (of_nat (length (utf16s cs))) @ unit_bytes (utf16s cs)"

definition wstring_ok :: "int list \<Rightarrow> bool" where
  "wstring_ok cs \<longleftrightarrow> list_all wide_ok cs \<and> length (utf16s cs) \<le> WIDE_STRING_MAX_LEN"

lemma length_utf16s: "length cs \<le> length (utf16s cs)"
  by (induction cs) (simp_all add: utf16_def)

interpretation wstring_field: packet_field put_wstring "\<lambda>_. get_wstring" "\<lambda>_. ()" "\<lambda>_. wstring_bytes" "\<lambda>_. wstring_ok"
proof unfold_locales
  fix p :: packet and cs :: "int list"
  assume ok: "wstring_ok cs"
  let ?us = "utf16s cs"
  let ?n = "of_nat (length ?us) :: u16"
  have len: "length cs \<le> WIDE_STRING_MAX_LEN" "length ?us \<le> WIDE_STRING_MAX_LEN"
    using ok length_utf16s [of cs] by (simp_all add: wstring_ok_def)
  show "put_wstring cs p = Inr (appended (wstring_bytes cs) p)" if e: "at_end p" and f: "fits (length (wstring_bytes cs)) p"
  proof (cases "cs = []")
    case True
    with e f show ?thesis
      by (simp add: put_wstring_def put_u16_def wstring_bytes_def write_field_append)
  next
    case False
    have f': "fits 2 p" "fits (2 + 2 * length ?us) p"
      using f fits_mono [of _ p 2] by (auto simp: wstring_bytes_def intro: fits_mono)
    let ?p1 = "appended (writeU16 0xfff0) p"
    have "put_u16 0xfff0 p = ?p1"
      using write_field_append [OF e] f'(1) by (simp add: put_u16_def)
    moreover have "write_units cs ?p1 = (length ?us, appended (unit_bytes ?us) ?p1)"
      using e f' by (intro write_units_append) simp_all
    moreover have "unat (np_offset p) = length (np_data p)"
      using e by (simp add: at_end_def)
    ultimately show ?thesis
      using False len by (simp add: put_wstring_def appended_def wstring_bytes_def poke_def)
  qed
  assume up: "upcoming (wstring_bytes cs) p"
  have n: "unat ?n = length ?us"
    using len by (simp add: WIDE_STRING_MAX_LEN_def unsigned_of_nat take_bit_nat_eq_self)
  note parts = upcoming_split [OF up [unfolded wstring_bytes_def]]
  have 1: "get_u16 p = Inr (?n, advance 2 p)"
    using u16_field.get_enc [OF _ parts(1)] by (simp add: get_u16_def)
  have "(ucast ?n :: u32) = of_nat (unat ?n)"
    by (simp only: of_nat_unat)
  then have "(ucast ?n :: u32) = of_nat (length ?us)"
    unfolding n .
  then have "of_nat (length (unit_bytes ?us)) = (ucast ?n * 2 :: u32)"
    by (simp add: mult.commute del: of_nat_unat)
  then have 2: "checkReadOffset (np_offset (advance 2 p)) (ucast ?n * 2) (advance 2 p) = Inr ()"
    using upcoming_check [OF parts(2)] by simp
  have 3: "read_units (unat ?n) (advance 2 p) = Inr (cs, advance (2 * length ?us) (advance 2 p))"
    using read_units_upcoming [of cs "advance 2 p"] parts(2) ok n by (simp add: wstring_ok_def)
  show "get_wstring p = Inr (cs, advance (length (wstring_bytes cs)) p)"
  proof (cases "?us = []")
    case True
    then have "cs = []" using length_utf16s [of cs] by simp
    with 1 True show ?thesis by (simp add: get_wstring_def wstring_bytes_def)
  next
    case False
    then have "?n \<noteq> 0" using n by auto
    with 1 2 3 show ?thesis by (simp add: get_wstring_def wstring_bytes_def add.commute)
  qed
qed

subsection \<open>All kinds of fields\<close>

text \<open>
  All the types that \<open>operator<<\<close> and \<open>operator>>\<close> are there for in the default build, positions,
  long strings and raw bytes. \<open>fl\<close> is the conversion between single and double precision, which
  the positions of objects need.
\<close>

datatype field =
    FBool bool | FChar char | FU8 u8 | FU16 u16 | FU32 u32 | FU64 u64 | FS16 int | FS32 int | FS64 int
    | FFloat f32 | FDouble f64 | FLongDouble f128 | FColor u32 | FV2S32 "int \<times> int" | FV2F v2f
    | FV3S16 v3 | FV3S32 v3 | FV3S64 v3 | FV3F v3f | FV3F128 v3f128 | FPos int | FV3Pos v3
    | FV3OPos v3opos | FString string | FLongString string | FWString "int list" | FRaw "u8 list"

datatype kind =
    KBool | KChar | KU8 | KU16 | KU32 | KU64 | KS16 | KS32 | KS64 | KFloat | KDouble | KLongDouble
    | KColor | KV2S32 | KV2F | KV3S16 | KV3S32 | KV3S64 | KV3F | KV3F128 | KPos | KV3Pos | KV3OPos
    | KString | KLongString | KWString | KRaw u32

fun kind_of :: "field \<Rightarrow> kind" where
  "kind_of (FBool _) = KBool" | "kind_of (FChar _) = KChar" | "kind_of (FU8 _) = KU8"
  | "kind_of (FU16 _) = KU16" | "kind_of (FU32 _) = KU32" | "kind_of (FU64 _) = KU64"
  | "kind_of (FS16 _) = KS16" | "kind_of (FS32 _) = KS32" | "kind_of (FS64 _) = KS64"
  | "kind_of (FFloat _) = KFloat" | "kind_of (FDouble _) = KDouble"
  | "kind_of (FLongDouble _) = KLongDouble" | "kind_of (FColor _) = KColor"
  | "kind_of (FV2S32 _) = KV2S32" | "kind_of (FV2F _) = KV2F" | "kind_of (FV3S16 _) = KV3S16"
  | "kind_of (FV3S32 _) = KV3S32" | "kind_of (FV3S64 _) = KV3S64" | "kind_of (FV3F _) = KV3F"
  | "kind_of (FV3F128 _) = KV3F128" | "kind_of (FPos _) = KPos" | "kind_of (FV3Pos _) = KV3Pos"
  | "kind_of (FV3OPos _) = KV3OPos" | "kind_of (FString _) = KString"
  | "kind_of (FLongString _) = KLongString" | "kind_of (FWString _) = KWString"
  | "kind_of (FRaw x) = KRaw (of_nat (length x))"

fun put_field :: "float_ops \<Rightarrow> field \<Rightarrow> packet \<Rightarrow> packet res" where
  "put_field fl (FBool x) p = Inr (put_bool x p)"
| "put_field fl (FChar x) p = Inr (put_char x p)"
| "put_field fl (FU8 x) p = Inr (put_u8 x p)"
| "put_field fl (FU16 x) p = Inr (put_u16 x p)"
| "put_field fl (FU32 x) p = Inr (put_u32 x p)"
| "put_field fl (FU64 x) p = Inr (put_u64 x p)"
| "put_field fl (FS16 x) p = Inr (put_s16 x p)"
| "put_field fl (FS32 x) p = Inr (put_s32 x p)"
| "put_field fl (FS64 x) p = Inr (put_s64 x p)"
| "put_field fl (FFloat x) p = Inr (put_float x p)"
| "put_field fl (FDouble x) p = Inr (put_double x p)"
| "put_field fl (FLongDouble x) p = Inr (put_long_double x p)"
| "put_field fl (FColor x) p = Inr (put_color x p)"
| "put_field fl (FV2S32 x) p = Inr (put_v2s32 x p)"
| "put_field fl (FV2F x) p = Inr (put_v2f x p)"
| "put_field fl (FV3S16 x) p = Inr (put_v3s16 x p)"
| "put_field fl (FV3S32 x) p = Inr (put_v3s32 x p)"
| "put_field fl (FV3S64 x) p = Inr (put_v3s64 x p)"
| "put_field fl (FV3F x) p = Inr (put_v3f x p)"
| "put_field fl (FV3F128 x) p = Inr (put_v3f128 x p)"
| "put_field fl (FPos x) p = Inr (put_pos x p)"
| "put_field fl (FV3Pos x) p = Inr (put_v3pos x p)"
| "put_field fl (FV3OPos x) p = Inr (put_v3opos fl x p)"
| "put_field fl (FString x) p = put_string x p"
| "put_field fl (FLongString x) p = putLongString x p"
| "put_field fl (FWString x) p = put_wstring x p"
| "put_field fl (FRaw x) p = Inr (putRawString x p)"

definition as_field :: "('a \<Rightarrow> field) \<Rightarrow> ('a \<times> packet) res \<Rightarrow> (field \<times> packet) res" where
  "as_field f r = rbind r (\<lambda>(x, p). Inr (f x, p))"

fun get_field :: "float_ops \<Rightarrow> kind \<Rightarrow> packet \<Rightarrow> (field \<times> packet) res" where
  "get_field fl KBool p = as_field FBool (get_bool p)"
| "get_field fl KChar p = as_field FChar (get_char p)"
| "get_field fl KU8 p = as_field FU8 (get_u8 p)"
| "get_field fl KU16 p = as_field FU16 (get_u16 p)"
| "get_field fl KU32 p = as_field FU32 (get_u32 p)"
| "get_field fl KU64 p = as_field FU64 (get_u64 p)"
| "get_field fl KS16 p = as_field FS16 (get_s16 p)"
| "get_field fl KS32 p = as_field FS32 (get_s32 p)"
| "get_field fl KS64 p = as_field FS64 (get_s64 p)"
| "get_field fl KFloat p = as_field FFloat (get_float p)"
| "get_field fl KDouble p = as_field FDouble (get_double p)"
| "get_field fl KLongDouble p = as_field FLongDouble (get_long_double p)"
| "get_field fl KColor p = as_field FColor (get_color p)"
| "get_field fl KV2S32 p = as_field FV2S32 (get_v2s32 p)"
| "get_field fl KV2F p = as_field FV2F (get_v2f p)"
| "get_field fl KV3S16 p = as_field FV3S16 (get_v3s16 p)"
| "get_field fl KV3S32 p = as_field FV3S32 (get_v3s32 p)"
| "get_field fl KV3S64 p = as_field FV3S64 (get_v3s64 p)"
| "get_field fl KV3F p = as_field FV3F (get_v3f p)"
| "get_field fl KV3F128 p = as_field FV3F128 (get_v3f128 p)"
| "get_field fl KPos p = as_field FPos (get_pos p)"
| "get_field fl KV3Pos p = as_field FV3Pos (get_v3pos p)"
| "get_field fl KV3OPos p = as_field FV3OPos (get_v3opos fl p)"
| "get_field fl KString p = as_field FString (get_string p)"
| "get_field fl KLongString p = as_field FLongString (readLongString p)"
| "get_field fl KWString p = as_field FWString (get_wstring p)"
| "get_field fl (KRaw n) p = as_field FRaw (readRawString n p)"

fun field_bytes :: "float_ops \<Rightarrow> u16 \<Rightarrow> field \<Rightarrow> u8 list" where
  "field_bytes fl v (FBool x) = [if x then 1 else 0]"
| "field_bytes fl v (FChar x) = [ord8 x]"
| "field_bytes fl v (FU8 x) = [x]"
| "field_bytes fl v (FU16 x) = writeU16 x"
| "field_bytes fl v (FU32 x) = writeU32 x"
| "field_bytes fl v (FU64 x) = writeU64 x"
| "field_bytes fl v (FS16 x) = writeS16 x"
| "field_bytes fl v (FS32 x) = writeS32 x"
| "field_bytes fl v (FS64 x) = writeS64 x"
| "field_bytes fl v (FFloat x) = writeF32 x"
| "field_bytes fl v (FDouble x) = writeF64 x"
| "field_bytes fl v (FLongDouble x) = writeF128 x"
| "field_bytes fl v (FColor x) = writeU32 x"
| "field_bytes fl v (FV2S32 x) = writeS32 (fst x) @ writeS32 (snd x)"
| "field_bytes fl v (FV2F x) = writeF32 (fst x) @ writeF32 (snd x)"
| "field_bytes fl v (FV3S16 x) = v3_bytes writeS16 x"
| "field_bytes fl v (FV3S32 x) = v3_bytes writeS32 x"
| "field_bytes fl v (FV3S64 x) = v3_bytes writeS64 x"
| "field_bytes fl v (FV3F x) = writeF32 (fst x) @ writeF32 (fst (snd x)) @ writeF32 (snd (snd x))"
| "field_bytes fl v (FV3F128 x) = writeF128 (fst x) @ writeF128 (fst (snd x)) @ writeF128 (snd (snd x))"
| "field_bytes fl v (FPos x) = pos_bytes v x"
| "field_bytes fl v (FV3Pos x) = v3_bytes (pos_bytes v) x"
| "field_bytes fl v (FV3OPos x) = opos_bytes fl v x"
| "field_bytes fl v (FString x) = string_bytes x"
| "field_bytes fl v (FLongString x) = long_string_bytes x"
| "field_bytes fl v (FWString x) = wstring_bytes x"
| "field_bytes fl v (FRaw x) = x"

text \<open>
  The fields that come back: numbers within their width, strings within their limits, and neither
  of the two types whose readers do not fit their writers.
\<close>

fun field_ok :: "float_ops \<Rightarrow> u16 \<Rightarrow> field \<Rightarrow> bool" where
  "field_ok fl v (FS16 x) = (s16_ok x)"
| "field_ok fl v (FS32 x) = (s32_ok x)"
| "field_ok fl v (FS64 x) = (False)"
| "field_ok fl v (FV2S32 x) = (s32_ok (fst x) \<and> s32_ok (snd x))"
| "field_ok fl v (FV3S16 x) = (s16_ok (vX x) \<and> s16_ok (vY x) \<and> s16_ok (vZ x))"
| "field_ok fl v (FV3S32 x) = (s32_ok (vX x) \<and> s32_ok (vY x) \<and> s32_ok (vZ x))"
| "field_ok fl v (FV3S64 x) = (False)"
| "field_ok fl v (FPos x) = (pos_ok v x)"
| "field_ok fl v (FV3Pos x) = (pos_ok v (vX x) \<and> pos_ok v (vY x) \<and> pos_ok v (vZ x))"
| "field_ok fl v (FV3OPos x) = (opos_ok fl v x)"
| "field_ok fl v (FString x) = (length x \<le> STRING_MAX_LEN)"
| "field_ok fl v (FLongString x) = (length x \<le> LONG_STRING_MAX_LEN)"
| "field_ok fl v (FWString x) = (wstring_ok x)"
| "field_ok fl v (FRaw x) = (length x < 2147483648)"
| "field_ok fl v _ = True"

lemmas field_put_defs = put_bool_def put_char_def put_u8_def put_u16_def put_u32_def put_u64_def put_color_def vector_puts

lemmas field_get_defs = get_bool_def get_char_def get_u8_def get_u16_def get_u32_def get_u64_def get_s16_def get_s32_def
  get_color_def get_float_def get_double_def get_long_double_def vector_gets

lemmas fixed_puts =
  bool_field.put_wire char_field.put_wire u8_field.put_wire u16_field.put_wire u32_field.put_wire u64_field.put_wire
  s16_field.put_wire s32_field.put_wire float_field.put_wire double_field.put_wire long_double_field.put_wire

lemmas fixed_gets =
  bool_field.get_enc char_field.get_enc u8_field.get_enc u16_field.get_enc u32_field.get_enc u64_field.get_enc
  s16_field.get_enc s32_field.get_enc float_field.get_enc double_field.get_enc long_double_field.get_enc

lemmas other_puts =
  v2s32_field.pair.put_wire v2f_field.pair.put_wire v3s16_field.triple.put_wire v3s32_field.triple.put_wire
  v3f_field.triple.put_wire v3f128_field.triple.put_wire pos_field.put_wire v3pos_field.put_wire opos_field.put_wire
  string_field.put_wire long_string_field.put_wire wstring_field.put_wire raw_field.put_wire

lemmas other_gets =
  v2s32_field.pair.get_wire v2f_field.pair.get_wire v3s16_field.triple.get_wire v3s32_field.triple.get_wire
  v3f_field.triple.get_wire v3f128_field.triple.get_wire pos_field.get_wire v3pos_field.get_wire opos_field.get_wire
  string_field.get_wire long_string_field.get_wire wstring_field.get_wire raw_field.get_wire

interpretation any_field: packet_field "put_field fl" "get_field fl" kind_of "field_bytes fl" "field_ok fl" for fl
proof unfold_locales
  fix p :: packet and x :: field
  assume ok: "field_ok fl (np_proto_ver p) x"
  show "put_field fl x p = Inr (appended (field_bytes fl (np_proto_ver p) x) p)"
    if "at_end p" "fits (length (field_bytes fl (np_proto_ver p) x)) p"
    using that ok fixed_puts other_puts
    by (cases x) (simp_all add: field_put_defs)
  show "get_field fl (kind_of x) p = Inr (x, advance (length (field_bytes fl (np_proto_ver p) x)) p)"
    if "upcoming (field_bytes fl (np_proto_ver p) x) p"
    using that ok fixed_gets [where p = p] other_gets [where p = p]
    by (cases x) (simp_all add: field_get_defs as_field_def v3_bytes_def)
qed

subsection \<open>Reads stay inside the packet\<close>

definition readable :: "packet \<Rightarrow> bool" where
  "readable p \<longleftrightarrow> unat (np_datasize p) = length (np_data p) \<and> np_offset p \<le> np_datasize p \<and> length (np_data p) < 2147483648"

text \<open>A read out of bounds is permitted only where \<open>b\<close> says so: for the 64-bit reader.\<close>

definition checked :: "bool \<Rightarrow> packet \<Rightarrow> ('a \<times> packet) res \<Rightarrow> bool" where
  "checked b p r \<longleftrightarrow> (case r of Inl e \<Rightarrow> e = PacketError \<or> b \<and> e = OutOfBounds
     | Inr (x, q) \<Rightarrow> readable q \<and> np_data q = np_data p \<and> np_offset p \<le> np_offset q)"

lemma checked_simps [simp]:
  "checked b p (Inl e) \<longleftrightarrow> e = PacketError \<or> b \<and> e = OutOfBounds"
  "checked b p (Inr (x, q)) \<longleftrightarrow> readable q \<and> np_data q = np_data p \<and> np_offset p \<le> np_offset q"
  by (simp_all add: checked_def)

lemma checked_mono: "checked False p r \<Longrightarrow> checked b p r"
  by (cases r) auto

lemma checked_rbind:
  assumes "checked b p r" and "\<And>x q. r = Inr (x, q) \<Longrightarrow> readable q \<Longrightarrow> np_data q = np_data p \<Longrightarrow> checked b q (k x q)"
  shows "checked b p (rbind r (\<lambda>(x, q). k x q))"
proof (cases r)
  case (Inr y)
  obtain x q where y: "y = (x, q)" by (cases y)
  with Inr assms have q: "np_data q = np_data p" "np_offset p \<le> np_offset q" "checked b q (k x q)"
    by simp_all
  then show ?thesis
    using Inr y by (cases "k x q") (auto simp: checked_def split: prod.splits)
qed (use assms in simp)

lemma check_passes:
  assumes "readable p" and "checkReadOffset (np_offset p) n p = Inr ()" and "unat n < 2147483648"
  shows "unat (np_offset p + n) = unat (np_offset p) + unat n" and "unat (np_offset p) + unat n \<le> length (np_data p)"
    and "readable (p\<lparr>np_offset := np_offset p + n\<rparr>)" and "np_offset p \<le> np_offset p + n"
proof -
  have o: "unat (np_offset p) < 2147483648"
    using assms(1) by (simp add: readable_def word_le_nat_alt)
  show s: "unat (np_offset p + n) = unat (np_offset p) + unat n"
    using o assms(3) by (simp add: unat_word_ariths)
  with assms show "unat (np_offset p) + unat n \<le> length (np_data p)" "readable (p\<lparr>np_offset := np_offset p + n\<rparr>)"
    by (simp_all add: checkReadOffset_def readable_def word_le_nat_alt word_less_nat_alt split: if_splits)
  show "np_offset p \<le> np_offset p + n"
    using s by (simp add: word_le_nat_alt)
qed

lemma read_field_checked:
  assumes "readable p" and "width \<le> unat n" and "unat n < 2147483648"
  shows "checked b p (read_field n width rd p)"
proof (cases "checkReadOffset (np_offset p) n p")
  case (Inl e)
  then show ?thesis by (auto simp: read_field_def checkReadOffset_def split: if_splits)
next
  case (Inr u)
  with check_passes [OF assms(1) _ assms(3)] assms(2) show ?thesis
    by (simp add: read_field_def)
qed

lemma read_units_checked:
  assumes "readable p" and "unat (np_offset p) + 2 * n \<le> length (np_data p)"
  shows "checked b p (read_units n p)"
  using assms
proof (induction n p rule: read_units.induct)
  case (1 p)
  then show ?case by simp
next
  case (2 n p)
  have step: "readable (q\<lparr>np_offset := np_offset q + 2\<rparr>) \<and> unat (np_offset q + 2) = unat (np_offset q) + 2 \<and> np_offset q \<le> np_offset q + 2"
    if "readable q" "unat (np_offset q) + 2 \<le> length (np_data q)" for q
  proof -
    have "unat (np_offset q + 2) = unat (np_offset q) + 2"
      using that unat_add_of_nat [of "np_offset q" 2] by (simp add: readable_def)
    with that show ?thesis by (simp add: readable_def word_le_nat_alt)
  qed
  let ?p1 = "p\<lparr>np_offset := np_offset p + 2\<rparr>"
  let ?p2 = "?p1\<lparr>np_offset := np_offset ?p1 + 2\<rparr>"
  have p1: "readable ?p1" "unat (np_offset ?p1) = unat (np_offset p) + 2" "np_offset p \<le> np_offset ?p1" "np_data ?p1 = np_data p"
    using step [OF 2(3)] 2(4) by simp_all
  have weaken: "checked b p (rbind r (\<lambda>(cs, q). Inr (c # cs, q)))"
    if "checked b q r" "np_data q = np_data p" "np_offset p \<le> np_offset q" for c q r
    using that by (cases r) (auto simp: checked_def split: prod.splits)
  show ?case
  proof (cases "n = 0")
    case True
    with 2(4) p1 show ?thesis by simp
  next
    case False
    then have room: "unat (np_offset ?p1) + 2 \<le> length (np_data ?p1)"
      using 2(4) p1(2) by simp
    note s2 = step [OF p1(1) room]
    have fetches: "fetch (unat (np_offset p)) 2 readU16 (np_data p) = Inr (readU16 (drop (unat (np_offset p)) (np_data p)))"
      "fetch (unat (np_offset ?p1)) 2 readU16 (np_data ?p1) = Inr (readU16 (drop (unat (np_offset ?p1)) (np_data ?p1)))"
      using 2(4) room by (simp_all add: fetch_def)
    let ?c = "readU16 (drop (unat (np_offset p)) (np_data p))"
    show ?thesis
    proof (cases "0xD800 \<le> ?c \<and> ?c < 0xDC00")
      case True
      then have "checked b ?p2 (read_units (n - 1) ?p2)"
        using s2 2(4) p1(2) False by (intro 2(1)) auto
      moreover have "np_data ?p2 = np_data p" "np_offset p \<le> np_offset ?p2"
        using order_trans [OF p1(3), of "np_offset ?p1 + 2"] s2 by simp_all
      ultimately show ?thesis
        unfolding read_units.simps Let_def fetches rbind_simps using True False by (simp only: if_True if_False simp_thms neq0_conv [symmetric]) (rule weaken)
    next
      case other: False
      then have "checked b ?p1 (read_units n ?p1)"
        using p1 2(4) False by (intro 2(2)) auto
      with p1 other show ?thesis
        unfolding read_units.simps Let_def fetches rbind_simps by (subst if_not_P) (blast, rule weaken)
    qed
  qed
qed

lemma strings_checked:
  assumes p: "readable p"
  shows "checked b p (get_string p)" "checked b p (readLongString p)" "checked b p (get_wstring p)"
proof -
  have u16: "checked b p (get_u16 p)" and u32: "checked b p (get_u32 p)"
    unfolding get_u16_def get_u32_def by (rule read_field_checked [OF p]; simp)+
  have wrap: "checked b q (rbind r (\<lambda>(s, p2). Inr (f s, p2)))" if "checked b q r" for q f and r :: "(u8 list \<times> packet) res"
    using that by (rule checked_rbind) simp
  show "checked b p (get_string p)"
    unfolding get_string_def
    by (rule checked_rbind [OF u16]) (simp add: wrap read_field_checked unat_ucast_u32 less_trans [OF unat_u16_less])
  show "checked b p (readLongString p)"
    unfolding readLongString_def
    by (rule checked_rbind [OF u32]) (simp add: wrap read_field_checked LONG_STRING_MAX_LEN_def)
  show "checked b p (get_wstring p)"
    unfolding get_wstring_def
  proof (rule checked_rbind [OF u16])
    fix n :: u16 and q
    assume q: "readable q"
    have "unat (ucast n :: u32) * unat (2 :: u32) < 2 ^ LENGTH(32)"
      using unat_u16_less [of n] by (simp add: unat_ucast_u32)
    from iffD1 [OF unat_mult_lem this] have n: "unat (ucast n * 2 :: u32) = 2 * unat n"
      by (simp only: unat_ucast_u32) simp
    show "checked b q (if n = 0 then Inr ([], q) else rbind (checkReadOffset (np_offset q) (ucast n * 2) q) (\<lambda>_. read_units (unat n) q))"
    proof (cases "checkReadOffset (np_offset q) (ucast n * 2) q")
      case (Inl e)
      with q show ?thesis by (auto simp: checkReadOffset_def split: if_splits)
    next
      case (Inr u)
      with check_passes(2) [OF q, of "ucast n * 2"] n unat_u16_less [of n] read_units_checked [OF q, of "unat n"] q
      show ?thesis by simp
    qed
  qed
qed

text \<open>
  The reads whose check is too weak: that of 64-bit numbers checks 4 bytes and reads 8, and for
  raw bytes the sum of the offset and a number of 2 GiB or more that the handler asks for can wrap
  around.
\<close>

fun loose :: "kind \<Rightarrow> bool" where
  "loose KS64 = True"
| "loose (KRaw n) = (0x80000000 \<le> n)"
| "loose _ = False"

lemma get_s64_checked:
  assumes "readable p"
  shows "checked True p (get_s64 p)"
proof (cases "checkReadOffset (np_offset p) 4 p")
  case (Inl e)
  then show ?thesis by (auto simp: get_s64_def read_field_def checkReadOffset_def split: if_splits)
next
  case (Inr u)
  then show ?thesis
    using check_passes(3,4) [OF assms, of 4] by (auto simp: get_s64_def read_field_def fetch_def)
qed

lemma readRawString_checked:
  assumes p: "readable p"
  shows "checked (0x80000000 \<le> n) p (readRawString n p)"
proof (cases "checkReadOffset (np_offset p) n p")
  case (Inl e)
  then show ?thesis by (auto simp: readRawString_def checkReadOffset_def split: if_splits)
next
  case (Inr u)
  show ?thesis
  proof (cases "n < 0x80000000")
    case True
    with Inr p show ?thesis by (simp add: readRawString_def read_field_checked word_less_nat_alt)
  next
    case False
    then have n: "0x80000000 \<le> n" "n \<noteq> 0" "2147483648 \<le> unat n"
      by (auto simp: not_less word_le_nat_alt)
    then have "\<not> unat (np_offset p) + unat n \<le> length (np_data p)"
      using p by (simp add: readable_def)
    with Inr n show ?thesis
      by (simp add: readRawString_def read_field_def fetch_def)
  qed
qed

lemma get_field_checked:
  assumes p: "readable p"
  shows "checked (loose k) p (get_field fl k p)"
proof -
  have wrap: "checked b p (as_field f r)" if "checked b p r" for f :: "'a \<Rightarrow> field" and r b
    unfolding as_field_def using that by (rule checked_rbind) simp
  have opos: "checked b p (get_v3opos fl p)" for b
    unfolding get_v3opos_def get_v3f_def
    using p by (auto intro!: checked_rbind read_field_checked split: if_split)
  show ?thesis
    using p strings_checked [OF p] get_s64_checked [OF p] readRawString_checked [OF p] opos
    by (cases k) (simp_all add: wrap read_field_checked field_get_defs get_pos_def get_v3pos_def get_v3s64_def)
qed

lemma get_all_checked: "readable p \<Longrightarrow> checked (list_ex loose ks) p (get_all (get_field fl) ks p)"
proof (induction ks arbitrary: p)
  case (Cons k ks)
  have "checked (list_ex loose (k # ks)) p (get_field fl k p)"
    using get_field_checked [OF Cons.prems, of k fl] by (cases "loose k") (auto intro: checked_mono)
  then show ?case
    unfolding get_all.simps
  proof (rule checked_rbind)
    fix x q assume "readable q"
    then have "checked (list_ex loose (k # ks)) q (get_all (get_field fl) ks q)"
      using Cons.IH [of q] by (cases "list_ex loose ks") (auto intro: checked_mono)
    then show "checked (list_ex loose (k # ks)) q (rbind (get_all (get_field fl) ks q) (\<lambda>(xs, p2). Inr (x # xs, p2)))"
      by (rule checked_rbind) simp
  qed
qed simp

subsection \<open>The readers that do not fit\<close>

text \<open>Where a packet ends with 4 bytes, the 64-bit reader reads behind it; a number of 8 bytes it reads in half.\<close>

definition example_packet :: "u8 list \<Rightarrow> packet" where
  "example_packet data = (packet_new 0x58 2 147)\<lparr>np_data := data, np_datasize := of_nat (length data)\<rparr>"

lemma get_s64_outside: "get_s64 (example_packet [0, 0, 0, 1]) = Inl OutOfBounds"
  by (simp add: get_s64_def read_field_def checkReadOffset_def fetch_def example_packet_def packet_new_def)

lemma get_s64_half:
  "get_s64 (example_packet (writeS64 i)) = Inr (sint (word_of_int i :: u64), (example_packet (writeS64 i))\<lparr>np_offset := 4\<rparr>)"
  by (simp add: get_s64_def read_field_def checkReadOffset_def example_packet_def packet_new_def readS64_def writeS64_def)

text \<open>The components of a vector of 64-bit numbers are read 4 bytes apart.\<close>

lemma get_v3s64_overlaps:
  "\<exists>q. get_v3s64 (example_packet (v3_bytes writeS64 (mk_v3 1 2 3))) = Inr (mk_v3 1 4294967296 2, q)"
  by (simp add: get_v3s64_def read_field_def checkReadOffset_def fetch_def example_packet_def packet_new_def v3_bytes_def
      readV3S64_def readS64_def writeS64_def readU64_def writeU64_def)

text \<open>The check of raw bytes wraps around.\<close>

lemma readRawString_outside:
  "readRawString 0xFFFFFFFF ((example_packet [0, 0, 0, 1])\<lparr>np_offset := 1\<rparr>) = Inl OutOfBounds"
  by (simp add: readRawString_def read_field_def checkReadOffset_def fetch_def example_packet_def packet_new_def)

subsection \<open>Properties\<close>





end
