(* ===== verification/ModChannelMessages.thy ===== *)
theory ModChannelMessages
  imports ModChannels PacketFields
begin

section \<open>Mod channels between server and clients\<close>

text \<open>
  The parts of \<^verbatim>\<open>Server\<close> (\<^verbatim>\<open>src/server.cpp\<close>, \<^verbatim>\<open>src/network/serverpackethandler.cpp\<close>) and of \<^verbatim>\<open>Client\<close>
  (\<^verbatim>\<open>src/client/client.cpp\<close>, \<^verbatim>\<open>src/network/clientpackethandler.cpp\<close>) that deal with mod channels: joining,
  leaving, sending and the handlers of the five commands. Sending appends to a queue of packets;
  the calls into scripts are recorded. A handler that throws leaves the state that it has reached.
\<close>

definition TOCLIENT_MODCHANNEL_MSG :: u16 where "TOCLIENT_MODCHANNEL_MSG = 0x57"
definition TOCLIENT_MODCHANNEL_SIGNAL :: u16 where "TOCLIENT_MODCHANNEL_SIGNAL = 0x58"
definition TOSERVER_MODCHANNEL_JOIN :: u16 where "TOSERVER_MODCHANNEL_JOIN = 0x17"
definition TOSERVER_MODCHANNEL_LEAVE :: u16 where "TOSERVER_MODCHANNEL_LEAVE = 0x18"
definition TOSERVER_MODCHANNEL_MSG :: u16 where "TOSERVER_MODCHANNEL_MSG = 0x19"
definition SERVER_PEER :: u16 where "SERVER_PEER = 1"

lemmas command_defs = TOCLIENT_MODCHANNEL_MSG_def TOCLIENT_MODCHANNEL_SIGNAL_def TOSERVER_MODCHANNEL_JOIN_def
  TOSERVER_MODCHANNEL_LEAVE_def TOSERVER_MODCHANNEL_MSG_def

datatype modchannel_signal =
    MODCHANNEL_SIGNAL_JOIN_OK
  | MODCHANNEL_SIGNAL_JOIN_FAILURE
  | MODCHANNEL_SIGNAL_LEAVE_OK
  | MODCHANNEL_SIGNAL_LEAVE_FAILURE
  | MODCHANNEL_SIGNAL_CHANNEL_NOT_REGISTERED
  | MODCHANNEL_SIGNAL_SET_STATE

fun signal_code :: "modchannel_signal \<Rightarrow> u8" where
  "signal_code MODCHANNEL_SIGNAL_JOIN_OK = 0"
| "signal_code MODCHANNEL_SIGNAL_JOIN_FAILURE = 1"
| "signal_code MODCHANNEL_SIGNAL_LEAVE_OK = 2"
| "signal_code MODCHANNEL_SIGNAL_LEAVE_FAILURE = 3"
| "signal_code MODCHANNEL_SIGNAL_CHANNEL_NOT_REGISTERED = 4"
| "signal_code MODCHANNEL_SIGNAL_SET_STATE = 5"

text \<open>A byte that names no signal goes to the default branch of the handler.\<close>

definition signal_of :: "u8 \<Rightarrow> modchannel_signal option" where
  "signal_of w =
     (if w = 0 then Some MODCHANNEL_SIGNAL_JOIN_OK else if w = 1 then Some MODCHANNEL_SIGNAL_JOIN_FAILURE
      else if w = 2 then Some MODCHANNEL_SIGNAL_LEAVE_OK else if w = 3 then Some MODCHANNEL_SIGNAL_LEAVE_FAILURE
      else if w = 4 then Some MODCHANNEL_SIGNAL_CHANNEL_NOT_REGISTERED
      else if w = 5 then Some MODCHANNEL_SIGNAL_SET_STATE else None)"

lemma signal_of_code [simp]: "signal_of (signal_code s) = Some s"
  by (cases s) (simp_all add: signal_of_def)

definition state_of :: "u8 \<Rightarrow> modchannel_state" where
  "state_of w =
     (if w = 0 then MODCHANNEL_STATE_INIT else if w = 1 then MODCHANNEL_STATE_READ_WRITE
      else if w = 2 then MODCHANNEL_STATE_READ_ONLY else MODCHANNEL_STATE_MAX)"

subsection \<open>The server\<close>

text \<open>
  \<open>sv_enabled\<close> is the setting \<^verbatim>\<open>enable_mod_channels\<close>, \<open>sv_name\<close> the name of a peer's player, empty
  without a player.
\<close>

record mod_server =
  sv_channels :: channel_mgr
  sv_enabled :: bool
  sv_name :: "u16 \<Rightarrow> string"
  sv_sent :: "(u16 \<times> packet) list"
  sv_heard :: "(string \<times> string \<times> string) list"
  sv_disconnected :: "u16 list"

definition Send_to :: "u16 \<Rightarrow> packet \<Rightarrow> mod_server \<Rightarrow> mod_server" where
  "Send_to peer_id p s = s\<lparr>sv_sent := sv_sent s @ [(peer_id, p)]\<rparr>"

definition Server_Send :: "packet \<Rightarrow> mod_server \<Rightarrow> unit res \<times> mod_server" where
  "Server_Send p s = (if np_peer_id p = 0 then (Inl AssertFailed, s) else (Inr (), Send_to (np_peer_id p) p s))"

definition broadcastModChannelMessage :: "string \<Rightarrow> string \<Rightarrow> u16 \<Rightarrow> mod_server \<Rightarrow> unit res \<times> mod_server" where
  "broadcastModChannelMessage channel message from_peer s =
     (let peers = getChannelPeers channel (sv_channels s)
      in if peers = [] then (Inr (), s)
         else if length message > STRING_MAX_LEN then (Inr (), s)
         else
           let sender = (if from_peer \<noteq> SERVER_PEER then sv_name s from_peer else []);
               p0 = packet_new TOCLIENT_MODCHANNEL_MSG 0 0
           in attempt (rbind (rbind (put_string channel p0) (put_string sender)) (put_string message)) s (\<lambda>resp_pkt.
                let s1 = foldl (\<lambda>t peer_id. if peer_id = from_peer then t else Send_to peer_id resp_pkt t) s peers
                in (Inr (), if from_peer \<noteq> SERVER_PEER then s1\<lparr>sv_heard := sv_heard s1 @ [(channel, sender, message)]\<rparr> else s1)))"

definition Server_joinModChannel :: "string \<Rightarrow> mod_server \<Rightarrow> bool res \<times> mod_server" where
  "Server_joinModChannel channel s =
     (let (joined, m) = joinChannel channel SERVER_PEER (sv_channels s); s1 = s\<lparr>sv_channels := m\<rparr>
      in if \<not> joined then (Inr False, s1)
         else attempt (setChannelState channel MODCHANNEL_STATE_READ_WRITE m) s1 (\<lambda>(b, m2). (Inr b, s1\<lparr>sv_channels := m2\<rparr>)))"

definition Server_leaveModChannel :: "string \<Rightarrow> mod_server \<Rightarrow> bool res \<times> mod_server" where
  "Server_leaveModChannel channel s =
     (let (left, m) = leaveChannel channel SERVER_PEER (sv_channels s) in (Inr left, s\<lparr>sv_channels := m\<rparr>))"

definition Server_sendModChannelMessage :: "string \<Rightarrow> string \<Rightarrow> mod_server \<Rightarrow> bool res \<times> mod_server" where
  "Server_sendModChannelMessage channel message s =
     (if \<not> canWriteOnChannel channel (sv_channels s) then (Inr False, s)
      else let (r, s1) = broadcastModChannelMessage channel message SERVER_PEER s
           in attempt r s1 (\<lambda>_. (Inr True, s1)))"

definition Server_DisconnectPeer :: "u16 \<Rightarrow> mod_server \<Rightarrow> mod_server" where
  "Server_DisconnectPeer peer_id s =
     s\<lparr>sv_channels := leaveAllChannels peer_id (sv_channels s), sv_disconnected := sv_disconnected s @ [peer_id]\<rparr>"

definition handleCommand_ModChannelJoin :: "packet \<Rightarrow> mod_server \<Rightarrow> unit res \<times> mod_server" where
  "handleCommand_ModChannelJoin pkt s =
     attempt (get_string pkt) s (\<lambda>(channel_name, _).
       let peer_id = np_peer_id pkt;
           resp_pkt = packet_new TOCLIENT_MODCHANNEL_SIGNAL peer_id 0;
           (joined, m) = (if sv_enabled s then joinChannel channel_name peer_id (sv_channels s) else (False, sv_channels s));
           s1 = s\<lparr>sv_channels := m\<rparr>;
           code = (if joined then MODCHANNEL_SIGNAL_JOIN_OK else MODCHANNEL_SIGNAL_JOIN_FAILURE)
       in attempt (put_string channel_name (put_u8 (signal_code code) resp_pkt)) s1 (\<lambda>p. Server_Send p s1))"

definition handleCommand_ModChannelLeave :: "packet \<Rightarrow> mod_server \<Rightarrow> unit res \<times> mod_server" where
  "handleCommand_ModChannelLeave pkt s =
     attempt (get_string pkt) s (\<lambda>(channel_name, _).
       let peer_id = np_peer_id pkt;
           resp_pkt = packet_new TOCLIENT_MODCHANNEL_SIGNAL peer_id 0;
           (left, m) = (if sv_enabled s then leaveChannel channel_name peer_id (sv_channels s) else (False, sv_channels s));
           s1 = s\<lparr>sv_channels := m\<rparr>;
           code = (if left then MODCHANNEL_SIGNAL_LEAVE_OK else MODCHANNEL_SIGNAL_LEAVE_FAILURE)
       in attempt (put_string channel_name (put_u8 (signal_code code) resp_pkt)) s1 (\<lambda>p. Server_Send p s1))"

definition handleCommand_ModChannelMsg :: "packet \<Rightarrow> mod_server \<Rightarrow> unit res \<times> mod_server" where
  "handleCommand_ModChannelMsg pkt s =
     attempt (get_string pkt) s (\<lambda>(channel_name, pkt1).
     attempt (get_string pkt1) s (\<lambda>(channel_msg, _).
       let peer_id = np_peer_id pkt
       in if \<not> sv_enabled s then (Inr (), s)
          else if \<not> channelRegistered channel_name (sv_channels s)
          then attempt (put_string channel_name (put_u8 (signal_code MODCHANNEL_SIGNAL_CHANNEL_NOT_REGISTERED)
                  (packet_new TOCLIENT_MODCHANNEL_SIGNAL peer_id 0))) s (\<lambda>p. Server_Send p s)
          else broadcastModChannelMessage channel_name channel_msg peer_id s))"

text \<open>The entries of \<^verbatim>\<open>toServerCommandTable\<close> for these commands.\<close>

definition server_handler :: "packet \<Rightarrow> mod_server \<Rightarrow> unit res \<times> mod_server" where
  "server_handler pkt s =
     (if np_command pkt = TOSERVER_MODCHANNEL_JOIN then handleCommand_ModChannelJoin pkt s
      else if np_command pkt = TOSERVER_MODCHANNEL_LEAVE then handleCommand_ModChannelLeave pkt s
      else if np_command pkt = TOSERVER_MODCHANNEL_MSG then handleCommand_ModChannelMsg pkt s
      else (Inr (), s))"

subsection \<open>The client\<close>

record mod_client =
  cl_channels :: channel_mgr
  cl_sent :: "packet list"
  cl_heard :: "(string \<times> string \<times> string) list"
  cl_signals :: "(string \<times> modchannel_signal) list"

definition Client_Send :: "packet \<Rightarrow> mod_client \<Rightarrow> mod_client" where
  "Client_Send p c = c\<lparr>cl_sent := cl_sent c @ [p]\<rparr>"

definition Client_joinModChannel :: "string \<Rightarrow> mod_client \<Rightarrow> bool res \<times> mod_client" where
  "Client_joinModChannel channel c =
     (if channelRegistered channel (cl_channels c) then (Inr False, c)
      else attempt (put_string channel (packet_new TOSERVER_MODCHANNEL_JOIN 0 0)) c (\<lambda>pkt.
        let c1 = Client_Send pkt c
        in (Inr True, c1\<lparr>cl_channels := snd (joinChannel channel 0 (cl_channels c1))\<rparr>)))"

definition Client_leaveModChannel :: "string \<Rightarrow> mod_client \<Rightarrow> bool res \<times> mod_client" where
  "Client_leaveModChannel channel c =
     (if \<not> channelRegistered channel (cl_channels c) then (Inr False, c)
      else attempt (put_string channel (packet_new TOSERVER_MODCHANNEL_LEAVE 0 0)) c (\<lambda>pkt.
        let c1 = Client_Send pkt c
        in (Inr True, c1\<lparr>cl_channels := snd (leaveChannel channel 0 (cl_channels c1))\<rparr>)))"

definition Client_sendModChannelMessage :: "string \<Rightarrow> string \<Rightarrow> mod_client \<Rightarrow> bool res \<times> mod_client" where
  "Client_sendModChannelMessage channel message c =
     (if \<not> canWriteOnChannel channel (cl_channels c) then (Inr False, c)
      else if length message > STRING_MAX_LEN then (Inr False, c)
      else attempt (rbind (put_string channel (packet_new TOSERVER_MODCHANNEL_MSG 0 0)) (put_string message)) c (\<lambda>pkt.
        (Inr True, Client_Send pkt c)))"

definition Client_ModChannelMsg :: "packet \<Rightarrow> mod_client \<Rightarrow> unit res \<times> mod_client" where
  "Client_ModChannelMsg pkt c =
     attempt (get_string pkt) c (\<lambda>(channel_name, pkt1).
     attempt (get_string pkt1) c (\<lambda>(sender, pkt2).
     attempt (get_string pkt2) c (\<lambda>(channel_msg, _).
       if \<not> channelRegistered channel_name (cl_channels c) then (Inr (), c)
       else (Inr (), c\<lparr>cl_heard := cl_heard c @ [(channel_name, sender, channel_msg)]\<rparr>))))"

definition on_modchannel_signal :: "string \<Rightarrow> modchannel_signal \<Rightarrow> mod_client \<Rightarrow> unit res \<times> mod_client" where
  "on_modchannel_signal channel signal c = (Inr (), c\<lparr>cl_signals := cl_signals c @ [(channel, signal)]\<rparr>)"

definition Client_ModChannelSignal :: "packet \<Rightarrow> mod_client \<Rightarrow> unit res \<times> mod_client" where
  "Client_ModChannelSignal pkt c =
     attempt (get_u8 pkt) c (\<lambda>(signal_tmp, pkt1).
     attempt (get_string pkt1) c (\<lambda>(channel, pkt2).
       case signal_of signal_tmp of
         None \<Rightarrow> (Inr (), c)
       | Some MODCHANNEL_SIGNAL_JOIN_OK \<Rightarrow>
           attempt (setChannelState channel MODCHANNEL_STATE_READ_WRITE (cl_channels c)) c (\<lambda>(_, m).
             on_modchannel_signal channel MODCHANNEL_SIGNAL_JOIN_OK (c\<lparr>cl_channels := m\<rparr>))
       | Some MODCHANNEL_SIGNAL_JOIN_FAILURE \<Rightarrow>
           on_modchannel_signal channel MODCHANNEL_SIGNAL_JOIN_FAILURE
             (c\<lparr>cl_channels := snd (leaveChannel channel 0 (cl_channels c))\<rparr>)
       | Some MODCHANNEL_SIGNAL_SET_STATE \<Rightarrow>
           attempt (get_u8 pkt2) c (\<lambda>(state, _).
             if state_of state = MODCHANNEL_STATE_INIT \<or> state \<ge> 3 then (Inr (), c)
             else attempt (setChannelState channel (state_of state) (cl_channels c)) c (\<lambda>(_, m).
               on_modchannel_signal channel MODCHANNEL_SIGNAL_SET_STATE (c\<lparr>cl_channels := m\<rparr>)))
       | Some signal \<Rightarrow> on_modchannel_signal channel signal c))"

definition client_handler :: "packet \<Rightarrow> mod_client \<Rightarrow> unit res \<times> mod_client" where
  "client_handler pkt c =
     (if np_command pkt = TOCLIENT_MODCHANNEL_MSG then Client_ModChannelMsg pkt c
      else if np_command pkt = TOCLIENT_MODCHANNEL_SIGNAL then Client_ModChannelSignal pkt c
      else (Inr (), c))"

subsection \<open>From packet to packet\<close>

text \<open>
  A sent packet goes through the connection as the bytes of \<open>oldForgePacket\<close> and is filled into a new
  packet at the other end, with the id of the peer it came from.
\<close>

definition deliver :: "u16 \<Rightarrow> packet \<Rightarrow> packet res" where
  "deliver from p = rbind (oldForgePacket p) (\<lambda>raw. putRawPacket raw from (packet_new 0 0 0))"

text \<open>What the connection does to a packet of fields, from the contract of the fields (none of which needs an arithmetic).\<close>

lemma fields_delivered:
  assumes "list_all (field_ok fl 0) fs" and "length (concat (map (field_bytes fl 0) fs)) < 4294967294" and "c \<noteq> 0"
  obtains p where "put_all (put_field fl) fs (packet_new c peer 0) = Inr p" and "np_command p = c" and "np_peer_id p = peer"
    and "\<And>from. \<exists>q q'. deliver from p = Inr q \<and> np_command q = c \<and> np_peer_id q = from \<and>
      get_all (get_field fl) (map kind_of fs) q = Inr (fs, q')"
proof -
  let ?p = "appended (concat (map (field_bytes fl 0) fs)) (packet_new c peer 0)"
  have p: "put_all (put_field fl) fs (packet_new c peer 0) = Inr ?p"
    using any_field.put_all_wire [where p = "packet_new c peer 0" and xs = fs] assms
    by (simp add: packet_new_def at_end_def fits_def)
  have "\<exists>q q'. deliver from ?p = Inr q \<and> np_command q = c \<and> np_peer_id q = from \<and>
      get_all (get_field fl) (map kind_of fs) q = Inr (fs, q')" for "from"
    using any_field.forged_packet [OF assms, of peer "from"] p by (auto simp: deliver_def)
  with p show ?thesis
    by (intro that [of ?p]) (simp_all add: packet_new_def appended_def)
qed

lemma string_bytes_length: "length (string_bytes s) = length s + 2"
  by (simp add: string_bytes_def)

lemma get_string_length: "get_string p = Inr (s, q) \<Longrightarrow> length s \<le> STRING_MAX_LEN"
  by (auto simp: get_string_def read_field_def fetch_def STRING_MAX_LEN_def split: if_splits
      intro!: min.coboundedI2 less_Suc_eq_le [THEN iffD1, OF less_le_trans [OF unat_u16_less]])

lemma put_string_ok: "put_string s p = Inr q \<Longrightarrow> length s \<le> STRING_MAX_LEN"
  by (simp add: put_string_def split: if_splits)

text \<open>The four kinds of packets: a request with one or two strings, a signal, a message of three strings.\<close>

lemma request_packet:
  assumes "length ch \<le> STRING_MAX_LEN" and "c \<noteq> 0"
  obtains p where "put_string ch (packet_new c peer 0) = Inr p" and "np_command p = c" and "np_peer_id p = peer"
    and "\<And>from. \<exists>q q'. deliver from p = Inr q \<and> np_command q = c \<and> np_peer_id q = from \<and> get_string q = Inr (ch, q')"
proof -
  obtain p where p: "put_all (put_field plain_floats) [FString ch] (packet_new c peer 0) = Inr p" "np_command p = c" "np_peer_id p = peer"
    "\<And>from. \<exists>q q'. deliver from p = Inr q \<and> np_command q = c \<and> np_peer_id q = from \<and>
      get_all (get_field plain_floats) (map kind_of [FString ch]) q = Inr ([FString ch], q')"
    by (rule fields_delivered [of plain_floats "[FString ch]" c peer])
      (use assms in \<open>simp_all add: string_bytes_length STRING_MAX_LEN_def\<close>)
  then show ?thesis
    by (intro that [of p]) (fastforce simp: as_field_def)+
qed

lemma request_packet2:
  assumes "length ch \<le> STRING_MAX_LEN" and "length msg \<le> STRING_MAX_LEN" and "c \<noteq> 0"
  obtains p where "rbind (put_string ch (packet_new c peer 0)) (put_string msg) = Inr p" and "np_command p = c"
    and "\<And>from. \<exists>q q1 q'. deliver from p = Inr q \<and> np_command q = c \<and> np_peer_id q = from \<and>
      get_string q = Inr (ch, q1) \<and> get_string q1 = Inr (msg, q')"
proof -
  let ?fs = "[FString ch, FString msg]"
  obtain p where p: "put_all (put_field plain_floats) ?fs (packet_new c peer 0) = Inr p" "np_command p = c" "np_peer_id p = peer"
    "\<And>from. \<exists>q q'. deliver from p = Inr q \<and> np_command q = c \<and> np_peer_id q = from \<and>
      get_all (get_field plain_floats) (map kind_of ?fs) q = Inr (?fs, q')"
    by (rule fields_delivered [of plain_floats ?fs c peer]) (use assms in \<open>simp_all add: string_bytes_length STRING_MAX_LEN_def\<close>)
  then show ?thesis
    by (intro that [of p]) (fastforce simp: as_field_def)+
qed

lemma message_packet:
  assumes "length ch \<le> STRING_MAX_LEN" and "length name \<le> STRING_MAX_LEN" and "length msg \<le> STRING_MAX_LEN" and "c \<noteq> 0"
  obtains p where "rbind (rbind (put_string ch (packet_new c peer 0)) (put_string name)) (put_string msg) = Inr p"
    and "np_command p = c"
    and "\<And>from. \<exists>q q1 q2 q'. deliver from p = Inr q \<and> np_command q = c \<and> np_peer_id q = from \<and>
      get_string q = Inr (ch, q1) \<and> get_string q1 = Inr (name, q2) \<and> get_string q2 = Inr (msg, q')"
proof -
  let ?fs = "[FString ch, FString name, FString msg]"
  obtain p where p: "put_all (put_field plain_floats) ?fs (packet_new c peer 0) = Inr p" "np_command p = c" "np_peer_id p = peer"
    "\<And>from. \<exists>q q'. deliver from p = Inr q \<and> np_command q = c \<and> np_peer_id q = from \<and>
      get_all (get_field plain_floats) (map kind_of ?fs) q = Inr (?fs, q')"
    by (rule fields_delivered [of plain_floats ?fs c peer]) (use assms in \<open>simp_all add: string_bytes_length STRING_MAX_LEN_def\<close>)
  then show ?thesis
    by (intro that [of p]) (fastforce simp: as_field_def rbind_assoc)+
qed

lemma signal_packet:
  assumes "length ch \<le> STRING_MAX_LEN" and "c \<noteq> 0"
  obtains p where "put_string ch (put_u8 w (packet_new c peer 0)) = Inr p" and "np_command p = c" and "np_peer_id p = peer"
    and "\<And>from. \<exists>q q1 q'. deliver from p = Inr q \<and> np_command q = c \<and> np_peer_id q = from \<and>
      get_u8 q = Inr (w, q1) \<and> get_string q1 = Inr (ch, q')"
proof -
  let ?fs = "[FU8 w, FString ch]"
  obtain p where p: "put_all (put_field plain_floats) ?fs (packet_new c peer 0) = Inr p" "np_command p = c" "np_peer_id p = peer"
    "\<And>from. \<exists>q q'. deliver from p = Inr q \<and> np_command q = c \<and> np_peer_id q = from \<and>
      get_all (get_field plain_floats) (map kind_of ?fs) q = Inr (?fs, q')"
    by (rule fields_delivered [of plain_floats ?fs c peer]) (use assms in \<open>simp_all add: string_bytes_length STRING_MAX_LEN_def\<close>)
  then show ?thesis
    by (intro that [of p]) (fastforce simp: as_field_def)+
qed

subsection \<open>A message reaches the members\<close>

lemma foldl_Send:
  "foldl (\<lambda>t peer_id. if peer_id = a then t else Send_to peer_id p t) s peers =
   s\<lparr>sv_sent := sv_sent s @ map (\<lambda>q. (q, p)) (filter (\<lambda>q. q \<noteq> a) peers)\<rparr>"
  by (induction peers arbitrary: s) (simp_all add: Send_to_def)

lemma broadcast_reaches:
  assumes "getChannelPeers ch (sv_channels s) \<noteq> []" and "a \<noteq> SERVER_PEER"
    and "length ch \<le> STRING_MAX_LEN" and "length msg \<le> STRING_MAX_LEN" and "length (sv_name s a) \<le> STRING_MAX_LEN"
  obtains out where "broadcastModChannelMessage ch msg a s = (Inr (),
      s\<lparr>sv_sent := sv_sent s @ map (\<lambda>q. (q, out)) (filter (\<lambda>q. q \<noteq> a) (getChannelPeers ch (sv_channels s))),
        sv_heard := sv_heard s @ [(ch, sv_name s a, msg)]\<rparr>)"
    and "\<And>B. \<exists>q. deliver SERVER_PEER out = Inr q \<and> client_handler q B = (Inr (),
      if channelRegistered ch (cl_channels B) then B\<lparr>cl_heard := cl_heard B @ [(ch, sv_name s a, msg)]\<rparr> else B)"
proof -
  obtain out where out: "rbind (rbind (put_string ch (packet_new TOCLIENT_MODCHANNEL_MSG 0 0)) (put_string (sv_name s a)))
      (put_string msg) = Inr out"
    "\<And>from. \<exists>q q1 q2 q'. deliver from out = Inr q \<and> np_command q = TOCLIENT_MODCHANNEL_MSG \<and> np_peer_id q = from \<and>
      get_string q = Inr (ch, q1) \<and> get_string q1 = Inr (sv_name s a, q2) \<and> get_string q2 = Inr (msg, q')"
    by (rule message_packet [of ch "sv_name s a" msg TOCLIENT_MODCHANNEL_MSG 0]) (use assms in \<open>simp_all add: command_defs\<close>)
  show ?thesis
  proof (rule that [of out])
    show "broadcastModChannelMessage ch msg a s = (Inr (),
      s\<lparr>sv_sent := sv_sent s @ map (\<lambda>q. (q, out)) (filter (\<lambda>q. q \<noteq> a) (getChannelPeers ch (sv_channels s))),
        sv_heard := sv_heard s @ [(ch, sv_name s a, msg)]\<rparr>)"
      using assms by (simp add: broadcastModChannelMessage_def Let_def out(1) foldl_Send)
    show "\<exists>q. deliver SERVER_PEER out = Inr q \<and> client_handler q B = (Inr (),
      if channelRegistered ch (cl_channels B) then B\<lparr>cl_heard := cl_heard B @ [(ch, sv_name s a, msg)]\<rparr> else B)" for B
      using out(2) [of SERVER_PEER] by (auto simp: client_handler_def Client_ModChannelMsg_def)
  qed
qed

text \<open>
  C27: A message that a client of peer \<open>a\<close> sends on a channel it may write to reaches, when the server
  handles it, every peer of the channel but the sender, each exactly once and in the order in which
  they joined; the scripts of the server hear it once, with the name of the sender's player. Each
  of the packets, handled by a client that has joined the channel, gives its scripts the same
  message, and changes nothing in a client that has not.
\<close>

theorem message_reaches_members:
  assumes "canWriteOnChannel ch (cl_channels A)" and "length ch \<le> STRING_MAX_LEN" and "length msg \<le> STRING_MAX_LEN"
    and "sv_enabled s" and "channelRegistered ch (sv_channels s)" and "getChannelPeers ch (sv_channels s) \<noteq> []"
    and "length (sv_name s a) \<le> STRING_MAX_LEN" and "a \<noteq> SERVER_PEER"
  shows "\<exists>pkt q out. Client_sendModChannelMessage ch msg A = (Inr True, A\<lparr>cl_sent := cl_sent A @ [pkt]\<rparr>) \<and>
    deliver a pkt = Inr q \<and>
    server_handler q s = (Inr (), s\<lparr>sv_sent := sv_sent s @ map (\<lambda>p. (p, out)) (filter (\<lambda>p. p \<noteq> a) (getChannelPeers ch (sv_channels s))),
      sv_heard := sv_heard s @ [(ch, sv_name s a, msg)]\<rparr>) \<and>
    (\<forall>B. \<exists>q2. deliver SERVER_PEER out = Inr q2 \<and> client_handler q2 B = (Inr (),
      if channelRegistered ch (cl_channels B) then B\<lparr>cl_heard := cl_heard B @ [(ch, sv_name s a, msg)]\<rparr> else B))"
proof -
  obtain pkt where pkt: "rbind (put_string ch (packet_new TOSERVER_MODCHANNEL_MSG 0 0)) (put_string msg) = Inr pkt"
    "\<And>from. \<exists>q q1 q'. deliver from pkt = Inr q \<and> np_command q = TOSERVER_MODCHANNEL_MSG \<and> np_peer_id q = from \<and>
      get_string q = Inr (ch, q1) \<and> get_string q1 = Inr (msg, q')"
    by (rule request_packet2 [of ch msg TOSERVER_MODCHANNEL_MSG 0]) (use assms in \<open>simp_all add: command_defs\<close>)
  obtain q q1 q' where q: "deliver a pkt = Inr q" "np_command q = TOSERVER_MODCHANNEL_MSG" "np_peer_id q = a"
    "get_string q = Inr (ch, q1)" "get_string q1 = Inr (msg, q')"
    using pkt(2) by blast
  obtain out where out: "broadcastModChannelMessage ch msg a s = (Inr (),
      s\<lparr>sv_sent := sv_sent s @ map (\<lambda>q. (q, out)) (filter (\<lambda>q. q \<noteq> a) (getChannelPeers ch (sv_channels s))),
        sv_heard := sv_heard s @ [(ch, sv_name s a, msg)]\<rparr>)"
    "\<And>B. \<exists>q. deliver SERVER_PEER out = Inr q \<and> client_handler q B = (Inr (),
      if channelRegistered ch (cl_channels B) then B\<lparr>cl_heard := cl_heard B @ [(ch, sv_name s a, msg)]\<rparr> else B)"
    by (rule broadcast_reaches [of ch s a msg]) (use assms in simp_all)
  have "Client_sendModChannelMessage ch msg A = (Inr True, A\<lparr>cl_sent := cl_sent A @ [pkt]\<rparr>)"
    using assms pkt(1) by (simp add: Client_sendModChannelMessage_def Client_Send_def)
  moreover have "server_handler q s = broadcastModChannelMessage ch msg a s"
    using q assms by (simp add: server_handler_def handleCommand_ModChannelMsg_def Let_def command_defs)
  ultimately show ?thesis
    using q(1) out by metis
qed

definition lobby :: mod_channel where
  "lobby = \<lparr>mc_name = ''lobby'', mc_state = MODCHANNEL_STATE_READ_WRITE, mc_consumers = [2, 3]\<rparr>"

definition example_server :: mod_server where
  "example_server = \<lparr>sv_channels = [(''lobby'', lobby)], sv_enabled = True, sv_name = (\<lambda>_. ''sam''), sv_sent = [],
     sv_heard = [], sv_disconnected = []\<rparr>"

definition example_client :: mod_client where
  "example_client = \<lparr>cl_channels = [(''lobby'', lobby)], cl_sent = [], cl_heard = [], cl_signals = []\<rparr>"

theorem message_reaches_members_witness:
  "canWriteOnChannel ''lobby'' (cl_channels example_client) \<and> getChannelPeers ''lobby'' (sv_channels example_server) = [2, 3] \<and>
   (\<exists>pkt q out. Client_sendModChannelMessage ''lobby'' ''hi'' example_client = (Inr True, example_client\<lparr>cl_sent := cl_sent example_client @ [pkt]\<rparr>) \<and>
    deliver 2 pkt = Inr q \<and>
    server_handler q example_server = (Inr (), example_server\<lparr>sv_sent := sv_sent example_server @
        map (\<lambda>p. (p, out)) (filter (\<lambda>p. p \<noteq> 2) (getChannelPeers ''lobby'' (sv_channels example_server))),
      sv_heard := sv_heard example_server @ [(''lobby'', sv_name example_server 2, ''hi'')]\<rparr>) \<and>
    (\<forall>B. \<exists>q2. deliver SERVER_PEER out = Inr q2 \<and> client_handler q2 B = (Inr (),
      if channelRegistered ''lobby'' (cl_channels B) then B\<lparr>cl_heard := cl_heard B @ [(''lobby'', sv_name example_server 2, ''hi'')]\<rparr> else B)))"
  by (intro conjI message_reaches_members)
    (simp_all add: example_client_def example_server_def lobby_def canWriteOnChannel_def canWrite_def channelRegistered_def
      getChannelPeers_def STRING_MAX_LEN_def SERVER_PEER_def)

end
