(* ===== verification/ClientStates.thy ===== *)
theory ClientStates
  imports ModChannelMessages
begin

section \<open>The states of a client and what the server takes from it\<close>

text \<open>
  The server keeps a \<^verbatim>\<open>RemoteClient\<close> for each peer (\<^verbatim>\<open>src/server/clientiface.h\<close> and
  \<^verbatim>\<open>clientiface.cpp\<close>). Its state follows the events of the handshake, and \<^verbatim>\<open>Server::ProcessData\<close>
  (\<^verbatim>\<open>src/server.cpp\<close>) hands the commands of mod channels to their handlers only once the client is
  active: what comes earlier is dropped without an answer. Of a client, the state and the two
  serialization versions are modelled; the authentication data, which \<^verbatim>\<open>resetChosenMech\<close> clears, are not.
\<close>

datatype client_state =
    CS_Invalid
  | CS_Disconnecting
  | CS_Denied
  | CS_Created
  | CS_HelloSent
  | CS_AwaitingInit2
  | CS_InitDone
  | CS_DefinitionsSent
  | CS_Active
  | CS_SudoMode

fun state_value :: "client_state \<Rightarrow> nat" where
  "state_value CS_Invalid = 0"
| "state_value CS_Disconnecting = 1"
| "state_value CS_Denied = 2"
| "state_value CS_Created = 3"
| "state_value CS_HelloSent = 4"
| "state_value CS_AwaitingInit2 = 5"
| "state_value CS_InitDone = 6"
| "state_value CS_DefinitionsSent = 7"
| "state_value CS_Active = 8"
| "state_value CS_SudoMode = 9"

text \<open>The states compare as their values do.\<close>

instantiation client_state :: linorder
begin

definition less_eq_client_state :: "client_state \<Rightarrow> client_state \<Rightarrow> bool" where
  "less_eq_client_state a b \<longleftrightarrow> state_value a \<le> state_value b"

definition less_client_state :: "client_state \<Rightarrow> client_state \<Rightarrow> bool" where
  "less_client_state a b \<longleftrightarrow> state_value a < state_value b"

instance
proof
  fix a b c :: client_state
  show "a < b \<longleftrightarrow> a \<le> b \<and> \<not> b \<le> a" by (auto simp: less_eq_client_state_def less_client_state_def)
  show "a \<le> a" by (simp add: less_eq_client_state_def)
  show "a \<le> b \<Longrightarrow> b \<le> c \<Longrightarrow> a \<le> c" by (simp add: less_eq_client_state_def)
  show "a \<le> b \<Longrightarrow> b \<le> a \<Longrightarrow> a = b" by (cases a; cases b) (simp_all add: less_eq_client_state_def)
  show "a \<le> b \<or> b \<le> a" by (auto simp: less_eq_client_state_def)
qed

end

datatype client_state_event =
    CSE_Hello
  | CSE_AuthAccept
  | CSE_GotInit2
  | CSE_SetDenied
  | CSE_SetDefinitionsSent
  | CSE_SetClientReady
  | CSE_SudoSuccess
  | CSE_SudoLeave
  | CSE_Disconnect

record remote_client =
  rc_state :: client_state
  rc_ser_ver :: u8
  rc_pending_ser_ver :: u8

definition SER_FMT_VER_INVALID :: u8 where "SER_FMT_VER_INVALID = 255"

definition RemoteClient_new :: remote_client where
  "RemoteClient_new = \<lparr>rc_state = CS_Created, rc_ser_ver = SER_FMT_VER_INVALID, rc_pending_ser_ver = SER_FMT_VER_INVALID\<rparr>"

definition setPendingSerializationVersion :: "u8 \<Rightarrow> remote_client \<Rightarrow> remote_client" where
  "setPendingSerializationVersion version rc = rc\<lparr>rc_pending_ser_ver := version\<rparr>"

definition confirmSerializationVersion :: "remote_client \<Rightarrow> remote_client" where
  "confirmSerializationVersion rc = rc\<lparr>rc_ser_ver := rc_pending_ser_ver rc\<rparr>"

definition to_state :: "client_state \<Rightarrow> remote_client \<Rightarrow> remote_client res" where
  "to_state st rc = Inr (rc\<lparr>rc_state := st\<rparr>)"

fun notifyEvent :: "client_state_event \<Rightarrow> remote_client \<Rightarrow> remote_client res" where
  "notifyEvent event rc =
     (case rc_state rc of
        CS_Invalid \<Rightarrow> Inr rc
      | CS_Created \<Rightarrow>
          (case event of
             CSE_Hello \<Rightarrow> to_state CS_HelloSent rc
           | CSE_Disconnect \<Rightarrow> to_state CS_Disconnecting rc
           | CSE_SetDenied \<Rightarrow> to_state CS_Denied rc
           | _ \<Rightarrow> Inl ClientStateError)
      | CS_Denied \<Rightarrow> Inr rc
      | CS_HelloSent \<Rightarrow>
          (case event of
             CSE_AuthAccept \<Rightarrow> to_state CS_AwaitingInit2 rc
           | CSE_Disconnect \<Rightarrow> to_state CS_Disconnecting rc
           | CSE_SetDenied \<Rightarrow> to_state CS_Denied rc
           | _ \<Rightarrow> Inl ClientStateError)
      | CS_AwaitingInit2 \<Rightarrow>
          (case event of
             CSE_GotInit2 \<Rightarrow> to_state CS_InitDone (confirmSerializationVersion rc)
           | CSE_Disconnect \<Rightarrow> to_state CS_Disconnecting rc
           | CSE_SetDenied \<Rightarrow> to_state CS_Denied rc
           | _ \<Rightarrow> Inl ClientStateError)
      | CS_InitDone \<Rightarrow>
          (case event of
             CSE_SetDefinitionsSent \<Rightarrow> to_state CS_DefinitionsSent rc
           | CSE_Disconnect \<Rightarrow> to_state CS_Disconnecting rc
           | CSE_SetDenied \<Rightarrow> to_state CS_Denied rc
           | _ \<Rightarrow> Inl ClientStateError)
      | CS_DefinitionsSent \<Rightarrow>
          (case event of
             CSE_SetClientReady \<Rightarrow> to_state CS_Active rc
           | CSE_Disconnect \<Rightarrow> to_state CS_Disconnecting rc
           | CSE_SetDenied \<Rightarrow> to_state CS_Denied rc
           | _ \<Rightarrow> Inl ClientStateError)
      | CS_Active \<Rightarrow>
          (case event of
             CSE_SetDenied \<Rightarrow> to_state CS_Denied rc
           | CSE_Disconnect \<Rightarrow> to_state CS_Disconnecting rc
           | CSE_SudoSuccess \<Rightarrow> to_state CS_SudoMode rc
           | _ \<Rightarrow> Inl ClientStateError)
      | CS_SudoMode \<Rightarrow>
          (case event of
             CSE_SetDenied \<Rightarrow> to_state CS_Denied rc
           | CSE_Disconnect \<Rightarrow> to_state CS_Disconnecting rc
           | CSE_SudoLeave \<Rightarrow> to_state CS_Active rc
           | _ \<Rightarrow> Inl ClientStateError)
      | CS_Disconnecting \<Rightarrow> Inr rc)"

subsection \<open>The clients of a server\<close>

type_synonym remote_clients = "u16 \<Rightarrow> remote_client option"

definition clientiface_getClient :: "u16 \<Rightarrow> client_state \<Rightarrow> remote_clients \<Rightarrow> remote_client option" where
  "clientiface_getClient peer_id state_min g =
     (case g peer_id of
        None \<Rightarrow> None
      | Some rc \<Rightarrow> if state_min \<le> rc_state rc then Some rc else None)"

definition getClientState :: "u16 \<Rightarrow> remote_clients \<Rightarrow> client_state" where
  "getClientState peer_id g = (case g peer_id of None \<Rightarrow> CS_Invalid | Some rc \<Rightarrow> rc_state rc)"

definition CreateClient :: "u16 \<Rightarrow> remote_clients \<Rightarrow> remote_clients" where
  "CreateClient peer_id g =
     (if clientiface_getClient peer_id CS_Invalid g \<noteq> None then g else g(peer_id \<mapsto> RemoteClient_new))"

definition DeleteClient :: "u16 \<Rightarrow> remote_clients \<Rightarrow> remote_clients" where
  "DeleteClient peer_id g =
     (if clientiface_getClient peer_id CS_Invalid g = None then g else g(peer_id := None))"

definition clientiface_event :: "u16 \<Rightarrow> client_state_event \<Rightarrow> remote_clients \<Rightarrow> unit res \<times> remote_clients" where
  "clientiface_event peer_id event g =
     (case clientiface_getClient peer_id CS_Invalid g of
        None \<Rightarrow> (Inr (), g)
      | Some rc \<Rightarrow>
          (case notifyEvent event rc of
             Inl e \<Rightarrow> (Inl e, g)
           | Inr rc' \<Rightarrow> (Inr (), g(peer_id \<mapsto> rc'))))"

definition Server_getClient :: "u16 \<Rightarrow> client_state \<Rightarrow> remote_clients \<Rightarrow> remote_client res" where
  "Server_getClient peer_id state_min g =
     (case clientiface_getClient peer_id state_min g of None \<Rightarrow> Inl ClientNotFoundException | Some rc \<Rightarrow> Inr rc)"

text \<open>
  A packet with one of the three commands of mod channels, which the table marks
  \<^verbatim>\<open>TOSERVER_STATE_INGAME\<close>. The overload mode drops other commands only.
\<close>

definition Server_ProcessData :: "remote_clients \<Rightarrow> packet \<Rightarrow> mod_server \<Rightarrow> unit res \<times> mod_server" where
  "Server_ProcessData g pkt s =
     attempt (Server_getClient (np_peer_id pkt) CS_InitDone g) s (\<lambda>client.
       if rc_ser_ver client = SER_FMT_VER_INVALID then (Inr (), s)
       else if getClientState (np_peer_id pkt) g < CS_Active then (Inr (), s)
       else server_handler pkt s)"

subsection \<open>Who is heard\<close>

definition heard_by_server :: "u16 \<Rightarrow> remote_clients \<Rightarrow> bool" where
  "heard_by_server P g \<longleftrightarrow> CS_Active \<le> getClientState P g \<and> (\<forall>rc. g P = Some rc \<longrightarrow> rc_ser_ver rc \<noteq> SER_FMT_VER_INVALID)"

lemma ProcessData_heard:
  assumes "heard_by_server (np_peer_id q) g"
  shows "Server_ProcessData g q s = server_handler q s"
proof -
  obtain rc where rc: "g (np_peer_id q) = Some rc" "CS_Active \<le> rc_state rc" "rc_ser_ver rc \<noteq> SER_FMT_VER_INVALID"
    using assms by (cases "g (np_peer_id q)") (auto simp: heard_by_server_def getClientState_def less_eq_client_state_def)
  then have "CS_InitDone \<le> rc_state rc"
    by (simp add: less_eq_client_state_def)
  with rc show ?thesis
    by (simp add: not_less [symmetric] Server_ProcessData_def Server_getClient_def clientiface_getClient_def getClientState_def attempt_def)
qed

lemma ProcessData_unheard:
  assumes "\<not> heard_by_server (np_peer_id q) g"
  shows "snd (Server_ProcessData g q s) = s"
  using assms
  by (auto simp: heard_by_server_def Server_ProcessData_def Server_getClient_def clientiface_getClient_def
      getClientState_def attempt_def not_le split: option.splits sum.splits)

lemma ProcessData_cases:
  obtains "Server_ProcessData g q s = server_handler q s" | "snd (Server_ProcessData g q s) = s"
  using ProcessData_heard ProcessData_unheard by blast

text \<open>
  No event but the client's readiness, in the one state that expects it, makes the server hear a
  client, and it is heard until it is denied or disconnects.
\<close>

lemma ready_is_heard:
  assumes "snd (clientiface_event P e g) = g'" and "\<not> heard_by_server P g" and "heard_by_server P g'"
  shows "e = CSE_SetClientReady \<and> getClientState P g = CS_DefinitionsSent"
  using assms
  by (auto simp: clientiface_event_def clientiface_getClient_def heard_by_server_def getClientState_def to_state_def
      less_eq_client_state_def confirmSerializationVersion_def
      split: option.splits if_splits client_state.splits client_state_event.splits sum.splits)

lemma heard_until_gone:
  assumes "heard_by_server P g" and "e \<noteq> CSE_SetDenied" and "e \<noteq> CSE_Disconnect"
  shows "heard_by_server P (snd (clientiface_event x e g))"
  using assms
  by (auto simp: clientiface_event_def clientiface_getClient_def heard_by_server_def getClientState_def to_state_def
      less_eq_client_state_def split: option.splits if_splits client_state.splits client_state_event.splits sum.splits)

end
