(* ===== verification/ModChannelSessions.thy ===== *)
theory ModChannelSessions
  imports ClientStates
begin

section \<open>A client and the server agree on its mod channels\<close>

text \<open>
  A session of one client with the server, as a step relation over the client, the states in which
  the server holds its clients, and the server. The packets that client and server have sent wait in
  the order they were sent: the channel is reliable and ordered (\<open>reliable_delivery\<close> of
  \<open>MtpDelivery\<close>). Scripts of the client join, leave and send at any time, also before the server
  takes anything from it; other peers come and go and send what they like; scripts of the server
  join, leave and send; events move every client through its states. A client that has no
  serialization version yet discards what it gets.
\<close>

definition client_new :: mod_client where
  "client_new = \<lparr>cl_channels = [], cl_sent = [], cl_heard = [], cl_signals = []\<rparr>"

type_synonym session_state = "mod_client \<times> remote_clients \<times> mod_server"

inductive session_step :: "u16 \<Rightarrow> session_state \<Rightarrow> session_state \<Rightarrow> bool" for P where
  client_join: "session_step P (c, g, s) (snd (Client_joinModChannel ch c), g, s)"
| client_leave: "session_step P (c, g, s) (snd (Client_leaveModChannel ch c), g, s)"
| client_send: "session_step P (c, g, s) (snd (Client_sendModChannelMessage ch msg c), g, s)"
| server_receives: "cl_sent c = p # ps \<Longrightarrow> deliver P p = Inr q \<Longrightarrow>
    session_step P (c, g, s) (c\<lparr>cl_sent := ps\<rparr>, g, snd (Server_ProcessData g q s))"
| client_receives: "sv_sent s = xs @ (P, p) # ys \<Longrightarrow> P \<notin> fst ` set xs \<Longrightarrow> deliver SERVER_PEER p = Inr q \<Longrightarrow>
    session_step P (c, g, s) (snd (client_handler q c), g, s\<lparr>sv_sent := xs @ ys\<rparr>)"
| client_discards: "sv_sent s = xs @ (P, p) # ys \<Longrightarrow> P \<notin> fst ` set xs \<Longrightarrow>
    session_step P (c, g, s) (c, g, s\<lparr>sv_sent := xs @ ys\<rparr>)"
| other_packet: "np_peer_id q \<noteq> P \<Longrightarrow> session_step P (c, g, s) (c, g, snd (Server_ProcessData g q s))"
| other_gone: "p \<noteq> P \<Longrightarrow> session_step P (c, g, s) (c, g, Server_DisconnectPeer p s)"
| server_join: "session_step P (c, g, s) (c, g, snd (Server_joinModChannel ch s))"
| server_leave: "session_step P (c, g, s) (c, g, snd (Server_leaveModChannel ch s))"
| server_send: "session_step P (c, g, s) (c, g, snd (Server_sendModChannelMessage ch msg s))"
| connected: "session_step P (c, g, s) (c, CreateClient x g, s)"
| offered: "session_step P (c, g, s) (c, g(x := map_option (setPendingSerializationVersion v) (g x)), s)"
| event: "session_step P (c, g, s) (c, snd (clientiface_event x e g), s)"
| deleted: "session_step P (c, g, s) (c, DeleteClient x g, s)"

text \<open>A stretch of a session in which the server hears the client all the time, or not at all.\<close>

inductive session :: "u16 \<Rightarrow> bool \<Rightarrow> session_state \<Rightarrow> session_state \<Rightarrow> bool" for P b where
  start: "heard_by_server P (fst (snd x)) = b \<Longrightarrow> session P b x x"
| continue: "session P b x y \<Longrightarrow> session_step P y z \<Longrightarrow> heard_by_server P (fst (snd z)) = b \<Longrightarrow> session P b x z"

lemma session_heard: "session P b x y \<Longrightarrow> heard_by_server P (fst (snd y)) = b"
  by (erule session.cases) simp_all

subsection \<open>The requests in a packet\<close>

definition request_of :: "packet \<Rightarrow> request option" where
  "request_of q =
     (case get_string q of
        Inl _ \<Rightarrow> None
      | Inr (ch, q1) \<Rightarrow>
          if np_command q = TOSERVER_MODCHANNEL_JOIN then Some (Join ch)
          else if np_command q = TOSERVER_MODCHANNEL_LEAVE then Some (Leave ch)
          else if np_command q = TOSERVER_MODCHANNEL_MSG \<and> is_ok (get_string q1) then Some (Say ch)
          else None)"

definition carries :: "u16 \<Rightarrow> request \<Rightarrow> packet \<Rightarrow> bool" where
  "carries P r p \<longleftrightarrow> (\<exists>q. deliver P p = Inr q \<and> np_peer_id q = P \<and> request_of q = Some r)"

lemma carries_unique: "carries P r p \<Longrightarrow> carries P r' p \<Longrightarrow> r' = r"
  by (auto simp: carries_def)

text \<open>The packets that the server sends: messages, and signals on a channel with what they answer.\<close>

definition is_message :: "packet \<Rightarrow> bool" where
  "is_message p \<longleftrightarrow> (\<exists>q. deliver SERVER_PEER p = Inr q \<and> np_command q = TOCLIENT_MODCHANNEL_MSG)"

definition signals :: "modchannel_signal \<Rightarrow> string \<Rightarrow> packet \<Rightarrow> bool" where
  "signals sig ch p \<longleftrightarrow> (\<exists>q q1 q2. deliver SERVER_PEER p = Inr q \<and> np_command q = TOCLIENT_MODCHANNEL_SIGNAL \<and>
     get_u8 q = Inr (signal_code sig, q1) \<and> get_string q1 = Inr (ch, q2))"

definition concerns :: "string \<Rightarrow> packet \<Rightarrow> bool" where
  "concerns ch p \<longleftrightarrow> (\<exists>sig. signals sig ch p)"

definition granted :: "packet \<Rightarrow> bool" where
  "granted p \<longleftrightarrow> is_message p \<or> (\<exists>ch. signals MODCHANNEL_SIGNAL_JOIN_OK ch p \<or> signals MODCHANNEL_SIGNAL_LEAVE_OK ch p)"

abbreviation members :: "u16 \<Rightarrow> mod_server \<Rightarrow> string \<Rightarrow> bool" where
  "members P s \<equiv> (\<lambda>ch. joined P ch (sv_channels s))"

subsection \<open>The server\<close>

lemma signal_sent:
  assumes "length ch \<le> STRING_MAX_LEN"
  obtains p where "put_string ch (put_u8 (signal_code sig) (packet_new TOCLIENT_MODCHANNEL_SIGNAL peer 0)) = Inr p"
    and "np_peer_id p = peer" and "signals sig ch p"
proof -
  obtain p where p: "put_string ch (put_u8 (signal_code sig) (packet_new TOCLIENT_MODCHANNEL_SIGNAL peer 0)) = Inr p"
    "np_peer_id p = peer"
    "\<And>from. \<exists>q q1 q'. deliver from p = Inr q \<and> np_command q = TOCLIENT_MODCHANNEL_SIGNAL \<and> np_peer_id q = from \<and>
      get_u8 q = Inr (signal_code sig, q1) \<and> get_string q1 = Inr (ch, q')"
    by (rule signal_packet [OF assms, of TOCLIENT_MODCHANNEL_SIGNAL "signal_code sig" peer]) (simp_all add: command_defs)
  from p(3) [of SERVER_PEER] have "signals sig ch p"
    unfolding signals_def by blast
  with p that show ?thesis by blast
qed

text \<open>What an operation adds to the sent packets: messages, and packets that satisfy \<open>Q\<close> to \<open>a\<close>.\<close>

definition adds :: "u16 \<Rightarrow> (packet \<Rightarrow> bool) \<Rightarrow> mod_server \<Rightarrow> mod_server \<Rightarrow> bool" where
  "adds a Q s s' \<longleftrightarrow> sv_enabled s' = sv_enabled s \<and>
     (\<exists>out. sv_sent s' = sv_sent s @ out \<and> (\<forall>(x, p) \<in> set out. is_message p \<or> x = a \<and> Q p))"

lemma adds_refl [simp]: "sv_enabled s' = sv_enabled s \<Longrightarrow> sv_sent s' = sv_sent s \<Longrightarrow> adds a Q s s'"
  by (simp add: adds_def)

lemma Server_Send_simps [simp]:
  "sv_channels (snd (Server_Send p s)) = sv_channels s"
  "np_peer_id p = a \<Longrightarrow> Q p \<Longrightarrow> sv_sent t = sv_sent s \<Longrightarrow> sv_enabled t = sv_enabled s \<Longrightarrow> adds a Q s (snd (Server_Send p t))"
  by (simp_all add: adds_def Server_Send_def Send_to_def)

lemma broadcast_adds:
  "sv_channels (snd (broadcastModChannelMessage ch msg a s)) = sv_channels s"
  "adds b Q s (snd (broadcastModChannelMessage ch msg a s))"
proof -
  let ?put = "\<lambda>name. rbind (rbind (put_string ch (packet_new TOCLIENT_MODCHANNEL_MSG 0 0)) (put_string name)) (put_string msg)"
  have "is_message out" if put: "?put name = Inr out" for name out
  proof -
    from put have "length ch \<le> STRING_MAX_LEN" "length name \<le> STRING_MAX_LEN" "length msg \<le> STRING_MAX_LEN"
      by (auto dest: put_string_ok)
    from message_packet [OF this, of TOCLIENT_MODCHANNEL_MSG 0] put show ?thesis
      by (auto simp: is_message_def command_defs)
  qed
  then have "sv_channels (snd (broadcastModChannelMessage ch msg a s)) = sv_channels s \<and>
      adds b Q s (snd (broadcastModChannelMessage ch msg a s))"
    unfolding broadcastModChannelMessage_def
    by (cases "?put (if a \<noteq> SERVER_PEER then sv_name s a else [])") (auto simp: Let_def foldl_Send adds_def)
  then show "sv_channels (snd (broadcastModChannelMessage ch msg a s)) = sv_channels s"
    "adds b Q s (snd (broadcastModChannelMessage ch msg a s))" by simp_all
qed

text \<open>
  A packet is handled as the request in it. The answer is about its channel, and when the request is
  effective, it is not a refusal.
\<close>

definition answers :: "request \<Rightarrow> (string \<Rightarrow> bool) \<Rightarrow> packet \<Rightarrow> bool" where
  "answers r mem p \<longleftrightarrow> concerns (channel_of r) p \<and> (effective r mem \<longrightarrow> granted p)"

lemma answersI: "signals sig ch p \<Longrightarrow> ch = channel_of r \<Longrightarrow> effective r mem \<Longrightarrow>
    sig = MODCHANNEL_SIGNAL_JOIN_OK \<or> sig = MODCHANNEL_SIGNAL_LEAVE_OK \<Longrightarrow> answers r mem p"
  "signals sig ch p \<Longrightarrow> ch = channel_of r \<Longrightarrow> \<not> effective r mem \<Longrightarrow> answers r mem p"
  by (auto simp: answers_def concerns_def granted_def)

lemma handled_request:
  assumes "request_of q = Some r" and "sv_enabled s"
  shows "sv_channels (snd (server_handler q s)) = snd (registry.perform (np_peer_id q) r (sv_channels s))"
    and "adds (np_peer_id q) (answers r (members (np_peer_id q) s)) s (snd (server_handler q s))"
proof -
  obtain ch q1 where q: "get_string q = Inr (ch, q1)"
    using assms(1) by (auto simp: request_of_def split: sum.splits)
  note len = get_string_length [OF q]
  have *: "sv_channels (snd (server_handler q s)) = snd (registry.perform (np_peer_id q) r (sv_channels s)) \<and>
    adds (np_peer_id q) (answers r (members (np_peer_id q) s)) s (snd (server_handler q s))"
  proof (cases r)
    case (Join c)
    with assms q have c: "c = ch" "np_command q = TOSERVER_MODCHANNEL_JOIN"
      by (auto simp: request_of_def split: if_splits)
    obtain b m where j: "joinChannel ch (np_peer_id q) (sv_channels s) = (b, m)" by fastforce
    from signal_sent [OF len, of "if b then MODCHANNEL_SIGNAL_JOIN_OK else MODCHANNEL_SIGNAL_JOIN_FAILURE" "np_peer_id q"]
    obtain p where p: "put_string ch (put_u8 (signal_code (if b then MODCHANNEL_SIGNAL_JOIN_OK else MODCHANNEL_SIGNAL_JOIN_FAILURE))
        (packet_new TOCLIENT_MODCHANNEL_SIGNAL (np_peer_id q) 0)) = Inr p" "np_peer_id p = np_peer_id q"
      "signals (if b then MODCHANNEL_SIGNAL_JOIN_OK else MODCHANNEL_SIGNAL_JOIN_FAILURE) ch p" by blast
    have b: "b \<longleftrightarrow> \<not> joined (np_peer_id q) ch (sv_channels s)"
      using registry.join_answer [of ch "np_peer_id q" "sv_channels s"] j by simp
    show ?thesis
      using Join c q j p b assms(2)
      by (cases b) (simp_all add: server_handler_def handleCommand_ModChannelJoin_def Let_def registry.perform_def answersI)
  next
    case (Leave c)
    with assms q have c: "c = ch" "np_command q = TOSERVER_MODCHANNEL_LEAVE"
      by (auto simp: request_of_def split: if_splits)
    obtain b m where j: "leaveChannel ch (np_peer_id q) (sv_channels s) = (b, m)" by fastforce
    from signal_sent [OF len, of "if b then MODCHANNEL_SIGNAL_LEAVE_OK else MODCHANNEL_SIGNAL_LEAVE_FAILURE" "np_peer_id q"]
    obtain p where p: "put_string ch (put_u8 (signal_code (if b then MODCHANNEL_SIGNAL_LEAVE_OK else MODCHANNEL_SIGNAL_LEAVE_FAILURE))
        (packet_new TOCLIENT_MODCHANNEL_SIGNAL (np_peer_id q) 0)) = Inr p" "np_peer_id p = np_peer_id q"
      "signals (if b then MODCHANNEL_SIGNAL_LEAVE_OK else MODCHANNEL_SIGNAL_LEAVE_FAILURE) ch p" by blast
    have b: "b \<longleftrightarrow> joined (np_peer_id q) ch (sv_channels s)"
      using registry.leave_answer [of ch "np_peer_id q" "sv_channels s"] j by simp
    show ?thesis
      using Leave c q j p b assms(2)
      by (cases b) (simp_all add: server_handler_def handleCommand_ModChannelLeave_def Let_def registry.perform_def answersI command_defs)
  next
    case (Say c)
    with assms q have c: "c = ch" "np_command q = TOSERVER_MODCHANNEL_MSG" "is_ok (get_string q1)"
      by (auto simp: request_of_def split: if_splits)
    then obtain msg q2 where m: "get_string q1 = Inr (msg, q2)"
      by (cases "get_string q1") auto
    show ?thesis
    proof (cases "channelRegistered ch (sv_channels s)")
      case True
      then show ?thesis
        using Say c q m assms(2) broadcast_adds [where ch = ch and msg = msg and a = "np_peer_id q" and s = s]
        by (simp add: server_handler_def handleCommand_ModChannelMsg_def Let_def registry.perform_def command_defs)
    next
      case False
      then have "\<not> joined (np_peer_id q) ch (sv_channels s)"
        by (simp add: joined_def getChannelPeers_def channelRegistered_def)
      from signal_sent [OF len, of MODCHANNEL_SIGNAL_CHANNEL_NOT_REGISTERED "np_peer_id q"] obtain p
        where p: "put_string ch (put_u8 (signal_code MODCHANNEL_SIGNAL_CHANNEL_NOT_REGISTERED)
          (packet_new TOCLIENT_MODCHANNEL_SIGNAL (np_peer_id q) 0)) = Inr p" "np_peer_id p = np_peer_id q"
          "signals MODCHANNEL_SIGNAL_CHANNEL_NOT_REGISTERED ch p" by blast
      with False Say c q m assms(2) \<open>\<not> joined _ _ _\<close> show ?thesis
        by (simp add: server_handler_def handleCommand_ModChannelMsg_def Let_def registry.perform_def answersI(2) command_defs)
    qed
  qed
  then show "sv_channels (snd (server_handler q s)) = snd (registry.perform (np_peer_id q) r (sv_channels s))"
    "adds (np_peer_id q) (answers r (members (np_peer_id q) s)) s (snd (server_handler q s))"
    by simp_all
qed

lemma handled_nothing: "request_of q = None \<Longrightarrow> snd (server_handler q s) = s"
  by (cases "get_string q")
    (auto simp: request_of_def server_handler_def handleCommand_ModChannelJoin_def handleCommand_ModChannelLeave_def
      handleCommand_ModChannelMsg_def is_ok_def split: if_splits sum.splits)

subsection \<open>The client\<close>

text \<open>
  The client keeps a channel exactly as long as it is its member, under peer id 0. It asks to join
  what it has not, to leave and to send on what it has.
\<close>

definition own :: "channels \<Rightarrow> bool" where
  "own S \<longleftrightarrow> (\<forall>ch. S ch = None \<or> (\<exists>st. S ch = Some (st, {0})))"

definition client_ok :: "mod_client \<Rightarrow> bool" where
  "client_ok c \<longleftrightarrow> mgr_ok (cl_channels c) \<and> own (channels_of (cl_channels c))"

lemma own_spec:
  assumes "own S"
  shows "own (snd (spec_op (OpJoin ch 0) S))" and "snd (spec_op (OpJoin ch 0) S) d \<noteq> None \<longleftrightarrow> d = ch \<or> S d \<noteq> None"
    and "own (snd (spec_op (OpLeave ch 0) S))" and "snd (spec_op (OpLeave ch 0) S) d \<noteq> None \<longleftrightarrow> d \<noteq> ch \<and> S d \<noteq> None"
proof -
  from assms have "S ch = None \<or> (\<exists>st. S ch = Some (st, {0}))"
    by (simp add: own_def)
  with assms show "own (snd (spec_op (OpJoin ch 0) S))" "snd (spec_op (OpJoin ch 0) S) d \<noteq> None \<longleftrightarrow> d = ch \<or> S d \<noteq> None"
    "own (snd (spec_op (OpLeave ch 0) S))" "snd (spec_op (OpLeave ch 0) S) d \<noteq> None \<longleftrightarrow> d \<noteq> ch \<and> S d \<noteq> None"
    unfolding own_def by (elim disjE exE; auto)+
qed

abbreviation listed :: "mod_client \<Rightarrow> string \<Rightarrow> bool" where
  "listed c \<equiv> (\<lambda>ch. channelRegistered ch (cl_channels c))"

lemma client_registers:
  assumes "client_ok c"
  shows "client_ok (c\<lparr>cl_sent := ps, cl_channels := snd (joinChannel ch 0 (cl_channels c))\<rparr>)"
    and "listed (c\<lparr>cl_channels := snd (joinChannel ch 0 (cl_channels c))\<rparr>) = (listed c)(ch := True)"
    and "client_ok (c\<lparr>cl_sent := ps, cl_channels := snd (leaveChannel ch 0 (cl_channels c))\<rparr>)"
    and "listed (c\<lparr>cl_channels := snd (leaveChannel ch 0 (cl_channels c))\<rparr>) = (listed c)(ch := False)"
proof -
  have ok: "mgr_ok (cl_channels c)" "own (channels_of (cl_channels c))"
    using assms by (simp_all add: client_ok_def)
  note facts = joinChannel_refines [OF ok(1), of ch 0] leaveChannel_refines [OF ok(1), of ch 0] own_spec [OF ok(2), of ch]
  show "client_ok (c\<lparr>cl_sent := ps, cl_channels := snd (joinChannel ch 0 (cl_channels c))\<rparr>)"
    "client_ok (c\<lparr>cl_sent := ps, cl_channels := snd (leaveChannel ch 0 (cl_channels c))\<rparr>)"
    using facts by (simp_all add: client_ok_def del: spec_op.simps)
  show "listed (c\<lparr>cl_channels := snd (joinChannel ch 0 (cl_channels c))\<rparr>) = (listed c)(ch := True)"
    "listed (c\<lparr>cl_channels := snd (leaveChannel ch 0 (cl_channels c))\<rparr>) = (listed c)(ch := False)"
    using facts by (auto simp: peers_of_channels(3) fun_eq_iff simp del: spec_op.simps)
qed

text \<open>What an operation of the client's scripts does: nothing, or a request that is effective and its packet.\<close>

definition asks :: "u16 \<Rightarrow> mod_client \<Rightarrow> mod_client \<Rightarrow> bool" where
  "asks P c c' \<longleftrightarrow> c' = c \<or>
     (\<exists>r p. effective r (listed c) \<and> listed c' = after r (listed c) \<and> cl_sent c' = cl_sent c @ [p] \<and> carries P r p)"

lemma carries_request:
  assumes "length ch \<le> STRING_MAX_LEN" and "cmd = TOSERVER_MODCHANNEL_JOIN \<and> r = Join ch \<or> cmd = TOSERVER_MODCHANNEL_LEAVE \<and> r = Leave ch"
  obtains p where "put_string ch (packet_new cmd 0 0) = Inr p" and "carries P r p"
proof -
  obtain p where p: "put_string ch (packet_new cmd 0 0) = Inr p"
    "\<And>from. \<exists>q q'. deliver from p = Inr q \<and> np_command q = cmd \<and> np_peer_id q = from \<and> get_string q = Inr (ch, q')"
    by (rule request_packet [OF assms(1), of cmd 0]) (use assms(2) in \<open>auto simp: command_defs\<close>)
  from p(2) [of P] assms(2) have "carries P r p"
    by (auto simp: carries_def request_of_def command_defs)
  with p that show ?thesis by blast
qed

lemma carries_message:
  assumes "rbind (put_string ch (packet_new TOSERVER_MODCHANNEL_MSG 0 0)) (put_string msg) = Inr p"
  shows "carries P (Say ch) p"
proof -
  from assms have "length ch \<le> STRING_MAX_LEN" "length msg \<le> STRING_MAX_LEN"
    by (auto dest: put_string_ok)
  from request_packet2 [OF this, of TOSERVER_MODCHANNEL_MSG 0] assms obtain q q1 q' where
    "deliver P p = Inr q" "np_command q = TOSERVER_MODCHANNEL_MSG" "np_peer_id q = P"
    "get_string q = Inr (ch, q1)" "get_string q1 = Inr (msg, q')"
    by (auto simp: command_defs) blast
  then show ?thesis
    by (auto simp: carries_def request_of_def command_defs)
qed

lemma script_asks:
  assumes "client_ok c"
  shows "asks P c (snd (Client_joinModChannel ch c)) \<and> client_ok (snd (Client_joinModChannel ch c))"
    and "asks P c (snd (Client_leaveModChannel ch c)) \<and> client_ok (snd (Client_leaveModChannel ch c))"
    and "asks P c (snd (Client_sendModChannelMessage ch msg c)) \<and> client_ok (snd (Client_sendModChannelMessage ch msg c))"
proof -
  note reg = client_registers [OF assms, where ch = ch]
  show "asks P c (snd (Client_joinModChannel ch c)) \<and> client_ok (snd (Client_joinModChannel ch c))"
  proof (cases "channelRegistered ch (cl_channels c) \<or> length ch > STRING_MAX_LEN")
    case True
    then show ?thesis using assms by (auto simp: Client_joinModChannel_def asks_def put_string_def)
  next
    case False
    then obtain p where p: "put_string ch (packet_new TOSERVER_MODCHANNEL_JOIN 0 0) = Inr p" "carries P (Join ch) p"
      using carries_request [where ch = ch and cmd = TOSERVER_MODCHANNEL_JOIN and r = "Join ch" and P = P] by auto
    with False reg show ?thesis
      by (auto simp: Client_joinModChannel_def asks_def Let_def Client_Send_def intro!: exI [of _ "Join ch"])
  qed
  show "asks P c (snd (Client_leaveModChannel ch c)) \<and> client_ok (snd (Client_leaveModChannel ch c))"
  proof (cases "channelRegistered ch (cl_channels c) \<and> length ch \<le> STRING_MAX_LEN")
    case False
    then show ?thesis using assms by (auto simp: Client_leaveModChannel_def asks_def put_string_def)
  next
    case True
    then obtain p where p: "put_string ch (packet_new TOSERVER_MODCHANNEL_LEAVE 0 0) = Inr p" "carries P (Leave ch) p"
      using carries_request [where ch = ch and cmd = TOSERVER_MODCHANNEL_LEAVE and r = "Leave ch" and P = P] by auto
    with True reg show ?thesis
      by (auto simp: Client_leaveModChannel_def asks_def Let_def Client_Send_def intro!: exI [of _ "Leave ch"])
  qed
  let ?put = "rbind (put_string ch (packet_new TOSERVER_MODCHANNEL_MSG 0 0)) (put_string msg)"
  show "asks P c (snd (Client_sendModChannelMessage ch msg c)) \<and> client_ok (snd (Client_sendModChannelMessage ch msg c))"
  proof (cases "canWriteOnChannel ch (cl_channels c) \<and> length msg \<le> STRING_MAX_LEN \<and> is_ok ?put")
    case False
    then show ?thesis using assms
      by (cases ?put) (auto simp: Client_sendModChannelMessage_def asks_def)
  next
    case True
    then obtain p where p: "?put = Inr p" by (cases ?put) auto
    moreover have "channelRegistered ch (cl_channels c)"
      using True by (simp add: canWriteOnChannel_def channelRegistered_def split: option.splits)
    ultimately show ?thesis
      using True carries_message [OF p, of P] assms
      by (auto simp: Client_sendModChannelMessage_def asks_def Client_Send_def client_ok_def intro!: exI [of _ "Say ch"])
  qed
qed

lemma state_change_ok:
  assumes "setChannelState ch st m = Inr (b, m')" and "mgr_ok m"
  shows "mgr_ok m'" and "channelRegistered d m' = channelRegistered d m" and "own (channels_of m) \<Longrightarrow> own (channels_of m')"
  using assms mgr_okD [OF assms(2), of ch]
  by (auto simp: setChannelState_def setState_def channelRegistered_def channels_of_def map_of_update own_def
      split: option.splits if_splits intro!: mgr_ok_update)

text \<open>
  A message changes nothing in the list of channels, and of the answers only a refused join does,
  which takes its channel off the list.
\<close>

lemma message_harmless:
  assumes "is_message p" and "deliver SERVER_PEER p = Inr q" and "client_ok c"
  shows "listed (snd (client_handler q c)) = listed c \<and> cl_sent (snd (client_handler q c)) = cl_sent c \<and>
    client_ok (snd (client_handler q c))"
proof -
  have "snd (Client_ModChannelMsg q c) = c \<or> (\<exists>x. snd (Client_ModChannelMsg q c) = c\<lparr>cl_heard := x\<rparr>)"
    by (auto simp: Client_ModChannelMsg_def attempt_def split: sum.splits prod.splits)
  moreover have "np_command q = TOCLIENT_MODCHANNEL_MSG" using assms(1,2) by (auto simp: is_message_def)
  ultimately show ?thesis using assms(3) by (elim disjE exE) (simp_all add: client_handler_def client_ok_def)
qed

definition touches :: "string \<Rightarrow> mod_client \<Rightarrow> mod_client \<Rightarrow> bool" where
  "touches ch c c' \<longleftrightarrow> cl_sent c' = cl_sent c \<and> client_ok c' \<and> (\<forall>d. d \<noteq> ch \<longrightarrow> listed c' d = listed c d)"

lemma state_touches:
  assumes "client_ok c" and "setChannelState ch st (cl_channels c) = Inr (b, m)"
  shows "touches ch c (snd (on_modchannel_signal d sig (c\<lparr>cl_channels := m\<rparr>)))"
    and "listed (snd (on_modchannel_signal d sig (c\<lparr>cl_channels := m\<rparr>))) = listed c"
  using state_change_ok [OF assms(2)] assms(1)
  by (auto simp: touches_def on_modchannel_signal_def client_ok_def)

lemma answer_harmless:
  assumes "signals sig ch p" and "deliver SERVER_PEER p = Inr q" and "client_ok c"
  shows "touches ch c (snd (client_handler q c))"
    and "sig = MODCHANNEL_SIGNAL_JOIN_OK \<or> sig = MODCHANNEL_SIGNAL_LEAVE_OK \<Longrightarrow> listed (snd (client_handler q c)) = listed c"
proof -
  obtain q1 q2 where sig: "np_command q = TOCLIENT_MODCHANNEL_SIGNAL" "get_u8 q = Inr (signal_code sig, q1)"
    "get_string q1 = Inr (ch, q2)" using assms(1,2) by (auto simp: signals_def)
  have same: "touches ch c c" using assms(3) by (simp add: touches_def)
  have quiet: "touches ch c (snd (on_modchannel_signal d sig' c)) \<and> listed (snd (on_modchannel_signal d sig' c)) = listed c"
    for d sig' using assms(3) by (simp add: touches_def on_modchannel_signal_def client_ok_def)
  have set: "touches ch c (snd (attempt (setChannelState ch st (cl_channels c)) c (\<lambda>(_, m). on_modchannel_signal ch sig (c\<lparr>cl_channels := m\<rparr>)))) \<and>
      listed (snd (attempt (setChannelState ch st (cl_channels c)) c (\<lambda>(_, m). on_modchannel_signal ch sig (c\<lparr>cl_channels := m\<rparr>)))) = listed c" for st
    using same state_touches [OF assms(3)] by (cases "setChannelState ch st (cl_channels c)") (auto simp: attempt_def)
  have left: "touches ch c (snd (on_modchannel_signal ch sig (c\<lparr>cl_channels := snd (leaveChannel ch 0 (cl_channels c))\<rparr>)))"
    using client_registers(3,4) [OF assms(3), where ch = ch] by (auto simp: touches_def on_modchannel_signal_def client_ok_def fun_eq_iff)
  show "touches ch c (snd (client_handler q c))"
  proof (cases "sig = MODCHANNEL_SIGNAL_SET_STATE")
    case True
    then show ?thesis
      using sig same set by (cases "get_u8 q2") (auto simp: client_handler_def Client_ModChannelSignal_def command_defs signal_of_def)
  next
    case False
    then show ?thesis
      using sig set quiet left by (cases sig) (simp_all add: client_handler_def Client_ModChannelSignal_def command_defs signal_of_def)
  qed
  show "listed (snd (client_handler q c)) = listed c"
    if "sig = MODCHANNEL_SIGNAL_JOIN_OK \<or> sig = MODCHANNEL_SIGNAL_LEAVE_OK"
    using that sig quiet set by (auto simp: client_handler_def Client_ModChannelSignal_def command_defs signal_of_def)
qed

lemma granted_harmless:
  assumes "granted p" and "deliver SERVER_PEER p = Inr q" and "client_ok c"
  shows "listed (snd (client_handler q c)) = listed c \<and> cl_sent (snd (client_handler q c)) = cl_sent c \<and>
    client_ok (snd (client_handler q c))"
proof -
  from assms(1) consider "is_message p" | sig ch where "signals sig ch p" "sig = MODCHANNEL_SIGNAL_JOIN_OK \<or> sig = MODCHANNEL_SIGNAL_LEAVE_OK"
    by (auto simp: granted_def)
  then show ?thesis
  proof cases
    case 1
    then show ?thesis by (rule message_harmless [OF _ assms(2,3)])
  next
    case 2
    with answer_harmless [OF 2(1) assms(2,3)] show ?thesis by (simp add: touches_def)
  qed
qed

subsection \<open>The invariant of a session\<close>

text \<open>
  For the channels of \<open>D\<close>, the requests on their way are all effective, and when they are done the
  server has the client as a member exactly when the client lists the channel. With no channel in
  \<open>D\<close> this says only what the client keeps and sends.
\<close>

definition agree_on :: "string set \<Rightarrow> u16 \<Rightarrow> request list \<Rightarrow> (string \<Rightarrow> bool) \<Rightarrow> mod_client \<Rightarrow> bool" where
  "agree_on D P rs mem c \<longleftrightarrow> list_all2 (carries P) rs (cl_sent c) \<and>
     (\<forall>d\<in>D. effective_all (on_channel d rs) mem \<and> after_all rs mem d = listed c d)"

definition fair :: "string set \<Rightarrow> packet \<Rightarrow> bool" where
  "fair D p \<longleftrightarrow> granted p \<or> (\<exists>ch. ch \<notin> D \<and> concerns ch p)"

definition agree :: "string set \<Rightarrow> u16 \<Rightarrow> mod_client \<Rightarrow> mod_server \<Rightarrow> bool" where
  "agree D P c s \<longleftrightarrow> sv_enabled s \<and> client_ok c \<and> (\<exists>rs. agree_on D P rs (members P s) c) \<and>
     (\<forall>p. (P, p) \<in> set (sv_sent s) \<longrightarrow> fair D p)"

lemma agreeE [elim]:
  assumes "agree D P c s"
  obtains rs where "sv_enabled s" and "client_ok c" and "agree_on D P rs (members P s) c"
    and "\<And>p. (P, p) \<in> set (sv_sent s) \<Longrightarrow> fair D p"
  using assms unfolding agree_def by blast

lemma agreeI:
  "sv_enabled s \<Longrightarrow> client_ok c \<Longrightarrow> agree_on D P rs (members P s) c \<Longrightarrow>
   (\<And>p. (P, p) \<in> set (sv_sent s) \<Longrightarrow> fair D p) \<Longrightarrow> agree D P c s"
  unfolding agree_def by blast

lemma effective_on_snoc:
  assumes "effective_all (on_channel d rs) mem" and "channel_of r = d \<Longrightarrow> effective r mem'" and "after_all rs mem d = mem' d"
  shows "effective_all (on_channel d (rs @ [r])) mem"
proof (cases "channel_of r = d")
  case True
  then have "after_all (on_channel d rs) mem (channel_of r) = mem' (channel_of r)"
    using assms(3) by (simp add: after_all_on_channel)
  from one_channel [of "after_all (on_channel d rs) mem" r mem', OF this] assms True show ?thesis by simp
qed (use assms in simp)

text \<open>A request joins the queue, and a request leaves it.\<close>

lemma agree_on_snoc:
  assumes "agree_on D P rs mem c" and "effective r (listed c)" and "listed c' = after r (listed c)"
    and "cl_sent c' = cl_sent c @ [p]" and "carries P r p"
  shows "agree_on D P (rs @ [r]) mem c'"
proof -
  have "effective_all (on_channel d (rs @ [r])) mem \<and> after_all (rs @ [r]) mem d = listed c' d" if "d \<in> D" for d
  proof -
    from assms(1) that have d: "effective_all (on_channel d rs) mem" "after_all rs mem d = listed c d"
      by (simp_all add: agree_on_def)
    have "after r (after_all rs mem) d = after r (listed c) d" using d(2) by (rule after_cong)
    with effective_on_snoc [of d rs mem r "listed c"] d assms(2) fun_cong [OF assms(3), of d]
    show ?thesis by (simp del: on_channel_simps(3))
  qed
  with assms show ?thesis by (simp add: agree_on_def list_all2_appendI del: on_channel_simps(3) after_all_simps(3))
qed

lemma agree_on_tl:
  assumes "agree_on D P (r # rs) mem c" and "cl_sent c = p # ps"
  shows "agree_on D P rs (after r mem) (c\<lparr>cl_sent := ps\<rparr>)"
    and "channel_of r \<in> D \<Longrightarrow> effective r mem"
proof -
  have "effective_all (on_channel d rs) (after r mem) \<and> after_all rs (after r mem) d = listed c d" if "d \<in> D" for d
  proof (cases "channel_of r = d")
    case False
    then have "after r mem d = mem d" by simp
    moreover have "effective_all (on_channel d rs) mem \<and> after_all rs (after r mem) d = listed c d"
      using assms(1) that False by (auto simp: agree_on_def dest!: bspec [where x = d])
    ultimately show ?thesis using effective_on_cong [of "after r mem" d mem rs] by simp
  qed (use assms(1) that in \<open>auto simp: agree_on_def dest!: bspec [where x = d]\<close>)
  with assms show "agree_on D P rs (after r mem) (c\<lparr>cl_sent := ps\<rparr>)" by (simp add: agree_on_def)
  show "effective r mem" if "channel_of r \<in> D" using assms(1) that by (auto simp: agree_on_def)
qed

lemma agree_on_same: "agree_on D P rs mem c \<Longrightarrow> cl_sent c' = cl_sent c \<Longrightarrow> \<forall>d\<in>D. listed c' d = listed c d \<Longrightarrow> agree_on D P rs mem c'"
  by (simp add: agree_on_def)

lemma agree_asks:
  assumes "agree D P c s" and "asks P c c' \<and> client_ok c'"
  shows "agree D P c' s"
proof (cases "c' = c")
  case False
  with assms(2) obtain r p where r: "effective r (listed c)" "listed c' = after r (listed c)" "cl_sent c' = cl_sent c @ [p]"
    "carries P r p" unfolding asks_def by blast
  from assms(1) show ?thesis
  proof (rule agreeE)
    fix rs
    assume rs: "sv_enabled s" "client_ok c" "agree_on D P rs (members P s) c" "\<And>p. (P, p) \<in> set (sv_sent s) \<Longrightarrow> fair D p"
    from agree_on_snoc [OF rs(3) r] rs assms(2) show ?thesis by (intro agreeI [where rs = "rs @ [r]"]) simp_all
  qed
qed (use assms in simp)

lemma agree_adds:
  assumes "agree D P c s" and "adds a Q s s'" and "members P s' = members P s" and "a \<noteq> P"
  shows "agree D P c s'"
  using assms(1)
proof (rule agreeE)
  fix rs
  assume rs: "sv_enabled s" "client_ok c" "agree_on D P rs (members P s) c" "\<And>p. (P, p) \<in> set (sv_sent s) \<Longrightarrow> fair D p"
  from assms(2) obtain out where out: "sv_enabled s' = sv_enabled s" "sv_sent s' = sv_sent s @ out"
    "\<forall>(x, p) \<in> set out. is_message p \<or> x = a \<and> Q p" by (auto simp: adds_def)
  with assms(4) rs(4) have "fair D p" if "(P, p) \<in> set (sv_sent s')" for p
    using that by (auto simp: fair_def granted_def)
  with rs out(1) assms(3) show ?thesis by (intro agreeI) simp_all
qed

lemma agree_request:
  assumes "agree D P c s" and "cl_sent c = p # ps" and "deliver P p = Inr q"
  shows "agree D P (c\<lparr>cl_sent := ps\<rparr>) (snd (server_handler q s))"
  using assms(1)
proof (rule agreeE)
  fix rs
  let ?s = "snd (server_handler q s)"
  assume rs: "sv_enabled s" "client_ok c" "agree_on D P rs (members P s) c" and sent: "\<And>p. (P, p) \<in> set (sv_sent s) \<Longrightarrow> fair D p"
  then obtain r rs' where r: "rs = r # rs'" "carries P r p"
    using assms(2) by (auto simp: agree_on_def list_all2_Cons2)
  then have q: "np_peer_id q = P" "request_of q = Some r"
    using assms(3) by (auto simp: carries_def)
  note h = handled_request [OF q(2) rs(1)]
  have mem: "members P ?s = after r (members P s)"
    using registry.perform_effective(2) [of P r "sv_channels s"] h(1) q(1) by simp
  note tl = agree_on_tl [OF rs(3) [unfolded r(1)] assms(2)]
  from h(2) q(1) obtain out where out: "sv_enabled ?s = sv_enabled s" "sv_sent ?s = sv_sent s @ out"
    "\<forall>(x, p) \<in> set out. is_message p \<or> x = P \<and> answers r (members P s) p" by (auto simp: adds_def)
  have "fair D p'" if "is_message p' \<or> answers r (members P s) p'" for p'
    using that tl(2) by (auto simp: fair_def answers_def granted_def)
  with out sent have "fair D p'" if "(P, p') \<in> set (sv_sent ?s)" for p'
    using that by auto
  with rs(1,2) tl(1) mem out(1) show ?thesis
    by (intro agreeI [where rs = rs']) (simp_all add: client_ok_def)
qed

lemma agree_answer:
  assumes "agree D P c s" and "sv_sent s = xs @ (P, p) # ys" and "deliver SERVER_PEER p = Inr q"
  shows "agree D P (snd (client_handler q c)) (s\<lparr>sv_sent := xs @ ys\<rparr>)"
  using assms(1)
proof (rule agreeE)
  fix rs
  assume rs: "sv_enabled s" "client_ok c" "agree_on D P rs (members P s) c" and sent: "\<And>p. (P, p) \<in> set (sv_sent s) \<Longrightarrow> fair D p"
  let ?c = "snd (client_handler q c)"
  have "fair D p" using sent assms(2) by simp
  then have "cl_sent ?c = cl_sent c \<and> client_ok ?c \<and> (\<forall>d\<in>D. listed ?c d = listed c d)"
    unfolding fair_def
  proof
    assume "granted p"
    from granted_harmless [OF this assms(3) rs(2)] show ?thesis by (simp add: fun_eq_iff)
  next
    assume "\<exists>ch. ch \<notin> D \<and> concerns ch p"
    then obtain ch sig where ch: "ch \<notin> D" "signals sig ch p" by (auto simp: concerns_def)
    from answer_harmless(1) [OF ch(2) assms(3) rs(2)] ch(1) show ?thesis
      unfolding touches_def by (elim conjE, intro conjI ballI) (assumption+, metis)
  qed
  with agree_on_same [OF rs(3)] rs sent assms(2) show ?thesis
    by (intro agreeI [where rs = rs]) auto
qed

lemma agree_discard:
  assumes "agree D P c s" and "sv_sent s = xs @ (P, p) # ys"
  shows "agree D P c (s\<lparr>sv_sent := xs @ ys\<rparr>)"
  using assms(1) by (rule agreeE) (use assms(2) in \<open>auto intro!: agreeI\<close>)

lemma agree_dropped:
  assumes "agree {} P c s" and "cl_sent c = p # ps"
  shows "agree {} P (c\<lparr>cl_sent := ps\<rparr>) s"
  using assms(1)
proof (rule agreeE)
  fix rs
  assume rs: "sv_enabled s" "client_ok c" "agree_on {} P rs (members P s) c" and sent: "\<And>p. (P, p) \<in> set (sv_sent s) \<Longrightarrow> fair {} p"
  then obtain rs' where "agree_on {} P rs' (members P s) (c\<lparr>cl_sent := ps\<rparr>)"
    using assms(2) by (auto simp: agree_on_def list_all2_Cons2)
  then show ?thesis using rs sent by (intro agreeI) (simp_all add: client_ok_def)
qed

lemma server_operations:
  "adds SERVER_PEER Q s (snd (Server_joinModChannel ch s)) \<and> (P \<noteq> SERVER_PEER \<longrightarrow> members P (snd (Server_joinModChannel ch s)) = members P s)"
  "adds SERVER_PEER Q s (snd (Server_leaveModChannel ch s)) \<and> (P \<noteq> SERVER_PEER \<longrightarrow> members P (snd (Server_leaveModChannel ch s)) = members P s)"
  "adds SERVER_PEER Q s (snd (Server_sendModChannelMessage ch msg s)) \<and> members P (snd (Server_sendModChannelMessage ch msg s)) = members P s"
proof -
  have set_state: "joined P d m' = joined P d m" if "setChannelState ch st m = Inr (b, m')" for d st m b m'
    using that by (auto simp: setChannelState_def setState_def joined_def getChannelPeers_def map_of_update
        split: option.splits if_splits)
  obtain b m where j: "joinChannel ch SERVER_PEER (sv_channels s) = (b, m)" by fastforce
  then have "members P (s\<lparr>sv_channels := m\<rparr>) = members P s" if "P \<noteq> SERVER_PEER"
    using registry.join_member [where c = ch and p = SERVER_PEER and m = "sv_channels s"] that by (auto simp: fun_eq_iff)
  with j set_state show "adds SERVER_PEER Q s (snd (Server_joinModChannel ch s)) \<and>
      (P \<noteq> SERVER_PEER \<longrightarrow> members P (snd (Server_joinModChannel ch s)) = members P s)"
    by (cases "setChannelState ch MODCHANNEL_STATE_READ_WRITE m") (auto simp: Server_joinModChannel_def Let_def fun_eq_iff)
  obtain b' m' where l: "leaveChannel ch SERVER_PEER (sv_channels s) = (b', m')" by fastforce
  then show "adds SERVER_PEER Q s (snd (Server_leaveModChannel ch s)) \<and>
      (P \<noteq> SERVER_PEER \<longrightarrow> members P (snd (Server_leaveModChannel ch s)) = members P s)"
    using registry.leave_member [where c = ch and p = SERVER_PEER and m = "sv_channels s"]
    by (auto simp: Server_leaveModChannel_def fun_eq_iff)
  obtain r s1 where b: "broadcastModChannelMessage ch msg SERVER_PEER s = (r, s1)" by fastforce
  then show "adds SERVER_PEER Q s (snd (Server_sendModChannelMessage ch msg s)) \<and> members P (snd (Server_sendModChannelMessage ch msg s)) = members P s"
    using broadcast_adds [where ch = ch and msg = msg and a = SERVER_PEER and s = s]
    by (cases r) (auto simp: Server_sendModChannelMessage_def)
qed

lemma agree_scripts:
  assumes "agree D P c s"
  shows "agree D P (snd (Client_joinModChannel ch c)) s" "agree D P (snd (Client_leaveModChannel ch c)) s"
    "agree D P (snd (Client_sendModChannelMessage ch msg c)) s"
proof -
  have "client_ok c" using assms by blast
  note asks = script_asks [OF this, of P]
  show "agree D P (snd (Client_joinModChannel ch c)) s"
    by (rule agree_asks [OF assms asks(1)])
  show "agree D P (snd (Client_leaveModChannel ch c)) s"
    by (rule agree_asks [OF assms asks(2)])
  show "agree D P (snd (Client_sendModChannelMessage ch msg c)) s"
    by (rule agree_asks [OF assms asks(3)])
qed

lemma agree_server:
  assumes "agree D P c s" and "P \<noteq> SERVER_PEER"
  shows "agree D P c (snd (Server_joinModChannel ch s))" "agree D P c (snd (Server_leaveModChannel ch s))"
    "agree D P c (snd (Server_sendModChannelMessage ch msg s))"
proof -
  note ops = server_operations [where Q = "\<lambda>_. True" and s = s and P = P]
  show "agree D P c (snd (Server_joinModChannel ch s))"
    by (rule agree_adds [OF assms(1)]) (use ops assms(2) in blast)+
  show "agree D P c (snd (Server_leaveModChannel ch s))"
    by (rule agree_adds [OF assms(1)]) (use ops assms(2) in blast)+
  show "agree D P c (snd (Server_sendModChannelMessage ch msg s))"
    by (rule agree_adds [OF assms(1)]) (use ops assms(2) in blast)+
qed

text \<open>A packet of another peer, whether it is heard or not.\<close>

lemma other_request:
  assumes "np_peer_id q \<noteq> P" and "sv_enabled s"
  shows "\<exists>Q. adds (np_peer_id q) Q s (snd (Server_ProcessData g q s)) \<and> members P (snd (Server_ProcessData g q s)) = members P s"
proof (cases rule: ProcessData_cases [of g q s])
  case 1
  show ?thesis
  proof (cases "request_of q")
    case None
    then show ?thesis using 1 handled_nothing [OF None, of s] by simp
  next
    case (Some r)
    note h = handled_request [OF Some assms(2)]
    have "members P (snd (server_handler q s)) = members P s"
      using registry.others_only [of "np_peer_id q" P r "sv_channels s"] assms(1) h(1) by simp
    with h(2) 1 show ?thesis by auto
  qed
qed simp

lemma other_disconnects:
  "p \<noteq> P \<Longrightarrow> adds p Q s (Server_DisconnectPeer p s) \<and> members P (Server_DisconnectPeer p s) = members P s"
  using registry.others_gone [of p P "sv_channels s"] by (simp add: Server_DisconnectPeer_def)

lemma delivered_peer:
  assumes "agree D P c s" and "cl_sent c = p # ps" and "deliver P p = Inr q"
  shows "np_peer_id q = P"
  using assms(1) by (rule agreeE) (use assms(2,3) in \<open>auto simp: agree_on_def list_all2_Cons2 carries_def\<close>)

lemma agree_step:
  assumes "session_step P (c, g, s) (c', g', s')" and "agree D P c s" and "P \<noteq> SERVER_PEER"
    and "heard_by_server P g \<or> D = {}"
  shows "agree D P c' s'"
  using assms(1)
proof (cases rule: session_step.cases)
  case (server_receives p ps q)
  have "np_peer_id q = P" by (rule delivered_peer [OF assms(2) server_receives(4,5)])
  then consider "Server_ProcessData g q s = server_handler q s" | "D = {}" "snd (Server_ProcessData g q s) = s"
    using assms(4) ProcessData_heard [of q g s] ProcessData_unheard [of q g s] by blast
  then show ?thesis
  proof cases
    case 1
    with agree_request [OF assms(2) server_receives(4,5)] server_receives show ?thesis by simp
  next
    case 2
    with agree_dropped [of P c s] assms(2) server_receives show ?thesis by simp
  qed
next
  case (other_packet q)
  have "sv_enabled s" using assms(2) by blast
  from other_request [OF other_packet(4) this, of g] agree_adds [OF assms(2)] other_packet show ?thesis by blast
next
  case (other_gone p)
  from other_disconnects [OF other_gone(4)] agree_adds [OF assms(2)] other_gone show ?thesis by blast
qed (use agree_scripts [OF assms(2)] agree_server [OF assms(2,3)] agree_answer [OF assms(2)] agree_discard [OF assms(2)] assms(2) in simp_all)

lemma agree_session:
  assumes "session P b x y" and "agree D P (fst x) (snd (snd x))" and "P \<noteq> SERVER_PEER" and "b \<or> D = {}"
  shows "agree D P (fst y) (snd (snd y))"
  using assms
proof (induction rule: session.induct)
  case (continue x y z)
  then show ?case
    using agree_step [of P "fst y" "fst (snd y)" "snd (snd y)" "fst z" "fst (snd z)" "snd (snd z)" D] session_heard [of P b x y]
    by simp
qed simp

subsection \<open>Before the client is heard\<close>

text \<open>Nothing that the client asks for is done or answered.\<close>

definition unknown_to :: "u16 \<Rightarrow> mod_server \<Rightarrow> bool" where
  "unknown_to P s \<longleftrightarrow> (\<forall>ch. \<not> members P s ch) \<and> (\<forall>p. (P, p) \<in> set (sv_sent s) \<longrightarrow> is_message p)"

lemma unknown_adds:
  "unknown_to P s \<Longrightarrow> adds a Q s s' \<Longrightarrow> members P s' = members P s \<Longrightarrow> a \<noteq> P \<Longrightarrow> unknown_to P s'"
  by (auto simp: unknown_to_def adds_def fun_eq_iff)

lemma unknown_step:
  assumes "session_step P (c, g, s) (c', g', s')" and "unknown_to P s" and "P \<noteq> SERVER_PEER"
    and "\<not> heard_by_server P g" and "agree {} P c s"
  shows "unknown_to P s'"
  using assms(1)
proof (cases rule: session_step.cases)
  case (server_receives p ps q)
  have "np_peer_id q = P" by (rule delivered_peer [OF assms(5) server_receives(4,5)])
  then show ?thesis using server_receives assms(2,4) ProcessData_unheard [of q g s] by simp
next
  case (other_packet q)
  have "sv_enabled s" using assms(5) by blast
  from other_request [OF other_packet(4) this, of g] unknown_adds [OF assms(2)] other_packet show ?thesis by blast
next
  case (other_gone p)
  from other_disconnects [OF other_gone(4)] unknown_adds [OF assms(2)] other_gone show ?thesis by blast
next
  case (server_join ch)
  from server_operations(1) [of _ s ch P] unknown_adds [OF assms(2)] assms(3) server_join show ?thesis by metis
next
  case (server_leave ch)
  from server_operations(2) [of _ s ch P] unknown_adds [OF assms(2)] assms(3) server_leave show ?thesis by metis
next
  case (server_send ch msg)
  from server_operations(3) [of _ s ch msg P] unknown_adds [OF assms(2)] assms(3) server_send show ?thesis by metis
qed (use assms(2) in \<open>auto simp: unknown_to_def\<close>)

lemma agree_new:
  assumes "sv_enabled s\<^sub>0" and "P \<notin> fst ` set (sv_sent s\<^sub>0)"
  shows "agree {} P client_new s\<^sub>0"
  using assms by (intro agreeI [where rs = "[]"])
    (auto simp: client_new_def client_ok_def own_def channels_of_def agree_on_def rev_image_eqI)

lemma unheard_session:
  assumes "session P False x y" and "agree {} P (fst x) (snd (snd x))" and "unknown_to P (snd (snd x))" and "P \<noteq> SERVER_PEER"
  shows "unknown_to P (snd (snd y))"
  using assms
proof (induction rule: session.induct)
  case (continue x y z)
  then show ?case
    using unknown_step [of P "fst y" "fst (snd y)" "snd (snd y)" "fst z" "fst (snd z)" "snd (snd z)"] session_heard [of P False x y]
      agree_session [of P False x y "{}"]
    by simp
qed simp

text \<open>
  So a channel that a mod of the client joins while it is loaded is lost: the request is dropped, the
  client keeps the channel on its list, the server does not know of it, no answer is sent, and the
  client refuses to ask again.
\<close>

lemma early_join_lost:
  assumes "length ch \<le> STRING_MAX_LEN" and "\<not> heard_by_server P g"
  shows "\<exists>c. session P False (client_new, g, s) (c, g, s) \<and> cl_sent c = [] \<and> channelRegistered ch (cl_channels c) \<and>
    Client_joinModChannel ch c = (Inr False, c)"
proof -
  obtain p where p: "put_string ch (packet_new TOSERVER_MODCHANNEL_JOIN 0 0) = Inr p" "carries P (Join ch) p"
    using carries_request [OF assms(1), of TOSERVER_MODCHANNEL_JOIN "Join ch" P] by auto
  then obtain q where q: "deliver P p = Inr q" "np_peer_id q = P" by (auto simp: carries_def)
  let ?c = "snd (Client_joinModChannel ch client_new)"
  have c: "cl_sent ?c = [p]" "channelRegistered ch (cl_channels ?c)"
    using p(1) by (simp_all add: Client_joinModChannel_def client_new_def channelRegistered_def Client_Send_def Let_def
        joinChannel_def registerChannel_def registerConsumer_def manager_defs)
  let ?d = "?c\<lparr>cl_sent := []\<rparr>"
  have "session P False (client_new, g, s) (?c, g, s)"
    by (rule session.continue [OF session.start session_step.client_join]) (use assms(2) in simp_all)
  from session.continue [OF this session_step.server_receives [OF c(1) q(1)]]
  have "session P False (client_new, g, s) (?d, g, s)"
    using assms(2) ProcessData_unheard [of q g s] q(2) by simp
  then show ?thesis using c by (intro exI [of _ ?d]) (simp add: Client_joinModChannel_def)
qed

subsection \<open>The agreement\<close>

definition untouched :: "u16 \<Rightarrow> mod_client \<Rightarrow> string \<Rightarrow> bool" where
  "untouched P c ch \<longleftrightarrow> \<not> listed c ch \<and> (\<forall>p\<in>set (cl_sent c). \<forall>r. carries P r p \<longrightarrow> channel_of r \<noteq> ch)"

lemma untouched_requests:
  assumes "list_all2 (carries P) rs (cl_sent c)" and "untouched P c ch"
  shows "on_channel ch rs = []"
proof -
  have "channel_of r \<noteq> ch" if "r \<in> set rs" for r
  proof -
    from that obtain i where i: "i < length rs" "rs ! i = r" by (auto simp: in_set_conv_nth)
    with assms(1) have "carries P r (cl_sent c ! i)" "cl_sent c ! i \<in> set (cl_sent c)"
      by (auto simp: list_all2_conv_all_nth)
    with assms(2) show ?thesis by (auto simp: untouched_def)
  qed
  then show ?thesis by (auto simp: on_channel_def filter_empty_conv)
qed

lemma agree_when_heard:
  assumes "agree {} P c s" and "unknown_to P s"
  shows "agree {ch. untouched P c ch} P c s"
  using assms(1)
proof (rule agreeE)
  fix rs
  assume rs: "sv_enabled s" "client_ok c" "agree_on {} P rs (members P s) c"
  then have carried: "list_all2 (carries P) rs (cl_sent c)" by (simp add: agree_on_def)
  have "effective_all (on_channel d rs) (members P s) \<and> after_all rs (members P s) d = listed c d" if "untouched P c d" for d
    using untouched_requests [OF carried that] after_all_on_channel [of d rs "members P s"] that assms(2)
    by (simp add: untouched_def unknown_to_def)
  with carried have "agree_on {ch. untouched P c ch} P rs (members P s) c" by (simp add: agree_on_def)
  with rs assms(2) show ?thesis by (intro agreeI) (auto simp: unknown_to_def fair_def granted_def)
qed


definition server_new :: mod_server where
  "server_new = \<lparr>sv_channels = [], sv_enabled = True, sv_name = (\<lambda>_. ''sam''), sv_sent = [], sv_heard = [], sv_disconnected = []\<rparr>"

text \<open>A client that joins a channel while it connects, and another one when it is active.\<close>

definition early_client :: mod_client where
  "early_client = snd (Client_joinModChannel ''preview'' client_new)"

definition joining_client :: mod_client where
  "joining_client = snd (Client_joinModChannel ''lobby'' early_client)"

definition active_clients :: remote_clients where
  "active_clients = [2 \<mapsto> RemoteClient_new\<lparr>rc_state := CS_Active, rc_ser_ver := 29\<rparr>]"

lemma early_client_untouched: "untouched 2 early_client ''lobby''"
proof -
  obtain p where p: "put_string ''preview'' (packet_new TOSERVER_MODCHANNEL_JOIN 0 0) = Inr p" "carries 2 (Join ''preview'') p"
    using carries_request [of "''preview''" TOSERVER_MODCHANNEL_JOIN "Join ''preview''" 2] by (auto simp: STRING_MAX_LEN_def)
  then have "cl_sent early_client = [p]" "\<not> listed early_client ''lobby''"
    by (simp_all add: early_client_def Client_joinModChannel_def client_new_def channelRegistered_def Client_Send_def Let_def
        joinChannel_def registerChannel_def registerConsumer_def manager_defs)
  with p(2) show ?thesis by (auto simp: untouched_def dest: carries_unique)
qed


end
