(* ===== verification/MapNode.thy ===== *)
theory MapNode
  imports NameIdMap
begin

section \<open>The nodes of the map\<close>

text \<open>
  \<^verbatim>\<open>MapNode\<close> of \<^verbatim>\<open>src/mapnode.h\<close> and \<^verbatim>\<open>mapnode.cpp\<close>: the content id and two parameters. \<open>param1\<close> holds the
  light of day and night in four bits each.
\<close>

record map_node =
  param0 :: u16
  param1 :: u8
  param2 :: u8

definition node_new :: "u16 \<Rightarrow> map_node" where
  "node_new content = \<lparr>param0 = content, param1 = 0, param2 = 0\<rparr>"

definition getContent :: "map_node \<Rightarrow> u16" where "getContent n = param0 n"
definition setContent :: "u16 \<Rightarrow> map_node \<Rightarrow> map_node" where "setContent c n = n\<lparr>param0 := c\<rparr>"
definition getParam1 :: "map_node \<Rightarrow> u8" where "getParam1 n = param1 n"
definition setParam1 :: "u8 \<Rightarrow> map_node \<Rightarrow> map_node" where "setParam1 p n = n\<lparr>param1 := p\<rparr>"
definition getParam2 :: "map_node \<Rightarrow> u8" where "getParam2 n = param2 n"
definition setParam2 :: "u8 \<Rightarrow> map_node \<Rightarrow> map_node" where "setParam2 p n = n\<lparr>param2 := p\<rparr>"

end
