(* ===== verification/NodeDef.thy ===== *)
theory NodeDef
  imports ItemDef MapNode
begin

section \<open>The node definition manager\<close>

text \<open>
  \<^verbatim>\<open>ContentFeatures\<close> and \<^verbatim>\<open>NodeDefManager\<close> of \<^verbatim>\<open>src/nodedef.h\<close> and \<^verbatim>\<open>nodedef.cpp\<close>: what the engine
  knows about every content id, the names of the ids with their aliases, and the groups. Of the
  features the record keeps what the manager, the nodes and the lighting read; textures, sounds
  and the boxes in floating point are left out. A vector is a list; the hash maps are association
  lists, on the order of which nothing depends.
\<close>

unbundle bit_operations_syntax

subsection \<open>Content features\<close>

datatype content_param_type = CPT_NONE | CPT_LIGHT

datatype content_param_type2 =
    CPT2_NONE | CPT2_FULL | CPT2_FLOWINGLIQUID | CPT2_FACEDIR | CPT2_WALLMOUNTED | CPT2_LEVELED
  | CPT2_DEGROTATE | CPT2_MESHOPTIONS | CPT2_COLOR | CPT2_COLORED_FACEDIR
  | CPT2_COLORED_WALLMOUNTED | CPT2_GLASSLIKE_LIQUID_LEVEL | CPT2_COLORED_DEGROTATE
  | CPT2_4DIR | CPT2_COLORED_4DIR

datatype liquid_kind = LIQUID_NONE | LIQUID_FLOWING | LIQUID_SOURCE

datatype node_box_type =
  NODEBOX_REGULAR | NODEBOX_FIXED | NODEBOX_WALLMOUNTED | NODEBOX_LEVELED | NODEBOX_CONNECTED

datatype node_draw_type =
    NDT_NORMAL | NDT_AIRLIKE | NDT_LIQUID | NDT_FLOWINGLIQUID | NDT_GLASSLIKE | NDT_ALLFACES
  | NDT_ALLFACES_OPTIONAL | NDT_TORCHLIKE | NDT_SIGNLIKE | NDT_PLANTLIKE | NDT_FENCELIKE
  | NDT_RAILLIKE | NDT_NODEBOX | NDT_GLASSLIKE_FRAMED | NDT_FIRELIKE
  | NDT_GLASSLIKE_FRAMED_OPTIONAL | NDT_MESH | NDT_PLANTLIKE_ROOTED

record content_features =
  cf_floats :: bool
  cf_name :: string
  cf_groups :: "(string \<times> int) list"
  cf_param_type :: content_param_type
  cf_param_type_2 :: content_param_type2
  cf_drawtype :: node_draw_type
  cf_node_box :: node_box_type
  cf_connect_sides :: u8
  cf_connects_to :: "string list"
  cf_connects_to_ids :: "u16 list"
  cf_leveled :: u8
  cf_leveled_max :: u8
  cf_light_propagates :: bool
  cf_sunlight_propagates :: bool
  cf_light_source :: u8
  cf_is_ground_content :: bool
  cf_walkable :: bool
  cf_diggable :: bool
  cf_climbable :: bool
  cf_buildable_to :: bool
  cf_rightclickable :: bool
  cf_floodable :: bool
  cf_liquid_type :: liquid_kind
  cf_liquid_alternative_flowing :: string
  cf_liquid_alternative_flowing_id :: u16
  cf_liquid_alternative_source :: string
  cf_liquid_alternative_source_id :: u16
  cf_freeze :: string
  cf_freeze_id :: u16
  cf_melt :: string
  cf_melt_id :: u16

definition LEVELED_MAX :: u8 where "LEVELED_MAX = 0x1F"
definition LIQUID_LEVEL_MASK :: u8 where "LIQUID_LEVEL_MASK = 0x07"
definition LIQUID_LEVEL_SOURCE :: u8 where "LIQUID_LEVEL_SOURCE = LIQUID_LEVEL_MASK + 1"

definition ContentFeatures_reset :: content_features where
  "ContentFeatures_reset =
     \<lparr>cf_floats = False, cf_name = [], cf_groups = [(''dig_immediate'', 2)],
      cf_param_type = CPT_NONE, cf_param_type_2 = CPT2_NONE, cf_drawtype = NDT_NORMAL,
      cf_node_box = NODEBOX_REGULAR, cf_connect_sides = 0, cf_connects_to = [], cf_connects_to_ids = [],
      cf_leveled = 0, cf_leveled_max = LEVELED_MAX,
      cf_light_propagates = False, cf_sunlight_propagates = False, cf_light_source = 0,
      cf_is_ground_content = False, cf_walkable = True, cf_diggable = True, cf_climbable = False,
      cf_buildable_to = False, cf_rightclickable = True, cf_floodable = False,
      cf_liquid_type = LIQUID_NONE,
      cf_liquid_alternative_flowing = [], cf_liquid_alternative_flowing_id = CONTENT_IGNORE,
      cf_liquid_alternative_source = [], cf_liquid_alternative_source_id = CONTENT_IGNORE,
      cf_freeze = [], cf_freeze_id = CONTENT_IGNORE, cf_melt = [], cf_melt_id = CONTENT_IGNORE\<rparr>"

definition cf_getMaxLevel :: "content_features \<Rightarrow> bool \<Rightarrow> u8" where
  "cf_getMaxLevel f compress =
     (if cf_leveled f \<noteq> 0 \<or> cf_param_type_2 f = CPT2_LEVELED
      then (if compress then LEVELED_MAX else if cf_leveled f \<noteq> 0 then cf_leveled f else LEVELED_MAX)
      else if cf_param_type_2 f = CPT2_FLOWINGLIQUID \<or> cf_liquid_type f = LIQUID_FLOWING
      then LIQUID_LEVEL_SOURCE
      else 0)"

definition cf_isLiquid :: "content_features \<Rightarrow> bool" where
  "cf_isLiquid f \<longleftrightarrow> cf_liquid_type f \<noteq> LIQUID_NONE"

definition cf_isLiquidRender :: "content_features \<Rightarrow> bool" where
  "cf_isLiquidRender f \<longleftrightarrow> cf_drawtype f = NDT_LIQUID \<or> cf_drawtype f = NDT_FLOWINGLIQUID"

definition cf_sameLiquidRender :: "content_features \<Rightarrow> content_features \<Rightarrow> bool" where
  "cf_sameLiquidRender f g \<longleftrightarrow>
     (if \<not> cf_isLiquidRender f \<or> \<not> cf_isLiquidRender g then False
      else cf_liquid_alternative_flowing_id f = cf_liquid_alternative_flowing_id g \<and>
        cf_liquid_alternative_source_id f = cf_liquid_alternative_source_id g)"

text \<open>The lighting flags in one byte: the light source takes four bits.\<close>

record lighting_flags =
  lf_light_source :: u8
  lf_has_light :: bool
  lf_light_propagates :: bool
  lf_sunlight_propagates :: bool

definition cf_getLightingFlags :: "content_features \<Rightarrow> lighting_flags" where
  "cf_getLightingFlags f =
     \<lparr>lf_light_source = cf_light_source f AND 0x0F, lf_has_light = (cf_param_type f = CPT_LIGHT),
      lf_light_propagates = cf_light_propagates f, lf_sunlight_propagates = cf_sunlight_propagates f\<rparr>"

definition itemgroup_get :: "(string \<times> int) list \<Rightarrow> string \<Rightarrow> int" where
  "itemgroup_get groups name = (case map_of groups name of None \<Rightarrow> 0 | Some v \<Rightarrow> v)"

definition cf_getGroup :: "content_features \<Rightarrow> string \<Rightarrow> int" where
  "cf_getGroup f g = itemgroup_get (cf_groups f) g"

subsection \<open>The manager\<close>

text \<open>
  The cache of lighting flags has an entry for every content id. The listeners that wait for the
  end of the registration are references, numbers here.
\<close>

record node_mgr =
  m_content_features :: "content_features list"
  m_name_id_mapping :: nimap
  m_name_id_mapping_with_aliases :: "(string \<times> u16) list"
  m_group_to_items :: "(string \<times> u16 list) list"
  m_next_id :: u16
  m_node_registration_complete :: bool
  m_pending_resolve_callbacks :: "nat list"
  m_content_lighting_flag_cache :: "u16 \<Rightarrow> lighting_flags"

definition ndm_get :: "u16 \<Rightarrow> node_mgr \<Rightarrow> content_features" where
  "ndm_get c m =
     (if unat c < length (m_content_features m) \<and> cf_name (m_content_features m ! unat c) \<noteq> []
      then m_content_features m ! unat c else m_content_features m ! unat CONTENT_UNKNOWN)"

definition ndm_get_node :: "map_node \<Rightarrow> node_mgr \<Rightarrow> content_features" where
  "ndm_get_node n m = ndm_get (getContent n) m"

definition ndm_getLightingFlags :: "u16 \<Rightarrow> node_mgr \<Rightarrow> lighting_flags" where
  "ndm_getLightingFlags c m = m_content_lighting_flag_cache m c"

definition ndm_getId :: "string \<Rightarrow> node_mgr \<Rightarrow> u16 option" where
  "ndm_getId name m = map_of (m_name_id_mapping_with_aliases m) name"

definition ndm_getId_or_ignore :: "string \<Rightarrow> node_mgr \<Rightarrow> u16" where
  "ndm_getId_or_ignore name m = (case ndm_getId name m of None \<Rightarrow> CONTENT_IGNORE | Some i \<Rightarrow> i)"

text \<open>\<open>getIds\<close> appends to a vector and says whether the name is valid.\<close>

definition ndm_getIds :: "string \<Rightarrow> u16 list \<Rightarrow> node_mgr \<Rightarrow> bool \<times> u16 list" where
  "ndm_getIds name result m =
     (if take 6 name \<noteq> ''group:'' then
        (case ndm_getId name m of None \<Rightarrow> (False, result) | Some i \<Rightarrow> (True, result @ [i]))
      else (case map_of (m_group_to_items m) (drop 6 name) of
              None \<Rightarrow> (True, result) | Some items \<Rightarrow> (True, result @ items)))"

definition ndm_get_name :: "string \<Rightarrow> node_mgr \<Rightarrow> content_features" where
  "ndm_get_name name m = ndm_get (case ndm_getId name m of None \<Rightarrow> CONTENT_UNKNOWN | Some i \<Rightarrow> i) m"

text \<open>A name that is already there, of a node or an alias, keeps its entry in the map with aliases.\<close>

definition addNameIdMapping :: "u16 \<Rightarrow> string \<Rightarrow> node_mgr \<Rightarrow> node_mgr res" where
  "addNameIdMapping i name m =
     rbind (nim_set i name (m_name_id_mapping m)) (\<lambda>nm.
       Inr (m\<lparr>m_name_id_mapping := nm,
              m_name_id_mapping_with_aliases :=
                (case map_of (m_name_id_mapping_with_aliases m) name of
                   Some _ \<Rightarrow> m_name_id_mapping_with_aliases m
                 | None \<Rightarrow> (name, i) # m_name_id_mapping_with_aliases m)\<rparr>))"

definition resetNodeResolveState :: "node_mgr \<Rightarrow> node_mgr" where
  "resetNodeResolveState m = m\<lparr>m_node_registration_complete := False, m_pending_resolve_callbacks := []\<rparr>"

subsection \<open>The initial state\<close>

definition unknown_features :: content_features where
  "unknown_features = ContentFeatures_reset\<lparr>cf_name := ''unknown''\<rparr>"

definition air_features :: content_features where
  "air_features = ContentFeatures_reset\<lparr>cf_name := ''air'', cf_drawtype := NDT_AIRLIKE,
     cf_param_type := CPT_LIGHT, cf_light_propagates := True, cf_sunlight_propagates := True,
     cf_walkable := False, cf_diggable := False, cf_buildable_to := True, cf_floodable := True,
     cf_is_ground_content := True\<rparr>"

definition ignore_features :: content_features where
  "ignore_features = ContentFeatures_reset\<lparr>cf_name := ''ignore'', cf_drawtype := NDT_AIRLIKE,
     cf_param_type := CPT_NONE, cf_light_propagates := False, cf_sunlight_propagates := False,
     cf_walkable := False, cf_diggable := False, cf_buildable_to := True, cf_is_ground_content := True\<rparr>"

text \<open>
  One built-in node: its features, its flags in the cache and its name. The flags of \<^verbatim>\<open>unknown\<close> go
  to every entry of the cache. The features of \<^verbatim>\<open>ignore\<close> are as well those of the id 0.
\<close>

definition put_builtin :: "u16 \<Rightarrow> content_features \<Rightarrow> node_mgr \<Rightarrow> node_mgr res" where
  "put_builtin c f m = addNameIdMapping c (cf_name f)
     (m\<lparr>m_content_features := (m_content_features m)[unat c := f],
        m_content_lighting_flag_cache := (m_content_lighting_flag_cache m)(c := cf_getLightingFlags f)\<rparr>)"

definition ndm_clear :: "node_mgr res" where
  "ndm_clear =
     (let m0 = resetNodeResolveState
            \<lparr>m_content_features = replicate (unat (max (max CONTENT_UNKNOWN CONTENT_AIR) CONTENT_IGNORE) + 1)
                 ContentFeatures_reset,
             m_name_id_mapping = nim_clear, m_name_id_mapping_with_aliases = [],
             m_group_to_items = [], m_next_id = 0, m_node_registration_complete = False,
             m_pending_resolve_callbacks = [],
             m_content_lighting_flag_cache = (\<lambda>_. cf_getLightingFlags unknown_features)\<rparr>
      in rbind (put_builtin CONTENT_UNKNOWN unknown_features m0) (\<lambda>m1.
         rbind (put_builtin CONTENT_AIR air_features m1) (\<lambda>m2.
         rbind (put_builtin CONTENT_IGNORE ignore_features m2) (\<lambda>m3.
           Inr (if CONTENT_IGNORE \<noteq> 0
                then m3\<lparr>m_content_features := (m_content_features m3)[0 := ignore_features]\<rparr> else m3)))))"

subsection \<open>Registration\<close>

text \<open>
  The search for a free id wraps around at the largest one. With \<open>m_next_id\<close> 0 the test for the
  wrap-around always holds, so that without a free id the loop does not end: \<open>None\<close>.
\<close>

definition grow_features :: "nat \<Rightarrow> content_features list \<Rightarrow> content_features list" where
  "grow_features n fs = fs @ replicate (n - length fs) ContentFeatures_reset"

partial_function (option) alloc_loop :: "u16 \<Rightarrow> node_mgr \<Rightarrow> (u16 \<times> node_mgr) option" where
  "alloc_loop i m =
     (if m_next_id m \<le> i then
        (let fs = grow_features (unat i + 1) (m_content_features m); m1 = m\<lparr>m_content_features := fs\<rparr>
         in if cf_name (fs ! unat i) = []
            then Some (i, m1\<lparr>m_next_id := (if i < 0xFFFF then i + 1 else 0xFFFF)\<rparr>)
            else alloc_loop (i + 1) m1)
      else Some (CONTENT_IGNORE, m))"

declare alloc_loop.simps [code]

definition allocateId :: "node_mgr \<Rightarrow> (u16 \<times> node_mgr) option" where
  "allocateId m = alloc_loop (m_next_id m) m"

definition eraseIdFromGroups :: "u16 \<Rightarrow> (string \<times> u16 list) list \<Rightarrow> (string \<times> u16 list) list" where
  "eraseIdFromGroups i groups =
     filter (\<lambda>(g, items). items \<noteq> []) (map (\<lambda>(g, items). (g, filter (\<lambda>x. x \<noteq> i) items)) groups)"

fun add_to_groups :: "u16 \<Rightarrow> (string \<times> int) list \<Rightarrow> (string \<times> u16 list) list \<Rightarrow> (string \<times> u16 list) list" where
  "add_to_groups i [] gs = gs"
| "add_to_groups i ((g, _) # rest) gs =
     add_to_groups i rest (AList.update g ((case map_of gs g of None \<Rightarrow> [] | Some items \<Rightarrow> items) @ [i]) gs)"

text \<open>The features under an id, which has to be one of the vector.\<close>

definition put_features :: "u16 \<Rightarrow> content_features \<Rightarrow> node_mgr \<Rightarrow> node_mgr res" where
  "put_features i f m =
     (if unat i < length (m_content_features m)
      then Inr (m\<lparr>m_content_features := (m_content_features m)
                   [unat i := f\<lparr>cf_floats := itemgroup_get (cf_groups f) ''float'' \<noteq> 0\<rparr>],
                  m_content_lighting_flag_cache :=
                   (m_content_lighting_flag_cache m)(i := cf_getLightingFlags f)\<rparr>)
      else Inl OutOfBounds)"

definition store_node :: "u16 \<Rightarrow> content_features \<Rightarrow> node_mgr \<Rightarrow> node_mgr res" where
  "store_node i f m =
     rbind (put_features i f (m\<lparr>m_group_to_items := eraseIdFromGroups i (m_group_to_items m)\<rparr>))
       (\<lambda>m1. Inr (m1\<lparr>m_group_to_items := add_to_groups i (cf_groups f) (m_group_to_items m1)\<rparr>))"

definition ndm_set :: "string \<Rightarrow> content_features \<Rightarrow> node_mgr \<Rightarrow> (u16 \<times> node_mgr) res option" where
  "ndm_set name f m =
     (if name = [] \<or> name \<noteq> cf_name f \<or> name = ''ignore'' then Some (Inr (CONTENT_IGNORE, m))
      else case nim_getId name (m_name_id_mapping m) of
        Some i \<Rightarrow> Some (rbind (store_node i f m) (\<lambda>m1. Inr (i, m1)))
      | None \<Rightarrow>
          (case allocateId m of
             None \<Rightarrow> None
           | Some (i, m1) \<Rightarrow>
               if i = CONTENT_IGNORE then Some (Inr (CONTENT_IGNORE, m1))
               else Some (rbind (addNameIdMapping i name m1) (\<lambda>m2.
                          rbind (store_node i f m2) (\<lambda>m3. Inr (i, m3))))))"

definition allocateDummy :: "string \<Rightarrow> node_mgr \<Rightarrow> (u16 \<times> node_mgr) res option" where
  "allocateDummy name m =
     (if name = [] then Some (Inr (CONTENT_IGNORE, m))
      else ndm_set name (ContentFeatures_reset\<lparr>cf_name := name\<rparr>) m)"

definition removeNode :: "string \<Rightarrow> node_mgr \<Rightarrow> node_mgr res" where
  "removeNode name m =
     (if name = [] then Inl AssertFailed
      else case nim_getId name (m_name_id_mapping m) of
        None \<Rightarrow> Inr m
      | Some i \<Rightarrow> Inr (m\<lparr>m_name_id_mapping := nim_eraseName name (m_name_id_mapping m),
           m_name_id_mapping_with_aliases := AList.delete name (m_name_id_mapping_with_aliases m),
           m_group_to_items := eraseIdFromGroups i (m_group_to_items m)\<rparr>))"

definition idm_names :: "item_mgr \<Rightarrow> string list" where
  "idm_names idef = remdups (map fst (m_item_definitions idef) @ map fst (m_aliases idef))"

definition updateAliases :: "item_mgr \<Rightarrow> node_mgr \<Rightarrow> node_mgr" where
  "updateAliases idef m =
     m\<lparr>m_name_id_mapping_with_aliases :=
        List.map_filter (\<lambda>name. map_option (Pair name)
            (nim_getId (idm_getAlias idef name) (m_name_id_mapping m))) (idm_names idef)\<rparr>"

definition applyFunction :: "(content_features \<Rightarrow> content_features) \<Rightarrow> node_mgr \<Rightarrow> node_mgr" where
  "applyFunction g m = m\<lparr>m_content_features := map g (m_content_features m)\<rparr>"

text \<open>
  What goes to a client: the features that have a name, other than the built-in ones; more than
  65535 would be fatal. The client takes an entry unless its id is built in, its name is empty or
  already that of another id.
\<close>

definition is_builtin :: "nat \<Rightarrow> bool" where
  "is_builtin i \<longleftrightarrow> i = unat CONTENT_IGNORE \<or> i = unat CONTENT_AIR \<or> i = unat CONTENT_UNKNOWN"

definition nodes_to_send :: "node_mgr \<Rightarrow> (u16 \<times> content_features) list res" where
  "nodes_to_send m =
     (let es = filter (\<lambda>(i, f). \<not> is_builtin i \<and> cf_name f \<noteq> [])
           (List.enumerate 0 (m_content_features m))
      in if length es > 65535 then Inl AssertFailed else Inr (map (\<lambda>(i, f). (of_nat i, f)) es))"

definition accept_node :: "u16 \<times> content_features \<Rightarrow> node_mgr \<Rightarrow> node_mgr res" where
  "accept_node e m =
     (case e of (i, f) \<Rightarrow>
       if is_builtin (unat i) then Inr m
       else if cf_name f = [] then Inr m
       else if nim_getId (cf_name f) (m_name_id_mapping m) \<notin> {None, Some i} then Inr m
       else rbind (put_features i f (m\<lparr>m_content_features := grow_features (unat i + 1) (m_content_features m)\<rparr>))
              (addNameIdMapping i (cf_name f)))"

fun append_ids :: "string list \<Rightarrow> u16 list \<Rightarrow> node_mgr \<Rightarrow> u16 list" where
  "append_ids [] result m = result"
| "append_ids (name # names) result m = append_ids names (snd (ndm_getIds name result m)) m"

definition resolve_features :: "node_mgr \<Rightarrow> content_features \<Rightarrow> content_features" where
  "resolve_features m f0 =
     (let f1 = (if cf_freeze f0 \<noteq> [] then f0\<lparr>cf_freeze_id := ndm_getId_or_ignore (cf_freeze f0) m\<rparr> else f0);
          f2 = (if cf_melt f1 \<noteq> [] then f1\<lparr>cf_melt_id := ndm_getId_or_ignore (cf_melt f1) m\<rparr> else f1)
      in if cf_liquid_alternative_flowing f2 \<noteq> [] \<or> cf_liquid_alternative_source f2 \<noteq> []
         then f2\<lparr>cf_liquid_alternative_flowing_id := ndm_getId_or_ignore (cf_liquid_alternative_flowing f2) m,
                 cf_liquid_alternative_source_id := ndm_getId_or_ignore (cf_liquid_alternative_source f2) m\<rparr>
         else if cf_drawtype f2 \<noteq> NDT_NODEBOX \<or> cf_node_box f2 \<noteq> NODEBOX_CONNECTED then f2
         else f2\<lparr>cf_connects_to_ids :=
                  remdups_adj (sort (append_ids (cf_connects_to f2) (cf_connects_to_ids f2) m))\<rparr>)"

definition resolveCrossrefs :: "node_mgr \<Rightarrow> node_mgr" where
  "resolveCrossrefs m = m\<lparr>m_content_features := map (resolve_features m) (m_content_features m)\<rparr>"

definition receive_nodes :: "(u16 \<times> content_features) list \<Rightarrow> node_mgr res" where
  "receive_nodes es =
     rbind ndm_clear (\<lambda>m. rbind (rfold accept_node es m) (\<lambda>m1. Inr (resolveCrossrefs m1)))"

subsection \<open>Connecting node boxes\<close>

text \<open>
  The face is one of six bits. For a rotated node the table gives the bit of its own face; the
  rows that no single bit selects are zero, and a larger face is outside the table.
\<close>

definition connect_rot :: "u8 list" where
  "connect_rot = replicate 16 0 @ [4, 32, 16, 8] @ replicate 12 0 @ [8, 4, 32, 16] @ replicate 28 0 @
     [16, 8, 4, 32] @ replicate 60 0 @ [32, 16, 8, 4]"

definition nodeboxConnects :: "map_node \<Rightarrow> map_node \<Rightarrow> u8 \<Rightarrow> node_mgr \<Rightarrow> bool res" where
  "nodeboxConnects n_from n_to connect_face m =
     (let f1 = ndm_get_node n_from m; f2 = ndm_get_node n_to m
      in if cf_drawtype f1 \<noteq> NDT_NODEBOX \<or> cf_node_box f1 \<noteq> NODEBOX_CONNECTED then Inr False
         else if param0 n_to \<notin> set (cf_connects_to_ids f1) then Inr False
         else if cf_drawtype f2 = NDT_NODEBOX \<and> cf_node_box f2 = NODEBOX_CONNECTED
           then Inr (param0 n_from \<in> set (cf_connects_to_ids f2))
         else if cf_connect_sides f2 > 0 then
           (if cf_param_type_2 f2 \<in> {CPT2_FACEDIR, CPT2_COLORED_FACEDIR, CPT2_4DIR, CPT2_COLORED_4DIR}
               \<and> connect_face \<ge> 4
            then (let i = unat connect_face * 4 + unat (param2 n_to AND 0x03)
                  in if i < length connect_rot then Inr (cf_connect_sides f2 AND connect_rot ! i \<noteq> 0)
                     else Inl OutOfBounds)
            else Inr (cf_connect_sides f2 AND connect_face \<noteq> 0))
         else Inr True)"

subsection \<open>Listeners and the queue of names\<close>

definition pendNodeResolve :: "nat \<Rightarrow> node_mgr \<Rightarrow> node_mgr" where
  "pendNodeResolve nr m =
     (if m_node_registration_complete m then m
      else m\<lparr>m_pending_resolve_callbacks := m_pending_resolve_callbacks m @ [nr]\<rparr>)"

definition setNodeRegistrationStatus :: "bool \<Rightarrow> node_mgr \<Rightarrow> node_mgr" where
  "setNodeRegistrationStatus completed m = m\<lparr>m_node_registration_complete := completed\<rparr>"

text \<open>The place of the listener that leaves is taken by the last one.\<close>

fun cancel_loop :: "nat \<Rightarrow> nat list \<Rightarrow> nat list \<Rightarrow> nat list option" where
  "cancel_loop nr seen [] = None"
| "cancel_loop nr seen (x # rest) =
     (if x \<noteq> nr then cancel_loop nr (seen @ [x]) rest
      else Some (butlast ((seen @ x # rest)[length seen := last (x # rest)])))"

definition cancelNodeResolveCallback :: "nat \<Rightarrow> node_mgr \<Rightarrow> bool \<times> node_mgr" where
  "cancelNodeResolveCallback nr m =
     (case cancel_loop nr [] (m_pending_resolve_callbacks m) of
        None \<Rightarrow> (False, m)
      | Some l \<Rightarrow> (True, m\<lparr>m_pending_resolve_callbacks := l\<rparr>))"

record node_resolver =
  m_nodenames :: "string list"
  m_nodenames_idx :: nat
  m_nnlistsizes :: "nat list"
  m_nnlistsizes_idx :: nat
  m_resolve_done :: bool

definition nr_reset :: "bool \<Rightarrow> node_resolver" where
  "nr_reset resolve_done = \<lparr>m_nodenames = [], m_nodenames_idx = 0, m_nnlistsizes = [],
     m_nnlistsizes_idx = 0, m_resolve_done = resolve_done\<rparr>"

definition getIdFromNrBacklog ::
    "string \<Rightarrow> u16 \<Rightarrow> node_mgr \<Rightarrow> node_resolver \<Rightarrow> bool \<times> u16 \<times> node_resolver" where
  "getIdFromNrBacklog node_alt c_fallback m r =
     (if m_nodenames_idx r = length (m_nodenames r) then (False, c_fallback, r)
      else
        let name = m_nodenames r ! m_nodenames_idx r;
            r1 = r\<lparr>m_nodenames_idx := m_nodenames_idx r + 1\<rparr>;
            c = (case ndm_getId name m of
                   Some i \<Rightarrow> Some i
                 | None \<Rightarrow> if node_alt \<noteq> [] then ndm_getId node_alt m else None)
        in case c of None \<Rightarrow> (False, c_fallback, r1) | Some i \<Rightarrow> (True, i, r1))"

fun nr_list :: "nat \<Rightarrow> bool \<Rightarrow> u16 \<Rightarrow> node_mgr \<Rightarrow> bool \<Rightarrow> u16 list \<Rightarrow> node_resolver \<Rightarrow> bool \<times> u16 list \<times> node_resolver" where
  "nr_list 0 all_required c_fallback m success out r = (success, out, r)"
| "nr_list (Suc n) all_required c_fallback m success out r =
     (if m_nodenames_idx r = length (m_nodenames r) then (False, out, r)
      else
        let name = m_nodenames r ! m_nodenames_idx r;
            r1 = r\<lparr>m_nodenames_idx := m_nodenames_idx r + 1\<rparr>
        in if take 6 name \<noteq> ''group:'' then
             (case ndm_getId name m of
                Some c \<Rightarrow> nr_list n all_required c_fallback m success (out @ [c]) r1
              | None \<Rightarrow> if all_required then nr_list n all_required c_fallback m False (out @ [c_fallback]) r1
                        else nr_list n all_required c_fallback m success out r1)
           else nr_list n all_required c_fallback m success (snd (ndm_getIds name out m)) r1)"

definition getIdsFromNrBacklog ::
    "bool \<Rightarrow> u16 \<Rightarrow> node_mgr \<Rightarrow> u16 list \<Rightarrow> node_resolver \<Rightarrow> bool \<times> u16 list \<times> node_resolver" where
  "getIdsFromNrBacklog all_required c_fallback m out r =
     (if m_nnlistsizes_idx r = length (m_nnlistsizes r) then (False, out, r)
      else nr_list (m_nnlistsizes r ! m_nnlistsizes_idx r) all_required c_fallback m True out
             (r\<lparr>m_nnlistsizes_idx := m_nnlistsizes_idx r + 1\<rparr>))"

end
