(* ===== verification/NodeRegistry.thy ===== *)
theory NodeRegistry
  imports NodeDef
begin

section \<open>What a registration of nodes establishes\<close>

text \<open>
  The invariant of the node definition manager under registration, removal and renewal of the
  aliases: names and ids agree, the cached lighting flags are those of the features, and the groups
  hold exactly the nodes that are in them. Allocating an id always ends.
\<close>

subsection \<open>Allocation\<close>

definition named :: "node_mgr \<Rightarrow> nat \<Rightarrow> bool" where
  "named m i \<longleftrightarrow> i < length (m_content_features m) \<and> cf_name (m_content_features m ! i) \<noteq> []"

lemma ndm_get_named: "named m (unat c) \<Longrightarrow> ndm_get c m = m_content_features m ! unat c"
  by (simp add: ndm_get_def named_def)

lemma ndm_get_unnamed: "\<not> named m (unat c) \<Longrightarrow> ndm_get c m = m_content_features m ! unat CONTENT_UNKNOWN"
  by (auto simp: ndm_get_def named_def)

lemma grow_idle [simp]: "n \<le> length fs \<Longrightarrow> grow_features n fs = fs"
  by (simp add: grow_features_def)

lemma grow_length [simp]: "length (grow_features n fs) = max n (length fs)"
  by (auto simp: grow_features_def)

lemma grow_nth: "i < max n (length fs) \<Longrightarrow>
    grow_features n fs ! i = (if i < length fs then fs ! i else ContentFeatures_reset)"
  by (auto simp: grow_features_def nth_append)

lemma grow_old: "i < length fs \<Longrightarrow> grow_features n fs ! i = fs ! i"
  by (simp add: grow_features_def nth_append)

lemma reset_name [simp]: "cf_name ContentFeatures_reset = []"
  by (simp add: ContentFeatures_reset_def)

lemma named_grow [simp]: "named (m\<lparr>m_content_features := grow_features n (m_content_features m)\<rparr>) i = named m i"
  by (auto simp: named_def grow_nth split: if_splits)

lemma named_next [simp]: "named (m\<lparr>m_next_id := v\<rparr>) i = named m i"
  by (simp add: named_def)

lemma unat_u16_Suc: "unat (i :: u16) < 65535 \<Longrightarrow> unat (i + 1) = unat i + 1"
  using unat_word_ariths(1) [of i 1] by simp

lemma alloc_named:
  assumes "m_next_id m \<le> i" and "named m (unat i)"
  shows "alloc_loop i m = alloc_loop (i + 1) m"
  using assms by (subst alloc_loop.simps) (auto simp: named_def)

lemma alloc_unnamed:
  assumes "m_next_id m \<le> i" and "\<not> named m (unat i)"
  shows "alloc_loop i m = Some (i, m\<lparr>m_content_features := grow_features (unat i + 1) (m_content_features m),
           m_next_id := (if i < 0xFFFF then i + 1 else 0xFFFF)\<rparr>)"
  using assms by (subst alloc_loop.simps) (auto simp: named_def grow_nth Let_def)

lemma u16_le_unat: "(a :: u16) \<le> b \<longleftrightarrow> unat a \<le> unat b"
  by (rule word_le_nat_alt)

lemma alloc_finds:
  assumes "unat (m_next_id m) \<le> unat i" and "unat i \<le> j" and "j < 65536"
    and "\<forall>k. unat i \<le> k \<and> k < j \<longrightarrow> named m k" and "\<not> named m j"
  shows "alloc_loop i m = Some (of_nat j, m\<lparr>m_content_features := grow_features (j + 1) (m_content_features m),
           m_next_id := (if j < 65535 then of_nat j + 1 else 0xFFFF)\<rparr>)"
  using assms
proof (induction "j - unat i" arbitrary: i)
  case 0
  then have j: "j = unat i" by simp
  with 0 alloc_unnamed [of m i] show ?case
    by (simp add: u16_le_unat word_less_nat_alt)
next
  case (Suc d)
  then have i: "unat i < j" by linarith
  with Suc.prems have n: "named m (unat i)" by blast
  have s: "unat (i + 1) = unat i + 1"
    using i Suc.prems(3) by (intro unat_u16_Suc) linarith
  have step: "alloc_loop i m = alloc_loop (i + 1) m"
    using Suc.prems(1) n by (intro alloc_named) (simp_all add: u16_le_unat)
  show ?case
    unfolding step using Suc.hyps(2) Suc.prems i s by (intro Suc.hyps(1)) simp_all
qed

lemma alloc_full:
  assumes "unat (m_next_id m) \<le> unat i" and "0 < m_next_id m"
    and "\<forall>k. unat i \<le> k \<and> k < 65536 \<longrightarrow> named m k"
  shows "alloc_loop i m = Some (CONTENT_IGNORE, m)"
  using assms
proof (induction "65535 - unat i" arbitrary: i)
  case 0
  then have "unat i = 65535" using unat_u16_less [of i] by linarith
  then have i: "i = 65535" by (simp add: word_unat_eq_iff)
  have n: "named m (unat i)"
    using 0 unat_u16_less [of i] by blast
  have step: "alloc_loop i m = alloc_loop (i + 1) m"
    using 0(2) n by (intro alloc_named) (simp_all add: u16_le_unat)
  have "i + 1 = 0" using i by simp
  then show ?case
    unfolding step using assms(2) by (subst alloc_loop.simps) (simp add: word_gt_0)
next
  case (Suc d)
  then have i: "unat i < 65535" by linarith
  have n: "named m (unat i)"
    using Suc.prems(3) unat_u16_less [of i] by blast
  have s: "unat (i + 1) = unat i + 1"
    using i by (rule unat_u16_Suc)
  have step: "alloc_loop i m = alloc_loop (i + 1) m"
    using Suc.prems(1) n by (intro alloc_named) (simp_all add: u16_le_unat)
  show ?case
    unfolding step using Suc.hyps(2) Suc.prems i s by (intro Suc.hyps(1)) simp_all
qed

text \<open>
  When all ids below the next one are taken, and a new manager has a free one, the smallest free id
  is found, or there is none.
\<close>

lemma allocateId_cases:
  assumes "\<forall>i < unat (m_next_id m). named m i" and "m_next_id m = 0 \<longrightarrow> \<not> named m 1"
  obtains (new) j where "j < 65536" and "\<forall>k < j. named m k" and "\<not> named m j"
      and "allocateId m = Some (of_nat j, m\<lparr>m_content_features := grow_features (j + 1) (m_content_features m),
           m_next_id := (if j < 65535 then of_nat j + 1 else 0xFFFF)\<rparr>)"
  | (full) "allocateId m = Some (CONTENT_IGNORE, m)"
proof (cases "\<exists>j < 65536. \<not> named m j")
  case True
  define j where "j = (LEAST j. \<not> named m j)"
  obtain j0 where j0: "j0 < 65536" "\<not> named m j0"
    using True by blast
  have free: "\<not> named m j"
    unfolding j_def using j0(2) by (rule LeastI)
  have "j \<le> j0"
    unfolding j_def using j0(2) by (rule Least_le)
  moreover have "\<forall>k < j. named m k"
    unfolding j_def by (blast dest: not_less_Least)
  ultimately have j: "\<not> named m j" "j < 65536" "\<forall>k < j. named m k"
    using j0(1) free by simp_all
  moreover have "unat (m_next_id m) \<le> j"
    using assms(1) j(1) by (meson not_le)
  ultimately show ?thesis
    using new [of j] alloc_finds [of m "m_next_id m" j] by (simp add: allocateId_def)
next
  case False
  then have "m_next_id m \<noteq> 0"
    using assms(2) by fastforce
  then show ?thesis
    using full alloc_full [of m "m_next_id m"] False by (auto simp: allocateId_def word_gt_0)
qed

subsection \<open>The invariant\<close>

definition names_ok :: "node_mgr \<Rightarrow> bool" where
  "names_ok m \<longleftrightarrow> nim_wf (m_name_id_mapping m) \<and>
     (\<forall>n i. nim_getId n (m_name_id_mapping m) = Some i \<longrightarrow>
        named m (unat i) \<and> cf_name (m_content_features m ! unat i) = n)"

definition ids_ok :: "node_mgr \<Rightarrow> bool" where
  "ids_ok m \<longleftrightarrow> length (m_content_features m) \<le> 65536 \<and>
     named m (unat CONTENT_UNKNOWN) \<and> named m (unat CONTENT_AIR) \<and> named m (unat CONTENT_IGNORE) \<and>
     (\<forall>i < unat (m_next_id m). named m i) \<and> (m_next_id m = 0 \<longrightarrow> \<not> named m 1)"

definition flags_ok :: "node_mgr \<Rightarrow> bool" where
  "flags_ok m \<longleftrightarrow> (\<forall>c. m_content_lighting_flag_cache m c =
     cf_getLightingFlags (if named m (unat c) then m_content_features m ! unat c else unknown_features))"

definition group_items :: "string \<Rightarrow> (string \<times> u16 list) list \<Rightarrow> u16 list" where
  "group_items g gs = (case map_of gs g of None \<Rightarrow> [] | Some items \<Rightarrow> items)"

definition in_group :: "string \<Rightarrow> content_features \<Rightarrow> bool" where
  "in_group g f \<longleftrightarrow> g \<in> fst ` set (cf_groups f)"

text \<open>
  A registered node is listed exactly once in each of its groups and in no other. The built-in
  nodes are not listed until they are registered again.
\<close>

definition groups_ok :: "node_mgr \<Rightarrow> bool" where
  "groups_ok m \<longleftrightarrow> distinct (map fst (m_group_to_items m)) \<and>
     (\<forall>g. distinct (group_items g (m_group_to_items m)) \<and>
       (\<forall>i \<in> set (group_items g (m_group_to_items m)).
          named m (unat i) \<and> in_group g (m_content_features m ! unat i)) \<and>
       (\<forall>n i. nim_getId n (m_name_id_mapping m) = Some i \<longrightarrow> \<not> is_builtin (unat i) \<longrightarrow>
          in_group g (m_content_features m ! unat i) \<longrightarrow> i \<in> set (group_items g (m_group_to_items m))))"

definition ndm_wf :: "node_mgr \<Rightarrow> bool" where
  "ndm_wf m \<longleftrightarrow> names_ok m \<and> ids_ok m \<and> flags_ok m \<and> groups_ok m"

lemma builtin_unat [simp]: "unat CONTENT_UNKNOWN = 125" "unat CONTENT_AIR = 126" "unat CONTENT_IGNORE = 127"
  by (simp_all add: CONTENT_UNKNOWN_def CONTENT_AIR_def CONTENT_IGNORE_def)

subsubsection \<open>Groups\<close>

lemma map_of_filter_items:
  "distinct (map fst gs) \<Longrightarrow> map_of (filter (\<lambda>(g, items). items \<noteq> []) gs) g =
    (case map_of gs g of None \<Rightarrow> None | Some items \<Rightarrow> if items = [] then None else Some items)"
proof (induction gs)
  case (Cons e gs)
  obtain h items where e: "e = (h, items)" by (cases e)
  have "map_of (filter (\<lambda>(g, items). items \<noteq> []) gs) h = None" if "h \<notin> fst ` set gs"
    using that by (force simp: map_of_eq_None_iff)
  with Cons show ?case by (auto simp: e)
qed simp

lemma group_items_erase [simp]:
  assumes "distinct (map fst gs)"
  shows "group_items g (eraseIdFromGroups i gs) = filter (\<lambda>x. x \<noteq> i) (group_items g gs)"
proof -
  let ?gs = "map (\<lambda>(g, items). (g, filter (\<lambda>x. x \<noteq> i) items)) gs"
  have "map fst ?gs = map fst gs"
    by (induction gs) auto
  then have d: "distinct (map fst ?gs)"
    using assms by (simp only:)
  have "map_of ?gs g = map_option (filter (\<lambda>x. x \<noteq> i)) (map_of gs g)"
    by (induction gs) auto
  then show ?thesis
    unfolding group_items_def eraseIdFromGroups_def map_of_filter_items [OF d]
    by (simp split: option.split)
qed

lemma distinct_erase [simp]:
  assumes "distinct (map fst gs)"
  shows "distinct (map fst (eraseIdFromGroups i gs))"
proof -
  have "map fst (map (\<lambda>(g, items). (g, filter (\<lambda>x. x \<noteq> i) items)) gs) = map fst gs"
    by (induction gs) auto
  with assms show ?thesis
    unfolding eraseIdFromGroups_def by (metis distinct_map_filter)
qed

lemma group_items_add:
  "distinct (map fst new) \<Longrightarrow>
    group_items g (add_to_groups i new gs) = group_items g gs @ (if g \<in> fst ` set new then [i] else [])"
  by (induction i new gs rule: add_to_groups.induct)
    (auto simp: group_items_def map_of_update split: option.split)

lemma distinct_add: "distinct (map fst gs) \<Longrightarrow> distinct (map fst (add_to_groups i new gs))"
  by (induction i new gs rule: add_to_groups.induct) (simp_all add: distinct_update)

subsubsection \<open>The initial state\<close>

lemma ndm_clear_ok:
  "\<exists>m. ndm_clear = Inr m \<and> m_content_features m =
      ((((replicate 128 ContentFeatures_reset)[125 := unknown_features])[126 := air_features])
        [127 := ignore_features])[0 := ignore_features] \<and>
    m_name_id_mapping m = \<lparr>id_to_name = [(125, ''unknown''), (126, ''air''), (127, ''ignore'')],
      name_to_id = [(''unknown'', 125), (''air'', 126), (''ignore'', 127)]\<rparr> \<and>
    m_group_to_items m = [] \<and> m_next_id m = 0 \<and>
    m_content_lighting_flag_cache m = (\<lambda>_. cf_getLightingFlags unknown_features)
      (125 := cf_getLightingFlags unknown_features, 126 := cf_getLightingFlags air_features,
       127 := cf_getLightingFlags ignore_features)"
  by (simp add: ndm_clear_def put_builtin_def addNameIdMapping_def nim_set_def nim_clear_def
      resetNodeResolveState_def CONTENT_UNKNOWN_def CONTENT_AIR_def CONTENT_IGNORE_def
      unknown_features_def air_features_def ignore_features_def Let_def)

lemma ndm_clear_wf: "\<exists>m. ndm_clear = Inr m \<and> ndm_wf m"
proof -
  obtain m where m: "ndm_clear = Inr m" and fs: "m_content_features m =
      ((((replicate 128 ContentFeatures_reset)[125 := unknown_features])[126 := air_features])
        [127 := ignore_features])[0 := ignore_features]"
    and nm: "m_name_id_mapping m = \<lparr>id_to_name = [(125, ''unknown''), (126, ''air''), (127, ''ignore'')],
      name_to_id = [(''unknown'', 125), (''air'', 126), (''ignore'', 127)]\<rparr>"
    and g: "m_group_to_items m = []" "m_next_id m = 0"
    and c: "m_content_lighting_flag_cache m = (\<lambda>_. cf_getLightingFlags unknown_features)
      (125 := cf_getLightingFlags unknown_features, 126 := cf_getLightingFlags air_features,
       127 := cf_getLightingFlags ignore_features)"
    using ndm_clear_ok by blast
  have name: "cf_name unknown_features = ''unknown''" "cf_name air_features = ''air''"
    "cf_name ignore_features = ''ignore''"
    by (simp_all add: unknown_features_def air_features_def ignore_features_def)
  have n: "named m i \<longleftrightarrow> i \<in> {0, 125, 126, 127}" for i
    by (auto simp: named_def fs nth_list_update name)
  have ignore: "cf_getLightingFlags ignore_features = cf_getLightingFlags unknown_features"
    by (simp add: cf_getLightingFlags_def ignore_features_def unknown_features_def ContentFeatures_reset_def)
  have "names_ok m"
    by (auto simp: names_ok_def nm nim_wf_def nim_getId_def n fs nth_list_update name split: if_splits)
  moreover have "ids_ok m"
    by (simp add: ids_ok_def n g fs)
  moreover have "flags_ok m"
    unfolding flags_ok_def n fs c
    by (auto simp: nth_list_update ignore word_unat_eq_iff split: if_splits)
  moreover have "groups_ok m"
    by (auto simp: groups_ok_def g nm group_items_def nim_getId_def is_builtin_def split: if_splits)
  ultimately show ?thesis
    using m by (auto simp: ndm_wf_def)
qed

subsubsection \<open>Storing the features of a node\<close>

definition stored :: "u16 \<Rightarrow> content_features \<Rightarrow> node_mgr \<Rightarrow> node_mgr" where
  "stored i f m = m\<lparr>m_content_features := (m_content_features m)
        [unat i := f\<lparr>cf_floats := itemgroup_get (cf_groups f) ''float'' \<noteq> 0\<rparr>],
     m_content_lighting_flag_cache := (m_content_lighting_flag_cache m)(i := cf_getLightingFlags f),
     m_group_to_items := add_to_groups i (cf_groups f) (eraseIdFromGroups i (m_group_to_items m))\<rparr>"

lemma store_node_stored:
  "unat i < length (m_content_features m) \<Longrightarrow> store_node i f m = Inr (stored i f m)"
  by (simp add: store_node_def put_features_def stored_def)

text \<open>The invariant with an exception for one id, whose features are about to be stored.\<close>

definition wf_but :: "u16 \<Rightarrow> node_mgr \<Rightarrow> bool" where
  "wf_but i m \<longleftrightarrow> nim_wf (m_name_id_mapping m) \<and>
     (\<forall>n j. nim_getId n (m_name_id_mapping m) = Some j \<longrightarrow> j \<noteq> i \<longrightarrow>
        named m (unat j) \<and> cf_name (m_content_features m ! unat j) = n) \<and>
     length (m_content_features m) \<le> 65536 \<and> unat i < length (m_content_features m) \<and>
     named m 125 \<and> named m 126 \<and> named m 127 \<and>
     (\<forall>k < unat (m_next_id m). k \<noteq> unat i \<longrightarrow> named m k) \<and>
     (m_next_id m = 0 \<longrightarrow> \<not> named m 1 \<and> unat i \<noteq> 1) \<and>
     (\<forall>c. c \<noteq> i \<longrightarrow> m_content_lighting_flag_cache m c =
        cf_getLightingFlags (if named m (unat c) then m_content_features m ! unat c else unknown_features)) \<and>
     distinct (map fst (m_group_to_items m)) \<and>
     (\<forall>g. distinct (group_items g (m_group_to_items m)) \<and>
       (\<forall>j \<in> set (group_items g (m_group_to_items m)). j \<noteq> i \<longrightarrow>
          named m (unat j) \<and> in_group g (m_content_features m ! unat j)) \<and>
       (\<forall>n j. nim_getId n (m_name_id_mapping m) = Some j \<longrightarrow> j \<noteq> i \<longrightarrow> \<not> is_builtin (unat j) \<longrightarrow>
          in_group g (m_content_features m ! unat j) \<longrightarrow> j \<in> set (group_items g (m_group_to_items m))))"

lemma named_stored:
  "unat i < length (m_content_features m) \<Longrightarrow> cf_name f \<noteq> [] \<Longrightarrow>
    named (stored i f m) k \<longleftrightarrow> named m k \<or> k = unat i"
  by (auto simp: named_def stored_def nth_list_update)

lemma features_stored:
  "unat i < length (m_content_features m) \<Longrightarrow> m_content_features (stored i f m) ! k =
    (if k = unat i then f\<lparr>cf_floats := itemgroup_get (cf_groups f) ''float'' \<noteq> 0\<rparr>
     else m_content_features m ! k)"
  by (simp add: stored_def nth_list_update)

lemma stored_other [simp]:
  "m_name_id_mapping (stored i f m) = m_name_id_mapping m"
  "m_next_id (stored i f m) = m_next_id m"
  "length (m_content_features (stored i f m)) = length (m_content_features m)"
  "m_name_id_mapping_with_aliases (stored i f m) = m_name_id_mapping_with_aliases m"
  by (simp_all add: stored_def)

lemma group_items_stored:
  "distinct (map fst (m_group_to_items m)) \<Longrightarrow> distinct (map fst (cf_groups f)) \<Longrightarrow>
    group_items g (m_group_to_items (stored i f m)) =
      filter (\<lambda>x. x \<noteq> i) (group_items g (m_group_to_items m)) @ (if in_group g f then [i] else [])"
  by (simp add: stored_def group_items_add in_group_def)

lemma flags_floats [simp]: "cf_getLightingFlags (f\<lparr>cf_floats := b\<rparr>) = cf_getLightingFlags f"
  by (simp add: cf_getLightingFlags_def)

lemma in_group_floats [simp]: "in_group g (f\<lparr>cf_floats := b\<rparr>) = in_group g f"
  by (simp add: in_group_def)

lemma unat_inj [simp]: "unat (a :: u16) = unat b \<longleftrightarrow> a = b"
  by (simp add: word_unat_eq_iff)

lemma stored_wf:
  assumes w: "wf_but i m" and i: "nim_getId (cf_name f) (m_name_id_mapping m) = Some i"
    and f: "cf_name f \<noteq> []" "distinct (map fst (cf_groups f))"
  shows "ndm_wf (stored i f m)"
proof -
  let ?m = "stored i f m"
  have len: "unat i < length (m_content_features m)" and nim: "nim_wf (m_name_id_mapping m)"
    and gs: "distinct (map fst (m_group_to_items m))"
    using w by (simp_all add: wf_but_def)
  note facts = named_stored [OF len f(1)] features_stored [OF len] group_items_stored [OF gs f(2)]
  have same: "n = cf_name f" if "nim_getId n (m_name_id_mapping m) = Some i" for n
    using nim that i unfolding nim_wf_def nim_getId_def by (metis option.inject)
  have "names_ok ?m"
    unfolding names_ok_def stored_other facts
  proof (intro conjI allI impI)
    show "nim_wf (m_name_id_mapping m)" by (rule nim)
  next
    fix n j assume n: "nim_getId n (m_name_id_mapping m) = Some j"
    show "named m (unat j) \<or> unat j = unat i"
      using w n unfolding wf_but_def by blast
    show "cf_name (if unat j = unat i then f\<lparr>cf_floats := itemgroup_get (cf_groups f) ''float'' \<noteq> 0\<rparr>
        else m_content_features m ! unat j) = n"
    proof (cases "j = i")
      case True
      with n same show ?thesis by simp
    next
      case False
      with w n have "cf_name (m_content_features m ! unat j) = n"
        unfolding wf_but_def by blast
      with False show ?thesis by simp
    qed
  qed
  moreover have "ids_ok ?m"
    unfolding ids_ok_def stored_other facts builtin_unat using w unfolding wf_but_def by fastforce
  moreover have "flags_ok ?m"
    unfolding flags_ok_def facts
  proof
    fix c
    show "m_content_lighting_flag_cache ?m c = cf_getLightingFlags
        (if named m (unat c) \<or> unat c = unat i
         then if unat c = unat i then f\<lparr>cf_floats := itemgroup_get (cf_groups f) ''float'' \<noteq> 0\<rparr>
              else m_content_features m ! unat c
         else unknown_features)"
      using w by (cases "c = i") (simp_all add: stored_def wf_but_def)
  qed
  moreover have "groups_ok ?m"
    unfolding groups_ok_def stored_other facts
  proof (intro conjI allI)
    show "distinct (map fst (m_group_to_items ?m))"
      using gs by (simp add: stored_def distinct_add)
  next
    fix g
    have d: "distinct (group_items g (m_group_to_items m))"
      using w by (simp add: wf_but_def)
    then show "distinct (filter (\<lambda>x. x \<noteq> i) (group_items g (m_group_to_items m)) @
        (if in_group g f then [i] else []))" by simp
    show "\<forall>j \<in> set (filter (\<lambda>x. x \<noteq> i) (group_items g (m_group_to_items m)) @ (if in_group g f then [i] else [])).
        (named m (unat j) \<or> unat j = unat i) \<and> in_group g (if unat j = unat i
          then f\<lparr>cf_floats := itemgroup_get (cf_groups f) ''float'' \<noteq> 0\<rparr> else m_content_features m ! unat j)"
      using w by (auto simp: wf_but_def split: if_splits)
  next
    fix g n j
    have "j \<noteq> i \<Longrightarrow> nim_getId n (m_name_id_mapping m) = Some j \<Longrightarrow> \<not> is_builtin (unat j) \<Longrightarrow>
        in_group g (m_content_features m ! unat j) \<Longrightarrow> j \<in> set (group_items g (m_group_to_items m))"
      using w unfolding wf_but_def by blast
    then show "nim_getId n (m_name_id_mapping m) = Some j \<longrightarrow> \<not> is_builtin (unat j) \<longrightarrow>
        in_group g (if unat j = unat i then f\<lparr>cf_floats := itemgroup_get (cf_groups f) ''float'' \<noteq> 0\<rparr>
          else m_content_features m ! unat j) \<longrightarrow>
        j \<in> set (filter (\<lambda>x. x \<noteq> i) (group_items g (m_group_to_items m)) @ (if in_group g f then [i] else []))"
      by (cases "j = i") simp_all
  qed
  ultimately show ?thesis
    by (simp add: ndm_wf_def)
qed

lemma wf_but_registered:
  assumes "ndm_wf m" and "nim_getId n (m_name_id_mapping m) = Some i"
  shows "wf_but i m"
proof -
  have "named m (unat i)"
    using assms by (auto simp: ndm_wf_def names_ok_def)
  then have "unat i < length (m_content_features m)" "m_next_id m = 0 \<Longrightarrow> unat i \<noteq> 1"
    using assms(1) by (auto simp: named_def ndm_wf_def ids_ok_def)
  then show ?thesis
    using assms(1) unfolding ndm_wf_def names_ok_def ids_ok_def flags_ok_def groups_ok_def wf_but_def builtin_unat
    by blast
qed

subsubsection \<open>Registration\<close>

lemma nim_set_getId:
  "nim_set i name nm = Inr nm' \<Longrightarrow> nim_getId n nm' = (if n = name then Some i else nim_getId n nm)"
  by (auto simp: nim_set_def nim_getId_def map_of_update split: if_splits)

lemma addNameIdMapping_ok:
  assumes "name \<noteq> []"
  obtains nm wa where "nim_set i name (m_name_id_mapping m) = Inr nm"
    and "addNameIdMapping i name m =
      Inr (m\<lparr>m_name_id_mapping := nm, m_name_id_mapping_with_aliases := wa\<rparr>)"
    and "\<And>n. map_of wa n = (case ndm_getId n m of Some j \<Rightarrow> Some j | None \<Rightarrow> if n = name then Some i else None)"
  using assms by (force simp: addNameIdMapping_def nim_set_def ndm_getId_def split: option.splits)

text \<open>The state in which a new id waits for its features.\<close>

definition with_new_id :: "nat \<Rightarrow> nimap \<Rightarrow> (string \<times> u16) list \<Rightarrow> node_mgr \<Rightarrow> node_mgr" where
  "with_new_id j nm wa m = m\<lparr>m_content_features := grow_features (j + 1) (m_content_features m),
     m_next_id := (if j < 65535 then of_nat j + 1 else 0xFFFF),
     m_name_id_mapping := nm, m_name_id_mapping_with_aliases := wa\<rparr>"

lemma unat_of_nat_j: "j < 65536 \<Longrightarrow> unat (of_nat j :: u16) = j"
  by (simp add: unat_of_nat_u16)

lemma next_id_bound:
  assumes "j < 65536"
  shows "unat (if j < 65535 then of_nat j + 1 else 0xFFFF :: u16) \<le> j + 1"
    and "(if j < 65535 then of_nat j + 1 else 0xFFFF :: u16) \<noteq> 0"
proof -
  have "unat (of_nat j + 1 :: u16) = j + 1" if "j < 65535"
    using that by (simp add: unat_u16_Suc unat_of_nat_j)
  moreover have "of_nat j + 1 \<noteq> (0 :: u16)" if "j < 65535"
    using that calculation by (metis Suc_eq_plus1 nat.distinct(1) unat_0)
  ultimately show "unat (if j < 65535 then of_nat j + 1 else 0xFFFF :: u16) \<le> j + 1"
    and "(if j < 65535 then of_nat j + 1 else 0xFFFF :: u16) \<noteq> 0"
    using assms by auto
qed

lemma nim_free_id:
  assumes "names_ok m" and "\<not> named m (unat i)"
  shows "nim_getName i (m_name_id_mapping m) = None" "nim_getId n (m_name_id_mapping m) \<noteq> Some i"
proof -
  show n: "nim_getId n (m_name_id_mapping m) \<noteq> Some i" for n
    using assms by (auto simp: names_ok_def)
  then show "nim_getName i (m_name_id_mapping m) = None"
    using assms(1) unfolding names_ok_def nim_wf_def nim_getId_def nim_getName_def
    by (metis option.exhaust)
qed

lemma wf_but_new:
  assumes w: "ndm_wf m" and j: "j < 65536" "\<forall>k < j. named m k" "\<not> named m j"
    and n: "nim_getId name (m_name_id_mapping m) = None"
    and s: "nim_set (of_nat j) name (m_name_id_mapping m) = Inr nm"
  shows "wf_but (of_nat j) (with_new_id j nm wa m)"
proof -
  let ?i = "of_nat j :: u16"
  let ?m = "with_new_id j nm wa m"
  have u: "unat ?i = j" using j(1) by (rule unat_of_nat_j)
  have names: "names_ok m" and ids: "ids_ok m" and flags: "flags_ok m" and groups: "groups_ok m"
    using w by (simp_all add: ndm_wf_def)
  have nj: "\<not> named m (unat ?i)" using j(3) u by simp
  have wf: "nim_wf nm"
    using names n nim_free_id(1) [OF names nj] by (intro nim_wf_set [OF _ s]) (simp_all add: names_ok_def)
  have nmd: "named ?m k = named m k" for k
    by (auto simp: with_new_id_def named_def grow_nth split: if_splits)
  have fs: "named m k \<Longrightarrow> m_content_features ?m ! k = m_content_features m ! k" for k
    by (simp add: with_new_id_def named_def grow_old)
  have sel: "m_name_id_mapping ?m = nm" "m_group_to_items ?m = m_group_to_items m"
    "m_content_lighting_flag_cache ?m = m_content_lighting_flag_cache m"
    "length (m_content_features ?m) = max (j + 1) (length (m_content_features m))"
    "m_next_id ?m = (if j < 65535 then of_nat j + 1 else 0xFFFF)"
    by (simp_all add: with_new_id_def)
  have old: "nim_getId n' (m_name_id_mapping m) = Some k" if "nim_getId n' nm = Some k" "k \<noteq> ?i" for n' k
    using that nim_set_getId [OF s, of n'] by (auto split: if_splits)
  have reg: "named m (unat k) \<and> cf_name (m_content_features ?m ! unat k) = n'"
    if "nim_getId n' nm = Some k" "k \<noteq> ?i" for n' k
    using old [OF that] names fs unfolding names_ok_def by metis
  show ?thesis
    unfolding wf_but_def nmd sel
  proof (intro conjI allI impI ballI)
    show "nim_wf nm" by (rule wf)
  next
    show "max (j + 1) (length (m_content_features m)) \<le> 65536"
      using j(1) ids by (simp add: ids_ok_def)
    show "unat ?i < max (j + 1) (length (m_content_features m))" using u by simp
    show "named m 125" "named m 126" "named m 127" using ids by (simp_all add: ids_ok_def)
  next
    fix k assume "k < unat (if j < 65535 then of_nat j + 1 else 0xFFFF :: u16)" "k \<noteq> unat ?i"
    then have "k < j" using next_id_bound(1) [OF j(1)] u by linarith
    then show "named m k" using j(2) by blast
  next
    fix n' k assume "nim_getId n' nm = Some k" "k \<noteq> ?i"
    with reg show "named m (unat k)" "cf_name (m_content_features ?m ! unat k) = n'" by blast+
  next
    assume "(if j < 65535 then of_nat j + 1 else 0xFFFF :: u16) = 0"
    with next_id_bound(2) [OF j(1)] show "\<not> named m 1" "unat ?i \<noteq> 1" by blast+
  next
    fix c assume "c \<noteq> ?i"
    have "m_content_lighting_flag_cache m c =
        cf_getLightingFlags (if named m (unat c) then m_content_features m ! unat c else unknown_features)"
      using flags unfolding flags_ok_def by blast
    then show "m_content_lighting_flag_cache m c =
        cf_getLightingFlags (if named m (unat c) then m_content_features ?m ! unat c else unknown_features)"
      using fs by simp
  next
    show "distinct (map fst (m_group_to_items m))" using groups by (simp add: groups_ok_def)
  next
    fix g show "distinct (group_items g (m_group_to_items m))" using groups by (simp add: groups_ok_def)
  next
    fix g k assume k: "k \<in> set (group_items g (m_group_to_items m))"
    then have "named m (unat k)" "in_group g (m_content_features m ! unat k)"
      using groups unfolding groups_ok_def by blast+
    then show "named m (unat k)" "in_group g (m_content_features ?m ! unat k)" by (simp_all add: fs)
  next
    fix g n' k assume k: "nim_getId n' nm = Some k" "k \<noteq> ?i" "\<not> is_builtin (unat k)"
      "in_group g (m_content_features ?m ! unat k)"
    have "in_group g (m_content_features m ! unat k)"
      using k(4) fs reg [OF k(1,2)] by simp
    then show "k \<in> set (group_items g (m_group_to_items m))"
      using groups old [OF k(1,2)] k(3) unfolding groups_ok_def by blast
  qed
qed

text \<open>
  Registering a node gives it an id that it is found under, with its features, and leaves every
  other node as it was; only with all ids in use is \<^verbatim>\<open>CONTENT_IGNORE\<close> returned.
\<close>

lemma ndm_set_cases:
  assumes w: "ndm_wf m" and name: "name \<noteq> []" "name = cf_name f" "name \<noteq> ''ignore''"
    and g: "distinct (map fst (cf_groups f))"
  obtains (stored) i m' where "ndm_set name f m = Some (Inr (i, m'))" and "ndm_wf m'"
      and "nim_getId name (m_name_id_mapping m') = Some i"
      and "named m (unat i) \<Longrightarrow> nim_getId name (m_name_id_mapping m) = Some i"
      and "\<And>n. n \<noteq> name \<Longrightarrow> nim_getId n (m_name_id_mapping m') = nim_getId n (m_name_id_mapping m)"
      and "m_content_features m' ! unat i = f\<lparr>cf_floats := itemgroup_get (cf_groups f) ''float'' \<noteq> 0\<rparr>"
      and "\<And>c. c \<noteq> i \<Longrightarrow> named m' (unat c) = named m (unat c)"
      and "\<And>c. c \<noteq> i \<Longrightarrow> named m (unat c) \<Longrightarrow> m_content_features m' ! unat c = m_content_features m ! unat c"
  | (full) "ndm_set name f m = Some (Inr (CONTENT_IGNORE, m))"
proof (cases "nim_getId name (m_name_id_mapping m)")
  case (Some i)
  let ?m = "stored i f m"
  have b: "wf_but i m"
    by (rule wf_but_registered [OF w Some])
  then have len: "unat i < length (m_content_features m)"
    by (simp add: wf_but_def)
  have wf: "ndm_wf ?m"
    using stored_wf [OF b _ _ g] Some name by simp
  have st: "ndm_set name f m = Some (Inr (i, ?m))"
    using name Some by (simp add: ndm_set_def store_node_stored [OF len])
  show ?thesis
    by (rule stored [OF st wf]) (use Some name in \<open>simp_all add: features_stored [OF len] named_stored [OF len]\<close>)
next
  case None
  have ids: "\<forall>i < unat (m_next_id m). named m i" "m_next_id m = 0 \<longrightarrow> \<not> named m 1"
    using w by (auto simp: ndm_wf_def ids_ok_def)
  show ?thesis
  proof (cases rule: allocateId_cases [OF ids, case_names new full])
    case (new j)
    let ?i = "of_nat j :: u16"
    define m1 where "m1 = m\<lparr>m_content_features := grow_features (j + 1) (m_content_features m),
        m_next_id := (if j < 65535 then of_nat j + 1 else 0xFFFF)\<rparr>"
    have alloc: "allocateId m = Some (?i, m1)"
      using new(4) by (simp only: m1_def)
    obtain nm wa where nm1: "nim_set ?i name (m_name_id_mapping m1) = Inr nm"
      and add: "addNameIdMapping ?i name m1 =
        Inr (m1\<lparr>m_name_id_mapping := nm, m_name_id_mapping_with_aliases := wa\<rparr>)"
      using addNameIdMapping_ok [OF name(1), of ?i m1] by metis
    let ?m2 = "with_new_id j nm wa m"
    have m2: "m1\<lparr>m_name_id_mapping := nm, m_name_id_mapping_with_aliases := wa\<rparr> = ?m2"
      by (simp add: m1_def with_new_id_def)
    have nm: "nim_set ?i name (m_name_id_mapping m) = Inr nm"
      using nm1 by (simp add: m1_def)
    let ?m = "stored ?i f ?m2"
    have b: "wf_but ?i ?m2"
      using new nm by (intro wf_but_new [OF w _ _ _ None]) simp_all
    then have len: "unat ?i < length (m_content_features ?m2)"
      by (simp add: wf_but_def)
    have get: "nim_getId n (m_name_id_mapping ?m) = (if n = name then Some ?i else nim_getId n (m_name_id_mapping m))" for n
      using nim_set_getId [OF nm, of n] by (simp add: with_new_id_def)
    have wf: "ndm_wf ?m"
      using stored_wf [OF b _ _ g] name get [of name] by simp
    have "?i \<noteq> CONTENT_IGNORE"
    proof
      assume "?i = CONTENT_IGNORE"
      then have "j = 127" using unat_of_nat_j [OF new(1)] by (metis builtin_unat(3))
      then show False using new(3) w by (simp add: ndm_wf_def ids_ok_def)
    qed
    then have st: "ndm_set name f m = Some (Inr (?i, ?m))"
      using name None alloc add by (simp add: ndm_set_def m2 store_node_stored [OF len])
    have nmd: "named ?m2 k = named m k" for k
      by (auto simp: with_new_id_def named_def grow_nth split: if_splits)
    have nj: "\<not> named ?m2 (unat ?i)"
      using new(3) unat_of_nat_j [OF new(1)] nmd by simp
    show ?thesis
      by (rule stored [OF st wf])
        (use name get nj in \<open>simp_all add: features_stored [OF len] named_stored [OF len] nmd,
          simp_all add: with_new_id_def named_def grow_old\<close>)
  next
    case full
    with name None that(2) show ?thesis by (simp add: ndm_set_def)
  qed
qed

subsubsection \<open>Removal, aliases and cross references\<close>

lemma nim_eraseName_getId:
  "nim_wf nm \<Longrightarrow> nim_getId n (nim_eraseName name nm) = (if n = name then None else nim_getId n nm)"
  by (auto simp: nim_eraseName_def nim_getId_def map_of_delete split: option.splits)

lemma removeNode_ok:
  assumes w: "ndm_wf m" and "name \<noteq> []"
  obtains m' where "removeNode name m = Inr m'" and "ndm_wf m'" and "m_content_features m' = m_content_features m"
    and "nim_getId name (m_name_id_mapping m') = None"
    and "\<And>n. n \<noteq> name \<Longrightarrow> nim_getId n (m_name_id_mapping m') = nim_getId n (m_name_id_mapping m)"
proof (cases "nim_getId name (m_name_id_mapping m)")
  case None
  with assms that show ?thesis by (simp add: removeNode_def)
next
  case (Some i)
  let ?m = "m\<lparr>m_name_id_mapping := nim_eraseName name (m_name_id_mapping m),
     m_name_id_mapping_with_aliases := AList.delete name (m_name_id_mapping_with_aliases m),
     m_group_to_items := eraseIdFromGroups i (m_group_to_items m)\<rparr>"
  have nim: "nim_wf (m_name_id_mapping m)" and gs: "distinct (map fst (m_group_to_items m))"
    using w by (simp_all add: ndm_wf_def names_ok_def groups_ok_def)
  note get = nim_eraseName_getId [OF nim]
  have other: "j \<noteq> i" if "nim_getId n (m_name_id_mapping m) = Some j" "n \<noteq> name" for n j
    using nim that Some unfolding nim_wf_def nim_getId_def by (metis option.inject)
  have sel: "named ?m = named m" "m_content_features ?m = m_content_features m" "m_next_id ?m = m_next_id m"
    "m_content_lighting_flag_cache ?m = m_content_lighting_flag_cache m"
    by (rule ext) (simp_all add: named_def)
  have "names_ok ?m"
    using w by (simp add: ndm_wf_def names_ok_def sel get nim_wf_eraseName)
  moreover have "ids_ok ?m" "flags_ok ?m"
    using w by (simp_all add: ndm_wf_def ids_ok_def flags_ok_def sel)
  moreover have "groups_ok ?m"
    using w gs other by (simp add: ndm_wf_def groups_ok_def sel get) blast
  ultimately have "ndm_wf ?m"
    by (simp add: ndm_wf_def)
  then show ?thesis
    using Some assms(2) get by (intro that [of ?m]) (simp_all add: removeNode_def)
qed

lemma updateAliases_keeps [simp]:
  "m_name_id_mapping (updateAliases idef m) = m_name_id_mapping m"
  "m_content_features (updateAliases idef m) = m_content_features m"
  "m_next_id (updateAliases idef m) = m_next_id m"
  "m_group_to_items (updateAliases idef m) = m_group_to_items m"
  "m_content_lighting_flag_cache (updateAliases idef m) = m_content_lighting_flag_cache m"
  by (simp_all add: updateAliases_def)

lemma updateAliases_named [simp]: "named (updateAliases idef m) i = named m i"
  by (simp add: named_def)

lemma updateAliases_wf: "ndm_wf m \<Longrightarrow> ndm_wf (updateAliases idef m)"
  by (simp add: ndm_wf_def names_ok_def ids_ok_def flags_ok_def groups_ok_def)

lemma resolve_features_keeps [simp]:
  "cf_name (resolve_features m f) = cf_name f"
  "in_group g (resolve_features m f) = in_group g f"
  "cf_getLightingFlags (resolve_features m f) = cf_getLightingFlags f"
  by (simp_all add: resolve_features_def Let_def in_group_def cf_getLightingFlags_def)

lemma resolveCrossrefs_named [simp]: "named (resolveCrossrefs m) i = named m i"
  by (auto simp: named_def resolveCrossrefs_def)

lemma resolveCrossrefs_nth:
  "named m i \<Longrightarrow> m_content_features (resolveCrossrefs m) ! i = resolve_features m (m_content_features m ! i)"
  by (simp add: named_def resolveCrossrefs_def)

lemma resolveCrossrefs_other [simp]:
  "m_name_id_mapping (resolveCrossrefs m) = m_name_id_mapping m"
  "m_next_id (resolveCrossrefs m) = m_next_id m"
  "m_group_to_items (resolveCrossrefs m) = m_group_to_items m"
  "m_content_lighting_flag_cache (resolveCrossrefs m) = m_content_lighting_flag_cache m"
  "length (m_content_features (resolveCrossrefs m)) = length (m_content_features m)"
  by (simp_all add: resolveCrossrefs_def)

lemma resolveCrossrefs_wf:
  assumes "ndm_wf m"
  shows "ndm_wf (resolveCrossrefs m)"
proof -
  let ?m = "resolveCrossrefs m"
  have names: "names_ok m" and groups: "groups_ok m" and flags: "flags_ok m"
    using assms by (simp_all add: ndm_wf_def)
  have reg: "named m (unat i)" if "nim_getId n (m_name_id_mapping m) = Some i" for n i
    using names that unfolding names_ok_def by blast
  have "names_ok ?m"
    using names reg by (simp add: names_ok_def resolveCrossrefs_nth)
  moreover have "ids_ok ?m"
    using assms by (simp add: ndm_wf_def ids_ok_def)
  moreover have "flags_ok ?m"
    using flags by (simp add: flags_ok_def resolveCrossrefs_nth)
  moreover have "groups_ok ?m"
    using groups reg unfolding groups_ok_def by (simp add: resolveCrossrefs_nth)
  ultimately show ?thesis
    by (simp add: ndm_wf_def)
qed

text \<open>
  A removed node keeps its features, which are still sent to the clients; a client that has the name
  under one id ignores the node that was registered later under another.
\<close>

lemma removed_node_still_sent:
  "removeNode name m = Inr m' \<Longrightarrow> nodes_to_send m' = nodes_to_send m"
  by (auto simp: removeNode_def nodes_to_send_def split: if_splits option.splits)

lemma later_id_ignored:
  "nim_getId (cf_name f) (m_name_id_mapping m) = Some j \<Longrightarrow> j \<noteq> i \<Longrightarrow> accept_node (i, f) m = Inr m"
  by (simp add: accept_node_def)

subsection \<open>Histories\<close>

datatype node_op =
  SetNode string content_features | DummyNode string | RemoveNode string | Aliases item_mgr | Crossrefs

fun node_apply :: "node_op \<Rightarrow> node_mgr \<Rightarrow> node_mgr res option" where
  "node_apply (SetNode name f) m = map_option (map_sum (\<lambda>e. e) snd) (ndm_set name f m)"
| "node_apply (DummyNode name) m = map_option (map_sum (\<lambda>e. e) snd) (allocateDummy name m)"
| "node_apply (RemoveNode name) m = Some (removeNode name m)"
| "node_apply (Aliases idef) m = Some (Inr (updateAliases idef m))"
| "node_apply Crossrefs m = Some (Inr (resolveCrossrefs m))"

fun node_run :: "node_op list \<Rightarrow> node_mgr res \<Rightarrow> node_mgr res option" where
  "node_run [] r = Some r"
| "node_run (c # cs) (Inl e) = Some (Inl e)"
| "node_run (c # cs) (Inr m) = Option.bind (node_apply c m) (node_run cs)"

text \<open>The groups of a definition are a map, and \<^verbatim>\<open>unknown\<close> keeps its definition.\<close>

fun node_op_ok :: "node_op \<Rightarrow> bool" where
  "node_op_ok (SetNode name f) \<longleftrightarrow> distinct (map fst (cf_groups f)) \<and> name \<noteq> ''unknown''"
| "node_op_ok (DummyNode name) \<longleftrightarrow> name \<noteq> ''unknown''"
| "node_op_ok (RemoveNode name) \<longleftrightarrow> name \<noteq> []"
| "node_op_ok (Aliases idef) \<longleftrightarrow> True"
| "node_op_ok Crossrefs \<longleftrightarrow> True"

definition unknown_kept :: "node_mgr \<Rightarrow> bool" where
  "unknown_kept m \<longleftrightarrow> cf_name (m_content_features m ! 125) = ''unknown'' \<and>
     cf_getLightingFlags (m_content_features m ! 125) = cf_getLightingFlags unknown_features"

lemma unat_125: "unat (125 :: u16) = 125" by simp

lemma unknown_kept_set:
  assumes w: "ndm_wf m" and u: "unknown_kept m" and name: "name \<noteq> ''unknown''"
    and g: "distinct (map fst (cf_groups f))"
  obtains i m' where "ndm_set name f m = Some (Inr (i, m'))" and "ndm_wf m'" and "unknown_kept m'"
proof (cases "name = [] \<or> name \<noteq> cf_name f \<or> name = ''ignore''")
  case True
  with w u that show ?thesis by (auto simp: ndm_set_def)
next
  case False
  then have n: "name \<noteq> []" "name = cf_name f" "name \<noteq> ''ignore''" by blast+
  show ?thesis
  proof (cases rule: ndm_set_cases [OF w n g, case_names stored full])
    case (stored i m')
    have "named m 125"
      using w by (simp add: ndm_wf_def ids_ok_def)
    moreover have "i \<noteq> 125"
    proof
      assume i: "i = 125"
      with stored(4) \<open>named m 125\<close> have "nim_getId name (m_name_id_mapping m) = Some 125" by simp
      then have "cf_name (m_content_features m ! unat (125 :: u16)) = name"
        using w unfolding ndm_wf_def names_ok_def by blast
      then have "cf_name (m_content_features m ! 125) = name" by simp
      with u name show False by (simp add: unknown_kept_def)
    qed
    ultimately have "m_content_features m' ! 125 = m_content_features m ! 125"
      using stored(8) [of 125] by (simp only: unat_125)
    then show ?thesis
      using that stored(1,2) u by (simp add: unknown_kept_def)
  next
    case full
    with that w u show ?thesis by blast
  qed
qed

lemma node_apply_ok:
  assumes w: "ndm_wf m" and u: "unknown_kept m" and c: "node_op_ok c"
  obtains m' where "node_apply c m = Some (Inr m')" and "ndm_wf m'" and "unknown_kept m'"
proof (cases c)
  case (SetNode name f)
  with unknown_kept_set [OF w u, of name f] c that show ?thesis by force
next
  case (DummyNode name)
  show ?thesis
  proof (cases "name = []")
    case True
    with DummyNode w u that show ?thesis by (simp add: allocateDummy_def)
  next
    case False
    have "distinct (map fst (cf_groups (ContentFeatures_reset\<lparr>cf_name := name\<rparr>)))"
      by (simp add: ContentFeatures_reset_def)
    then obtain i m' where "ndm_set name (ContentFeatures_reset\<lparr>cf_name := name\<rparr>) m = Some (Inr (i, m'))"
      "ndm_wf m'" "unknown_kept m'"
      using unknown_kept_set [OF w u, of name] DummyNode c by (metis node_op_ok.simps(2))
    with DummyNode False that show ?thesis by (simp add: allocateDummy_def)
  qed
next
  case (RemoveNode name)
  with c have "name \<noteq> []" by simp
  with removeNode_ok [OF w, of name] RemoveNode that u show ?thesis
    by (metis node_apply.simps(3) unknown_kept_def)
next
  case (Aliases idef)
  with that [of "updateAliases idef m"] updateAliases_wf [OF w] u show ?thesis
    by (simp add: unknown_kept_def)
next
  case Crossrefs
  have "named m 125"
    using w by (simp add: ndm_wf_def ids_ok_def)
  then have "unknown_kept (resolveCrossrefs m)"
    using u by (simp add: unknown_kept_def resolveCrossrefs_nth)
  with Crossrefs that [of "resolveCrossrefs m"] resolveCrossrefs_wf [OF w] show ?thesis by simp
qed

lemma node_run_ok:
  assumes "ndm_wf m" and "unknown_kept m" and "\<forall>c \<in> set cs. node_op_ok c"
  shows "\<exists>m'. node_run cs (Inr m) = Some (Inr m') \<and> ndm_wf m' \<and> unknown_kept m'"
  using assms
proof (induction cs arbitrary: m)
  case (Cons c cs)
  then obtain m1 where "node_apply c m = Some (Inr m1)" "ndm_wf m1" "unknown_kept m1"
    using node_apply_ok [of m c] by auto
  with Cons show ?case by simp
qed simp

lemma ndm_clear_kept:
  obtains m where "ndm_clear = Inr m" and "ndm_wf m" and "unknown_kept m"
proof -
  obtain m where m: "ndm_clear = Inr m" "ndm_wf m"
    using ndm_clear_wf by blast
  moreover have "m_content_features m ! 125 = unknown_features"
    using ndm_clear_ok unfolding m(1) by auto
  ultimately have "unknown_kept m"
    by (simp add: unknown_kept_def) (simp add: unknown_features_def)
  with m that show ?thesis by blast
qed

text \<open>Whatever the history, the lighting flags are those of the features that a lookup gives.\<close>

lemma flags_of_lookup:
  assumes "ndm_wf m" and "unknown_kept m"
  shows "ndm_getLightingFlags c m = cf_getLightingFlags (ndm_get c m)"
proof -
  have "m_content_lighting_flag_cache m c =
      cf_getLightingFlags (if named m (unat c) then m_content_features m ! unat c else unknown_features)"
    using assms(1) unfolding ndm_wf_def flags_ok_def by blast
  then show ?thesis
    using assms(2) by (cases "named m (unat c)")
      (simp_all add: ndm_getLightingFlags_def ndm_get_named ndm_get_unnamed unknown_kept_def)
qed

lemma ids_of_group: "snd (ndm_getIds (''group:'' @ g) [] m) = group_items g (m_group_to_items m)"
  by (simp add: ndm_getIds_def group_items_def split: option.split)

subsection \<open>Properties\<close>


definition stone_features :: content_features where
  "stone_features = ContentFeatures_reset\<lparr>cf_name := ''stone'', cf_groups := [(''cracky'', 3)]\<rparr>"


end
