(* ===== verification/NodeParams.thy ===== *)
theory NodeParams
  imports NodeDef
begin

section \<open>What the parameters of a node mean\<close>

text \<open>
  The functions of \<^verbatim>\<open>MapNode\<close> (\<^verbatim>\<open>src/mapnode.h\<close>, \<^verbatim>\<open>mapnode.cpp\<close>) that read the two parameters by the
  features of the node, with \<^verbatim>\<open>blend_light\<close> of \<^verbatim>\<open>src/light.h\<close>: the light of day and night, the
  direction a node faces and its rotation, and the level of liquids and leveled nodes. Freezing and
  melting, which scale levels in floating point, and the boxes are left out.
\<close>

subsection \<open>Light\<close>

datatype light_bank = LIGHTBANK_DAY | LIGHTBANK_NIGHT

definition LIGHT_SUN :: u8 where "LIGHT_SUN = 15"

definition setLight :: "light_bank \<Rightarrow> u8 \<Rightarrow> lighting_flags \<Rightarrow> map_node \<Rightarrow> map_node" where
  "setLight bank a_light f n =
     (if \<not> lf_has_light f then n
      else case bank of
        LIGHTBANK_DAY \<Rightarrow> n\<lparr>param1 := (param1 n AND 0xF0) OR (a_light AND 0x0F)\<rparr>
      | LIGHTBANK_NIGHT \<Rightarrow> n\<lparr>param1 := (param1 n AND 0x0F) OR push_bit 4 (a_light AND 0x0F)\<rparr>)"

definition getLightRaw :: "light_bank \<Rightarrow> lighting_flags \<Rightarrow> map_node \<Rightarrow> u8" where
  "getLightRaw bank f n =
     (if lf_has_light f
      then (case bank of LIGHTBANK_DAY \<Rightarrow> param1 n AND 0x0F | LIGHTBANK_NIGHT \<Rightarrow> drop_bit 4 (param1 n) AND 0x0F)
      else 0)"

definition getLight :: "light_bank \<Rightarrow> lighting_flags \<Rightarrow> map_node \<Rightarrow> u8" where
  "getLight bank f n = max (lf_light_source f) (getLightRaw bank f n)"

definition isLightDayNightEq :: "lighting_flags \<Rightarrow> map_node \<Rightarrow> bool" where
  "isLightDayNightEq f n \<longleftrightarrow> \<not> lf_has_light f \<or> getLight LIGHTBANK_DAY f n = getLight LIGHTBANK_NIGHT f n"

definition blend_light :: "u32 \<Rightarrow> u8 \<Rightarrow> u8 \<Rightarrow> u8" where
  "blend_light daylight_factor lightday lightnight =
     (let c = 1000; l = (daylight_factor * ucast lightday + (c - daylight_factor) * ucast lightnight) div c
      in ucast (if l > ucast LIGHT_SUN then ucast LIGHT_SUN else l))"

definition getLightBlend :: "u32 \<Rightarrow> lighting_flags \<Rightarrow> map_node \<Rightarrow> u8" where
  "getLightBlend daylight_factor f n =
     blend_light daylight_factor (getLight LIGHTBANK_DAY f n) (getLight LIGHTBANK_NIGHT f n)"

subsection \<open>Direction\<close>

text \<open>There are eight states of a wall-mounted node, two of them special.\<close>

definition DWM_COUNT :: u8 where "DWM_COUNT = 8"

definition wallmounted_to_facedir :: "u8 list" where
  "wallmounted_to_facedir = [20, 0, 16 + 1, 12 + 3, 8, 4 + 2, 20 + 1, 0 + 1]"

definition is_wallmounted :: "content_param_type2 \<Rightarrow> bool" where
  "is_wallmounted t \<longleftrightarrow> t = CPT2_WALLMOUNTED \<or> t = CPT2_COLORED_WALLMOUNTED"

definition getFaceDir :: "node_mgr \<Rightarrow> bool \<Rightarrow> map_node \<Rightarrow> u8" where
  "getFaceDir nodemgr allow_wallmounted n =
     (let t = cf_param_type_2 (ndm_get_node n nodemgr)
      in if t = CPT2_FACEDIR \<or> t = CPT2_COLORED_FACEDIR then (param2 n AND 0x1F) mod 24
         else if t = CPT2_4DIR \<or> t = CPT2_COLORED_4DIR then param2 n AND 0x03
         else if allow_wallmounted \<and> is_wallmounted t
         then wallmounted_to_facedir ! unat (min (param2 n AND 0x07) (DWM_COUNT - 1))
         else 0)"

definition getWallMounted :: "node_mgr \<Rightarrow> map_node \<Rightarrow> u8" where
  "getWallMounted nodemgr n =
     (let f = ndm_get_node n nodemgr
      in if is_wallmounted (cf_param_type_2 f) then min (param2 n AND 0x07) (DWM_COUNT - 1)
         else if cf_drawtype f \<in> {NDT_SIGNLIKE, NDT_TORCHLIKE, NDT_PLANTLIKE, NDT_PLANTLIKE_ROOTED} then 1
         else 0)"

definition getWallMountedDir :: "node_mgr \<Rightarrow> map_node \<Rightarrow> v3" where
  "getWallMountedDir nodemgr n =
     (let w = getWallMounted nodemgr n
      in if w = 1 then mk_v3 0 (- 1) 0 else if w = 2 then mk_v3 1 0 0 else if w = 3 then mk_v3 (- 1) 0 0
         else if w = 4 then mk_v3 0 0 1 else if w = 5 then mk_v3 0 0 (- 1)
         else if w = 7 then mk_v3 0 (- 1) 0 else mk_v3 0 1 0)"

definition getDegRotate :: "node_mgr \<Rightarrow> map_node \<Rightarrow> u8" where
  "getDegRotate nodemgr n =
     (let t = cf_param_type_2 (ndm_get_node n nodemgr)
      in if t = CPT2_DEGROTATE then param2 n mod 240
         else if t = CPT2_COLORED_DEGROTATE then 10 * ((param2 n AND 0x1F) mod 24)
         else 0)"

subsection \<open>Rotation\<close>

datatype rotation = ROTATE_0 | ROTATE_90 | ROTATE_180 | ROTATE_270 | ROTATE_RAND

fun rot_number :: "rotation \<Rightarrow> nat" where
  "rot_number ROTATE_0 = 0" | "rot_number ROTATE_90 = 1" | "rot_number ROTATE_180 = 2"
| "rot_number ROTATE_270 = 3" | "rot_number ROTATE_RAND = 4"

definition wallmounted_to_rot :: "rotation list" where
  "wallmounted_to_rot = [ROTATE_0, ROTATE_180, ROTATE_90, ROTATE_270]"

definition rot_to_wallmounted :: "u8 list" where
  "rot_to_wallmounted = [2, 4, 3, 5]"

definition rotate_facedir :: "u8 list" where
  "rotate_facedir =
     [0, 1, 2, 3,  1, 2, 3, 0,  2, 3, 0, 1,  3, 0, 1, 2,
      4, 13, 10, 19,  5, 14, 11, 16,  6, 15, 8, 17,  7, 12, 9, 18,
      8, 17, 6, 15,  9, 18, 7, 12,  10, 19, 4, 13,  11, 16, 5, 14,
      12, 9, 18, 7,  13, 10, 19, 4,  14, 11, 16, 5,  15, 8, 17, 6,
      16, 5, 14, 11,  17, 6, 15, 8,  18, 7, 12, 9,  19, 4, 13, 10,
      20, 23, 22, 21,  21, 20, 23, 22,  22, 21, 20, 23,  23, 22, 21, 20]"

text \<open>An element of one of the tables; an index that is not in the table is an access outside it.\<close>

definition at_index :: "'a list \<Rightarrow> nat \<Rightarrow> 'a res" where
  "at_index xs i = (if i < length xs then Inr (xs ! i) else Inl OutOfBounds)"

definition rotateAlongYAxis :: "node_mgr \<Rightarrow> rotation \<Rightarrow> map_node \<Rightarrow> map_node res" where
  "rotateAlongYAxis nodemgr rot n =
     (let cpt2 = cf_param_type_2 (ndm_get_node n nodemgr); p = param2 n; r = rot_number rot
      in if cpt2 = CPT2_FACEDIR \<or> cpt2 = CPT2_COLORED_FACEDIR then
           rbind (at_index rotate_facedir (unat ((p AND 31) mod 24) * 4 + r))
             (\<lambda>d. Inr (n\<lparr>param2 := (p AND NOT 31) OR d\<rparr>))
         else if cpt2 = CPT2_4DIR \<or> cpt2 = CPT2_COLORED_4DIR then
           rbind (at_index rotate_facedir (unat (p AND 3) * 4 + r))
             (\<lambda>d. Inr (n\<lparr>param2 := (p AND NOT 3) OR d\<rparr>))
         else if is_wallmounted cpt2 then
           (let wmountface = min (p AND 0x07) (DWM_COUNT - 1)
            in if wmountface \<le> 1 then Inr n
               else rbind (at_index wallmounted_to_rot (unat (wmountface - 2))) (\<lambda>oldrot.
                    Inr (n\<lparr>param2 := (p AND NOT 7) OR
                      rot_to_wallmounted ! nat ((int (rot_number oldrot) - int r) mod 4)\<rparr>)))
         else if cpt2 = CPT2_DEGROTATE then Inr (n\<lparr>param2 := of_nat ((unat p + 60 * r) mod 240)\<rparr>)
         else if cpt2 = CPT2_COLORED_DEGROTATE then
           Inr (n\<lparr>param2 := (p AND 0xE0) OR of_nat ((unat (p AND 0x1F) + 6 * r) mod 24)\<rparr>)
         else Inr n)"

subsection \<open>Levels\<close>

definition node_getMaxLevel :: "node_mgr \<Rightarrow> bool \<Rightarrow> map_node \<Rightarrow> u8" where
  "node_getMaxLevel nodemgr compress n = cf_getMaxLevel (ndm_get_node n nodemgr) compress"

definition LEVELED_MASK :: u8 where "LEVELED_MASK = 0x1F"

definition node_getLevel :: "node_mgr \<Rightarrow> map_node \<Rightarrow> u8" where
  "node_getLevel nodemgr n =
     (let f = ndm_get_node n nodemgr
      in if cf_param_type_2 f = CPT2_LEVELED then
           (let level = param2 n AND LEVELED_MASK
            in if cf_liquid_type f = LIQUID_SOURCE \<and> cf_liquid_alternative_flowing_id f = param0 n
               then (if level \<noteq> 0 then level else cf_getMaxLevel f False)
               else let level = (if cf_liquid_type f = LIQUID_SOURCE then level + cf_getMaxLevel f False else level)
                    in if level \<noteq> 0 then level else 1)
         else if cf_leveled f \<noteq> 0 then (if cf_leveled f > LEVELED_MAX then LEVELED_MAX else cf_leveled f)
         else if cf_liquid_type f = LIQUID_SOURCE then
           (if cf_param_type_2 (ndm_get (ndm_getId_or_ignore (cf_liquid_alternative_flowing f) nodemgr) nodemgr)
                 = CPT2_LEVELED
            then LEVELED_MAX else LIQUID_LEVEL_SOURCE)
         else if cf_param_type_2 f = CPT2_FLOWINGLIQUID then param2 n AND LIQUID_LEVEL_MASK
         else if cf_liquid_type f = LIQUID_FLOWING then param2 n AND LIQUID_LEVEL_MASK
         else if cf_leveled f > cf_leveled_max f then cf_leveled_max f
         else cf_leveled f)"

text \<open>
  \<open>setLevel\<close> returns what does not fit; its levels are \<^verbatim>\<open>s16\<close>. Setting the content changes only the
  node: the features \<open>f\<close> stay those of the old content.
\<close>

definition put_level :: "content_features \<Rightarrow> int \<Rightarrow> map_node \<Rightarrow> map_node" where
  "put_level f level n =
     (let mx = uint (cf_getMaxLevel f False);
          (level1, n1) =
            (if level \<ge> mx then
               (if cf_liquid_type f = LIQUID_SOURCE then (level - mx, n)
                else if cf_liquid_alternative_source_id f \<noteq> CONTENT_IGNORE
                then (level - mx, setContent (cf_liquid_alternative_source_id f) n)
                else (level, n))
             else if cf_liquid_alternative_flowing_id f \<noteq> CONTENT_IGNORE
             then (level, setContent (cf_liquid_alternative_flowing_id f) n)
             else (level, n))
      in setParam2 ((word_of_int level1 AND LEVELED_MASK) OR (param2 n1 AND NOT LEVELED_MASK)) n1)"

definition node_setLevel :: "node_mgr \<Rightarrow> int \<Rightarrow> bool \<Rightarrow> map_node \<Rightarrow> int \<times> map_node" where
  "node_setLevel nodemgr level compress n =
     (let f = ndm_get_node n nodemgr
      in if cf_param_type_2 f = CPT2_LEVELED \<or> cf_param_type_2 f = CPT2_FLOWINGLIQUID \<or>
            cf_liquid_type f = LIQUID_FLOWING \<or> cf_liquid_type f = LIQUID_SOURCE then
           (if level < 0 then (level, put_level f 0 n)
            else if level \<le> 0 then (0, setParam2 0 (setContent CONTENT_AIR n))
            else if level > uint (cf_getMaxLevel f compress)
            then (level - uint (cf_getMaxLevel f compress), put_level f (uint (cf_getMaxLevel f compress)) n)
            else (0, put_level f level n))
         else (0, n))"

definition node_addLevel :: "node_mgr \<Rightarrow> int \<Rightarrow> bool \<Rightarrow> map_node \<Rightarrow> int \<times> map_node" where
  "node_addLevel nodemgr add compress n =
     node_setLevel nodemgr (to_s16 (uint (node_getLevel nodemgr n) + add)) compress n"

subsection \<open>The two banks of light\<close>

lemma u8_eqI:
  assumes "list_all (\<lambda>k. bit (a :: u8) k = bit b k) [0, 1, 2, 3, 4, 5, 6, 7]"
  shows "a = b"
proof (rule bit_word_eqI)
  fix k :: nat
  assume "k < LENGTH(8)"
  then have "k \<in> {0, 1, 2, 3, 4, 5, 6, 7}" by force
  with assms show "bit a k = bit b k" by auto
qed

lemma light_bits:
  "((p AND 0xF0) OR (l AND 0x0F)) AND 0x0F = (l AND 0x0F :: u8)"
  "drop_bit 4 ((p AND 0xF0) OR (l AND 0x0F)) AND 0x0F = (drop_bit 4 p AND 0x0F :: u8)"
  "((p AND 0x0F) OR push_bit 4 (l AND 0x0F)) AND 0x0F = (p AND 0x0F :: u8)"
  "drop_bit 4 ((p AND 0x0F) OR push_bit 4 (l AND 0x0F)) AND 0x0F = (l AND 0x0F :: u8)"
  "(p AND 0x0F OR push_bit 4 l AND 0xF0) AND 0x0F = (p AND 0x0F :: u8)"
  "drop_bit 4 (push_bit 4 l) AND 0x0F = (l AND 0x0F :: u8)"
  by (rule u8_eqI, simp add: bit_simps)+

lemma setLight_getLightRaw:
  "lf_has_light f \<Longrightarrow> getLightRaw b f (setLight bank l f n) = (if b = bank then l AND 0x0F else getLightRaw b f n)"
  by (cases b; cases bank) (simp_all add: setLight_def getLightRaw_def light_bits)

lemma setLight_other [simp]: "param0 (setLight bank l f n) = param0 n" "param2 (setLight bank l f n) = param2 n"
  by (simp_all add: setLight_def split: light_bank.split)

lemma low_nibble: "unat (x AND 0x0F :: u8) < 16"
proof -
  have "x AND 0x0F \<le> (0x0F :: u8)"
    by (simp add: word_and_le1)
  then show ?thesis by (simp add: word_le_nat_alt)
qed

text \<open>The blended light lies between the light of the night and that of the day.\<close>

lemma blend_light_value:
  assumes "unat c \<le> 1000" and "unat d < 16" and "unat n < 16"
  shows "unat (blend_light c d n) = (unat c * unat d + (1000 - unat c) * unat n) div 1000"
proof -
  let ?v = "unat c * unat d + (1000 - unat c) * unat n"
  have "unat c * unat d \<le> unat c * 15" "(1000 - unat c) * unat n \<le> (1000 - unat c) * 15"
    using assms by (simp_all add: mult_le_mono2)
  then have v: "?v \<le> 15000"
    using assms(1) by linarith
  have u: "unat (ucast x :: u32) = unat x" for x :: u8
    using unat_u8_less [of x] by (simp add: unsigned_ucast_eq take_bit_nat_eq_self)
  have sub: "unat (1000 - c) = 1000 - unat c"
    using assms(1) by (subst unat_sub) (simp_all add: word_le_nat_alt)
  have prods: "unat (c * ucast d) = unat c * unat d" "unat ((1000 - c) * ucast n) = (1000 - unat c) * unat n"
    using v by (simp_all add: unat_word_ariths u sub)
  have "unat (c * ucast d + (1000 - c) * ucast n) = ?v"
    using v by (simp add: unat_word_ariths(1) prods)
  then have l: "unat ((c * ucast d + (1000 - c) * ucast n) div 1000) = ?v div 1000"
    by (simp add: unat_div)
  have "?v div 1000 \<le> 15000 div 1000"
    using v by (rule div_le_mono)
  then have small: "?v div 1000 \<le> 15" by simp
  then have "\<not> (c * ucast d + (1000 - c) * ucast n) div 1000 > ucast LIGHT_SUN"
    using l by (simp add: word_less_nat_alt LIGHT_SUN_def)
  then show ?thesis
    using l small
    by (simp add: blend_light_def Let_def unsigned_ucast_eq take_bit_nat_eq_self)
qed

subsection \<open>Rotations compose\<close>

lemma or_masked:
  "d AND k = d \<Longrightarrow> ((p AND NOT k) OR d) AND k = (d :: u8)"
  "d AND k = d \<Longrightarrow> ((p AND NOT k) OR d) AND NOT k = p AND NOT k"
proof -
  assume d: "d AND k = d"
  have a: "(p AND NOT k) AND k = 0"
    by (rule bit_word_eqI) (simp add: bit_simps)
  have n: "d AND NOT k = 0"
    by (subst d [symmetric]) (rule bit_word_eqI, simp add: bit_simps)
  show "((p AND NOT k) OR d) AND k = d"
    by (simp add: bit.conj_disj_distrib2 a d)
  show "((p AND NOT k) OR d) AND NOT k = p AND NOT k"
    by (simp add: bit.conj_disj_distrib2 n and.assoc)
qed

lemma facedir_table:
  "list_all (\<lambda>i. list_all (\<lambda>r. let d = rotate_facedir ! (i * 4 + r) in d AND 31 = d \<and> unat d < 24 \<and>
     list_all (\<lambda>s. rotate_facedir ! (unat d * 4 + s) = rotate_facedir ! (i * 4 + (r + s) mod 4)) [0..<4])
     [0..<4]) [0..<24]"
  by code_simp

lemma fourdir_table:
  "list_all (\<lambda>i. list_all (\<lambda>r. let d = rotate_facedir ! (i * 4 + r) in d AND 3 = d) [0..<4]) [0..<4]"
  by code_simp

lemma wall_table:
  "list_all (\<lambda>w. list_all (\<lambda>r.
     let w1 = rot_to_wallmounted ! nat ((int (rot_number (wallmounted_to_rot ! (w - 2))) - int r) mod 4)
     in w1 AND 7 = w1 \<and> 2 \<le> unat w1 \<and> unat w1 < 6 \<and>
     list_all (\<lambda>s. rot_to_wallmounted ! nat ((int (rot_number (wallmounted_to_rot ! (unat w1 - 2))) - int s) mod 4) =
       rot_to_wallmounted ! nat ((int (rot_number (wallmounted_to_rot ! (w - 2))) - int ((r + s) mod 4)) mod 4)) [0..<4])
     [0..<4]) [2..<6]"
  by code_simp

text \<open>Rotating by the angle that two rotations add up to.\<close>

definition rot_add :: "rotation \<Rightarrow> rotation \<Rightarrow> rotation" where
  "rot_add r s = [ROTATE_0, ROTATE_90, ROTATE_180, ROTATE_270] ! ((rot_number r + rot_number s) mod 4)"

lemma rot_number_add [simp]: "rot_number (rot_add r s) = (rot_number r + rot_number s) mod 4"
proof -
  have "(rot_number r + rot_number s) mod 4 < 4" by simp
  then consider "(rot_number r + rot_number s) mod 4 = 0" | "(rot_number r + rot_number s) mod 4 = 1"
    | "(rot_number r + rot_number s) mod 4 = 2" | "(rot_number r + rot_number s) mod 4 = 3"
    by linarith
  then show ?thesis by cases (simp_all add: rot_add_def)
qed

lemma rot_number_less: "r \<noteq> ROTATE_RAND \<Longrightarrow> rot_number r < 4"
  by (cases r) simp_all

lemma rotate_facedir_length [simp]: "length rotate_facedir = 96"
  by (simp add: rotate_facedir_def)

lemma facedir_entry:
  assumes "i < 24" and "r < 4" and "s < 4"
  shows "rotate_facedir ! (i * 4 + r) AND 31 = rotate_facedir ! (i * 4 + r)"
    and "unat (rotate_facedir ! (i * 4 + r)) < 24"
    and "rotate_facedir ! (unat (rotate_facedir ! (i * 4 + r)) * 4 + s) = rotate_facedir ! (i * 4 + (r + s) mod 4)"
  using facedir_table assms by (auto simp: list_all_iff Let_def)

lemma fourdir_entry:
  assumes "i < 4" and "r < 4"
  shows "rotate_facedir ! (i * 4 + r) AND 3 = rotate_facedir ! (i * 4 + r)"
  using fourdir_table assms by (auto simp: list_all_iff Let_def)

lemma wall_entry:
  assumes "2 \<le> w" and "w < 6" and "r < 4" and "s < 4"
    and "w1 = rot_to_wallmounted ! nat ((int (rot_number (wallmounted_to_rot ! (w - 2))) - int r) mod 4)"
  shows "w1 AND 7 = w1" and "2 \<le> unat w1" and "unat w1 < 6"
    and "rot_to_wallmounted ! nat ((int (rot_number (wallmounted_to_rot ! (unat w1 - 2))) - int s) mod 4) =
      rot_to_wallmounted ! nat ((int (rot_number (wallmounted_to_rot ! (w - 2))) - int ((r + s) mod 4)) mod 4)"
proof -
  have m: "w \<in> set [2..<6]" "r \<in> set [0..<4]" "s \<in> set [0..<4]"
    using assms(1-4) by (simp_all only: set_upt atLeastLessThan_iff) (simp_all only: le0 simp_thms)
  show "w1 AND 7 = w1" "2 \<le> unat w1" "unat w1 < 6"
    "rot_to_wallmounted ! nat ((int (rot_number (wallmounted_to_rot ! (unat w1 - 2))) - int s) mod 4) =
      rot_to_wallmounted ! nat ((int (rot_number (wallmounted_to_rot ! (w - 2))) - int ((r + s) mod 4)) mod 4)"
    using wall_table m unfolding assms(5) list_all_iff Let_def by blast+
qed

lemma unat_mod_u8: "unat ((w :: u8) mod 24) = unat w mod 24"
  by (simp add: unat_mod)

text \<open>A node that faces a special direction of its wall cannot be rotated: the table has four entries.\<close>

definition special_wall :: "node_mgr \<Rightarrow> map_node \<Rightarrow> bool" where
  "special_wall nodemgr n \<longleftrightarrow>
     is_wallmounted (cf_param_type_2 (ndm_get_node n nodemgr)) \<and> param2 n AND 0x07 > 5"

lemma wall_face: "min (p AND 0x07) (DWM_COUNT - 1) = (p AND 0x07 :: u8)"
proof -
  have "p AND 0x07 \<le> (0x07 :: u8)" by (simp add: word_and_le1)
  then show ?thesis by (simp add: DWM_COUNT_def min_def)
qed

lemma ndm_get_node_param2 [simp]: "ndm_get_node (n\<lparr>param2 := v\<rparr>) m = ndm_get_node n m"
  by (simp add: ndm_get_node_def getContent_def)

text \<open>The bits of \<open>param2\<close> that a rotation must not touch.\<close>

definition kept_bits :: "content_param_type2 \<Rightarrow> u8" where
  "kept_bits t =
     (if t \<in> {CPT2_FACEDIR, CPT2_COLORED_FACEDIR} then NOT 31
      else if t \<in> {CPT2_4DIR, CPT2_COLORED_4DIR} then NOT 3
      else if is_wallmounted t then NOT 7
      else if t = CPT2_DEGROTATE then 0
      else if t = CPT2_COLORED_DEGROTATE then 0xE0
      else - 1)"

text \<open>Each way to store a direction, as an action of the rotations on \<open>param2\<close>.\<close>

lemma rotate_facedir_case:
  assumes "cf_param_type_2 (ndm_get_node n m) \<in> {CPT2_FACEDIR, CPT2_COLORED_FACEDIR}" and "rot_number r < 4"
  shows "rotateAlongYAxis m r n = Inr (n\<lparr>param2 := (param2 n AND NOT 31) OR
    rotate_facedir ! (unat (param2 n AND 31) mod 24 * 4 + rot_number r)\<rparr>)"
proof -
  have "unat (param2 n AND 31) mod 24 < 24" by simp
  then have "unat (param2 n AND 31) mod 24 * 4 + rot_number r < 96"
    using assms(2) by linarith
  with assms(1) show ?thesis
    by (auto simp: rotateAlongYAxis_def Let_def at_index_def unat_mod_u8)
qed

lemma low_two: "unat (p AND 3 :: u8) < 4"
proof -
  have "p AND 3 \<le> (3 :: u8)" by (simp add: word_and_le1)
  then show ?thesis by (simp add: word_le_nat_alt)
qed

lemma rotate_fourdir_case:
  assumes "cf_param_type_2 (ndm_get_node n m) \<in> {CPT2_4DIR, CPT2_COLORED_4DIR}" and "rot_number r < 4"
  shows "rotateAlongYAxis m r n = Inr (n\<lparr>param2 := (param2 n AND NOT 3) OR
    rotate_facedir ! (unat (param2 n AND 3) * 4 + rot_number r)\<rparr>)"
proof -
  have "unat (param2 n AND 3) * 4 + rot_number r < 96"
    using assms(2) low_two [of "param2 n"] by linarith
  with assms(1) show ?thesis
    by (auto simp: rotateAlongYAxis_def Let_def at_index_def)
qed

lemma rotate_wall_case:
  assumes "is_wallmounted (cf_param_type_2 (ndm_get_node n m))" and "unat (param2 n AND 7) < 6"
  shows "rotateAlongYAxis m r n = Inr (if unat (param2 n AND 7) < 2 then n
    else n\<lparr>param2 := (param2 n AND NOT 7) OR rot_to_wallmounted !
      nat ((int (rot_number (wallmounted_to_rot ! (unat (param2 n AND 7) - 2))) - int (rot_number r)) mod 4)\<rparr>)"
proof -
  have le: "param2 n AND 7 \<le> 1 \<longleftrightarrow> unat (param2 n AND 7) < 2"
    by (auto simp: word_le_nat_alt)
  have sub: "unat ((param2 n AND 7) - 2) = unat (param2 n AND 7) - 2" if "\<not> unat (param2 n AND 7) < 2"
    using that by (subst unat_sub) (simp_all add: word_le_nat_alt)
  have len: "length wallmounted_to_rot = 4" by (simp add: wallmounted_to_rot_def)
  show ?thesis
    using assms by (auto simp: rotateAlongYAxis_def Let_def wall_face le sub at_index_def len is_wallmounted_def)
qed

definition rotates_to :: "node_mgr \<Rightarrow> rotation \<Rightarrow> rotation \<Rightarrow> map_node \<Rightarrow> bool" where
  "rotates_to m r s n \<longleftrightarrow> (\<exists>n1. rotateAlongYAxis m r n = Inr n1 \<and> param0 n1 = param0 n \<and> param1 n1 = param1 n \<and>
     param2 n1 AND kept_bits (cf_param_type_2 (ndm_get_node n m)) =
       param2 n AND kept_bits (cf_param_type_2 (ndm_get_node n m)) \<and>
     rotateAlongYAxis m s n1 = rotateAlongYAxis m (rot_add r s) n)"

lemma rotates_facedir:
  assumes t: "cf_param_type_2 (ndm_get_node n m) \<in> {CPT2_FACEDIR, CPT2_COLORED_FACEDIR}"
    and r: "rot_number r < 4" "rot_number s < 4"
  shows "rotates_to m r s n"
proof -
  let ?i = "unat (param2 n AND 31) mod 24"
  let ?d = "rotate_facedir ! (?i * 4 + rot_number r)"
  let ?n = "n\<lparr>param2 := (param2 n AND NOT 31) OR ?d\<rparr>"
  have i: "?i < 24" by simp
  note e = facedir_entry [OF i r]
  have one: "rotateAlongYAxis m r n = Inr ?n"
    by (rule rotate_facedir_case [OF t r(1)])
  have bits: "param2 ?n AND 31 = ?d" "param2 ?n AND NOT 31 = param2 n AND NOT 31"
    using or_masked [OF e(1)] by simp_all
  have "unat ?d mod 24 = unat ?d"
    using e(2) by (rule mod_less)
  then have "rotateAlongYAxis m s ?n = Inr (?n\<lparr>param2 := (param2 n AND NOT 31) OR rotate_facedir ! (unat ?d * 4 + rot_number s)\<rparr>)"
    using rotate_facedir_case [of ?n m s] t r(2) bits by simp
  moreover have "rotateAlongYAxis m (rot_add r s) n =
      Inr (n\<lparr>param2 := (param2 n AND NOT 31) OR rotate_facedir ! (?i * 4 + (rot_number r + rot_number s) mod 4)\<rparr>)"
    using rotate_facedir_case [of n m "rot_add r s"] t by simp
  ultimately have "rotateAlongYAxis m s ?n = rotateAlongYAxis m (rot_add r s) n"
    by (simp only: e(3)) simp
  then show ?thesis
    unfolding rotates_to_def using one t bits(2) by (intro exI [of _ ?n]) (auto simp: kept_bits_def)
qed

lemma rotates_fourdir:
  assumes t: "cf_param_type_2 (ndm_get_node n m) \<in> {CPT2_4DIR, CPT2_COLORED_4DIR}"
    and r: "rot_number r < 4" "rot_number s < 4"
  shows "rotates_to m r s n"
proof -
  let ?i = "unat (param2 n AND 3)"
  let ?d = "rotate_facedir ! (?i * 4 + rot_number r)"
  let ?n = "n\<lparr>param2 := (param2 n AND NOT 3) OR ?d\<rparr>"
  have i: "?i < 4" by (rule low_two)
  then have i24: "?i < 24" by linarith
  note e = facedir_entry(3) [OF i24 r] and f = fourdir_entry [OF i r(1)]
  have one: "rotateAlongYAxis m r n = Inr ?n"
    by (rule rotate_fourdir_case [OF t r(1)])
  have bits: "param2 ?n AND 3 = ?d" "param2 ?n AND NOT 3 = param2 n AND NOT 3"
    using or_masked [OF f] by simp_all
  have "rotateAlongYAxis m s ?n = Inr (?n\<lparr>param2 := (param2 n AND NOT 3) OR rotate_facedir ! (unat ?d * 4 + rot_number s)\<rparr>)"
    using rotate_fourdir_case [of ?n m s] t r(2) bits by simp
  moreover have "rotateAlongYAxis m (rot_add r s) n =
      Inr (n\<lparr>param2 := (param2 n AND NOT 3) OR rotate_facedir ! (?i * 4 + (rot_number r + rot_number s) mod 4)\<rparr>)"
    using rotate_fourdir_case [of n m "rot_add r s"] t by simp
  ultimately have "rotateAlongYAxis m s ?n = rotateAlongYAxis m (rot_add r s) n"
    by (simp only: e) simp
  then show ?thesis
    unfolding rotates_to_def using one t bits(2) by (intro exI [of _ ?n]) (auto simp: kept_bits_def)
qed

lemma rotates_wall:
  assumes t: "is_wallmounted (cf_param_type_2 (ndm_get_node n m))" and w: "unat (param2 n AND 7) < 6"
    and r: "rot_number r < 4" "rot_number s < 4"
  shows "rotates_to m r s n"
proof (cases "unat (param2 n AND 7) < 2")
  case True
  then show ?thesis
    by (simp add: rotates_to_def rotate_wall_case [OF t w])
next
  case False
  let ?w = "unat (param2 n AND 7)"
  let ?d = "rot_to_wallmounted ! nat ((int (rot_number (wallmounted_to_rot ! (?w - 2))) - int (rot_number r)) mod 4)"
  let ?n = "n\<lparr>param2 := (param2 n AND NOT 7) OR ?d\<rparr>"
  have two: "2 \<le> ?w" using False by simp
  note e = wall_entry [OF two w r refl]
  have one: "rotateAlongYAxis m r n = Inr ?n"
    using rotate_wall_case [OF t w, of r] False by simp
  have bits: "param2 ?n AND 7 = ?d" "param2 ?n AND NOT 7 = param2 n AND NOT 7"
    using or_masked [OF e(1)] by simp_all
  have t1: "is_wallmounted (cf_param_type_2 (ndm_get_node ?n m))" and w1: "unat (param2 ?n AND 7) < 6"
    using t bits(1) e(3) by simp_all
  have "rotateAlongYAxis m s ?n = Inr (?n\<lparr>param2 := (param2 n AND NOT 7) OR rot_to_wallmounted !
      nat ((int (rot_number (wallmounted_to_rot ! (unat ?d - 2))) - int (rot_number s)) mod 4)\<rparr>)"
    unfolding rotate_wall_case [OF t1 w1] bits using e(2) by simp
  moreover have "rotateAlongYAxis m (rot_add r s) n = Inr (n\<lparr>param2 := (param2 n AND NOT 7) OR rot_to_wallmounted !
      nat ((int (rot_number (wallmounted_to_rot ! (?w - 2))) - int ((rot_number r + rot_number s) mod 4)) mod 4)\<rparr>)"
    using rotate_wall_case [OF t w, of "rot_add r s"] False by simp
  ultimately have "rotateAlongYAxis m s ?n = rotateAlongYAxis m (rot_add r s) n"
    by (simp only: e(4)) simp
  moreover have "kept_bits (cf_param_type_2 (ndm_get_node n m)) = NOT 7"
    using t by (auto simp: kept_bits_def is_wallmounted_def)
  ultimately show ?thesis
    unfolding rotates_to_def using one bits(2) by (intro exI [of _ ?n]) auto
qed

lemma add_angles: "((p + k * r) mod (k * 4) + k * s) mod (k * 4) = (p + k * ((r + s) mod 4)) mod (k * 4 :: nat)"
proof -
  have "(p + k * ((r + s) mod 4)) mod (k * 4) = (p + (k * (r + s)) mod (k * 4)) mod (k * 4)"
    by (simp only: mult_mod_right)
  then show ?thesis
    by (simp add: mod_simps algebra_simps)
qed

lemma small_u8: "v < 240 \<Longrightarrow> unat (of_nat v :: u8) = v"
  by (simp add: unat_of_nat)

lemma angle_table: "list_all (\<lambda>v. (of_nat v :: u8) AND 31 = of_nat v) [0..<24]"
  by code_simp

lemma rotates_deg:
  assumes t: "cf_param_type_2 (ndm_get_node n m) = CPT2_DEGROTATE"
  shows "rotates_to m r s n"
proof -
  have "(unat (param2 n) + 60 * rot_number r) mod 240 < 240" by simp
  then have "unat (of_nat ((unat (param2 n) + 60 * rot_number r) mod 240) :: u8) =
      (unat (param2 n) + 60 * rot_number r) mod 240" by (rule small_u8)
  then show ?thesis
    using t add_angles [of "unat (param2 n)" 60 "rot_number r" "rot_number s"]
    by (simp add: rotates_to_def rotateAlongYAxis_def is_wallmounted_def kept_bits_def)
qed

lemma rotates_coloured_deg:
  assumes t: "cf_param_type_2 (ndm_get_node n m) = CPT2_COLORED_DEGROTATE"
  shows "rotates_to m r s n"
proof -
  let ?v = "(unat (param2 n AND 31) + 6 * rot_number r) mod 24"
  let ?n = "n\<lparr>param2 := (param2 n AND NOT 31) OR of_nat ?v\<rparr>"
  have e0: "(0xE0 :: u8) = - 32" by simp
  have sel: "param2 (n\<lparr>param2 := x\<rparr>) = x" for x by simp
  have others: "param0 (n\<lparr>param2 := x\<rparr>) = param0 n" "param1 (n\<lparr>param2 := x\<rparr>) = param1 n" for x by simp_all
  have v: "?v < 24" by simp
  then have "?v \<in> set [0..<24]" by (simp only: set_upt atLeastLessThan_iff) (simp only: le0 simp_thms)
  then have k: "(of_nat ?v :: u8) AND 31 = of_nat ?v"
    using angle_table unfolding list_all_iff by blast
  have u: "unat (of_nat ?v :: u8) = ?v"
    using v by (intro small_u8) linarith
  have rot: "rotateAlongYAxis m q n' = Inr (n'\<lparr>param2 := (param2 n' AND NOT 31) OR
      of_nat ((unat (param2 n' AND 31) + 6 * rot_number q) mod 24)\<rparr>)"
    if "cf_param_type_2 (ndm_get_node n' m) = CPT2_COLORED_DEGROTATE" for q n'
    using that by (simp add: rotateAlongYAxis_def is_wallmounted_def Let_def e0)
  have bits: "param2 ?n AND 31 = of_nat ?v" "param2 ?n AND NOT 31 = param2 n AND NOT 31"
    unfolding sel by (rule or_masked [OF k])+
  have "rotateAlongYAxis m s ?n =
      Inr (?n\<lparr>param2 := (param2 n AND NOT 31) OR of_nat ((?v + 6 * rot_number s) mod 24)\<rparr>)"
    using rot [of ?n s] t by (simp only: bits u ndm_get_node_param2)
  moreover have "rotateAlongYAxis m (rot_add r s) n = Inr (n\<lparr>param2 := (param2 n AND NOT 31) OR
      of_nat ((unat (param2 n AND 31) + 6 * ((rot_number r + rot_number s) mod 4)) mod 24)\<rparr>)"
    by (simp only: rot [OF t] rot_number_add)
  moreover have "(?v + 6 * rot_number s) mod 24 =
      (unat (param2 n AND 31) + 6 * ((rot_number r + rot_number s) mod 4)) mod 24"
    using add_angles [of _ 6] by simp
  ultimately have "rotateAlongYAxis m s ?n = rotateAlongYAxis m (rot_add r s) n"
    by (simp only:) simp
  moreover have "kept_bits (cf_param_type_2 (ndm_get_node n m)) = NOT 31"
    using t by (simp add: kept_bits_def is_wallmounted_def)
  ultimately show ?thesis
    unfolding rotates_to_def using rot [OF t, of r] bits(2) by (intro exI [of _ ?n] conjI) (simp_all only: others)
qed


lemma special_wall_outside: "special_wall m n \<Longrightarrow> rotateAlongYAxis m r n = Inl OutOfBounds"
proof -
  assume a: "special_wall m n"
  have "param2 n AND 7 \<le> (7 :: u8)" by (simp add: word_and_le1)
  with a have w: "5 < unat (param2 n AND 7)" by (simp add: special_wall_def word_less_nat_alt)
  then have "unat ((param2 n AND 7) - 2) = unat (param2 n AND 7) - 2"
    by (subst unat_sub) (simp_all add: word_le_nat_alt)
  then show ?thesis
    using a w by (auto simp: special_wall_def rotateAlongYAxis_def Let_def wall_face is_wallmounted_def
        at_index_def wallmounted_to_rot_def word_le_nat_alt)
qed


end
