(* ===== verification/NodeStorage.thy ===== *)
theory NodeStorage
  imports MapNode
begin

section \<open>The stored form of nodes\<close>

text \<open>
  The versions of the map format of \<^verbatim>\<open>src/serialization.h\<close>, and how \<^verbatim>\<open>src/mapnode.cpp\<close> writes and reads
  a single node and the nodes of a block: first all contents, then all first and all second
  parameters. Versions below 24, which had other contents, are read but not written.
\<close>

unbundle bit_operations_syntax

subsection \<open>Versions\<close>

definition SER_FMT_VER_HIGHEST_READ :: int where "SER_FMT_VER_HIGHEST_READ = 29"
definition SER_FMT_VER_HIGHEST_WRITE :: int where "SER_FMT_VER_HIGHEST_WRITE = 29"
definition SER_FMT_VER_LOWEST_READ :: int where "SER_FMT_VER_LOWEST_READ = 0"
definition SER_FMT_VER_LOWEST_WRITE :: int where "SER_FMT_VER_LOWEST_WRITE = 24"

definition ser_ver_supported_read :: "int \<Rightarrow> bool" where
  "ser_ver_supported_read v \<longleftrightarrow> v \<ge> SER_FMT_VER_LOWEST_READ \<and> v \<le> SER_FMT_VER_HIGHEST_READ"

definition ser_ver_supported_write :: "int \<Rightarrow> bool" where
  "ser_ver_supported_write v \<longleftrightarrow> v \<ge> SER_FMT_VER_LOWEST_WRITE \<and> v \<le> SER_FMT_VER_HIGHEST_WRITE"

subsection \<open>One node\<close>

definition serializedLength :: "u8 \<Rightarrow> nat res" where
  "serializedLength version =
     (if \<not> ser_ver_supported_read (uint version) then Inl VersionMismatchException
      else if version = 0 then Inr 1
      else if version \<le> 9 then Inr 2
      else if version \<le> 23 then Inr 3
      else Inr 4)"

definition MapNode_serialize :: "u8 \<Rightarrow> map_node \<Rightarrow> u8 list res" where
  "MapNode_serialize version n =
     (if \<not> ser_ver_supported_write (uint version) then Inl VersionMismatchException
      else if version < 24 then Inl SerializationError
      else Inr (writeU16 (param0 n) @ [param1 n] @ [param2 n]))"

definition mapnode_translate_to_internal :: "map_node \<Rightarrow> u8 \<Rightarrow> map_node" where
  "mapnode_translate_to_internal n_from version =
     (if version \<le> 19 then
        (case find (\<lambda>tt. snd tt = getContent n_from) trans_table_19 of
           Some tt \<Rightarrow> setContent (fst tt) n_from
         | None \<Rightarrow> n_from)
      else n_from)"

text \<open>
  The formats before version 22. Members that a version does not store keep their values. Contents
  above \<open>0x7f\<close> had four more bits in the second parameter.
\<close>

definition wide_content_pre22 :: "map_node \<Rightarrow> map_node" where
  "wide_content_pre22 n =
     (if param0 n > 0x7f
      then n\<lparr>param0 := push_bit 4 (param0 n) OR drop_bit 4 (ucast (param2 n AND 0xf0)), param2 := param2 n AND 0x0f\<rparr>
      else n)"

definition MapNode_deSerialize_pre22 :: "u8 list \<Rightarrow> u8 \<Rightarrow> map_node \<Rightarrow> map_node res" where
  "MapNode_deSerialize_pre22 source version n =
     rbind (fetch 0 1 hd source) (\<lambda>b0.
     rbind (if version \<le> 1 then Inr (n\<lparr>param0 := ucast b0\<rparr>)
            else rbind (fetch 1 1 hd source) (\<lambda>b1.
              if version \<le> 9 then Inr (n\<lparr>param0 := ucast b0, param1 := b1\<rparr>)
              else rbind (fetch 2 1 hd source) (\<lambda>b2.
                Inr (wide_content_pre22 (n\<lparr>param0 := ucast b0, param1 := b1, param2 := b2\<rparr>)))))
       (\<lambda>n1.
         let n2 = (if version \<le> 19
                   then (if param0 n1 = 255 then n1\<lparr>param0 := CONTENT_IGNORE\<rparr>
                         else if param0 n1 = 254 then n1\<lparr>param0 := CONTENT_AIR\<rparr> else n1)
                   else n1)
         in Inr (mapnode_translate_to_internal n2 version)))"

definition MapNode_deSerialize :: "u8 list \<Rightarrow> u8 \<Rightarrow> map_node \<Rightarrow> map_node res" where
  "MapNode_deSerialize source version n =
     (if \<not> ser_ver_supported_read (uint version) then Inl VersionMismatchException
      else if version \<le> 21 then MapNode_deSerialize_pre22 source version n
      else if version \<ge> 24 then
        rbind (fetch 0 2 readU16 source) (\<lambda>c.
        rbind (fetch 2 1 hd source) (\<lambda>p1.
        rbind (fetch 3 1 hd source) (\<lambda>p2. Inr (n\<lparr>param0 := c, param1 := p1, param2 := p2\<rparr>))))
      else
        rbind (fetch 0 1 hd source) (\<lambda>c.
        rbind (fetch 1 1 hd source) (\<lambda>p1.
        rbind (fetch 2 1 hd source) (\<lambda>p2.
          Inr (if (ucast c :: u16) > 0x7F
               then n\<lparr>param0 := ucast c OR push_bit 4 (ucast (p2 AND 0xF0)), param1 := p1, param2 := p2 AND 0x0F\<rparr>
               else n\<lparr>param0 := ucast c, param1 := p1, param2 := p2\<rparr>)))))"

subsection \<open>The nodes of a block\<close>

definition serializeBulk :: "int \<Rightarrow> map_node list \<Rightarrow> nat \<Rightarrow> u8 \<Rightarrow> u8 \<Rightarrow> bool \<Rightarrow> u8 list res" where
  "serializeBulk version nodes nodecount content_width params_width is_mono_block =
     (if \<not> ser_ver_supported_write version then Inl VersionMismatchException
      else if content_width \<noteq> 2 \<or> params_width \<noteq> 2 then Inl AssertFailed
      else if nodecount * 4 \<ge> 2 ^ 32 \<or> length nodes < (if is_mono_block then 1 else nodecount) then Inl OutOfBounds
      else
        let ns = (if is_mono_block then replicate nodecount (nodes ! 0) else take nodecount nodes)
        in Inr (concat (map (\<lambda>n. writeU16 (param0 n)) ns) @ map param1 ns @ map param2 ns))"

text \<open>
  The size of the buffer is computed in 32 bits; where it wraps, the buffer is too small for the nodes.
  The buffer that the stream is read into is not initialised, and the code does not ask whether all of
  it was read: with fewer bytes in the stream the nodes get what was in the memory. The nodes that
  are there are overwritten in full.
\<close>

definition bulk_node :: "u8 list \<Rightarrow> nat \<Rightarrow> u8 \<Rightarrow> nat \<Rightarrow> map_node" where
  "bulk_node databuf nodecount content_width i =
     (let start1 = unat content_width * nodecount; start2 = (unat content_width + 1) * nodecount;
          p1 = databuf ! (start1 + i); p2 = databuf ! (start2 + i)
      in if content_width = 1 then
           (let c = ucast (databuf ! i) :: u16
            in if c > 0x7F
               then \<lparr>param0 = push_bit 4 c OR drop_bit 4 (ucast (p2 AND 0xF0)), param1 = p1, param2 = p2 AND 0x0F\<rparr>
               else \<lparr>param0 = c, param1 = p1, param2 = p2\<rparr>)
         else \<lparr>param0 = readU16 (drop (i * 2) databuf), param1 = p1, param2 = p2\<rparr>)"

definition deSerializeBulk :: "string \<Rightarrow> int \<Rightarrow> nat \<Rightarrow> u8 \<Rightarrow> u8 \<Rightarrow> (map_node list \<times> string) res" where
  "deSerializeBulk is version nodecount content_width params_width =
     (if \<not> ser_ver_supported_read version then Inl VersionMismatchException
      else if version < 22 \<or> (content_width \<noteq> 1 \<and> content_width \<noteq> 2) \<or> params_width \<noteq> 2
      then Inl SerializationError
      else
        let len = nodecount * (unat content_width + unat params_width)
        in if len \<ge> 2 ^ 32 then Inl OutOfBounds
           else if length is < len then Inl UninitializedRead
           else Inr (map (bulk_node (map ord8 (take len is)) nodecount content_width) [0..<nodecount], drop len is))"

subsection \<open>Reading back\<close>

lemma length_contents [simp]: "length (concat (map (\<lambda>n. writeU16 (param0 n)) ns)) = 2 * length ns"
  by (induction ns) simp_all

lemma drop_contents:
  "i < length ns \<Longrightarrow> readU16 (drop (i * 2) (concat (map (\<lambda>n. writeU16 (param0 n)) ns)) @ r) = param0 (ns ! i)"
proof (induction ns arbitrary: i)
  case (Cons n ns)
  then show ?case by (cases i) simp_all
qed simp

definition bulk_bytes :: "map_node list \<Rightarrow> u8 list" where
  "bulk_bytes ns = concat (map (\<lambda>n. writeU16 (param0 n)) ns) @ map param1 ns @ map param2 ns"

lemma length_bulk_bytes [simp]: "length (bulk_bytes ns) = 4 * length ns"
  by (simp add: bulk_bytes_def)

lemma bulk_node_reads:
  "i < length ns \<Longrightarrow> bulk_node (bulk_bytes ns) (length ns) 2 i = ns ! i"
  by (simp add: bulk_node_def bulk_bytes_def Let_def drop_contents nth_append)

lemma serializeBulk_bytes:
  "ser_ver_supported_write version \<Longrightarrow> length ns < 2 ^ 30 \<Longrightarrow>
    serializeBulk version ns (length ns) 2 2 False = Inr (bulk_bytes ns)"
  "ser_ver_supported_write version \<Longrightarrow> k < 2 ^ 30 \<Longrightarrow> serializeBulk version [n] k 2 2 True = Inr (bulk_bytes (replicate k n))"
  by (simp_all add: serializeBulk_def bulk_bytes_def)

lemma ser_ver_write_read: "ser_ver_supported_write v \<Longrightarrow> ser_ver_supported_read v \<and> 24 \<le> v"
  by (simp add: ser_ver_supported_read_def ser_ver_supported_write_def SER_FMT_VER_HIGHEST_READ_def
      SER_FMT_VER_HIGHEST_WRITE_def SER_FMT_VER_LOWEST_READ_def SER_FMT_VER_LOWEST_WRITE_def)

lemma deSerializeBulk_reads:
  assumes "ser_ver_supported_write version" and "length ns = k" and "k < 2 ^ 30"
  shows "deSerializeBulk (stream_write (bulk_bytes ns) @ r) version k 2 2 = Inr (ns, r)"
proof -
  have len: "length (stream_write (bulk_bytes ns)) = 4 * k"
    using assms(2) by simp
  have "map (bulk_node (bulk_bytes ns) k 2) [0..<k] = ns"
    using assms(2) bulk_node_reads [of _ ns] by (intro nth_equalityI) simp_all
  then show ?thesis
    using ser_ver_write_read [OF assms(1)] len assms(3) by (simp add: deSerializeBulk_def mult.commute [of k])
qed

lemma version_order: "version \<le> (v :: u8) \<longleftrightarrow> uint version \<le> uint v" "version < v \<longleftrightarrow> uint version < uint v"
  by (simp_all add: word_le_def word_less_def)

lemma MapNode_reads_back:
  assumes "MapNode_serialize version n = Inr bs"
  shows "MapNode_deSerialize (bs @ r) version n0 = Inr n" and "serializedLength version = Inr (length bs)"
proof -
  have w: "ser_ver_supported_write (uint version)" and bs: "bs = writeU16 (param0 n) @ [param1 n, param2 n]"
    using assms by (auto simp: MapNode_serialize_def split: if_splits)
  have v: "24 \<le> uint version" "ser_ver_supported_read (uint version)"
    using ser_ver_write_read [OF w] by blast+
  then have "\<not> version \<le> 21" "version \<ge> 24" "\<not> version \<le> 9" "\<not> version \<le> 23" "version \<noteq> 0"
    by (auto simp: version_order)
  then show "MapNode_deSerialize (bs @ r) version n0 = Inr n" and "serializedLength version = Inr (length bs)"
    using v(2) by (simp_all add: MapNode_deSerialize_def serializedLength_def bs fetch_def)
qed

lemma bulk_roundtrip:
  assumes "ser_ver_supported_write version" and "length ns < 2 ^ 30"
  shows "\<exists>bs. serializeBulk version ns (length ns) 2 2 False = Inr bs \<and>
    deSerializeBulk (stream_write bs @ r) version (length ns) 2 2 = Inr (ns, r)"
  using serializeBulk_bytes(1) [OF assms] deSerializeBulk_reads [OF assms(1) _ assms(2)] by simp

lemma mono_bulk_roundtrip:
  assumes "ser_ver_supported_write version" and "k < 2 ^ 30"
  shows "\<exists>bs. serializeBulk version [n] k 2 2 True = Inr bs \<and>
    deSerializeBulk (stream_write bs @ r) version k 2 2 = Inr (replicate k n, r)"
  using serializeBulk_bytes(2) [OF assms] deSerializeBulk_reads [OF assms(1) length_replicate assms(2)] by simp

lemma MapNode_roundtrip:
  assumes "ser_ver_supported_write (uint version)"
  shows "\<exists>bs. MapNode_serialize version n = Inr bs \<and> MapNode_deSerialize (bs @ rest) version n0 = Inr n \<and>
    serializedLength version = Inr (length bs)"
proof -
  have "\<not> version < 24"
    using ser_ver_write_read [OF assms] by (simp add: version_order)
  then obtain bs where bs: "MapNode_serialize version n = Inr bs"
    using assms by (simp add: MapNode_serialize_def)
  then show ?thesis
    using MapNode_reads_back [OF bs] by blast
qed

text \<open>
  C34: the stored form of nodes. The nodes of a block, any number of them up to the limit of 32-bit
  sizes, are read back one by one as they were, with exactly their bytes taken from the stream; a
  block of one kind of node, whose single node stands for all, is read as that many nodes. A node
  written alone is read back over whatever was in its place and has the length announced for it.
\<close>

theorem stored_nodes_roundtrip:
  assumes "ser_ver_supported_write (uint version)" and "length ns < 2 ^ 30"
  shows "(\<exists>bs. serializeBulk (uint version) ns (length ns) 2 2 False = Inr bs \<and>
      deSerializeBulk (stream_write bs @ r) (uint version) (length ns) 2 2 = Inr (ns, r)) \<and>
    (\<exists>bs. serializeBulk (uint version) [n] (length ns) 2 2 True = Inr bs \<and>
      deSerializeBulk (stream_write bs @ r) (uint version) (length ns) 2 2 = Inr (replicate (length ns) n, r)) \<and>
    (\<exists>bs. MapNode_serialize version n = Inr bs \<and> MapNode_deSerialize (bs @ rest) version n0 = Inr n \<and>
      serializedLength version = Inr (length bs))"
  by (intro conjI bulk_roundtrip mono_bulk_roundtrip MapNode_roundtrip assms)

definition two_nodes :: "map_node list" where
  "two_nodes = [\<lparr>param0 = 5, param1 = 1, param2 = 2\<rparr>, \<lparr>param0 = 6, param1 = 3, param2 = 4\<rparr>]"

theorem stored_nodes_roundtrip_witness:
  "(\<exists>bs. serializeBulk (uint (29 :: u8)) two_nodes (length two_nodes) 2 2 False = Inr bs \<and>
      deSerializeBulk (stream_write bs @ ''x'') (uint (29 :: u8)) (length two_nodes) 2 2 = Inr (two_nodes, ''x'')) \<and>
    (\<exists>bs. serializeBulk (uint (29 :: u8)) [node_new 7] (length two_nodes) 2 2 True = Inr bs \<and>
      deSerializeBulk (stream_write bs @ ''x'') (uint (29 :: u8)) (length two_nodes) 2 2 =
        Inr (replicate (length two_nodes) (node_new 7), ''x'')) \<and>
    (\<exists>bs. MapNode_serialize 29 (node_new 7) = Inr bs \<and>
      MapNode_deSerialize (bs @ [1]) 29 (node_new 8) = Inr (node_new 7) \<and> serializedLength 29 = Inr (length bs))"
  by (rule stored_nodes_roundtrip) (simp_all add: two_nodes_def ser_ver_supported_write_def
      SER_FMT_VER_HIGHEST_WRITE_def SER_FMT_VER_LOWEST_WRITE_def)

end
