(* ===== verification/NodeMeta.thy ===== *)
theory NodeMeta
  imports Inventory
begin

section \<open>Metadata of nodes\<close>

text \<open>
  \<^verbatim>\<open>NodeMetadata\<close> and \<^verbatim>\<open>NodeMetadataList\<close> of \<^verbatim>\<open>src/nodemetadata.h\<close> and \<^verbatim>\<open>nodemetadata.cpp\<close>: the strings
  and the inventory of a chest, a sign or a furnace, some of the strings private to the server, and
  the list of them that a map block has. The pointer to the inventory is set by the only constructor.
  The list is a \<^verbatim>\<open>std::map\<close> by position, here an association list sorted by the order of positions.
\<close>

unbundle bit_operations_syntax

subsection \<open>The metadata of one node\<close>

record node_meta =
  nm_meta :: metadata
  nm_inventory :: inventory
  nm_private :: "string list"

definition nm_new :: node_meta where
  "nm_new = \<lparr>nm_meta = new_metadata, nm_inventory = inv_new, nm_private = []\<rparr>"

definition isPrivate :: "string \<Rightarrow> node_meta \<Rightarrow> bool" where
  "isPrivate name m \<longleftrightarrow> name \<in> set (nm_private m)"

definition markPrivate :: "string \<Rightarrow> bool \<Rightarrow> node_meta \<Rightarrow> bool \<times> node_meta" where
  "markPrivate name set_it m =
     (if set_it
      then (if name \<in> set (nm_private m) then (False, m) else (True, m\<lparr>nm_private := nm_private m @ [name]\<rparr>))
      else (name \<in> set (nm_private m), m\<lparr>nm_private := removeAll name (nm_private m)\<rparr>))"

definition countNonPrivate :: "node_meta \<Rightarrow> nat" where
  "countNonPrivate m = length (filter (\<lambda>sv. \<not> isPrivate (fst sv) m) (stringvars (nm_meta m)))"

text \<open>Clearing the inventory may throw, when one of its lists is locked; the strings are gone by then.\<close>

definition nm_clear :: "node_meta \<Rightarrow> unit res \<times> node_meta" where
  "nm_clear m =
     (let m1 = m\<lparr>nm_meta := SimpleMetadata_clear (nm_meta m), nm_private := []\<rparr>
      in case inv_clear (nm_inventory m1) of
           Inl e \<Rightarrow> (Inl e, m1)
         | Inr iv \<Rightarrow> (Inr (), m1\<lparr>nm_inventory := iv\<rparr>))"

definition nm_empty :: "node_meta \<Rightarrow> bool" where
  "nm_empty m \<longleftrightarrow> SimpleMetadata_empty (nm_meta m) \<and> inv_lists (nm_inventory m) = []"

fun nm_write_vars :: "node_meta \<Rightarrow> u8 \<Rightarrow> bool \<Rightarrow> stringmap \<Rightarrow> string res" where
  "nm_write_vars m version disk [] = Inr []"
| "nm_write_vars m version disk ((name, var) # svs) =
     (if \<not> disk \<and> isPrivate name m then nm_write_vars m version disk svs
      else rbind (serializeString16 name) (\<lambda>n.
           rbind (serializeString32 var) (\<lambda>v.
           rbind (nm_write_vars m version disk svs) (\<lambda>rest.
             Inr (n @ v @ (if version \<ge> 2 then stream_write [if isPrivate name m then 1 else 0] else []) @ rest)))))"

definition nm_serialize :: "u8 \<Rightarrow> bool \<Rightarrow> node_meta \<Rightarrow> string res" where
  "nm_serialize version disk m =
     (let num_vars = (if disk then length (stringvars (nm_meta m)) else countNonPrivate m)
      in rbind (nm_write_vars m version disk (stringvars (nm_meta m))) (\<lambda>vars.
           Inr (stream_write (writeU32 (of_nat num_vars)) @ vars @ inv_serialize False (nm_inventory m))))"

text \<open>The readers of binary values on a stream that may already have failed.\<close>

definition on_stream :: "(string \<Rightarrow> ('a \<times> string) res) \<Rightarrow> istream \<Rightarrow> ('a \<times> istream) res" where
  "on_stream rd is =
     (if \<not> good is then Inl SerializationError
      else rbind (rd (buf is)) (\<lambda>(x, rest). Inr (x, is\<lparr>buf := rest\<rparr>)))"

fun nm_read_vars :: "u8 \<Rightarrow> nat \<Rightarrow> istream \<Rightarrow> node_meta \<Rightarrow> (node_meta \<times> istream) res" where
  "nm_read_vars version 0 is m = Inr (m, is)"
| "nm_read_vars version (Suc n) is m =
     rbind (on_stream deSerializeString16 is) (\<lambda>(name, is1).
     rbind (on_stream deSerializeString32 is1) (\<lambda>(var, is2).
       let m1 = m\<lparr>nm_meta := (nm_meta m)\<lparr>stringvars := AList.update name var (stringvars (nm_meta m))\<rparr>\<rparr>
       in if version \<ge> 2 then
            rbind (on_stream readU8s is2) (\<lambda>(p, is3).
              nm_read_vars version n is3
                (if p = 1 then m1\<lparr>nm_private := List.insert name (nm_private m1)\<rparr> else m1))
          else nm_read_vars version n is2 m1))"

definition nm_deSerialize :: "IItemDefManager option \<Rightarrow> istream \<Rightarrow> u8 \<Rightarrow> node_meta \<Rightarrow> (node_meta \<times> istream) res" where
  "nm_deSerialize idef is version m =
     (case nm_clear m of
        (Inl e, _) \<Rightarrow> Inl e
      | (Inr _, m1) \<Rightarrow>
          rbind (on_stream readU32s is) (\<lambda>(num_vars, is1).
          rbind (nm_read_vars version (unat num_vars) is1 m1) (\<lambda>(m2, is2).
          rbind (inv_deSerialize idef is2 (nm_inventory m2)) (\<lambda>(iv, is3).
            Inr (m2\<lparr>nm_inventory := iv\<rparr>, is3)))))"

subsection \<open>The list of a block\<close>

definition v3_less :: "v3 \<Rightarrow> v3 \<Rightarrow> bool" where
  "v3_less p q \<longleftrightarrow> vX p < vX q \<or> (vX p = vX q \<and> vY p < vY q) \<or>
     (vX p = vX q \<and> vY p = vY q \<and> vZ p < vZ q)"

fun pos_insert :: "v3 \<Rightarrow> 'a \<Rightarrow> (v3 \<times> 'a) list \<Rightarrow> (v3 \<times> 'a) list" where
  "pos_insert p x [] = [(p, x)]"
| "pos_insert p x ((q, y) # rest) =
     (if p = q then (p, x) # rest
      else if v3_less p q then (p, x) # (q, y) # rest else (q, y) # pos_insert p x rest)"

record meta_list =
  ml_owner :: bool
  ml_data :: "(v3 \<times> node_meta) list"

definition ml_getAllKeys :: "meta_list \<Rightarrow> v3 list" where
  "ml_getAllKeys l = map fst (ml_data l)"

definition ml_get :: "v3 \<Rightarrow> meta_list \<Rightarrow> node_meta option" where
  "ml_get p l = map_of (ml_data l) p"

definition ml_remove :: "v3 \<Rightarrow> meta_list \<Rightarrow> unit res \<times> meta_list" where
  "ml_remove p l =
     (case ml_get p l of
        None \<Rightarrow> (Inr (), l)
      | Some olddata \<Rightarrow>
          (let l1 = l\<lparr>ml_data := AList.delete p (ml_data l)\<rparr>
           in if ml_owner l then (fst (nm_clear olddata), l1) else (Inr (), l1)))"

text \<open>\<open>emplace\<close> does nothing when the key is there; after \<open>remove\<close> it is not.\<close>

definition ml_set :: "v3 \<Rightarrow> node_meta \<Rightarrow> meta_list \<Rightarrow> unit res \<times> meta_list" where
  "ml_set p d l =
     (case ml_remove p l of
        (Inl e, l1) \<Rightarrow> (Inl e, l1)
      | (Inr _, l1) \<Rightarrow>
          (Inr (), if ml_get p l1 = None then l1\<lparr>ml_data := pos_insert p d (ml_data l1)\<rparr> else l1))"

text \<open>
  Deleting a metadata destroys its inventory, whose destructor clears the lists: a list that is locked
  makes it throw where the program is terminated.
\<close>

definition ml_clear :: "meta_list \<Rightarrow> meta_list res" where
  "ml_clear l =
     (if ml_owner l \<and> list_ex (\<lambda>(p, d). \<not> is_ok (inv_clear (nm_inventory d))) (ml_data l) then Inl AssertFailed
      else Inr (l\<lparr>ml_data := []\<rparr>))"

definition countNonEmpty :: "meta_list \<Rightarrow> nat" where
  "countNonEmpty l = length (filter (\<lambda>(p, d). \<not> nm_empty d) (ml_data l))"

text \<open>
  A position inside a block is one number of 16 bits. An absolute position is three numbers of 16 bits
  each: \<^verbatim>\<open>writePOS\<close> and \<^verbatim>\<open>readPOS\<close> use 32 bits only when they are given a protocol version, and they
  are not.
\<close>

definition MAP_BLOCKSIZE :: int where "MAP_BLOCKSIZE = 16"

definition writePOS :: "int \<Rightarrow> string" where "writePOS i = stream_write (writeS16 i)"
definition readPOS :: "string \<Rightarrow> (int \<times> string) res" where "readPOS = stream_read 2 readS16"

definition write_meta_pos :: "bool \<Rightarrow> v3 \<Rightarrow> string" where
  "write_meta_pos absolute_pos p =
     (if absolute_pos then writePOS (vX p) @ writePOS (vY p) @ writePOS (vZ p)
      else stream_write (writeU16 (word_of_int ((vZ p * MAP_BLOCKSIZE + vY p) * MAP_BLOCKSIZE + vX p))))"

definition read_meta_pos :: "bool \<Rightarrow> string \<Rightarrow> (v3 \<times> string) res" where
  "read_meta_pos absolute_pos s =
     (if absolute_pos then
        rbind (readPOS s) (\<lambda>(x, s1). rbind (readPOS s1) (\<lambda>(y, s2). rbind (readPOS s2) (\<lambda>(z, s3).
          Inr (mk_v3 x y z, s3))))
      else
        rbind (readU16s s) (\<lambda>(p16, s1).
          let x = p16 AND 15; p1 = p16 div 16; y = p1 AND 15; p2 = p1 div 16
          in Inr (mk_v3 (uint x) (uint y) (uint p2), s1)))"

fun ml_write :: "u8 \<Rightarrow> bool \<Rightarrow> bool \<Rightarrow> bool \<Rightarrow> (v3 \<times> node_meta) list \<Rightarrow> string res" where
  "ml_write version disk absolute_pos include_empty [] = Inr []"
| "ml_write version disk absolute_pos include_empty ((p, data) # rest) =
     (if \<not> include_empty \<and> nm_empty data then ml_write version disk absolute_pos include_empty rest
      else rbind (nm_serialize version disk data) (\<lambda>d.
           rbind (ml_write version disk absolute_pos include_empty rest) (\<lambda>r.
             Inr (write_meta_pos absolute_pos p @ d @ r))))"

definition ml_serialize :: "u8 \<Rightarrow> bool \<Rightarrow> bool \<Rightarrow> bool \<Rightarrow> meta_list \<Rightarrow> string res" where
  "ml_serialize blockver disk absolute_pos include_empty l =
     (let count = of_nat (if include_empty then length (ml_data l) else countNonEmpty l) :: u16;
          version = (if blockver > 27 then 2 else 1)
      in if count = 0 then Inr (stream_write [0])
         else rbind (ml_write version disk absolute_pos include_empty (ml_data l)) (\<lambda>r.
                Inr (stream_write [version] @ stream_write (writeU16 count) @ r)))"

text \<open>A position that is already there is ignored, but the metadata that follows it stays in the stream.\<close>

fun ml_read :: "IItemDefManager option \<Rightarrow> bool \<Rightarrow> u8 \<Rightarrow> nat \<Rightarrow> istream \<Rightarrow> meta_list \<Rightarrow> (meta_list \<times> istream) res" where
  "ml_read idef absolute_pos version 0 is l = Inr (l, is)"
| "ml_read idef absolute_pos version (Suc n) is l =
     rbind (on_stream (read_meta_pos absolute_pos) is) (\<lambda>(p, is1).
       if ml_get p l \<noteq> None then ml_read idef absolute_pos version n is1 l
       else rbind (nm_deSerialize idef is1 version nm_new) (\<lambda>(d, is2).
              ml_read idef absolute_pos version n is2 (l\<lparr>ml_data := pos_insert p d (ml_data l)\<rparr>)))"

definition ml_deSerialize :: "IItemDefManager option \<Rightarrow> bool \<Rightarrow> istream \<Rightarrow> meta_list \<Rightarrow> (meta_list \<times> istream) res" where
  "ml_deSerialize idef absolute_pos is l =
     rbind (ml_clear l) (\<lambda>l1.
     rbind (on_stream readU8s is) (\<lambda>(version, is1).
       if version = 0 then Inr (l1, is1)
       else if version > 2 then Inl SerializationError
       else rbind (on_stream readU16s is1) (\<lambda>(count, is2).
              ml_read idef absolute_pos version (unat count) is2 l1)))"

subsection \<open>Reading back the metadata of a node\<close>

lemma on_stream_ok:
  "rd s = Inr (x, r) \<Longrightarrow> on_stream rd \<lparr>buf = s, good = True\<rparr> = Inr (x, \<lparr>buf = r, good = True\<rparr>)"
  by (simp add: on_stream_def)

text \<open>What is written of the strings, and the bytes of one.\<close>

definition sent_vars :: "bool \<Rightarrow> node_meta \<Rightarrow> stringmap" where
  "sent_vars disk m = filter (\<lambda>sv. disk \<or> \<not> isPrivate (fst sv) m) (stringvars (nm_meta m))"

definition var_bytes :: "node_meta \<Rightarrow> u8 \<Rightarrow> string \<times> string \<Rightarrow> string" where
  "var_bytes m version sv = stream_write (writeU16 (of_nat (length (fst sv)))) @ fst sv @
     stream_write (writeU32 (of_nat (length (snd sv)))) @ snd sv @
     (if version \<ge> 2 then stream_write [if isPrivate (fst sv) m then 1 else 0] else [])"

definition var_fits :: "string \<times> string \<Rightarrow> bool" where
  "var_fits sv \<longleftrightarrow> length (fst sv) \<le> STRING_MAX_LEN \<and> length (snd sv) \<le> LONG_STRING_MAX_LEN"

lemma nm_write_vars_bytes:
  "nm_write_vars m version disk svs = Inr t \<Longrightarrow>
    t = concat (map (var_bytes m version) (filter (\<lambda>sv. disk \<or> \<not> isPrivate (fst sv) m) svs)) \<and>
    list_all var_fits (filter (\<lambda>sv. disk \<or> \<not> isPrivate (fst sv) m) svs)"
proof (induction svs arbitrary: t)
  case (Cons sv svs)
  obtain name var where sv: "sv = (name, var)" by (cases sv)
  show ?case
  proof (cases "\<not> disk \<and> isPrivate name m")
    case True
    with Cons show ?thesis by (simp add: sv)
  next
    case False
    with Cons.prems obtain u where u: "nm_write_vars m version disk svs = Inr u"
      and t: "t = var_bytes m version sv @ u" and fits: "var_fits sv"
      by (auto simp: sv var_bytes_def var_fits_def serializeString16_ok serializeString32_ok)
    have "filter (\<lambda>sv. disk \<or> \<not> isPrivate (fst sv) m) (sv # svs) =
        sv # filter (\<lambda>sv. disk \<or> \<not> isPrivate (fst sv) m) svs"
      using False by (simp add: sv)
    then show ?thesis
      using Cons.IH [OF u] t fits by simp
  qed
qed simp

lemma nm_read_vars_bytes:
  assumes "list_all var_fits vs" and "distinct (map fst (stringvars (nm_meta m0)) @ map fst vs)"
  shows "\<exists>m1. nm_read_vars version (length vs) \<lparr>buf = concat (map (var_bytes m version) vs) @ r, good = True\<rparr> m0 =
      Inr (m1, \<lparr>buf = r, good = True\<rparr>) \<and>
    stringvars (nm_meta m1) = stringvars (nm_meta m0) @ vs \<and> nm_inventory m1 = nm_inventory m0 \<and>
    set (nm_private m1) = set (nm_private m0) \<union>
      (if version \<ge> 2 then {n \<in> fst ` set vs. isPrivate n m} else {})"
  using assms
proof (induction vs arbitrary: m0)
  case (Cons sv vs)
  obtain name var where sv: "sv = (name, var)" by (cases sv)
  let ?rest = "concat (map (var_bytes m version) vs) @ r"
  let ?flag = "if version \<ge> 2 then stream_write [if isPrivate name m then 1 else 0] else []"
  have fits: "length name \<le> STRING_MAX_LEN" "length var \<le> LONG_STRING_MAX_LEN"
    using Cons.prems(1) by (simp_all add: sv var_fits_def)
  have r1: "on_stream deSerializeString16 \<lparr>buf = var_bytes m version sv @ ?rest, good = True\<rparr> =
      Inr (name, \<lparr>buf = stream_write (writeU32 (of_nat (length var))) @ var @ ?flag @ ?rest, good = True\<rparr>)"
    using deSerializeString16_append [OF fits(1)] by (intro on_stream_ok) (simp add: var_bytes_def sv)
  have r2: "on_stream deSerializeString32
      \<lparr>buf = stream_write (writeU32 (of_nat (length var))) @ var @ ?flag @ ?rest, good = True\<rparr> =
      Inr (var, \<lparr>buf = ?flag @ ?rest, good = True\<rparr>)"
    using deSerializeString32_append [OF fits(2)] by (intro on_stream_ok) simp
  have r3: "on_stream readU8s \<lparr>buf = stream_write [b] @ ?rest, good = True\<rparr> = Inr (b, \<lparr>buf = ?rest, good = True\<rparr>)" for b
    by (intro on_stream_ok) (simp add: u8_codec.dec_enc)
  have new: "AList.update name var (stringvars (nm_meta m0)) = stringvars (nm_meta m0) @ [(name, var)]"
    using Cons.prems(2) by (intro AList_update_new) (simp add: sv)
  let ?m = "m0\<lparr>nm_meta := (nm_meta m0)\<lparr>stringvars := stringvars (nm_meta m0) @ [(name, var)]\<rparr>\<rparr>"
  let ?m1 = "if version \<ge> 2 \<and> isPrivate name m then ?m\<lparr>nm_private := List.insert name (nm_private m0)\<rparr> else ?m"
  have step: "nm_read_vars version (length (sv # vs))
      \<lparr>buf = concat (map (var_bytes m version) (sv # vs)) @ r, good = True\<rparr> m0 =
      nm_read_vars version (length vs) \<lparr>buf = ?rest, good = True\<rparr> ?m1"
    using r1 r2 r3 by (simp add: new Let_def)
  have vars: "stringvars (nm_meta ?m1) = stringvars (nm_meta m0) @ [sv]" by (simp add: sv)
  have "distinct (map fst (stringvars (nm_meta ?m1)) @ map fst vs)"
    using Cons.prems(2) unfolding vars by simp
  then obtain m1 where "nm_read_vars version (length vs) \<lparr>buf = ?rest, good = True\<rparr> ?m1 =
      Inr (m1, \<lparr>buf = r, good = True\<rparr>)"
    "stringvars (nm_meta m1) = stringvars (nm_meta ?m1) @ vs" "nm_inventory m1 = nm_inventory ?m1"
    "set (nm_private m1) = set (nm_private ?m1) \<union>
      (if version \<ge> 2 then {n \<in> fst ` set vs. isPrivate n m} else {})"
    using Cons.IH [of ?m1] Cons.prems(1) by auto
  then show ?case
    unfolding step vars by (auto simp: sv)
qed simp

text \<open>
  What another program reads: the strings that were sent, which of them are private where the format
  says so, and the inventory.
\<close>

definition meta_reads_as :: "u8 \<Rightarrow> bool \<Rightarrow> node_meta \<Rightarrow> node_meta \<Rightarrow> bool" where
  "meta_reads_as version disk m m' \<longleftrightarrow>
     stringvars (nm_meta m') = sent_vars disk m \<and>
     (\<forall>n. isPrivate n m' \<longleftrightarrow> version \<ge> 2 \<and> isPrivate n m \<and> n \<in> fst ` set (sent_vars disk m)) \<and>
     list_all2 list_reads_as (inv_lists (nm_inventory m)) (inv_lists (nm_inventory m'))"

definition nm_ok :: "IItemDefManager option \<Rightarrow> node_meta \<Rightarrow> bool" where
  "nm_ok idef m \<longleftrightarrow> distinct (map fst (stringvars (nm_meta m))) \<and> length (stringvars (nm_meta m)) < 2 ^ 32 \<and>
     list_all (list_ok idef) (inv_lists (nm_inventory m)) \<and> inv_wf (nm_inventory m)"

lemma count_sent: "(if disk then length (stringvars (nm_meta m)) else countNonPrivate m) = length (sent_vars disk m)"
  by (simp add: sent_vars_def countNonPrivate_def)

lemma nm_new_cleared:
  obtains m1 where "nm_clear nm_new = (Inr (), m1)" and "stringvars (nm_meta m1) = []" and "nm_private m1 = []"
    and "nm_inventory m1 = inv_new"
  by (simp add: nm_clear_def nm_new_def inv_clear_def inv_new_def SimpleMetadata_clear_def)

lemma nm_reads_back:
  assumes ok: "nm_ok idef m" and s: "nm_serialize version disk m = Inr bytes"
  shows "\<exists>m'. nm_deSerialize idef \<lparr>buf = bytes @ r, good = True\<rparr> version nm_new = Inr (m', \<lparr>buf = r, good = True\<rparr>) \<and>
    meta_reads_as version disk m m'"
proof -
  let ?vs = "sent_vars disk m"
  obtain vars where w: "nm_write_vars m version disk (stringvars (nm_meta m)) = Inr vars"
    and bytes: "bytes = stream_write (writeU32 (of_nat (length ?vs))) @ vars @ inv_serialize False (nm_inventory m)"
    using s unfolding nm_serialize_def count_sent by (auto simp: Let_def)
  have vars: "vars = concat (map (var_bytes m version) ?vs)" and fits: "list_all var_fits ?vs"
    using nm_write_vars_bytes [OF w] by (simp_all add: sent_vars_def)
  obtain m1 where m1: "nm_clear nm_new = (Inr (), m1)" "stringvars (nm_meta m1) = []" "nm_private m1 = []"
    "nm_inventory m1 = inv_new"
    by (rule nm_new_cleared)
  have d: "distinct (map fst ?vs)" "length ?vs < 2 ^ 32"
    using ok unfolding nm_ok_def sent_vars_def
    by (simp add: distinct_map_filter, meson le_less_trans length_filter_le)
  have n: "unat (of_nat (length ?vs) :: u32) = length ?vs"
    using d(2) by (simp add: unat_of_nat_u32)
  have r1: "on_stream readU32s \<lparr>buf = bytes @ r, good = True\<rparr> =
      Inr (of_nat (length ?vs), \<lparr>buf = vars @ inv_serialize False (nm_inventory m) @ r, good = True\<rparr>)"
    by (intro on_stream_ok) (simp add: bytes u32_codec.dec_enc)
  have dd: "distinct (map fst (stringvars (nm_meta m1)) @ map fst ?vs)"
    using d(1) m1(2) by simp
  obtain m2 where m2: "nm_read_vars version (length ?vs)
      \<lparr>buf = vars @ inv_serialize False (nm_inventory m) @ r, good = True\<rparr> m1 =
      Inr (m2, \<lparr>buf = inv_serialize False (nm_inventory m) @ r, good = True\<rparr>)"
    "stringvars (nm_meta m2) = ?vs" "nm_inventory m2 = inv_new"
    "set (nm_private m2) = (if version \<ge> 2 then {n \<in> fst ` set ?vs. isPrivate n m} else {})"
    using nm_read_vars_bytes [OF fits dd, of version m "inv_serialize False (nm_inventory m) @ r"] m1
    unfolding vars by auto
  obtain iv where iv: "inv_deSerialize idef \<lparr>buf = inv_serialize False (nm_inventory m) @ r, good = True\<rparr> inv_new =
      Inr (iv, \<lparr>buf = r, good = True\<rparr>)" "list_all2 list_reads_as (inv_lists (nm_inventory m)) (inv_lists iv)"
    using inv_reads_back [of idef "nm_inventory m" r] ok by (auto simp: nm_ok_def)
  have "nm_deSerialize idef \<lparr>buf = bytes @ r, good = True\<rparr> version nm_new =
      Inr (m2\<lparr>nm_inventory := iv\<rparr>, \<lparr>buf = r, good = True\<rparr>)"
    by (simp add: nm_deSerialize_def m1(1) r1 n m2 iv)
  then show ?thesis
    using m2 iv(2) by (auto simp: meta_reads_as_def isPrivate_def)
qed

subsection \<open>Reading back the list\<close>

definition in_block :: "v3 \<Rightarrow> bool" where
  "in_block p \<longleftrightarrow> v3_in 0 15 p"

lemma and_15: "uint (w AND 15 :: u16) = uint w mod 16"
proof -
  have "(15 :: u16) = mask 4" by (simp add: mask_eq_exp_minus_1)
  then have "w AND 15 = take_bit 4 w" by (simp only: take_bit_eq_mask)
  then show ?thesis by (simp add: take_bit_eq_mod uint_mod)
qed

lemma uint_div_16: "uint ((w :: u16) div 16) = uint w div 16"
  by (simp add: uint_div)

lemma uint_of_u16: "0 \<le> k \<Longrightarrow> k < 65536 \<Longrightarrow> uint (word_of_int k :: u16) = k"
  by (simp add: unsigned_of_int take_bit_int_eq_self)

lemma low_digit: "0 \<le> x \<Longrightarrow> x < 16 \<Longrightarrow> (a * 16 + x) mod 16 = x \<and> (a * 16 + x) div 16 = (a :: int)"
  by simp

lemma block_pos_roundtrip:
  assumes "in_block p"
  shows "read_meta_pos False (write_meta_pos False p @ r) = Inr (p, r)"
proof -
  obtain k where k: "k = (vZ p * 16 + vY p) * 16 + vX p" by blast
  have b: "0 \<le> vX p" "vX p < 16" "0 \<le> vY p" "vY p < 16" "0 \<le> vZ p" "vZ p < 16"
    using assms by (simp_all add: in_block_def v3_in_def)
  have "0 \<le> k" using b by (simp add: k)
  moreover have "k \<le> (15 * 16 + 15) * 16 + 15"
    unfolding k using b by (intro add_mono mult_right_mono) simp_all
  ultimately have u: "uint (word_of_int k :: u16) = k" by (intro uint_of_u16) simp_all
  have "k mod 16 = vX p" "k div 16 = vZ p * 16 + vY p"
    unfolding k using low_digit [OF b(1,2)] by blast+
  moreover have "(vZ p * 16 + vY p) mod 16 = vY p" "(vZ p * 16 + vY p) div 16 = vZ p"
    using low_digit [OF b(3,4)] by blast+
  moreover have "write_meta_pos False p = stream_write (writeU16 (word_of_int k))"
    by (simp only: write_meta_pos_def MAP_BLOCKSIZE_def k if_False)
  ultimately show ?thesis
    by (simp add: read_meta_pos_def u16_codec.dec_enc Let_def and_15 uint_div_16 u)
qed

lemma readPOS_writePOS: "- 32768 \<le> i \<Longrightarrow> i \<le> 32767 \<Longrightarrow> readPOS (writePOS i @ r) = Inr (i, r)"
  using readS16_writeS16 [of i "[]"] by (simp add: readPOS_def writePOS_def stream_read_write)

lemma absolute_pos_roundtrip:
  "v3_in (- 32768) 32767 p \<Longrightarrow> read_meta_pos True (write_meta_pos True p @ r) = Inr (p, r)"
  by (simp add: read_meta_pos_def write_meta_pos_def v3_in_def readPOS_writePOS)

text \<open>Absolute positions further out come back 65536 nodes away.\<close>

lemma absolute_pos_wraps:
  "read_meta_pos True (write_meta_pos True (mk_v3 40000 0 0)) = Inr (mk_v3 (- 25536) 0 0, [])"
proof -
  have "readPOS (writePOS 40000 @ r) = Inr (- 25536, r)" for r
    unfolding readPOS_def writePOS_def by (rule stream_read_write) (simp_all add: readS16_def writeS16_def)
  moreover have "readPOS (writePOS 0 @ r) = Inr (0, r)" for r
    by (rule readPOS_writePOS) simp_all
  moreover note this [of "[]"]
  ultimately show ?thesis
    by (simp add: read_meta_pos_def write_meta_pos_def)
qed

definition pos_ok :: "bool \<Rightarrow> v3 \<Rightarrow> bool" where
  "pos_ok absolute_pos p \<longleftrightarrow> (if absolute_pos then v3_in (- 32768) 32767 p else in_block p)"

lemma meta_pos_roundtrip: "pos_ok a p \<Longrightarrow> read_meta_pos a (write_meta_pos a p @ r) = Inr (p, r)"
  using block_pos_roundtrip absolute_pos_roundtrip by (cases a) (simp_all add: pos_ok_def)

lemma pos_insert_last:
  "\<forall>q \<in> fst ` set xs. v3_less q p \<Longrightarrow> pos_insert p x xs = xs @ [(p, x)]"
  by (induction xs) (auto simp: v3_less_def)

definition sent_metas :: "bool \<Rightarrow> meta_list \<Rightarrow> (v3 \<times> node_meta) list" where
  "sent_metas include_empty l = filter (\<lambda>(p, d). include_empty \<or> \<not> nm_empty d) (ml_data l)"

lemma ml_write_reads_back:
  assumes "ml_write version disk a ie ds = Inr s"
    and "list_all (\<lambda>(p, d). pos_ok a p \<and> nm_ok idef d) ds"
    and "sorted_wrt v3_less (map fst (ml_data l) @ map fst ds)"
  shows "\<exists>l'. ml_read idef a version (length (filter (\<lambda>(p, d). ie \<or> \<not> nm_empty d) ds))
      \<lparr>buf = s @ r, good = True\<rparr> l = Inr (l', \<lparr>buf = r, good = True\<rparr>) \<and> ml_owner l' = ml_owner l \<and>
    (\<exists>ds'. ml_data l' = ml_data l @ ds' \<and>
      list_all2 (\<lambda>e e'. fst e' = fst e \<and> meta_reads_as version disk (snd e) (snd e'))
        (filter (\<lambda>(p, d). ie \<or> \<not> nm_empty d) ds) ds')"
  using assms
proof (induction ds arbitrary: s l)
  case (Cons e ds)
  obtain p d where e: "e = (p, d)" by (cases e)
  show ?case
  proof (cases "\<not> ie \<and> nm_empty d")
    case True
    with Cons.prems have w: "ml_write version disk a ie ds = Inr s" by (simp add: e)
    have "sorted_wrt v3_less (map fst (ml_data l) @ map fst ds)"
      using Cons.prems(3) by (simp add: sorted_wrt_append)
    with Cons.IH [OF w _ this] Cons.prems(2) True show ?thesis by (simp add: e)
  next
    case False
    with Cons.prems(1) obtain b t where b: "nm_serialize version disk d = Inr b"
      and t: "ml_write version disk a ie ds = Inr t" and s: "s = write_meta_pos a p @ b @ t"
      by (auto simp: e)
    have ok: "pos_ok a p" "nm_ok idef d" "list_all (\<lambda>(p, d). pos_ok a p \<and> nm_ok idef d) ds"
      using Cons.prems(2) by (simp_all add: e)
    have less: "\<forall>q \<in> fst ` set (ml_data l). v3_less q p"
      using Cons.prems(3) by (auto simp: e sorted_wrt_append)
    then have "p \<notin> fst ` set (ml_data l)" by (auto simp: v3_less_def)
    then have fresh: "ml_get p l = None" by (simp add: ml_get_def map_of_eq_None_iff)
    obtain d' where d': "nm_deSerialize idef \<lparr>buf = b @ t @ r, good = True\<rparr> version nm_new =
        Inr (d', \<lparr>buf = t @ r, good = True\<rparr>)" "meta_reads_as version disk d d'"
      using nm_reads_back [OF ok(2) b, of "t @ r"] by blast
    let ?l = "l\<lparr>ml_data := ml_data l @ [(p, d')]\<rparr>"
    have pos: "on_stream (read_meta_pos a) \<lparr>buf = s @ r, good = True\<rparr> = Inr (p, \<lparr>buf = b @ t @ r, good = True\<rparr>)"
      using meta_pos_roundtrip [OF ok(1)] by (intro on_stream_ok) (simp add: s)
    have sel: "filter (\<lambda>(p, d). ie \<or> \<not> nm_empty d) (e # ds) = (p, d) # filter (\<lambda>(p, d). ie \<or> \<not> nm_empty d) ds"
      using False by (simp add: e)
    have step: "ml_read idef a version (length ((p, d) # filter (\<lambda>(p, d). ie \<or> \<not> nm_empty d) ds))
        \<lparr>buf = s @ r, good = True\<rparr> l =
        ml_read idef a version (length (filter (\<lambda>(p, d). ie \<or> \<not> nm_empty d) ds)) \<lparr>buf = t @ r, good = True\<rparr> ?l"
      by (simp add: pos fresh d'(1) pos_insert_last [OF less])
    have "sorted_wrt v3_less (map fst (ml_data ?l) @ map fst ds)"
      using Cons.prems(3) by (simp add: e)
    from Cons.IH [OF t ok(3) this] obtain l' ds' where
      "ml_read idef a version (length (filter (\<lambda>(p, d). ie \<or> \<not> nm_empty d) ds)) \<lparr>buf = t @ r, good = True\<rparr> ?l =
        Inr (l', \<lparr>buf = r, good = True\<rparr>)"
      "ml_owner l' = ml_owner l" "ml_data l' = ml_data l @ (p, d') # ds'"
      "list_all2 (\<lambda>e e'. fst e' = fst e \<and> meta_reads_as version disk (snd e) (snd e'))
        (filter (\<lambda>(p, d). ie \<or> \<not> nm_empty d) ds) ds'"
      by auto
    then show ?thesis
      unfolding sel step using d'(2) by (intro exI [of _ l'] conjI exI [of _ "(p, d') # ds'"]) (simp_all add: e)
  qed
qed simp

text \<open>A whole list comes back.\<close>

lemma metas_read_back:
  assumes "ml_serialize blockver disk absolute_pos include_empty l = Inr s"
    and "sorted_wrt v3_less (map fst (ml_data l))" and "length (ml_data l) < 65536"
    and "list_all (\<lambda>(p, d). pos_ok absolute_pos p \<and> nm_ok idef d) (ml_data l)"
    and "ml_clear l0 = Inr l1"
  shows "\<exists>l'. ml_deSerialize idef absolute_pos \<lparr>buf = s @ r, good = True\<rparr> l0 = Inr (l', \<lparr>buf = r, good = True\<rparr>) \<and>
    list_all2 (\<lambda>e e'. fst e' = fst e \<and> meta_reads_as (if blockver > 27 then 2 else 1) disk (snd e) (snd e'))
      (sent_metas include_empty l) (ml_data l')"
proof -
  let ?ds = "sent_metas include_empty l"
  let ?v = "if blockver > 27 then 2 else 1 :: u8"
  have l1: "ml_data l1 = []"
    using assms(5) by (auto simp: ml_clear_def split: if_splits)
  have count: "(if include_empty then length (ml_data l) else countNonEmpty l) = length ?ds"
    by (simp add: sent_metas_def countNonEmpty_def)
  have len: "length ?ds < 65536"
    using assms(3) unfolding sent_metas_def by (meson le_less_trans length_filter_le)
  then have n: "unat (of_nat (length ?ds) :: u16) = length ?ds"
    by (simp add: unat_of_nat_u16)
  show ?thesis
  proof (cases "?ds = []")
    case True
    then have s: "s = stream_write [0]"
      using assms(1) by (simp add: ml_serialize_def count)
    have "on_stream readU8s \<lparr>buf = s @ r, good = True\<rparr> = Inr (0, \<lparr>buf = r, good = True\<rparr>)"
      by (intro on_stream_ok) (simp add: s u8_codec.dec_enc)
    then show ?thesis
      using True l1 by (simp add: ml_deSerialize_def assms(5))
  next
    case False
    then have nz: "(of_nat (length ?ds) :: u16) \<noteq> 0"
      using n by (metis length_0_conv unat_0)
    then obtain t where t: "ml_write ?v disk absolute_pos include_empty (ml_data l) = Inr t"
      and s: "s = stream_write [?v] @ stream_write (writeU16 (of_nat (length ?ds))) @ t"
      using assms(1) by (auto simp: ml_serialize_def count Let_def)
    have r1: "on_stream readU8s \<lparr>buf = s @ r, good = True\<rparr> =
        Inr (?v, \<lparr>buf = stream_write (writeU16 (of_nat (length ?ds))) @ t @ r, good = True\<rparr>)"
      by (intro on_stream_ok) (simp add: s u8_codec.dec_enc)
    have r2: "on_stream readU16s \<lparr>buf = stream_write (writeU16 (of_nat (length ?ds))) @ t @ r, good = True\<rparr> =
        Inr (of_nat (length ?ds), \<lparr>buf = t @ r, good = True\<rparr>)"
      by (intro on_stream_ok) (simp add: u16_codec.dec_enc)
    have srt: "sorted_wrt v3_less (map fst (ml_data l1) @ map fst (ml_data l))"
      using assms(2) l1 by simp
    obtain l' ds' where l': "ml_read idef absolute_pos ?v (length ?ds) \<lparr>buf = t @ r, good = True\<rparr> l1 =
        Inr (l', \<lparr>buf = r, good = True\<rparr>)" "ml_data l' = ds'"
      "list_all2 (\<lambda>e e'. fst e' = fst e \<and> meta_reads_as ?v disk (snd e) (snd e')) ?ds ds'"
      using ml_write_reads_back [OF t assms(4) srt, of r] l1 unfolding sent_metas_def by auto
    have "ml_deSerialize idef absolute_pos \<lparr>buf = s @ r, good = True\<rparr> l0 = Inr (l', \<lparr>buf = r, good = True\<rparr>)"
      unfolding ml_deSerialize_def assms(5) rbind_simps r1 prod.case using r2 n l'(1) by simp
    with l' show ?thesis by blast
  qed
qed

text \<open>
  C33: a list of node metadata, at distinct positions of a block, or absolute ones that fit into 16 bits,
  is read back with the same positions and, at each, the inventory and exactly the strings that were
  sent: all of them on disk, without the private ones on the network, where no string is lost to a
  client that is not private. Which strings are private is kept from version 28 of the format on.
\<close>

theorem node_metadata_roundtrip:
  assumes "ml_serialize blockver disk absolute_pos include_empty l = Inr s"
    and "sorted_wrt v3_less (map fst (ml_data l))" and "length (ml_data l) < 65536"
    and "list_all (\<lambda>(p, d). pos_ok absolute_pos p \<and> nm_ok idef d) (ml_data l)"
    and "ml_clear l0 = Inr l1"
  shows "\<exists>l'. ml_deSerialize idef absolute_pos \<lparr>buf = s @ r, good = True\<rparr> l0 = Inr (l', \<lparr>buf = r, good = True\<rparr>) \<and>
    list_all2 (\<lambda>e e'. fst e' = fst e \<and> meta_reads_as (if blockver > 27 then 2 else 1) disk (snd e) (snd e'))
      (sent_metas include_empty l) (ml_data l')"
  by (rule metas_read_back [OF assms])

text \<open>A sign with an owner that only the server sees, sent to a client.\<close>

definition example_sign :: node_meta where
  "example_sign = \<lparr>nm_meta = new_metadata\<lparr>stringvars := [(''owner'', ''ann''), (''text'', ''hi'')]\<rparr>, nm_inventory = inv_new,
     nm_private = [''owner'']\<rparr>"

definition example_metas :: meta_list where
  "example_metas = \<lparr>ml_owner = True, ml_data = [(mk_v3 1 2 3, example_sign)]\<rparr>"

definition example_metas_bytes :: string where
  "example_metas_bytes = (case ml_serialize 28 False False False example_metas of Inr s \<Rightarrow> s | Inl _ \<Rightarrow> [])"

lemma example_metas_written: "ml_serialize 28 False False False example_metas = Inr example_metas_bytes"
proof -
  have "is_ok (ml_serialize 28 False False False example_metas)"
    by (simp add: ml_serialize_def example_metas_def example_sign_def new_metadata_def inv_new_def nm_empty_def
        SimpleMetadata_empty_def nm_serialize_def isPrivate_def serializeString16_def serializeString32_def
        countNonEmpty_def Let_def STRING_MAX_LEN_def LONG_STRING_MAX_LEN_def)
  then show ?thesis
    by (cases "ml_serialize 28 False False False example_metas") (simp_all add: example_metas_bytes_def)
qed

theorem node_metadata_roundtrip_witness:
  "\<exists>l'. ml_deSerialize None False \<lparr>buf = example_metas_bytes @ ''tail'', good = True\<rparr> \<lparr>ml_owner = True, ml_data = []\<rparr> =
      Inr (l', \<lparr>buf = ''tail'', good = True\<rparr>) \<and>
    list_all2 (\<lambda>e e'. fst e' = fst e \<and> meta_reads_as (if (28 :: u8) > 27 then 2 else 1) False (snd e) (snd e'))
      (sent_metas False example_metas) (ml_data l')"
proof (rule node_metadata_roundtrip [OF example_metas_written])
  show "sorted_wrt v3_less (map fst (ml_data example_metas))" by (simp add: example_metas_def)
  show "length (ml_data example_metas) < 65536" by (simp add: example_metas_def)
  show "list_all (\<lambda>(p, d). pos_ok False p \<and> nm_ok None d) (ml_data example_metas)"
    by (simp add: example_metas_def example_sign_def new_metadata_def pos_ok_def in_block_def v3_in_def nm_ok_def inv_new_def inv_wf_def)
  show "ml_clear \<lparr>ml_owner = True, ml_data = []\<rparr> = Inr \<lparr>ml_owner = True, ml_data = []\<rparr>"
    by (simp add: ml_clear_def)
qed

end
