(* ===== verification/BlockIds.thy ===== *)
theory BlockIds
  imports NodeRegistry
begin

section \<open>The ids of the nodes of a block\<close>

text \<open>
  A server chooses the ids of its nodes anew each time it starts. On disk the nodes of a block carry
  small ids of their own, with a mapping to names: \<^verbatim>\<open>getBlockNodeIdMapping\<close> and
  \<^verbatim>\<open>correctBlockNodeIds\<close> of \<^verbatim>\<open>src/mapblock.cpp\<close> translate between the two, with the array
  \<^verbatim>\<open>IdIdMapping\<close> as a cache.
\<close>

subsection \<open>The cache\<close>

record id_id_mapping =
  iim_mapping :: "u16 \<Rightarrow> u16"
  iim_dirty :: "u16 list"

definition iim_new :: id_id_mapping where
  "iim_new = \<lparr>iim_mapping = (\<lambda>_. 0xFFFF), iim_dirty = []\<rparr>"

definition iim_get :: "u16 \<Rightarrow> id_id_mapping \<Rightarrow> u16" where
  "iim_get k m = iim_mapping m k"

definition iim_set :: "u16 \<Rightarrow> u16 \<Rightarrow> id_id_mapping \<Rightarrow> id_id_mapping" where
  "iim_set k v m = m\<lparr>iim_mapping := (iim_mapping m)(k := v), iim_dirty := iim_dirty m @ [k]\<rparr>"

definition iim_clear :: "id_id_mapping \<Rightarrow> id_id_mapping" where
  "iim_clear m = \<lparr>iim_mapping = fold (\<lambda>k f. f(k := 0xFFFF)) (iim_dirty m) (iim_mapping m), iim_dirty = []\<rparr>"

text \<open>Clearing makes it new again, whatever was set since it was new.\<close>

definition iim_wf :: "id_id_mapping \<Rightarrow> bool" where
  "iim_wf m \<longleftrightarrow> (\<forall>k. iim_mapping m k \<noteq> 0xFFFF \<longrightarrow> k \<in> set (iim_dirty m))"

lemma iim_wf_new: "iim_wf iim_new"
  by (simp add: iim_wf_def iim_new_def)

lemma iim_wf_set: "iim_wf m \<Longrightarrow> iim_wf (iim_set k v m)"
  by (simp add: iim_wf_def iim_set_def)

lemma fold_forget: "fold (\<lambda>k f. f(k := c)) ks f k = (if k \<in> set ks then c else f k)"
  by (induction ks arbitrary: f) auto

lemma iim_clear_new: "iim_wf m \<Longrightarrow> iim_clear m = iim_new"
  by (auto simp: iim_clear_def iim_new_def iim_wf_def fold_forget fun_eq_iff)

lemma iim_get_set: "iim_get j (iim_set k v m) = (if j = k then v else iim_get j m)"
  by (simp add: iim_get_def iim_set_def)

lemma iim_get_new [simp]: "iim_get k iim_new = 0xFFFF"
  by (simp add: iim_get_def iim_new_def)

subsection \<open>Numbering the nodes of a block\<close>

fun number_nodes :: "node_mgr \<Rightarrow> map_node list \<Rightarrow> id_id_mapping \<Rightarrow> u16 \<Rightarrow> nimap \<Rightarrow>
    (nimap \<times> map_node list \<times> id_id_mapping) res" where
  "number_nodes nodedef [] mapping id_counter nimap = Inr (nimap, [], mapping)"
| "number_nodes nodedef (n # ns) mapping id_counter nimap =
     (let global_id = getContent n; found = iim_get global_id mapping
      in if found \<noteq> 0xFFFF then
           rbind (number_nodes nodedef ns mapping id_counter nimap) (\<lambda>(m, ns1, mp).
             Inr (m, setContent found n # ns1, mp))
         else
           rbind (nim_set id_counter (cf_name (ndm_get global_id nodedef)) nimap) (\<lambda>nimap1.
           rbind (number_nodes nodedef ns (iim_set global_id id_counter mapping) (id_counter + 1) nimap1) (\<lambda>(m, ns1, mp).
             Inr (m, setContent id_counter n # ns1, mp))))"

text \<open>The thread's instance of the cache is cleared first.\<close>

definition getBlockNodeIdMapping :: "nimap \<Rightarrow> map_node list \<Rightarrow> node_mgr \<Rightarrow> id_id_mapping \<Rightarrow>
    (nimap \<times> map_node list \<times> id_id_mapping) res" where
  "getBlockNodeIdMapping nimap nodes nodedef tl_ididmapping =
     number_nodes nodedef nodes (iim_clear tl_ididmapping) 0 nimap"

subsection \<open>Translating them back\<close>

text \<open>A server reserves an id for a name it does not know, a client must never need to.\<close>

definition allocateUnknownNodeId :: "bool \<Rightarrow> string \<Rightarrow> node_mgr \<Rightarrow> (u16 \<times> node_mgr) res option" where
  "allocateUnknownNodeId is_client name m = (if is_client then Some (Inl AssertFailed) else allocateDummy name m)"

fun correct_nodes :: "bool \<Rightarrow> nimap \<Rightarrow> map_node list \<Rightarrow> id_id_mapping \<Rightarrow> node_mgr \<Rightarrow>
    (map_node list \<times> node_mgr \<times> id_id_mapping) res option" where
  "correct_nodes is_client nimap [] cache m = Some (Inr ([], m, cache))"
| "correct_nodes is_client nimap (n # ns) cache m =
     (let local_id = getContent n; found = iim_get local_id cache;
          rest = (\<lambda>gid cache1 m1. map_option (\<lambda>r. rbind r (\<lambda>(ns1, m2, c). Inr (setContent gid n # ns1, m2, c)))
                    (correct_nodes is_client nimap ns cache1 m1))
      in if found \<noteq> 0xFFFF then rest found cache m
         else case nim_getName local_id nimap of
                None \<Rightarrow> Some (Inl SerializationError)
              | Some name \<Rightarrow>
                  (case ndm_getId name m of
                     Some global_id \<Rightarrow> rest global_id (iim_set local_id global_id cache) m
                   | None \<Rightarrow>
                       (case allocateUnknownNodeId is_client name m of
                          None \<Rightarrow> None
                        | Some (Inl e) \<Rightarrow> Some (Inl e)
                        | Some (Inr (global_id, m1)) \<Rightarrow>
                            if global_id = CONTENT_IGNORE then Some (Inl SerializationError)
                            else rest global_id (iim_set local_id global_id cache) m1)))"

definition correctBlockNodeIds :: "bool \<Rightarrow> nimap \<Rightarrow> map_node list \<Rightarrow> node_mgr \<Rightarrow> id_id_mapping \<Rightarrow>
    (map_node list \<times> node_mgr \<times> id_id_mapping) res option" where
  "correctBlockNodeIds is_client nimap nodes m tl_ididmapping =
     correct_nodes is_client nimap nodes (iim_clear tl_ididmapping) m"

subsection \<open>The numbering names every node\<close>

text \<open>What is known of the ids given so far.\<close>

definition numbered :: "node_mgr \<Rightarrow> id_id_mapping \<Rightarrow> u16 \<Rightarrow> nimap \<Rightarrow> bool" where
  "numbered nodedef mapping ctr nimap \<longleftrightarrow>
     (\<forall>g. iim_get g mapping \<noteq> 0xFFFF \<longrightarrow>
        nim_getName (iim_get g mapping) nimap = Some (cf_name (ndm_get g nodedef))) \<and>
     distinct (map fst (id_to_name nimap)) \<and> (\<forall>i \<in> fst ` set (id_to_name nimap). unat i < unat ctr) \<and>
     length (id_to_name nimap) \<le> unat ctr \<and> list_all (\<lambda>e. snd e \<noteq> []) (id_to_name nimap)"

lemma numbered_start: "numbered nodedef iim_new 0 nim_clear"
  by (simp add: numbered_def nim_clear_def)

lemma nim_getName_set:
  "nim_set i name m = Inr m' \<Longrightarrow> nim_getName j m' = (if j = i then Some name else nim_getName j m)"
  by (auto simp: nim_set_def nim_getName_def map_of_update split: if_splits)

lemma numbered_step:
  assumes n: "numbered nodedef mapping ctr nimap" and c: "unat ctr < 65535"
    and s: "nim_set ctr (cf_name (ndm_get g nodedef)) nimap = Inr nimap'"
  shows "numbered nodedef (iim_set g ctr mapping) (ctr + 1) nimap'"
proof -
  have u: "unat (ctr + 1) = unat ctr + 1" using c by (rule unat_u16_Suc)
  have new: "ctr \<notin> fst ` set (id_to_name nimap)" using n by (auto simp: numbered_def)
  have e: "id_to_name nimap' = id_to_name nimap @ [(ctr, cf_name (ndm_get g nodedef))]"
    and ne: "cf_name (ndm_get g nodedef) \<noteq> []"
    using s by (auto simp: nim_set_def update_append_new [OF new] split: if_splits)
  have keep: "nim_getName i nimap = Some x \<Longrightarrow> i \<noteq> ctr" for i x
    using new by (metis map_of_eq_None_iff nim_getName_def option.distinct(1))
  show ?thesis
    using n new keep unfolding numbered_def e
    by (auto simp: nim_getName_set [OF s] iim_get_set u ne less_Suc_eq)
qed

definition extends_names :: "nimap \<Rightarrow> nimap \<Rightarrow> bool" where
  "extends_names m m' \<longleftrightarrow> (\<forall>i x. nim_getName i m = Some x \<longrightarrow> nim_getName i m' = Some x)"

text \<open>A node with the small id, and the name of its old id in the mapping.\<close>

definition renamed :: "node_mgr \<Rightarrow> nimap \<Rightarrow> map_node \<Rightarrow> map_node \<Rightarrow> bool" where
  "renamed nodedef nimap n n' \<longleftrightarrow> param1 n' = param1 n \<and> param2 n' = param2 n \<and>
     nim_getName (getContent n') nimap = Some (cf_name (ndm_get (getContent n) nodedef))"

lemma content_simps [simp]:
  "getContent (setContent c n) = c" "param1 (setContent c n) = param1 n" "param2 (setContent c n) = param2 n"
  by (simp_all add: getContent_def setContent_def)

lemma number_nodes_names:
  assumes "numbered nodedef mapping ctr nimap" and "unat ctr + length ns \<le> 65535"
    and "\<forall>n \<in> set ns. cf_name (ndm_get (getContent n) nodedef) \<noteq> []"
  shows "\<exists>nimap' ns' mp ctr'. number_nodes nodedef ns mapping ctr nimap = Inr (nimap', ns', mp) \<and>
    extends_names nimap nimap' \<and> list_all2 (renamed nodedef nimap') ns ns' \<and>
    numbered nodedef mp ctr' nimap' \<and> (iim_wf mapping \<longrightarrow> iim_wf mp)"
  using assms
proof (induction ns arbitrary: mapping ctr nimap)
  case Nil
  then show ?case by (auto simp: extends_names_def)
next
  case (Cons n ns)
  let ?g = "getContent n"
  show ?case
  proof (cases "iim_get ?g mapping = 0xFFFF")
    case False
    have name: "nim_getName (iim_get ?g mapping) nimap = Some (cf_name (ndm_get ?g nodedef))"
      using Cons.prems(1) False by (simp add: numbered_def)
    obtain nimap' ns' mp ctr' where r: "number_nodes nodedef ns mapping ctr nimap = Inr (nimap', ns', mp)"
      "extends_names nimap nimap'" "list_all2 (renamed nodedef nimap') ns ns'" "numbered nodedef mp ctr' nimap'"
      "iim_wf mapping \<longrightarrow> iim_wf mp"
      using Cons.IH [OF Cons.prems(1)] Cons.prems(2,3) by auto
    have "renamed nodedef nimap' n (setContent (iim_get ?g mapping) n)"
      using name r(2) by (simp add: renamed_def extends_names_def)
    then show ?thesis
      using r False by (auto simp: Let_def)
  next
    case True
    let ?name = "cf_name (ndm_get ?g nodedef)"
    have c: "unat ctr < 65535" using Cons.prems(2) by simp
    obtain nimap1 where s: "nim_set ctr ?name nimap = Inr nimap1"
      using Cons.prems(3) by (simp add: nim_set_def)
    have n1: "numbered nodedef (iim_set ?g ctr mapping) (ctr + 1) nimap1"
      by (rule numbered_step [OF Cons.prems(1) c s])
    have le: "unat (ctr + 1) + length ns \<le> 65535"
      using Cons.prems(2) c by (simp add: unat_u16_Suc)
    obtain nimap' ns' mp ctr' where
      r: "number_nodes nodedef ns (iim_set ?g ctr mapping) (ctr + 1) nimap1 = Inr (nimap', ns', mp)"
      "extends_names nimap1 nimap'" "list_all2 (renamed nodedef nimap') ns ns'" "numbered nodedef mp ctr' nimap'"
      "iim_wf (iim_set ?g ctr mapping) \<longrightarrow> iim_wf mp"
      using Cons.IH [OF n1 le] Cons.prems(3) by auto
    have new: "nim_getName ctr nimap = None"
      using Cons.prems(1) by (auto simp: numbered_def nim_getName_def map_of_eq_None_iff)
    then have "extends_names nimap nimap1"
      by (auto simp: extends_names_def nim_getName_set [OF s])
    then have "extends_names nimap nimap'" using r(2) by (simp add: extends_names_def)
    moreover have "renamed nodedef nimap' n (setContent ctr n)"
      using r(2) by (simp add: renamed_def extends_names_def nim_getName_set [OF s])
    ultimately show ?thesis
      using r s True iim_wf_set by (auto simp: Let_def)
  qed
qed

subsection \<open>The translation finds the names again\<close>

text \<open>
  The id of a name: that of the map with aliases or, for a reserved name that is not in it after the
  aliases were renewed, that of the map of names.
\<close>

definition id_of_name :: "node_mgr \<Rightarrow> string \<Rightarrow> u16 option" where
  "id_of_name m name = (case ndm_getId name m of Some i \<Rightarrow> Some i | None \<Rightarrow> nim_getId name (m_name_id_mapping m))"

lemma store_node_keeps:
  "store_node i f m = Inr m' \<Longrightarrow> m_name_id_mapping_with_aliases m' = m_name_id_mapping_with_aliases m \<and>
    m_name_id_mapping m' = m_name_id_mapping m"
  by (auto simp: store_node_def put_features_def split: if_splits)

lemma ndm_set_aliases:
  assumes w: "ndm_wf m" and s: "ndm_set name f m = Some (Inr (i, m'))" and i: "i \<noteq> CONTENT_IGNORE"
  shows "ndm_getId n m' = (case ndm_getId n m of Some j \<Rightarrow> Some j
    | None \<Rightarrow> if n = name \<and> nim_getId name (m_name_id_mapping m) = None then Some i else None)"
proof (cases "nim_getId name (m_name_id_mapping m)")
  case (Some j)
  then have "store_node j f m = Inr m'" using s i by (auto simp: ndm_set_def split: if_splits)
  then show ?thesis
    using Some store_node_keeps by (auto simp: ndm_getId_def split: option.split)
next
  case None
  have ids: "\<forall>k < unat (m_next_id m). named m k" "m_next_id m = 0 \<longrightarrow> \<not> named m 1"
    using w by (auto simp: ndm_wf_def ids_ok_def)
  obtain k m1 m2 where a: "allocateId m = Some (k, m1)" and n: "name \<noteq> []"
    and add: "addNameIdMapping k name m1 = Inr m2" and st: "store_node k f m2 = Inr m'" and ki: "i = k"
    using s i None by (auto simp: ndm_set_def split: if_splits option.splits prod.splits)
  have m1: "m_name_id_mapping_with_aliases m1 = m_name_id_mapping_with_aliases m"
    using a by (cases rule: allocateId_cases [OF ids]) auto
  obtain nm wa where "addNameIdMapping k name m1 = Inr (m1\<lparr>m_name_id_mapping := nm, m_name_id_mapping_with_aliases := wa\<rparr>)"
    and wa: "\<And>n. map_of wa n = (case ndm_getId n m1 of Some j \<Rightarrow> Some j | None \<Rightarrow> if n = name then Some k else None)"
    using addNameIdMapping_ok [OF n, of k m1] by metis
  then have "m2 = m1\<lparr>m_name_id_mapping := nm, m_name_id_mapping_with_aliases := wa\<rparr>" using add by simp
  then show ?thesis
    using store_node_keeps [OF st] wa [of n] m1 None ki by (simp add: ndm_getId_def split: option.split)
qed

definition keeps_ids :: "node_mgr \<Rightarrow> node_mgr \<Rightarrow> bool" where
  "keeps_ids m m' \<longleftrightarrow> (\<forall>n i. id_of_name m n = Some i \<longrightarrow> id_of_name m' n = Some i)"

lemma keeps_ids_refl: "keeps_ids m m" and
  keeps_ids_trans: "keeps_ids m m1 \<Longrightarrow> keeps_ids m1 m2 \<Longrightarrow> keeps_ids m m2"
  by (simp_all add: keeps_ids_def)

lemma allocateDummy_id:
  assumes w: "ndm_wf m" and n: "name \<noteq> []" and u: "ndm_getId name m = None"
  obtains i m' where "allocateDummy name m = Some (Inr (i, m'))"
    and "i \<noteq> CONTENT_IGNORE \<Longrightarrow> ndm_wf m' \<and> id_of_name m' name = Some i \<and> keeps_ids m m'"
proof (cases "name = ''ignore''")
  case True
  then show ?thesis using that by (simp add: allocateDummy_def ndm_set_def)
next
  case False
  let ?f = "ContentFeatures_reset\<lparr>cf_name := name\<rparr>"
  have d: "allocateDummy name m = ndm_set name ?f m" using n by (simp add: allocateDummy_def)
  have g: "distinct (map fst (cf_groups ?f))" by (simp add: ContentFeatures_reset_def)
  have nf: "name = cf_name ?f" by simp
  show ?thesis
  proof (cases rule: ndm_set_cases [OF w n nf False g, case_names stored full])
    case (stored i m')
    have "id_of_name m' name = Some i \<and> keeps_ids m m'" if i: "i \<noteq> CONTENT_IGNORE"
    proof -
      note al = ndm_set_aliases [OF w stored(1) i]
      have "id_of_name m' name = Some i"
        using al [of name] u stored(3) by (simp add: id_of_name_def split: option.split)
      moreover have "id_of_name m' k = Some j" if k: "id_of_name m k = Some j" for k j
      proof (cases "k = name")
        case True
        then have "nim_getId name (m_name_id_mapping m) = Some j" using k u by (simp add: id_of_name_def)
        moreover from this have "i = j"
          using stored(1) False n by (auto simp: ndm_set_def split: if_splits)
        ultimately show ?thesis using True \<open>id_of_name m' name = Some i\<close> by simp
      next
        case False
        then show ?thesis
          using k al [of k] stored(5) [OF False] by (auto simp: id_of_name_def split: option.splits)
      qed
      ultimately show ?thesis by (simp add: keeps_ids_def)
    qed
    with stored(1,2) d that show ?thesis by simp
  next
    case full
    with d that show ?thesis by simp
  qed
qed

definition cache_ok :: "nimap \<Rightarrow> node_mgr \<Rightarrow> id_id_mapping \<Rightarrow> bool" where
  "cache_ok nimap m cache \<longleftrightarrow> (\<forall>l. iim_get l cache \<noteq> 0xFFFF \<longrightarrow>
     (\<exists>name. nim_getName l nimap = Some name \<and> id_of_name m name = Some (iim_get l cache)))"

text \<open>A node with the id that the manager has for the name of its small id.\<close>

definition resolved :: "nimap \<Rightarrow> node_mgr \<Rightarrow> map_node \<Rightarrow> map_node \<Rightarrow> bool" where
  "resolved nimap m n n' \<longleftrightarrow> param1 n' = param1 n \<and> param2 n' = param2 n \<and>
     (\<exists>name. nim_getName (getContent n) nimap = Some name \<and> id_of_name m name = Some (getContent n'))"

lemma cache_ok_set:
  "cache_ok nimap m cache \<Longrightarrow> nim_getName l nimap = Some name \<Longrightarrow> id_of_name m name = Some g \<Longrightarrow>
    cache_ok nimap m (iim_set l g cache)"
  by (auto simp: cache_ok_def iim_get_set)

lemma cache_ok_keeps: "cache_ok nimap m cache \<Longrightarrow> keeps_ids m m' \<Longrightarrow> cache_ok nimap m' cache"
  unfolding cache_ok_def keeps_ids_def by blast

lemma resolved_keeps: "resolved nimap m n n' \<Longrightarrow> keeps_ids m m' \<Longrightarrow> resolved nimap m' n n'"
  unfolding resolved_def keeps_ids_def by blast

lemma known_name: "ndm_getId name m = Some i \<Longrightarrow> id_of_name m name = Some i"
  by (simp add: id_of_name_def)

text \<open>Translating one node, then the rest.\<close>

definition corrects :: "nimap \<Rightarrow> map_node list \<Rightarrow> node_mgr \<Rightarrow> (map_node list \<times> node_mgr \<times> id_id_mapping) res option \<Rightarrow> bool" where
  "corrects nimap ns m r \<longleftrightarrow>
     (\<exists>ns' m' c. r = Some (Inr (ns', m', c)) \<and> ndm_wf m' \<and> keeps_ids m m' \<and> list_all2 (resolved nimap m') ns ns' \<and>
        ((\<forall>n \<in> set ns. \<exists>name. nim_getName (getContent n) nimap = Some name \<and> ndm_getId name m \<noteq> None) \<longrightarrow> m' = m)) \<or>
     (r = Some (Inl SerializationError) \<and>
        (\<exists>n \<in> set ns. \<exists>name. nim_getName (getContent n) nimap = Some name \<and> ndm_getId name m = None))"

lemma correct_nodes_resolve:
  assumes "ndm_wf m" and "cache_ok nimap m cache"
    and "\<forall>n \<in> set ns. \<exists>name. nim_getName (getContent n) nimap = Some name \<and> name \<noteq> []"
  shows "corrects nimap ns m (correct_nodes False nimap ns cache m)"
  using assms
proof (induction ns arbitrary: cache m)
  case Nil
  then show ?case by (simp add: corrects_def keeps_ids_refl)
next
  case (Cons n ns)
  let ?l = "getContent n"
  obtain name where name: "nim_getName ?l nimap = Some name" "name \<noteq> []" using Cons.prems(3) by auto
  have rest: "corrects nimap (n # ns) m (map_option (\<lambda>r. rbind r (\<lambda>(ns1, m2, c). Inr (setContent g n # ns1, m2, c)))
      (correct_nodes False nimap ns cache1 m1))"
    if m1: "ndm_wf m1" "keeps_ids m m1" "cache_ok nimap m1 cache1" "id_of_name m1 name = Some g"
      and same: "ndm_getId name m \<noteq> None \<Longrightarrow> m1 = m" and unknown: "m1 \<noteq> m \<Longrightarrow> ndm_getId name m = None" for g cache1 m1
  proof -
    have "corrects nimap ns m1 (correct_nodes False nimap ns cache1 m1)"
      using Cons.IH [OF m1(1,3)] Cons.prems(3) by simp
    then consider (fine) ns' m' c where "correct_nodes False nimap ns cache1 m1 = Some (Inr (ns', m', c))"
        "ndm_wf m'" "keeps_ids m1 m'" "list_all2 (resolved nimap m') ns ns'"
        "(\<forall>n \<in> set ns. \<exists>name. nim_getName (getContent n) nimap = Some name \<and> ndm_getId name m1 \<noteq> None) \<longrightarrow> m' = m1"
      | (error) "correct_nodes False nimap ns cache1 m1 = Some (Inl SerializationError)"
        "\<exists>n \<in> set ns. \<exists>name. nim_getName (getContent n) nimap = Some name \<and> ndm_getId name m1 = None"
      unfolding corrects_def by blast
    then show ?thesis
    proof cases
      case fine
      have "resolved nimap m1 n (setContent g n)"
        using name(1) m1(4) by (simp add: resolved_def)
      then have "list_all2 (resolved nimap m') (n # ns) (setContent g n # ns')"
        using fine(4) resolved_keeps [OF _ fine(3)] by simp
      moreover have "keeps_ids m m'" by (rule keeps_ids_trans [OF m1(2) fine(3)])
      moreover have "m' = m" if "\<forall>n \<in> set (n # ns). \<exists>name. nim_getName (getContent n) nimap = Some name \<and> ndm_getId name m \<noteq> None"
        using that same name(1) fine(5) by auto
      ultimately show ?thesis using fine(1,2) unfolding corrects_def by auto
    next
      case error
      have "\<exists>n \<in> set (n # ns). \<exists>name. nim_getName (getContent n) nimap = Some name \<and> ndm_getId name m = None"
        using error(2) unknown name(1) by (cases "m1 = m") auto
      then show ?thesis using error(1) unfolding corrects_def by auto
    qed
  qed
  show ?case
  proof (cases "iim_get ?l cache = 0xFFFF")
    case False
    then have "id_of_name m name = Some (iim_get ?l cache)"
      using Cons.prems(2) name(1) by (auto simp: cache_ok_def)
    from rest [OF Cons.prems(1) keeps_ids_refl Cons.prems(2) this] False show ?thesis by (simp add: Let_def)
  next
    case True
    show ?thesis
    proof (cases "ndm_getId name m")
      case (Some g)
      note k = known_name [OF Some]
      from rest [OF Cons.prems(1) keeps_ids_refl cache_ok_set [OF Cons.prems(2) name(1) k] k] True Some name(1)
      show ?thesis by (simp add: Let_def)
    next
      case None
      obtain g m1 where a: "allocateDummy name m = Some (Inr (g, m1))"
        and ok: "g \<noteq> CONTENT_IGNORE \<Longrightarrow> ndm_wf m1 \<and> id_of_name m1 name = Some g \<and> keeps_ids m m1"
        using allocateDummy_id [OF Cons.prems(1) name(2) None] by metis
      show ?thesis
      proof (cases "g = CONTENT_IGNORE")
        case True
        then show ?thesis
          using \<open>iim_get ?l cache = 0xFFFF\<close> None a name(1)
          by (auto simp: Let_def allocateUnknownNodeId_def corrects_def)
      next
        case False
        note ok1 = ok [OF False]
        have c: "cache_ok nimap m1 (iim_set ?l g cache)"
          using ok1 cache_ok_keeps [OF Cons.prems(2)] name(1) by (blast intro: cache_ok_set)
        show ?thesis
          using rest [of m1 "iim_set ?l g cache" g] ok1 c None True False a name(1)
          by (simp add: Let_def allocateUnknownNodeId_def)
      qed
    qed
  qed
qed

subsection \<open>From one server to another\<close>

lemma wf_names: "ndm_wf m \<Longrightarrow> cf_name (ndm_get c m) \<noteq> []"
  unfolding ndm_wf_def ids_ok_def by (cases "named m (unat c)") (auto simp: ndm_get_named ndm_get_unnamed named_def)

definition same_node :: "node_mgr \<Rightarrow> node_mgr \<Rightarrow> map_node \<Rightarrow> map_node \<Rightarrow> bool" where
  "same_node A B n n' \<longleftrightarrow> param1 n' = param1 n \<and> param2 n' = param2 n \<and>
     id_of_name B (cf_name (ndm_get (getContent n) A)) = Some (getContent n')"

lemma renamed_resolved:
  assumes "list_all2 (renamed A nimap) ns ns'" and "list_all2 (resolved nimap B) ns' ns''"
  shows "list_all2 (same_node A B) ns ns''"
  by (rule list_all2_trans [OF _ assms]) (auto simp: renamed_def resolved_def same_node_def)

lemma nodes_are_named:
  "list_all2 (renamed A nimap) ns ns' \<Longrightarrow> n' \<in> set ns' \<Longrightarrow>
    \<exists>n \<in> set ns. nim_getName (getContent n') nimap = Some (cf_name (ndm_get (getContent n) A))"
  unfolding list_all2_conv_all_nth by (metis in_set_conv_nth renamed_def)

text \<open>The mapping is read back, and the small ids are translated to those of another manager.\<close>

lemma ids_translated:
  assumes A: "ndm_wf A" and B: "ndm_wf B" and tl: "iim_wf tl2"
    and n: "list_all2 (renamed A nimap) nodes nodes'" "numbered A mp ctr nimap"
    and stored: "nim_serialize nimap = Inr s"
  shows "\<exists>nimap'. nim_deSerialize (s @ r) = Inr (nimap', r) \<and>
    ((\<exists>nodes'' B' tl2'. correctBlockNodeIds False nimap' nodes' B tl2 = Some (Inr (nodes'', B', tl2')) \<and>
        list_all2 (same_node A B') nodes nodes'' \<and> keeps_ids B B' \<and> ndm_wf B') \<or>
     (correctBlockNodeIds False nimap' nodes' B tl2 = Some (Inl SerializationError) \<and>
        (\<exists>n \<in> set nodes. ndm_getId (cf_name (ndm_get (getContent n) A)) B = None)))"
proof -
  have nonempty: "\<forall>n \<in> set nodes. cf_name (ndm_get (getContent n) A) \<noteq> []" using wf_names [OF A] by blast
  have "distinct (map fst (id_to_name nimap))" "length (id_to_name nimap) < 65536"
    using n(2) unat_u16_less [of ctr] by (auto simp: numbered_def)
  then obtain nimap' where nimap': "nim_deSerialize (s @ r) = Inr (nimap', r)" "id_to_name nimap' = id_to_name nimap"
    using nim_ids_read_back [OF _ stored, of r] by blast
  have names: "nim_getName i nimap' = nim_getName i nimap" for i by (simp add: nim_getName_def nimap'(2))
  have ren: "list_all2 (renamed A nimap') nodes nodes'"
  proof -
    have "renamed A nimap' = renamed A nimap" by (simp add: renamed_def fun_eq_iff names)
    then show ?thesis using n(1) by simp
  qed
  have c0: "cache_ok nimap' B iim_new" by (simp add: cache_ok_def)
  have named': "\<forall>n \<in> set nodes'. \<exists>name. nim_getName (getContent n) nimap' = Some name \<and> name \<noteq> []"
    using nodes_are_named [OF ren] nonempty by metis
  have "corrects nimap' nodes' B (correctBlockNodeIds False nimap' nodes' B tl2)"
    unfolding correctBlockNodeIds_def iim_clear_new [OF tl]
    by (rule correct_nodes_resolve [OF B c0 named'])
  then show ?thesis
    unfolding corrects_def
  proof (elim disjE)
    assume "\<exists>ns' m' c. correctBlockNodeIds False nimap' nodes' B tl2 = Some (Inr (ns', m', c)) \<and> ndm_wf m' \<and> keeps_ids B m' \<and>
        list_all2 (resolved nimap' m') nodes' ns' \<and>
        ((\<forall>n \<in> set nodes'. \<exists>name. nim_getName (getContent n) nimap' = Some name \<and> ndm_getId name B \<noteq> None) \<longrightarrow> m' = B)"
    then show ?thesis using nimap'(1) renamed_resolved [OF ren] by blast
  next
    assume "correctBlockNodeIds False nimap' nodes' B tl2 = Some (Inl SerializationError) \<and>
      (\<exists>n \<in> set nodes'. \<exists>name. nim_getName (getContent n) nimap' = Some name \<and> ndm_getId name B = None)"
    moreover have "\<exists>n \<in> set nodes. ndm_getId (cf_name (ndm_get (getContent n) A)) B = None"
      using calculation nodes_are_named [OF ren] by fastforce
    ultimately show ?thesis using nimap'(1) by blast
  qed
qed

text \<open>
  C39: the ids of a stored block. Whatever ids the server that stores a block has given to its nodes,
  and whatever other ids the server that loads it gives, also from other definitions: the stored
  mapping is read back, and each node comes back with its parameters and the id that the loading
  server has for the name of the node. Names that it does not know get new ids, without changing the
  id of any name. Loading can only fail when there is an unknown name (and no free id for it), and
  it never loops, nor fails in another way.
\<close>

theorem block_ids_portable:
  assumes A: "ndm_wf A" and B: "ndm_wf B" and len: "length nodes \<le> 65535" and tl: "iim_wf tl1" "iim_wf tl2"
    and number: "getBlockNodeIdMapping nim_clear nodes A tl1 = Inr (nimap, nodes', tl1')"
    and stored: "nim_serialize nimap = Inr s"
  shows "\<exists>nimap'. nim_deSerialize (s @ r) = Inr (nimap', r) \<and>
    ((\<exists>nodes'' B' tl2'. correctBlockNodeIds False nimap' nodes' B tl2 = Some (Inr (nodes'', B', tl2')) \<and>
        list_all2 (same_node A B') nodes nodes'' \<and> keeps_ids B B' \<and> ndm_wf B') \<or>
     (correctBlockNodeIds False nimap' nodes' B tl2 = Some (Inl SerializationError) \<and>
        (\<exists>n \<in> set nodes. ndm_getId (cf_name (ndm_get (getContent n) A)) B = None)))"
proof -
  have nonempty: "\<forall>n \<in> set nodes. cf_name (ndm_get (getContent n) A) \<noteq> []" using wf_names [OF A] by blast
  obtain ctr where n: "list_all2 (renamed A nimap) nodes nodes'" "numbered A tl1' ctr nimap"
    using number_nodes_names [OF numbered_start _ nonempty] len number
    unfolding getBlockNodeIdMapping_def iim_clear_new [OF tl(1)] by auto
  show ?thesis by (rule ids_translated [OF A B tl(2) n stored])
qed

theorem block_ids_portable_witness:
  "\<exists>A nimap nodes' tl s nimap'. ndm_clear = Inr A \<and>
    getBlockNodeIdMapping nim_clear [node_new 126, node_new 126] A iim_new = Inr (nimap, nodes', tl) \<and>
    nodes' = [node_new 0, node_new 0] \<and> nim_serialize nimap = Inr s \<and>
    nim_deSerialize (s @ ''x'') = Inr (nimap', ''x'')"
proof -
  obtain A where A: "ndm_clear = Inr A" "ndm_wf A" using ndm_clear_wf by blast
  have "m_content_features A ! 126 = air_features" "126 < length (m_content_features A)"
    using ndm_clear_ok unfolding A(1) by auto
  then have "cf_name (ndm_get 126 A) = ''air''"
    by (simp add: ndm_get_def air_features_def)
  then obtain tl where g: "getBlockNodeIdMapping nim_clear [node_new 126, node_new 126] A iim_new =
      Inr (\<lparr>id_to_name = [(0, ''air'')], name_to_id = [(''air'', 0)]\<rparr>, [node_new 0, node_new 0], tl)"
    by (simp add: getBlockNodeIdMapping_def iim_clear_new [OF iim_wf_new] node_new_def getContent_def setContent_def
        nim_set_def nim_clear_def iim_get_set Let_def)
  obtain s where s: "nim_serialize \<lparr>id_to_name = [(0, ''air'')], name_to_id = [(''air'', 0)]\<rparr> = Inr s"
    by (simp add: nim_serialize_def serializeString16_def STRING_MAX_LEN_def)
  show ?thesis
    using block_ids_portable [OF A(2) A(2) _ iim_wf_new iim_wf_new g s, of "''x''"] A(1) g s by auto
qed

end
