(* ===== verification/StaticObjects.thy ===== *)
theory StaticObjects
  imports FloatFormat NodeMeta
begin

section \<open>Static objects\<close>

text \<open>
  \<^verbatim>\<open>src/staticobject.h\<close> and \<^verbatim>\<open>staticobject.cpp\<close>: the objects of a map block, those that are stored and
  those that are active under an id, and their form on disk.
\<close>

record static_object =
  so_type :: u8
  so_pos :: v3opos
  so_data :: string

definition so_new :: static_object where
  "so_new = \<lparr>so_type = 0, so_pos = (0, 0, 0), so_data = []\<rparr>"

text \<open>\<^verbatim>\<open>MAX_MAP_GENERATION_LIMIT * BS\<close>; the first coordinate is compared twice, the third never.\<close>

definition OBJECT_LIMIT :: f64 where "OBJECT_LIMIT = 0x4213FFFFA0000000"

definition so_broken :: "float_ops \<Rightarrow> v3opos \<Rightarrow> bool" where
  "so_broken fl pos = (case pos of (x, y, z) \<Rightarrow>
     f64_less fl OBJECT_LIMIT x \<or> f64_less fl OBJECT_LIMIT x \<or> f64_less fl OBJECT_LIMIT y)"

definition so_serialize :: "float_ops \<Rightarrow> static_object \<Rightarrow> string res" where
  "so_serialize fl obj =
     (if so_broken fl (so_pos obj) then Inr []
      else rbind (serializeString16 (so_data obj)) (\<lambda>d.
             Inr (stream_write [so_type obj] @ writeV3O fl (so_pos obj) @ d)))"

text \<open>The first component tells that the object is broken; then its data are not read.\<close>

definition so_deSerialize :: "float_ops \<Rightarrow> istream \<Rightarrow> u8 \<Rightarrow> static_object \<Rightarrow> (bool \<times> static_object \<times> istream) res" where
  "so_deSerialize fl is version obj =
     rbind (on_stream readU8s is) (\<lambda>(t, is1).
     rbind (if version = 0
            then rbind (on_stream (readV3F1000 fl) is1) (\<lambda>(p, i). Inr (v3fToOpos fl p, i))
            else on_stream (readV3O fl) is1) (\<lambda>(p, is2).
       let obj1 = obj\<lparr>so_type := t, so_pos := p\<rparr>
       in if so_broken fl p then Inr (True, obj1, is2)
          else rbind (on_stream deSerializeString16 is2) (\<lambda>(d, is3). Inr (False, obj1\<lparr>so_data := d\<rparr>, is3))))"

subsection \<open>The list\<close>

text \<open>The active objects are a map, here sorted by id.\<close>

record static_list =
  sl_stored :: "static_object list"
  sl_active :: "(u16 \<times> static_object) list"

definition sl_new :: static_list where "sl_new = \<lparr>sl_stored = [], sl_active = []\<rparr>"

fun insert_or_assign :: "u16 \<Rightarrow> 'a \<Rightarrow> (u16 \<times> 'a) list \<Rightarrow> (u16 \<times> 'a) list" where
  "insert_or_assign k x [] = [(k, x)]"
| "insert_or_assign k x ((j, y) # rest) =
     (if j < k then (j, y) # insert_or_assign k x rest
      else if j = k then (k, x) # rest else (k, x) # (j, y) # rest)"

definition sl_setActive :: "u16 \<Rightarrow> static_object \<Rightarrow> static_list \<Rightarrow> static_list" where
  "sl_setActive k obj l = l\<lparr>sl_active := insert_or_assign k obj (sl_active l)\<rparr>"

definition sl_insert :: "u16 \<Rightarrow> static_object \<Rightarrow> static_list \<Rightarrow> static_list" where
  "sl_insert k obj l =
     (if k = 0 then l\<lparr>sl_stored := sl_stored l @ [obj]\<rparr>
      else if map_of (sl_active l) k \<noteq> None then l
      else sl_setActive k obj l)"

definition sl_remove :: "u16 \<Rightarrow> static_list \<Rightarrow> static_list" where
  "sl_remove k l =
     (if k = 0 then l
      else if map_of (sl_active l) k = None then l
      else l\<lparr>sl_active := AList.delete k (sl_active l)\<rparr>)"

definition sl_pushStored :: "static_object \<Rightarrow> static_list \<Rightarrow> static_list" where
  "sl_pushStored obj l = l\<lparr>sl_stored := sl_stored l @ [obj]\<rparr>"

definition sl_clearStored :: "static_list \<Rightarrow> static_list" where
  "sl_clearStored l = l\<lparr>sl_stored := []\<rparr>"

definition sl_clear :: "static_list \<Rightarrow> static_list" where
  "sl_clear l = l\<lparr>sl_active := [], sl_stored := []\<rparr>"

definition sl_size :: "static_list \<Rightarrow> nat" where
  "sl_size l = length (sl_active l) + length (sl_stored l)"

definition sl_storeActiveObject :: "u16 \<Rightarrow> static_list \<Rightarrow> bool \<times> static_list" where
  "sl_storeActiveObject k l =
     (case map_of (sl_active l) k of
        None \<Rightarrow> (False, l)
      | Some obj \<Rightarrow> (True, l\<lparr>sl_stored := sl_stored l @ [obj], sl_active := AList.delete k (sl_active l)\<rparr>))"

definition so_problematic :: "static_object \<Rightarrow> bool" where
  "so_problematic obj \<longleftrightarrow> length (so_data obj) > 0xFFFF"

fun so_serialize_all :: "float_ops \<Rightarrow> static_object list \<Rightarrow> string res" where
  "so_serialize_all fl [] = Inr []"
| "so_serialize_all fl (obj # objs) =
     rbind (so_serialize fl obj) (\<lambda>s. rbind (so_serialize_all fl objs) (\<lambda>t. Inr (s @ t)))"

definition sl_serialize :: "float_ops \<Rightarrow> static_list \<Rightarrow> string res \<times> static_list" where
  "sl_serialize fl l =
     (let l1 = l\<lparr>sl_stored := filter (\<lambda>obj. \<not> so_problematic obj) (sl_stored l),
                 sl_active := filter (\<lambda>(k, obj). \<not> so_problematic obj) (sl_active l)\<rparr>;
          count = length (sl_stored l1) + length (sl_active l1)
      in if count > 0xFFFF then (Inr (stream_write [1] @ stream_write (writeU16 0)), l1)
         else (rbind (so_serialize_all fl (sl_stored l1 @ map snd (sl_active l1))) (\<lambda>s.
                 Inr (stream_write [1] @ stream_write (writeU16 (of_nat count)) @ s)), l1))"

fun sl_read :: "float_ops \<Rightarrow> u8 \<Rightarrow> nat \<Rightarrow> istream \<Rightarrow> static_list \<Rightarrow> (static_list \<times> istream) res" where
  "sl_read fl version 0 is l = Inr (l, is)"
| "sl_read fl version (Suc n) is l =
     rbind (so_deSerialize fl is version so_new) (\<lambda>(broken, obj, is1).
       if broken then Inr (l, is1)
       else sl_read fl version n is1 (l\<lparr>sl_stored := sl_stored l @ [obj]\<rparr>))"

definition sl_deSerialize :: "float_ops \<Rightarrow> istream \<Rightarrow> static_list \<Rightarrow> (static_list \<times> istream) res" where
  "sl_deSerialize fl is l =
     (let l1 = l\<lparr>sl_stored := []\<rparr>
      in rbind (on_stream readU8s is) (\<lambda>(version, is1).
         rbind (on_stream readU16s is1) (\<lambda>(count, is2).
           sl_read fl version (unat count) is2 l1)))"

subsection \<open>What the operations keep\<close>

definition sl_wf :: "static_list \<Rightarrow> bool" where
  "sl_wf l \<longleftrightarrow> sorted_wrt (<) (map fst (sl_active l)) \<and> 0 \<notin> fst ` set (sl_active l)"

lemma map_of_insert_or_assign:
  "sorted_wrt (<) (map fst xs) \<Longrightarrow> map_of (insert_or_assign k x xs) = (map_of xs)(k \<mapsto> x)"
proof (induction xs)
  case (Cons e xs)
  then show ?case by (cases e) auto
qed simp

lemma keys_insert_or_assign: "fst ` set (insert_or_assign k x xs) = insert k (fst ` set xs)"
  by (induction k x xs rule: insert_or_assign.induct) auto

lemma sorted_insert_or_assign:
  "sorted_wrt (<) (map fst xs) \<Longrightarrow> sorted_wrt (<) (map fst (insert_or_assign k x xs))"
proof (induction xs)
  case (Cons e xs)
  obtain j y where e: "e = (j, y)" by (cases e)
  have all: "\<forall>i \<in> fst ` set xs. j < i" and s: "sorted_wrt (<) (map fst xs)"
    using Cons.prems by (simp_all add: e)
  consider "j < k" | "j = k" | "k < j" by force
  then show ?case
  proof cases
    case 1
    have "\<forall>i \<in> fst ` set (insert_or_assign k x xs). j < i"
      unfolding keys_insert_or_assign using all 1 by simp
    then show ?thesis using Cons.IH [OF s] 1 by (simp add: e)
  next
    case 2
    then show ?thesis using all s by (simp add: e)
  next
    case 3
    then have "\<forall>i \<in> fst ` set xs. k < i" using all by force
    moreover have "\<not> j < k" "j \<noteq> k" using 3 by auto
    ultimately show ?thesis using all s 3 by (simp add: e)
  qed
qed simp

lemma sorted_delete: "sorted_wrt (<) (map fst xs) \<Longrightarrow> sorted_wrt (<) (map fst (AList.delete k xs))"
  by (induction xs) (auto simp: AList.delete_eq)

lemma sorted_filter: "sorted_wrt (<) (map fst xs) \<Longrightarrow> sorted_wrt (<) (map fst (filter P xs))"
  by (induction xs) auto

lemma sl_operations_wf:
  assumes "sl_wf l"
  shows "sl_wf (sl_insert k obj l)" and "sl_wf (sl_remove k l)" and "sl_wf (snd (sl_storeActiveObject k l))"
    and "sl_wf (snd (sl_serialize fl l))" and "sl_wf (sl_pushStored obj l)" and "sl_wf (sl_clear l)"
proof -
  have s: "sorted_wrt (<) (map fst (sl_active l))" and z: "0 \<notin> fst ` set (sl_active l)"
    using assms by (simp_all add: sl_wf_def)
  show "sl_wf (sl_insert k obj l)"
    using assms by (simp add: sl_wf_def sl_insert_def sl_setActive_def sorted_insert_or_assign keys_insert_or_assign)
  have d: "sl_wf (l\<lparr>sl_stored := st, sl_active := AList.delete k (sl_active l)\<rparr>)" for st
    using sorted_delete [OF s] z by (auto simp: sl_wf_def AList.delete_eq)
  show "sl_wf (sl_remove k l)" and "sl_wf (snd (sl_storeActiveObject k l))"
    using assms d [of "sl_stored l"] d by (simp_all add: sl_remove_def sl_storeActiveObject_def split: option.split)
  show "sl_wf (snd (sl_serialize fl l))"
    using z sorted_filter [OF s] by (auto simp: sl_wf_def sl_serialize_def Let_def)
  show "sl_wf (sl_pushStored obj l)" and "sl_wf (sl_clear l)"
    using assms by (simp_all add: sl_wf_def sl_pushStored_def sl_clear_def)
qed

subsection \<open>Reading back the objects\<close>

text \<open>The position of an object loses what single precision does not hold.\<close>

definition so_narrowed :: "float_ops \<Rightarrow> static_object \<Rightarrow> static_object" where
  "so_narrowed fl obj = obj\<lparr>so_pos := v3fToOpos fl (oposToV3f fl (so_pos obj))\<rparr>"

definition so_storable :: "float_ops \<Rightarrow> static_object \<Rightarrow> bool" where
  "so_storable fl obj \<longleftrightarrow> \<not> so_problematic obj \<and> \<not> so_broken fl (so_pos obj) \<and>
     \<not> so_broken fl (so_pos (so_narrowed fl obj))"

lemma so_reads_back:
  assumes "so_storable fl obj"
  shows "\<exists>s. so_serialize fl obj = Inr s \<and>
    so_deSerialize fl \<lparr>buf = s @ r, good = True\<rparr> 1 so_new = Inr (False, so_narrowed fl obj, \<lparr>buf = r, good = True\<rparr>)"
proof -
  have len: "length (so_data obj) \<le> STRING_MAX_LEN"
    using assms by (simp add: so_storable_def so_problematic_def STRING_MAX_LEN_def)
  obtain d where d: "d = stream_write (writeU16 (of_nat (length (so_data obj)))) @ so_data obj" by blast
  let ?s = "stream_write [so_type obj] @ writeV3O fl (so_pos obj) @ d"
  have s: "so_serialize fl obj = Inr ?s"
    using assms len by (simp add: so_serialize_def so_storable_def serializeString16_def d)
  have r1: "on_stream readU8s \<lparr>buf = ?s @ r, good = True\<rparr> =
      Inr (so_type obj, \<lparr>buf = writeV3O fl (so_pos obj) @ d @ r, good = True\<rparr>)"
    by (intro on_stream_ok) (simp add: u8_codec.dec_enc)
  have r2: "on_stream (readV3O fl) \<lparr>buf = writeV3O fl (so_pos obj) @ d @ r, good = True\<rparr> =
      Inr (so_pos (so_narrowed fl obj), \<lparr>buf = d @ r, good = True\<rparr>)"
    by (intro on_stream_ok) (simp add: readV3O_writeV3O so_narrowed_def)
  have r3: "on_stream deSerializeString16 \<lparr>buf = d @ r, good = True\<rparr> = Inr (so_data obj, \<lparr>buf = r, good = True\<rparr>)"
    using deSerializeString16_append [OF len] by (intro on_stream_ok) (simp add: d)
  have "so_deSerialize fl \<lparr>buf = ?s @ r, good = True\<rparr> 1 so_new = Inr (False, so_narrowed fl obj, \<lparr>buf = r, good = True\<rparr>)"
    using assms unfolding so_deSerialize_def r1
    by (simp add: r2 r3 so_storable_def so_new_def Let_def) (simp add: so_narrowed_def)
  with s show ?thesis by blast
qed

lemma sl_reads_back:
  assumes "list_all (so_storable fl) objs"
  shows "\<exists>s. so_serialize_all fl objs = Inr s \<and>
    sl_read fl 1 (length objs) \<lparr>buf = s @ r, good = True\<rparr> l =
      Inr (l\<lparr>sl_stored := sl_stored l @ map (so_narrowed fl) objs\<rparr>, \<lparr>buf = r, good = True\<rparr>)"
  using assms
proof (induction objs arbitrary: l)
  case (Cons obj objs)
  let ?l = "l\<lparr>sl_stored := sl_stored l @ [so_narrowed fl obj]\<rparr>"
  obtain t where t: "so_serialize_all fl objs = Inr t"
    "sl_read fl 1 (length objs) \<lparr>buf = t @ r, good = True\<rparr> ?l =
      Inr (?l\<lparr>sl_stored := sl_stored ?l @ map (so_narrowed fl) objs\<rparr>, \<lparr>buf = r, good = True\<rparr>)"
    using Cons.IH [of ?l] Cons.prems by auto
  obtain s where "so_serialize fl obj = Inr s"
    "so_deSerialize fl \<lparr>buf = s @ t @ r, good = True\<rparr> 1 so_new =
      Inr (False, so_narrowed fl obj, \<lparr>buf = t @ r, good = True\<rparr>)"
    using so_reads_back [of fl obj "t @ r"] Cons.prems by auto
  with t show ?case by simp
qed simp

lemma objects_roundtrip:
  assumes "list_all (so_storable fl) (sl_stored l @ map snd (sl_active l))" and "sl_size l \<le> 0xFFFF"
  shows "\<exists>s. sl_serialize fl l = (Inr s, l) \<and>
    sl_deSerialize fl \<lparr>buf = s @ r, good = True\<rparr> l0 =
      Inr (l0\<lparr>sl_stored := map (so_narrowed fl) (sl_stored l @ map snd (sl_active l))\<rparr>, \<lparr>buf = r, good = True\<rparr>)"
proof -
  let ?objs = "sl_stored l @ map snd (sl_active l)"
  have "filter (\<lambda>obj. \<not> so_problematic obj) (sl_stored l) = sl_stored l"
    "filter (\<lambda>(k, obj). \<not> so_problematic obj) (sl_active l) = sl_active l"
    using assms(1) by (force simp: list_all_iff so_storable_def intro!: filter_True)+
  then have l1: "l\<lparr>sl_stored := filter (\<lambda>obj. \<not> so_problematic obj) (sl_stored l),
      sl_active := filter (\<lambda>(k, obj). \<not> so_problematic obj) (sl_active l)\<rparr> = l" by simp
  have n: "unat (of_nat (length ?objs) :: u16) = length ?objs"
    unfolding unat_of_nat_u16 using assms(2) by (intro mod_less) (simp add: sl_size_def)
  obtain t where t: "so_serialize_all fl ?objs = Inr t"
    "sl_read fl 1 (length ?objs) \<lparr>buf = t @ r, good = True\<rparr> (l0\<lparr>sl_stored := []\<rparr>) =
      Inr (l0\<lparr>sl_stored := map (so_narrowed fl) ?objs\<rparr>, \<lparr>buf = r, good = True\<rparr>)"
    using sl_reads_back [OF assms(1), of r "l0\<lparr>sl_stored := []\<rparr>"] by auto
  let ?s = "stream_write [1] @ stream_write (writeU16 (of_nat (length ?objs))) @ t"
  have "sl_serialize fl l = (Inr ?s, l)"
    using assms(2) t(1) by (simp add: sl_serialize_def l1 Let_def sl_size_def)
  moreover have "on_stream readU8s \<lparr>buf = ?s @ r, good = True\<rparr> =
      Inr (1, \<lparr>buf = stream_write (writeU16 (of_nat (length ?objs))) @ t @ r, good = True\<rparr>)"
    by (intro on_stream_ok) (simp add: u8_codec.dec_enc)
  moreover have "on_stream readU16s \<lparr>buf = stream_write (writeU16 (of_nat (length ?objs))) @ t @ r, good = True\<rparr> =
      Inr (of_nat (length ?objs), \<lparr>buf = t @ r, good = True\<rparr>)"
    by (intro on_stream_ok) (simp add: u16_codec.dec_enc)
  ultimately show ?thesis
    using t(2) n by (simp add: sl_deSerialize_def)
qed

text \<open>
  An object that is too far out is counted but not written: with one such object the reader takes the
  bytes that follow the list for an object.
\<close>

lemma broken_object_counted:
  assumes "so_broken fl pos"
  shows "fst (sl_serialize fl \<lparr>sl_stored = [\<lparr>so_type = 7, so_pos = pos, so_data = []\<rparr>], sl_active = []\<rparr>) =
    Inr (stream_write [1] @ stream_write (writeU16 1))"
  using assms by (simp add: sl_serialize_def so_problematic_def so_serialize_def Let_def)

end
