(* ===== verification/NodeTimers.thy ===== *)
theory NodeTimers
  imports FloatFormat NodeMeta
begin

section \<open>Node timers\<close>

text \<open>
  \<^verbatim>\<open>src/nodetimer.h\<close> and \<^verbatim>\<open>nodetimer.cpp\<close>: the timers of the nodes of a map block. They are a
  \<^verbatim>\<open>std::multimap\<close> by the time at which they elapse, whose nodes have addresses here, and a
  \<^verbatim>\<open>std::map\<close> of iterators into it, which are those addresses. Times are floating-point numbers.
\<close>

unbundle bit_operations_syntax

subsection \<open>State and operations\<close>

record node_timer =
  t_timeout :: f32
  t_elapsed :: f32
  t_position :: v3

definition timer_new :: "v3 \<Rightarrow> node_timer" where
  "timer_new p = \<lparr>t_timeout = 0, t_elapsed = 0, t_position = p\<rparr>"

record timer_list =
  tm_timers :: "(nat \<times> f64 \<times> node_timer) list"
  tm_iterators :: "(v3 \<times> nat) list"
  tm_next_trigger_time :: f64
  tm_time :: f64
  tm_fresh :: nat

definition MINUS_ONE :: f64 where "MINUS_ONE = 0xBFF0000000000000"

definition timers_new :: timer_list where
  "timers_new = \<lparr>tm_timers = [], tm_iterators = [], tm_next_trigger_time = MINUS_ONE, tm_time = 0, tm_fresh = 0\<rparr>"

definition timers_get :: "float_ops \<Rightarrow> v3 \<Rightarrow> timer_list \<Rightarrow> node_timer res" where
  "timers_get fl p l =
     (case map_of (tm_iterators l) p of
        None \<Rightarrow> Inr (timer_new (mk_v3 0 0 0))
      | Some a \<Rightarrow>
          (case map_of (tm_timers l) a of
             None \<Rightarrow> Inl OutOfBounds
           | Some (k, t) \<Rightarrow>
               Inr (t\<lparr>t_elapsed := f64_to_f32 fl (f64_sub fl (f32_to_f64 fl (t_timeout t)) (f64_sub fl k (tm_time l)))\<rparr>)))"

definition next_trigger :: "(nat \<times> f64 \<times> node_timer) list \<Rightarrow> f64" where
  "next_trigger ts = (case ts of [] \<Rightarrow> MINUS_ONE | (_, k, _) # _ \<Rightarrow> k)"

definition timers_remove :: "float_ops \<Rightarrow> v3 \<Rightarrow> timer_list \<Rightarrow> timer_list res" where
  "timers_remove fl p l =
     (case map_of (tm_iterators l) p of
        None \<Rightarrow> Inr l
      | Some a \<Rightarrow>
          (case map_of (tm_timers l) a of
             None \<Rightarrow> Inl OutOfBounds
           | Some (removed_time, _) \<Rightarrow>
               (let l1 = l\<lparr>tm_timers := AList.delete a (tm_timers l), tm_iterators := AList.delete p (tm_iterators l)\<rparr>
                in Inr (if f64_eq fl removed_time (tm_next_trigger_time l1)
                        then l1\<lparr>tm_next_trigger_time := next_trigger (tm_timers l1)\<rparr> else l1))))"

text \<open>A new entry comes behind those that are not later.\<close>

definition multimap_emplace :: "float_ops \<Rightarrow> nat \<Rightarrow> f64 \<Rightarrow> node_timer \<Rightarrow> (nat \<times> f64 \<times> node_timer) list \<Rightarrow>
    (nat \<times> f64 \<times> node_timer) list" where
  "multimap_emplace fl a k t ts =
     (let earlier = (\<lambda>(_, j, _). \<not> f64_less fl k j) in takeWhile earlier ts @ (a, k, t) # dropWhile earlier ts)"

definition trigger_time :: "float_ops \<Rightarrow> node_timer \<Rightarrow> timer_list \<Rightarrow> f64" where
  "trigger_time fl t l = f64_add fl (tm_time l) (f32_to_f64 fl (f32_sub fl (t_timeout t) (t_elapsed t)))"

definition timers_insert :: "float_ops \<Rightarrow> node_timer \<Rightarrow> timer_list \<Rightarrow> timer_list" where
  "timers_insert fl t l =
     (let k = trigger_time fl t l; a = tm_fresh l
      in l\<lparr>tm_timers := multimap_emplace fl a k t (tm_timers l),
           tm_iterators := (if map_of (tm_iterators l) (t_position t) = None
                            then (t_position t, a) # tm_iterators l else tm_iterators l),
           tm_next_trigger_time :=
             (if f64_eq fl (tm_next_trigger_time l) MINUS_ONE \<or> f64_less fl k (tm_next_trigger_time l)
              then k else tm_next_trigger_time l),
           tm_fresh := a + 1\<rparr>)"

definition timers_set :: "float_ops \<Rightarrow> node_timer \<Rightarrow> timer_list \<Rightarrow> timer_list res" where
  "timers_set fl t l = rbind (timers_remove fl (t_position t) l) (\<lambda>l1. Inr (timers_insert fl t l1))"

definition timers_clear :: "timer_list \<Rightarrow> timer_list" where
  "timers_clear l = l\<lparr>tm_timers := [], tm_iterators := [], tm_next_trigger_time := MINUS_ONE\<rparr>"

definition timers_step :: "float_ops \<Rightarrow> f32 \<Rightarrow> timer_list \<Rightarrow> node_timer list \<times> timer_list" where
  "timers_step fl dtime l =
     (let now = f64_add fl (tm_time l) (f32_to_f64 fl dtime); l1 = l\<lparr>tm_time := now\<rparr>
      in if f64_eq fl (tm_next_trigger_time l1) MINUS_ONE \<or> f64_less fl now (tm_next_trigger_time l1) then ([], l1)
         else
           let due = (\<lambda>(_, k, _). f64_le fl k now);
               elapsed = takeWhile due (tm_timers l1);
               rest = dropWhile due (tm_timers l1)
           in (map (\<lambda>(_, k, t). t\<lparr>t_elapsed := f32_add fl (t_timeout t) (f64_to_f32 fl (f64_sub fl now k))\<rparr>) elapsed,
               l1\<lparr>tm_timers := rest,
                  tm_iterators := filter (\<lambda>(p, _). p \<notin> (\<lambda>(_, _, t). t_position t) ` set elapsed) (tm_iterators l1),
                  tm_next_trigger_time := next_trigger rest\<rparr>))"

subsection \<open>The stored form\<close>

definition timer_serialize :: "float_ops \<Rightarrow> node_timer \<Rightarrow> string" where
  "timer_serialize fl t = writeF1000 fl (t_timeout t) @ writeF1000 fl (t_elapsed t)"

definition timer_deSerialize :: "float_ops \<Rightarrow> istream \<Rightarrow> node_timer \<Rightarrow> (node_timer \<times> istream) res" where
  "timer_deSerialize fl is t =
     rbind (on_stream (readF1000 fl) is) (\<lambda>(timeout, is1).
     rbind (on_stream (readF1000 fl) is1) (\<lambda>(elapsed, is2).
       Inr (t\<lparr>t_timeout := timeout, t_elapsed := elapsed\<rparr>, is2)))"

definition write_timer :: "float_ops \<Rightarrow> f64 \<Rightarrow> f64 \<times> node_timer \<Rightarrow> string" where
  "write_timer fl now = (\<lambda>(k, t).
     let nt = t\<lparr>t_elapsed := f32_sub fl (t_timeout t) (f64_to_f32 fl (f64_sub fl k now))\<rparr>; p = t_position t
     in stream_write (writeU16 (word_of_int (vZ p * MAP_BLOCKSIZE * MAP_BLOCKSIZE + vY p * MAP_BLOCKSIZE + vX p))) @
        timer_serialize fl nt)"

definition timers_serialize :: "float_ops \<Rightarrow> u8 \<Rightarrow> timer_list \<Rightarrow> string" where
  "timers_serialize fl map_format_version l =
     (let count = stream_write (writeU16 (of_nat (length (tm_timers l))));
          body = concat (map (write_timer fl (tm_time l) \<circ> snd) (tm_timers l))
      in if map_format_version = 24 \<and> tm_timers l = [] then stream_write [0]
         else (if map_format_version = 24 then stream_write [1] @ count else []) @
              (if map_format_version \<ge> 25 then stream_write [2 + 4 + 4] @ count else []) @ body)"

definition read_timer_pos :: "u16 \<Rightarrow> v3" where
  "read_timer_pos p16 =
     (let z = p16 div 16 div 16; p1 = p16 AND 255; y = p1 div 16; p2 = p1 AND 15
      in mk_v3 (uint p2) (uint y) (uint z))"

definition timer_accept :: "float_ops \<Rightarrow> node_timer \<Rightarrow> timer_list \<Rightarrow> timer_list" where
  "timer_accept fl t l =
     (if f32_le fl (t_timeout t) 0 \<or> map_of (tm_iterators l) (t_position t) \<noteq> None then l
      else timers_insert fl t l)"

fun timers_read :: "float_ops \<Rightarrow> nat \<Rightarrow> istream \<Rightarrow> timer_list \<Rightarrow> (timer_list \<times> istream) res" where
  "timers_read fl 0 is l = Inr (l, is)"
| "timers_read fl (Suc n) is l =
     rbind (on_stream readU16s is) (\<lambda>(p16, is1).
     rbind (timer_deSerialize fl is1 (timer_new (read_timer_pos p16))) (\<lambda>(t, is2).
       timers_read fl n is2 (timer_accept fl t l)))"

definition timers_deSerialize :: "float_ops \<Rightarrow> u8 \<Rightarrow> istream \<Rightarrow> timer_list \<Rightarrow> (timer_list \<times> istream) res" where
  "timers_deSerialize fl map_format_version is l =
     (let l1 = timers_clear l;
          counted = (\<lambda>is. rbind (on_stream readU16s is) (\<lambda>(count, i). timers_read fl (unat count) i l1))
      in if map_format_version = 24 then
           rbind (on_stream readU8s is) (\<lambda>(timer_version, is1).
             if timer_version = 0 then Inr (l1, is1)
             else if timer_version \<noteq> 1 then Inl SerializationError
             else counted is1)
         else if map_format_version \<ge> 25 then
           rbind (on_stream readU8s is) (\<lambda>(timer_data_len, is1).
             if timer_data_len \<noteq> 2 + 4 + 4 then Inl SerializationError else counted is1)
         else counted is)"

subsection \<open>The order of the processor\<close>

text \<open>What is used of the comparison of numbers; a pattern that is not a number is not equal to itself.\<close>

definition is_number :: "float_ops \<Rightarrow> f64 \<Rightarrow> bool" where
  "is_number fl k \<longleftrightarrow> f64_eq fl k k"

definition float_order :: "float_ops \<Rightarrow> bool" where
  "float_order fl \<longleftrightarrow> is_number fl MINUS_ONE \<and>
     (\<forall>a b. is_number fl a \<longrightarrow> is_number fl b \<longrightarrow>
       (f64_le fl a b \<longleftrightarrow> \<not> f64_less fl b a) \<and> (f64_less fl a b \<longrightarrow> \<not> f64_less fl b a)) \<and>
     (\<forall>a b c. is_number fl a \<longrightarrow> is_number fl b \<longrightarrow> is_number fl c \<longrightarrow>
       \<not> f64_less fl a b \<longrightarrow> \<not> f64_less fl b c \<longrightarrow> \<not> f64_less fl a c)"

lemma float_order_rules:
  assumes "float_order fl"
  shows "f64_eq fl MINUS_ONE MINUS_ONE"
    and "is_number fl a \<Longrightarrow> is_number fl b \<Longrightarrow> f64_le fl a b \<longleftrightarrow> \<not> f64_less fl b a"
    and "is_number fl a \<Longrightarrow> is_number fl b \<Longrightarrow> f64_less fl a b \<Longrightarrow> \<not> f64_less fl b a"
    and "is_number fl a \<Longrightarrow> is_number fl b \<Longrightarrow> is_number fl c \<Longrightarrow> \<not> f64_less fl a b \<Longrightarrow> \<not> f64_less fl b c \<Longrightarrow>
      \<not> f64_less fl a c"
  using assms unfolding float_order_def is_number_def by blast+

text \<open>A time that can be told from the mark for no timer.\<close>

definition usable :: "float_ops \<Rightarrow> f64 \<Rightarrow> bool" where
  "usable fl k \<longleftrightarrow> is_number fl k \<and> \<not> f64_eq fl k MINUS_ONE"

subsection \<open>The invariant\<close>

definition tm_keys :: "timer_list \<Rightarrow> f64 list" where
  "tm_keys l = map (fst \<circ> snd) (tm_timers l)"

definition tm_link :: "nat \<times> f64 \<times> node_timer \<Rightarrow> v3 \<times> nat" where
  "tm_link = (\<lambda>(a, k, t). (t_position t, a))"

definition tm_due :: "nat \<times> f64 \<times> node_timer \<Rightarrow> v3 \<times> f64" where
  "tm_due = (\<lambda>(a, k, t). (t_position t, k))"

definition not_after :: "float_ops \<Rightarrow> f64 \<Rightarrow> f64 \<Rightarrow> bool" where
  "not_after fl a b \<longleftrightarrow> \<not> f64_less fl b a"

definition timers_wf :: "float_ops \<Rightarrow> timer_list \<Rightarrow> bool" where
  "timers_wf fl l \<longleftrightarrow> distinct (map fst (tm_timers l)) \<and> (\<forall>a \<in> fst ` set (tm_timers l). a < tm_fresh l) \<and>
     distinct (map (fst \<circ> tm_due) (tm_timers l)) \<and> map_of (tm_iterators l) = map_of (map tm_link (tm_timers l)) \<and>
     tm_next_trigger_time l = next_trigger (tm_timers l) \<and> list_all (usable fl) (tm_keys l) \<and>
     sorted_wrt (not_after fl) (tm_keys l)"

text \<open>The contents: when the timer of each position elapses.\<close>

definition pending :: "timer_list \<Rightarrow> v3 \<Rightarrow> f64 option" where
  "pending l = map_of (map tm_due (tm_timers l))"

lemma timers_new_wf: "timers_wf fl timers_new"
  by (simp add: timers_wf_def timers_new_def next_trigger_def tm_keys_def)

lemma timers_clear_wf: "timers_wf fl (timers_clear l)"
  by (simp add: timers_wf_def timers_clear_def next_trigger_def tm_keys_def)

lemma tm_sel [simp]:
  "fst (tm_link e) = t_position (snd (snd e))" "snd (tm_link e) = fst e"
  "fst (tm_due e) = t_position (snd (snd e))" "snd (tm_due e) = fst (snd e)"
  by (simp_all add: tm_link_def tm_due_def split: prod.split)

text \<open>Lists whose elements carry a key: taking elements out and putting one in.\<close>

lemma map_of_filter_key:
  assumes "distinct (map (fst \<circ> f) xs)"
  shows "map_of (map f (filter P xs)) k = Some v \<longleftrightarrow> (\<exists>x \<in> set xs. P x \<and> f x = (k, v))"
proof -
  have "distinct (map fst (map f (filter P xs)))"
    using assms unfolding map_map by (rule distinct_map_filter)
  then have "map_of (map f (filter P xs)) k = Some v \<longleftrightarrow> (k, v) \<in> f ` set (filter P xs)"
    by (simp add: map_of_eq_Some_iff)
  then show ?thesis by (auto simp: image_iff)
qed

lemma map_of_without_key:
  "map_of (map f (filter (\<lambda>x. fst (f x) \<noteq> k) xs)) = (map_of (map f xs))(k := None)"
proof (induction xs)
  case (Cons x xs)
  then show ?case by (cases "f x") (auto simp: fun_eq_iff)
qed simp

lemma map_of_put_in:
  assumes "fst (f x) \<notin> fst ` f ` set xs"
  shows "map_of (map f (xs @ x # ys)) = (map_of (map f (xs @ ys)))(fst (f x) \<mapsto> snd (f x))"
  using assms
proof (induction xs)
  case (Cons y xs)
  then show ?case by (cases "f y") (auto simp: fun_eq_iff)
qed (cases "f x", simp)

subsection \<open>Removing\<close>

lemma wf_address:
  assumes "timers_wf fl l" and "map_of (tm_iterators l) p = Some a"
  shows "\<exists>k t. map_of (tm_timers l) a = Some (k, t) \<and> t_position t = p"
proof -
  have "map_of (map tm_link (tm_timers l)) p = Some a"
    using assms by (simp add: timers_wf_def)
  then obtain k t where "(a, k, t) \<in> set (tm_timers l)" "t_position t = p"
    by (auto dest!: map_of_SomeD simp: tm_link_def)
  moreover have "distinct (map fst (tm_timers l))" using assms(1) by (simp add: timers_wf_def)
  ultimately show ?thesis by force
qed

lemma unlinked: "timers_wf fl l \<Longrightarrow> map_of (tm_iterators l) p = None \<longleftrightarrow> pending l p = None"
  unfolding timers_wf_def pending_def by (simp add: map_of_eq_None_iff image_image)

lemma same_position:
  "distinct (map (fst \<circ> tm_due) ts) \<Longrightarrow> e \<in> set ts \<Longrightarrow> e' \<in> set ts \<Longrightarrow> fst (tm_due e) = fst (tm_due e') \<Longrightarrow> e = e'"
  unfolding distinct_map by (metis inj_onD o_apply)

lemma delete_by_position:
  assumes "distinct (map fst ts)" and "distinct (map (fst \<circ> tm_due) ts)" and "map_of ts a = Some (k, t)"
  shows "AList.delete a ts = filter (\<lambda>e. fst (tm_due e) \<noteq> t_position t) ts"
proof -
  have m: "(a, k, t) \<in> set ts" using assms(3) by (rule map_of_SomeD)
  have "fst e = a \<longleftrightarrow> fst (tm_due e) = t_position t" if e: "e \<in> set ts" for e
  proof -
    have "fst e = fst (a, k, t) \<Longrightarrow> e = (a, k, t)"
      using assms(1) e m unfolding distinct_map by (metis inj_onD)
    moreover have "fst (tm_due e) = fst (tm_due (a, k, t)) \<Longrightarrow> e = (a, k, t)"
      by (rule same_position [OF assms(2) e m])
    ultimately show ?thesis by (cases "e = (a, k, t)") auto
  qed
  note same = this
  have "AList.delete a ts = filter (\<lambda>e. fst e \<noteq> a) ts"
    by (auto simp: AList.delete_eq intro: filter_cong)
  also have "\<dots> = filter (\<lambda>e. fst (tm_due e) \<noteq> t_position t) ts"
    by (rule filter_cong [OF refl]) (simp only: same)
  finally show ?thesis .
qed

lemma next_trigger_keys: "next_trigger ts = (case map (fst \<circ> snd) ts of [] \<Rightarrow> MINUS_ONE | k # _ \<Rightarrow> k)"
  by (cases ts) (auto simp: next_trigger_def)

lemma timers_remove_wf:
  assumes wf: "timers_wf fl l"
  shows "\<exists>l'. timers_remove fl p l = Inr l' \<and> timers_wf fl l' \<and> pending l' = (pending l)(p := None) \<and>
    tm_time l' = tm_time l"
proof (cases "map_of (tm_iterators l) p")
  case None
  then have "pending l p = None" using unlinked [OF wf] by simp
  then have "pending l = (pending l)(p := None)" by (simp add: fun_upd_idem)
  then show ?thesis using wf None by (simp add: timers_remove_def)
next
  case (Some a)
  let ?ts = "filter (\<lambda>e. fst (tm_due e) \<noteq> p) (tm_timers l)"
  obtain k t where t: "map_of (tm_timers l) a = Some (k, t)" "t_position t = p"
    using wf_address [OF wf Some] by blast
  have d: "distinct (map fst (tm_timers l))" "distinct (map (fst \<circ> tm_due) (tm_timers l))"
    using wf by (simp_all add: timers_wf_def)
  have del: "AList.delete a (tm_timers l) = ?ts"
    using delete_by_position [OF d t(1)] t(2) by simp
  let ?next = "if f64_eq fl k (tm_next_trigger_time l) then next_trigger ?ts else tm_next_trigger_time l"
  let ?l = "l\<lparr>tm_timers := ?ts, tm_iterators := AList.delete p (tm_iterators l), tm_next_trigger_time := ?next\<rparr>"
  have r: "timers_remove fl p l = Inr ?l"
    by (simp add: timers_remove_def Some t(1) del Let_def)
  have "?next = next_trigger ?ts"
  proof (cases "tm_timers l")
    case Nil
    then show ?thesis using t(1) by simp
  next
    case (Cons e es)
    have n: "tm_next_trigger_time l = fst (snd e)"
      using wf Cons by (cases e) (simp add: timers_wf_def next_trigger_def)
    show ?thesis
    proof (cases "fst (tm_due e) = p")
      case True
      then have "e = (a, k, t)"
        using same_position [OF d(2), of e "(a, k, t)"] map_of_SomeD [OF t(1)] t(2) Cons by simp
      moreover have "f64_eq fl k k"
        using wf map_of_SomeD [OF t(1)] by (force simp: timers_wf_def tm_keys_def list_all_iff usable_def is_number_def)
      ultimately show ?thesis using n by simp
    next
      case False
      then show ?thesis using n Cons by (cases e) (simp add: next_trigger_def)
    qed
  qed
  moreover have "map_of (AList.delete p (tm_iterators l)) = map_of (map tm_link ?ts)"
    using wf map_of_without_key [of tm_link p "tm_timers l"] unfolding timers_wf_def map_of_delete
    by simp
  moreover have "sorted_wrt (not_after fl) (tm_keys ?l)"
    using wf unfolding timers_wf_def tm_keys_def by (simp add: sorted_wrt_map sorted_wrt_filter)
  ultimately have "timers_wf fl ?l"
    using wf unfolding timers_wf_def by (auto simp: tm_keys_def list_all_iff distinct_map_filter)
  moreover have "pending ?l = (pending l)(p := None)"
    using map_of_without_key [of tm_due p "tm_timers l"] by (simp add: pending_def)
  ultimately show ?thesis using r by (intro exI [of _ ?l]) simp
qed

subsection \<open>Inserting\<close>

lemma takeWhile_all: "x \<in> set (takeWhile P xs) \<Longrightarrow> P x"
  by (drule set_takeWhileD) (rule conjunct2)

lemma sorted_between:
  "sorted_wrt R (map f (xs @ ys)) \<Longrightarrow> \<forall>e \<in> set xs. R (f e) (f x) \<Longrightarrow> \<forall>e \<in> set ys. R (f x) (f e) \<Longrightarrow>
    sorted_wrt R (map f (xs @ x # ys))"
  by (auto simp: sorted_wrt_append)

lemma distinct_put_in:
  "distinct (map f (xs @ ys)) \<Longrightarrow> f x \<notin> f ` set (xs @ ys) \<Longrightarrow> distinct (map f (xs @ x # ys))"
  by auto

lemma sorted_emplace:
  assumes o: "float_order fl" and s: "sorted_wrt (not_after fl) (map (fst \<circ> snd) ts)"
    and n: "list_all (is_number fl) (map (fst \<circ> snd) ts)" "is_number fl k"
  shows "sorted_wrt (not_after fl) (map (fst \<circ> snd) (multimap_emplace fl a k t ts))"
proof -
  let ?P = "\<lambda>(_, j, _). \<not> f64_less fl k j"
  let ?xs = "takeWhile ?P ts" and ?ys = "dropWhile ?P ts"
  have s2: "sorted_wrt (not_after fl) (map (fst \<circ> snd) (?xs @ ?ys))" using s by simp
  have num: "is_number fl (fst (snd e))" if "e \<in> set ts" for e
    using n(1) that by (auto simp: list_all_iff)
  have before: "not_after fl (fst (snd e)) k" if "e \<in> set ?xs" for e
    using takeWhile_all [OF that] by (auto simp: not_after_def)
  have after: "not_after fl k (fst (snd e))" if e: "e \<in> set ?ys" for e
  proof (cases ?ys)
    case (Cons y ys)
    have y: "f64_less fl k (fst (snd y))"
      using hd_dropWhile [of ?P ts] Cons by (auto split: prod.splits)
    have "y \<in> set ts" "e \<in> set ts"
      using e Cons by (metis list.set_intros(1) set_dropWhileD)+
    moreover have "\<not> f64_less fl (fst (snd e)) (fst (snd y))"
      using s2 e Cons y float_order_rules(3) [OF o] num [OF \<open>y \<in> set ts\<close>] n(2)
      by (auto simp: sorted_wrt_append not_after_def)
    ultimately show ?thesis
      using y float_order_rules(3,4) [OF o] num n(2) unfolding not_after_def by metis
  next
    case Nil
    then show ?thesis using e by (simp only: list.set empty_iff)
  qed
  show ?thesis
    unfolding multimap_emplace_def Let_def
    by (rule sorted_between [OF s2]) (use before after in \<open>simp_all only: o_apply fst_conv snd_conv\<close>, blast+)
qed

lemma next_trigger_emplace:
  "next_trigger (multimap_emplace fl a k t ts) =
    (if ts = [] \<or> f64_less fl k (next_trigger ts) then k else next_trigger ts)"
  by (cases ts) (auto simp: multimap_emplace_def next_trigger_def Let_def split: prod.split)

lemma emplace_split:
  "\<exists>xs ys. ts = xs @ ys \<and> multimap_emplace fl a k t ts = xs @ (a, k, t) # ys"
  unfolding multimap_emplace_def Let_def by (metis takeWhile_dropWhile_id)

lemma timers_insert_wf:
  assumes o: "float_order fl" and wf: "timers_wf fl l" and u: "usable fl (trigger_time fl t l)"
    and p: "pending l (t_position t) = None"
  shows "timers_wf fl (timers_insert fl t l) \<and>
    pending (timers_insert fl t l) = (pending l)(t_position t \<mapsto> trigger_time fl t l) \<and>
    tm_time (timers_insert fl t l) = tm_time l"
proof -
  let ?k = "trigger_time fl t l" and ?l = "timers_insert fl t l"
  obtain xs ys where ts: "tm_timers l = xs @ ys"
    and new: "multimap_emplace fl (tm_fresh l) ?k t (tm_timers l) = xs @ (tm_fresh l, ?k, t) # ys"
    using emplace_split [of "tm_timers l" fl "tm_fresh l" ?k t] by blast
  have new': "tm_timers ?l = xs @ (tm_fresh l, ?k, t) # ys"
    using new by (simp add: timers_insert_def Let_def)
  have none: "map_of (tm_iterators l) (t_position t) = None"
    using p unlinked [OF wf] by simp
  have fresh: "t_position t \<notin> (fst \<circ> tm_due) ` set (xs @ ys)"
    using p unfolding pending_def ts by (simp add: map_of_eq_None_iff image_image image_Un)
  have "\<forall>a \<in> fst ` set (tm_timers l). a < tm_fresh l" using wf by (simp add: timers_wf_def)
  then have below: "\<forall>a \<in> fst ` set (xs @ ys). a < tm_fresh l" unfolding ts .
  then have new_address: "tm_fresh l \<notin> fst ` set (xs @ ys)" by blast
  have "distinct (map fst (xs @ ys))" "distinct (map (fst \<circ> tm_due) (xs @ ys))"
    using wf unfolding timers_wf_def ts by simp_all
  then have d: "distinct (map fst (tm_timers ?l))" "distinct (map (fst \<circ> tm_due) (tm_timers ?l))"
    using new_address fresh unfolding new' by (intro distinct_put_in; simp)+
  have "map_of (map tm_link (xs @ (tm_fresh l, ?k, t) # ys)) = (map_of (map tm_link (xs @ ys)))(t_position t \<mapsto> tm_fresh l)"
    using map_of_put_in [of tm_link "(tm_fresh l, ?k, t)" xs ys] fresh by (auto simp: image_image)
  then have iters: "map_of (tm_iterators ?l) = map_of (map tm_link (tm_timers ?l))"
    unfolding new' using wf none by (simp add: timers_insert_def timers_wf_def ts Let_def)
  have eq: "tm_next_trigger_time l = next_trigger (tm_timers l)" and us: "list_all (usable fl) (tm_keys l)"
    using wf by (simp_all add: timers_wf_def)
  have "f64_eq fl (next_trigger (tm_timers l)) MINUS_ONE \<longleftrightarrow> tm_timers l = []"
    using us float_order_rules(1) [OF o] by (cases "tm_timers l") (auto simp: next_trigger_def tm_keys_def usable_def)
  then have nt: "tm_next_trigger_time ?l = next_trigger (tm_timers ?l)"
    by (simp add: timers_insert_def next_trigger_emplace eq Let_def)
  have keys: "list_all (usable fl) (tm_keys ?l)"
    using us u unfolding tm_keys_def new' ts by simp
  have "sorted_wrt (not_after fl) (tm_keys ?l)"
    using sorted_emplace [OF o, of "tm_timers l" ?k "tm_fresh l" t] wf us u
    unfolding tm_keys_def timers_wf_def new' new [symmetric]
    by (auto simp: usable_def list_all_iff)
  moreover have "\<forall>a \<in> fst ` set (tm_timers ?l). a < tm_fresh ?l"
  proof -
    have "fst ` set (tm_timers ?l) = insert (tm_fresh l) (fst ` set (xs @ ys))" unfolding new' by auto
    moreover have "tm_fresh ?l = Suc (tm_fresh l)" by (simp add: timers_insert_def Let_def)
    ultimately show ?thesis using below by (metis insert_iff less_Suc_eq)
  qed
  ultimately have "timers_wf fl ?l"
    unfolding timers_wf_def using d iters nt keys by blast
  moreover have "pending ?l = (pending l)(t_position t \<mapsto> ?k)"
    using map_of_put_in [of tm_due "(tm_fresh l, ?k, t)" xs ys] fresh
    unfolding pending_def new' ts by (simp add: image_image image_Un)
  ultimately show ?thesis by (simp add: timers_insert_def Let_def)
qed

lemma timers_set_wf:
  assumes "float_order fl" and "timers_wf fl l" and "usable fl (trigger_time fl t l)"
  shows "\<exists>l'. timers_set fl t l = Inr l' \<and> timers_wf fl l' \<and>
    pending l' = (pending l)(t_position t \<mapsto> trigger_time fl t l) \<and> tm_time l' = tm_time l"
proof -
  obtain l1 where l1: "timers_remove fl (t_position t) l = Inr l1" "timers_wf fl l1"
    "pending l1 = (pending l)(t_position t := None)" "tm_time l1 = tm_time l"
    using timers_remove_wf [OF assms(2)] by blast
  have k: "trigger_time fl t l1 = trigger_time fl t l" by (simp add: trigger_time_def l1(4))
  show ?thesis
    using timers_insert_wf [OF assms(1) l1(2), of t] assms(3) l1 k by (simp add: timers_set_def)
qed

subsection \<open>Time passing\<close>

lemma sorted_prefix:
  assumes "sorted_wrt (not_after fl) (map (fst \<circ> snd) ts)"
    and "\<And>a b. a \<in> set ts \<Longrightarrow> b \<in> set ts \<Longrightarrow> not_after fl (fst (snd a)) (fst (snd b)) \<Longrightarrow> P b \<Longrightarrow> P a"
  shows "takeWhile P ts = filter P ts \<and> dropWhile P ts = filter (\<lambda>e. \<not> P e) ts"
  using assms
proof (induction ts)
  case (Cons e ts)
  have IH: "takeWhile P ts = filter P ts \<and> dropWhile P ts = filter (\<lambda>e. \<not> P e) ts"
  proof (rule Cons.IH)
    show "sorted_wrt (not_after fl) (map (fst \<circ> snd) ts)" using Cons.prems(1) by (simp add: comp_def)
    show "P a" if "a \<in> set ts" "b \<in> set ts" "not_after fl (fst (snd a)) (fst (snd b))" "P b" for a b
      using Cons.prems(2) [of a b] that by simp
  qed
  show ?case
  proof (cases "P e")
    case False
    have "\<not> P b" if "b \<in> set ts" for b
      using Cons.prems(1) Cons.prems(2) [of e b] that False by auto
    then have "filter P ts = []" "filter (\<lambda>e. \<not> P e) ts = ts" by (simp_all add: filter_empty_conv)
    then show ?thesis using False by simp
  qed (use IH in simp)
qed simp

lemma fst_tm_link: "fst \<circ> tm_link = fst \<circ> tm_due"
  by (simp add: fun_eq_iff)

lemma map_of_outside: "map_of (filter (\<lambda>(p, _). p \<notin> S) xs) q = (if q \<in> S then None else map_of xs q)"
  by (induction xs) auto

lemma map_of_rest:
  "distinct (map (fst \<circ> f) xs) \<Longrightarrow> map_of (map f (filter (\<lambda>e. \<not> P e) xs)) q =
    (if q \<in> (fst \<circ> f) ` set (filter P xs) then None else map_of (map f xs) q)"
proof (induction xs)
  case (Cons x xs)
  obtain p v where x: "f x = (p, v)" by (cases "f x")
  have p: "p \<notin> (fst \<circ> f) ` set xs" using Cons.prems x by auto
  have IH: "map_of (map f (filter (\<lambda>e. \<not> P e) xs)) q =
      (if q \<in> (fst \<circ> f) ` set (filter P xs) then None else map_of (map f xs) q)"
    using Cons by simp
  have "q = p \<Longrightarrow> q \<notin> (fst \<circ> f) ` set (filter P xs) \<and> map_of (map f xs) q = None"
    using p by (auto simp: map_of_eq_None_iff)
  then show ?case using IH x by (cases "P x") auto
qed simp

text \<open>The timers that have elapsed at a time, and those that have not.\<close>

definition elapsed_at :: "float_ops \<Rightarrow> f64 \<Rightarrow> nat \<times> f64 \<times> node_timer \<Rightarrow> bool" where
  "elapsed_at fl now e \<longleftrightarrow> f64_le fl (fst (snd e)) now"

lemma elapsed_at_case: "(\<lambda>(a, k, t). f64_le fl k now) = elapsed_at fl now"
  by (auto simp: elapsed_at_def)

lemma elapsed_prefix:
  assumes o: "float_order fl" and wf: "timers_wf fl l" and now: "is_number fl now"
  shows "takeWhile (elapsed_at fl now) (tm_timers l) = filter (elapsed_at fl now) (tm_timers l) \<and>
    dropWhile (elapsed_at fl now) (tm_timers l) = filter (\<lambda>e. \<not> elapsed_at fl now e) (tm_timers l)"
proof (rule sorted_prefix)
  show "sorted_wrt (not_after fl) (map (fst \<circ> snd) (tm_timers l))"
    using wf by (simp add: timers_wf_def tm_keys_def)
  have num: "is_number fl (fst (snd e))" if "e \<in> set (tm_timers l)" for e
    using wf that by (force simp: timers_wf_def tm_keys_def list_all_iff usable_def)
  fix a b
  assume ab: "a \<in> set (tm_timers l)" "b \<in> set (tm_timers l)" "not_after fl (fst (snd a)) (fst (snd b))"
    "elapsed_at fl now b"
  then have "\<not> f64_less fl now (fst (snd b))" "\<not> f64_less fl (fst (snd b)) (fst (snd a))"
    using float_order_rules(2) [OF o] num now by (auto simp: elapsed_at_def not_after_def)
  then have "\<not> f64_less fl now (fst (snd a))"
    using float_order_rules(4) [OF o] num ab(1,2) now by blast
  then show "elapsed_at fl now a"
    using float_order_rules(2) [OF o] num ab(1) now by (simp add: elapsed_at_def)
qed

definition now_after :: "float_ops \<Rightarrow> f32 \<Rightarrow> timer_list \<Rightarrow> f64" where
  "now_after fl dtime l = f64_add fl (tm_time l) (f32_to_f64 fl dtime)"

text \<open>Nothing has elapsed when the step returns early.\<close>

lemma early_return:
  assumes o: "float_order fl" and wf: "timers_wf fl l" and now: "is_number fl now"
    and e: "f64_eq fl (tm_next_trigger_time l) MINUS_ONE \<or> f64_less fl now (tm_next_trigger_time l)"
  shows "filter (elapsed_at fl now) (tm_timers l) = []"
proof (cases "tm_timers l")
  case (Cons x xs)
  have n: "tm_next_trigger_time l = fst (snd x)" and u: "usable fl (fst (snd x))"
    using wf Cons by (cases x; simp add: timers_wf_def next_trigger_def tm_keys_def)+
  then have "f64_less fl now (fst (snd x))" using e by (simp add: usable_def)
  then have "\<not> elapsed_at fl now x"
    using float_order_rules(2) [OF o] u now by (simp add: elapsed_at_def usable_def)
  then show ?thesis
    using elapsed_prefix [OF o wf now] Cons by simp
qed simp

lemma timers_step_wf:
  assumes o: "float_order fl" and wf: "timers_wf fl l" and now: "is_number fl (now_after fl dtime l)"
  shows "\<exists>l'. timers_step fl dtime l =
      (map (\<lambda>(a, k, t). t\<lparr>t_elapsed := f32_add fl (t_timeout t) (f64_to_f32 fl (f64_sub fl (now_after fl dtime l) k))\<rparr>)
         (filter (elapsed_at fl (now_after fl dtime l)) (tm_timers l)), l') \<and>
    timers_wf fl l' \<and> tm_timers l' = filter (\<lambda>e. \<not> elapsed_at fl (now_after fl dtime l) e) (tm_timers l) \<and>
    tm_time l' = now_after fl dtime l"
proof -
  let ?now = "now_after fl dtime l"
  let ?due = "filter (elapsed_at fl ?now) (tm_timers l)" and ?rest = "filter (\<lambda>e. \<not> elapsed_at fl ?now e) (tm_timers l)"
  show ?thesis
  proof (cases "f64_eq fl (tm_next_trigger_time l) MINUS_ONE \<or> f64_less fl ?now (tm_next_trigger_time l)")
    case True
    have none: "?due = []" by (rule early_return [OF o wf now True])
    then have "?rest = tm_timers l" by (simp add: filter_empty_conv)
    moreover have "timers_step fl dtime l = ([], l\<lparr>tm_time := ?now\<rparr>)"
      using True by (simp add: timers_step_def Let_def flip: now_after_def)
    moreover have "timers_wf fl (l\<lparr>tm_time := ?now\<rparr>)"
      using wf by (simp add: timers_wf_def tm_keys_def)
    ultimately show ?thesis using none by simp
  next
    case False
    let ?iters = "filter (\<lambda>(p, _). p \<notin> (\<lambda>(_, _, t). t_position t) ` set ?due) (tm_iterators l)"
    let ?l = "l\<lparr>tm_time := ?now, tm_timers := ?rest, tm_iterators := ?iters, tm_next_trigger_time := next_trigger ?rest\<rparr>"
    have step: "timers_step fl dtime l =
        (map (\<lambda>(a, k, t). t\<lparr>t_elapsed := f32_add fl (t_timeout t) (f64_to_f32 fl (f64_sub fl ?now k))\<rparr>) ?due, ?l)"
      unfolding timers_step_def Let_def now_after_def [symmetric] elapsed_at_case
      using False elapsed_prefix [OF o wf now] by simp
    have d: "distinct (map (fst \<circ> tm_due) (tm_timers l))" using wf by (simp add: timers_wf_def)
    have due: "(\<lambda>(_, _, t). t_position t) ` set ?due = (fst \<circ> tm_link) ` set ?due"
      by (intro image_cong) auto
    have "map_of ?iters = map_of (map tm_link ?rest)"
      unfolding due using wf map_of_rest [of tm_link "tm_timers l" "elapsed_at fl ?now"] d
      by (auto simp: fun_eq_iff map_of_outside timers_wf_def fst_tm_link)
    moreover have "sorted_wrt (not_after fl) (map (fst \<circ> snd) ?rest)"
      using wf by (simp add: timers_wf_def tm_keys_def sorted_wrt_map sorted_wrt_filter)
    moreover have "distinct (map fst ?rest)" "distinct (map (fst \<circ> tm_due) ?rest)"
      using wf by (simp_all only: timers_wf_def distinct_map_filter)
    ultimately have "timers_wf fl ?l"
      using wf by (simp add: timers_wf_def tm_keys_def list_all_iff)
    then show ?thesis using step by (intro exI [of _ ?l]) simp
  qed
qed

subsection \<open>The timers as a map from positions to times\<close>

inductive timers_reachable :: "float_ops \<Rightarrow> timer_list \<Rightarrow> bool" for fl where
  fresh: "timers_reachable fl timers_new"
| cleared: "timers_reachable fl l \<Longrightarrow> timers_reachable fl (timers_clear l)"
| removed: "timers_reachable fl l \<Longrightarrow> timers_remove fl p l = Inr l' \<Longrightarrow> timers_reachable fl l'"
| set: "timers_reachable fl l \<Longrightarrow> usable fl (trigger_time fl t l) \<Longrightarrow> timers_set fl t l = Inr l' \<Longrightarrow>
    timers_reachable fl l'"
| accepted: "timers_reachable fl l \<Longrightarrow> usable fl (trigger_time fl t l) \<Longrightarrow> timers_reachable fl (timer_accept fl t l)"
| stepped: "timers_reachable fl l \<Longrightarrow> is_number fl (now_after fl dtime l) \<Longrightarrow>
    timers_reachable fl (snd (timers_step fl dtime l))"

lemma timer_accept_wf:
  assumes "float_order fl" and "timers_wf fl l" and "usable fl (trigger_time fl t l)"
  shows "timers_wf fl (timer_accept fl t l)"
  using timers_insert_wf [OF assms] assms(2) unlinked [OF assms(2)] by (auto simp: timer_accept_def)

lemma timers_reachable_wf:
  assumes o: "float_order fl"
  shows "timers_reachable fl l \<Longrightarrow> timers_wf fl l"
proof (induction rule: timers_reachable.induct)
  case (removed l p l')
  then show ?case using timers_remove_wf [of fl l p] by auto
next
  case (set l t l')
  then show ?case using timers_set_wf [OF o, of l t] by auto
next
  case (stepped l dtime)
  then show ?case using timers_step_wf [OF o, of l dtime] by auto
qed (simp_all add: timers_new_wf timers_clear_wf timer_accept_wf [OF o])

lemma pending_filter:
  assumes "distinct (map (fst \<circ> tm_due) (tm_timers l))"
    and "tm_timers l' = filter (\<lambda>e. \<not> elapsed_at fl now e) (tm_timers l)"
  shows "pending l' = (\<lambda>p. case pending l p of Some k \<Rightarrow> if f64_le fl k now then None else Some k | None \<Rightarrow> None)"
proof
  fix p
  have iff: "pending l p = Some k \<longleftrightarrow> (\<exists>e \<in> set (tm_timers l). tm_due e = (p, k))" for k
    using map_of_filter_key [OF assms(1), of "\<lambda>_. True"] by (simp add: pending_def)
  have iff': "pending l' p = Some k \<longleftrightarrow> (\<exists>e \<in> set (tm_timers l). \<not> elapsed_at fl now e \<and> tm_due e = (p, k))" for k
    unfolding pending_def assms(2) by (rule map_of_filter_key [OF assms(1)])
  have el: "elapsed_at fl now e \<longleftrightarrow> f64_le fl (snd (tm_due e)) now" for e by (simp add: elapsed_at_def)
  have "pending l' p = Some k \<longleftrightarrow> pending l p = Some k \<and> \<not> f64_le fl k now" for k
    unfolding iff iff' el by (metis snd_conv)
  note main = this
  have ext: "(\<And>k. u = Some k \<longleftrightarrow> v = Some k) \<Longrightarrow> u = v" for u v :: "f64 option"
    by (cases u; cases v) auto
  show "pending l' p = (case pending l p of Some k \<Rightarrow> if f64_le fl k now then None else Some k | None \<Rightarrow> None)"
    by (rule ext) (auto simp: main split: option.split)
qed


lemma plain_float_order: "float_order plain_floats"
  unfolding float_order_def is_number_def plain_floats_def by auto

definition example_timer :: node_timer where
  "example_timer = \<lparr>t_timeout = 5, t_elapsed = 0, t_position = mk_v3 1 2 3\<rparr>"

definition example_timers :: timer_list where
  "example_timers = timer_accept plain_floats example_timer timers_new"

lemma example_timers_reachable: "timers_reachable plain_floats example_timers"
  unfolding example_timers_def
  by (rule timers_reachable.accepted [OF timers_reachable.fresh])
    (simp add: usable_def is_number_def plain_floats_def trigger_time_def timers_new_def example_timer_def MINUS_ONE_def)


subsection \<open>Reading back the timers\<close>

lemma and_255: "uint (w AND 255 :: u16) = uint w mod 256"
proof -
  have "(255 :: u16) = mask 8" by (simp add: mask_eq_exp_minus_1)
  then have "w AND 255 = take_bit 8 w" by (simp only: take_bit_eq_mask)
  then show ?thesis by (simp add: take_bit_eq_mod uint_mod)
qed

lemma read_timer_pos_word:
  assumes "in_block p"
  shows "read_timer_pos (word_of_int (vZ p * MAP_BLOCKSIZE * MAP_BLOCKSIZE + vY p * MAP_BLOCKSIZE + vX p)) = p"
proof -
  obtain k j where k: "k = vZ p * 16 * 16 + vY p * 16 + vX p" and j: "j = vY p * 16 + vX p" by blast
  have b: "0 \<le> vX p" "vX p < 16" "0 \<le> vY p" "vY p < 16" "0 \<le> vZ p" "vZ p < 16"
    using assms by (simp_all add: in_block_def v3_in_def)
  have "0 \<le> k" using b by (simp add: k)
  moreover have "k \<le> 15 * 16 * 16 + 15 * 16 + 15"
    unfolding k using b by (intro add_mono mult_right_mono) simp_all
  ultimately have u: "uint (word_of_int k :: u16) = k" by (intro uint_of_u16) simp_all
  have kj: "k = (vZ p * 16 + vY p) * 16 + vX p" by (simp add: k)
  have k2: "k = vZ p * 256 + j" by (simp add: k j)
  have "0 \<le> j" "j < 256" using b by (simp_all add: j)
  then have "k mod 256 = j" by (simp add: k2)
  moreover have "k div 16 div 16 = vZ p"
    unfolding kj using low_digit [OF b(1,2)] low_digit [OF b(3,4)] by metis
  moreover have "j div 16 = vY p" "j mod 16 = vX p"
    unfolding j using low_digit [OF b(1,2)] by blast+
  ultimately have "read_timer_pos (word_of_int k) = p"
    by (simp add: read_timer_pos_def Let_def and_15 and_255 uint_div_16 u)
  then show ?thesis by (simp only: k MAP_BLOCKSIZE_def)
qed

text \<open>What the reader makes of a timer: its times in whole thousandths.\<close>

definition timer_as_read :: "float_ops \<Rightarrow> f64 \<Rightarrow> f64 \<times> node_timer \<Rightarrow> node_timer" where
  "timer_as_read fl now = (\<lambda>(k, t).
     t\<lparr>t_timeout := f32_thousandths fl (f1000_value fl (t_timeout t)),
       t_elapsed := f32_thousandths fl (f1000_value fl (f32_sub fl (t_timeout t) (f64_to_f32 fl (f64_sub fl k now))))\<rparr>)"

definition in_s32 :: "int \<Rightarrow> bool" where "in_s32 i \<longleftrightarrow> - (2 ^ 31) \<le> i \<and> i < 2 ^ 31"

definition timer_storable :: "float_ops \<Rightarrow> f64 \<Rightarrow> f64 \<times> node_timer \<Rightarrow> bool" where
  "timer_storable fl now = (\<lambda>(k, t). in_block (t_position t) \<and> in_s32 (f1000_value fl (t_timeout t)) \<and>
     in_s32 (f1000_value fl (f32_sub fl (t_timeout t) (f64_to_f32 fl (f64_sub fl k now)))))"

lemma timer_reads_back:
  assumes "timer_storable fl now kt"
  shows "timers_read fl (Suc n) \<lparr>buf = write_timer fl now kt @ r, good = True\<rparr> l =
    timers_read fl n \<lparr>buf = r, good = True\<rparr> (timer_accept fl (timer_as_read fl now kt) l)"
proof -
  obtain k t where kt: "kt = (k, t)" by (cases kt)
  let ?e = "f32_sub fl (t_timeout t) (f64_to_f32 fl (f64_sub fl k now))"
  obtain w where w: "w = (word_of_int (vZ (t_position t) * MAP_BLOCKSIZE * MAP_BLOCKSIZE +
      vY (t_position t) * MAP_BLOCKSIZE + vX (t_position t)) :: u16)" by blast
  have pos: "read_timer_pos w = t_position t"
    unfolding w using assms by (intro read_timer_pos_word) (simp add: kt timer_storable_def)
  have rng: "in_s32 (f1000_value fl (t_timeout t))" "in_s32 (f1000_value fl ?e)"
    using assms by (simp_all add: kt timer_storable_def)
  have s: "write_timer fl now kt = stream_write (writeU16 w) @ writeF1000 fl (t_timeout t) @ writeF1000 fl ?e"
    by (simp add: write_timer_def kt timer_serialize_def Let_def w)
  have r1: "on_stream readU16s \<lparr>buf = write_timer fl now kt @ r, good = True\<rparr> =
      Inr (w, \<lparr>buf = writeF1000 fl (t_timeout t) @ writeF1000 fl ?e @ r, good = True\<rparr>)"
    unfolding s by (intro on_stream_ok) (simp add: u16_codec.dec_enc)
  have rd: "on_stream (readF1000 fl) \<lparr>buf = writeF1000 fl x @ q, good = True\<rparr> =
      Inr (f32_thousandths fl (f1000_value fl x), \<lparr>buf = q, good = True\<rparr>)" if "in_s32 (f1000_value fl x)" for x q
    using that readF1000_writeF1000 [of fl x q] by (intro on_stream_ok) (simp add: in_s32_def)
  have "timer_deSerialize fl \<lparr>buf = writeF1000 fl (t_timeout t) @ writeF1000 fl ?e @ r, good = True\<rparr>
      (timer_new (read_timer_pos w)) = Inr (timer_as_read fl now kt, \<lparr>buf = r, good = True\<rparr>)"
    by (simp add: timer_deSerialize_def rd rng kt timer_as_read_def timer_new_def pos)
  then show ?thesis by (simp add: r1)
qed

lemma timers_read_back:
  "list_all (timer_storable fl now) kts \<Longrightarrow>
    timers_read fl (length kts) \<lparr>buf = concat (map (write_timer fl now) kts) @ r, good = True\<rparr> l =
      Inr (fold (timer_accept fl) (map (timer_as_read fl now) kts) l, \<lparr>buf = r, good = True\<rparr>)"
proof (induction kts arbitrary: l)
  case (Cons kt kts)
  have "timers_read fl (Suc (length kts)) \<lparr>buf = write_timer fl now kt @ concat (map (write_timer fl now) kts) @ r, good = True\<rparr> l =
      timers_read fl (length kts) \<lparr>buf = concat (map (write_timer fl now) kts) @ r, good = True\<rparr>
        (timer_accept fl (timer_as_read fl now kt) l)"
    using Cons.prems by (intro timer_reads_back) simp
  then show ?case using Cons by simp
qed simp

definition timers_as_read :: "float_ops \<Rightarrow> timer_list \<Rightarrow> timer_list \<Rightarrow> timer_list" where
  "timers_as_read fl l l0 =
     fold (timer_accept fl) (map (timer_as_read fl (tm_time l) \<circ> snd) (tm_timers l)) (timers_clear l0)"

lemma timers_roundtrip:
  assumes "list_all (timer_storable fl (tm_time l)) (map snd (tm_timers l))" and "length (tm_timers l) < 65536"
    and "version \<ge> 25"
  shows "timers_deSerialize fl version \<lparr>buf = timers_serialize fl version l @ r, good = True\<rparr> l0 =
    Inr (timers_as_read fl l l0, \<lparr>buf = r, good = True\<rparr>)"
proof -
  obtain n body where n: "n = length (tm_timers l)"
    and body: "body = concat (map (write_timer fl (tm_time l)) (map snd (tm_timers l)))" by blast
  have nv: "version \<noteq> 24" using assms(3) by auto
  have u: "unat (of_nat n :: u16) = n"
    unfolding unat_of_nat_u16 using assms(2) n by simp
  have s: "timers_serialize fl version l = stream_write [10] @ stream_write (writeU16 (of_nat n)) @ body"
    using nv assms(3) by (simp add: timers_serialize_def Let_def n body comp_def)
  have r1: "on_stream readU8s \<lparr>buf = timers_serialize fl version l @ r, good = True\<rparr> =
      Inr (10, \<lparr>buf = stream_write (writeU16 (of_nat n)) @ body @ r, good = True\<rparr>)"
    unfolding s by (intro on_stream_ok) (simp add: u8_codec.dec_enc)
  have r2: "on_stream readU16s \<lparr>buf = stream_write (writeU16 (of_nat n)) @ body @ r, good = True\<rparr> =
      Inr (of_nat n, \<lparr>buf = body @ r, good = True\<rparr>)"
    by (intro on_stream_ok) (simp add: u16_codec.dec_enc)
  have "timers_read fl n \<lparr>buf = body @ r, good = True\<rparr> (timers_clear l0) =
      Inr (timers_as_read fl l l0, \<lparr>buf = r, good = True\<rparr>)"
    using timers_read_back [OF assms(1), of r "timers_clear l0"] by (simp add: n body timers_as_read_def comp_def)
  then show ?thesis
    using assms(3) nv by (simp add: timers_deSerialize_def r1 r2 u Let_def)
qed

end
