(* ===== verification/MapBlock.thy ===== *)
theory MapBlock
  imports BlockIds NodeStorage StaticObjects NodeTimers
begin

section \<open>Map blocks\<close>

text \<open>
  \<^verbatim>\<open>MapBlock\<close> of \<^verbatim>\<open>src/mapblock.h\<close> and \<^verbatim>\<open>mapblock.cpp\<close>: 16 nodes in each direction, with their
  metadata, objects and timers. A block of one kind of node holds that node once, a mono block. The
  locks make each operation atomic; meshes and the triggers of block modifiers are not part of the
  state.
\<close>

unbundle bit_operations_syntax

subsection \<open>State\<close>

definition nodecount :: nat where "nodecount = 4096"
definition BLOCK_TIMESTAMP_UNDEFINED :: u32 where "BLOCK_TIMESTAMP_UNDEFINED = 0xFFFFFFFF"

definition MOD_STATE_CLEAN :: u16 where "MOD_STATE_CLEAN = 0"
definition MOD_STATE_WRITE_AT_UNLOAD :: u16 where "MOD_STATE_WRITE_AT_UNLOAD = 2"
definition MOD_STATE_WRITE_NEEDED :: u16 where "MOD_STATE_WRITE_NEEDED = 4"

record map_block =
  mb_data :: "map_node list"
  mb_is_mono :: bool
  mb_is_client :: bool
  mb_is_underground :: bool
  mb_lighting_complete :: u16
  mb_generated :: bool
  mb_is_air :: bool
  mb_is_air_expired :: bool
  mb_modified :: u16
  mb_modified_reason :: u32
  mb_timestamp :: u32
  mb_disk_timestamp :: u32
  mb_changed_timestamp :: u32
  mb_contents :: "u16 list"
  mb_light_points :: "(v3 \<times> u32) list"
  mb_metadata :: meta_list
  mb_objects :: static_list
  mb_timers :: timer_list

subsection \<open>Nodes\<close>

definition mb_reallocate :: "nat \<Rightarrow> map_node \<Rightarrow> map_block \<Rightarrow> map_block res" where
  "mb_reallocate count n b =
     (if \<not> (count = 1 \<or> count = nodecount) \<or> (mb_is_client b \<and> count \<noteq> nodecount) then Inl AssertFailed
      else Inr (b\<lparr>mb_data := replicate count n, mb_is_mono := (count = 1)\<rparr>))"

definition mb_new :: "bool \<Rightarrow> map_block res" where
  "mb_new is_client = mb_reallocate nodecount (node_new CONTENT_IGNORE)
     \<lparr>mb_data = [], mb_is_mono = False, mb_is_client = is_client, mb_is_underground = False,
      mb_lighting_complete = 0xFFFF, mb_generated = False, mb_is_air = False, mb_is_air_expired = True,
      mb_modified = MOD_STATE_CLEAN, mb_modified_reason = 0, mb_timestamp = BLOCK_TIMESTAMP_UNDEFINED,
      mb_disk_timestamp = BLOCK_TIMESTAMP_UNDEFINED, mb_changed_timestamp = 0, mb_contents = [],
      mb_light_points = [], mb_metadata = \<lparr>ml_owner = True, ml_data = []\<rparr>, mb_objects = sl_new,
      mb_timers = timers_new\<rparr>"

definition mb_first :: "map_block \<Rightarrow> map_node res" where
  "mb_first b = (case mb_data b of [] \<Rightarrow> Inl OutOfBounds | n # _ \<Rightarrow> Inr n)"

definition tryShrinkNodes :: "map_block \<Rightarrow> map_block res" where
  "tryShrinkNodes b =
     (if mb_is_client b \<or> mb_is_mono b then Inr b
      else rbind (mb_first b) (\<lambda>n.
        if list_all (\<lambda>m. m = n) (tl (mb_data b)) then
          rbind (mb_reallocate 1 n b) (\<lambda>b1.
            Inr (b1\<lparr>mb_is_air := (getContent n = CONTENT_AIR), mb_is_air_expired := False\<rparr>))
        else Inr b))"

definition expandNodesIfNeeded :: "map_block \<Rightarrow> map_block res" where
  "expandNodesIfNeeded b = (if mb_is_mono b then rbind (mb_first b) (\<lambda>n. mb_reallocate nodecount n b) else Inr b)"

text \<open>The index is computed in unsigned 32-bit arithmetic, from a position that only some operations check.\<close>

definition node_index :: "v3 \<Rightarrow> u32" where
  "node_index p = word_of_int (vZ p) * 256 + word_of_int (vY p) * 16 + word_of_int (vX p)"

definition isValidPosition :: "v3 \<Rightarrow> bool" where
  "isValidPosition p \<longleftrightarrow> to_s16 (vX p) \<ge> 0 \<and> to_s16 (vX p) < MAP_BLOCKSIZE \<and> to_s16 (vY p) \<ge> 0 \<and> to_s16 (vY p) < MAP_BLOCKSIZE \<and>
     to_s16 (vZ p) \<ge> 0 \<and> to_s16 (vZ p) < MAP_BLOCKSIZE"

definition getNodeNoLock :: "v3 \<Rightarrow> map_block \<Rightarrow> map_node res" where
  "getNodeNoLock p b =
     (let i = (if mb_is_mono b then 0 else unat (node_index p))
      in if i < length (mb_data b) then Inr (mb_data b ! i) else Inl OutOfBounds)"

definition mb_getNode :: "v3 \<Rightarrow> map_block \<Rightarrow> (map_node \<times> bool) res" where
  "mb_getNode p b =
     (if \<not> isValidPosition p then Inr (node_new CONTENT_IGNORE, False)
      else rbind (getNodeNoLock p b) (\<lambda>n. Inr (n, True)))"

definition mb_write :: "v3 \<Rightarrow> map_node \<Rightarrow> map_block \<Rightarrow> map_block res" where
  "mb_write p n b =
     (let i = unat (node_index p)
      in if i < length (mb_data b) then Inr (b\<lparr>mb_data := (mb_data b)[i := n]\<rparr>) else Inl OutOfBounds)"

subsection \<open>Modification\<close>

text \<open>
  The first form also resets the flags of complete lighting. What it sees of the world are the setting
  \<^verbatim>\<open>save_changed_block\<close> and the time.
\<close>

record block_env =
  be_save_changed_block :: bool
  be_time_life :: u32

definition raiseModified_light :: "block_env \<Rightarrow> u16 \<Rightarrow> bool \<Rightarrow> bool \<Rightarrow> map_block \<Rightarrow> map_block" where
  "raiseModified_light env m light important b =
     (let b1 = (if m \<ge> MOD_STATE_WRITE_NEEDED then b\<lparr>mb_changed_timestamp := be_time_life env\<rparr> else b);
          b2 = (if m > mb_modified b1 then
                  (let c = (if be_save_changed_block env \<or> important \<or> mb_disk_timestamp b1 \<noteq> BLOCK_TIMESTAMP_UNDEFINED
                            then b1\<lparr>mb_modified := m\<rparr> else b1)
                   in if mb_modified c \<ge> MOD_STATE_WRITE_AT_UNLOAD then c\<lparr>mb_disk_timestamp := mb_timestamp c\<rparr> else c)
                else b1)
      in if light then b2\<lparr>mb_lighting_complete := 0\<rparr> else b2)"

definition raiseModified :: "block_env \<Rightarrow> u16 \<Rightarrow> bool \<Rightarrow> map_block \<Rightarrow> map_block" where
  "raiseModified env m important b =
     (let b1 = raiseModified_light env m False important b
      in if m = MOD_STATE_WRITE_NEEDED then b1\<lparr>mb_contents := []\<rparr> else b1)"

definition resetModified :: "map_block \<Rightarrow> map_block" where
  "resetModified b = b\<lparr>mb_modified := MOD_STATE_CLEAN, mb_modified_reason := 0\<rparr>"

text \<open>The solidness of nodes, which a client compares as well, is not modelled.\<close>

definition mb_setNode :: "block_env \<Rightarrow> node_mgr \<Rightarrow> v3 \<Rightarrow> map_node \<Rightarrow> bool \<Rightarrow> map_block \<Rightarrow> map_block res" where
  "mb_setNode env nodedef p n important b =
     (let f1 = ndm_get (getContent n) nodedef
      in rbind (expandNodesIfNeeded b) (\<lambda>b1.
         rbind (getNodeNoLock p b1) (\<lambda>old.
         rbind (mb_write p n b1) (\<lambda>b2.
           let f0 = ndm_get (getContent old) nodedef;
               light = (cf_light_propagates f0 \<noteq> cf_light_propagates f1 \<or> cf_light_source f0 \<noteq> cf_light_source f1)
           in Inr (if important then raiseModified_light env MOD_STATE_WRITE_NEEDED light important b2 else b2)))))"

definition setNodeNoLock :: "block_env \<Rightarrow> v3 \<Rightarrow> map_node \<Rightarrow> bool \<Rightarrow> map_block \<Rightarrow> map_block res" where
  "setNodeNoLock env p n important b =
     rbind (expandNodesIfNeeded b) (\<lambda>b1.
     rbind (mb_write p n b1) (\<lambda>b2. Inr (raiseModified env MOD_STATE_WRITE_NEEDED important b2)))"

definition setNodeNoCheck :: "block_env \<Rightarrow> v3 \<Rightarrow> map_node \<Rightarrow> bool \<Rightarrow> map_block \<Rightarrow> map_block res" where
  "setNodeNoCheck env p n important b = setNodeNoLock env p n important b"

text \<open>\<^verbatim>\<open>fill\<close> writes all nodes, also when only one is there.\<close>

definition mb_fill :: "map_node \<Rightarrow> map_block \<Rightarrow> map_block res" where
  "mb_fill n b = (if length (mb_data b) < nodecount then Inl OutOfBounds
     else Inr (b\<lparr>mb_data := replicate nodecount n @ drop nodecount (mb_data b)\<rparr>))"

subsection \<open>Air\<close>

definition actuallyUpdateIsAir :: "map_block \<Rightarrow> map_block res" where
  "actuallyUpdateIsAir b =
     (if mb_is_mono b
      then rbind (mb_first b) (\<lambda>n. Inr (b\<lparr>mb_is_air_expired := False, mb_is_air := (getContent n = CONTENT_AIR)\<rparr>))
      else if length (mb_data b) < nodecount then Inl OutOfBounds
      else Inr (b\<lparr>mb_is_air_expired := False,
                  mb_is_air := list_all (\<lambda>n. getContent n = CONTENT_AIR) (take nodecount (mb_data b))\<rparr>))"

definition expireIsAirCache :: "map_block \<Rightarrow> map_block" where
  "expireIsAirCache b = b\<lparr>mb_is_air_expired := True\<rparr>"

definition isAir :: "map_block \<Rightarrow> (bool \<times> map_block) res" where
  "isAir b = rbind (if mb_is_air_expired b then actuallyUpdateIsAir b else Inr b) (\<lambda>b1. Inr (mb_is_air b1, b1))"

subsection \<open>Flags, times and objects\<close>

definition setLightingComplete :: "u16 \<Rightarrow> map_block \<Rightarrow> map_block" where
  "setLightingComplete newflags b = b\<lparr>mb_lighting_complete := newflags\<rparr>"

text \<open>The bank is night or day; the twelve flags are one bit each.\<close>

definition light_bit :: "bool \<Rightarrow> nat \<Rightarrow> nat" where
  "light_bit night direction = (if night then direction + 6 else direction)"

definition setLightingComplete_dir :: "bool \<Rightarrow> nat \<Rightarrow> bool \<Rightarrow> map_block \<Rightarrow> map_block res" where
  "setLightingComplete_dir night direction is_complete b =
     (if direction > 5 then Inl AssertFailed
      else let newflags = mb_lighting_complete b; bit = push_bit (light_bit night direction) 1
           in Inr (setLightingComplete (if is_complete then newflags OR bit else newflags AND NOT bit) b))"

definition isLightingComplete :: "bool \<Rightarrow> nat \<Rightarrow> map_block \<Rightarrow> bool res" where
  "isLightingComplete night direction b =
     (if direction > 5 then Inl AssertFailed
      else Inr (mb_lighting_complete b AND push_bit (light_bit night direction) 1 \<noteq> 0))"

definition mb_setTimestamp :: "block_env \<Rightarrow> u32 \<Rightarrow> map_block \<Rightarrow> map_block" where
  "mb_setTimestamp env time b = raiseModified env MOD_STATE_WRITE_AT_UNLOAD True (b\<lparr>mb_timestamp := time\<rparr>)"

definition getActualTimestamp :: "map_block \<Rightarrow> u32" where
  "getActualTimestamp b =
     (if mb_changed_timestamp b \<noteq> 0 \<and> mb_changed_timestamp b \<noteq> BLOCK_TIMESTAMP_UNDEFINED then mb_changed_timestamp b
      else if mb_disk_timestamp b \<noteq> 0 \<and> mb_disk_timestamp b \<noteq> BLOCK_TIMESTAMP_UNDEFINED then mb_disk_timestamp b
      else 0)"

definition mb_storeActiveObject :: "block_env \<Rightarrow> u16 \<Rightarrow> map_block \<Rightarrow> bool \<times> map_block" where
  "mb_storeActiveObject env k b =
     (case sl_storeActiveObject k (mb_objects b) of
        (True, l) \<Rightarrow> (True, raiseModified env MOD_STATE_WRITE_NEEDED True (b\<lparr>mb_objects := l\<rparr>))
      | (False, l) \<Rightarrow> (False, b\<lparr>mb_objects := l\<rparr>))"

definition clearObjects :: "block_env \<Rightarrow> map_block \<Rightarrow> nat \<times> map_block" where
  "clearObjects env b =
     (let n = sl_size (mb_objects b)
      in (n, if n > 0 then raiseModified env MOD_STATE_WRITE_NEEDED True (b\<lparr>mb_objects := sl_clear (mb_objects b)\<rparr>) else b))"

text \<open>The limit of objects in a block is at least 256.\<close>

definition max_objects_per_block :: "u16 \<Rightarrow> nat" where
  "max_objects_per_block setting = max 256 (unat setting)"

definition onObjectsActivation :: "block_env \<Rightarrow> u16 \<Rightarrow> map_block \<Rightarrow> bool \<times> map_block" where
  "onObjectsActivation env setting b =
     (let stored = sl_stored (mb_objects b); limit = max_objects_per_block setting
      in if stored = [] then (False, b)
         else if length stored > limit then
           (False, raiseModified env MOD_STATE_WRITE_NEEDED True
              (b\<lparr>mb_objects := (mb_objects b)\<lparr>sl_stored := take limit stored\<rparr>\<rparr>))
         else (True, b))"

definition saveStaticObject :: "block_env \<Rightarrow> u16 \<Rightarrow> u16 \<Rightarrow> static_object \<Rightarrow> bool \<Rightarrow> map_block \<Rightarrow> bool \<times> map_block" where
  "saveStaticObject env setting k obj reason_known b =
     (if length (sl_stored (mb_objects b)) \<ge> max_objects_per_block setting then (False, b)
      else (let b1 = b\<lparr>mb_objects := sl_insert k obj (mb_objects b)\<rparr>
            in (True, if reason_known then raiseModified env MOD_STATE_WRITE_NEEDED True b1 else b1)))"

subsection \<open>The nodes that a block stands for\<close>

definition mb_wf :: "map_block \<Rightarrow> bool" where
  "mb_wf b \<longleftrightarrow> length (mb_data b) = (if mb_is_mono b then 1 else nodecount) \<and> (mb_is_client b \<longrightarrow> \<not> mb_is_mono b)"

definition all_nodes :: "map_block \<Rightarrow> map_node list" where
  "all_nodes b = (if mb_is_mono b then replicate nodecount (hd (mb_data b)) else mb_data b)"

definition pos_number :: "v3 \<Rightarrow> nat" where
  "pos_number p = nat (vZ p * 256 + vY p * 16 + vX p)"

definition all_air :: "map_node list \<Rightarrow> bool" where
  "all_air ns \<longleftrightarrow> list_all (\<lambda>n. getContent n = CONTENT_AIR) ns"

lemma nodecount_pos [simp]: "0 < nodecount" "nodecount \<noteq> 0" "nodecount \<noteq> 1" "nodecount \<noteq> Suc 0"
  by (simp_all add: nodecount_def)

lemma mb_new_wf: "\<exists>b. mb_new c = Inr b \<and> mb_wf b \<and> all_nodes b = replicate nodecount (node_new CONTENT_IGNORE)"
  by (simp add: mb_new_def mb_reallocate_def mb_wf_def all_nodes_def)

lemma length_all_nodes: "mb_wf b \<Longrightarrow> length (all_nodes b) = nodecount"
  by (simp add: mb_wf_def all_nodes_def)

lemma mb_first_wf: "mb_wf b \<Longrightarrow> mb_first b = Inr (hd (mb_data b))"
  by (cases "mb_data b") (auto simp: mb_wf_def mb_first_def split: if_splits)

lemma node_index_pos:
  assumes "in_block p"
  shows "unat (node_index p) = pos_number p" and "pos_number p < nodecount"
proof -
  obtain k where k: "k = vZ p * 256 + vY p * 16 + vX p" by blast
  have b: "0 \<le> vX p" "vX p < 16" "0 \<le> vY p" "vY p < 16" "0 \<le> vZ p" "vZ p < 16"
    using assms by (simp_all add: in_block_def v3_in_def)
  have k0: "0 \<le> k" using b by (simp add: k)
  have "k \<le> 15 * 256 + 15 * 16 + 15"
    unfolding k using b by (intro add_mono mult_right_mono) simp_all
  then have k1: "k < 4096" by simp
  have "node_index p = word_of_int k" by (simp add: node_index_def k)
  moreover have "uint (word_of_int k :: u32) = k"
    using k0 k1 by (simp add: unsigned_of_int take_bit_int_eq_self)
  ultimately have "uint (node_index p) = k" by simp
  then show "unat (node_index p) = pos_number p" by (simp add: pos_number_def k unat_eq_nat_uint)
  show "pos_number p < nodecount"
    using k0 k1 by (simp add: pos_number_def nodecount_def k nat_less_iff)
qed

lemma in_block_valid: "in_block p \<Longrightarrow> isValidPosition p"
  by (simp add: in_block_def v3_in_def isValidPosition_def MAP_BLOCKSIZE_def to_s16_id)

lemma only_element: "length xs = Suc 0 \<Longrightarrow> xs ! 0 = hd xs"
  by (cases xs) auto

lemma getNode_all_nodes:
  "mb_wf b \<Longrightarrow> in_block p \<Longrightarrow> getNodeNoLock p b = Inr (all_nodes b ! pos_number p)"
  using node_index_pos [of p] by (auto simp: getNodeNoLock_def mb_wf_def all_nodes_def only_element)

lemma expand_all_nodes:
  assumes "mb_wf b"
  shows "\<exists>b'. expandNodesIfNeeded b = Inr b' \<and> mb_wf b' \<and> all_nodes b' = all_nodes b \<and> \<not> mb_is_mono b' \<and>
    mb_is_air b' = mb_is_air b \<and> mb_is_air_expired b' = mb_is_air_expired b"
proof (cases "mb_is_mono b")
  case True
  let ?b = "b\<lparr>mb_data := replicate nodecount (hd (mb_data b)), mb_is_mono := False\<rparr>"
  have "expandNodesIfNeeded b = Inr ?b"
    using True by (simp add: expandNodesIfNeeded_def mb_first_wf [OF assms] mb_reallocate_def)
  moreover have "mb_wf ?b" "all_nodes ?b = all_nodes b"
    using True by (simp_all add: mb_wf_def all_nodes_def)
  ultimately show ?thesis by (intro exI [of _ ?b]) simp
qed (use assms in \<open>simp add: expandNodesIfNeeded_def\<close>)

lemma mb_write_all_nodes:
  assumes "mb_wf b" and "\<not> mb_is_mono b" and "in_block p"
  shows "\<exists>b'. mb_write p n b = Inr b' \<and> mb_wf b' \<and> all_nodes b' = (all_nodes b)[pos_number p := n] \<and>
    mb_is_air b' = mb_is_air b \<and> mb_is_air_expired b' = mb_is_air_expired b"
  using assms node_index_pos [of p] by (simp add: mb_write_def mb_wf_def all_nodes_def Let_def)

lemma raiseModified_nodes [simp]:
  "mb_data (raiseModified_light env m light important b) = mb_data b"
  "mb_is_mono (raiseModified_light env m light important b) = mb_is_mono b"
  "mb_is_client (raiseModified_light env m light important b) = mb_is_client b"
  "mb_is_air (raiseModified_light env m light important b) = mb_is_air b"
  "mb_is_air_expired (raiseModified_light env m light important b) = mb_is_air_expired b"
  "mb_data (raiseModified env m important b) = mb_data b"
  "mb_is_mono (raiseModified env m important b) = mb_is_mono b"
  "mb_is_client (raiseModified env m important b) = mb_is_client b"
  by (simp_all add: raiseModified_light_def raiseModified_def Let_def)

lemma raiseModified_all_nodes [simp]:
  "all_nodes (raiseModified_light env m light important b) = all_nodes b"
  "mb_wf (raiseModified_light env m light important b) = mb_wf b"
  "all_nodes (raiseModified env m important b) = all_nodes b"
  "mb_wf (raiseModified env m important b) = mb_wf b"
  by (simp_all add: all_nodes_def mb_wf_def)

lemma setNode_all_nodes:
  assumes "mb_wf b" and "in_block p"
  shows "\<exists>b'. mb_setNode env nodedef p n important b = Inr b' \<and> mb_wf b' \<and>
    all_nodes b' = (all_nodes b)[pos_number p := n] \<and> mb_is_air b' = mb_is_air b \<and> mb_is_air_expired b' = mb_is_air_expired b"
proof -
  obtain b1 where b1: "expandNodesIfNeeded b = Inr b1" "mb_wf b1" "all_nodes b1 = all_nodes b" "\<not> mb_is_mono b1"
    "mb_is_air b1 = mb_is_air b" "mb_is_air_expired b1 = mb_is_air_expired b"
    using expand_all_nodes [OF assms(1)] by blast
  obtain b2 where b2: "mb_write p n b1 = Inr b2" "mb_wf b2" "all_nodes b2 = (all_nodes b1)[pos_number p := n]"
    "mb_is_air b2 = mb_is_air b1" "mb_is_air_expired b2 = mb_is_air_expired b1"
    using mb_write_all_nodes [OF b1(2,4) assms(2)] by blast
  show ?thesis
    using b1 b2 by (simp add: mb_setNode_def getNode_all_nodes [OF b1(2) assms(2)] Let_def)
qed

lemma setNodeNoLock_all_nodes:
  assumes "mb_wf b" and "in_block p"
  shows "\<exists>b'. setNodeNoLock env p n important b = Inr b' \<and> mb_wf b' \<and> all_nodes b' = (all_nodes b)[pos_number p := n]"
proof -
  obtain b1 where b1: "expandNodesIfNeeded b = Inr b1" "mb_wf b1" "all_nodes b1 = all_nodes b" "\<not> mb_is_mono b1"
    using expand_all_nodes [OF assms(1)] by blast
  obtain b2 where "mb_write p n b1 = Inr b2" "mb_wf b2" "all_nodes b2 = (all_nodes b1)[pos_number p := n]"
    using mb_write_all_nodes [OF b1(2,4) assms(2)] by blast
  then show ?thesis using b1 by (simp add: setNodeNoLock_def)
qed

lemma all_same: "list_all (\<lambda>m. m = n) ms \<Longrightarrow> n # ms = replicate (Suc (length ms)) n"
  by (induction ms) auto

lemma shrink_all_nodes:
  assumes wf: "mb_wf b"
  shows "\<exists>b'. tryShrinkNodes b = Inr b' \<and> mb_wf b' \<and> all_nodes b' = all_nodes b"
proof (cases "mb_is_client b \<or> mb_is_mono b")
  case False
  let ?n = "hd (mb_data b)"
  have len: "length (mb_data b) = nodecount" using wf False by (simp add: mb_wf_def)
  then have split: "mb_data b = ?n # tl (mb_data b)" by (cases "mb_data b") auto
  show ?thesis
  proof (cases "list_all (\<lambda>m. m = ?n) (tl (mb_data b))")
    case True
    then have "mb_data b = replicate nodecount ?n"
      using all_same [OF True] split len by (metis length_Cons)
    then show ?thesis
      using True False wf by (simp add: tryShrinkNodes_def mb_first_wf [OF wf] mb_reallocate_def mb_wf_def all_nodes_def)
  qed (use wf False in \<open>simp add: tryShrinkNodes_def mb_first_wf [OF wf]\<close>)
qed (use wf in \<open>simp add: tryShrinkNodes_def\<close>)

lemma isAir_all_nodes:
  assumes "mb_wf b"
  shows "\<exists>b'. isAir (expireIsAirCache b) = Inr (all_air (all_nodes b), b') \<and> mb_wf b' \<and> all_nodes b' = all_nodes b"
  using assms
  by (auto simp: isAir_def expireIsAirCache_def actuallyUpdateIsAir_def mb_wf_def all_nodes_def all_air_def mb_first_def
      list_all_iff split: list.splits)

text \<open>
  C38: a block of one kind of node and a block that holds them all are the same to those who use
  them. At the positions of a block, setting a node, with or without the check of its light, changes
  the node at that position of the sixteen cubed nodes that the block stands for and no other,
  getting one gives it; expanding and shrinking change none; and whether the block is air, once the
  cache has expired, is whether they all are.
\<close>

theorem block_refines_nodes:
  assumes "mb_wf b" and "in_block p"
  shows "(\<exists>b'. mb_setNode env nodedef p n important b = Inr b' \<and> mb_wf b' \<and> all_nodes b' = (all_nodes b)[pos_number p := n]) \<and>
    (\<exists>b'. setNodeNoLock env p n important b = Inr b' \<and> mb_wf b' \<and> all_nodes b' = (all_nodes b)[pos_number p := n]) \<and>
    mb_getNode p b = Inr (all_nodes b ! pos_number p, True) \<and> pos_number p < length (all_nodes b) \<and>
    (\<exists>b'. expandNodesIfNeeded b = Inr b' \<and> mb_wf b' \<and> all_nodes b' = all_nodes b) \<and>
    (\<exists>b'. tryShrinkNodes b = Inr b' \<and> mb_wf b' \<and> all_nodes b' = all_nodes b) \<and>
    (\<exists>b'. isAir (expireIsAirCache b) = Inr (all_air (all_nodes b), b') \<and> mb_wf b' \<and> all_nodes b' = all_nodes b)"
proof (intro conjI)
  show "\<exists>b'. mb_setNode env nodedef p n important b = Inr b' \<and> mb_wf b' \<and> all_nodes b' = (all_nodes b)[pos_number p := n]"
    using setNode_all_nodes [OF assms] by blast
  show "mb_getNode p b = Inr (all_nodes b ! pos_number p, True)"
    using assms by (simp add: mb_getNode_def in_block_valid getNode_all_nodes)
  show "\<exists>b'. expandNodesIfNeeded b = Inr b' \<and> mb_wf b' \<and> all_nodes b' = all_nodes b"
    using expand_all_nodes [OF assms(1)] by blast
qed (use assms setNodeNoLock_all_nodes shrink_all_nodes isAir_all_nodes length_all_nodes node_index_pos in simp_all)

text \<open>
  Setting a node does not expire the cache: a block that was found to be air stays air for it,
  whatever is put into it.
\<close>

lemma isAir_stale:
  assumes "mb_wf b" and "in_block p" and "mb_is_air b" and "\<not> mb_is_air_expired b"
  shows "\<exists>b'. mb_setNode env nodedef p n important b = Inr b' \<and> all_nodes b' = (all_nodes b)[pos_number p := n] \<and>
    isAir b' = Inr (True, b')"
  using setNode_all_nodes [OF assms(1,2), of env nodedef n important] assms(3,4) by (auto simp: isAir_def)

text \<open>The check of a position is made in 16 bits.\<close>

lemma valid_position_wraps:
  "isValidPosition (mk_v3 65536 0 0)" "mb_is_mono b \<or> length (mb_data b) \<le> 65536 \<Longrightarrow> \<not> mb_is_mono b \<Longrightarrow>
    mb_getNode (mk_v3 65536 0 0) b = Inl OutOfBounds"
  by (simp_all add: isValidPosition_def MAP_BLOCKSIZE_def to_s16_def mb_getNode_def getNodeNoLock_def node_index_def)

theorem block_refines_nodes_witness:
  "\<exists>A b b'. ndm_clear = Inr A \<and> mb_new False = Inr b \<and>
    mb_setNode \<lparr>be_save_changed_block = False, be_time_life = 7\<rparr> A (mk_v3 1 2 3) (node_new 5) True b = Inr b' \<and>
    all_nodes b' = (replicate nodecount (node_new CONTENT_IGNORE))[pos_number (mk_v3 1 2 3) := node_new 5]"
proof -
  obtain A where A: "ndm_clear = Inr A" using ndm_clear_ok by blast
  obtain b where b: "mb_new False = Inr b" "mb_wf b" "all_nodes b = replicate nodecount (node_new CONTENT_IGNORE)"
    using mb_new_wf by blast
  have "in_block (mk_v3 1 2 3)" by (simp add: in_block_def v3_in_def)
  from block_refines_nodes [OF b(2) this] A b show ?thesis by metis
qed

end
