(* ===== verification/MapBlockStorage.thy ===== *)
theory MapBlockStorage
  imports MapBlock
begin

section \<open>The stored form of map blocks\<close>

text \<open>
  \<^verbatim>\<open>MapBlock::serialize\<close> for all versions of the format that are written, and \<^verbatim>\<open>MapBlock::deSerialize\<close>
  for version 29, the current one, on disk and over the network (\<^verbatim>\<open>src/mapblock.cpp\<close>). The compression and the
  packing of the light points, both by libraries outside the tree, and the arithmetic on floating-point
  numbers are parameters.
\<close>

unbundle bit_operations_syntax

record block_codecs =
  bc_floats :: float_ops
  bc_compress :: "u8 \<Rightarrow> string \<Rightarrow> string"
  bc_decompress :: "u8 \<Rightarrow> istream \<Rightarrow> (string \<times> istream) res"
  bc_pack_lights :: "(v3 \<times> u32) list \<Rightarrow> string"
  bc_unpack_lights :: "string \<Rightarrow> (v3 \<times> u32) list option res"

subsection \<open>Writing\<close>

definition block_flags :: "bool \<Rightarrow> map_block \<Rightarrow> u8" where
  "block_flags is_air b =
     (if mb_is_underground b then 0x01 else 0) OR (if \<not> is_air then 0x02 else 0) OR
     (if \<not> mb_generated b then 0x08 else 0) OR (if mb_light_points b \<noteq> [] then 0x80 else 0)"

definition write_block_nodes :: "node_mgr \<Rightarrow> u8 \<Rightarrow> bool \<Rightarrow> id_id_mapping \<Rightarrow> map_block \<Rightarrow> (nimap \<times> u8 list) res" where
  "write_block_nodes nodedef version disk tl_ididmapping b =
     (if disk then
        (let size = (if mb_is_mono b then 1 else nodecount)
         in if length (mb_data b) < size then Inl OutOfBounds
            else rbind (getBlockNodeIdMapping nim_clear (take size (mb_data b)) nodedef tl_ididmapping) (\<lambda>(nimap, ns, _).
                 rbind (serializeBulk (uint version) ns nodecount 2 2 (mb_is_mono b)) (\<lambda>buf. Inr (nimap, buf))))
      else rbind (serializeBulk (uint version) (mb_data b) nodecount 2 2 (mb_is_mono b)) (\<lambda>buf. Inr (nim_clear, buf)))"

text \<open>
  The data that only go to disk. The light points follow them in the raw stream, which below version
  29 is not written any more.
\<close>

definition write_block_disk :: "block_codecs \<Rightarrow> u8 \<Rightarrow> map_block \<Rightarrow> string \<Rightarrow> string \<Rightarrow> string" where
  "write_block_disk bc version b objects nimap_bytes =
     (let timers = timers_serialize (bc_floats bc) version (mb_timers b)
      in (if version \<le> 24 then timers else []) @ objects @
         (if version < 29 then stream_write (writeU32 (mb_timestamp b)) @ nimap_bytes else []) @
         (if version \<ge> 25 then timers else []))"

definition write_lights :: "block_codecs \<Rightarrow> map_block \<Rightarrow> string res" where
  "write_lights bc b = (if mb_light_points b \<noteq> [] then serializeString32 (bc_pack_lights bc (mb_light_points b)) else Inr [])"

definition mb_serialize :: "block_codecs \<Rightarrow> node_mgr \<Rightarrow> u8 \<Rightarrow> bool \<Rightarrow> id_id_mapping \<Rightarrow> map_block \<Rightarrow> string res \<times> map_block" where
  "mb_serialize bc nodedef version disk tl_ididmapping b =
     (if \<not> ser_ver_supported_write (uint version) then (Inl VersionMismatchException, b)
      else attempt (isAir b) b (\<lambda>(is_air, b1).
        let head = stream_write [block_flags is_air b1] @
              (if version \<ge> 27 then stream_write (writeU16 (mb_lighting_complete b1)) else [])
        in attempt (write_block_nodes nodedef version disk tl_ididmapping b1) b1 (\<lambda>(nimap, buf).
           attempt (if disk then nim_serialize nimap else Inr []) b1 (\<lambda>nimap_bytes.
           attempt (ml_serialize version disk False False (mb_metadata b1)) b1 (\<lambda>meta.
             let (objects, b2) =
                   (if disk then (case sl_serialize (bc_floats bc) (mb_objects b1) of (o1, l) \<Rightarrow> (o1, b1\<lparr>mb_objects := l\<rparr>))
                    else (Inr [], b1))
             in attempt objects b2 (\<lambda>objs.
                attempt (write_lights bc b2) b2 (\<lambda>lights.
                  let disk_part = (if disk then write_block_disk bc version b2 objs nimap_bytes else []);
                      front = (if disk then stream_write (writeU32 (mb_timestamp b2)) @ nimap_bytes else [])
                  in if version \<ge> 29
                     then (Inr (bc_compress bc version
                             (head @ front @ stream_write [2, 2] @ stream_write buf @ meta @ disk_part @ lights)), b2)
                     else (Inr (head @ stream_write [2, 2] @ bc_compress bc version (stream_write buf) @
                             bc_compress bc version meta @ disk_part), b2))))))))"

subsection \<open>Reading\<close>

definition obind :: "'a res option \<Rightarrow> ('a \<Rightarrow> 'b res option) \<Rightarrow> 'b res option" where
  "obind r f = (case r of None \<Rightarrow> None | Some (Inl e) \<Rightarrow> Some (Inl e) | Some (Inr x) \<Rightarrow> f x)"

lemma obind_simps [simp]: "obind None f = None" "obind (Some (Inl e)) f = Some (Inl e)" "obind (Some (Inr x)) f = f x"
  by (simp_all add: obind_def)

definition read_block_head :: "bool \<Rightarrow> istream \<Rightarrow> map_block \<Rightarrow> ((u8 \<times> nimap \<times> map_block) \<times> istream) res" where
  "read_block_head disk is b =
     rbind (on_stream readU8s is) (\<lambda>(flags, is1).
     rbind (on_stream readU16s is1) (\<lambda>(lighting, is2).
       let b1 = b\<lparr>mb_is_underground := (flags AND 0x01 \<noteq> 0), mb_lighting_complete := lighting,
                  mb_generated := (flags AND 0x08 = 0)\<rparr>
       in if disk then
            rbind (on_stream readU32s is2) (\<lambda>(time, is3).
            rbind (on_stream nim_deSerialize is3) (\<lambda>(nimap, is4).
              Inr ((flags, nimap, b1\<lparr>mb_timestamp := time, mb_disk_timestamp := time\<rparr>), is4)))
          else Inr ((flags, nim_clear, b1), is2)))"

definition read_block_nodes :: "IItemDefManager option \<Rightarrow> istream \<Rightarrow> map_block \<Rightarrow> (map_block \<times> istream) res" where
  "read_block_nodes idef is b =
     rbind (on_stream readU8s is) (\<lambda>(content_width, is1).
     rbind (on_stream readU8s is1) (\<lambda>(params_width, is2).
       if content_width \<noteq> 1 \<and> content_width \<noteq> 2 then Inl SerializationError
       else if params_width \<noteq> 2 then Inl SerializationError
       else rbind (on_stream (\<lambda>s. deSerializeBulk s 29 nodecount content_width params_width) is2) (\<lambda>(ns, is3).
            rbind (ml_deSerialize idef False is3 (mb_metadata b)) (\<lambda>(ml, is4).
              Inr (b\<lparr>mb_data := ns @ drop nodecount (mb_data b), mb_metadata := ml\<rparr>, is4)))))"

text \<open>
  With a single name in the mapping the block is one kind of node; only then the cache of whether it
  is air is set.
\<close>

definition read_block_disk :: "block_codecs \<Rightarrow> nimap \<Rightarrow> id_id_mapping \<Rightarrow> istream \<Rightarrow> map_block \<Rightarrow> node_mgr \<Rightarrow>
    (map_block \<times> istream \<times> node_mgr) res option" where
  "read_block_disk bc nimap tl_ididmapping is b nodedef =
     obind (Some (sl_deSerialize (bc_floats bc) is (mb_objects b))) (\<lambda>(objs, is1).
     obind (correctBlockNodeIds (mb_is_client b) nimap (mb_data b) nodedef tl_ididmapping) (\<lambda>(ns, nodedef1, _).
     obind (Some (timers_deSerialize (bc_floats bc) 29 is1 (mb_timers b))) (\<lambda>(timers, is2).
       let b1 = b\<lparr>mb_objects := objs, mb_data := ns, mb_timers := timers\<rparr>
       in obind (Some (if nim_size nimap = 1
                       then rbind (tryShrinkNodes b1) (\<lambda>b2.
                              Inr (b2\<lparr>mb_is_air := (nim_getId ''air'' nimap \<noteq> None), mb_is_air_expired := False\<rparr>))
                       else Inr b1)) (\<lambda>b2. Some (Inr (b2, is2, nodedef1))))))"

definition read_lights :: "block_codecs \<Rightarrow> u8 \<Rightarrow> istream \<Rightarrow> map_block \<Rightarrow> (map_block \<times> istream) res" where
  "read_lights bc flags is b =
     (if flags AND 0x80 \<noteq> 0 then
        rbind (on_stream deSerializeString32 is) (\<lambda>(packed, is1).
          if packed = [] then Inr (b, is1)
          else rbind (bc_unpack_lights bc packed) (\<lambda>pts.
                 Inr (case pts of None \<Rightarrow> b | Some l \<Rightarrow> b\<lparr>mb_light_points := l\<rparr>, is1)))
      else Inr (b, is))"

text \<open>
  The result tells whether the block was read to its end: one that was not generated is not, unless
  the setting \<^verbatim>\<open>fix_not_generated\<close> takes it for generated. The paths of the older versions
  are not modelled.
\<close>

definition mb_deSerialize_29 :: "block_codecs \<Rightarrow> IItemDefManager option \<Rightarrow> bool \<Rightarrow> bool \<Rightarrow> id_id_mapping \<Rightarrow>
    istream \<Rightarrow> map_block \<Rightarrow> node_mgr \<Rightarrow> (bool \<times> map_block \<times> istream \<times> node_mgr) res option" where
  "mb_deSerialize_29 bc idef fix_not_generated disk tl_ididmapping in_compressed b nodedef =
     obind (Some (expandNodesIfNeeded (b\<lparr>mb_is_air_expired := True\<rparr>))) (\<lambda>b0.
     obind (Some (bc_decompress bc 29 in_compressed)) (\<lambda>(raw, rest).
     obind (Some (read_block_head disk (open_stream raw) b0)) (\<lambda>((flags, nimap, b1), is1).
       if \<not> mb_generated b1 \<and> \<not> (disk \<and> fix_not_generated) then Some (Inr (False, b1, rest, nodedef))
       else
         obind (Some (read_block_nodes idef is1 (b1\<lparr>mb_generated := True\<rparr>))) (\<lambda>(b2, is2).
         obind (if disk then read_block_disk bc nimap tl_ididmapping is2 b2 nodedef
                else Some (Inr (b2, is2, nodedef))) (\<lambda>(b3, is3, nodedef1).
         obind (Some (read_lights bc flags is3 b3)) (\<lambda>(b4, _).
           Some (Inr (True, b4, rest, nodedef1))))))))"

subsection \<open>What is stored\<close>

text \<open>What the libraries outside promise: what they have compressed and packed is read back.\<close>

definition codecs_ok :: "block_codecs \<Rightarrow> map_block \<Rightarrow> bool" where
  "codecs_ok bc b \<longleftrightarrow>
     (\<forall>s r. bc_decompress bc 29 (open_stream (bc_compress bc 29 s @ r)) = Inr (s, open_stream r)) \<and>
     bc_pack_lights bc (mb_light_points b) \<noteq> [] \<and>
     bc_unpack_lights bc (bc_pack_lights bc (mb_light_points b)) = Inr (Some (mb_light_points b))"

definition block_storable :: "float_ops \<Rightarrow> IItemDefManager option \<Rightarrow> map_block \<Rightarrow> bool" where
  "block_storable fl idef b \<longleftrightarrow> mb_wf b \<and> mb_generated b \<and>
     sorted_wrt v3_less (map fst (ml_data (mb_metadata b))) \<and> length (ml_data (mb_metadata b)) < 65536 \<and>
     list_all (\<lambda>(p, d). pos_ok False p \<and> nm_ok idef d) (ml_data (mb_metadata b)) \<and>
     list_all (so_storable fl) (sl_stored (mb_objects b) @ map snd (sl_active (mb_objects b))) \<and>
     sl_size (mb_objects b) \<le> 0xFFFF \<and>
     list_all (timer_storable fl (tm_time (mb_timers b))) (map snd (tm_timers (mb_timers b))) \<and>
     length (tm_timers (mb_timers b)) < 65536"

text \<open>What a reader has after it has read a block into another one.\<close>

definition metas_as_read :: "bool \<Rightarrow> map_block \<Rightarrow> meta_list \<Rightarrow> bool" where
  "metas_as_read disk b ml \<longleftrightarrow>
     list_all2 (\<lambda>e e'. fst e' = fst e \<and> meta_reads_as 2 disk (snd e) (snd e')) (sent_metas False (mb_metadata b)) (ml_data ml)"

definition block_as_loaded :: "float_ops \<Rightarrow> map_block \<Rightarrow> map_block \<Rightarrow> map_block \<Rightarrow> bool" where
  "block_as_loaded fl b b0 b' \<longleftrightarrow> mb_wf b' \<and> mb_generated b' \<and> mb_is_underground b' = mb_is_underground b \<and>
     mb_lighting_complete b' = mb_lighting_complete b \<and> mb_timestamp b' = mb_timestamp b \<and>
     mb_disk_timestamp b' = mb_timestamp b \<and> metas_as_read True b (mb_metadata b') \<and>
     sl_stored (mb_objects b') = map (so_narrowed fl) (sl_stored (mb_objects b) @ map snd (sl_active (mb_objects b))) \<and>
     mb_timers b' = timers_as_read fl (mb_timers b) (mb_timers b0) \<and>
     mb_light_points b' = (if mb_light_points b = [] then mb_light_points b0 else mb_light_points b)"

subsection \<open>The parts of a stored block\<close>

lemma attempt_Inr: "fst (attempt r s k) = Inr x \<Longrightarrow> (\<And>y. r = Inr y \<Longrightarrow> fst (k y) = Inr x \<Longrightarrow> thesis) \<Longrightarrow> thesis"
  by (cases r) auto

lemma rbind_Inr: "rbind r k = Inr x \<Longrightarrow> (\<And>y. r = Inr y \<Longrightarrow> k y = Inr x \<Longrightarrow> thesis) \<Longrightarrow> thesis"
  by (cases r) auto

lemma isAir_keeps:
  assumes "isAir b = Inr (a, b1)"
  shows "mb_data b1 = mb_data b \<and> mb_is_mono b1 = mb_is_mono b \<and> mb_lighting_complete b1 = mb_lighting_complete b \<and>
    mb_is_underground b1 = mb_is_underground b \<and> mb_generated b1 = mb_generated b \<and> mb_timestamp b1 = mb_timestamp b \<and>
    mb_light_points b1 = mb_light_points b \<and> mb_metadata b1 = mb_metadata b \<and> mb_objects b1 = mb_objects b \<and>
    mb_timers b1 = mb_timers b \<and> mb_is_client b1 = mb_is_client b"
  using assms
  by (auto simp: isAir_def actuallyUpdateIsAir_def mb_first_def split: if_splits list.splits elim!: rbind_Inr)

text \<open>The nodes are written one by one, under small ids on disk.\<close>

lemma nodes_written:
  assumes wf: "mb_wf b" and w: "write_block_nodes A version disk cache b = Inr (nimap, bytes)"
    and A: "ndm_wf A" and cache: "iim_wf cache" and v: "ser_ver_supported_write (uint version)"
  obtains ns mp ctr where "bytes = bulk_bytes ns" and "length ns = nodecount"
    and "disk \<Longrightarrow> list_all2 (renamed A nimap) (all_nodes b) ns \<and> numbered A mp ctr nimap"
    and "\<not> disk \<Longrightarrow> ns = all_nodes b"
proof -
  have bulk: "serializeBulk (uint version) (if mono then [hd xs] else xs) nodecount 2 2 mono =
      Inr (bulk_bytes (if mono then replicate nodecount (hd xs) else xs))"
    if "mono \<or> length xs = nodecount" for mono and xs :: "map_node list"
  proof (cases mono)
    case True
    then show ?thesis by (simp add: serializeBulk_bytes(2) [OF v] nodecount_def)
  next
    case False
    with that have l: "length xs = nodecount" by simp
    then show ?thesis using False serializeBulk_bytes(1) [OF v, of xs] by (simp add: nodecount_def)
  qed
  have one: "xs = [hd xs]" if "length xs = Suc 0" for xs :: "map_node list" using that by (cases xs) auto
  let ?size = "if mb_is_mono b then 1 else nodecount"
  have len: "length (mb_data b) = ?size" using wf by (simp add: mb_wf_def)
  show thesis
  proof (cases disk)
    case False
    have "mb_data b = (if mb_is_mono b then [hd (mb_data b)] else mb_data b)" using len one by simp
    then have "bytes = bulk_bytes (all_nodes b)"
      using w False bulk [of "mb_is_mono b" "mb_data b"] len unfolding write_block_nodes_def all_nodes_def
      by (auto split: if_splits)
    with that [of "all_nodes b"] False length_all_nodes [OF wf] show thesis by blast
  next
    case True
    have nonempty: "\<forall>n \<in> set (mb_data b). cf_name (ndm_get (getContent n) A) \<noteq> []" using wf_names [OF A] by blast
    have le: "unat (0 :: u16) + length (mb_data b) \<le> 65535" using len by (simp add: nodecount_def)
    obtain ns mp ctr where n: "number_nodes A (mb_data b) iim_new 0 nim_clear = Inr (nimap, ns, mp)"
      "list_all2 (renamed A nimap) (mb_data b) ns" "numbered A mp ctr nimap"
      and bytes: "serializeBulk (uint version) ns nodecount 2 2 (mb_is_mono b) = Inr bytes"
      using number_nodes_names [OF numbered_start le nonempty] w True len
      by (auto simp: write_block_nodes_def getBlockNodeIdMapping_def iim_clear_new [OF cache] elim!: rbind_Inr)
    have l: "length ns = ?size" using n(2) len by (metis list_all2_lengthD)
    let ?ns = "if mb_is_mono b then replicate nodecount (hd ns) else ns"
    have "ns = (if mb_is_mono b then [hd ns] else ns)" using l one by simp
    then have "bytes = bulk_bytes ?ns" using bytes bulk [of "mb_is_mono b" ns] l by (auto split: if_splits)
    moreover have "list_all2 (renamed A nimap) (all_nodes b) ?ns"
    proof (cases "mb_is_mono b")
      case True
      then have "mb_data b = [hd (mb_data b)]" "ns = [hd ns]" using len l one by simp_all
      then have "renamed A nimap (hd (mb_data b)) (hd ns)" using n(2) by (metis list_all2_Cons)
      then show ?thesis using True by (simp add: all_nodes_def list_all2_conv_all_nth)
    qed (use n(2) in \<open>simp add: all_nodes_def\<close>)
    ultimately show thesis using that [of ?ns mp ctr] True n(3) l by simp
  qed
qed

lemma block_flags_read:
  "(block_flags a b AND 1 \<noteq> 0) = mb_is_underground b" "(block_flags a b AND 8 = 0) = mb_generated b"
  "(block_flags a b AND 0x80 \<noteq> 0) = (mb_light_points b \<noteq> [])"
  by (simp_all add: block_flags_def)

lemma write_lights_fields [simp]:
  "write_lights bc (b\<lparr>mb_objects := l\<rparr>) = write_lights bc b"
  "write_lights bc (b\<lparr>mb_is_air_expired := e, mb_is_air := a\<rparr>) = write_lights bc b"
  by (simp_all add: write_lights_def)

lemma block_written:
  assumes "fst (mb_serialize bc A 29 disk cache b) = Inr s"
  obtains a b1 nimap bytes names metas objs lights where "isAir b = Inr (a, b1)"
    and "write_block_nodes A 29 disk cache b1 = Inr (nimap, bytes)"
    and "disk \<Longrightarrow> nim_serialize nimap = Inr names" and "ml_serialize 29 disk False False (mb_metadata b1) = Inr metas"
    and "disk \<Longrightarrow> fst (sl_serialize (bc_floats bc) (mb_objects b1)) = Inr objs" and "write_lights bc b1 = Inr lights"
    and "s = bc_compress bc 29 (stream_write [block_flags a b1] @ stream_write (writeU16 (mb_lighting_complete b1)) @
      (if disk then stream_write (writeU32 (mb_timestamp b1)) @ names else []) @ stream_write [2, 2] @
      stream_write bytes @ metas @
      (if disk then objs @ timers_serialize (bc_floats bc) 29 (mb_timers b1) else []) @ lights)"
proof -
  have v: "ser_ver_supported_write (uint (29 :: u8))"
    by (simp add: ser_ver_supported_write_def SER_FMT_VER_HIGHEST_WRITE_def SER_FMT_VER_LOWEST_WRITE_def)
  show thesis
  proof (cases disk)
    case True
    show thesis
      using assms v True
      apply (clarsimp simp: mb_serialize_def Let_def elim!: attempt_Inr split: prod.splits)
      subgoal for a b1 nimap bytes names metas l objs lights
        by (rule that [of a b1 nimap bytes names metas objs lights])
          (simp_all add: write_block_disk_def Let_def)
      done
  next
    case False
    show thesis
      using assms v False
      apply (clarsimp simp: mb_serialize_def Let_def elim!: attempt_Inr split: prod.splits)
      subgoal for a b1 nimap bytes metas lights
        by (rule that [of a b1 nimap bytes "[]" metas "[]" lights]) (simp_all add: Let_def)
      done
  qed
qed

subsection \<open>The parts of a read block\<close>

text \<open>What the head of a stored block makes of a block.\<close>

definition with_head :: "bool \<Rightarrow> map_block \<Rightarrow> map_block \<Rightarrow> map_block" where
  "with_head disk b b0 =
     (let b1 = b0\<lparr>mb_is_underground := mb_is_underground b, mb_lighting_complete := mb_lighting_complete b,
                  mb_generated := mb_generated b\<rparr>
      in if disk then b1\<lparr>mb_timestamp := mb_timestamp b, mb_disk_timestamp := mb_timestamp b\<rparr> else b1)"

lemma with_head_fields [simp]:
  "mb_data (with_head disk b b0) = mb_data b0" "mb_is_mono (with_head disk b b0) = mb_is_mono b0"
  "mb_is_client (with_head disk b b0) = mb_is_client b0" "mb_metadata (with_head disk b b0) = mb_metadata b0"
  "mb_objects (with_head disk b b0) = mb_objects b0" "mb_timers (with_head disk b b0) = mb_timers b0"
  "mb_light_points (with_head disk b b0) = mb_light_points b0" "mb_generated (with_head disk b b0) = mb_generated b"
  "mb_is_underground (with_head disk b b0) = mb_is_underground b"
  "mb_lighting_complete (with_head disk b b0) = mb_lighting_complete b"
  "mb_timestamp (with_head disk b b0) = (if disk then mb_timestamp b else mb_timestamp b0)"
  "mb_disk_timestamp (with_head disk b b0) = (if disk then mb_timestamp b else mb_disk_timestamp b0)"
  by (simp_all add: with_head_def Let_def)

lemma head_read:
  assumes "disk \<Longrightarrow> nim_deSerialize (names @ r) = Inr (nimap, r)" and "\<not> disk \<Longrightarrow> nimap = nim_clear"
  shows "read_block_head disk (open_stream (stream_write [block_flags a b] @ stream_write (writeU16 (mb_lighting_complete b)) @
      (if disk then stream_write (writeU32 (mb_timestamp b)) @ names else []) @ r)) b0 =
    Inr ((block_flags a b, nimap, with_head disk b b0), open_stream r)"
proof -
  let ?t = "(if disk then stream_write (writeU32 (mb_timestamp b)) @ names else []) @ r"
  have r1: "on_stream readU8s (open_stream (stream_write [block_flags a b] @ stream_write (writeU16 (mb_lighting_complete b)) @ ?t)) =
      Inr (block_flags a b, open_stream (stream_write (writeU16 (mb_lighting_complete b)) @ ?t))"
    unfolding open_stream_def by (rule on_stream_ok) (simp add: u8_codec.dec_enc)
  have r2: "on_stream readU16s (open_stream (stream_write (writeU16 (mb_lighting_complete b)) @ ?t)) =
      Inr (mb_lighting_complete b, open_stream ?t)"
    unfolding open_stream_def by (rule on_stream_ok) (simp add: u16_codec.dec_enc)
  have r3: "on_stream readU32s (open_stream (stream_write (writeU32 (mb_timestamp b)) @ names @ r)) =
      Inr (mb_timestamp b, open_stream (names @ r))"
    unfolding open_stream_def by (rule on_stream_ok) (simp add: u32_codec.dec_enc)
  have r4: "on_stream nim_deSerialize (open_stream (names @ r)) = Inr (nimap, open_stream r)" if disk
    unfolding open_stream_def by (rule on_stream_ok) (rule assms(1) [OF that])
  show ?thesis
    unfolding read_block_head_def r1 rbind_simps prod.case r2
    using r3 r4 assms(2) by (simp add: with_head_def block_flags_read Let_def)
qed

lemma nodes_read:
  assumes len: "length ns = nodecount" "length (mb_data b) = nodecount"
    and w: "ml_serialize 29 disk False False l = Inr metas"
    and l: "sorted_wrt v3_less (map fst (ml_data l))" "length (ml_data l) < 65536"
      "list_all (\<lambda>(p, d). pos_ok False p \<and> nm_ok idef d) (ml_data l)"
    and c: "ml_clear (mb_metadata b) = Inr l1"
  shows "\<exists>ml. read_block_nodes idef (open_stream (stream_write [2, 2] @ stream_write (bulk_bytes ns) @ metas @ r)) b =
      Inr (b\<lparr>mb_data := ns, mb_metadata := ml\<rparr>, open_stream r) \<and>
    list_all2 (\<lambda>e e'. fst e' = fst e \<and> meta_reads_as 2 disk (snd e) (snd e')) (sent_metas False l) (ml_data ml)"
proof -
  let ?t = "stream_write (bulk_bytes ns) @ metas @ r"
  have r1: "on_stream readU8s (open_stream (stream_write [2, 2] @ ?t)) = Inr (2, open_stream (stream_write [2] @ ?t))"
    using u8_codec.dec_enc [of 2 "stream_write [2] @ ?t"] unfolding open_stream_def by (intro on_stream_ok) (simp add: stream_write_def)
  have r2: "on_stream readU8s (open_stream (stream_write [2] @ ?t)) = Inr (2, open_stream ?t)"
    unfolding open_stream_def by (rule on_stream_ok) (simp add: u8_codec.dec_enc)
  have v: "ser_ver_supported_write 29"
    by (simp add: ser_ver_supported_write_def SER_FMT_VER_HIGHEST_WRITE_def SER_FMT_VER_LOWEST_WRITE_def)
  have r3: "on_stream (\<lambda>s. deSerializeBulk s 29 nodecount 2 2) (open_stream ?t) = Inr (ns, open_stream (metas @ r))"
    unfolding open_stream_def by (rule on_stream_ok, rule deSerializeBulk_reads [OF v len(1)]) (simp add: nodecount_def)
  obtain ml where ml: "ml_deSerialize idef False \<lparr>buf = metas @ r, good = True\<rparr> (mb_metadata b) = Inr (ml, \<lparr>buf = r, good = True\<rparr>)"
    "list_all2 (\<lambda>e e'. fst e' = fst e \<and> meta_reads_as 2 disk (snd e) (snd e')) (sent_metas False l) (ml_data ml)"
    using metas_read_back [OF w l c, of r] by auto
  have "read_block_nodes idef (open_stream (stream_write [2, 2] @ ?t)) b = Inr (b\<lparr>mb_data := ns, mb_metadata := ml\<rparr>, open_stream r)"
    unfolding read_block_nodes_def r1 rbind_simps prod.case r2
    using r3 ml(1) len(2) by (simp add: open_stream_def)
  with ml(2) show ?thesis by blast
qed

lemma lights_read:
  assumes "codecs_ok bc b" and "write_lights bc b = Inr lights"
  shows "\<exists>is1. read_lights bc (block_flags a b) (open_stream lights) b0 =
    Inr (if mb_light_points b = [] then b0 else b0\<lparr>mb_light_points := mb_light_points b\<rparr>, is1)"
proof (cases "mb_light_points b = []")
  case True
  then show ?thesis using block_flags_read(3) [of a b] by (simp add: read_lights_def)
next
  case False
  let ?p = "bc_pack_lights bc (mb_light_points b)"
  have len: "length ?p \<le> LONG_STRING_MAX_LEN" and lights: "lights = stream_write (writeU32 (of_nat (length ?p))) @ ?p"
    using assms(2) False by (simp_all add: write_lights_def serializeString32_ok)
  have "on_stream deSerializeString32 (open_stream lights) = Inr (?p, open_stream [])"
    unfolding open_stream_def lights using deSerializeString32_append [OF len, of "[]"] by (intro on_stream_ok) simp
  then show ?thesis
    using assms(1) False block_flags_read(3) [of a b] by (simp add: read_lights_def codecs_ok_def)
qed


subsection \<open>A block comes back\<close>

lemma all_nodes_lights [simp]: "all_nodes (b\<lparr>mb_light_points := l\<rparr>) = all_nodes b"
  by (simp add: all_nodes_def)

lemma expand_fields:
  assumes wf: "mb_wf b" and e: "expandNodesIfNeeded (b\<lparr>mb_is_air_expired := True\<rparr>) = Inr b'"
  shows "mb_wf b' \<and> \<not> mb_is_mono b' \<and> length (mb_data b') = nodecount \<and> mb_is_client b' = mb_is_client b \<and>
    mb_metadata b' = mb_metadata b \<and> mb_objects b' = mb_objects b \<and> mb_timers b' = mb_timers b \<and>
    mb_light_points b' = mb_light_points b \<and> mb_timestamp b' = mb_timestamp b \<and> mb_disk_timestamp b' = mb_disk_timestamp b"
  using assms
  by (cases "mb_data b") (auto simp: expandNodesIfNeeded_def mb_first_def mb_reallocate_def mb_wf_def split: if_splits)

lemma shrink_fields:
  assumes "tryShrinkNodes b = Inr b'"
  shows "mb_is_client b' = mb_is_client b \<and> mb_metadata b' = mb_metadata b \<and> mb_objects b' = mb_objects b \<and>
    mb_timers b' = mb_timers b \<and> mb_light_points b' = mb_light_points b \<and> mb_timestamp b' = mb_timestamp b \<and>
    mb_disk_timestamp b' = mb_disk_timestamp b \<and> mb_generated b' = mb_generated b \<and>
    mb_is_underground b' = mb_is_underground b \<and> mb_lighting_complete b' = mb_lighting_complete b"
  using assms
  by (cases "mb_data b") (auto simp: tryShrinkNodes_def mb_first_def mb_reallocate_def split: if_splits)

text \<open>The fields that reading the rest of a block does not touch.\<close>

definition same_fields :: "map_block \<Rightarrow> map_block \<Rightarrow> bool" where
  "same_fields b b' \<longleftrightarrow> mb_metadata b' = mb_metadata b \<and> mb_light_points b' = mb_light_points b \<and>
     mb_timestamp b' = mb_timestamp b \<and> mb_disk_timestamp b' = mb_disk_timestamp b \<and> mb_generated b' = mb_generated b \<and>
     mb_is_underground b' = mb_is_underground b \<and> mb_lighting_complete b' = mb_lighting_complete b"

lemma disk_read:
  assumes b: "\<not> mb_is_client b" "\<not> mb_is_mono b" and ns: "mb_data b = ns" "length ns' = nodecount"
    and obj: "sl_deSerialize (bc_floats bc) (open_stream (objs @ timers @ r)) (mb_objects b) = Inr (ol, open_stream (timers @ r))"
    and c: "correctBlockNodeIds False nimap ns B cache = Some (Inr (ns', B', cache'))"
    and t: "timers_deSerialize (bc_floats bc) 29 (open_stream (timers @ r)) (mb_timers b) = Inr (tl', open_stream r)"
  shows "\<exists>b'. read_block_disk bc nimap cache (open_stream (objs @ timers @ r)) b B = Some (Inr (b', open_stream r, B')) \<and>
    mb_wf b' \<and> all_nodes b' = ns' \<and> mb_objects b' = ol \<and> mb_timers b' = tl' \<and> same_fields b b'"
proof -
  let ?b = "b\<lparr>mb_objects := ol, mb_data := ns', mb_timers := tl'\<rparr>"
  have wf: "mb_wf ?b" "all_nodes ?b = ns'" using b ns(2) by (simp_all add: mb_wf_def all_nodes_def)
  obtain b2 where b2: "tryShrinkNodes ?b = Inr b2" "mb_wf b2" "all_nodes b2 = ns'"
    using shrink_all_nodes [OF wf(1)] wf(2) by auto
  let ?b3 = "b2\<lparr>mb_is_air := (nim_getId ''air'' nimap \<noteq> None), mb_is_air_expired := False\<rparr>"
  let ?b' = "if nim_size nimap = 1 then ?b3 else ?b"
  have "read_block_disk bc nimap cache (open_stream (objs @ timers @ r)) b B = Some (Inr (?b', open_stream r, B'))"
    unfolding read_block_disk_def obj obind_simps prod.case using b(1) c ns(1) t b2(1) by simp
  moreover have "mb_wf ?b' \<and> all_nodes ?b' = ns' \<and> mb_objects ?b' = ol \<and> mb_timers ?b' = tl' \<and> same_fields b ?b'"
    using wf b2(2,3) b ns(2) shrink_fields [OF b2(1)] by (auto simp: mb_wf_def all_nodes_def same_fields_def)
  ultimately show ?thesis by blast
qed

text \<open>Reading up to the metadata; what follows is only on disk, and the points of light.\<close>

lemma front_read:
  assumes codecs: "codecs_ok bc b" and b0: "mb_wf b0" "ml_clear (mb_metadata b0) = Inr l1" and g: "mb_generated b"
    and l: "sorted_wrt v3_less (map fst (ml_data (mb_metadata b)))" "length (ml_data (mb_metadata b)) < 65536"
      "list_all (\<lambda>(p, d). pos_ok False p \<and> nm_ok idef d) (ml_data (mb_metadata b))"
    and metas: "ml_serialize 29 disk False False (mb_metadata b) = Inr metas" and ns: "length ns = nodecount"
    and nimap: "disk \<Longrightarrow> nim_deSerialize (names @ stream_write [2, 2] @ stream_write (bulk_bytes ns) @ metas @ tail) =
        Inr (nimap, stream_write [2, 2] @ stream_write (bulk_bytes ns) @ metas @ tail)"
      "\<not> disk \<Longrightarrow> nimap = nim_clear"
    and s: "s = bc_compress bc 29 (stream_write [block_flags a b] @ stream_write (writeU16 (mb_lighting_complete b)) @
      (if disk then stream_write (writeU32 (mb_timestamp b)) @ names else []) @ stream_write [2, 2] @
      stream_write (bulk_bytes ns) @ metas @ tail)"
  obtains b4 where "mb_deSerialize_29 bc idef fng disk cache (open_stream (s @ rest)) b0 B =
      obind (if disk then read_block_disk bc nimap cache (open_stream tail) b4 B else Some (Inr (b4, open_stream tail, B)))
        (\<lambda>(b3, is3, nodedef1). obind (Some (read_lights bc (block_flags a b) is3 b3))
          (\<lambda>(b4, _). Some (Inr (True, b4, open_stream rest, nodedef1))))"
    and "mb_data b4 = ns" "\<not> mb_is_mono b4" "mb_is_client b4 = mb_is_client b0" "mb_generated b4"
    and "mb_is_underground b4 = mb_is_underground b" "mb_lighting_complete b4 = mb_lighting_complete b"
    and "mb_objects b4 = mb_objects b0" "mb_timers b4 = mb_timers b0" "mb_light_points b4 = mb_light_points b0"
    and "mb_timestamp b4 = (if disk then mb_timestamp b else mb_timestamp b0)"
    and "disk \<Longrightarrow> mb_disk_timestamp b4 = mb_timestamp b" and "metas_as_read disk b (mb_metadata b4)"
proof -
  obtain b2 where b2: "expandNodesIfNeeded (b0\<lparr>mb_is_air_expired := True\<rparr>) = Inr b2"
    using expand_all_nodes [of "b0\<lparr>mb_is_air_expired := True\<rparr>"] b0(1) by (auto simp: mb_wf_def)
  note b2_same = expand_fields [OF b0(1) b2]
  let ?b3 = "(with_head disk b b2)\<lparr>mb_generated := True\<rparr>"
  obtain ml where ml: "read_block_nodes idef (open_stream (stream_write [2, 2] @ stream_write (bulk_bytes ns) @ metas @ tail)) ?b3 =
      Inr (?b3\<lparr>mb_data := ns, mb_metadata := ml\<rparr>, open_stream tail)" "metas_as_read disk b ml"
    using nodes_read [OF ns _ metas l, of ?b3 l1 tail] b2_same b0(2)
    by (auto simp: metas_as_read_def)
  let ?b4 = "?b3\<lparr>mb_data := ns, mb_metadata := ml\<rparr>"
  let ?raw = "stream_write [block_flags a b] @ stream_write (writeU16 (mb_lighting_complete b)) @
      (if disk then stream_write (writeU32 (mb_timestamp b)) @ names else []) @ stream_write [2, 2] @
      stream_write (bulk_bytes ns) @ metas @ tail"
  have d: "bc_decompress bc 29 (open_stream (s @ rest)) = Inr (?raw, open_stream rest)"
    using codecs by (simp add: s codecs_ok_def)
  have h: "read_block_head disk (open_stream ?raw) b2 = Inr ((block_flags a b, nimap, with_head disk b b2),
      open_stream (stream_write [2, 2] @ stream_write (bulk_bytes ns) @ metas @ tail))"
    by (rule head_read) (use nimap in auto)
  have g3: "mb_generated (with_head disk b b2)" using g by simp
  show thesis
  proof (rule that [of ?b4])
    show "mb_deSerialize_29 bc idef fng disk cache (open_stream (s @ rest)) b0 B =
      obind (if disk then read_block_disk bc nimap cache (open_stream tail) ?b4 B else Some (Inr (?b4, open_stream tail, B)))
        (\<lambda>(b3, is3, nodedef1). obind (Some (read_lights bc (block_flags a b) is3 b3))
          (\<lambda>(b4, _). Some (Inr (True, b4, open_stream rest, nodedef1))))"
      unfolding mb_deSerialize_29_def b2 d obind_simps prod.case h using g3 ml(1) by simp
  qed (use b2_same ml(2) in \<open>simp_all\<close>)
qed

lemma written_facts:
  assumes "block_storable fl idef b" and "isAir b = Inr (a, b1)"
  shows "mb_wf b1" "all_nodes b1 = all_nodes b" "mb_generated b1" "sorted_wrt v3_less (map fst (ml_data (mb_metadata b1)))"
    "length (ml_data (mb_metadata b1)) < 65536" "list_all (\<lambda>(p, d). pos_ok False p \<and> nm_ok idef d) (ml_data (mb_metadata b1))"
    "mb_metadata b1 = mb_metadata b" "mb_light_points b1 = mb_light_points b" "mb_timestamp b1 = mb_timestamp b"
    "mb_is_underground b1 = mb_is_underground b" "mb_lighting_complete b1 = mb_lighting_complete b"
    "mb_objects b1 = mb_objects b" "mb_timers b1 = mb_timers b"
  using assms(1) isAir_keeps [OF assms(2)] by (simp_all add: block_storable_def mb_wf_def all_nodes_def)

lemma version_29: "ser_ver_supported_write (uint (29 :: u8))"
  by (simp add: ser_ver_supported_write_def SER_FMT_VER_HIGHEST_WRITE_def SER_FMT_VER_LOWEST_WRITE_def)

text \<open>What a receiver has after a block was read from the network.\<close>

definition block_as_received :: "map_block \<Rightarrow> map_block \<Rightarrow> map_block \<Rightarrow> bool" where
  "block_as_received b b0 b' \<longleftrightarrow> mb_wf b' \<and> all_nodes b' = all_nodes b \<and> mb_generated b' \<and>
     mb_is_underground b' = mb_is_underground b \<and> mb_lighting_complete b' = mb_lighting_complete b \<and>
     mb_timestamp b' = mb_timestamp b0 \<and> mb_objects b' = mb_objects b0 \<and> mb_timers b' = mb_timers b0 \<and>
     metas_as_read False b (mb_metadata b') \<and>
     mb_light_points b' = (if mb_light_points b = [] then mb_light_points b0 else mb_light_points b)"

text \<open>
  C37: a generated block that is sent over the network is received with the same nodes, light and
  flags, over whatever block was in its place. With it come the metadata of the nodes but for what is
  private; the objects, timers and times of the block in its place stay.
\<close>

theorem sent_block_roundtrip:
  assumes codecs: "codecs_ok bc b" and st: "block_storable fl idef b" and b0: "mb_wf b0" "ml_clear (mb_metadata b0) = Inr l1"
    and A: "ndm_wf A" and tl: "iim_wf cache" and w: "fst (mb_serialize bc A 29 False cache b) = Inr s"
  shows "\<exists>b'. mb_deSerialize_29 bc idef fng False cache2 (open_stream (s @ rest)) b0 B =
      Some (Inr (True, b', open_stream rest, B)) \<and> block_as_received b b0 b'"
proof -
  obtain a b1 nimap bytes metas lights where b1: "isAir b = Inr (a, b1)"
    and nodes: "write_block_nodes A 29 False cache b1 = Inr (nimap, bytes)"
    and metas: "ml_serialize 29 False False False (mb_metadata b1) = Inr metas" and lights: "write_lights bc b1 = Inr lights"
    and s: "s = bc_compress bc 29 (stream_write [block_flags a b1] @ stream_write (writeU16 (mb_lighting_complete b1)) @
      (if False then stream_write (writeU32 (mb_timestamp b1)) @ [] else []) @ stream_write [2, 2] @
      stream_write bytes @ metas @ lights)"
    by (rule block_written [OF w]) simp
  note f = written_facts [OF st b1]
  have codecs1: "codecs_ok bc b1" using codecs f(8) by (simp add: codecs_ok_def)
  obtain ns where bytes: "bytes = bulk_bytes ns" "length ns = nodecount" "ns = all_nodes b"
    using nodes_written [OF f(1) nodes A tl version_29] f(2) by metis
  obtain b4 where b4: "mb_deSerialize_29 bc idef fng False cache2 (open_stream (s @ rest)) b0 B =
      obind (Some (read_lights bc (block_flags a b1) (open_stream lights) b4))
        (\<lambda>(b4, _). Some (Inr (True, b4, open_stream rest, B)))"
    "mb_data b4 = ns" "\<not> mb_is_mono b4" "mb_generated b4"
    "mb_is_underground b4 = mb_is_underground b" "mb_lighting_complete b4 = mb_lighting_complete b"
    "mb_objects b4 = mb_objects b0" "mb_timers b4 = mb_timers b0" "mb_light_points b4 = mb_light_points b0"
    "mb_timestamp b4 = mb_timestamp b0" "metas_as_read False b (mb_metadata b4)"
    by (rule front_read [where disk = False, OF codecs1 b0 f(3-6) metas bytes(2) _ refl s [unfolded bytes(1)], where fng = fng and cache = cache2 and rest = rest and B = B])
      (use f in \<open>simp_all add: metas_as_read_def\<close>)
  let ?b' = "if mb_light_points b1 = [] then b4 else b4\<lparr>mb_light_points := mb_light_points b1\<rparr>"
  obtain is1 where "read_lights bc (block_flags a b1) (open_stream lights) b4 = Inr (?b', is1)"
    using lights_read [OF codecs1 lights, of a b4] by blast
  then have "mb_deSerialize_29 bc idef fng False cache2 (open_stream (s @ rest)) b0 B = Some (Inr (True, ?b', open_stream rest, B))"
    by (simp add: b4(1))
  moreover have "block_as_received b b0 ?b'"
    using b4(2-) f bytes by (simp add: block_as_received_def mb_wf_def all_nodes_def)
  ultimately show ?thesis by blast
qed

text \<open>
  C36: a generated block that a server has stored in the format of version 29 is loaded again by any server,
  also one with other definitions and ids of nodes. The nodes are the same under the ids that the
  loading server has for their names; the metadata of all nodes, with what is private, the objects,
  the timers, the points of light, the times and the flags are as they were written. Loading only fails
  when there is a name that the server does not know (and has no id for).
\<close>

theorem stored_block_roundtrip:
  assumes codecs: "codecs_ok bc b" and st: "block_storable (bc_floats bc) idef b"
    and b0: "mb_wf b0" "\<not> mb_is_client b0" "ml_clear (mb_metadata b0) = Inr l1"
    and A: "ndm_wf A" and B: "ndm_wf B" and tl: "iim_wf cache" "iim_wf cache2"
    and w: "fst (mb_serialize bc A 29 True cache b) = Inr s"
  shows "(\<exists>b' B'. mb_deSerialize_29 bc idef fng True cache2 (open_stream (s @ rest)) b0 B =
        Some (Inr (True, b', open_stream rest, B')) \<and> block_as_loaded (bc_floats bc) b b0 b' \<and>
      list_all2 (same_node A B') (all_nodes b) (all_nodes b') \<and> keeps_ids B B' \<and> ndm_wf B') \<or>
    (mb_deSerialize_29 bc idef fng True cache2 (open_stream (s @ rest)) b0 B = Some (Inl SerializationError) \<and>
      (\<exists>n \<in> set (all_nodes b). ndm_getId (cf_name (ndm_get (getContent n) A)) B = None))"
proof -
  let ?fl = "bc_floats bc"
  obtain a b1 nimap bytes names metas objs lights where b1: "isAir b = Inr (a, b1)"
    and nodes: "write_block_nodes A 29 True cache b1 = Inr (nimap, bytes)" and names: "nim_serialize nimap = Inr names"
    and metas: "ml_serialize 29 True False False (mb_metadata b1) = Inr metas"
    and objs: "fst (sl_serialize ?fl (mb_objects b1)) = Inr objs" and lights: "write_lights bc b1 = Inr lights"
    and s: "s = bc_compress bc 29 (stream_write [block_flags a b1] @ stream_write (writeU16 (mb_lighting_complete b1)) @
      (if True then stream_write (writeU32 (mb_timestamp b1)) @ names else []) @ stream_write [2, 2] @
      stream_write bytes @ metas @ objs @ timers_serialize ?fl 29 (mb_timers b1) @ lights)"
    by (rule block_written [OF w]) simp
  note f = written_facts [OF st b1]
  have codecs1: "codecs_ok bc b1" using codecs f(8) by (simp add: codecs_ok_def)
  obtain ns mp ctr where bytes: "bytes = bulk_bytes ns" "length ns = nodecount"
    and ren: "list_all2 (renamed A nimap) (all_nodes b) ns" "numbered A mp ctr nimap"
    using nodes_written [OF f(1) nodes A tl(1) version_29] f(2) by metis
  let ?timers = "timers_serialize ?fl 29 (mb_timers b1)"
  let ?tail = "objs @ ?timers @ lights"
  obtain nimap' where nimap': "nim_deSerialize (names @ stream_write [2, 2] @ stream_write (bulk_bytes ns) @ metas @ ?tail) =
      Inr (nimap', stream_write [2, 2] @ stream_write (bulk_bytes ns) @ metas @ ?tail)"
    and ids: "(\<exists>ns'' B' c. correctBlockNodeIds False nimap' ns B cache2 = Some (Inr (ns'', B', c)) \<and>
        list_all2 (same_node A B') (all_nodes b) ns'' \<and> keeps_ids B B' \<and> ndm_wf B') \<or>
      (correctBlockNodeIds False nimap' ns B cache2 = Some (Inl SerializationError) \<and>
        (\<exists>n \<in> set (all_nodes b). ndm_getId (cf_name (ndm_get (getContent n) A)) B = None))"
    using ids_translated [OF A B tl(2) ren names] by metis
  obtain b4 where b4: "mb_deSerialize_29 bc idef fng True cache2 (open_stream (s @ rest)) b0 B =
      obind (read_block_disk bc nimap' cache2 (open_stream ?tail) b4 B)
        (\<lambda>(b3, is3, nodedef1). obind (Some (read_lights bc (block_flags a b1) is3 b3))
          (\<lambda>(b4, _). Some (Inr (True, b4, open_stream rest, nodedef1))))"
    "mb_data b4 = ns" "\<not> mb_is_mono b4" "\<not> mb_is_client b4" "mb_generated b4"
    "mb_is_underground b4 = mb_is_underground b" "mb_lighting_complete b4 = mb_lighting_complete b"
    "mb_objects b4 = mb_objects b0" "mb_timers b4 = mb_timers b0" "mb_light_points b4 = mb_light_points b0"
    "mb_timestamp b4 = mb_timestamp b" "mb_disk_timestamp b4 = mb_timestamp b" "metas_as_read True b (mb_metadata b4)"
    by (rule front_read [where disk = True, OF codecs1 b0(1,3) f(3-6) metas bytes(2) nimap' _ s [unfolded bytes(1)], where fng = fng and cache = cache2 and rest = rest and B = B])
      (use f b0(2) in \<open>simp_all add: metas_as_read_def\<close>)
  let ?ol = "(mb_objects b0)\<lparr>sl_stored := map (so_narrowed ?fl) (sl_stored (mb_objects b) @ map snd (sl_active (mb_objects b)))\<rparr>"
  have obj: "sl_deSerialize ?fl (open_stream ?tail) (mb_objects b4) = Inr (?ol, open_stream (?timers @ lights))"
    using objects_roundtrip [of ?fl "mb_objects b" "?timers @ lights" "mb_objects b0"] st f objs b4
    by (auto simp: block_storable_def open_stream_def)
  let ?tl = "timers_as_read ?fl (mb_timers b) (mb_timers b0)"
  have t: "timers_deSerialize ?fl 29 (open_stream (?timers @ lights)) (mb_timers b4) = Inr (?tl, open_stream lights)"
    using timers_roundtrip [of ?fl "mb_timers b" 29 lights "mb_timers b0"] st f b4
    by (simp add: block_storable_def open_stream_def)
  from ids show ?thesis
  proof (elim disjE exE conjE)
    fix ns'' B' c
    assume c: "correctBlockNodeIds False nimap' ns B cache2 = Some (Inr (ns'', B', c))"
      and ok: "list_all2 (same_node A B') (all_nodes b) ns''" "keeps_ids B B'" "ndm_wf B'"
    have len: "length ns'' = nodecount"
      using list_all2_lengthD [OF ok(1)] list_all2_lengthD [OF ren(1)] bytes(2) by simp
    obtain b5 where b5: "read_block_disk bc nimap' cache2 (open_stream ?tail) b4 B = Some (Inr (b5, open_stream lights, B'))"
      "mb_wf b5" "all_nodes b5 = ns''" "mb_objects b5 = ?ol" "mb_timers b5 = ?tl" "same_fields b4 b5"
      using disk_read [OF b4(4,3,2) len obj c t] by blast
    let ?b' = "if mb_light_points b1 = [] then b5 else b5\<lparr>mb_light_points := mb_light_points b1\<rparr>"
    obtain is1 where "read_lights bc (block_flags a b1) (open_stream lights) b5 = Inr (?b', is1)"
      using lights_read [OF codecs1 lights, of a b5] by blast
    then have "mb_deSerialize_29 bc idef fng True cache2 (open_stream (s @ rest)) b0 B = Some (Inr (True, ?b', open_stream rest, B'))"
      by (simp add: b4(1) b5(1))
    moreover have "block_as_loaded ?fl b b0 ?b'"
      using b4(2-) b5(2-) f by (auto simp: block_as_loaded_def same_fields_def mb_wf_def)
    moreover have "all_nodes ?b' = ns''" using b5(3) by simp
    ultimately show ?thesis using ok by blast
  next
    assume c: "correctBlockNodeIds False nimap' ns B cache2 = Some (Inl SerializationError)"
      and n: "\<exists>n \<in> set (all_nodes b). ndm_getId (cf_name (ndm_get (getContent n) A)) B = None"
    have "read_block_disk bc nimap' cache2 (open_stream ?tail) b4 B = Some (Inl SerializationError)"
      unfolding read_block_disk_def obj obind_simps prod.case using b4(2,4) c by simp
    with b4(1) n show ?thesis by simp
  qed
qed

subsection \<open>An example\<close>

text \<open>
  A block of air with one light, compressed by writing its length in unary before it, and stored and
  loaded by a server with the built-in nodes.
\<close>

definition example_codecs :: block_codecs where
  "example_codecs = \<lparr>bc_floats = plain_floats,
     bc_compress = (\<lambda>_ s. replicate (length s) CHR ''x'' @ CHR ''.'' # s),
     bc_decompress = (\<lambda>_ is. let n = length (takeWhile (\<lambda>c. c = CHR ''x'') (buf is)); r = drop (Suc n) (buf is)
        in Inr (take n r, open_stream (drop n r))),
     bc_pack_lights = (\<lambda>_. ''l''), bc_unpack_lights = (\<lambda>_. Inr (Some [(mk_v3 1 2 3, 14)]))\<rparr>"

definition empty_block :: map_block where
  "empty_block = (case mb_new False of Inr b \<Rightarrow> b)"

definition example_block :: map_block where
  "example_block = empty_block\<lparr>mb_data := [node_new CONTENT_AIR], mb_is_mono := True, mb_generated := True,
     mb_light_points := [(mk_v3 1 2 3, 14)]\<rparr>"

lemma empty_block_fields:
  "mb_wf empty_block" "\<not> mb_is_client empty_block" "mb_metadata empty_block = \<lparr>ml_owner = True, ml_data = []\<rparr>"
  "mb_objects empty_block = sl_new" "mb_timers empty_block = timers_new"
  by (simp_all add: empty_block_def mb_new_def mb_reallocate_def mb_wf_def)

lemma example_codecs_ok: "codecs_ok example_codecs example_block"
proof -
  have "takeWhile (\<lambda>c. c = CHR ''x'') (replicate n CHR ''x'' @ CHR ''.'' # s) = replicate n CHR ''x''" for n s
    by (induction n) auto
  then show ?thesis
    by (simp add: codecs_ok_def example_codecs_def example_block_def open_stream_def Let_def)
qed

lemma example_storable: "block_storable fl idef example_block"
  using empty_block_fields
  by (simp add: block_storable_def example_block_def mb_wf_def sl_new_def sl_size_def timers_new_def)

lemma ndm_clear_air:
  obtains A where "ndm_clear = Inr A" and "ndm_wf A" and "ndm_getId ''air'' A = Some 126" and "cf_name (ndm_get 126 A) = ''air''"
proof -
  obtain A where A: "ndm_clear = Inr A" "ndm_wf A" using ndm_clear_wf by blast
  have "m_content_features A ! 126 = air_features" "126 < length (m_content_features A)"
    using ndm_clear_ok unfolding A(1) by auto
  then have "cf_name (ndm_get 126 A) = ''air''" by (simp add: ndm_get_def air_features_def)
  moreover have "ndm_getId ''air'' A = Some 126"
    using A(1) by (auto simp: ndm_clear_def put_builtin_def addNameIdMapping_def nim_set_def nim_clear_def
      resetNodeResolveState_def CONTENT_UNKNOWN_def CONTENT_AIR_def CONTENT_IGNORE_def ndm_getId_def
      unknown_features_def air_features_def ignore_features_def Let_def)
  ultimately show thesis using that A by blast
qed

lemma example_written:
  assumes "cf_name (ndm_get 126 A) = ''air''"
  shows "\<exists>s. fst (mb_serialize example_codecs A 29 disk iim_new example_block) = Inr s"
proof -
  have air: "isAir example_block = Inr (True, example_block\<lparr>mb_is_air_expired := False, mb_is_air := True\<rparr>)"
    by (simp add: isAir_def actuallyUpdateIsAir_def mb_first_def example_block_def empty_block_def mb_new_def mb_reallocate_def
        getContent_def node_new_def)
  have d: "mb_data example_block = [node_new 126]" "mb_is_mono example_block" "mb_light_points example_block = [(mk_v3 1 2 3, 14)]"
    "mb_metadata example_block = \<lparr>ml_owner = True, ml_data = []\<rparr>" "mb_objects example_block = sl_new"
    by (simp_all add: example_block_def empty_block_fields CONTENT_AIR_def)
  have ids: "getBlockNodeIdMapping nim_clear [node_new 126] A iim_new =
      Inr (\<lparr>id_to_name = [(0, ''air'')], name_to_id = [(''air'', 0)]\<rparr>, [node_new 0], iim_set 126 0 iim_new)"
    using assms by (simp add: getBlockNodeIdMapping_def iim_clear_new [OF iim_wf_new] node_new_def getContent_def setContent_def
        nim_set_def nim_clear_def Let_def)
  obtain names where names: "nim_serialize \<lparr>id_to_name = [(0, ''air'')], name_to_id = [(''air'', 0)]\<rparr> = Inr names"
    by (simp add: nim_serialize_def serializeString16_def STRING_MAX_LEN_def)
  obtain objs l where objs: "sl_serialize plain_floats sl_new = (Inr objs, l)"
    by (simp add: sl_serialize_def sl_new_def sl_size_def Let_def)
  have bulk: "serializeBulk 29 [n] nodecount 2 2 True = Inr (bulk_bytes (replicate nodecount n))" for n
    using serializeBulk_bytes(2) [OF version_29, of nodecount n] by (simp add: nodecount_def)
  have nodes: "\<exists>m bytes. write_block_nodes A 29 disk iim_new (example_block\<lparr>mb_is_air_expired := False, mb_is_air := True\<rparr>) = Inr (m, bytes) \<and>
      (disk \<longrightarrow> nim_serialize m = Inr names)"
    by (simp add: write_block_nodes_def d ids bulk names)
  have meta: "\<exists>ms. ml_serialize 29 disk False False \<lparr>ml_owner = True, ml_data = []\<rparr> = Inr ms"
    by (simp add: ml_serialize_def countNonEmpty_def)
  have lights: "\<exists>ls. write_lights example_codecs example_block = Inr ls"
    by (simp add: write_lights_def d example_codecs_def serializeString32_def LONG_STRING_MAX_LEN_def)
  have "bc_floats example_codecs = plain_floats" by (simp add: example_codecs_def)
  then show ?thesis
    using version_29 air nodes meta lights objs by (auto simp: mb_serialize_def d)
qed

theorem stored_block_roundtrip_witness:
  "\<exists>A s b' B'. ndm_clear = Inr A \<and> fst (mb_serialize example_codecs A 29 True iim_new example_block) = Inr s \<and>
    mb_deSerialize_29 example_codecs None False True iim_new (open_stream (s @ ''x'')) empty_block A =
      Some (Inr (True, b', open_stream ''x'', B')) \<and> block_as_loaded plain_floats example_block empty_block b' \<and>
    all_nodes b' = replicate nodecount (node_new CONTENT_AIR)"
proof -
  obtain A where A: "ndm_clear = Inr A" "ndm_wf A" "ndm_getId ''air'' A = Some 126" "cf_name (ndm_get 126 A) = ''air''"
    by (rule ndm_clear_air)
  obtain s where s: "fst (mb_serialize example_codecs A 29 True iim_new example_block) = Inr s"
    using example_written [OF A(4)] by blast
  have air: "all_nodes example_block = replicate nodecount (node_new 126)"
    by (simp add: all_nodes_def example_block_def CONTENT_AIR_def)
  have c: "ml_clear (mb_metadata empty_block) = Inr \<lparr>ml_owner = True, ml_data = []\<rparr>"
    by (simp add: ml_clear_def empty_block_fields)
  have fl: "bc_floats example_codecs = plain_floats" by (simp add: example_codecs_def)
  have g: "getContent (node_new 126) = 126" by (simp add: getContent_def node_new_def)
  have "\<not> (\<exists>n \<in> set (all_nodes example_block). ndm_getId (cf_name (ndm_get (getContent n) A)) A = None)"
    by (simp add: air A(3,4) g)
  then obtain b' B' where b': "mb_deSerialize_29 example_codecs None False True iim_new (open_stream (s @ ''x'')) empty_block A =
      Some (Inr (True, b', open_stream ''x'', B'))" "block_as_loaded plain_floats example_block empty_block b'"
    "list_all2 (same_node A B') (all_nodes example_block) (all_nodes b')" "keeps_ids A B'"
    using stored_block_roundtrip [OF example_codecs_ok example_storable empty_block_fields(1,2) c A(2,2) iim_wf_new iim_wf_new s,
        where rest = "''x''" and fng = False and idef = None] fl by auto
  have id: "id_of_name B' ''air'' = Some 126"
    using b'(4) known_name [OF A(3)] by (simp add: keeps_ids_def)
  have "n = node_new 126" if "same_node A B' (node_new 126) n" for n
    using that id by (cases n) (simp add: same_node_def g A(4), simp add: node_new_def getContent_def)
  then have "all_nodes b' = replicate nodecount (node_new 126)"
    using b'(3) unfolding air list_all2_conv_all_nth by (auto intro!: nth_equalityI)
  then show ?thesis using A(1) s b'(1,2) by (auto simp: CONTENT_AIR_def)
qed

theorem sent_block_roundtrip_witness:
  "\<exists>A s b'. ndm_clear = Inr A \<and> fst (mb_serialize example_codecs A 29 False iim_new example_block) = Inr s \<and>
    mb_deSerialize_29 example_codecs None False False iim_new (open_stream (s @ ''x'')) empty_block A =
      Some (Inr (True, b', open_stream ''x'', A)) \<and> block_as_received example_block empty_block b'"
proof -
  obtain A where A: "ndm_clear = Inr A" "ndm_wf A" "ndm_getId ''air'' A = Some 126" "cf_name (ndm_get 126 A) = ''air''"
    by (rule ndm_clear_air)
  obtain s where s: "fst (mb_serialize example_codecs A 29 False iim_new example_block) = Inr s"
    using example_written [OF A(4)] by blast
  have c: "ml_clear (mb_metadata empty_block) = Inr \<lparr>ml_owner = True, ml_data = []\<rparr>"
    by (simp add: ml_clear_def empty_block_fields)
  show ?thesis
    using sent_block_roundtrip [OF example_codecs_ok example_storable empty_block_fields(1) c A(2) iim_wf_new s,
        where rest = "''x''" and fng = False and idef = None] A(1) s by blast
qed

end
