(* ===== verification/VoxelArea.thy ===== *)
theory VoxelArea
  imports Prelude
begin

section \<open>Areas of the voxel map\<close>

text \<open>
  \<^verbatim>\<open>VoxelArea\<close> of \<^verbatim>\<open>src/voxel.h\<close>: a box of positions with inclusive edges and a cached extent, and the
  translation of its positions to indices of an array. Positions are \<open>s32\<close>; sums that leave the
  width wrap. \<open>cacheExtent\<close> asserts that the extents are not negative, so every operation that makes
  an area may fail.
\<close>

record voxel_area =
  MinEdge :: v3
  MaxEdge :: v3
  va_extent :: v3

definition area_new :: voxel_area where
  "area_new = \<lparr>MinEdge = mk_v3 1 1 1, MaxEdge = mk_v3 0 0 0, va_extent = mk_v3 0 0 0\<rparr>"

definition v3_add :: "v3 \<Rightarrow> v3 \<Rightarrow> v3" where
  "v3_add p q = mk_v3 (to_s32 (vX p + vX q)) (to_s32 (vY p + vY q)) (to_s32 (vZ p + vZ q))"

definition v3_sub :: "v3 \<Rightarrow> v3 \<Rightarrow> v3" where
  "v3_sub p q = mk_v3 (to_s32 (vX p - vX q)) (to_s32 (vY p - vY q)) (to_s32 (vZ p - vZ q))"

definition cacheExtent :: "voxel_area \<Rightarrow> voxel_area res" where
  "cacheExtent a =
     (let e = mk_v3 (to_s32 (vX (MaxEdge a) - vX (MinEdge a) + 1)) (to_s32 (vY (MaxEdge a) - vY (MinEdge a) + 1))
                (to_s32 (vZ (MaxEdge a) - vZ (MinEdge a) + 1))
      in if vX e \<ge> 0 \<and> vY e \<ge> 0 \<and> vZ e \<ge> 0 then Inr (a\<lparr>va_extent := e\<rparr>) else Inl AssertFailed)"

definition area_of :: "v3 \<Rightarrow> v3 \<Rightarrow> voxel_area res" where
  "area_of min_edge max_edge = cacheExtent (area_new\<lparr>MinEdge := min_edge, MaxEdge := max_edge\<rparr>)"

definition area_at :: "v3 \<Rightarrow> voxel_area res" where
  "area_at p = cacheExtent (area_new\<lparr>MinEdge := p, MaxEdge := p\<rparr>)"

definition hasEmptyExtent :: "voxel_area \<Rightarrow> bool" where
  "hasEmptyExtent a \<longleftrightarrow> vX (va_extent a) = 0 \<or> vY (va_extent a) = 0 \<or> vZ (va_extent a) = 0"

definition area_addArea :: "voxel_area \<Rightarrow> voxel_area \<Rightarrow> voxel_area res" where
  "area_addArea a self =
     (if hasEmptyExtent self then Inr a
      else cacheExtent (self\<lparr>
        MinEdge := mk_v3
          (if vX (MinEdge a) < vX (MinEdge self) then vX (MinEdge a) else vX (MinEdge self))
          (if vY (MinEdge a) < vY (MinEdge self) then vY (MinEdge a) else vY (MinEdge self))
          (if vZ (MinEdge a) < vZ (MinEdge self) then vZ (MinEdge a) else vZ (MinEdge self)),
        MaxEdge := mk_v3
          (if vX (MaxEdge a) > vX (MaxEdge self) then vX (MaxEdge a) else vX (MaxEdge self))
          (if vY (MaxEdge a) > vY (MaxEdge self) then vY (MaxEdge a) else vY (MaxEdge self))
          (if vZ (MaxEdge a) > vZ (MaxEdge self) then vZ (MaxEdge a) else vZ (MaxEdge self))\<rparr>))"

definition addPoint :: "v3 \<Rightarrow> voxel_area \<Rightarrow> voxel_area res" where
  "addPoint p self =
     (if hasEmptyExtent self then cacheExtent (self\<lparr>MinEdge := p, MaxEdge := p\<rparr>)
      else cacheExtent (self\<lparr>
        MinEdge := mk_v3
          (if vX p < vX (MinEdge self) then vX p else vX (MinEdge self))
          (if vY p < vY (MinEdge self) then vY p else vY (MinEdge self))
          (if vZ p < vZ (MinEdge self) then vZ p else vZ (MinEdge self)),
        MaxEdge := mk_v3
          (if vX p > vX (MaxEdge self) then vX p else vX (MaxEdge self))
          (if vY p > vY (MaxEdge self) then vY p else vY (MaxEdge self))
          (if vZ p > vZ (MaxEdge self) then vZ p else vZ (MaxEdge self))\<rparr>))"

definition pad :: "v3 \<Rightarrow> voxel_area \<Rightarrow> voxel_area res" where
  "pad d a = cacheExtent (a\<lparr>MinEdge := v3_sub (MinEdge a) d, MaxEdge := v3_add (MaxEdge a) d\<rparr>)"

definition getVolume :: "voxel_area \<Rightarrow> u32" where
  "getVolume a = word_of_int (vX (va_extent a)) * word_of_int (vY (va_extent a)) * word_of_int (vZ (va_extent a))"

definition contains_area :: "voxel_area \<Rightarrow> voxel_area \<Rightarrow> bool" where
  "contains_area a self \<longleftrightarrow> \<not> hasEmptyExtent a \<and>
     vX (MinEdge a) \<ge> vX (MinEdge self) \<and> vX (MaxEdge a) \<le> vX (MaxEdge self) \<and>
     vY (MinEdge a) \<ge> vY (MinEdge self) \<and> vY (MaxEdge a) \<le> vY (MaxEdge self) \<and>
     vZ (MinEdge a) \<ge> vZ (MinEdge self) \<and> vZ (MaxEdge a) \<le> vZ (MaxEdge self)"

definition contains_pos :: "v3 \<Rightarrow> voxel_area \<Rightarrow> bool" where
  "contains_pos p self \<longleftrightarrow>
     vX p \<ge> vX (MinEdge self) \<and> vX p \<le> vX (MaxEdge self) \<and>
     vY p \<ge> vY (MinEdge self) \<and> vY p \<le> vY (MaxEdge self) \<and>
     vZ p \<ge> vZ (MinEdge self) \<and> vZ p \<le> vZ (MaxEdge self)"

definition contains_index :: "int \<Rightarrow> voxel_area \<Rightarrow> bool" where
  "contains_index i self \<longleftrightarrow> i \<ge> 0 \<and> word_of_int i < getVolume self"

definition area_eq :: "voxel_area \<Rightarrow> voxel_area \<Rightarrow> bool" where
  "area_eq a b \<longleftrightarrow> MinEdge a = MinEdge b \<and> MaxEdge a = MaxEdge b"

definition area_plus :: "voxel_area \<Rightarrow> v3 \<Rightarrow> voxel_area res" where
  "area_plus a off = area_of (v3_add (MinEdge a) off) (v3_add (MaxEdge a) off)"

definition area_minus :: "voxel_area \<Rightarrow> v3 \<Rightarrow> voxel_area res" where
  "area_minus a off = area_of (v3_sub (MinEdge a) off) (v3_sub (MaxEdge a) off)"

definition area_intersect :: "voxel_area \<Rightarrow> voxel_area \<Rightarrow> voxel_area res" where
  "area_intersect a self =
     (if vX (MaxEdge a) < vX (MinEdge self) \<or> vX (MinEdge a) > vX (MaxEdge self) then Inr area_new
      else if vY (MaxEdge a) < vY (MinEdge self) \<or> vY (MinEdge a) > vY (MaxEdge self) then Inr area_new
      else if vZ (MaxEdge a) < vZ (MinEdge self) \<or> vZ (MinEdge a) > vZ (MaxEdge self) then Inr area_new
      else cacheExtent (area_new\<lparr>
        MinEdge := mk_v3 (max (vX (MinEdge a)) (vX (MinEdge self))) (max (vY (MinEdge a)) (vY (MinEdge self)))
          (max (vZ (MinEdge a)) (vZ (MinEdge self))),
        MaxEdge := mk_v3 (min (vX (MaxEdge a)) (vX (MaxEdge self))) (min (vY (MaxEdge a)) (vY (MaxEdge self)))
          (min (vZ (MaxEdge a)) (vZ (MaxEdge self)))\<rparr>))"

text \<open>\<open>diff\<close> pushes up to six boxes to the result: back, front, top, bottom, left, right.\<close>

definition diff_take :: "v3 \<Rightarrow> v3 \<Rightarrow> voxel_area list \<Rightarrow> voxel_area list res" where
  "diff_take mn mx result =
     rbind (area_of mn mx) (\<lambda>b. Inr (if hasEmptyExtent b then result else result @ [b]))"

definition area_diff :: "voxel_area \<Rightarrow> voxel_area \<Rightarrow> voxel_area list \<Rightarrow> voxel_area list res" where
  "area_diff a self result =
     (if hasEmptyExtent a then Inr (if hasEmptyExtent self then result else result @ [self])
      else if \<not> contains_area a self then Inl AssertFailed
      else
        let (X0, Y0, Z0) = (vX (MinEdge self), vY (MinEdge self), vZ (MinEdge self));
            (X1, Y1, Z1) = (vX (MaxEdge self), vY (MaxEdge self), vZ (MaxEdge self));
            (x0, y0, z0) = (vX (MinEdge a), vY (MinEdge a), vZ (MinEdge a));
            (x1, y1, z1) = (vX (MaxEdge a), vY (MaxEdge a), vZ (MaxEdge a))
        in rbind (diff_take (mk_v3 X0 Y0 (to_s32 (z1 + 1))) (mk_v3 X1 Y1 Z1) result) (\<lambda>r.
           rbind (diff_take (mk_v3 X0 Y0 Z0) (mk_v3 X1 Y1 (to_s32 (z0 - 1))) r) (\<lambda>r.
           rbind (diff_take (mk_v3 X0 (to_s32 (y1 + 1)) z0) (mk_v3 X1 Y1 z1) r) (\<lambda>r.
           rbind (diff_take (mk_v3 X0 Y0 z0) (mk_v3 X1 (to_s32 (y0 - 1)) z1) r) (\<lambda>r.
           rbind (diff_take (mk_v3 X0 y0 z0) (mk_v3 (to_s32 (x0 - 1)) y1 z1) r) (\<lambda>r.
           diff_take (mk_v3 (to_s32 (x1 + 1)) y0 z0) (mk_v3 X1 y1 z1) r))))))"

definition index_xyz :: "int \<Rightarrow> int \<Rightarrow> int \<Rightarrow> voxel_area \<Rightarrow> int" where
  "index_xyz x y z a = to_s32
     ((z - vZ (MinEdge a)) * vY (va_extent a) * vX (va_extent a) + (y - vY (MinEdge a)) * vX (va_extent a) + (x - vX (MinEdge a)))"

definition area_index :: "v3 \<Rightarrow> voxel_area \<Rightarrow> int" where
  "area_index p a = index_xyz (vX p) (vY p) (vZ p) a"

definition add_x :: "v3 \<Rightarrow> u32 \<Rightarrow> int \<Rightarrow> u32" where
  "add_x extent i a = i + word_of_int a"

definition add_y :: "v3 \<Rightarrow> u32 \<Rightarrow> int \<Rightarrow> u32" where
  "add_y extent i a = i + word_of_int (a * vX extent)"

definition add_z :: "v3 \<Rightarrow> u32 \<Rightarrow> int \<Rightarrow> u32" where
  "add_z extent i a = i + word_of_int (a * vX extent * vY extent)"

definition add_p :: "v3 \<Rightarrow> u32 \<Rightarrow> v3 \<Rightarrow> u32" where
  "add_p extent i a = i + word_of_int (vZ a * vX extent * vY extent + vY a * vX extent + vX a)"

subsection \<open>Well-formed areas\<close>

text \<open>
  Positions are within the limit of the map (\<^verbatim>\<open>MAX_MAP_GENERATION_LIMIT\<close>), and the cached extent is that
  of the edges. The default area is well-formed and empty.
\<close>

definition MAX_MAP_GENERATION_LIMIT :: int where "MAX_MAP_GENERATION_LIMIT = 2147483008"

definition in_map :: "v3 \<Rightarrow> bool" where
  "in_map p \<longleftrightarrow> \<bar>vX p\<bar> \<le> MAX_MAP_GENERATION_LIMIT \<and> \<bar>vY p\<bar> \<le> MAX_MAP_GENERATION_LIMIT \<and> \<bar>vZ p\<bar> \<le> MAX_MAP_GENERATION_LIMIT"

definition extent_ok :: "int \<Rightarrow> int \<Rightarrow> int \<Rightarrow> bool" where
  "extent_ok lo hi e \<longleftrightarrow> e = hi - lo + 1 \<and> 0 \<le> e \<and> e \<le> 2147483647"

definition area_wf :: "voxel_area \<Rightarrow> bool" where
  "area_wf a \<longleftrightarrow> in_map (MinEdge a) \<and> in_map (MaxEdge a) \<and>
     extent_ok (vX (MinEdge a)) (vX (MaxEdge a)) (vX (va_extent a)) \<and>
     extent_ok (vY (MinEdge a)) (vY (MaxEdge a)) (vY (va_extent a)) \<and>
     extent_ok (vZ (MinEdge a)) (vZ (MaxEdge a)) (vZ (va_extent a))"

definition volume :: "voxel_area \<Rightarrow> int" where
  "volume a = vX (va_extent a) * vY (va_extent a) * vZ (va_extent a)"

lemma area_wf_new [simp]: "area_wf area_new" "hasEmptyExtent area_new"
  by (simp_all add: area_wf_def area_new_def in_map_def extent_ok_def MAX_MAP_GENERATION_LIMIT_def hasEmptyExtent_def)

lemma contains_pos_new [simp]: "\<not> contains_pos p area_new"
  by (simp add: contains_pos_def area_new_def)

lemma cacheExtent_ok:
  assumes "in_map (MinEdge a)" and "in_map (MaxEdge a)"
    and "0 \<le> vX (MaxEdge a) - vX (MinEdge a) + 1" "vX (MaxEdge a) - vX (MinEdge a) + 1 \<le> 2147483647"
    and "0 \<le> vY (MaxEdge a) - vY (MinEdge a) + 1" "vY (MaxEdge a) - vY (MinEdge a) + 1 \<le> 2147483647"
    and "0 \<le> vZ (MaxEdge a) - vZ (MinEdge a) + 1" "vZ (MaxEdge a) - vZ (MinEdge a) + 1 \<le> 2147483647"
  obtains e where "cacheExtent a = Inr (a\<lparr>va_extent := e\<rparr>)" and "area_wf (a\<lparr>va_extent := e\<rparr>)"
  using assms by (intro that [of "mk_v3 (vX (MaxEdge a) - vX (MinEdge a) + 1) (vY (MaxEdge a) - vY (MinEdge a) + 1)
      (vZ (MaxEdge a) - vZ (MinEdge a) + 1)"])
    (simp_all add: cacheExtent_def Let_def s_range area_wf_def extent_ok_def)

lemma empty_contains: "area_wf a \<Longrightarrow> hasEmptyExtent a \<Longrightarrow> \<not> contains_pos p a"
  by (auto simp: area_wf_def hasEmptyExtent_def contains_pos_def extent_ok_def)

lemma not_empty_edges:
  "area_wf a \<Longrightarrow> \<not> hasEmptyExtent a \<longleftrightarrow> vX (MinEdge a) \<le> vX (MaxEdge a) \<and> vY (MinEdge a) \<le> vY (MaxEdge a) \<and> vZ (MinEdge a) \<le> vZ (MaxEdge a)"
  by (auto simp: area_wf_def hasEmptyExtent_def extent_ok_def)

text \<open>Containment of areas is inclusion of their positions.\<close>

lemma contains_area_iff:
  assumes "area_wf a" and "\<not> hasEmptyExtent a"
  shows "contains_area a b \<longleftrightarrow> (\<forall>p. contains_pos p a \<longrightarrow> contains_pos p b)"
proof
  assume all: "\<forall>p. contains_pos p a \<longrightarrow> contains_pos p b"
  have "contains_pos (MinEdge a) a" "contains_pos (MaxEdge a) a"
    using not_empty_edges [OF assms(1)] assms(2) by (simp_all add: contains_pos_def)
  with all have "contains_pos (MinEdge a) b" "contains_pos (MaxEdge a) b" by blast+
  with assms(2) show "contains_area a b" by (simp add: contains_area_def contains_pos_def)
qed (auto simp: contains_area_def contains_pos_def)

subsection \<open>Indices\<close>

text \<open>One row of indices, and rows of rows: the arithmetic behind the layout \<open>z * h * w + y * h + x\<close>.\<close>

lemma row_bound:
  fixes i j n m :: int
  assumes "0 \<le> i" "i < n" "0 \<le> j" "j < m"
  shows "0 \<le> i * m + j" "i * m + j < n * m"
proof -
  show "0 \<le> i * m + j" using assms by simp
  have "i * m + j < (i + 1) * m" using assms by (simp add: algebra_simps)
  also have "\<dots> \<le> n * m" using assms by (intro mult_right_mono) auto
  finally show "i * m + j < n * m" .
qed

lemma row_unique:
  fixes i j m :: int
  assumes "i * m + j = i' * m + j'" "0 \<le> j" "j < m" "0 \<le> j'" "j' < m"
  shows "i = i' \<and> j = j'"
proof -
  have "i = (i * m + j) div m" "i' = (i' * m + j') div m" using assms(2-5) by simp_all
  with assms(1) show ?thesis by simp
qed

definition raw_index :: "v3 \<Rightarrow> voxel_area \<Rightarrow> int" where
  "raw_index p a = ((vZ p - vZ (MinEdge a)) * vY (va_extent a) + (vY p - vY (MinEdge a))) * vX (va_extent a) + (vX p - vX (MinEdge a))"

lemma offsets:
  assumes "area_wf a" and "contains_pos p a"
  shows "0 \<le> vX p - vX (MinEdge a)" "vX p - vX (MinEdge a) < vX (va_extent a)"
    "0 \<le> vY p - vY (MinEdge a)" "vY p - vY (MinEdge a) < vY (va_extent a)"
    "0 \<le> vZ p - vZ (MinEdge a)" "vZ p - vZ (MinEdge a) < vZ (va_extent a)"
  using assms by (simp_all add: area_wf_def extent_ok_def contains_pos_def)

lemma raw_index_bounds:
  assumes "area_wf a" and "contains_pos p a"
  shows "0 \<le> raw_index p a" and "raw_index p a < volume a"
  using row_bound [OF row_bound [OF offsets(5,6,3,4) [OF assms]] offsets(1,2) [OF assms]]
  by (simp_all add: raw_index_def volume_def mult_ac)

lemma raw_index_inject:
  assumes "area_wf a" and "contains_pos p a" and "contains_pos q a" and "raw_index p a = raw_index q a"
  shows "p = q"
proof -
  have "(vZ p - vZ (MinEdge a)) * vY (va_extent a) + (vY p - vY (MinEdge a)) = (vZ q - vZ (MinEdge a)) * vY (va_extent a) + (vY q - vY (MinEdge a))
      \<and> vX p - vX (MinEdge a) = vX q - vX (MinEdge a)"
    using assms(4) offsets(1,2) [OF assms(1,2)] offsets(1,2) [OF assms(1,3)] unfolding raw_index_def by (intro row_unique) auto
  moreover then have "vZ p - vZ (MinEdge a) = vZ q - vZ (MinEdge a) \<and> vY p - vY (MinEdge a) = vY q - vY (MinEdge a)"
    using offsets(3,4) [OF assms(1,2)] offsets(3,4) [OF assms(1,3)] by (intro row_unique) auto
  ultimately show ?thesis by (simp add: v3_eq_iff)
qed

text \<open>Without overflow the index of the code is the row index.\<close>

lemma area_index_raw:
  assumes "area_wf a" and "contains_pos p a" and "volume a \<le> 2147483647"
  shows "area_index p a = raw_index p a"
proof -
  have "(vZ p - vZ (MinEdge a)) * vY (va_extent a) * vX (va_extent a) + (vY p - vY (MinEdge a)) * vX (va_extent a) + (vX p - vX (MinEdge a)) = raw_index p a"
    by (simp add: raw_index_def algebra_simps)
  with raw_index_bounds [OF assms(1,2)] assms(3) show ?thesis
    by (simp add: area_index_def index_xyz_def to_s32_id)
qed

lemma unat_getVolume:
  assumes "area_wf a" and "volume a \<le> 2147483647"
  shows "int (unat (getVolume a)) = volume a"
proof -
  have "0 \<le> volume a" using assms(1) by (simp add: volume_def area_wf_def extent_ok_def)
  moreover have "getVolume a = word_of_int (volume a)"
    by (simp add: getVolume_def volume_def)
  ultimately show ?thesis
    using assms(2) by (simp add: unsigned_of_int take_bit_int_eq_self)
qed

subsection \<open>Operations on sets of positions\<close>

text \<open>The operations that make an area succeed when the result is within the limits, and are what they say.\<close>

lemma cacheExtent_fields [simp]:
  assumes "cacheExtent a = Inr b"
  shows "MinEdge b = MinEdge a" and "MaxEdge b = MaxEdge a" and "contains_pos p b = contains_pos p a"
  using assms by (auto simp: cacheExtent_def Let_def contains_pos_def split: if_splits)

definition limited :: "v3 \<Rightarrow> v3 \<Rightarrow> bool" where
  "limited mn mx \<longleftrightarrow> in_map mn \<and> in_map mx \<and> vX mx - vX mn < 2147483647 \<and> vY mx - vY mn < 2147483647 \<and> vZ mx - vZ mn < 2147483647"

lemma area_addArea_ok:
  assumes "area_wf a" and "area_wf self"
    and "limited (mk_v3 (min (vX (MinEdge a)) (vX (MinEdge self))) (min (vY (MinEdge a)) (vY (MinEdge self))) (min (vZ (MinEdge a)) (vZ (MinEdge self))))
      (mk_v3 (max (vX (MaxEdge a)) (vX (MaxEdge self))) (max (vY (MaxEdge a)) (vY (MaxEdge self))) (max (vZ (MaxEdge a)) (vZ (MaxEdge self))))"
  obtains b where "area_addArea a self = Inr b" and "area_wf b"
    and "\<And>p. contains_pos p a \<or> contains_pos p self \<Longrightarrow> contains_pos p b"
proof (cases "hasEmptyExtent self")
  case True
  with assms that [of a] empty_contains [OF assms(2)] show ?thesis by (simp add: area_addArea_def)
next
  case False
  let ?b = "self\<lparr>MinEdge := mk_v3 (min (vX (MinEdge a)) (vX (MinEdge self))) (min (vY (MinEdge a)) (vY (MinEdge self))) (min (vZ (MinEdge a)) (vZ (MinEdge self))),
      MaxEdge := mk_v3 (max (vX (MaxEdge a)) (vX (MaxEdge self))) (max (vY (MaxEdge a)) (vY (MaxEdge self))) (max (vZ (MaxEdge a)) (vZ (MaxEdge self)))\<rparr>"
  have minmax: "(if x < y then x else y) = min x y" "(if x > y then x else y) = max x y" for x y :: int by simp_all
  have add: "area_addArea a self = cacheExtent ?b"
    using False unfolding area_addArea_def minmax by simp
  have "vX (MinEdge self) \<le> vX (MaxEdge self)" "vY (MinEdge self) \<le> vY (MaxEdge self)" "vZ (MinEdge self) \<le> vZ (MaxEdge self)"
    using not_empty_edges [OF assms(2)] False by simp_all
  with assms(3) obtain e where e: "cacheExtent ?b = Inr (?b\<lparr>va_extent := e\<rparr>)" "area_wf (?b\<lparr>va_extent := e\<rparr>)"
    by (elim cacheExtent_ok [rotated -1]) (simp_all add: limited_def)
  show ?thesis
    by (rule that [of "?b\<lparr>va_extent := e\<rparr>"]) (use add e in \<open>auto simp: contains_pos_def\<close>)
qed

lemma meet_bounds:
  assumes "extent_ok a b e" and "extent_ok c d f" and "c \<le> b" and "a \<le> d" and "\<bar>a\<bar> \<le> L" "\<bar>b\<bar> \<le> L" "\<bar>c\<bar> \<le> L" "\<bar>d\<bar> \<le> L"
  shows "0 \<le> min b d - max a c + 1 \<and> min b d - max a c + 1 \<le> 2147483647 \<and> \<bar>max a c\<bar> \<le> L \<and> \<bar>min b d\<bar> \<le> L"
  using assms unfolding extent_ok_def by linarith

lemma area_intersect_ok:
  assumes "area_wf a" and "area_wf self"
  obtains b where "area_intersect a self = Inr b" and "area_wf b"
    and "\<And>p. contains_pos p b \<longleftrightarrow> contains_pos p a \<and> contains_pos p self"
proof (cases "vX (MaxEdge a) < vX (MinEdge self) \<or> vX (MinEdge a) > vX (MaxEdge self) \<or>
    vY (MaxEdge a) < vY (MinEdge self) \<or> vY (MinEdge a) > vY (MaxEdge self) \<or>
    vZ (MaxEdge a) < vZ (MinEdge self) \<or> vZ (MinEdge a) > vZ (MaxEdge self)")
  case True
  then have "area_intersect a self = Inr area_new" by (elim disjE) (simp_all add: area_intersect_def)
  moreover have "\<not> (contains_pos p a \<and> contains_pos p self)" for p
    using True unfolding contains_pos_def by linarith
  ultimately show ?thesis by (intro that [of area_new]) simp_all
next
  case False
  let ?b = "\<lparr>MinEdge = mk_v3 (max (vX (MinEdge a)) (vX (MinEdge self))) (max (vY (MinEdge a)) (vY (MinEdge self)))
          (max (vZ (MinEdge a)) (vZ (MinEdge self))),
        MaxEdge = mk_v3 (min (vX (MaxEdge a)) (vX (MaxEdge self))) (min (vY (MaxEdge a)) (vY (MaxEdge self)))
          (min (vZ (MaxEdge a)) (vZ (MaxEdge self))), va_extent = mk_v3 0 0 0\<rparr>"
  have add: "area_intersect a self = cacheExtent ?b"
    using False by (simp add: area_intersect_def area_new_def)
  obtain e where e: "cacheExtent ?b = Inr (?b\<lparr>va_extent := e\<rparr>)" "area_wf (?b\<lparr>va_extent := e\<rparr>)"
  proof (rule cacheExtent_ok [of ?b])
    note w = assms [unfolded area_wf_def in_map_def]
    have x: "0 \<le> min (vX (MaxEdge a)) (vX (MaxEdge self)) - max (vX (MinEdge a)) (vX (MinEdge self)) + 1 \<and>
        min (vX (MaxEdge a)) (vX (MaxEdge self)) - max (vX (MinEdge a)) (vX (MinEdge self)) + 1 \<le> 2147483647 \<and>
        \<bar>max (vX (MinEdge a)) (vX (MinEdge self))\<bar> \<le> MAX_MAP_GENERATION_LIMIT \<and>
        \<bar>min (vX (MaxEdge a)) (vX (MaxEdge self))\<bar> \<le> MAX_MAP_GENERATION_LIMIT"
      by (rule meet_bounds [of _ _ "vX (va_extent a)" _ _ "vX (va_extent self)"]) (use w False in simp_all)
    have y: "0 \<le> min (vY (MaxEdge a)) (vY (MaxEdge self)) - max (vY (MinEdge a)) (vY (MinEdge self)) + 1 \<and>
        min (vY (MaxEdge a)) (vY (MaxEdge self)) - max (vY (MinEdge a)) (vY (MinEdge self)) + 1 \<le> 2147483647 \<and>
        \<bar>max (vY (MinEdge a)) (vY (MinEdge self))\<bar> \<le> MAX_MAP_GENERATION_LIMIT \<and>
        \<bar>min (vY (MaxEdge a)) (vY (MaxEdge self))\<bar> \<le> MAX_MAP_GENERATION_LIMIT"
      by (rule meet_bounds [of _ _ "vY (va_extent a)" _ _ "vY (va_extent self)"]) (use w False in simp_all)
    have z: "0 \<le> min (vZ (MaxEdge a)) (vZ (MaxEdge self)) - max (vZ (MinEdge a)) (vZ (MinEdge self)) + 1 \<and>
        min (vZ (MaxEdge a)) (vZ (MaxEdge self)) - max (vZ (MinEdge a)) (vZ (MinEdge self)) + 1 \<le> 2147483647 \<and>
        \<bar>max (vZ (MinEdge a)) (vZ (MinEdge self))\<bar> \<le> MAX_MAP_GENERATION_LIMIT \<and>
        \<bar>min (vZ (MaxEdge a)) (vZ (MaxEdge self))\<bar> \<le> MAX_MAP_GENERATION_LIMIT"
      by (rule meet_bounds [of _ _ "vZ (va_extent a)" _ _ "vZ (va_extent self)"]) (use w False in simp_all)
    show "in_map (MinEdge ?b)" "in_map (MaxEdge ?b)"
      using x y z by (simp_all only: in_map_def v3.simps voxel_area.simps simp_thms)
    show "0 \<le> vX (MaxEdge ?b) - vX (MinEdge ?b) + 1" "vX (MaxEdge ?b) - vX (MinEdge ?b) + 1 \<le> 2147483647"
      "0 \<le> vY (MaxEdge ?b) - vY (MinEdge ?b) + 1" "vY (MaxEdge ?b) - vY (MinEdge ?b) + 1 \<le> 2147483647"
      "0 \<le> vZ (MaxEdge ?b) - vZ (MinEdge ?b) + 1" "vZ (MaxEdge ?b) - vZ (MinEdge ?b) + 1 \<le> 2147483647"
      using x y z by (simp_all only: v3.simps voxel_area.simps simp_thms)
  qed
  show ?thesis
    by (rule that [of "?b\<lparr>va_extent := e\<rparr>"]) (use add e in \<open>auto simp: contains_pos_def\<close>)
qed

subsection \<open>The difference of two areas\<close>

definition covered :: "v3 \<Rightarrow> voxel_area list \<Rightarrow> nat" where
  "covered p rs = length (filter (contains_pos p) rs)"

definition proper :: "voxel_area \<Rightarrow> bool" where
  "proper a \<longleftrightarrow> area_wf a \<and> \<not> hasEmptyExtent a"

definition between :: "v3 \<Rightarrow> v3 \<Rightarrow> v3 \<Rightarrow> nat" where
  "between mn mx p = of_bool (vX mn \<le> vX p \<and> vX p \<le> vX mx \<and> vY mn \<le> vY p \<and> vY p \<le> vY mx \<and> vZ mn \<le> vZ p \<and> vZ p \<le> vZ mx)"

definition adds_box :: "v3 \<Rightarrow> v3 \<Rightarrow> voxel_area list \<Rightarrow> voxel_area list \<Rightarrow> bool" where
  "adds_box mn mx rs rs' \<longleftrightarrow> (\<forall>p. covered p rs' = covered p rs + between mn mx p) \<and> length rs' \<le> length rs + 1 \<and>
     (list_all proper rs \<longrightarrow> list_all proper rs')"

definition side :: "int \<Rightarrow> int \<Rightarrow> bool" where
  "side lo hi \<longleftrightarrow> 0 \<le> hi - lo + 1 \<and> hi - lo + 1 \<le> 2147483647 \<and>
     (lo \<le> hi \<longrightarrow> \<bar>lo\<bar> \<le> MAX_MAP_GENERATION_LIMIT \<and> \<bar>hi\<bar> \<le> MAX_MAP_GENERATION_LIMIT)"

lemma diff_take_adds:
  assumes "side (vX mn) (vX mx)" and "side (vY mn) (vY mx)" and "side (vZ mn) (vZ mx)"
  obtains rs' where "diff_take mn mx rs = Inr rs'" and "adds_box mn mx rs rs'"
proof -
  let ?b = "\<lparr>MinEdge = mn, MaxEdge = mx, va_extent = mk_v3 (vX mx - vX mn + 1) (vY mx - vY mn + 1) (vZ mx - vZ mn + 1)\<rparr>"
  have b: "area_of mn mx = Inr ?b"
    using assms by (simp add: area_of_def cacheExtent_def Let_def s_range area_new_def side_def)
  have pos: "contains_pos p ?b \<longleftrightarrow> between mn mx p = 1" for p
    by (auto simp: contains_pos_def between_def)
  show ?thesis
  proof (cases "hasEmptyExtent ?b")
    case True
    then have "between mn mx p = 0" for p
      by (auto simp: hasEmptyExtent_def between_def)
    with True b show ?thesis
      by (intro that [of rs]) (simp_all add: diff_take_def adds_box_def)
  next
    case False
    then have "vX mn \<le> vX mx" "vY mn \<le> vY mx" "vZ mn \<le> vZ mx"
      using assms by (simp_all add: hasEmptyExtent_def side_def)
    then have "area_wf ?b"
      using assms by (simp add: area_wf_def extent_ok_def side_def in_map_def)
    moreover have "covered p (rs @ [?b]) = covered p rs + between mn mx p" for p
      using pos [of p] by (auto simp: covered_def between_def)
    ultimately show ?thesis
      using False b by (intro that [of "rs @ [?b]"]) (simp_all add: diff_take_def adds_box_def proper_def)
  qed
qed

text \<open>A span that contains another, and what is before and after.\<close>

definition spans :: "int \<Rightarrow> int \<Rightarrow> int \<Rightarrow> int \<Rightarrow> bool" where
  "spans lo a b hi \<longleftrightarrow> lo \<le> a \<and> a \<le> b \<and> b \<le> hi \<and> \<bar>lo\<bar> \<le> MAX_MAP_GENERATION_LIMIT \<and> \<bar>hi\<bar> \<le> MAX_MAP_GENERATION_LIMIT \<and> hi - lo < 2147483647"

lemma spansD:
  assumes "spans lo a b hi"
  shows "lo \<le> a" "a \<le> b" "b \<le> hi" "to_s32 (b + 1) = b + 1" "to_s32 (a - 1) = a - 1"
    and "side lo hi" "side a b" "side (b + 1) hi" "side lo (a - 1)"
  using assms by (auto simp: spans_def side_def MAX_MAP_GENERATION_LIMIT_def intro!: to_s32_id)

lemma contained_spans:
  assumes "area_wf a" and "area_wf self" and "\<not> hasEmptyExtent a" and "contains_area a self"
  shows "spans (vX (MinEdge self)) (vX (MinEdge a)) (vX (MaxEdge a)) (vX (MaxEdge self))"
    and "spans (vY (MinEdge self)) (vY (MinEdge a)) (vY (MaxEdge a)) (vY (MaxEdge self))"
    and "spans (vZ (MinEdge self)) (vZ (MinEdge a)) (vZ (MaxEdge a)) (vZ (MaxEdge self))"
  using assms not_empty_edges [OF assms(1)]
  by (simp_all add: spans_def contains_area_def area_wf_def extent_ok_def in_map_def)

text \<open>The six boxes around the inner one: exactly one holds a position of the outer box outside it.\<close>

lemma six_boxes:
  assumes "X0 \<le> x0" "x0 \<le> x1" "x1 \<le> X1" and "Y0 \<le> y0" "y0 \<le> y1" "y1 \<le> Y1" and "Z0 \<le> z0" "z0 \<le> z1" "z1 \<le> Z1"
  shows "between (mk_v3 X0 Y0 (z1 + 1)) (mk_v3 X1 Y1 Z1) p + between (mk_v3 X0 Y0 Z0) (mk_v3 X1 Y1 (z0 - 1)) p +
    between (mk_v3 X0 (y1 + 1) z0) (mk_v3 X1 Y1 z1) p + between (mk_v3 X0 Y0 z0) (mk_v3 X1 (y0 - 1) z1) p +
    between (mk_v3 X0 y0 z0) (mk_v3 (x0 - 1) y1 z1) p + between (mk_v3 (x1 + 1) y0 z0) (mk_v3 X1 y1 z1) p =
    between (mk_v3 X0 Y0 Z0) (mk_v3 X1 Y1 Z1) p - between (mk_v3 x0 y0 z0) (mk_v3 x1 y1 z1) p"
proof -
  consider "vZ p < z0" | "z1 < vZ p" | "z0 \<le> vZ p" "vZ p \<le> z1" by linarith
  then show ?thesis
  proof cases
    case 3
    consider "vY p < y0" | "y1 < vY p" | "y0 \<le> vY p" "vY p \<le> y1" by linarith
    then show ?thesis
    proof cases
      case y: 3
      consider "vX p < x0" | "x1 < vX p" | "x0 \<le> vX p" "vX p \<le> x1" by linarith
      then show ?thesis using 3 y assms by cases (simp_all add: between_def)
    qed (use 3 assms in \<open>simp_all add: between_def\<close>)
  qed (use assms in \<open>simp_all add: between_def\<close>)
qed

lemma area_diff_ok:
  assumes "area_wf a" and "area_wf self" and "hasEmptyExtent a \<or> contains_area a self"
  shows "\<exists>rs. area_diff a self [] = Inr rs \<and> length rs \<le> 6 \<and> list_all proper rs \<and>
    (\<forall>p. covered p rs = of_bool (contains_pos p self \<and> \<not> contains_pos p a))"
proof (cases "hasEmptyExtent a")
  case True
  with empty_contains [OF assms(1)] empty_contains [OF assms(2)] assms(2) show ?thesis
    by (auto simp: area_diff_def covered_def proper_def)
next
  case False
  with assms have sub: "contains_area a self" by blast
  note sp = contained_spans [OF assms(1,2) False sub]
  note x = spansD [OF sp(1)] and y = spansD [OF sp(2)] and z = spansD [OF sp(3)]
  let ?X0 = "vX (MinEdge self)" and ?Y0 = "vY (MinEdge self)" and ?Z0 = "vZ (MinEdge self)"
    and ?X1 = "vX (MaxEdge self)" and ?Y1 = "vY (MaxEdge self)" and ?Z1 = "vZ (MaxEdge self)"
    and ?x0 = "vX (MinEdge a)" and ?y0 = "vY (MinEdge a)" and ?z0 = "vZ (MinEdge a)"
    and ?x1 = "vX (MaxEdge a)" and ?y1 = "vY (MaxEdge a)" and ?z1 = "vZ (MaxEdge a)"
  obtain r1 where 1: "diff_take (mk_v3 ?X0 ?Y0 (?z1 + 1)) (mk_v3 ?X1 ?Y1 ?Z1) [] = Inr r1" "adds_box (mk_v3 ?X0 ?Y0 (?z1 + 1)) (mk_v3 ?X1 ?Y1 ?Z1) [] r1"
    by (rule diff_take_adds [of "mk_v3 ?X0 ?Y0 (?z1 + 1)" "mk_v3 ?X1 ?Y1 ?Z1"]) (use x(6) y(6) z(8) in simp_all)
  obtain r2 where 2: "diff_take (mk_v3 ?X0 ?Y0 ?Z0) (mk_v3 ?X1 ?Y1 (?z0 - 1)) r1 = Inr r2" "adds_box (mk_v3 ?X0 ?Y0 ?Z0) (mk_v3 ?X1 ?Y1 (?z0 - 1)) r1 r2"
    by (rule diff_take_adds [of "mk_v3 ?X0 ?Y0 ?Z0" "mk_v3 ?X1 ?Y1 (?z0 - 1)"]) (use x(6) y(6) z(9) in simp_all)
  obtain r3 where 3: "diff_take (mk_v3 ?X0 (?y1 + 1) ?z0) (mk_v3 ?X1 ?Y1 ?z1) r2 = Inr r3" "adds_box (mk_v3 ?X0 (?y1 + 1) ?z0) (mk_v3 ?X1 ?Y1 ?z1) r2 r3"
    by (rule diff_take_adds [of "mk_v3 ?X0 (?y1 + 1) ?z0" "mk_v3 ?X1 ?Y1 ?z1"]) (use x(6) y(8) z(7) in simp_all)
  obtain r4 where 4: "diff_take (mk_v3 ?X0 ?Y0 ?z0) (mk_v3 ?X1 (?y0 - 1) ?z1) r3 = Inr r4" "adds_box (mk_v3 ?X0 ?Y0 ?z0) (mk_v3 ?X1 (?y0 - 1) ?z1) r3 r4"
    by (rule diff_take_adds [of "mk_v3 ?X0 ?Y0 ?z0" "mk_v3 ?X1 (?y0 - 1) ?z1"]) (use x(6) y(9) z(7) in simp_all)
  obtain r5 where 5: "diff_take (mk_v3 ?X0 ?y0 ?z0) (mk_v3 (?x0 - 1) ?y1 ?z1) r4 = Inr r5" "adds_box (mk_v3 ?X0 ?y0 ?z0) (mk_v3 (?x0 - 1) ?y1 ?z1) r4 r5"
    by (rule diff_take_adds [of "mk_v3 ?X0 ?y0 ?z0" "mk_v3 (?x0 - 1) ?y1 ?z1"]) (use x(9) y(7) z(7) in simp_all)
  obtain r6 where 6: "diff_take (mk_v3 (?x1 + 1) ?y0 ?z0) (mk_v3 ?X1 ?y1 ?z1) r5 = Inr r6" "adds_box (mk_v3 (?x1 + 1) ?y0 ?z0) (mk_v3 ?X1 ?y1 ?z1) r5 r6"
    by (rule diff_take_adds [of "mk_v3 (?x1 + 1) ?y0 ?z0" "mk_v3 ?X1 ?y1 ?z1"]) (use x(8) y(7) z(7) in simp_all)
  have run: "area_diff a self [] = Inr r6"
    using False sub x(4,5) y(4,5) z(4,5) 1(1) 2(1) 3(1) 4(1) 5(1) 6(1) by (simp add: area_diff_def)
  have count: "covered p rs' = covered p rs + between mn mx p" if "adds_box mn mx rs rs'" for p mn mx rs rs'
    using that by (simp add: adds_box_def)
  have edges: "between (mk_v3 (vX u) (vY u) (vZ u)) (mk_v3 (vX w) (vY w) (vZ w)) p = between u w p" for u w p
    by (simp add: between_def)
  have "covered p r6 = between (MinEdge self) (MaxEdge self) p - between (MinEdge a) (MaxEdge a) p" for p
    using six_boxes [OF x(1-3) y(1-3) z(1-3), of p] unfolding edges
    by (simp only: count [OF 6(2)] count [OF 5(2)] count [OF 4(2)] count [OF 3(2)] count [OF 2(2)] count [OF 1(2)])
      (simp add: covered_def)
  then have "covered p r6 = of_bool (contains_pos p self \<and> \<not> contains_pos p a)" for p
    using sub by (auto simp: between_def contains_pos_def contains_area_def)
  moreover have "length r6 \<le> 6" "list_all proper r6"
    using 1(2) 2(2) 3(2) 4(2) 5(2) 6(2) by (simp_all add: adds_box_def)
  ultimately show ?thesis using run by blast
qed

text \<open>
  C29: The difference of an area and a part of it is at most six proper areas that share no position
  with each other nor with the part, and together with it cover the whole area: every position of
  the area outside the part is in exactly one of them, every other position in none.
\<close>

theorem area_diff_partition:
  assumes "area_wf a" and "area_wf self" and "hasEmptyExtent a \<or> contains_area a self"
  shows "\<exists>rs. area_diff a self [] = Inr rs \<and> length rs \<le> 6 \<and> list_all proper rs \<and>
    (\<forall>p. length (filter (contains_pos p) rs) = of_bool (contains_pos p self \<and> \<not> contains_pos p a))"
  using area_diff_ok [OF assms] by (simp add: covered_def)

definition example_outer :: voxel_area where
  "example_outer = \<lparr>MinEdge = mk_v3 (-16) (-16) 0, MaxEdge = mk_v3 15 15 31, va_extent = mk_v3 32 32 32\<rparr>"

definition example_inner :: voxel_area where
  "example_inner = \<lparr>MinEdge = mk_v3 0 (-16) 5, MaxEdge = mk_v3 15 (-1) 20, va_extent = mk_v3 16 16 16\<rparr>"

theorem area_diff_partition_witness:
  "area_wf example_inner \<and> area_wf example_outer \<and> contains_area example_inner example_outer \<and>
   (\<exists>rs. area_diff example_inner example_outer [] = Inr rs \<and> length rs \<le> 6 \<and> list_all proper rs \<and>
    (\<forall>p. length (filter (contains_pos p) rs) = of_bool (contains_pos p example_outer \<and> \<not> contains_pos p example_inner)))"
  by (intro conjI area_diff_partition)
    (simp_all add: example_inner_def example_outer_def area_wf_def in_map_def extent_ok_def MAX_MAP_GENERATION_LIMIT_def
      contains_area_def hasEmptyExtent_def)

end
