(* ===== verification/VoxelManipulator.thy ===== *)
theory VoxelManipulator
  imports VoxelArea MapNode
begin

unbundle bit_operations_syntax

section \<open>The voxel manipulator\<close>

text \<open>
  \<^verbatim>\<open>VoxelManipulator\<close> of \<^verbatim>\<open>src/voxel.h\<close> and \<^verbatim>\<open>voxel.cpp\<close>: an area with one array of nodes and one of flags
  that grow when a position outside is touched. Accesses to the arrays are checked, so an index
  outside shows as \<open>OutOfBounds\<close>; a null pointer is the empty array.
\<close>

record vman =
  vm_area :: voxel_area
  vm_data :: "map_node list"
  vm_flags :: "u8 list"

definition VOXELFLAG_NO_DATA :: u8 where "VOXELFLAG_NO_DATA = 1"

definition MAX_WORKING_VOLUME :: int where "MAX_WORKING_VOLUME = 150000000"

definition vman_new :: vman where
  "vman_new = \<lparr>vm_area = area_new, vm_data = [], vm_flags = []\<rparr>"

definition vman_clear :: "vman \<Rightarrow> vman" where
  "vman_clear m = \<lparr>vm_area = area_new, vm_data = [], vm_flags = []\<rparr>"

subsection \<open>Arrays\<close>

definition array_get :: "int \<Rightarrow> 'a list \<Rightarrow> 'a res" where
  "array_get i xs = (if 0 \<le> i \<and> i < int (length xs) then Inr (xs ! nat i) else Inl OutOfBounds)"

definition array_set :: "int \<Rightarrow> 'a \<Rightarrow> 'a list \<Rightarrow> 'a list res" where
  "array_set i x xs = (if 0 \<le> i \<and> i < int (length xs) then Inr (xs[nat i := x]) else Inl OutOfBounds)"

text \<open>Update of \<open>n\<close> elements from index \<open>i\<close> on; \<open>g\<close> gets the offset and the old element.\<close>

definition range_update :: "int \<Rightarrow> int \<Rightarrow> (nat \<Rightarrow> 'a \<Rightarrow> 'a) \<Rightarrow> 'a list \<Rightarrow> 'a list res" where
  "range_update i n g xs =
     (if n \<le> 0 then Inr xs
      else if i < 0 \<or> i + n > int (length xs) then Inl OutOfBounds
      else Inr (map (\<lambda>k. if i \<le> int k \<and> int k < i + n then g (k - nat i) (xs ! k) else xs ! k) [0..<length xs]))"

definition fill_n :: "int \<Rightarrow> int \<Rightarrow> 'a \<Rightarrow> 'a list \<Rightarrow> 'a list res" where
  "fill_n i n x = range_update i n (\<lambda>_ _. x)"

definition copy_n :: "'a list \<Rightarrow> int \<Rightarrow> int \<Rightarrow> int \<Rightarrow> 'a list \<Rightarrow> 'a list res" where
  "copy_n src i_src n i_dst dst =
     (if n > 0 \<and> (i_src < 0 \<or> i_src + n > int (length src)) then Inl OutOfBounds
      else range_update i_dst n (\<lambda>k _. src ! (nat i_src + k)) dst)"

text \<open>The rows of an area, in the order of the loops over \<open>z\<close> and \<open>y\<close>.\<close>

definition area_rows :: "voxel_area \<Rightarrow> (int \<times> int) list" where
  "area_rows a = concat (map (\<lambda>z. map (Pair z) [vY (MinEdge a)..vY (MaxEdge a)]) [vZ (MinEdge a)..vZ (MaxEdge a)])"

subsection \<open>Growing\<close>

definition checkArea :: "voxel_area \<Rightarrow> unit res" where
  "checkArea a =
     (let real_volume = (word_of_int (vX (va_extent a)) * word_of_int (vY (va_extent a)) * word_of_int (vZ (va_extent a)) :: u64)
      in if real_volume > word_of_int MAX_WORKING_VOLUME then Inl BaseException else Inr ())"

definition addArea :: "voxel_area \<Rightarrow> vman \<Rightarrow> vman res" where
  "addArea area m =
     (if hasEmptyExtent area then Inr m
      else if contains_area area (vm_area m) then Inr m
      else rbind (area_addArea area (vm_area m)) (\<lambda>new_area.
           rbind (checkArea new_area) (\<lambda>_.
             let new_size = unat (getVolume new_area);
                 new_data = replicate new_size (node_new CONTENT_IGNORE);
                 new_flags = replicate new_size VOXELFLAG_NO_DATA;
                 old_x_width = vX (va_extent (vm_area m));
                 old_index = (\<lambda>z y. index_xyz (vX (MinEdge (vm_area m))) y z (vm_area m));
                 new_index = (\<lambda>z y. index_xyz (vX (MinEdge (vm_area m))) y z new_area)
             in rbind (rfold (\<lambda>(z, y) (d, f).
                    rbind (copy_n (vm_data m) (old_index z y) old_x_width (new_index z y) d) (\<lambda>d1.
                    rbind (copy_n (vm_flags m) (old_index z y) old_x_width (new_index z y) f) (\<lambda>f1. Inr (d1, f1))))
                  (area_rows (vm_area m)) (new_data, new_flags))
                (\<lambda>(d, f). Inr \<lparr>vm_area = new_area, vm_data = d, vm_flags = f\<rparr>))))"

subsection \<open>Single nodes\<close>

definition no_data :: "u8 \<Rightarrow> bool" where
  "no_data f \<longleftrightarrow> f AND VOXELFLAG_NO_DATA \<noteq> 0"

definition vm_touch :: "v3 \<Rightarrow> vman \<Rightarrow> vman res" where
  "vm_touch p m = rbind (area_at p) (\<lambda>voxel_area. addArea voxel_area m)"

definition vm_getNode :: "v3 \<Rightarrow> vman \<Rightarrow> map_node res \<times> vman" where
  "vm_getNode p m =
     attempt (vm_touch p m) m (\<lambda>m1.
       let index = area_index p (vm_area m1)
       in attempt (array_get index (vm_flags m1)) m1 (\<lambda>f.
            if no_data f then (Inl InvalidPositionException, m1) else (array_get index (vm_data m1), m1)))"

definition vm_getNodeNoEx :: "v3 \<Rightarrow> vman \<Rightarrow> map_node res \<times> vman" where
  "vm_getNodeNoEx p m =
     attempt (vm_touch p m) m (\<lambda>m1.
       let index = area_index p (vm_area m1)
       in attempt (array_get index (vm_flags m1)) m1 (\<lambda>f.
            if no_data f then (Inr (node_new CONTENT_IGNORE), m1) else (array_get index (vm_data m1), m1)))"

definition vm_getNodeNoExNoEmerge :: "v3 \<Rightarrow> vman \<Rightarrow> map_node res" where
  "vm_getNodeNoExNoEmerge p m =
     (if \<not> contains_pos p (vm_area m) then Inr (node_new CONTENT_IGNORE)
      else let index = area_index p (vm_area m)
           in rbind (array_get index (vm_flags m)) (\<lambda>f.
                if no_data f then Inr (node_new CONTENT_IGNORE) else array_get index (vm_data m)))"

definition getNodeRefUnsafe :: "v3 \<Rightarrow> vman \<Rightarrow> map_node res" where
  "getNodeRefUnsafe p m = array_get (area_index p (vm_area m)) (vm_data m)"

definition getNodeRefUnsafeCheckFlags :: "v3 \<Rightarrow> vman \<Rightarrow> map_node res" where
  "getNodeRefUnsafeCheckFlags p m =
     (let index = area_index p (vm_area m)
      in rbind (array_get index (vm_flags m)) (\<lambda>f.
           if no_data f then Inr (node_new CONTENT_IGNORE) else array_get index (vm_data m)))"

definition getNodeTry :: "v3 \<Rightarrow> vman \<Rightarrow> map_node res" where
  "getNodeTry p m =
     (if contains_pos p (vm_area m) then getNodeRefUnsafe p m else Inr (node_new CONTENT_IGNORE))"

definition vm_exists :: "v3 \<Rightarrow> vman \<Rightarrow> bool res" where
  "vm_exists p m =
     (if \<not> contains_pos p (vm_area m) then Inr False
      else rbind (array_get (area_index p (vm_area m)) (vm_flags m)) (\<lambda>f. Inr (\<not> no_data f)))"

definition write_node :: "int \<Rightarrow> map_node \<Rightarrow> vman \<Rightarrow> vman res" where
  "write_node index n m =
     rbind (array_set index n (vm_data m)) (\<lambda>d.
     rbind (array_get index (vm_flags m)) (\<lambda>f.
     rbind (array_set index (f AND NOT VOXELFLAG_NO_DATA) (vm_flags m)) (\<lambda>fs. Inr (m\<lparr>vm_data := d, vm_flags := fs\<rparr>))))"

definition vm_setNode :: "v3 \<Rightarrow> map_node \<Rightarrow> vman \<Rightarrow> vman res" where
  "vm_setNode p n m = rbind (vm_touch p m) (\<lambda>m1. write_node (area_index p (vm_area m1)) n m1)"

definition setNodeNoEmerge :: "v3 \<Rightarrow> map_node \<Rightarrow> vman \<Rightarrow> (bool \<times> vman) res" where
  "setNodeNoEmerge p n m =
     (if \<not> contains_pos p (vm_area m) then Inr (False, m)
      else rbind (write_node (area_index p (vm_area m)) n m) (\<lambda>m1. Inr (True, m1)))"

subsection \<open>Flags of areas\<close>

definition update_flags :: "(u8 \<Rightarrow> u8) \<Rightarrow> voxel_area \<Rightarrow> vman \<Rightarrow> vman res" where
  "update_flags g a m =
     (if hasEmptyExtent a then Inr m
      else if \<not> contains_area a (vm_area m) then Inl AssertFailed
      else rbind (rfold (\<lambda>(z, y). range_update (index_xyz (vX (MinEdge a)) y z (vm_area m)) (vX (va_extent a)) (\<lambda>_. g))
                   (area_rows a) (vm_flags m))
             (\<lambda>fs. Inr (m\<lparr>vm_flags := fs\<rparr>)))"

definition setFlags :: "voxel_area \<Rightarrow> u8 \<Rightarrow> vman \<Rightarrow> vman res" where
  "setFlags a flags = update_flags (\<lambda>f. f OR flags) a"

definition clearFlags :: "voxel_area \<Rightarrow> u8 \<Rightarrow> vman \<Rightarrow> vman res" where
  "clearFlags a flags = update_flags (\<lambda>f. f AND NOT flags) a"

subsection \<open>Copying\<close>

text \<open>
  \<open>copyFrom\<close> runs through both arrays with two indices that it only adds to. The counters of its loops
  are \<open>s16\<close>: with a size above their range a loop does not end, the result \<open>None\<close>.
\<close>

type_synonym copy_state = "int \<times> int \<times> map_node list \<times> u8 list"

fun repeat :: "nat \<Rightarrow> ('s \<Rightarrow> 's res) \<Rightarrow> 's \<Rightarrow> 's res" where
  "repeat 0 f s = Inr s"
| "repeat (Suc n) f s = rbind (f s) (repeat n f)"

definition copy_row :: "map_node list \<Rightarrow> bool \<Rightarrow> int \<Rightarrow> int \<Rightarrow> int \<Rightarrow> copy_state \<Rightarrow> copy_state res" where
  "copy_row src is_mono_block w src_step dest_step = (\<lambda>(i_src, i_local, d, f).
     rbind (if is_mono_block then rbind (array_get 0 src) (\<lambda>n. fill_n i_local w n d) else copy_n src i_src w i_local d) (\<lambda>d1.
     rbind (fill_n i_local w 0 f) (\<lambda>f1.
       Inr (to_s32 (i_src + src_step), to_s32 (i_local + dest_step), d1, f1))))"

definition copyFrom :: "map_node list \<Rightarrow> bool \<Rightarrow> voxel_area \<Rightarrow> v3 \<Rightarrow> v3 \<Rightarrow> v3 \<Rightarrow> vman \<Rightarrow> vman res option" where
  "copyFrom src is_mono_block src_area from_pos to_pos sz m =
     (if vZ sz > 32767 \<or> vZ sz > 0 \<and> vY sz > 32767 then None
      else Some (
        let src_step = vX (va_extent src_area);
            dest_step = vX (va_extent (vm_area m));
            dest_mod = to_s32 (index_xyz (vX to_pos) (vY to_pos) (vZ to_pos + 1) (vm_area m)
              - index_xyz (vX to_pos) (vY to_pos) (vZ to_pos) (vm_area m) - dest_step * vY sz);
            i_src = area_index from_pos src_area;
            i_local = area_index to_pos (vm_area m)
        in rbind (repeat (nat (vZ sz)) (\<lambda>s.
               rbind (repeat (nat (vY sz)) (copy_row src is_mono_block (vX sz) src_step dest_step) s)
                 (\<lambda>(i_src, i_local, d, f). Inr (i_src, to_s32 (i_local + dest_mod), d, f)))
             (i_src, i_local, vm_data m, vm_flags m))
           (\<lambda>(_, _, d, f). Inr (m\<lparr>vm_data := d, vm_flags := f\<rparr>))))"

definition copy_unless_ignore :: "vman \<Rightarrow> int \<times> int \<Rightarrow> map_node list \<Rightarrow> map_node list res" where
  "copy_unless_ignore m = (\<lambda>(i_local, i_dst) dst.
     rbind (array_get i_local (vm_data m)) (\<lambda>n. if getContent n \<noteq> CONTENT_IGNORE then array_set i_dst n dst else Inr dst))"

definition copyTo :: "map_node list \<Rightarrow> voxel_area \<Rightarrow> v3 \<Rightarrow> v3 \<Rightarrow> v3 \<Rightarrow> vman \<Rightarrow> map_node list res option" where
  "copyTo dst dst_area dst_pos from_pos sz m =
     (if vZ sz > 32767 \<or> vZ sz > 0 \<and> vY sz > 32767 \<or> vZ sz > 0 \<and> vY sz > 0 \<and> vX sz > 32767 then None
      else Some (rfold (\<lambda>(z, y) dst.
          let i_dst = index_xyz (vX dst_pos) (vY dst_pos + y) (vZ dst_pos + z) dst_area;
              i_local = index_xyz (vX from_pos) (vY from_pos + y) (vZ from_pos + z) (vm_area m)
          in rfold (copy_unless_ignore m) (map (\<lambda>x. (to_s32 (i_local + x), to_s32 (i_dst + x))) [0..vX sz - 1]) dst)
        (concat (map (\<lambda>z. map (Pair z) [0..vY sz - 1]) [0..vZ sz - 1])) dst))"

end
