(* ===== verification/VoxelCells.thy ===== *)
theory VoxelCells
  imports VoxelManipulator
begin

unbundle bit_operations_syntax

section \<open>The voxel manipulator as a map from positions to cells\<close>

text \<open>
  What the arrays of a voxel manipulator stand for: every position of the area has a cell with a node
  and flags. The operations on the arrays, with their indices and rows, are operations on the cells.
\<close>

definition idx :: "v3 \<Rightarrow> voxel_area \<Rightarrow> nat" where
  "idx p a = nat (raw_index p a)"

definition near :: "v3 \<Rightarrow> bool" where
  "near p \<longleftrightarrow> \<bar>vX p\<bar> \<le> 1048576 \<and> \<bar>vY p\<bar> \<le> 1048576 \<and> \<bar>vZ p\<bar> \<le> 1048576"

definition near_area :: "voxel_area \<Rightarrow> bool" where
  "near_area a \<longleftrightarrow> area_wf a \<and> near (MinEdge a) \<and> near (MaxEdge a)"

definition vm_ok :: "vman \<Rightarrow> bool" where
  "vm_ok m \<longleftrightarrow> near_area (vm_area m) \<and> volume (vm_area m) \<le> MAX_WORKING_VOLUME \<and>
     int (length (vm_data m)) = volume (vm_area m) \<and> int (length (vm_flags m)) = volume (vm_area m)"

definition vm_cells :: "vman \<Rightarrow> v3 \<Rightarrow> (map_node \<times> u8) option" where
  "vm_cells m p =
     (if contains_pos p (vm_area m) then Some (vm_data m ! idx p (vm_area m), vm_flags m ! idx p (vm_area m)) else None)"

lemma vm_ok_new [simp]: "vm_ok vman_new" "vm_cells vman_new = Map.empty"
  by (simp_all add: vm_ok_def vman_new_def near_area_def near_def volume_def area_new_def area_wf_def in_map_def extent_ok_def
      MAX_MAP_GENERATION_LIMIT_def MAX_WORKING_VOLUME_def vm_cells_def contains_pos_def fun_eq_iff)

lemma vm_okD:
  assumes "vm_ok m"
  shows "area_wf (vm_area m)" "volume (vm_area m) \<le> 2147483647" "near_area (vm_area m)"
    "int (length (vm_data m)) = volume (vm_area m)" "int (length (vm_flags m)) = volume (vm_area m)"
    "volume (vm_area m) \<le> MAX_WORKING_VOLUME"
  using assms by (simp_all add: vm_ok_def near_area_def MAX_WORKING_VOLUME_def)

lemma idx_less:
  assumes "area_wf a" and "contains_pos p a" and "int n = volume a"
  shows "idx p a < n" and "int (idx p a) = raw_index p a"
  using raw_index_bounds [OF assms(1,2)] assms(3) by (simp_all add: idx_def)

lemma idx_inject: "area_wf a \<Longrightarrow> contains_pos p a \<Longrightarrow> contains_pos q a \<Longrightarrow> idx p a = idx q a \<longleftrightarrow> p = q"
  using raw_index_inject raw_index_bounds(1) by (metis idx_def int_nat_eq)

subsection \<open>Rows\<close>

lemma range_updateD:
  assumes "0 \<le> i" and "i + n \<le> int (length xs)"
  obtains ys where "range_update i n g xs = Inr ys" and "length ys = length xs"
    and "\<And>k. k < length xs \<Longrightarrow> ys ! k = (if i \<le> int k \<and> int k < i + n then g (nat (int k - i)) (xs ! k) else xs ! k)"
proof (cases "n \<le> 0")
  case True
  then show ?thesis by (intro that [of xs]) (auto simp: range_update_def)
next
  case False
  then show ?thesis
    using assms by (intro that [of "map (\<lambda>k. if i \<le> int k \<and> int k < i + n then g (k - nat i) (xs ! k) else xs ! k) [0..<length xs]"])
      (auto simp: range_update_def nat_diff_distrib)
qed

text \<open>The indices of a row are those of the positions on it.\<close>

lemma row_range:
  assumes "area_wf a" and "contains_pos p a" and "contains_pos (mk_v3 x0 y z) a" and "x0 + w - 1 \<le> vX (MaxEdge a)"
  shows "raw_index (mk_v3 x0 y z) a \<le> raw_index p a \<and> raw_index p a < raw_index (mk_v3 x0 y z) a + w \<longleftrightarrow>
      vZ p = z \<and> vY p = y \<and> x0 \<le> vX p \<and> vX p < x0 + w" (is "?in \<longleftrightarrow> ?on")
    and "vZ p = z \<Longrightarrow> vY p = y \<Longrightarrow> raw_index p a - raw_index (mk_v3 x0 y z) a = vX p - x0"
proof -
  let ?W = "vX (va_extent a)" and ?H = "vY (va_extent a)"
  let ?r = "raw_index (mk_v3 x0 y z) a"
  note o = offsets [OF assms(1,2)] and o' = offsets [OF assms(1,3)]
  show diff: "raw_index p a - ?r = vX p - x0" if "vZ p = z" "vY p = y"
    using that by (simp add: raw_index_def)
  show "?in \<longleftrightarrow> ?on"
  proof
    assume "?in"
    let ?k = "raw_index p a - ?r"
    have W: "?W = vX (MaxEdge a) - vX (MinEdge a) + 1"
      using assms(1) by (simp add: area_wf_def extent_ok_def)
    have "((vZ p - vZ (MinEdge a)) * ?H + (vY p - vY (MinEdge a))) * ?W + (vX p - vX (MinEdge a)) =
        ((z - vZ (MinEdge a)) * ?H + (y - vY (MinEdge a))) * ?W + (x0 - vX (MinEdge a) + ?k)"
      by (simp add: raw_index_def)
    moreover have "0 \<le> x0 - vX (MinEdge a) + ?k" "x0 - vX (MinEdge a) + ?k < ?W"
      using \<open>?in\<close> o'(1) assms(4) W by simp_all
    ultimately have "(vZ p - vZ (MinEdge a)) * ?H + (vY p - vY (MinEdge a)) = (z - vZ (MinEdge a)) * ?H + (y - vY (MinEdge a)) \<and>
        vX p - vX (MinEdge a) = x0 - vX (MinEdge a) + ?k"
      using o(1,2) by (intro row_unique) simp_all
    moreover then have "vZ p - vZ (MinEdge a) = z - vZ (MinEdge a) \<and> vY p - vY (MinEdge a) = y - vY (MinEdge a)"
      using o(3,4) o'(3,4) by (intro row_unique) simp_all
    ultimately show ?on using \<open>?in\<close> by simp
  next
    assume ?on
    with diff show ?in by simp
  qed
qed

lemma row_inside:
  assumes "area_wf a" and "contains_pos (mk_v3 x0 y z) a" and "0 < w" and "x0 + w - 1 \<le> vX (MaxEdge a)"
  shows "0 \<le> raw_index (mk_v3 x0 y z) a" and "raw_index (mk_v3 x0 y z) a + w \<le> volume a"
proof -
  show "0 \<le> raw_index (mk_v3 x0 y z) a" using raw_index_bounds [OF assms(1,2)] by simp
  have q: "contains_pos (mk_v3 (x0 + w - 1) y z) a" using assms by (simp add: contains_pos_def)
  have "raw_index (mk_v3 (x0 + w - 1) y z) a = raw_index (mk_v3 x0 y z) a + (w - 1)"
    by (simp add: raw_index_def)
  with raw_index_bounds(2) [OF assms(1) q] show "raw_index (mk_v3 x0 y z) a + w \<le> volume a" by simp
qed

text \<open>A loop over rows changes the positions on these rows, each once.\<close>

lemma rfold_rows:
  assumes a: "area_wf a" and len: "int (length xs) = volume a" and rows: "distinct rs"
    "\<And>z y. (z, y) \<in> set rs \<Longrightarrow> contains_pos (mk_v3 x0 y z) a" and w: "0 < w" "x0 + w - 1 \<le> vX (MaxEdge a)"
  shows "\<exists>ys. rfold (\<lambda>(z, y). range_update (raw_index (mk_v3 x0 y z) a) w (g z y)) rs xs = Inr ys \<and> length ys = length xs \<and>
    (\<forall>p. contains_pos p a \<longrightarrow> ys ! idx p a =
      (if (vZ p, vY p) \<in> set rs \<and> x0 \<le> vX p \<and> vX p < x0 + w then g (vZ p) (vY p) (nat (vX p - x0)) (xs ! idx p a) else xs ! idx p a))"
  using len rows
proof (induction rs arbitrary: xs)
  case (Cons r rs)
  obtain z y where r: "r = (z, y)" by (cases r)
  have row: "contains_pos (mk_v3 x0 y z) a" using Cons.prems(3) r by simp
  note inside = row_inside [OF a row w]
  obtain ys where ys: "range_update (raw_index (mk_v3 x0 y z) a) w (g z y) xs = Inr ys" "length ys = length xs"
    and nth: "\<And>k. k < length xs \<Longrightarrow> ys ! k = (if raw_index (mk_v3 x0 y z) a \<le> int k \<and> int k < raw_index (mk_v3 x0 y z) a + w
      then g z y (nat (int k - raw_index (mk_v3 x0 y z) a)) (xs ! k) else xs ! k)"
    by (rule range_updateD [of "raw_index (mk_v3 x0 y z) a" w xs "g z y"]) (use inside Cons.prems(1) in simp_all)
  have at: "ys ! idx p a = (if vZ p = z \<and> vY p = y \<and> x0 \<le> vX p \<and> vX p < x0 + w then g z y (nat (vX p - x0)) (xs ! idx p a) else xs ! idx p a)"
    if p: "contains_pos p a" for p
    using nth [OF idx_less(1) [OF a p Cons.prems(1)]] row_range [OF a p row w(2)] idx_less(2) [OF a p Cons.prems(1)] by auto
  from Cons.IH [of ys] ys(2) Cons.prems obtain zs where zs: "rfold (\<lambda>(z, y). range_update (raw_index (mk_v3 x0 y z) a) w (g z y)) rs ys = Inr zs"
    "length zs = length xs" "\<And>p. contains_pos p a \<Longrightarrow> zs ! idx p a =
      (if (vZ p, vY p) \<in> set rs \<and> x0 \<le> vX p \<and> vX p < x0 + w then g (vZ p) (vY p) (nat (vX p - x0)) (ys ! idx p a) else ys ! idx p a)"
    by auto
  have "zs ! idx p a = (if (vZ p, vY p) \<in> set (r # rs) \<and> x0 \<le> vX p \<and> vX p < x0 + w
      then g (vZ p) (vY p) (nat (vX p - x0)) (xs ! idx p a) else xs ! idx p a)" if p: "contains_pos p a" for p
    using zs(3) [OF p] at [OF p] Cons.prems(2) r by auto
  with ys(1) zs(1,2) r show ?case by auto
qed simp

lemma set_area_rows: "set (area_rows a) = {(z, y). vZ (MinEdge a) \<le> z \<and> z \<le> vZ (MaxEdge a) \<and> vY (MinEdge a) \<le> y \<and> y \<le> vY (MaxEdge a)}"
  by (auto simp: area_rows_def)

lemma distinct_pairs:
  assumes "distinct zs" and "distinct ys"
  shows "distinct (concat (map (\<lambda>z. map (Pair z) ys) zs))"
  using assms by (induction zs) (auto simp: distinct_map inj_on_def)

lemma distinct_area_rows: "distinct (area_rows a)"
  unfolding area_rows_def by (rule distinct_pairs) simp_all

text \<open>Copying a whole row of an area onto itself in a larger area.\<close>

lemma copy_n_row:
  assumes "area_wf a" and "contains_pos (mk_v3 x0 y z) a" and "0 < w" and "x0 + w - 1 \<le> vX (MaxEdge a)" and "int (length src) = volume a"
  shows "copy_n src (raw_index (mk_v3 x0 y z) a) w i dst = range_update i w (\<lambda>k _. src ! (nat (raw_index (mk_v3 x0 y z) a) + k)) dst"
  using row_inside [OF assms(1-4)] assms(5) by (simp add: copy_n_def)

lemma idx_on_row:
  assumes "area_wf a" and "contains_pos p a" and "x0 \<le> vX p" and "contains_pos (mk_v3 x0 (vY p) (vZ p)) a"
  shows "nat (raw_index (mk_v3 x0 (vY p) (vZ p)) a) + nat (vX p - x0) = idx p a"
proof -
  have "raw_index p a = raw_index (mk_v3 x0 (vY p) (vZ p)) a + (vX p - x0)"
    by (simp add: raw_index_def)
  with raw_index_bounds(1) [OF assms(1,4)] assms(3) show ?thesis by (simp add: idx_def nat_add_distrib)
qed

lemma copy_rows:
  assumes a: "area_wf a" "\<not> hasEmptyExtent a" and b: "area_wf b" and sub: "contains_area a b"
    and small: "volume a \<le> 2147483647" "volume b \<le> 2147483647"
    and len: "int (length old) = volume a" "int (length new) = volume b"
  shows "\<exists>ys. rfold (\<lambda>(z, y). copy_n old (index_xyz (vX (MinEdge a)) y z a) (vX (va_extent a)) (index_xyz (vX (MinEdge a)) y z b))
      (area_rows a) new = Inr ys \<and> length ys = length new \<and>
    (\<forall>p. contains_pos p b \<longrightarrow> ys ! idx p b = (if contains_pos p a then old ! idx p a else new ! idx p b))"
proof -
  let ?x0 = "vX (MinEdge a)" and ?w = "vX (va_extent a)"
  have ne: "vX (MinEdge a) \<le> vX (MaxEdge a)" "vY (MinEdge a) \<le> vY (MaxEdge a)" "vZ (MinEdge a) \<le> vZ (MaxEdge a)"
    using not_empty_edges [OF a(1)] a(2) by simp_all
  have w: "?w = vX (MaxEdge a) - vX (MinEdge a) + 1"
    using a(1) by (simp add: area_wf_def extent_ok_def)
  have inb: "contains_pos p b" if "contains_pos p a" for p
    using that sub contains_area_iff [OF a] by blast
  have ina: "contains_pos (mk_v3 ?x0 y z) a" if "(z, y) \<in> set (area_rows a)" for y z
    using that ne by (auto simp: set_area_rows contains_pos_def)
  have wide: "?x0 + ?w - 1 \<le> vX (MaxEdge b)" "?x0 + ?w - 1 \<le> vX (MaxEdge a)"
    using w sub by (simp_all add: contains_area_def)
  have pos: "0 < ?w" using w ne by simp
  let ?g = "\<lambda>z y k (_ :: 'a). old ! (nat (raw_index (mk_v3 ?x0 y z) a) + k)"
  have "copy_n old (index_xyz ?x0 y z a) ?w (index_xyz ?x0 y z b) u = range_update (raw_index (mk_v3 ?x0 y z) b) ?w (?g z y) u"
    if "(z, y) \<in> set (area_rows a)" for z y u
  proof -
    note p = ina [OF that]
    have "index_xyz ?x0 y z a = raw_index (mk_v3 ?x0 y z) a" "index_xyz ?x0 y z b = raw_index (mk_v3 ?x0 y z) b"
      using area_index_raw [OF a(1) p small(1)] area_index_raw [OF b inb [OF p] small(2)] by (simp_all add: area_index_def)
    with copy_n_row [OF a(1) p pos wide(2) len(1)] show ?thesis by simp
  qed
  then have eq: "rfold (\<lambda>(z, y). copy_n old (index_xyz ?x0 y z a) ?w (index_xyz ?x0 y z b)) (area_rows a) new =
      rfold (\<lambda>(z, y). range_update (raw_index (mk_v3 ?x0 y z) b) ?w (?g z y)) (area_rows a) new"
    by (intro rfold_cong) auto
  obtain ys where ys: "rfold (\<lambda>(z, y). range_update (raw_index (mk_v3 ?x0 y z) b) ?w (?g z y)) (area_rows a) new = Inr ys"
    "length ys = length new" "\<And>p. contains_pos p b \<Longrightarrow> ys ! idx p b =
      (if (vZ p, vY p) \<in> set (area_rows a) \<and> ?x0 \<le> vX p \<and> vX p < ?x0 + ?w then ?g (vZ p) (vY p) (nat (vX p - ?x0)) (new ! idx p b) else new ! idx p b)"
    using rfold_rows [where g = ?g, OF b len(2) distinct_area_rows _ pos wide(1)] ina inb by blast
  have "ys ! idx p b = (if contains_pos p a then old ! idx p a else new ! idx p b)" if "contains_pos p b" for p
  proof -
    have "(vZ p, vY p) \<in> set (area_rows a) \<and> ?x0 \<le> vX p \<and> vX p < ?x0 + ?w \<longleftrightarrow> contains_pos p a"
      using w by (auto simp: set_area_rows contains_pos_def)
    moreover have "nat (raw_index (mk_v3 ?x0 (vY p) (vZ p)) a) + nat (vX p - ?x0) = idx p a" if pa: "contains_pos p a"
      using idx_on_row [OF a(1) pa] pa by (simp add: contains_pos_def)
    ultimately show ?thesis using ys(3) [OF that] by simp
  qed
  with eq ys(1,2) show ?thesis by auto
qed

subsection \<open>Growing\<close>

text \<open>The area after an area is added: the same, the box around both, or none when that is too large.\<close>

definition grown :: "voxel_area \<Rightarrow> voxel_area \<Rightarrow> voxel_area res" where
  "grown a A =
     (if hasEmptyExtent a \<or> contains_area a A then Inr A
      else rbind (area_addArea a A) (\<lambda>B. if volume B > MAX_WORKING_VOLUME then Inl BaseException else Inr B))"

definition fresh_cells :: "voxel_area \<Rightarrow> (v3 \<Rightarrow> (map_node \<times> u8) option) \<Rightarrow> v3 \<Rightarrow> (map_node \<times> u8) option" where
  "fresh_cells B C p =
     (if contains_pos p B then (case C p of None \<Rightarrow> Some (node_new CONTENT_IGNORE, VOXELFLAG_NO_DATA) | Some c \<Rightarrow> Some c) else None)"

lemma near_volume:
  assumes "near_area a"
  shows "0 \<le> volume a" and "volume a \<le> 2097153 * 2097153 * 2097153"
proof -
  from assms have "0 \<le> vX (va_extent a) \<and> vX (va_extent a) \<le> 2097153" "0 \<le> vY (va_extent a) \<and> vY (va_extent a) \<le> 2097153"
    "0 \<le> vZ (va_extent a) \<and> vZ (va_extent a) \<le> 2097153"
    by (auto simp: near_area_def near_def area_wf_def extent_ok_def)
  moreover then have "vX (va_extent a) * vY (va_extent a) \<le> 2097153 * 2097153"
    by (intro mult_mono) simp_all
  ultimately show "0 \<le> volume a" "volume a \<le> 2097153 * 2097153 * 2097153"
    unfolding volume_def by (simp, intro mult_mono) simp_all
qed

lemma checkArea_near:
  assumes "near_area a"
  shows "checkArea a = (if volume a > MAX_WORKING_VOLUME then Inl BaseException else Inr ())"
proof -
  have "(word_of_int (vX (va_extent a)) * word_of_int (vY (va_extent a)) * word_of_int (vZ (va_extent a)) :: u64) = word_of_int (volume a)"
    by (simp add: volume_def)
  moreover have "uint (word_of_int (volume a) :: u64) = volume a"
    using near_volume [OF assms] by (simp add: uint_word_of_int_eq take_bit_int_eq_self)
  ultimately show ?thesis
    by (simp add: checkArea_def Let_def word_less_def MAX_WORKING_VOLUME_def)
qed

text \<open>Far from the centre the product of the extents can leave the 64 bits, and the check lets the area pass.\<close>

lemma checkArea_wraps:
  "checkArea \<lparr>MinEdge = mk_v3 0 0 0, MaxEdge = mk_v3 4194303 2097151 2097151, va_extent = mk_v3 4194304 2097152 2097152\<rparr> = Inr ()"
  by (simp add: checkArea_def MAX_WORKING_VOLUME_def)

lemma empty_rows:
  assumes "area_wf a" and "hasEmptyExtent a"
  shows "area_rows a = [] \<or> vX (va_extent a) = 0"
proof -
  have "vY (va_extent a) = vY (MaxEdge a) - vY (MinEdge a) + 1" "vZ (va_extent a) = vZ (MaxEdge a) - vZ (MinEdge a) + 1"
    using assms(1) unfolding area_wf_def extent_ok_def by blast+
  then have "vY (va_extent a) = 0 \<longrightarrow> vY (MaxEdge a) < vY (MinEdge a)" "vZ (va_extent a) = 0 \<longrightarrow> vZ (MaxEdge a) < vZ (MinEdge a)"
    by linarith+
  with assms(2) show ?thesis unfolding hasEmptyExtent_def area_rows_def by force
qed

lemma abs_min_max: "\<bar>a\<bar> \<le> L \<Longrightarrow> \<bar>b\<bar> \<le> L \<Longrightarrow> \<bar>min a b\<bar> \<le> L \<and> \<bar>max a b\<bar> \<le> (L :: int)"
  by linarith

lemma near_limited: "near p \<Longrightarrow> near q \<Longrightarrow> limited p q"
  unfolding near_def limited_def in_map_def MAX_MAP_GENERATION_LIMIT_def by linarith

lemma addArea_near:
  assumes "near_area a" and "near_area A" and "\<not> hasEmptyExtent a"
  obtains B where "area_addArea a A = Inr B" and "near_area B" and "\<not> hasEmptyExtent B"
    and "\<And>p. contains_pos p a \<or> contains_pos p A \<Longrightarrow> contains_pos p B"
proof -
  let ?mn = "mk_v3 (min (vX (MinEdge a)) (vX (MinEdge A))) (min (vY (MinEdge a)) (vY (MinEdge A))) (min (vZ (MinEdge a)) (vZ (MinEdge A)))"
  let ?mx = "mk_v3 (max (vX (MaxEdge a)) (vX (MaxEdge A))) (max (vY (MaxEdge a)) (vY (MaxEdge A))) (max (vZ (MaxEdge a)) (vZ (MaxEdge A)))"
  have both: "near (MinEdge a)" "near (MaxEdge a)" "near (MinEdge A)" "near (MaxEdge A)" "area_wf a" "area_wf A"
    using assms by (simp_all add: near_area_def)
  have bounds: "near ?mn" "near ?mx"
    using both(1-4) by (simp_all add: near_def abs_min_max)
  then have "limited ?mn ?mx" by (rule near_limited)
  from area_addArea_ok [OF both(5,6) this] obtain B where B: "area_addArea a A = Inr B" "area_wf B"
    "\<And>p. contains_pos p a \<or> contains_pos p A \<Longrightarrow> contains_pos p B" by metis
  moreover have "near (MinEdge B) \<and> near (MaxEdge B)"
  proof (cases "hasEmptyExtent A")
    case True
    with B both show ?thesis by (simp add: area_addArea_def)
  next
    case False
    have minmax: "(if x < y then x else y) = min x y" "(if x > y then x else y) = max x y" for x y :: int by simp_all
    from B(1) False have "cacheExtent (A\<lparr>MinEdge := ?mn, MaxEdge := ?mx\<rparr>) = Inr B"
      unfolding area_addArea_def minmax by simp
    with bounds show ?thesis by simp
  qed
  moreover have "contains_pos (MinEdge a) a"
    using not_empty_edges [OF both(5)] assms(3) by (simp add: contains_pos_def)
  with B(3) empty_contains [OF B(2)] have "\<not> hasEmptyExtent B" by blast
  ultimately show ?thesis using that by (simp add: near_area_def)
qed

lemma addArea_cells:
  assumes m: "vm_ok m" and a: "near_area a"
  shows "case grown a (vm_area m) of
      Inl e \<Rightarrow> addArea a m = Inl e
    | Inr B \<Rightarrow> (\<exists>m'. addArea a m = Inr m' \<and> vm_ok m' \<and> vm_area m' = B \<and> vm_cells m' = fresh_cells B (vm_cells m) \<and>
        (\<forall>p. contains_pos p a \<or> contains_pos p (vm_area m) \<longrightarrow> contains_pos p B))"
proof (cases "hasEmptyExtent a \<or> contains_area a (vm_area m)")
  case True
  have "addArea a m = Inr m" using True by (auto simp: addArea_def)
  moreover have "vm_cells m = fresh_cells (vm_area m) (vm_cells m)"
    by (auto simp: fresh_cells_def vm_cells_def fun_eq_iff)
  moreover have "contains_pos p a \<longrightarrow> contains_pos p (vm_area m)" for p
    using True empty_contains [of a p] contains_area_iff [of a "vm_area m"] a by (auto simp: near_area_def)
  ultimately show ?thesis using True m by (auto simp: grown_def)
next
  case False
  note ok = vm_okD [OF m]
  obtain B where B: "area_addArea a (vm_area m) = Inr B" "near_area B" "\<not> hasEmptyExtent B"
    "\<And>p. contains_pos p a \<or> contains_pos p (vm_area m) \<Longrightarrow> contains_pos p B"
    using addArea_near [OF a ok(3)] False by blast
  show ?thesis
  proof (cases "volume B > MAX_WORKING_VOLUME")
    case True
    with False B checkArea_near [OF B(2)] show ?thesis by (simp add: grown_def addArea_def)
  next
    case small: False
    have wf: "area_wf B" "volume B \<le> 2147483647"
      using B(2) small by (simp_all add: near_area_def MAX_WORKING_VOLUME_def)
    let ?n = "unat (getVolume B)" and ?A = "vm_area m"
    have n: "int ?n = volume B" using unat_getVolume [OF wf] .
    note less = idx_less(1) [OF wf(1) _ n]
    have rows: "\<exists>ys. rfold (\<lambda>(z, y). copy_n old (index_xyz (vX (MinEdge ?A)) y z ?A) (vX (va_extent ?A)) (index_xyz (vX (MinEdge ?A)) y z B))
        (area_rows ?A) (replicate ?n x) = Inr ys \<and> length ys = ?n \<and>
        (\<forall>p. contains_pos p B \<longrightarrow> ys ! idx p B = (if contains_pos p ?A then old ! idx p ?A else x))"
      if "int (length old) = volume ?A" for old :: "'c list" and x
    proof (cases "hasEmptyExtent ?A")
      case True
      have "area_rows ?A = [] \<or> vX (va_extent ?A) = 0"
        by (rule empty_rows [OF ok(1) True])
      then have "rfold (\<lambda>(z, y). copy_n old (index_xyz (vX (MinEdge ?A)) y z ?A) (vX (va_extent ?A)) (index_xyz (vX (MinEdge ?A)) y z B))
          (area_rows ?A) (replicate ?n x) = Inr (replicate ?n x)"
        by (intro rfold_idle) (auto simp: copy_n_def range_update_def)
      with less empty_contains [OF ok(1) True] show ?thesis by auto
    next
      case False
      have "contains_area ?A B"
        using contains_area_iff [OF ok(1) False] B(4) by blast
      from copy_rows [OF ok(1) False wf(1) this ok(2) wf(2) that, of "replicate ?n x"] n less
      show ?thesis by auto
    qed
    obtain d where d: "rfold (\<lambda>(z, y). copy_n (vm_data m) (index_xyz (vX (MinEdge ?A)) y z ?A) (vX (va_extent ?A)) (index_xyz (vX (MinEdge ?A)) y z B))
        (area_rows ?A) (replicate ?n (node_new CONTENT_IGNORE)) = Inr d" "length d = ?n"
        "\<forall>p. contains_pos p B \<longrightarrow> d ! idx p B = (if contains_pos p ?A then vm_data m ! idx p ?A else node_new CONTENT_IGNORE)"
      using rows [OF ok(4)] by blast
    obtain f where f: "rfold (\<lambda>(z, y). copy_n (vm_flags m) (index_xyz (vX (MinEdge ?A)) y z ?A) (vX (va_extent ?A)) (index_xyz (vX (MinEdge ?A)) y z B))
        (area_rows ?A) (replicate ?n VOXELFLAG_NO_DATA) = Inr f" "length f = ?n"
        "\<forall>p. contains_pos p B \<longrightarrow> f ! idx p B = (if contains_pos p ?A then vm_flags m ! idx p ?A else VOXELFLAG_NO_DATA)"
      using rows [OF ok(5)] by blast
    let ?m = "\<lparr>vm_area = B, vm_data = d, vm_flags = f\<rparr>"
    have "addArea a m = Inr ?m"
      using False B(1) checkArea_near [OF B(2)] small rfold_pair [OF d(1) f(1)]
      by (simp add: addArea_def Let_def split_def)
    moreover have "vm_ok ?m"
      using B(2) small d(2) f(2) n by (simp add: vm_ok_def)
    moreover have "vm_cells ?m = fresh_cells B (vm_cells m)"
      using d(3) f(3) B(4) by (auto simp: fun_eq_iff vm_cells_def fresh_cells_def)
    moreover have "grown a ?A = Inr B" using False B(1) small by (simp add: grown_def)
    ultimately show ?thesis using B(4) by auto
  qed
qed

end
