(* ===== verification/VoxelRefinement.thy ===== *)
theory VoxelRefinement
  imports VoxelCells
begin

unbundle bit_operations_syntax

section \<open>The voxel manipulator implements a map of cells\<close>

text \<open>
  The contract of the voxel manipulator: an area, and a cell with node and flags for each of its
  positions. An operation that touches a position outside grows the area to the box around both,
  unless that is too large; the new cells are \<^verbatim>\<open>CONTENT_IGNORE\<close> without data.
\<close>

type_synonym vox = "voxel_area \<times> (v3 \<Rightarrow> (map_node \<times> u8) option)"

datatype vox_op =
    VAddArea voxel_area
  | VSetNode v3 map_node
  | VSetNodeNoEmerge v3 map_node
  | VGetNode v3
  | VGetNodeNoEx v3
  | VGetNodeNoExNoEmerge v3
  | VExists v3
  | VSetFlags voxel_area u8
  | VClearFlags voxel_area u8
  | VClear

datatype vox_answer = Finished | Node map_node | Truth bool

definition answer :: "('a \<Rightarrow> vox_answer) \<Rightarrow> 'a res \<Rightarrow> vox_answer res" where
  "answer f r = rbind r (\<lambda>x. Inr (f x))"

lemma answer_simps [simp]: "answer f (Inl e) = Inl e" "answer f (Inr x) = Inr (f x)"
  by (simp_all add: answer_def)

fun vox_run :: "vox_op \<Rightarrow> vman \<Rightarrow> vox_answer res \<times> vman" where
  "vox_run (VAddArea a) m = attempt (addArea a m) m (\<lambda>m1. (Inr Finished, m1))"
| "vox_run (VSetNode p n) m = attempt (vm_setNode p n m) m (\<lambda>m1. (Inr Finished, m1))"
| "vox_run (VSetNodeNoEmerge p n) m = attempt (setNodeNoEmerge p n m) m (\<lambda>(b, m1). (Inr (Truth b), m1))"
| "vox_run (VGetNode p) m = (let (r, m1) = vm_getNode p m in (answer Node r, m1))"
| "vox_run (VGetNodeNoEx p) m = (let (r, m1) = vm_getNodeNoEx p m in (answer Node r, m1))"
| "vox_run (VGetNodeNoExNoEmerge p) m = (answer Node (vm_getNodeNoExNoEmerge p m), m)"
| "vox_run (VExists p) m = (answer Truth (vm_exists p m), m)"
| "vox_run (VSetFlags a f) m = attempt (setFlags a f m) m (\<lambda>m1. (Inr Finished, m1))"
| "vox_run (VClearFlags a f) m = attempt (clearFlags a f m) m (\<lambda>m1. (Inr Finished, m1))"
| "vox_run VClear m = (Inr Finished, vman_clear m)"

definition point :: "v3 \<Rightarrow> voxel_area" where
  "point p = \<lparr>MinEdge = p, MaxEdge = p, va_extent = mk_v3 1 1 1\<rparr>"

definition grow :: "voxel_area \<Rightarrow> vox \<Rightarrow> (vox \<Rightarrow> vox_answer res \<times> vox) \<Rightarrow> vox_answer res \<times> vox" where
  "grow a S k = (case grown a (fst S) of Inl e \<Rightarrow> (Inl e, S) | Inr B \<Rightarrow> k (B, fresh_cells B (snd S)))"

definition flag_cells :: "(u8 \<Rightarrow> u8) \<Rightarrow> voxel_area \<Rightarrow> vox \<Rightarrow> vox_answer res \<times> vox" where
  "flag_cells g a S =
     (if hasEmptyExtent a then (Inr Finished, S)
      else if \<not> contains_area a (fst S) then (Inl AssertFailed, S)
      else (Inr Finished, fst S, \<lambda>p. if contains_pos p a then map_option (apsnd g) (snd S p) else snd S p))"

fun vox_spec :: "vox_op \<Rightarrow> vox \<Rightarrow> vox_answer res \<times> vox" where
  "vox_spec (VAddArea a) S = grow a S (\<lambda>S1. (Inr Finished, S1))"
| "vox_spec (VSetNode p n) S = grow (point p) S (\<lambda>(B, D). case D p of
       None \<Rightarrow> (Inl OutOfBounds, B, D)
     | Some (_, f) \<Rightarrow> (Inr Finished, B, D(p \<mapsto> (n, f AND NOT VOXELFLAG_NO_DATA))))"
| "vox_spec (VSetNodeNoEmerge p n) S = (case snd S p of
       None \<Rightarrow> (Inr (Truth False), S)
     | Some (_, f) \<Rightarrow> (Inr (Truth True), fst S, (snd S)(p \<mapsto> (n, f AND NOT VOXELFLAG_NO_DATA))))"
| "vox_spec (VGetNode p) S = grow (point p) S (\<lambda>(B, D). case D p of
       None \<Rightarrow> (Inl OutOfBounds, B, D)
     | Some (n, f) \<Rightarrow> (if no_data f then Inl InvalidPositionException else Inr (Node n), B, D))"
| "vox_spec (VGetNodeNoEx p) S = grow (point p) S (\<lambda>(B, D). case D p of
       None \<Rightarrow> (Inl OutOfBounds, B, D)
     | Some (n, f) \<Rightarrow> (Inr (Node (if no_data f then node_new CONTENT_IGNORE else n)), B, D))"
| "vox_spec (VGetNodeNoExNoEmerge p) S = (case snd S p of
       None \<Rightarrow> (Inr (Node (node_new CONTENT_IGNORE)), S)
     | Some (n, f) \<Rightarrow> (Inr (Node (if no_data f then node_new CONTENT_IGNORE else n)), S))"
| "vox_spec (VExists p) S = (case snd S p of None \<Rightarrow> (Inr (Truth False), S) | Some (n, f) \<Rightarrow> (Inr (Truth (\<not> no_data f)), S))"
| "vox_spec (VSetFlags a f) S = flag_cells (\<lambda>x. x OR f) a S"
| "vox_spec (VClearFlags a f) S = flag_cells (\<lambda>x. x AND NOT f) a S"
| "vox_spec VClear S = (Inr Finished, area_new, Map.empty)"

definition vox_of :: "vman \<Rightarrow> vox" where
  "vox_of m = (vm_area m, vm_cells m)"

fun op_near :: "vox_op \<Rightarrow> bool" where
  "op_near (VAddArea a) \<longleftrightarrow> near_area a"
| "op_near (VSetNode p n) \<longleftrightarrow> near p"
| "op_near (VSetNodeNoEmerge p n) \<longleftrightarrow> near p"
| "op_near (VGetNode p) \<longleftrightarrow> near p"
| "op_near (VGetNodeNoEx p) \<longleftrightarrow> near p"
| "op_near (VGetNodeNoExNoEmerge p) \<longleftrightarrow> near p"
| "op_near (VExists p) \<longleftrightarrow> near p"
| "op_near (VSetFlags a f) \<longleftrightarrow> near_area a"
| "op_near (VClearFlags a f) \<longleftrightarrow> near_area a"
| "op_near VClear \<longleftrightarrow> True"

subsection \<open>Single positions\<close>

lemma area_at_near:
  assumes "near p"
  shows "area_at p = Inr (point p)" and "near_area (point p)" and "contains_pos q (point p) \<longleftrightarrow> q = p"
proof -
  show "area_at p = Inr (point p)"
    by (simp add: area_at_def point_def cacheExtent_def Let_def to_s32_def area_new_def)
  have "in_map p" using assms by (auto simp: near_def in_map_def MAX_MAP_GENERATION_LIMIT_def)
  with assms show "near_area (point p)"
    by (simp add: near_area_def point_def area_wf_def extent_ok_def)
  show "contains_pos q (point p) \<longleftrightarrow> q = p"
    by (auto simp: contains_pos_def point_def v3_eq_iff)
qed

lemma array_at:
  assumes "vm_ok m" and "contains_pos p (vm_area m)"
  shows "array_get (area_index p (vm_area m)) (vm_data m) = Inr (vm_data m ! idx p (vm_area m))"
    and "array_get (area_index p (vm_area m)) (vm_flags m) = Inr (vm_flags m ! idx p (vm_area m))"
    and "array_set (area_index p (vm_area m)) n (vm_data m) = Inr ((vm_data m)[idx p (vm_area m) := n])"
    and "array_set (area_index p (vm_area m)) f (vm_flags m) = Inr ((vm_flags m)[idx p (vm_area m) := f])"
proof -
  note ok = vm_okD [OF assms(1)]
  have "area_index p (vm_area m) = int (idx p (vm_area m))"
    using area_index_raw [OF ok(1) assms(2) ok(2)] raw_index_bounds [OF ok(1) assms(2)] by (simp add: idx_def)
  with idx_less(1) [OF ok(1) assms(2) ok(4)] idx_less(1) [OF ok(1) assms(2) ok(5)]
  show "array_get (area_index p (vm_area m)) (vm_data m) = Inr (vm_data m ! idx p (vm_area m))"
    "array_get (area_index p (vm_area m)) (vm_flags m) = Inr (vm_flags m ! idx p (vm_area m))"
    "array_set (area_index p (vm_area m)) n (vm_data m) = Inr ((vm_data m)[idx p (vm_area m) := n])"
    "array_set (area_index p (vm_area m)) f (vm_flags m) = Inr ((vm_flags m)[idx p (vm_area m) := f])"
    by (simp_all add: array_get_def array_set_def)
qed

lemma write_node_cells:
  assumes "vm_ok m" and "vm_cells m p = Some (n0, f)"
  shows "\<exists>m'. write_node (area_index p (vm_area m)) n m = Inr m' \<and> vm_ok m' \<and> vm_area m' = vm_area m \<and>
    vm_cells m' = (vm_cells m)(p \<mapsto> (n, f AND NOT VOXELFLAG_NO_DATA))"
proof -
  have p: "contains_pos p (vm_area m)" and f: "vm_flags m ! idx p (vm_area m) = f"
    using assms(2) by (simp_all add: vm_cells_def split: if_splits)
  let ?i = "idx p (vm_area m)"
  let ?m = "m\<lparr>vm_data := (vm_data m)[?i := n], vm_flags := (vm_flags m)[?i := f AND NOT VOXELFLAG_NO_DATA]\<rparr>"
  note ok = vm_okD [OF assms(1)]
  have "write_node (area_index p (vm_area m)) n m = Inr ?m"
    by (simp add: write_node_def array_at [OF assms(1) p] f)
  moreover have "vm_ok ?m"
    using assms(1) by (simp add: vm_ok_def)
  moreover have "vm_cells ?m q = ((vm_cells m)(p \<mapsto> (n, f AND NOT VOXELFLAG_NO_DATA))) q" for q
    using idx_inject [OF ok(1) p, of q] idx_less(1) [OF ok(1) p ok(4)] idx_less(1) [OF ok(1) p ok(5)] p
    by (auto simp: vm_cells_def)
  ultimately show ?thesis by (intro exI [of _ ?m]) auto
qed

lemma touch_cells:
  assumes "vm_ok m" and "near p"
  shows "case grown (point p) (vm_area m) of
      Inl e \<Rightarrow> vm_touch p m = Inl e
    | Inr B \<Rightarrow> (\<exists>m'. vm_touch p m = Inr m' \<and> vm_ok m' \<and> vm_area m' = B \<and> vm_cells m' = fresh_cells B (vm_cells m) \<and>
        contains_pos p B \<and> (\<exists>n f. vm_cells m' p = Some (n, f)))"
  using addArea_cells [OF assms(1) area_at_near(2) [OF assms(2)]] area_at_near [OF assms(2)]
  by (auto simp: vm_touch_def vm_cells_def split: sum.splits)

lemma flags_cells:
  assumes m: "vm_ok m" and a: "near_area a"
  shows "\<exists>m'. attempt (update_flags g a m) m (\<lambda>m1. (Inr Finished, m1)) = (fst (flag_cells g a (vox_of m)), m') \<and> vm_ok m' \<and>
    vox_of m' = snd (flag_cells g a (vox_of m))"
proof (cases "hasEmptyExtent a \<or> \<not> contains_area a (vm_area m)")
  case True
  then show ?thesis using m by (auto simp: update_flags_def flag_cells_def vox_of_def)
next
  case False
  let ?A = "vm_area m" and ?x0 = "vX (MinEdge a)" and ?w = "vX (va_extent a)"
  note ok = vm_okD [OF m]
  have wf: "area_wf a" "\<not> hasEmptyExtent a" "contains_area a ?A" using a False by (simp_all add: near_area_def)
  have ne: "?x0 \<le> vX (MaxEdge a)" using not_empty_edges [OF wf(1)] wf(2) by simp
  have w: "?w = vX (MaxEdge a) - ?x0 + 1" using wf(1) by (simp add: area_wf_def extent_ok_def)
  have wide: "0 < ?w" "?x0 + ?w - 1 \<le> vX (MaxEdge ?A)" using ne w wf(3) by (simp_all add: contains_area_def)
  have inA: "contains_pos (mk_v3 ?x0 y z) ?A" if "(z, y) \<in> set (area_rows a)" for y z
    using that wf(3) ne contains_area_iff [OF wf(1,2)] by (auto simp: set_area_rows contains_pos_def)
  obtain fs where fs: "rfold (\<lambda>(z, y). range_update (raw_index (mk_v3 ?x0 y z) ?A) ?w (\<lambda>_. g)) (area_rows a) (vm_flags m) = Inr fs"
    "length fs = length (vm_flags m)" "\<And>p. contains_pos p ?A \<Longrightarrow> fs ! idx p ?A =
      (if (vZ p, vY p) \<in> set (area_rows a) \<and> ?x0 \<le> vX p \<and> vX p < ?x0 + ?w then g (vm_flags m ! idx p ?A) else vm_flags m ! idx p ?A)"
    using rfold_rows [where g = "\<lambda>_ _ _. g", OF ok(1) ok(5) distinct_area_rows inA wide] by blast
  have "index_xyz ?x0 y z ?A = raw_index (mk_v3 ?x0 y z) ?A" if "(z, y) \<in> set (area_rows a)" for y z
    using area_index_raw [OF ok(1) inA [OF that] ok(2)] by (simp add: area_index_def)
  then have "rfold (\<lambda>(z, y). range_update (index_xyz ?x0 y z ?A) ?w (\<lambda>_. g)) (area_rows a) (vm_flags m) = Inr fs"
    using fs(1) by (subst rfold_cong [OF refl refl]) auto
  with False have run: "update_flags g a m = Inr (m\<lparr>vm_flags := fs\<rparr>)"
    by (simp add: update_flags_def)
  have "(vZ p, vY p) \<in> set (area_rows a) \<and> ?x0 \<le> vX p \<and> vX p < ?x0 + ?w \<longleftrightarrow> contains_pos p a" for p
    using w by (auto simp: set_area_rows contains_pos_def)
  with fs(3) have "vm_cells (m\<lparr>vm_flags := fs\<rparr>) p = (if contains_pos p a then map_option (apsnd g) (vm_cells m p) else vm_cells m p)" for p
    by (simp add: vm_cells_def)
  moreover have "vm_ok (m\<lparr>vm_flags := fs\<rparr>)" using m fs(2) by (simp add: vm_ok_def)
  ultimately show ?thesis using False run by (auto simp: flag_cells_def vox_of_def)
qed

subsection \<open>Every operation\<close>

definition simulates :: "vox_answer res \<times> vman \<Rightarrow> vox_answer res \<times> vox \<Rightarrow> bool" where
  "simulates r s \<longleftrightarrow> fst r = fst s \<and> vm_ok (snd r) \<and> vox_of (snd r) = snd s"

lemma simulates_pair [simp]: "simulates (a, m) (b, A, C) \<longleftrightarrow> a = b \<and> vm_ok m \<and> vm_area m = A \<and> vm_cells m = C"
  by (auto simp: simulates_def vox_of_def)

text \<open>An operation that first touches a position, in the code and in the contract.\<close>

lemma touched:
  assumes "vm_ok m" and "near p"
    and "\<And>m1 n f. vm_ok m1 \<Longrightarrow> contains_pos p (vm_area m1) \<Longrightarrow> vm_cells m1 p = Some (n, f) \<Longrightarrow>
      simulates (k m1) (l (vm_area m1, vm_cells m1))"
  shows "simulates (attempt (vm_touch p m) m k) (grow (point p) (vox_of m) l)"
proof (cases "grown (point p) (vm_area m)")
  case (Inl e)
  with touch_cells [OF assms(1,2)] assms(1) show ?thesis
    by (simp add: grow_def vox_of_def)
next
  case (Inr B)
  with touch_cells [OF assms(1,2)] obtain m1 n f where "vm_touch p m = Inr m1" "vm_ok m1" "vm_area m1 = B"
    "vm_cells m1 = fresh_cells B (vm_cells m)" "contains_pos p B" "vm_cells m1 p = Some (n, f)" by auto
  with assms(3) [of m1 n f] Inr show ?thesis
    by (simp add: grow_def vox_of_def)
qed

lemma vm_cellsD:
  "vm_cells m p = Some (n, f) \<Longrightarrow> contains_pos p (vm_area m) \<and> vm_data m ! idx p (vm_area m) = n \<and> vm_flags m ! idx p (vm_area m) = f"
  "vm_cells m p = None \<Longrightarrow> \<not> contains_pos p (vm_area m)"
  by (simp_all add: vm_cells_def split: if_splits)

lemma set_node_simulates:
  assumes "vm_ok m" and "near p"
  shows "simulates (vox_run (VSetNode p n) m) (vox_spec (VSetNode p n) (vox_of m))"
proof -
  have "vox_run (VSetNode p n) m = attempt (vm_touch p m) m (\<lambda>m1. attempt (write_node (area_index p (vm_area m1)) n m1) m (\<lambda>m2. (Inr Finished, m2)))"
    by (cases "vm_touch p m") (simp_all add: vm_setNode_def)
  moreover have "simulates (attempt (write_node (area_index p (vm_area m1)) n m1) m (\<lambda>m2. (Inr Finished, m2)))
      (case vm_cells m1 p of None \<Rightarrow> (Inl OutOfBounds, vm_area m1, vm_cells m1)
        | Some (_, f) \<Rightarrow> (Inr Finished, vm_area m1, (vm_cells m1)(p \<mapsto> (n, f AND NOT VOXELFLAG_NO_DATA))))"
    if "vm_ok m1" "vm_cells m1 p = Some (n0, f)" for m1 n0 f
    using write_node_cells [OF that, of n] that(2) by auto
  ultimately show ?thesis
    using touched [OF assms, where l = "\<lambda>(B, D). case D p of None \<Rightarrow> (Inl OutOfBounds, B, D)
      | Some (_, f) \<Rightarrow> (Inr Finished, B, D(p \<mapsto> (n, f AND NOT VOXELFLAG_NO_DATA)))"] by simp
qed

lemma get_node_simulates:
  assumes "vm_ok m" and "near p"
  shows "simulates (vox_run (VGetNode p) m) (vox_spec (VGetNode p) (vox_of m))"
    and "simulates (vox_run (VGetNodeNoEx p) m) (vox_spec (VGetNodeNoEx p) (vox_of m))"
proof -
  have "vox_run (VGetNode p) m = attempt (vm_touch p m) m (\<lambda>m1. let (r, m2) =
      attempt (array_get (area_index p (vm_area m1)) (vm_flags m1)) m1 (\<lambda>f.
        if no_data f then (Inl InvalidPositionException, m1) else (array_get (area_index p (vm_area m1)) (vm_data m1), m1)) in (answer Node r, m2))"
    by (cases "vm_touch p m") (simp_all add: vm_getNode_def Let_def)
  then show "simulates (vox_run (VGetNode p) m) (vox_spec (VGetNode p) (vox_of m))"
    by (simp only: vox_spec.simps) (rule touched [OF assms], frule vm_cellsD, simp add: array_at)
  have "vox_run (VGetNodeNoEx p) m = attempt (vm_touch p m) m (\<lambda>m1. let (r, m2) =
      attempt (array_get (area_index p (vm_area m1)) (vm_flags m1)) m1 (\<lambda>f.
        if no_data f then (Inr (node_new CONTENT_IGNORE), m1) else (array_get (area_index p (vm_area m1)) (vm_data m1), m1)) in (answer Node r, m2))"
    by (cases "vm_touch p m") (simp_all add: vm_getNodeNoEx_def Let_def)
  then show "simulates (vox_run (VGetNodeNoEx p) m) (vox_spec (VGetNodeNoEx p) (vox_of m))"
    by (simp only: vox_spec.simps) (rule touched [OF assms], frule vm_cellsD, simp add: array_at)
qed

lemma add_area_simulates:
  assumes "vm_ok m" and "near_area a"
  shows "simulates (vox_run (VAddArea a) m) (vox_spec (VAddArea a) (vox_of m))"
  using addArea_cells [OF assms] assms(1) by (auto simp: grow_def vox_of_def split: sum.splits)

lemma no_emerge_simulates:
  assumes "vm_ok m"
  shows "simulates (vox_run (VSetNodeNoEmerge p n) m) (vox_spec (VSetNodeNoEmerge p n) (vox_of m))"
    and "simulates (vox_run (VGetNodeNoExNoEmerge p) m) (vox_spec (VGetNodeNoExNoEmerge p) (vox_of m))"
    and "simulates (vox_run (VExists p) m) (vox_spec (VExists p) (vox_of m))"
proof -
  show "simulates (vox_run (VSetNodeNoEmerge p n) m) (vox_spec (VSetNodeNoEmerge p n) (vox_of m))"
  proof (cases "vm_cells m p")
    case None
    with assms vm_cellsD(2) [OF None] show ?thesis by (simp add: setNodeNoEmerge_def vox_of_def)
  next
    case (Some c)
    obtain n0 f where "c = (n0, f)" by (cases c)
    with Some write_node_cells [OF assms, of p n0 f n] vm_cellsD(1) [of m p n0 f] show ?thesis
      by (auto simp: setNodeNoEmerge_def vox_of_def)
  qed
  show "simulates (vox_run (VGetNodeNoExNoEmerge p) m) (vox_spec (VGetNodeNoExNoEmerge p) (vox_of m))"
    using assms array_at [OF assms, of p] vm_cellsD [of m p]
    by (cases "vm_cells m p") (auto simp: vm_getNodeNoExNoEmerge_def vox_of_def)
  show "simulates (vox_run (VExists p) m) (vox_spec (VExists p) (vox_of m))"
    using assms array_at [OF assms, of p] vm_cellsD [of m p]
    by (cases "vm_cells m p") (auto simp: vm_exists_def vox_of_def)
qed

lemma vox_run_simulates:
  assumes "vm_ok m" and "op_near a"
  shows "simulates (vox_run a m) (vox_spec a (vox_of m))"
proof (cases a)
  case (VSetFlags b f)
  then show ?thesis
    using flags_cells [OF assms(1), of b "\<lambda>x. x OR f"] assms(2) by (auto simp: setFlags_def simulates_def)
next
  case (VClearFlags b f)
  then show ?thesis
    using flags_cells [OF assms(1), of b "\<lambda>x. x AND NOT f"] assms(2) by (auto simp: clearFlags_def simulates_def)
next
  case VClear
  moreover have "vman_clear m = vman_new" by (simp add: vman_clear_def vman_new_def)
  ultimately show ?thesis by (simp add: simulates_def vox_of_def) (simp add: vman_new_def)
qed (use assms set_node_simulates get_node_simulates add_area_simulates no_emerge_simulates in \<open>simp_all del: vox_run.simps vox_spec.simps\<close>)

fun vox_runs :: "vox_op list \<Rightarrow> vman \<Rightarrow> vox_answer res list \<times> vman" where
  "vox_runs [] m = ([], m)"
| "vox_runs (a # as) m = (let (r, m1) = vox_run a m; (rs, m2) = vox_runs as m1 in (r # rs, m2))"

fun vox_specs :: "vox_op list \<Rightarrow> vox \<Rightarrow> vox_answer res list \<times> vox" where
  "vox_specs [] S = ([], S)"
| "vox_specs (a # as) S = (let (r, S1) = vox_spec a S; (rs, S2) = vox_specs as S1 in (r # rs, S2))"

lemma vox_runs_simulate:
  "vm_ok m \<Longrightarrow> list_all op_near as \<Longrightarrow>
   fst (vox_runs as m) = fst (vox_specs as (vox_of m)) \<and> vox_of (snd (vox_runs as m)) = snd (vox_specs as (vox_of m))"
proof (induction as arbitrary: m)
  case (Cons a as)
  obtain r m1 where r: "vox_run a m = (r, m1)" by fastforce
  obtain r' S where s: "vox_spec a (vox_of m) = (r', S)" by (rule prod.exhaust)
  have "r = r'" "vm_ok m1" "vox_of m1 = S"
    using vox_run_simulates [OF Cons.prems(1), of a] Cons.prems(2) r s by (simp_all add: simulates_def)
  with Cons.IH [of m1] Cons.prems(2) r s show ?case
    by (simp add: split_def Let_def del: vox_run.simps vox_spec.simps)
qed simp


definition example_walk :: "vox_op list" where
  "example_walk = [VSetNode (mk_v3 0 0 0) (node_new 5), VGetNodeNoEx (mk_v3 2 (-1) 0), VGetNode (mk_v3 0 0 0), VExists (mk_v3 2 0 0),
     VSetFlags (point (mk_v3 0 0 0)) 2]"


end
