(* ===== verification/VoxelCopy.thy ===== *)
theory VoxelCopy
  imports VoxelCells
begin

section \<open>Copying blocks into a voxel manipulator\<close>

text \<open>
  \<open>copyFrom\<close> adds to its two indices instead of computing them. Under its preconditions it copies each
  position of the box, as the indices of the two areas say.
\<close>

lemma raw_index_step:
  "raw_index (mk_v3 x (y + 1) z) a = raw_index (mk_v3 x y z) a + vX (va_extent a)"
  "raw_index (mk_v3 x y (z + 1)) a = raw_index (mk_v3 x y z) a + vX (va_extent a) * vY (va_extent a)"
  by (simp_all add: raw_index_def algebra_simps)

lemma raw_index_shift:
  "raw_index (mk_v3 x (y + k) z) a = raw_index (mk_v3 x y z) a + k * vX (va_extent a)"
  by (simp add: raw_index_def algebra_simps)

lemma extents_bounded:
  assumes "area_wf a" and "contains_pos p a"
  shows "0 < vX (va_extent a)" and "0 < vX (va_extent a) * vY (va_extent a)"
    and "vX (va_extent a) \<le> volume a" and "vX (va_extent a) * vY (va_extent a) \<le> volume a"
proof -
  let ?X = "vX (va_extent a)" and ?Y = "vY (va_extent a)" and ?Z = "vZ (va_extent a)"
  have pos: "0 < ?X" "0 < ?Y" "0 < ?Z" using offsets [OF assms] by simp_all
  then show "0 < ?X" "0 < ?X * ?Y" by simp_all
  have xy: "?X * 1 \<le> ?X * ?Y" using pos by (intro mult_left_mono) simp_all
  have "?X * ?Y * 1 \<le> ?X * ?Y * ?Z" using pos by (intro mult_left_mono) simp_all
  then show "?X * ?Y \<le> volume a" by (simp add: volume_def)
  with xy show "?X \<le> volume a" by simp
qed

text \<open>One box: its corner \<open>t\<close> in the area \<open>A\<close> of the manipulator, its corner \<open>c\<close> in the area \<open>B\<close> of the source.\<close>

definition box_inside :: "v3 \<Rightarrow> v3 \<Rightarrow> voxel_area \<Rightarrow> bool" where
  "box_inside c sz a \<longleftrightarrow> contains_pos c a \<and> contains_pos (mk_v3 (vX c + vX sz - 1) (vY c + vY sz - 1) (vZ c + vZ sz - 1)) a"

definition in_box :: "v3 \<Rightarrow> v3 \<Rightarrow> v3 \<Rightarrow> bool" where
  "in_box c sz p \<longleftrightarrow> vX c \<le> vX p \<and> vX p < vX c + vX sz \<and> vY c \<le> vY p \<and> vY p < vY c + vY sz \<and> vZ c \<le> vZ p \<and> vZ p < vZ c + vZ sz"

definition source_at :: "map_node list \<Rightarrow> bool \<Rightarrow> voxel_area \<Rightarrow> v3 \<Rightarrow> v3 \<Rightarrow> v3 \<Rightarrow> map_node" where
  "source_at src single b c t p =
     (if single then src ! 0 else src ! idx (mk_v3 (vX p - vX t + vX c) (vY p - vY t + vY c) (vZ p - vZ t + vZ c)) b)"

lemma box_corner:
  assumes "box_inside c sz a" and "0 \<le> i" "i < vX sz" and "0 \<le> j" "j < vY sz" and "0 \<le> k" "k < vZ sz"
  shows "contains_pos (mk_v3 (vX c + i) (vY c + j) (vZ c + k)) a"
  using assms by (auto simp: box_inside_def contains_pos_def)

text \<open>One row of the loop, with its two indices, is a row of the node array and one of the flags.\<close>

definition row_nodes :: "map_node list \<Rightarrow> bool \<Rightarrow> voxel_area \<Rightarrow> v3 \<Rightarrow> v3 \<Rightarrow> int \<Rightarrow> int \<Rightarrow> nat \<Rightarrow> map_node \<Rightarrow> map_node" where
  "row_nodes src single b c t z y k _ =
     (if single then src ! 0 else src ! (nat (raw_index (mk_v3 (vX c) (y - vY t + vY c) (z - vZ t + vZ c)) b) + k))"

definition source_ok :: "map_node list \<Rightarrow> bool \<Rightarrow> voxel_area \<Rightarrow> bool" where
  "source_ok src single b \<longleftrightarrow> area_wf b \<and> volume b \<le> MAX_WORKING_VOLUME \<and> (if single then src \<noteq> [] else int (length src) = volume b)"

lemma copy_row_at:
  assumes src: "source_ok src single b" and c: "box_inside c sz b" and a: "area_wf a" "volume a \<le> MAX_WORKING_VOLUME" and t: "box_inside t sz a"
    and jk: "0 \<le> j" "j < vY sz" "0 \<le> k" "k < vZ sz" and w: "0 < vX sz"
    and d: "range_update (raw_index (mk_v3 (vX t) (vY t + j) (vZ t + k)) a) (vX sz) (row_nodes src single b c t (vZ t + k) (vY t + j)) d = Inr d'"
    and f: "range_update (raw_index (mk_v3 (vX t) (vY t + j) (vZ t + k)) a) (vX sz) (\<lambda>_ _. 0) f = Inr f'"
  shows "copy_row src single (vX sz) (vX (va_extent b)) (vX (va_extent a))
      (raw_index (mk_v3 (vX c) (vY c + j) (vZ c + k)) b, raw_index (mk_v3 (vX t) (vY t + j) (vZ t + k)) a, d, f) =
    Inr (raw_index (mk_v3 (vX c) (vY c + (j + 1)) (vZ c + k)) b, raw_index (mk_v3 (vX t) (vY t + (j + 1)) (vZ t + k)) a, d', f')"
proof -
  let ?s = "raw_index (mk_v3 (vX c) (vY c + j) (vZ c + k)) b" and ?l = "raw_index (mk_v3 (vX t) (vY t + j) (vZ t + k)) a"
  have b: "area_wf b" "volume b \<le> MAX_WORKING_VOLUME" using src by (simp_all add: source_ok_def)
  have inb: "contains_pos (mk_v3 (vX c) (vY c + j) (vZ c + k)) b" using box_corner [OF c, of 0 j k] jk w by simp
  have ina: "contains_pos (mk_v3 (vX t) (vY t + j) (vZ t + k)) a" using box_corner [OF t, of 0 j k] jk w by simp
  have wide: "vX c + vX sz - 1 \<le> vX (MaxEdge b)" using c by (simp add: box_inside_def contains_pos_def)
  note bs = raw_index_bounds [OF b(1) inb] extents_bounded [OF b(1) inb]
  note ba = raw_index_bounds [OF a(1) ina] extents_bounded [OF a(1) ina]
  have steps: "to_s32 (?s + vX (va_extent b)) = ?s + vX (va_extent b)" "to_s32 (?l + vX (va_extent a)) = ?l + vX (va_extent a)"
    using bs ba a(2) b(2) by (simp_all add: to_s32_id MAX_WORKING_VOLUME_def)
  have y: "vY c + (j + 1) = (vY c + j) + 1" "vY t + (j + 1) = (vY t + j) + 1" by simp_all
  have "(if single then rbind (array_get 0 src) (\<lambda>n. fill_n ?l (vX sz) n d) else copy_n src ?s (vX sz) ?l d) = Inr d'"
  proof (cases single)
    case True
    have "row_nodes src single b c t (vZ t + k) (vY t + j) = (\<lambda>_ _. src ! 0)"
      by (intro ext) (simp add: row_nodes_def True)
    moreover have "array_get 0 src = Inr (src ! 0)"
      using src True by (simp add: source_ok_def array_get_def)
    ultimately show ?thesis using True d by (simp add: fill_n_def)
  next
    case False
    have "row_nodes src single b c t (vZ t + k) (vY t + j) = (\<lambda>i _. src ! (nat ?s + i))"
      using False by (intro ext) (simp add: row_nodes_def add.commute)
    moreover have "int (length src) = volume b" using src False by (simp add: source_ok_def)
    ultimately show ?thesis
      using copy_n_row [OF b(1) inb w wide, of src ?l d] d False by simp
  qed
  with f steps show ?thesis
    unfolding copy_row_def y raw_index_step by (simp add: fill_n_def)
qed

subsection \<open>The loops\<close>

definition node_row :: "map_node list \<Rightarrow> bool \<Rightarrow> voxel_area \<Rightarrow> v3 \<Rightarrow> v3 \<Rightarrow> v3 \<Rightarrow> voxel_area \<Rightarrow> int \<times> int \<Rightarrow> map_node list \<Rightarrow> map_node list res" where
  "node_row src single b c t sz a = (\<lambda>(z, y). range_update (raw_index (mk_v3 (vX t) y z) a) (vX sz) (row_nodes src single b c t z y))"

definition flag_row :: "v3 \<Rightarrow> v3 \<Rightarrow> voxel_area \<Rightarrow> int \<times> int \<Rightarrow> u8 list \<Rightarrow> u8 list res" where
  "flag_row t sz a = (\<lambda>(z, y). range_update (raw_index (mk_v3 (vX t) y z) a) (vX sz) (\<lambda>_ _. 0))"

definition layer_rows :: "int \<Rightarrow> int \<Rightarrow> int \<Rightarrow> (int \<times> int) list" where
  "layer_rows z y n = map (Pair z) [y..y + n - 1]"

lemma layer_rows_simps:
  "layer_rows z y 0 = []"
  "0 < n \<Longrightarrow> layer_rows z y n = (z, y) # layer_rows z (y + 1) (n - 1)"
  by (simp_all add: layer_rows_def upto_rec1)

lemma copy_layer:
  assumes "source_ok src single b" and "box_inside c sz b" and "area_wf a" "volume a \<le> MAX_WORKING_VOLUME" and "box_inside t sz a"
    and "0 \<le> k" "k < vZ sz" and "0 < vX sz"
    and "0 \<le> j" "j + int n \<le> vY sz"
    and "rfold (node_row src single b c t sz a) (layer_rows (vZ t + k) (vY t + j) (int n)) d = Inr d'"
    and "rfold (flag_row t sz a) (layer_rows (vZ t + k) (vY t + j) (int n)) f = Inr f'"
  shows "repeat n (copy_row src single (vX sz) (vX (va_extent b)) (vX (va_extent a)))
      (raw_index (mk_v3 (vX c) (vY c + j) (vZ c + k)) b, raw_index (mk_v3 (vX t) (vY t + j) (vZ t + k)) a, d, f) =
    Inr (raw_index (mk_v3 (vX c) (vY c + (j + int n)) (vZ c + k)) b, raw_index (mk_v3 (vX t) (vY t + (j + int n)) (vZ t + k)) a, d', f')"
  using assms(9-)
proof (induction n arbitrary: j d f)
  case 0
  then show ?case by (simp add: layer_rows_simps)
next
  case (Suc n)
  have rows: "layer_rows (vZ t + k) (vY t + j) (int (Suc n)) = (vZ t + k, vY t + j) # layer_rows (vZ t + k) (vY t + (j + 1)) (int n)"
    by (simp add: layer_rows_simps add.assoc)
  obtain d1 where d1: "node_row src single b c t sz a (vZ t + k, vY t + j) d = Inr d1"
    "rfold (node_row src single b c t sz a) (layer_rows (vZ t + k) (vY t + (j + 1)) (int n)) d1 = Inr d'"
    using Suc.prems(3) unfolding rows by auto
  obtain f1 where f1: "flag_row t sz a (vZ t + k, vY t + j) f = Inr f1"
    "rfold (flag_row t sz a) (layer_rows (vZ t + k) (vY t + (j + 1)) (int n)) f1 = Inr f'"
    using Suc.prems(4) unfolding rows by auto
  have "copy_row src single (vX sz) (vX (va_extent b)) (vX (va_extent a))
      (raw_index (mk_v3 (vX c) (vY c + j) (vZ c + k)) b, raw_index (mk_v3 (vX t) (vY t + j) (vZ t + k)) a, d, f) =
    Inr (raw_index (mk_v3 (vX c) (vY c + (j + 1)) (vZ c + k)) b, raw_index (mk_v3 (vX t) (vY t + (j + 1)) (vZ t + k)) a, d1, f1)"
    using d1(1) f1(1) Suc.prems(1,2)
    by (intro copy_row_at assms(1-8)) (simp_all add: node_row_def flag_row_def)
  with Suc.IH [of "j + 1" d1 f1] d1(2) f1(2) Suc.prems(1,2) show ?case
    by (simp add: algebra_simps)
qed

definition box_rows :: "int \<Rightarrow> int \<Rightarrow> int \<Rightarrow> int \<Rightarrow> (int \<times> int) list" where
  "box_rows z n y m = concat (map (\<lambda>z. layer_rows z y m) [z..z + n - 1])"

lemma box_rows_simps:
  "box_rows z 0 y m = []"
  "0 < n \<Longrightarrow> box_rows z n y m = layer_rows z y m @ box_rows (z + 1) (n - 1) y m"
  by (simp_all add: box_rows_def upto_rec1)

lemma copy_layers:
  assumes src: "source_ok src single b" and c: "box_inside c sz b" and a: "area_wf a" "volume a \<le> MAX_WORKING_VOLUME" and t: "box_inside t sz a"
    and full: "vY sz = vY (va_extent b)" and size: "0 < vX sz" "0 < vY sz"
    and n: "0 \<le> k" "k + int n \<le> vZ sz"
    and "rfold (node_row src single b c t sz a) (box_rows (vZ t + k) (int n) (vY t) (vY sz)) d = Inr d'"
    and "rfold (flag_row t sz a) (box_rows (vZ t + k) (int n) (vY t) (vY sz)) f = Inr f'"
    and dest_mod: "dest_mod = vX (va_extent a) * vY (va_extent a) - vX (va_extent a) * vY sz"
  shows "repeat n (\<lambda>s. rbind (repeat (nat (vY sz)) (copy_row src single (vX sz) (vX (va_extent b)) (vX (va_extent a))) s)
        (\<lambda>(i_src, i_local, d, f). Inr (i_src, to_s32 (i_local + dest_mod), d, f)))
      (raw_index (mk_v3 (vX c) (vY c) (vZ c + k)) b, raw_index (mk_v3 (vX t) (vY t) (vZ t + k)) a, d, f) =
    Inr (raw_index (mk_v3 (vX c) (vY c) (vZ c + (k + int n))) b, raw_index (mk_v3 (vX t) (vY t) (vZ t + (k + int n))) a, d', f')"
  using n assms(11,12)
proof (induction n arbitrary: k d f)
  case 0
  then show ?case by (simp add: box_rows_simps)
next
  case (Suc n)
  have rows: "box_rows (vZ t + k) (int (Suc n)) (vY t) (vY sz) = layer_rows (vZ t + k) (vY t + 0) (int (nat (vY sz))) @ box_rows (vZ t + (k + 1)) (int n) (vY t) (vY sz)"
    using size by (simp add: box_rows_simps add.assoc)
  obtain d1 where d1: "rfold (node_row src single b c t sz a) (layer_rows (vZ t + k) (vY t + 0) (int (nat (vY sz)))) d = Inr d1"
    "rfold (node_row src single b c t sz a) (box_rows (vZ t + (k + 1)) (int n) (vY t) (vY sz)) d1 = Inr d'"
    using Suc.prems(3) unfolding rows by auto
  obtain f1 where f1: "rfold (flag_row t sz a) (layer_rows (vZ t + k) (vY t + 0) (int (nat (vY sz)))) f = Inr f1"
    "rfold (flag_row t sz a) (box_rows (vZ t + (k + 1)) (int n) (vY t) (vY sz)) f1 = Inr f'"
    using Suc.prems(4) unfolding rows by auto
  have k: "k < vZ sz" using Suc.prems(2) by simp
  have layer: "repeat (nat (vY sz)) (copy_row src single (vX sz) (vX (va_extent b)) (vX (va_extent a)))
      (raw_index (mk_v3 (vX c) (vY c + 0) (vZ c + k)) b, raw_index (mk_v3 (vX t) (vY t + 0) (vZ t + k)) a, d, f) =
    Inr (raw_index (mk_v3 (vX c) (vY c + (0 + int (nat (vY sz)))) (vZ c + k)) b, raw_index (mk_v3 (vX t) (vY t + (0 + int (nat (vY sz)))) (vZ t + k)) a, d1, f1)"
    by (rule copy_layer [OF src c a t Suc.prems(1) k size(1) _ _ d1(1) f1(1)]) (use size in simp_all)
  have s: "raw_index (mk_v3 (vX c) (vY c + vY sz) (vZ c + k)) b = raw_index (mk_v3 (vX c) (vY c) (vZ c + (k + 1))) b"
    using full by (simp add: raw_index_def algebra_simps)
  have ina: "contains_pos (mk_v3 (vX t) (vY t) (vZ t + k)) a" using box_corner [OF t, of 0 0 k] Suc.prems(1) k size by simp
  have l: "raw_index (mk_v3 (vX t) (vY t + vY sz) (vZ t + k)) a + dest_mod = raw_index (mk_v3 (vX t) (vY t) (vZ t + (k + 1))) a"
    by (simp add: dest_mod raw_index_def algebra_simps)
  have "raw_index (mk_v3 (vX t) (vY t) (vZ t + (k + 1))) a = raw_index (mk_v3 (vX t) (vY t) (vZ t + k)) a + vX (va_extent a) * vY (va_extent a)"
    by (simp add: raw_index_def algebra_simps)
  with raw_index_bounds [OF a(1) ina] extents_bounded [OF a(1) ina] a(2)
  have "to_s32 (raw_index (mk_v3 (vX t) (vY t) (vZ t + (k + 1))) a) = raw_index (mk_v3 (vX t) (vY t) (vZ t + (k + 1))) a"
    by (simp add: to_s32_id MAX_WORKING_VOLUME_def)
  with layer s l Suc.IH [of "k + 1" d1 f1] d1(2) f1(2) Suc.prems(1,2) size show ?case
    by (simp add: algebra_simps)
qed

lemma set_box_rows: "(z, y) \<in> set (box_rows z0 n y0 m) \<longleftrightarrow> z0 \<le> z \<and> z < z0 + n \<and> y0 \<le> y \<and> y < y0 + m"
  by (auto simp: box_rows_def layer_rows_def image_iff)

lemma distinct_box_rows: "distinct (box_rows z0 n y0 m)"
  unfolding box_rows_def layer_rows_def by (rule distinct_pairs) simp_all

subsection \<open>The result\<close>

text \<open>
  C31: Copying a box of a source with the incrementally computed indices is copying it position by
  position. When the box lies in both areas, the source is as high as the box, and the counters of
  the loops do not overflow, then each position of the box gets the node at the corresponding
  position of the source (or the one node of a mono block) and flags 0, and no other position
  changes.
\<close>

theorem copyFrom_positions:
  assumes m: "vm_ok m" and src: "source_ok src single src_area" and c: "box_inside from_pos sz src_area"
    and t: "box_inside to_pos sz (vm_area m)" and full: "vY sz = vY (va_extent src_area)"
    and size: "0 < vX sz" "0 < vY sz" "vY sz \<le> 32767" "0 < vZ sz" "vZ sz \<le> 32767"
  shows "\<exists>m'. copyFrom src single src_area from_pos to_pos sz m = Some (Inr m') \<and> vm_ok m' \<and> vm_area m' = vm_area m \<and>
    (\<forall>p. vm_cells m' p = (if in_box to_pos sz p then Some (source_at src single src_area from_pos to_pos p, 0) else vm_cells m p))"
proof -
  let ?A = "vm_area m" and ?rows = "box_rows (vZ to_pos) (vZ sz) (vY to_pos) (vY sz)"
  note ok = vm_okD [OF m]
  have b: "area_wf src_area" "volume src_area \<le> MAX_WORKING_VOLUME" using src by (simp_all add: source_ok_def)
  have inA: "contains_pos (mk_v3 (vX to_pos) y z) ?A" if "(z, y) \<in> set ?rows" for z y
    using box_corner [OF t, of 0 "y - vY to_pos" "z - vZ to_pos"] that size by (simp add: set_box_rows)
  have wide: "vX to_pos + vX sz - 1 \<le> vX (MaxEdge ?A)" using t by (simp add: box_inside_def contains_pos_def)
  obtain d where d: "rfold (node_row src single src_area from_pos to_pos sz ?A) ?rows (vm_data m) = Inr d" "length d = length (vm_data m)"
    "\<And>p. contains_pos p ?A \<Longrightarrow> d ! idx p ?A = (if (vZ p, vY p) \<in> set ?rows \<and> vX to_pos \<le> vX p \<and> vX p < vX to_pos + vX sz
      then row_nodes src single src_area from_pos to_pos (vZ p) (vY p) (nat (vX p - vX to_pos)) (vm_data m ! idx p ?A) else vm_data m ! idx p ?A)"
    using rfold_rows [where g = "row_nodes src single src_area from_pos to_pos", OF ok(1,4) distinct_box_rows inA size(1) wide]
    unfolding node_row_def by blast
  obtain f where f: "rfold (flag_row to_pos sz ?A) ?rows (vm_flags m) = Inr f" "length f = length (vm_flags m)"
    "\<And>p. contains_pos p ?A \<Longrightarrow> f ! idx p ?A = (if (vZ p, vY p) \<in> set ?rows \<and> vX to_pos \<le> vX p \<and> vX p < vX to_pos + vX sz
      then 0 else vm_flags m ! idx p ?A)"
    using rfold_rows [where g = "\<lambda>_ _ _ _. 0", OF ok(1,5) distinct_box_rows inA size(1) wide]
    unfolding flag_row_def by blast
  let ?m = "m\<lparr>vm_data := d, vm_flags := f\<rparr>"
  have ina: "contains_pos to_pos ?A" and inb: "contains_pos from_pos src_area" using t c by (simp_all add: box_inside_def)
  have corner: "mk_v3 (vX p) (vY p) (vZ p) = p" for p by (simp add: v3_eq_iff)
  have next_layer: "raw_index (mk_v3 (vX to_pos) (vY to_pos) (vZ to_pos + 1)) ?A =
      raw_index to_pos ?A + vX (va_extent ?A) * vY (va_extent ?A)"
    by (simp add: raw_index_def algebra_simps)
  have "index_xyz (vX to_pos) (vY to_pos) (vZ to_pos + 1) ?A = to_s32 (raw_index (mk_v3 (vX to_pos) (vY to_pos) (vZ to_pos + 1)) ?A)"
    by (simp add: index_xyz_def raw_index_def algebra_simps)
  moreover note bounds = raw_index_bounds [OF ok(1) ina] extents_bounded [OF ok(1) ina] ok(6)
  ultimately have up: "index_xyz (vX to_pos) (vY to_pos) (vZ to_pos + 1) ?A = raw_index to_pos ?A + vX (va_extent ?A) * vY (va_extent ?A)"
    unfolding next_layer by (simp add: to_s32_id MAX_WORKING_VOLUME_def)
  have at: "area_index to_pos ?A = raw_index to_pos ?A" "area_index from_pos src_area = raw_index from_pos src_area"
    "index_xyz (vX to_pos) (vY to_pos) (vZ to_pos) ?A = raw_index to_pos ?A"
    using area_index_raw [OF ok(1) ina ok(2)] area_index_raw [OF b(1) inb] b(2)
    by (simp_all add: area_index_def MAX_WORKING_VOLUME_def)
  have "vY sz \<le> vY (va_extent ?A)"
    using t ok(1) by (simp add: box_inside_def contains_pos_def area_wf_def extent_ok_def)
  then have "0 \<le> vX (va_extent ?A) * vY sz \<and> vX (va_extent ?A) * vY sz \<le> vX (va_extent ?A) * vY (va_extent ?A)"
    using bounds(3) size(2) by (simp add: mult_left_mono)
  then have small: "to_s32 (vX (va_extent ?A) * vY (va_extent ?A) - vX (va_extent ?A) * vY sz) = vX (va_extent ?A) * vY (va_extent ?A) - vX (va_extent ?A) * vY sz"
    using bounds(5,6,7) by (simp add: to_s32_id MAX_WORKING_VOLUME_def)
  have zero: "vZ to_pos + 0 = vZ to_pos" "vZ from_pos + 0 = vZ from_pos" "int (nat (vZ sz)) = vZ sz" using size by simp_all
  have "repeat (nat (vZ sz)) (\<lambda>s. rbind (repeat (nat (vY sz)) (copy_row src single (vX sz) (vX (va_extent src_area)) (vX (va_extent ?A))) s)
        (\<lambda>(i_src, i_local, d, f). Inr (i_src, to_s32 (i_local + (vX (va_extent ?A) * vY (va_extent ?A) - vX (va_extent ?A) * vY sz)), d, f)))
      (raw_index (mk_v3 (vX from_pos) (vY from_pos) (vZ from_pos + 0)) src_area,
       raw_index (mk_v3 (vX to_pos) (vY to_pos) (vZ to_pos + 0)) ?A, vm_data m, vm_flags m) =
    Inr (raw_index (mk_v3 (vX from_pos) (vY from_pos) (vZ from_pos + (0 + int (nat (vZ sz))))) src_area,
       raw_index (mk_v3 (vX to_pos) (vY to_pos) (vZ to_pos + (0 + int (nat (vZ sz))))) ?A, d, f)"
    by (rule copy_layers [OF src c ok(1,6) t full size(1,2) _ _ _ _ refl]) (use d(1) f(1) zero in simp_all)
  then have "copyFrom src single src_area from_pos to_pos sz m = Some (Inr ?m)"
    using size unfolding zero corner copyFrom_def by (simp add: Let_def at up small)
  moreover have "vm_ok ?m" using m d(2) f(2) by (simp add: vm_ok_def)
  moreover have "vm_cells ?m p = (if in_box to_pos sz p then Some (source_at src single src_area from_pos to_pos p, 0) else vm_cells m p)" for p
  proof (cases "in_box to_pos sz p")
    case True
    then have on: "(vZ p, vY p) \<in> set ?rows \<and> vX to_pos \<le> vX p \<and> vX p < vX to_pos + vX sz"
      by (simp add: set_box_rows in_box_def)
    have pA: "contains_pos p ?A"
      using True t by (auto simp: in_box_def box_inside_def contains_pos_def)
    let ?q = "mk_v3 (vX p - vX to_pos + vX from_pos) (vY p - vY to_pos + vY from_pos) (vZ p - vZ to_pos + vZ from_pos)"
    have q: "contains_pos ?q src_area" "contains_pos (mk_v3 (vX from_pos) (vY ?q) (vZ ?q)) src_area"
      using True c by (auto simp: in_box_def box_inside_def contains_pos_def)
    have "nat (raw_index (mk_v3 (vX from_pos) (vY ?q) (vZ ?q)) src_area) + nat (vX ?q - vX from_pos) = idx ?q src_area"
      by (rule idx_on_row [OF b(1) q(1) _ q(2)]) (use True in \<open>simp add: in_box_def\<close>)
    then have "row_nodes src single src_area from_pos to_pos (vZ p) (vY p) (nat (vX p - vX to_pos)) n = source_at src single src_area from_pos to_pos p" for n
      by (simp add: row_nodes_def source_at_def)
    with True pA d(3) [OF pA] f(3) [OF pA] on show ?thesis
      by (simp add: vm_cells_def)
  next
    case False
    then have off: "\<not> ((vZ p, vY p) \<in> set ?rows \<and> vX to_pos \<le> vX p \<and> vX p < vX to_pos + vX sz)"
      unfolding set_box_rows in_box_def by blast
    with False d(3) [of p] f(3) [of p] show ?thesis
      unfolding vm_cells_def by (simp only: if_False if_not_P) simp
  qed
  ultimately show ?thesis by auto
qed

definition example_manip :: vman where
  "example_manip = \<lparr>vm_area = \<lparr>MinEdge = mk_v3 0 0 0, MaxEdge = mk_v3 2 2 1, va_extent = mk_v3 3 3 2\<rparr>,
     vm_data = replicate 18 (node_new 127), vm_flags = replicate 18 1\<rparr>"

definition example_block :: voxel_area where
  "example_block = \<lparr>MinEdge = mk_v3 0 0 0, MaxEdge = mk_v3 1 1 1, va_extent = mk_v3 2 2 2\<rparr>"

theorem copyFrom_positions_witness:
  "\<exists>m'. copyFrom (map node_new [1, 2, 3, 4, 5, 6, 7, 8]) False example_block (mk_v3 0 0 0) (mk_v3 1 1 0) (mk_v3 2 2 2) example_manip = Some (Inr m') \<and>
    vm_ok m' \<and> vm_area m' = vm_area example_manip \<and>
    (\<forall>p. vm_cells m' p = (if in_box (mk_v3 1 1 0) (mk_v3 2 2 2) p
      then Some (source_at (map node_new [1, 2, 3, 4, 5, 6, 7, 8]) False example_block (mk_v3 0 0 0) (mk_v3 1 1 0) p, 0)
      else vm_cells example_manip p))"
  by (rule copyFrom_positions)
    (simp_all add: example_manip_def example_block_def vm_ok_def near_area_def near_def area_wf_def in_map_def extent_ok_def
      MAX_MAP_GENERATION_LIMIT_def MAX_WORKING_VOLUME_def volume_def source_ok_def box_inside_def contains_pos_def)

end
