(* ===== verification/Spec2Isabelle.thy ===== *)
theory Spec2Isabelle
  imports Prelude NameIdMap Metadata Inventory MtpDelivery MtpThreads MoveConservation ModChannelSessions NodeRegistry NodeParams NodeStorage NodeMeta MapBlockStorage VoxelRefinement VoxelCopy
begin

text \<open>
  A verification development of the freeminer engine, a voxel game with a server and clients in
  C++. The server owns the world, the players and their inventories; a client talks to it through
  a connection-oriented protocol over UDP. The development models the parts that the rest of the
  engine goes through: the items, stacks and inventories with the text and binary formats they are
  stored and sent in, and what the server does when a player moves items; the transport protocol
  and the packets of the commands on top of it; the channels of mods between client and server;
  the nodes of the map, the blocks they are stored and sent in, and the voxel manipulator that map
  generators and liquids work on. All source paths are below \<^verbatim>\<open>src/\<close>.

  \<^bold>\<open>The theories and the code.\<close> Each theory holds the state of one part as records and datatypes, one
  function per operation of the code, and the lemmas about them. Functions keep the names of the
  code, with a prefix for the class where the name alone would not tell.

  \<^item> \<open>Prelude\<close>: machine integers, the exceptions as the datatype \<open>error\<close>, results \<open>'a res\<close> with
    \<open>rbind\<close>, strings as lists of characters, the arithmetic of C++ that differs from that of the
    library, and lemmas on lists and association lists.
  \<^item> \<open>Serialize\<close> (\<^verbatim>\<open>util/serialize.h\<close>, \<^verbatim>\<open>util/hex.h\<close>), \<open>SerializedStrings\<close> (\<^verbatim>\<open>util/serialize.cpp\<close>),
    \<open>TextIO\<close> (\<^verbatim>\<open>util/string.h\<close>, \<^verbatim>\<open>util/strfnd.h\<close> and what they use of the streams of the standard
    library): byte order, length-prefixed and quoted strings, number and line scanners.
  \<^item> \<open>NameIdMap\<close> (\<^verbatim>\<open>nameidmapping.h\<close>, \<^verbatim>\<open>nameidmapping.cpp\<close>, \<^verbatim>\<open>content_mapnode.cpp\<close>): the two-way map
    between content ids and node names that every stored map block carries.
  \<^item> \<open>Metadata\<close> (\<^verbatim>\<open>metadata.h\<close>, \<^verbatim>\<open>metadata.cpp\<close>, \<^verbatim>\<open>itemstackmetadata.cpp\<close>): string maps with references,
    and the metadata of an item with its cached overrides.
  \<^item> \<open>ItemDef\<close> (\<^verbatim>\<open>itemdef.h\<close>, \<^verbatim>\<open>itemdef.cpp\<close>): the table of item definitions and aliases, and the
    interface \<open>IItemDefManager\<close> through which the inventories read it.
  \<^item> \<open>ItemStack\<close>, \<open>InventoryList\<close>, \<open>Inventory\<close> (\<^verbatim>\<open>inventory.h\<close>, \<^verbatim>\<open>inventory.cpp\<close>): the three layers of
    an inventory. Operations between two lists work on a store from references to lists, since
    source and destination may be the same list.
  \<^item> \<open>InventoryAction\<close> (\<^verbatim>\<open>inventorymanager.h\<close>, \<^verbatim>\<open>inventorymanager.cpp\<close>): inventory locations and the actions
    that a client sends, with their text form. \<open>InventoryManager\<close> (\<^verbatim>\<open>server/serverinventorymgr.cpp\<close>): the
    detached inventories and the world of all inventories that a location is looked up in.
    \<open>MoveAction\<close> (\<^verbatim>\<open>inventorymanager.cpp\<close>): moving and dropping, with the callbacks into scripts at the
    points where the code calls them. \<open>MoveLocks\<close> and \<open>MoveConservation\<close>: what scripts can and cannot
    break about a move.
  \<^item> \<open>MtpPackets\<close>, \<open>MtpBuffers\<close> (\<^verbatim>\<open>network/mtp/internal.h\<close>, \<^verbatim>\<open>network/mtp/impl.cpp\<close>): the packet formats,
    the circular order of sequence numbers, the buffers of reliable and of split packets.
  \<^item> \<open>MtpChannel\<close> (\<^verbatim>\<open>Channel\<close>, \<^verbatim>\<open>UDPPeer\<close> and \<^verbatim>\<open>ConnectionCommand\<close>), \<open>MtpConnection\<close> (\<^verbatim>\<open>Connection\<close>, its events
    and the operations of \<^verbatim>\<open>ConnectionSendThread\<close>), \<open>MtpReceive\<close> (\<^verbatim>\<open>ConnectionReceiveThread\<close>).
  \<^item> \<open>MtpDelivery\<close>: datagrams arriving in any order come out in the order they were sent.
  \<^item> \<open>MtpThreads\<close>: the loop of the send thread, and the invariant of a connection under all its
    operations in any order.
  \<^item> \<open>NetworkPacket\<close>, \<open>PacketFields\<close> (\<^verbatim>\<open>network/networkpacket.h\<close>, \<^verbatim>\<open>network/networkpacket.cpp\<close>): the packet of
    a command, its writers and its checked readers, and the contract that every field type meets.
  \<^item> \<open>ModChannels\<close> (\<^verbatim>\<open>modchannels.h\<close>, \<^verbatim>\<open>modchannels.cpp\<close>), \<open>ModChannelMessages\<close> (\<^verbatim>\<open>server.cpp\<close>,
    \<^verbatim>\<open>network/serverpackethandler.cpp\<close>, \<^verbatim>\<open>client/client.cpp\<close>, \<^verbatim>\<open>network/clientpackethandler.cpp\<close>): the channels
    and the handlers of their commands on both sides. \<open>ModChannelSessions\<close>: a client and the server with
    the packets on their way between them, as a step relation.
  \<^item> \<open>MapNode\<close> (\<^verbatim>\<open>mapnode.h\<close>), \<open>VoxelArea\<close>, \<open>VoxelManipulator\<close> (\<^verbatim>\<open>voxel.h\<close>, \<^verbatim>\<open>voxel.cpp\<close>): nodes, boxes of
    positions, and the array of nodes over a box that grows. \<open>VoxelCells\<close> and \<open>VoxelRefinement\<close>: the
    manipulator as a map from positions to cells. \<open>VoxelCopy\<close>: copying with running indices.
  \<^item> \<open>NodeDef\<close> (\<^verbatim>\<open>nodedef.h\<close>, \<^verbatim>\<open>nodedef.cpp\<close>, \<^verbatim>\<open>itemgroup.h\<close>): the features of a node and the manager that gives
    ids to names, and \<open>NodeRegistry\<close>: its invariant. \<open>NodeParams\<close> (\<^verbatim>\<open>mapnode.h\<close>, \<^verbatim>\<open>mapnode.cpp\<close>, \<^verbatim>\<open>light.h\<close>): light,
    direction, rotation and level of a node. \<open>NodeStorage\<close> (\<^verbatim>\<open>mapnode.cpp\<close>, \<^verbatim>\<open>serialization.h\<close>): the stored
    form of nodes. \<open>NodeMeta\<close> (\<^verbatim>\<open>nodemetadata.h\<close>, \<^verbatim>\<open>nodemetadata.cpp\<close>): the strings and the inventory of a node,
    and the list of a block.
  \<^item> \<open>FloatFormat\<close> (\<^verbatim>\<open>util/serialize.h\<close>): the stored forms of floating-point numbers. \<open>StaticObjects\<close>
    (\<^verbatim>\<open>staticobject.h\<close>, \<^verbatim>\<open>staticobject.cpp\<close>), \<open>NodeTimers\<close> (\<^verbatim>\<open>nodetimer.h\<close>, \<^verbatim>\<open>nodetimer.cpp\<close>): the objects and the
    timers of a block. \<open>BlockIds\<close> (\<^verbatim>\<open>mapblock.cpp\<close>): the small ids that nodes have on disk. \<open>MapBlock\<close>
    (\<^verbatim>\<open>mapblock.h\<close>, \<^verbatim>\<open>mapblock.cpp\<close>, \<^verbatim>\<open>modifiedstate.h\<close>): a block with its nodes, one for all or all of
    them. \<open>MapBlockStorage\<close> (\<^verbatim>\<open>mapblock.cpp\<close>): its form on disk and over the network, made of the parts
    of the other theories.

  \<^bold>\<open>How the code is modelled.\<close> An unsigned integer is a word of its width, a signed one an \<open>int\<close> with
  the conversion written out where it can wrap (\<open>to_s16\<close>, \<open>to_s32\<close>, the default build with 32-bit
  positions). A buffer is a list of bytes; a read from a received buffer goes through \<open>fetch\<close>,
  which gives the error \<open>OutOfBounds\<close> outside the buffer. An exception is the left side of a
  result, and where it leaves changes behind, the state is returned with it. Undefined behaviour
  that the code could run into is one of the errors \<open>OutOfBounds\<close>, \<open>NullDereference\<close>,
  \<open>UninitializedRead\<close> or \<open>AssertFailed\<close>, so that a theorem that an operation returns normally also
  says that it is free of it. Maps are association lists with distinct keys, an invariant that is
  proved. Locks make an operation atomic; the interleaving of the threads is the step relation
  \<open>connection_step\<close>.

  Parameters of the model are what the code does not decide: comparisons of clock times, random
  numbers, whether a socket could be bound, the callbacks into scripts, the item definitions given
  through the interface. A floating-point number is its bit pattern, and the arithmetic of the
  processor on it is the record \<open>float_ops\<close>; compression and the packing of the points of light, by
  libraries outside the tree, are the record \<open>block_codecs\<close>. No hypotheses are made about them unless a
  theorem states them (\<open>float_order\<close>, \<open>codecs_ok\<close>).

  \<^bold>\<open>Interfaces.\<close> The locale \<open>codec\<close> (extended by \<open>fixed_codec\<close>) is the contract of an encoder and its
  decoder, interpreted for the integers, the two string formats and the entries of a name-id
  mapping. The locale \<open>item_manager\<close> is what the inventories rely on of the item definitions,
  interpreted for \<open>CItemDefManager\<close>. The locale \<open>sequence_buffer\<close> is a buffer that hands its packets out
  in circular order, interpreted for \<open>ReliablePacketBuffer\<close>; the delivery theorem rests on it. The
  locale \<open>steps\<close> carries a relation between the world before and after through all the steps of a
  move; it is interpreted once for what survives any script that respects the locks (\<open>locked\<close>) and
  once for the number of items (\<open>conserving\<close>). The locales \<open>packet_field\<close> and \<open>fixed_field\<close> are the contract
  of a field of a packet, interpreted for every type that a packet carries. The locale
  \<open>channel_registry\<close> is what the server relies on of the mod channels, interpreted for the manager and
  for its specification.

  \<^bold>\<open>What is shown.\<close> Round trips of all the formats, also for the incremental form that the server
  sends to a client. For stacks and lists: what each operation moves, that nothing is lost or
  made by moving items (with the wrap-around of the 16-bit count as the stated exception), that
  the queries agree with the operations they predict. For the protocol: the order of sequence
  numbers, the order of the reliable buffer, that a split packet is put together whatever the
  order of its chunks, that a reliable command is queued in full or not at all, the bounds of the
  send window, that every operation keeps the connection well-formed, that no datagram stops the
  receive thread or makes it read outside a buffer, and that the data of a reliable channel is
  delivered exactly once and in order. For packets: fields of any types come out as they went in,
  and no read leaves the packet. For the actions of players: a move neither makes nor loses items
  and, forbidden by a script, changes nothing. For mod channels: the manager refines a map from
  names to members, a message reaches the members, and client and server agree about who is in a
  channel. For voxels: a manipulator refines a map from positions to cells. For nodes: the manager
  keeps names, ids, groups and cached light in agreement, rotations compose, and the stored forms
  of nodes and of their metadata are read back, without the private strings on the network. For
  blocks: a block of one node for all behaves as a full one, the timers refine a map from positions
  to times, a block stored by one server is loaded by any other with the same nodes by name, and a
  block sent over the network is received with the same nodes.

  \<^bold>\<open>Loops.\<close> No fuel is used. The loop that reads the buffered packets ends because each round takes a
  packet out (\<open>total_buffered\<close>), the loop over the commands because no command that can be put back
  is made twice, the splitting of a packet because its offset grows, the readers of the text
  formats because the stream gets shorter. The loops of \<open>copyFrom\<close> count in 16 bits: for an extent that
  their counters never reach they do not end, and the definition is a partial function. So is the
  search for a free id of a node, which is shown to end (\<open>allocateId_cases\<close>).

  \<^bold>\<open>Not modelled.\<close> Logging and rates in floating point; the statistics of the round-trip time; the
  socket itself and the other transports, which wrap libraries outside the tree; rendering and
  input of the client; the map generators (floating-point noise); the bindings to Lua; the
  databases. Of the modelled parts: the network form of an item definition or of the features of a
  node, the wide-string serialisers, the floating-point fields of packets, the crafting action, the boxes and the freezing of
  nodes, which are computed in floating point; the formats of blocks below version 29 are written but
  not read, and meshes, block modifiers and weather of a block are left out, as are the sectors,
  the lighting and the liquids of the map.
\<close>

end
